(* ===== verification/Prelude.thy ===== *)
theory Prelude
  imports Main "HOL-Library.Word"
begin

text \<open>
  Shared vocabulary of the development.

  A Rust \<open>Result<T>\<close> of this code base carries a \<open>Diagnostic\<close>
  (crates/tonic-core/src/diagnostic.rs); a slice index out of range, an \<open>expect\<close> on
  \<open>None\<close> or an \<open>unreachable!\<close> is a panic. Both are values here: \<open>Err\<close> and \<open>Panic\<close>
  of type \<open>res\<close>, so that every early return and every panic of the source is a
  branch of its model. A loop that is modelled with fuel returns \<open>Diverge\<close> when the fuel
  runs out; the theories prove that it does not, under the invariant the code keeps. Rust's \<open>String\<close> is compared, hashed and measured by its UTF-8 bytes,
  which is what HOL's \<open>string\<close> (a list of bytes) is.
\<close>

section \<open>Diagnostics and results\<close>

record span =
  span_start :: "32 word"
  span_end :: "32 word"

record diagnostic =
  diag_kind :: string
  diag_message :: string
  diag_filename :: "string option"
  diag_span :: "span option"
  diag_trace :: "(string \<times> span) list"

definition diag_new :: "string \<Rightarrow> string \<Rightarrow> diagnostic" where
  "diag_new k m = \<lparr>diag_kind = k, diag_message = m, diag_filename = None, diag_span = None,
     diag_trace = []\<rparr>"

definition diag_at :: "span \<Rightarrow> diagnostic \<Rightarrow> diagnostic" where
  "diag_at s d = d\<lparr>diag_span := Some s\<rparr>"

definition diag_in_file :: "string \<Rightarrow> diagnostic \<Rightarrow> diagnostic" where
  "diag_in_file f d = d\<lparr>diag_filename := Some f\<rparr>"

datatype 'a res = Ok 'a | Err diagnostic | Panic | Diverge

fun and_then :: "'a res \<Rightarrow> ('a \<Rightarrow> 'b res) \<Rightarrow> 'b res" where
  "and_then (Ok x) f = f x"
| "and_then (Err d) f = Err d"
| "and_then Panic f = Panic"
| "and_then Diverge f = Diverge"

text \<open>\<open>fail k m\<close> is \<open>Err(Diagnostic::new(k, m))\<close>, \<open>ok_or\<close> is \<open>Option::ok_or\<close>, and
  \<open>ensure c k m\<close> is the early return \<open>if !c { return Err(..) }\<close>.\<close>

abbreviation fail :: "string \<Rightarrow> string \<Rightarrow> 'a res" where
  "fail k m \<equiv> Err (diag_new k m)"

definition ok_or :: "'a option \<Rightarrow> diagnostic \<Rightarrow> 'a res" where
  "ok_or x d = (case x of None \<Rightarrow> Err d | Some y \<Rightarrow> Ok y)"

definition ensure :: "bool \<Rightarrow> diagnostic \<Rightarrow> unit res" where
  "ensure c d = (if c then Ok () else Err d)"

text \<open>Indexing a slice: out of range panics.\<close>

definition index_at :: "'a list \<Rightarrow> nat \<Rightarrow> 'a res" where
  "index_at xs i = (if i < length xs then Ok (xs ! i) else Panic)"

fun is_ok :: "'a res \<Rightarrow> bool" where
  "is_ok (Ok x) = True"
| "is_ok (Err d) = False"
| "is_ok Panic = False"
| "is_ok Diverge = False"

section \<open>Automation for results\<close>

text \<open>\<open>res_simps\<close>: how each way to build a result succeeds, fails or panics.\<close>

named_theorems res_simps

lemma and_then_Ok_iff [res_simps]:
  "and_then m f = Ok y \<longleftrightarrow> (\<exists>x. m = Ok x \<and> f x = Ok y)"
  by (cases m) auto

lemma and_then_Panic_iff [res_simps]:
  "and_then m f = Panic \<longleftrightarrow> m = Panic \<or> (\<exists>x. m = Ok x \<and> f x = Panic)"
  by (cases m) auto

lemma and_then_Diverge_iff [res_simps]:
  "and_then m f = Diverge \<longleftrightarrow> m = Diverge \<or> (\<exists>x. m = Ok x \<and> f x = Diverge)"
  by (cases m) auto

lemma and_then_Err_iff [res_simps]:
  "and_then m f = Err d \<longleftrightarrow> m = Err d \<or> (\<exists>x. m = Ok x \<and> f x = Err d)"
  by (cases m) auto

lemma and_then_assoc: "and_then (and_then m f) g = and_then m (\<lambda>x. and_then (f x) g)"
  by (cases m) auto

lemma ensure_Ok_iff [res_simps]: "ensure c d = Ok u \<longleftrightarrow> c"
  by (simp add: ensure_def)

lemma ensure_not_Panic [res_simps]:
  "ensure c d = Panic \<longleftrightarrow> False" "ensure c d = Diverge \<longleftrightarrow> False"
  by (simp_all add: ensure_def)

lemma ensure_Err_iff [res_simps]: "ensure c d = Err e \<longleftrightarrow> \<not> c \<and> e = d"
  by (auto simp: ensure_def)

lemma ok_or_Ok_iff [res_simps]: "ok_or x d = Ok y \<longleftrightarrow> x = Some y"
  by (simp add: ok_or_def split: option.splits)

lemma ok_or_not_Panic [res_simps]:
  "ok_or x d = Panic \<longleftrightarrow> False" "ok_or x d = Diverge \<longleftrightarrow> False"
  by (simp_all add: ok_or_def split: option.splits)

lemma ok_or_Err_iff [res_simps]: "ok_or x d = Err e \<longleftrightarrow> x = None \<and> e = d"
  by (auto simp: ok_or_def split: option.splits)

lemma index_at_Ok_iff [res_simps]: "index_at xs i = Ok y \<longleftrightarrow> i < length xs \<and> xs ! i = y"
  by (auto simp: index_at_def)

lemma index_at_Panic_iff [res_simps]: "index_at xs i = Panic \<longleftrightarrow> length xs \<le> i"
  by (auto simp: index_at_def)

lemma index_at_not_Err [res_simps]:
  "index_at xs i = Err d \<longleftrightarrow> False" "index_at xs i = Diverge \<longleftrightarrow> False"
  by (auto simp: index_at_def)

lemma is_ok_iff: "is_ok m \<longleftrightarrow> (\<exists>x. m = Ok x)"
  by (cases m) auto

text \<open>\<open>clean m\<close>: the call returns, with a value or with a diagnostic. It neither panics nor
  runs out of fuel.\<close>

definition clean :: "'a res \<Rightarrow> bool" where
  "clean m \<longleftrightarrow> m \<noteq> Panic \<and> m \<noteq> Diverge"

lemma clean_simps [simp]: "clean (Ok x)" "clean (Err d)" "\<not> clean Panic" "\<not> clean Diverge"
  by (simp_all add: clean_def)

lemma clean_and_then:
  "clean m \<Longrightarrow> (\<And>x. m = Ok x \<Longrightarrow> clean (f x)) \<Longrightarrow> clean (and_then m f)"
  by (cases m) auto

lemma clean_ensure [simp]: "clean (ensure c d)"
  by (simp add: ensure_def)

lemma clean_ok_or [simp]: "clean (ok_or x d)"
  by (simp add: ok_or_def split: option.splits)

lemma clean_index_at [simp]: "clean (index_at xs i) \<longleftrightarrow> i < length xs"
  by (simp add: index_at_def)

lemma cleanE:
  assumes "clean m" obtains x where "m = Ok x" | d where "m = Err d"
  using assms by (cases m) auto

text \<open>A loop \<open>for x in xs { s = f(s, x)?; }\<close> over a result.\<close>

fun try_fold :: "('s \<Rightarrow> 'a \<Rightarrow> 's res) \<Rightarrow> 's \<Rightarrow> 'a list \<Rightarrow> 's res" where
  "try_fold f s [] = Ok s"
| "try_fold f s (x # xs) = and_then (f s x) (\<lambda>s'. try_fold f s' xs)"

text \<open>A loop whose body only checks: \<open>for x in xs { f(x)?; }\<close>.\<close>

fun try_all :: "('a \<Rightarrow> unit res) \<Rightarrow> 'a list \<Rightarrow> unit res" where
  "try_all f [] = Ok ()"
| "try_all f (x # xs) = and_then (f x) (\<lambda>_. try_all f xs)"

text \<open>\<open>xs.iter().map(f).collect::<Result<Vec<_>>>()\<close>.\<close>

fun try_map :: "('a \<Rightarrow> 'b res) \<Rightarrow> 'a list \<Rightarrow> 'b list res" where
  "try_map f [] = Ok []"
| "try_map f (x # xs) = and_then (f x) (\<lambda>y. and_then (try_map f xs) (\<lambda>ys. Ok (y # ys)))"

text \<open>\<open>xs.iter().any(p)\<close> for a predicate that can fail, left to right up to the first hit.\<close>

fun try_any :: "('a \<Rightarrow> bool res) \<Rightarrow> 'a list \<Rightarrow> bool res" where
  "try_any p [] = Ok False"
| "try_any p (x # xs) = and_then (p x) (\<lambda>b. if b then Ok True else try_any p xs)"

text \<open>A loop that stops at the first element that is refused or whose key was seen before:
  \<open>if !ok(x) || !seen.insert(key(x)) { return Err(..) }\<close>. \<open>None\<close> is the refusal.\<close>

fun each_new :: "('a \<Rightarrow> 'k) \<Rightarrow> ('a \<Rightarrow> bool) \<Rightarrow> 'k set \<Rightarrow> 'a list \<Rightarrow> 'k set option" where
  "each_new key ok seen [] = Some seen"
| "each_new key ok seen (x # xs) =
     (if ok x \<and> key x \<notin> seen then each_new key ok (insert (key x) seen) xs else None)"

lemma each_new_Some_iff [res_simps]:
  "each_new key ok seen xs = Some s \<longleftrightarrow>
     (\<forall>x\<in>set xs. ok x) \<and> distinct (map key xs) \<and> seen \<inter> key ` set xs = {} \<and> s = seen \<union> key ` set xs"
  by (induction xs arbitrary: seen) auto

lemma try_any_False_iff: "try_any p xs = Ok False \<longleftrightarrow> (\<forall>x\<in>set xs. p x = Ok False)"
  by (induction xs) (auto simp: and_then_Ok_iff split: if_splits)

lemma clean_try_any: "(\<And>x. x \<in> set xs \<Longrightarrow> clean (p x)) \<Longrightarrow> clean (try_any p xs)"
  by (induction xs) (auto intro!: clean_and_then)

lemma try_all_Ok_iff [res_simps]: "try_all f xs = Ok u \<longleftrightarrow> (\<forall>x\<in>set xs. f x = Ok ())"
  by (induction xs) (auto simp: res_simps)

lemma clean_try_all: "(\<And>x. x \<in> set xs \<Longrightarrow> clean (f x)) \<Longrightarrow> clean (try_all f xs)"
  by (induction xs) (auto intro!: clean_and_then)

lemma try_map_Ok_iff [res_simps]:
  "try_map f xs = Ok ys \<longleftrightarrow> list_all2 (\<lambda>x y. f x = Ok y) xs ys"
  by (induction xs arbitrary: ys) (auto simp: res_simps list_all2_Cons1)

lemma clean_try_map: "(\<And>x. x \<in> set xs \<Longrightarrow> clean (f x)) \<Longrightarrow> clean (try_map f xs)"
  by (induction xs) (auto intro!: clean_and_then)

lemma try_fold_append:
  "try_fold f s (xs @ ys) = and_then (try_fold f s xs) (\<lambda>s'. try_fold f s' ys)"
  by (induction xs arbitrary: s) (auto simp: and_then_assoc)

text \<open>The invariant rule of \<open>try_fold\<close>.\<close>

lemma try_fold_invariant:
  assumes "try_fold f s xs = Ok t" and "P s"
    and "\<And>s x s'. x \<in> set xs \<Longrightarrow> P s \<Longrightarrow> f s x = Ok s' \<Longrightarrow> P s'"
  shows "P t"
  using assms
proof (induction xs arbitrary: s)
  case Nil
  then show ?case by simp
next
  case (Cons x xs)
  then obtain s' where "f s x = Ok s'" and "try_fold f s' xs = Ok t"
    by (auto simp: res_simps)
  with Cons show ?case by (metis list.set_intros(1) list.set_intros(2))
qed

section \<open>Operations on a state\<close>

text \<open>A method on \<open>&mut self\<close> that can fail returns its result together with the state it leaves
  behind, on failure too. \<open>run_then\<close> continues after a success.\<close>

type_synonym ('a, 's) run = "'a res \<times> 's"

fun run_then :: "('a, 's) run \<Rightarrow> ('a \<Rightarrow> 's \<Rightarrow> ('b, 's) run) \<Rightarrow> ('b, 's) run" where
  "run_then (Ok x, s) f = f x s"
| "run_then (Err d, s) f = (Err d, s)"
| "run_then (Panic, s) f = (Panic, s)"
| "run_then (Diverge, s) f = (Diverge, s)"

lemma run_then_Ok_iff [res_simps]:
  "run_then m f = (Ok y, t) \<longleftrightarrow> (\<exists>x s. m = (Ok x, s) \<and> f x s = (Ok y, t))"
  by (cases "(m, f)" rule: run_then.cases) auto

section \<open>Numbers in messages\<close>

text \<open>\<open>format!("{n}")\<close> of an unsigned number.\<close>

fun decimal :: "nat \<Rightarrow> string" where
  "decimal n = (if n < 10 then [char_of (48 + n)]
     else decimal (n div 10) @ [char_of (48 + n mod 10)])"

declare decimal.simps [simp del]

section \<open>Lists\<close>

lemma nth_list_update_eq_if: "i < length xs \<Longrightarrow> xs[i := x] ! j = (if i = j then x else xs ! j)"
  by (auto simp: nth_list_update)

lemma set_update_distinct_subset: "set (xs[i := x]) \<subseteq> insert x (set xs)"
  by (rule set_update_subset_insert)

lemma find_Some_D: "find P xs = Some x \<Longrightarrow> x \<in> set xs \<and> P x"
  by (induction xs) (auto split: if_splits)

lemma find_None_D: "find P xs = None \<Longrightarrow> x \<in> set xs \<Longrightarrow> \<not> P x"
  by (induction xs) (auto split: if_splits)

text \<open>\<open>iter().position(p)\<close>.\<close>

fun position :: "('a \<Rightarrow> bool) \<Rightarrow> 'a list \<Rightarrow> nat option" where
  "position p [] = None"
| "position p (x # xs) = (if p x then Some 0 else map_option Suc (position p xs))"

lemma position_Some_D:
  "position p xs = Some i \<Longrightarrow> i < length xs \<and> p (xs ! i) \<and> (\<forall>j<i. \<not> p (xs ! j))"
proof (induction xs arbitrary: i)
  case Nil
  then show ?case by simp
next
  case (Cons x xs)
  then show ?case
    by (auto simp: less_Suc_eq_0_disj split: if_splits)
qed

lemma position_None_iff: "position p xs = None \<longleftrightarrow> (\<forall>x\<in>set xs. \<not> p x)"
  by (induction xs) auto

lemma position_append:
  "position p (xs @ ys) = (case position p xs of Some i \<Rightarrow> Some i
     | None \<Rightarrow> map_option ((+) (length xs)) (position p ys))"
proof (induction xs)
  case Nil
  then show ?case by (cases "position p ys") auto
next
  case (Cons x xs)
  then show ?case by (cases "position p xs"; cases "position p ys") auto
qed

lemma map_of_zip_position:
  "length xs = length vs \<Longrightarrow> map_of (zip xs vs) k = map_option ((!) vs) (position ((=) k) xs)"
  by (induction xs vs rule: list_induct2) (auto simp: option.map_comp o_def)

lemma map_of_zip_update:
  "length xs = length vs \<Longrightarrow> distinct xs \<Longrightarrow> i < length vs \<Longrightarrow>
     map_of (zip xs (vs[i := v])) = (map_of (zip xs vs))(xs ! i \<mapsto> v)"
proof (induction xs vs arbitrary: i rule: list_induct2)
  case (Cons x xs w vs)
  then show ?case by (cases i) (auto simp: fun_eq_iff dest: nth_mem)
qed simp

lemma map_of_zip_snoc:
  "length xs < length vs \<Longrightarrow> x \<notin> set xs \<Longrightarrow>
     map_of (zip (xs @ [x]) vs) = (map_of (zip xs vs))(x \<mapsto> vs ! length xs)"
proof (induction xs arbitrary: vs)
  case Nil
  then show ?case by (cases vs) auto
next
  case (Cons y xs)
  then show ?case by (cases vs) (auto simp: fun_upd_twist)
qed

text \<open>\<open>Vec::remove(i)\<close> for an index in range.\<close>

definition remove_at :: "nat \<Rightarrow> 'a list \<Rightarrow> 'a list" where
  "remove_at i xs = take i xs @ drop (Suc i) xs"

lemma length_remove_at [simp]: "i < length xs \<Longrightarrow> length (remove_at i xs) = length xs - 1"
  by (simp add: remove_at_def)

lemma nth_remove_at:
  "i < length xs \<Longrightarrow> j < length xs - 1 \<Longrightarrow>
     remove_at i xs ! j = (if j < i then xs ! j else xs ! Suc j)"
  by (auto simp: remove_at_def nth_append)

lemma clean_try_fold_invariant:
  assumes "P s" "\<And>s x. x \<in> set xs \<Longrightarrow> P s \<Longrightarrow> clean (f s x)"
    and "\<And>s x s'. x \<in> set xs \<Longrightarrow> P s \<Longrightarrow> f s x = Ok s' \<Longrightarrow> P s'"
  shows "clean (try_fold f s xs)"
  using assms
proof (induction xs arbitrary: s)
  case (Cons x xs)
  have "clean (try_fold f s' xs)" if "f s x = Ok s'" for s'
  proof (rule Cons.IH)
    show "P s'" using Cons.prems(3) [of x s s'] Cons.prems(1) that by simp
  qed (use Cons.prems(2,3) in \<open>meson list.set_intros(2)\<close>)+
  then show ?case using Cons.prems(1,2) by (auto intro!: clean_and_then)
qed simp

lemma try_fold_each: "try_fold f s xs = Ok t \<Longrightarrow> x \<in> set xs \<Longrightarrow> \<exists>u u'. f u x = Ok u'"
  by (induction xs arbitrary: s) (auto simp: res_simps)

lemma clean_if: "(b \<Longrightarrow> clean x) \<Longrightarrow> (\<not> b \<Longrightarrow> clean y) \<Longrightarrow> clean (if b then x else y)"
  by simp

end
