(* ===== verification/Values.thy ===== *)
theory Values
  imports Prelude
begin

text \<open>
  The tagged 64-bit word of crates/tonic-runtime/src/value.rs.

  Tag bits 0--2: \<open>000\<close> a heap handle (slot index in bits 3--34, generation in bits 35--63),
  \<open>001\<close> a 61-bit signed integer in bits 3--63; the words 2 to 7 that are neither are
  False, True, None, Unbound, NotImplemented and Ellipsis. An \<open>i64\<close> is an \<open>int\<close> in
  \<open>[-2^63, 2^63)\<close>; \<open>as_int\<close> reads the word as signed and shifts arithmetically.
\<close>

unbundle bit_operations_syntax

datatype tvalue = Value "64 word"

primrec raw :: "tvalue \<Rightarrow> 64 word" where
  "raw (Value w) = w"

definition from_jit :: "64 word \<Rightarrow> tvalue" where
  "from_jit w = Value w"

definition NONE :: tvalue where "NONE = Value 4"
definition UNBOUND :: tvalue where "UNBOUND = Value 5"
definition NOT_IMPLEMENTED :: tvalue where "NOT_IMPLEMENTED = Value 6"
definition ELLIPSIS :: tvalue where "ELLIPSIS = Value 7"

definition MIN_INT :: int where "MIN_INT = - (2 ^ 60)"
definition MAX_INT :: int where "MAX_INT = 2 ^ 60 - 1"

definition i64_range :: "int \<Rightarrow> bool" where
  "i64_range n \<longleftrightarrow> - (2 ^ 63) \<le> n \<and> n < 2 ^ 63"

definition value_int :: "int \<Rightarrow> tvalue option" where
  "value_int n = (if MIN_INT \<le> n \<and> n \<le> MAX_INT
     then Some (Value (push_bit 3 (word_of_int n) OR 1)) else None)"

definition as_int :: "tvalue \<Rightarrow> int option" where
  "as_int v = (if raw v AND 7 = 1 then Some (drop_bit 3 (sint (raw v))) else None)"

definition value_bool :: "bool \<Rightarrow> tvalue" where
  "value_bool b = Value (if b then 3 else 2)"

definition as_bool :: "tvalue \<Rightarrow> bool option" where
  "as_bool v = (if raw v = 2 then Some False else if raw v = 3 then Some True else None)"

definition MAX_GENERATION :: nat where "MAX_GENERATION = 2 ^ 29 - 1"

text \<open>\<open>index\<close> and \<open>generation\<close> are \<open>u32\<close> in the code: the callers' numbers are below \<open>2 ^ 32\<close>.\<close>

definition value_heap :: "nat \<Rightarrow> nat \<Rightarrow> tvalue" where
  "value_heap index gen = Value (push_bit 35 (of_nat gen) OR push_bit 3 (of_nat index))"

definition heap_index :: "tvalue \<Rightarrow> nat option" where
  "heap_index v = (if raw v AND 7 = 0 then Some (take_bit 32 (unat (drop_bit 3 (raw v)))) else None)"

definition generation :: "tvalue \<Rightarrow> nat" where
  "generation v = take_bit 32 (unat (drop_bit 35 (raw v)))"

definition integer :: "tvalue \<Rightarrow> int option" where
  "integer v = (case as_int v of Some n \<Rightarrow> Some n
     | None \<Rightarrow> map_option (\<lambda>b. if b then 1 else 0) (as_bool v))"

section \<open>Encodings\<close>

lemma signed_61: "signed_take_bit 60 n = n" if "MIN_INT \<le> n" "n \<le> MAX_INT"
  using that by (simp add: signed_take_bit_int_eq_self_iff MIN_INT_def MAX_INT_def)

lemma and_7: "w AND 7 = take_bit 3 (w :: 64 word)"
  by (simp add: take_bit_eq_mask mask_eq_exp_minus_1)

lemma tag_int: "(push_bit 3 w OR 1) AND 7 = (1 :: 64 word)"
  unfolding and_7 by (rule bit_word_eqI) (auto simp: bit_simps bit_1_iff)

lemma as_int_push: "drop_bit 3 (sint (push_bit 3 (word_of_int n :: 64 word) OR 1)) = signed_take_bit 60 n"
  by (rule bit_eqI) (auto simp: bit_simps bit_1_iff min_def)

lemma as_int_value_int: "value_int n = Some v \<Longrightarrow> as_int v = Some n"
  by (auto simp: value_int_def as_int_def tag_int as_int_push signed_61 split: if_splits)

lemma as_int_bounds: "as_int v = Some n \<Longrightarrow> MIN_INT \<le> n \<and> n \<le> MAX_INT"
proof -
  assume "as_int v = Some n"
  then have "n = drop_bit 3 (sint (raw v))" by (simp add: as_int_def split: if_splits)
  moreover have "- (2 ^ 63) \<le> sint (raw v)" "sint (raw v) < 2 ^ 63"
    using sint_greater_eq[of "raw v"] sint_less[of "raw v"] by simp_all
  ultimately show ?thesis unfolding drop_bit_eq_div MIN_INT_def MAX_INT_def by simp linarith
qed

lemma value_int_as_int: "as_int v = Some n \<Longrightarrow> value_int n = Some v"
proof (cases v)
  case (Value w)
  assume a: "as_int v = Some n"
  then have "n = drop_bit 3 (sint w)" and t: "w AND 7 = 1"
    by (auto simp: as_int_def Value split: if_splits)
  have "push_bit 3 (word_of_int (drop_bit 3 (sint w)) :: 64 word) OR 1 = w"
  proof (rule bit_word_eqI)
    fix k assume k: "k < LENGTH(64)"
    have "bit (take_bit 3 w) j = bit (1 :: 64 word) j" for j
      using t by (simp add: and_7)
    from this[of 0] this[of 1] this[of 2] have b: "bit w 0" "\<not> bit w 1" "\<not> bit w 2"
      by (auto simp: bit_simps bit_1_iff)
    from k consider "k = 0" | "k = 1" | "k = 2" | "k = 63" | "3 \<le> k" "k < 63" by fastforce
    then show "bit (push_bit 3 (word_of_int (drop_bit 3 (sint w)) :: 64 word) OR 1) k = bit w k"
      using b k by cases (auto simp: bit_simps bit_1_iff min_def)
  qed
  with a as_int_bounds[OF a] show ?thesis by (simp add: value_int_def Value \<open>n = _\<close>)
qed

lemma value_heap_tag: "raw (value_heap i g) AND 7 = 0"
  unfolding and_7 by (rule bit_word_eqI) (auto simp: value_heap_def bit_simps)

lemma nat_of_bits: "(\<And>k. bit (a::nat) k = bit b k) \<Longrightarrow> a = b"
  by (rule bit_eqI) auto

lemma heap_index_value_heap: "i < 2 ^ 32 \<Longrightarrow> heap_index (value_heap i g) = Some i"
proof -
  assume "i < 2 ^ 32"
  then have i: "take_bit 32 i = i" by (simp add: take_bit_nat_eq_self_iff)
  have "take_bit 32 (unat (drop_bit 3 (raw (value_heap i g)))) = take_bit 32 i"
    by (rule bit_eqI) (auto simp: value_heap_def bit_simps)
  with i show ?thesis by (simp add: heap_index_def value_heap_tag)
qed

lemma generation_value_heap: "i < 2 ^ 32 \<Longrightarrow> g \<le> MAX_GENERATION \<Longrightarrow> generation (value_heap i g) = g"
proof -
  assume "i < 2 ^ 32" "g \<le> MAX_GENERATION"
  then have i: "take_bit 32 i = i" and g: "take_bit 29 g = g"
    by (auto simp: take_bit_nat_eq_self_iff MAX_GENERATION_def)
  have "generation (value_heap i g) = take_bit 29 g"
  proof (unfold generation_def, rule bit_eqI)
    fix k
    have "\<not> bit i (32 + k)" by (subst i[symmetric]) (simp add: bit_simps)
    then show "bit (take_bit 32 (unat (drop_bit 35 (raw (value_heap i g))))) k = bit (take_bit 29 g) k"
      by (auto simp: value_heap_def bit_simps)
  qed
  with g show ?thesis by simp
qed

lemma value_heap_heap_index:
  assumes "heap_index v = Some i"
  shows "v = value_heap i (generation v)"
proof (cases v)
  case (Value w)
  have t: "take_bit 3 w = 0" and i: "i = take_bit 32 (unat (drop_bit 3 w))"
    using assms by (auto simp: heap_index_def Value and_7 split: if_splits)
  have low: "\<not> bit w k" if "k < 3" for k
    using arg_cong[OF t, of "\<lambda>x. bit x k"] that by (simp add: bit_simps)
  have "w = push_bit 35 (of_nat (generation v)) OR push_bit 3 (of_nat i)"
  proof (rule bit_word_eqI)
    fix k assume k: "k < LENGTH(64)"
    consider "k < 3" | "3 \<le> k" "k < 35" | "35 \<le> k" by linarith
    then show "bit w k = bit (push_bit 35 (of_nat (generation v)) OR push_bit 3 (of_nat i) :: 64 word) k"
      using k low[of k] by cases (auto simp: bit_simps generation_def i Value)
  qed
  then show ?thesis by (simp add: value_heap_def Value)
qed

lemma heap_value_eqI:
  "heap_index v = Some i \<Longrightarrow> heap_index w = Some i \<Longrightarrow> generation v = generation w \<Longrightarrow> v = w"
  using value_heap_heap_index by metis

lemma heap_index_bound: "heap_index v = Some i \<Longrightarrow> i < 2 ^ 32"
  using take_bit_nat_less_exp [of 32 "unat (drop_bit 3 (raw v))"]
  by (auto simp: heap_index_def split: if_splits)

lemma generation_bound: "generation v \<le> MAX_GENERATION"
proof -
  have "unat (drop_bit 35 (raw v)) = unat (raw v) div 2 ^ 35"
    by (simp add: drop_bit_eq_div unat_div_distrib)
  also have "\<dots> < 2 ^ 29"
  proof -
    have "unat (raw v) < 2 ^ LENGTH(64)" by (rule unsigned_less)
    then show ?thesis by (simp add: less_mult_imp_div_less)
  qed
  finally have "unat (drop_bit 35 (raw v)) < 2 ^ 29" .
  moreover have "generation v \<le> unat (drop_bit 35 (raw v))"
    unfolding generation_def by (rule take_bit_nat_less_eq_self)
  ultimately show ?thesis by (simp add: MAX_GENERATION_def)
qed

lemma special_not_heap [simp]:
  "heap_index NONE = None" "heap_index UNBOUND = None" "heap_index NOT_IMPLEMENTED = None"
  "heap_index ELLIPSIS = None" "heap_index (value_bool b) = None"
  by (simp_all add: heap_index_def NONE_def UNBOUND_def NOT_IMPLEMENTED_def ELLIPSIS_def value_bool_def)

lemma special_not_integer [simp]:
  "integer NONE = None" "integer UNBOUND = None" "integer NOT_IMPLEMENTED = None"
  "integer ELLIPSIS = None"
  by (simp_all add: integer_def as_int_def as_bool_def NONE_def UNBOUND_def NOT_IMPLEMENTED_def
      ELLIPSIS_def)

lemma as_bool_value_bool [simp]: "as_bool (value_bool b) = Some b"
  by (simp add: as_bool_def value_bool_def)

lemma integer_value_bool [simp]: "integer (value_bool b) = Some (if b then 1 else 0)"
  by (simp add: integer_def as_int_def value_bool_def as_bool_def)

lemma heap_not_int: "heap_index v = Some i \<Longrightarrow> as_int v = None"
  by (auto simp: heap_index_def as_int_def split: if_splits)

lemma heap_not_bool: "heap_index v = Some i \<Longrightarrow> as_bool v = None"
  by (auto simp: heap_index_def as_bool_def split: if_splits)

section \<open>Properties\<close>

text \<open>Small integers round trip through the tagged word, in both directions: the encoder
  produces \<open>v\<close> for \<open>n\<close> exactly when the decoder reads \<open>n\<close> from \<open>v\<close>, and it refuses exactly the
  numbers outside 61 bits.\<close>

theorem value_int_roundtrip:
  "(value_int n = Some v \<longleftrightarrow> as_int v = Some n) \<and>
   (value_int n = None \<longleftrightarrow> \<not> (MIN_INT \<le> n \<and> n \<le> MAX_INT))"
proof
  show "value_int n = Some v \<longleftrightarrow> as_int v = Some n"
    using as_int_value_int [of n v] value_int_as_int [of v n] by blast
  show "value_int n = None \<longleftrightarrow> \<not> (MIN_INT \<le> n \<and> n \<le> MAX_INT)"
    by (simp add: value_int_def)
qed

text \<open>A heap word holds exactly its slot index and generation, and is none of the other values:
  decoding gives back the index and the generation, only this word decodes so, and it is neither
  an integer nor a boolean.\<close>

theorem value_heap_roundtrip:
  assumes "i < 2 ^ 32" "g \<le> MAX_GENERATION"
  shows "(heap_index v = Some i \<and> generation v = g \<longleftrightarrow> v = value_heap i g) \<and>
    integer (value_heap i g) = None"
proof -
  have h: "heap_index (value_heap i g) = Some i" by (rule heap_index_value_heap [OF assms(1)])
  then show ?thesis
    using generation_value_heap [OF assms] value_heap_heap_index [of v i] heap_not_int [OF h]
      heap_not_bool [OF h] by (auto simp: integer_def)
qed

lemma value_heap_roundtrip_witness:
  "(heap_index (Value 34359738392) = Some 3 \<and> generation (Value 34359738392) = 1
     \<longleftrightarrow> Value 34359738392 = value_heap 3 1) \<and> integer (value_heap 3 1) = None"
  by (rule value_heap_roundtrip) (simp_all add: MAX_GENERATION_def)

end
