(* ===== verification/Interfaces.thy ===== *)
theory Interfaces
  imports Prelude
begin

text \<open>
  The interfaces that several components of the runtime implement, stated once as locales.

  A \<open>keyed_store\<close> is what the attribute storage of an object, a dictionary and the external
  field table have in common: a lookup and a store that behave like a finite map under the
  component's invariant. \<open>room\<close> is the component's bound (a version counter that may still
  advance, a table that may still grow); where there is none it is true.
\<close>

locale keyed_store =
  fixes invar :: "'s \<Rightarrow> bool"
    and room :: "'s \<Rightarrow> bool"
    and abs :: "'s \<Rightarrow> 'k \<Rightarrow> 'v option"
    and lookup :: "'s \<Rightarrow> 'k \<Rightarrow> 'v option res"
    and store :: "'s \<Rightarrow> 'k \<Rightarrow> 'v \<Rightarrow> 's res"
  assumes lookup_abs: "invar s \<Longrightarrow> lookup s k = Ok (abs s k)"
    and store_ok: "invar s \<Longrightarrow> room s \<Longrightarrow>
      \<exists>s'. store s k v = Ok s' \<and> invar s' \<and> abs s' = (abs s)(k \<mapsto> v)"
begin

lemma store_invar: "invar s \<Longrightarrow> room s \<Longrightarrow> store s k v = Ok s' \<Longrightarrow> invar s'"
  using store_ok [of s k v] by auto

lemma store_abs: "invar s \<Longrightarrow> room s \<Longrightarrow> store s k v = Ok s' \<Longrightarrow> abs s' = (abs s)(k \<mapsto> v)"
  using store_ok [of s k v] by auto

text \<open>Reading back: the stored key gives the stored value, every other key what it gave before.\<close>

lemma lookup_store_same: "invar s \<Longrightarrow> room s \<Longrightarrow> store s k v = Ok s' \<Longrightarrow> lookup s' k = Ok (Some v)"
  using lookup_abs [of s' k] store_invar [of s k v s'] store_abs [of s k v s'] by simp

lemma lookup_store_other:
  "invar s \<Longrightarrow> room s \<Longrightarrow> store s k v = Ok s' \<Longrightarrow> k' \<noteq> k \<Longrightarrow> lookup s' k' = lookup s k'"
  using lookup_abs [of s k'] lookup_abs [of s' k'] store_invar [of s k v s'] store_abs [of s k v s']
  by simp

text \<open>Only the last store to a key counts.\<close>

lemma store_store_abs:
  "invar s \<Longrightarrow> room s \<Longrightarrow> store s k v = Ok s1 \<Longrightarrow> room s1 \<Longrightarrow> store s1 k w = Ok s2 \<Longrightarrow>
     abs s2 = (abs s)(k \<mapsto> w)"
  using store_abs [of s k v s1] store_abs [of s1 k w s2] store_invar [of s k v s1] by simp

lemma store_all_abs:
  assumes "invar s" "try_fold (\<lambda>s (k, v). store s k v) s kvs = Ok s'"
    and "\<And>t. invar t \<Longrightarrow> room t"
  shows "invar s' \<and> abs s' = abs s ++ map_of (rev kvs)"
  using assms(1,2)
proof (induction kvs arbitrary: s)
  case Nil
  then show ?case by simp
next
  case (Cons kv kvs)
  obtain k v where kv: "kv = (k, v)" by force
  with Cons.prems obtain s1 where s1: "store s k v = Ok s1"
    and rest: "try_fold (\<lambda>s (k, v). store s k v) s1 kvs = Ok s'"
    by (auto simp: res_simps)
  have "invar s1" "abs s1 = (abs s)(k \<mapsto> v)"
    using store_invar store_abs Cons.prems(1) s1 assms(3) by blast+
  with Cons.IH [OF _ rest] kv show ?case
    by (simp add: map_add_def fun_eq_iff map_add_Some_iff split: option.splits)
qed

end

text \<open>A store that can also drop a key, and says what it held.\<close>

locale keyed_store_remove = keyed_store +
  fixes remove :: "'s \<Rightarrow> 'k \<Rightarrow> ('v option \<times> 's) res"
  assumes remove_ok: "invar s \<Longrightarrow> room s \<Longrightarrow>
      \<exists>s'. remove s k = Ok (abs s k, s') \<and> invar s' \<and> abs s' = (abs s)(k := None)"
begin

lemma remove_lookup_same:
  "invar s \<Longrightarrow> room s \<Longrightarrow> remove s k = Ok (x, s') \<Longrightarrow> lookup s' k = Ok None"
  using remove_ok [of s k] lookup_abs by auto

lemma remove_lookup_other:
  "invar s \<Longrightarrow> room s \<Longrightarrow> remove s k = Ok (x, s') \<Longrightarrow> k' \<noteq> k \<Longrightarrow> lookup s' k' = lookup s k'"
  using remove_ok [of s k] lookup_abs by auto

lemma remove_absent: "invar s \<Longrightarrow> room s \<Longrightarrow> remove s k = Ok (None, s') \<Longrightarrow> abs s' = abs s"
  using remove_ok [of s k] by (auto simp: fun_eq_iff)

lemma store_remove_abs:
  "invar s \<Longrightarrow> room s \<Longrightarrow> store s k v = Ok s1 \<Longrightarrow> room s1 \<Longrightarrow> remove s1 k = Ok (x, s2) \<Longrightarrow>
     x = Some v \<and> abs s2 = (abs s)(k := None)"
  using remove_ok [of s1 k] store_abs [of s k v s1] store_invar [of s k v s1] by auto

end

end
