(* ===== verification/Shapes.thy ===== *)
theory Shapes
  imports Values Interfaces "HOL-Library.AList"
begin

text \<open>
  Shared attribute layouts: crates/tonic-runtime/src/shapes.rs.

  A shape is a node of a tree of attribute names: its identifier is one more than its index in
  \<open>nodes\<close>, identifier 0 is the empty layout, and the attribute added by a node lies in slot
  \<open>depth - 1\<close> of an object of that shape. An object keeps its attributes in slots described by a
  shape until the bounds of the tree are reached or an attribute is deleted; from then on it owns a
  dictionary. A hash map whose entries are enumerated is an association list with distinct keys,
  one that is only looked up a map. The walk towards the root carries fuel: every node's
  parent is an older node, so the number of nodes is enough (\<open>slot_layout\<close>).
  Capacity-dependent byte estimates are not modelled.
\<close>

section \<open>The shape tree\<close>

record shape =
  parent :: nat
  shape_name :: string
  depth :: nat

record shapes =
  nodes :: "shape list"
  transitions :: "nat \<Rightarrow> (string \<rightharpoonup> nat)"

definition shapes_default :: shapes where
  "shapes_default = \<lparr>nodes = [], transitions = (\<lambda>_. Map.empty)\<rparr>"

definition shapes_len :: "shapes \<Rightarrow> nat" where
  "shapes_len s = length (nodes s) + 1"

text \<open>\<open>depth - 1\<close> on a \<open>usize\<close>: zero panics.\<close>

definition depth_slot :: "shape \<Rightarrow> nat res" where
  "depth_slot sh = (if depth sh = 0 then Panic else Ok (depth sh - 1))"

fun slot_from :: "nat \<Rightarrow> shapes \<Rightarrow> nat \<Rightarrow> string \<Rightarrow> nat option res" where
  "slot_from 0 s sid name = Diverge"
| "slot_from (Suc fuel) s sid name =
     (if sid = 0 then Ok None
      else and_then (index_at (nodes s) (sid - 1)) (\<lambda>sh.
        if shape_name sh = name then and_then (depth_slot sh) (\<lambda>d. Ok (Some d))
        else slot_from fuel s (parent sh) name))"

definition slot :: "shapes \<Rightarrow> nat \<Rightarrow> string \<Rightarrow> nat option res" where
  "slot s sid name = slot_from (shapes_len s) s sid name"

definition transition :: "shapes \<Rightarrow> nat \<Rightarrow> string \<Rightarrow> (shapes \<times> nat option) res" where
  "transition s sid name =
     (case transitions s sid name of
        Some next \<Rightarrow> Ok (s, Some next)
      | None \<Rightarrow>
          and_then (if sid = 0 then Ok 0
                    else and_then (index_at (nodes s) (sid - 1)) (\<lambda>sh. Ok (depth sh)))
            (\<lambda>d. if 64 \<le> d \<or> 4096 \<le> length (nodes s) \<or> 1024 < length name then Ok (s, None)
              else let next = length (nodes s) + 1 in
                Ok (s\<lparr>nodes := nodes s @ [\<lparr>parent = sid, shape_name = name, depth = d + 1\<rparr>],
                       transitions := (transitions s)(sid := (transitions s sid)(name \<mapsto> next))\<rparr>,
                    Some next)))"

fun materialize_from ::
  "nat \<Rightarrow> shapes \<Rightarrow> nat \<Rightarrow> tvalue list \<Rightarrow> (string \<times> tvalue) list \<Rightarrow> (string \<times> tvalue) list res" where
  "materialize_from 0 s sid vs m = Diverge"
| "materialize_from (Suc fuel) s sid vs m =
     (if sid = 0 then Ok m
      else and_then (index_at (nodes s) (sid - 1)) (\<lambda>sh.
        and_then (depth_slot sh) (\<lambda>d.
        and_then (index_at vs d) (\<lambda>v.
        materialize_from fuel s (parent sh) vs (AList.update (shape_name sh) v m)))))"

definition materialize :: "shapes \<Rightarrow> nat \<Rightarrow> tvalue list \<Rightarrow> (string \<times> tvalue) list res" where
  "materialize s sid vs = materialize_from (shapes_len s) s sid vs []"

section \<open>Attributes of one object\<close>

datatype attributes = Slots nat "tvalue list" | Dictionary "(string \<times> tvalue) list"

definition attributes_default :: attributes where
  "attributes_default = Slots 0 []"

fun slot_cache :: "attributes \<Rightarrow> shapes \<Rightarrow> string \<Rightarrow> (nat \<times> nat) option res" where
  "slot_cache (Slots sh vs) s name = and_then (slot s sh name) (\<lambda>i. Ok (map_option (Pair sh) i))"
| "slot_cache (Dictionary m) s name = Ok None"

fun cached_slot :: "attributes \<Rightarrow> nat \<Rightarrow> nat \<Rightarrow> tvalue option" where
  "cached_slot (Slots actual vs) sh i =
     (if actual = sh then (if i < length vs then Some (vs ! i) else None) else None)"
| "cached_slot (Dictionary m) sh i = None"

fun attributes_trace :: "attributes \<Rightarrow> tvalue list" where
  "attributes_trace (Slots sh vs) = vs"
| "attributes_trace (Dictionary m) = map snd m"

fun attributes_get :: "shapes \<Rightarrow> attributes \<Rightarrow> string \<Rightarrow> tvalue option res" where
  "attributes_get s (Slots sh vs) name =
     and_then (slot s sh name) (\<lambda>i. case i of None \<Rightarrow> Ok None
       | Some i \<Rightarrow> and_then (index_at vs i) (\<lambda>v. Ok (Some v)))"
| "attributes_get s (Dictionary m) name = Ok (map_of m name)"

fun attributes_set :: "shapes \<Rightarrow> attributes \<Rightarrow> string \<Rightarrow> tvalue \<Rightarrow> (shapes \<times> attributes) res" where
  "attributes_set s (Slots sh vs) name v =
     and_then (slot s sh name) (\<lambda>i. case i of
       Some i \<Rightarrow> if i < length vs then Ok (s, Slots sh (vs[i := v])) else Panic
     | None \<Rightarrow> and_then (transition s sh name) (\<lambda>(s', next). case next of
         Some next \<Rightarrow> Ok (s', Slots next (vs @ [v]))
       | None \<Rightarrow> and_then (materialize s' sh vs) (\<lambda>m. Ok (s', Dictionary (AList.update name v m)))))"
| "attributes_set s (Dictionary m) name v = Ok (s, Dictionary (AList.update name v m))"

fun attributes_delete :: "shapes \<Rightarrow> attributes \<Rightarrow> string \<Rightarrow> (tvalue option \<times> attributes) res" where
  "attributes_delete s (Slots sh vs) name =
     and_then (materialize s sh vs) (\<lambda>m. case map_of m name of
       Some v \<Rightarrow> Ok (Some v, Dictionary (AList.delete name m))
     | None \<Rightarrow> Ok (None, Slots sh vs))"
| "attributes_delete s (Dictionary m) name =
     Ok (map_of m name, Dictionary (AList.delete name m))"

section \<open>The invariant of the tree\<close>

text \<open>The node of an identifier other than 0.\<close>

definition node :: "shapes \<Rightarrow> nat \<Rightarrow> shape" where
  "node s sid = nodes s ! (sid - 1)"

definition depth_of :: "shapes \<Rightarrow> nat \<Rightarrow> nat" where
  "depth_of s sid = (if sid = 0 then 0 else depth (node s sid))"

text \<open>The names of a layout from slot 0 on.\<close>

function layout :: "shapes \<Rightarrow> nat \<Rightarrow> string list" where
  "layout s sid =
     (if sid = 0 \<or> sid \<le> parent (node s sid) then []
      else layout s (parent (node s sid)) @ [shape_name (node s sid)])"
  by pat_completeness auto
termination
  by (relation "measure snd") auto

declare layout.simps [simp del]

definition shapes_wf :: "shapes \<Rightarrow> bool" where
  "shapes_wf s \<longleftrightarrow>
     length (nodes s) \<le> 4096 \<and>
     (\<forall>sid. 0 < sid \<and> sid \<le> length (nodes s) \<longrightarrow>
        parent (node s sid) < sid \<and>
        depth (node s sid) = Suc (depth_of s (parent (node s sid))) \<and>
        depth (node s sid) \<le> 64 \<and>
        shape_name (node s sid) \<notin> set (layout s (parent (node s sid)))) \<and>
     (\<forall>sid name next. transitions s sid name = Some next \<longrightarrow>
        0 < next \<and> next \<le> length (nodes s) \<and> parent (node s next) = sid \<and>
        shape_name (node s next) = name)"

fun attributes_wf :: "shapes \<Rightarrow> attributes \<Rightarrow> bool" where
  "attributes_wf s (Slots sh vs) \<longleftrightarrow> sh \<le> length (nodes s) \<and> length vs = depth_of s sh"
| "attributes_wf s (Dictionary m) \<longleftrightarrow> distinct (map fst m)"

text \<open>The attributes an object has, as a map.\<close>

fun attributes_map :: "shapes \<Rightarrow> attributes \<Rightarrow> (string \<rightharpoonup> tvalue)" where
  "attributes_map s (Slots sh vs) = map_of (zip (layout s sh) vs)"
| "attributes_map s (Dictionary m) = map_of m"

section \<open>Layouts\<close>

lemma layout_0 [simp]: "layout s 0 = []"
  by (simp add: layout.simps)

lemma depth_of_0 [simp]: "depth_of s 0 = 0"
  by (simp add: depth_of_def)

lemma index_node [simp]:
  "0 < sid \<Longrightarrow> sid \<le> length (nodes s) \<Longrightarrow> index_at (nodes s) (sid - Suc 0) = Ok (node s sid)"
  by (simp add: index_at_def node_def)

lemma shapes_wfD:
  assumes "shapes_wf s" "0 < sid" "sid \<le> length (nodes s)"
  shows "parent (node s sid) < sid"
    and "depth (node s sid) = Suc (depth_of s (parent (node s sid)))"
    and "depth (node s sid) \<le> 64"
    and "shape_name (node s sid) \<notin> set (layout s (parent (node s sid)))"
    and "parent (node s sid) \<le> length (nodes s)"
  using assms unfolding shapes_wf_def by (auto dest!: spec [of _ sid])

lemma layout_step:
  assumes "shapes_wf s" "0 < sid" "sid \<le> length (nodes s)"
  shows "layout s sid = layout s (parent (node s sid)) @ [shape_name (node s sid)]"
  using shapes_wfD(1) [OF assms] assms(2) by (subst layout.simps) simp

text \<open>Induction along the chain of parents.\<close>

lemma shape_induct [consumes 2, case_names root node]:
  assumes "shapes_wf s" "sid \<le> length (nodes s)"
    and "P 0"
    and "\<And>sid. 0 < sid \<Longrightarrow> sid \<le> length (nodes s) \<Longrightarrow> P (parent (node s sid)) \<Longrightarrow> P sid"
  shows "P sid"
  using assms(2)
proof (induction sid rule: less_induct)
  case (less sid)
  then show ?case
    using assms(3,4) shapes_wfD(1,5) [OF assms(1), of sid] by (cases "sid = 0") auto
qed

lemma layout_length:
  assumes "shapes_wf s" "sid \<le> length (nodes s)"
  shows "length (layout s sid) = depth_of s sid"
  using assms
proof (induction sid rule: shape_induct)
  case (node sid)
  then show ?case
    using shapes_wfD(2) [OF assms(1), of sid] by (simp add: layout_step [OF assms(1)] depth_of_def)
qed simp

lemma layout_distinct:
  assumes "shapes_wf s" "sid \<le> length (nodes s)"
  shows "distinct (layout s sid)"
  using assms
proof (induction sid rule: shape_induct)
  case (node sid)
  then show ?case using shapes_wfD(4) [OF assms(1), of sid] by (simp add: layout_step [OF assms(1)])
qed simp

lemma depth_of_bound:
  assumes "shapes_wf s" "sid \<le> length (nodes s)"
  shows "depth_of s sid \<le> 64"
  using shapes_wfD(3) [OF assms(1), of sid] assms(2) by (auto simp: depth_of_def)

lemma slot_from_layout:
  assumes wf: "shapes_wf s" and "sid \<le> length (nodes s)" "sid < fuel"
  shows "slot_from fuel s sid name = Ok (position ((=) name) (layout s sid))"
  using assms(2,3)
proof (induction fuel arbitrary: sid)
  case 0
  then show ?case by simp
next
  case (Suc fuel)
  show ?case
  proof (cases "sid = 0")
    case True
    then show ?thesis by simp
  next
    case False
    let ?sh = "node s sid"
    from False have sid: "0 < sid" by simp
    note node = shapes_wfD [OF wf sid Suc.prems(1)]
    have len: "length (layout s (parent ?sh)) = depth ?sh - 1"
      using node layout_length [OF wf] by simp
    have IH: "slot_from fuel s (parent ?sh) name = Ok (position ((=) name) (layout s (parent ?sh)))"
      using node Suc.prems by (intro Suc.IH) auto
    have none: "shape_name ?sh = name \<Longrightarrow> position ((=) name) (layout s (parent ?sh)) = None"
      using node(4) by (auto simp: position_None_iff)
    show ?thesis
      using sid Suc.prems node none
      by (auto simp: depth_slot_def layout_step [OF wf] len IH position_append split: option.splits)
  qed
qed

lemma slot_layout:
  "shapes_wf s \<Longrightarrow> sid \<le> length (nodes s) \<Longrightarrow> slot s sid name = Ok (position ((=) name) (layout s sid))"
  by (simp add: slot_def shapes_len_def slot_from_layout del: slot_from.simps)

lemma attributes_get_map:
  "shapes_wf s \<Longrightarrow> attributes_wf s a \<Longrightarrow> attributes_get s a name = Ok (attributes_map s a name)"
  by (cases a) (auto simp: slot_layout map_of_zip_position layout_length index_at_def
      dest: position_Some_D split: option.splits)

text \<open>What \<open>materialize\<close> collects.\<close>

lemma materialize_from_map:
  assumes wf: "shapes_wf s" and "sid \<le> length (nodes s)" "sid < fuel" "depth_of s sid \<le> length vs"
    and "distinct (map fst m)"
  shows "\<exists>m'. materialize_from fuel s sid vs m = Ok m' \<and> distinct (map fst m') \<and>
    map_of m' = map_of m ++ map_of (zip (layout s sid) vs)"
  using assms(2-)
proof (induction fuel arbitrary: sid m)
  case 0
  then show ?case by simp
next
  case (Suc fuel)
  show ?case
  proof (cases "sid = 0")
    case True
    then show ?thesis using Suc.prems by simp
  next
    case False
    let ?sh = "node s sid"
    let ?d = "depth_of s (parent ?sh)"
    from False have sid: "0 < sid" by simp
    note node = shapes_wfD [OF wf sid Suc.prems(1)]
    have len: "length (layout s (parent ?sh)) = ?d" "?d < length vs"
      using node layout_length [OF wf] Suc.prems(3) sid by (simp_all add: depth_of_def)
    let ?m = "AList.update (shape_name ?sh) (vs ! ?d) m"
    have "\<exists>m'. materialize_from fuel s (parent ?sh) vs ?m = Ok m' \<and> distinct (map fst m') \<and>
      map_of m' = map_of ?m ++ map_of (zip (layout s (parent ?sh)) vs)"
      using node Suc.prems len sid by (intro Suc.IH) (auto simp: distinct_update)
    moreover have "map_of (zip (layout s sid) vs)
       = (map_of (zip (layout s (parent ?sh)) vs))(shape_name ?sh \<mapsto> vs ! ?d)"
      using node(4) len by (simp add: layout_step [OF wf sid Suc.prems(1)] map_of_zip_snoc)
    moreover have "map_of (zip (layout s (parent ?sh)) vs) (shape_name ?sh) = None"
      using node(4) len by (auto simp: map_of_eq_None_iff dest: set_zip_leftD)
    moreover have "materialize_from (Suc fuel) s sid vs m = materialize_from fuel s (parent ?sh) vs ?m"
      using sid Suc.prems node len by (simp add: depth_slot_def index_at_def [of vs])
    ultimately show ?thesis
      by (auto simp: update_conv' map_add_upd_left domIff simp del: materialize_from.simps fun_upd_apply
          simp flip: map_add_upd)
  qed
qed

lemma materialize_map:
  assumes "shapes_wf s" "attributes_wf s (Slots sid vs)"
  shows "\<exists>m. materialize s sid vs = Ok m \<and> distinct (map fst m) \<and>
    map_of m = attributes_map s (Slots sid vs)"
  using materialize_from_map [of s sid "shapes_len s" vs "[]"] assms
  by (auto simp: materialize_def shapes_len_def simp del: materialize_from.simps)

text \<open>Growing the tree: identifiers that exist keep their nodes.\<close>

definition shapes_le :: "shapes \<Rightarrow> shapes \<Rightarrow> bool" where
  "shapes_le s s' \<longleftrightarrow> (\<exists>new. nodes s' = nodes s @ new)"

lemma shapes_le_refl [simp]: "shapes_le s s"
  by (simp add: shapes_le_def)

lemma shapes_le_trans: "shapes_le s t \<Longrightarrow> shapes_le t u \<Longrightarrow> shapes_le s u"
  by (auto simp: shapes_le_def)

lemma shapes_le_length: "shapes_le s s' \<Longrightarrow> length (nodes s) \<le> length (nodes s')"
  by (auto simp: shapes_le_def)

lemma shapes_le_node:
  "shapes_le s s' \<Longrightarrow> 0 < sid \<Longrightarrow> sid \<le> length (nodes s) \<Longrightarrow> node s' sid = node s sid"
  by (auto simp: shapes_le_def node_def nth_append)

lemma shapes_le_depth:
  "shapes_le s s' \<Longrightarrow> sid \<le> length (nodes s) \<Longrightarrow> depth_of s' sid = depth_of s sid"
  by (auto simp: depth_of_def shapes_le_node)

lemma shapes_le_layout:
  assumes "shapes_wf s" "shapes_le s s'" "sid \<le> length (nodes s)"
  shows "layout s' sid = layout s sid"
  using assms(1,3)
proof (induction sid rule: shape_induct)
  case (node sid)
  then show ?case
    using shapes_wfD(1) [OF assms(1), of sid] shapes_le_node [OF assms(2), of sid]
    by (subst (1 2) layout.simps) simp
qed simp

lemma shapes_le_attributes:
  assumes "shapes_wf s" "shapes_le s s'" "attributes_wf s a"
  shows "attributes_wf s' a" "attributes_map s' a = attributes_map s a"
  using assms shapes_le_layout [OF assms(1,2)] shapes_le_length [OF assms(2)]
  by (cases a; simp add: shapes_le_depth)+

lemma shapes_wf_grow:
  assumes wf: "shapes_wf s" and sid: "sid \<le> length (nodes s)" and new: "name \<notin> set (layout s sid)"
    and bounds: "length (nodes s) < 4096" "depth_of s sid < 64"
    and s': "nodes s' = nodes s @ [\<lparr>parent = sid, shape_name = name, depth = Suc (depth_of s sid)\<rparr>]"
      "transitions s' = (transitions s)(sid := (transitions s sid)(name \<mapsto> Suc (length (nodes s))))"
  shows "shapes_wf s' \<and> shapes_le s s' \<and>
    depth_of s' (Suc (length (nodes s))) = Suc (depth_of s sid) \<and>
    layout s' (Suc (length (nodes s))) = layout s sid @ [name]"
proof -
  let ?n = "Suc (length (nodes s))"
  have le: "shapes_le s s'" using s' by (simp add: shapes_le_def)
  have nn: "node s' ?n = \<lparr>parent = sid, shape_name = name, depth = Suc (depth_of s sid)\<rparr>"
    using s' by (simp add: node_def)
  note old = shapes_le_node [OF le] shapes_le_layout [OF wf le] shapes_le_depth [OF le]
  have tree: "parent (node s' i) < i \<and>
        depth (node s' i) = Suc (depth_of s' (parent (node s' i))) \<and>
        depth (node s' i) \<le> 64 \<and>
        shape_name (node s' i) \<notin> set (layout s' (parent (node s' i)))"
    if "0 < i" "i \<le> length (nodes s')" for i
  proof (cases "i = ?n")
    case True
    then show ?thesis using nn sid new bounds old by simp
  next
    case False
    then have "i \<le> length (nodes s)" using that s' by simp
    then show ?thesis using shapes_wfD [OF wf, of i] that old by simp
  qed
  have trans: "0 < k \<and> k \<le> length (nodes s') \<and> parent (node s' k) = i \<and> shape_name (node s' k) = x"
    if "transitions s' i x = Some k" for i x k
  proof (cases "i = sid \<and> x = name")
    case True
    then show ?thesis using that s' nn by simp
  next
    case False
    then have "transitions s i x = Some k" using that s' by (auto split: if_splits)
    then have "0 < k \<and> k \<le> length (nodes s) \<and> parent (node s k) = i \<and> shape_name (node s k) = x"
      using wf unfolding shapes_wf_def by blast
    then show ?thesis using old s' by simp
  qed
  have "layout s' ?n = layout s sid @ [name]"
    using old(2) [of sid] sid nn by (subst layout.simps) simp
  moreover have "shapes_wf s'"
    unfolding shapes_wf_def using tree trans bounds(1) s'(1) by (intro conjI) (simp, blast, blast)
  moreover have "depth_of s' ?n = Suc (depth_of s sid)" using nn by (simp add: depth_of_def)
  ultimately show ?thesis using le by blast
qed

lemma transition_ok:
  assumes wf: "shapes_wf s" and sid: "sid \<le> length (nodes s)" and new: "name \<notin> set (layout s sid)"
  shows "\<exists>s' next. transition s sid name = Ok (s', next) \<and> shapes_wf s' \<and> shapes_le s s' \<and>
     (case next of None \<Rightarrow> s' = s
      | Some n \<Rightarrow> n \<le> length (nodes s') \<and> depth_of s' n = Suc (depth_of s sid) \<and>
          layout s' n = layout s sid @ [name])"
proof (cases "transitions s sid name")
  case (Some n)
  then have n: "0 < n" "n \<le> length (nodes s)" "parent (node s n) = sid" "shape_name (node s n) = name"
    using wf unfolding shapes_wf_def by blast+
  then show ?thesis
    using Some wf layout_step [OF wf n(1,2)] shapes_wfD(2) [OF wf n(1,2)]
    by (simp add: transition_def depth_of_def)
next
  case None
  let ?d = "depth_of s sid"
  let ?n = "Suc (length (nodes s))"
  let ?s = "s\<lparr>nodes := nodes s @ [\<lparr>parent = sid, shape_name = name, depth = Suc ?d\<rparr>],
                transitions := (transitions s)(sid := (transitions s sid)(name \<mapsto> ?n))\<rparr>"
  have eq: "transition s sid name =
     (if 64 \<le> ?d \<or> 4096 \<le> length (nodes s) \<or> 1024 < length name then Ok (s, None)
      else Ok (?s, Some ?n))"
    using None sid by (auto simp: transition_def depth_of_def Let_def)
  show ?thesis
  proof (cases "64 \<le> ?d \<or> 4096 \<le> length (nodes s) \<or> 1024 < length name")
    case True
    then show ?thesis using eq wf by auto
  next
    case False
    then show ?thesis using eq shapes_wf_grow [OF wf sid new, of ?s] by simp
  qed
qed

section \<open>Reading and writing attributes\<close>

lemma attributes_set_ok:
  assumes wf: "shapes_wf s" and a: "attributes_wf s a"
  shows "\<exists>s' a'. attributes_set s a name v = Ok (s', a') \<and> shapes_wf s' \<and> shapes_le s s' \<and>
    attributes_wf s' a' \<and> attributes_map s' a' = (attributes_map s a)(name \<mapsto> v)"
proof (cases a)
  case (Dictionary m)
  then show ?thesis using wf a by (simp add: update_conv' distinct_update)
next
  case (Slots sh vs)
  let ?p = "position ((=) name) (layout s sh)"
  have sh: "sh \<le> length (nodes s)" and len: "length (layout s sh) = length vs"
    using Slots a layout_length [OF wf] by simp_all
  have sl: "slot s sh name = Ok ?p" by (rule slot_layout [OF wf sh])
  show ?thesis
  proof (cases ?p)
    case (Some i)
    then have i: "i < length vs" "layout s sh ! i = name"
      using position_Some_D [OF Some] len by auto
    have "map_of (zip (layout s sh) (vs[i := v])) = (map_of (zip (layout s sh) vs))(name \<mapsto> v)"
      using i len map_of_zip_update [of "layout s sh" vs i v] layout_distinct [OF wf sh] by simp
    then show ?thesis using Slots Some i sl wf a by simp
  next
    case None
    then have new: "name \<notin> set (layout s sh)" by (auto simp: position_None_iff)
    obtain s' nx where t: "transition s sh name = Ok (s', nx)" "shapes_wf s'" "shapes_le s s'"
      "case nx of None \<Rightarrow> s' = s
       | Some n \<Rightarrow> n \<le> length (nodes s') \<and> depth_of s' n = Suc (depth_of s sh) \<and>
          layout s' n = layout s sh @ [name]"
      using transition_ok [OF wf sh new] by blast
    show ?thesis
    proof (cases nx)
      case None
      obtain m where "materialize s sh vs = Ok m" "distinct (map fst m)"
        "map_of m = attributes_map s (Slots sh vs)"
        using materialize_map [OF wf, of sh vs] a Slots by auto
      then show ?thesis
        using t None Slots sl \<open>?p = None\<close> by (simp add: update_conv' distinct_update)
    next
      case (Some n)
      have "map_of (zip (layout s sh @ [name]) (vs @ [v])) = (map_of (zip (layout s sh) vs))(name \<mapsto> v)"
        using new len map_of_zip_snoc [of "layout s sh" "vs @ [v]" name]
        by (simp add: nth_append zip_append2)
      then show ?thesis using t Some Slots sl \<open>?p = None\<close> a by simp
    qed
  qed
qed

lemma attributes_delete_ok:
  assumes wf: "shapes_wf s" and a: "attributes_wf s a"
  shows "\<exists>a'. attributes_delete s a name = Ok (attributes_map s a name, a') \<and>
    attributes_wf s a' \<and> attributes_map s a' = (attributes_map s a)(name := None)"
proof (cases a)
  case (Dictionary m)
  then show ?thesis using a by (simp add: delete_conv' distinct_delete)
next
  case (Slots sh vs)
  obtain m where m: "materialize s sh vs = Ok m" "distinct (map fst m)"
    "map_of m = attributes_map s (Slots sh vs)"
    using materialize_map [OF wf, of sh vs] a Slots by auto
  show ?thesis
  proof (cases "map_of m name")
    case None
    then have "attributes_map s a name = None" using m Slots by simp
    then have "(attributes_map s a)(name := None) = attributes_map s a" by (simp add: fun_eq_iff)
    then show ?thesis using Slots m None a by auto
  next
    case (Some v)
    then show ?thesis using Slots m by (auto simp: delete_conv' distinct_delete)
  qed
qed

text \<open>An inline cache entry recorded for one object serves every later object of that shape.\<close>

lemma cached_slot_ok:
  assumes wf: "shapes_wf s" "attributes_wf s a" and rec: "slot_cache a s name = Ok (Some (sh, i))"
    and later: "shapes_wf s'" "shapes_le s s'" and b: "attributes_wf s' b" "cached_slot b sh i = Some v"
  shows "attributes_get s' b name = Ok (Some v)"
proof -
  obtain ws where bs: "b = Slots sh ws" "i < length ws" "ws ! i = v"
    using b(2) by (cases b) (auto split: if_splits)
  obtain vs where a: "a = Slots sh vs" "slot s sh name = Ok (Some i)"
    using rec by (cases a) (auto simp: res_simps)
  have sh: "sh \<le> length (nodes s)" using a wf by simp
  have "position ((=) name) (layout s' sh) = Some i"
    using a slot_layout [OF wf(1) sh] shapes_le_layout [OF wf(1) later(2) sh] by simp
  moreover have "sh \<le> length (nodes s')" using sh shapes_le_length [OF later(2)] by simp
  ultimately show ?thesis using bs slot_layout [OF later(1)] by (simp add: index_at_def)
qed

lemma slot_cache_ok:
  assumes "shapes_wf s" "attributes_wf s a"
  shows "\<exists>c. slot_cache a s name = Ok c \<and>
    (\<forall>sh i. c = Some (sh, i) \<longrightarrow> cached_slot a sh i = attributes_map s a name)"
  using assms slot_layout [OF assms(1)]
  by (cases a) (auto simp: map_of_zip_position layout_length dest: position_Some_D)

text \<open>The values a trace reports are the values of the attributes.\<close>

lemma attributes_trace_ran:
  "shapes_wf s \<Longrightarrow> attributes_wf s a \<Longrightarrow> set (attributes_trace a) = ran (attributes_map s a)"
  by (cases a) (simp_all add: ran_map_of_zip layout_length layout_distinct, simp add: ran_distinct)

section \<open>Attributes as a keyed store\<close>

definition object_invar :: "shapes \<times> attributes \<Rightarrow> bool" where
  "object_invar = (\<lambda>(s, a). shapes_wf s \<and> attributes_wf s a)"

definition object_remove ::
  "shapes \<times> attributes \<Rightarrow> string \<Rightarrow> (tvalue option \<times> shapes \<times> attributes) res" where
  "object_remove = (\<lambda>(s, a) k. and_then (attributes_delete s a k) (\<lambda>(x, a'). Ok (x, s, a')))"

interpretation object: keyed_store_remove object_invar "\<lambda>_. True" "\<lambda>(s, a). attributes_map s a"
  "\<lambda>(s, a). attributes_get s a" "\<lambda>(s, a). attributes_set s a" object_remove
proof
  fix st :: "shapes \<times> attributes" and k :: string and v :: tvalue
  obtain s a where st: "st = (s, a)" by force
  show "(case st of (s, a) \<Rightarrow> attributes_get s a) k = Ok ((case st of (s, a) \<Rightarrow> attributes_map s a) k)"
    if "object_invar st"
    using that by (simp add: st object_invar_def attributes_get_map)
  show "\<exists>s'. (case st of (s, a) \<Rightarrow> attributes_set s a) k v = Ok s' \<and> object_invar s' \<and>
      (case s' of (s, a) \<Rightarrow> attributes_map s a) = (case st of (s, a) \<Rightarrow> attributes_map s a)(k \<mapsto> v)"
    if "object_invar st"
    using that attributes_set_ok [of s a k v] by (auto simp: st object_invar_def)
  show "\<exists>s'. object_remove st k = Ok ((case st of (s, a) \<Rightarrow> attributes_map s a) k, s') \<and>
      object_invar s' \<and>
      (case s' of (s, a) \<Rightarrow> attributes_map s a) = (case st of (s, a) \<Rightarrow> attributes_map s a)(k := None)"
    if "object_invar st"
    using that attributes_delete_ok [of s a k] by (auto simp: st object_invar_def object_remove_def)
qed

section \<open>Properties\<close>

text \<open>A tree of one node and the two layouts it gives.\<close>

definition example_tree :: shapes where
  "example_tree = \<lparr>nodes = [\<lparr>parent = 0, shape_name = ''x'', depth = 1\<rparr>],
     transitions = (\<lambda>_. Map.empty)(0 := [''x'' \<mapsto> 1])\<rparr>"

lemma example_tree_wf: "shapes_wf example_tree"
proof -
  have "sid = 1" if "0 < sid" "sid \<le> 1" for sid :: nat using that by simp
  then show ?thesis by (auto simp: shapes_wf_def example_tree_def node_def split: if_splits)
qed

text \<open>C35: Setting an attribute never fails, leaves the shape tree well formed, reads back as the
  stored value, and changes no other name of the object and no name of any other object, although
  objects share the tree and the store may extend it, reuse a transition or give the object a
  dictionary of its own.\<close>

theorem attribute_set_correct:
  assumes "shapes_wf s" "attributes_wf s a" "attributes_wf s b"
  shows "\<exists>s' a'. attributes_set s a name v = Ok (s', a') \<and>
    shapes_wf s' \<and> attributes_wf s' a' \<and> attributes_wf s' b \<and>
    attributes_get s' a' k = (if k = name then Ok (Some v) else attributes_get s a k) \<and>
    attributes_get s' b k = attributes_get s b k"
proof -
  obtain s' a' where set: "attributes_set s a name v = Ok (s', a')" "shapes_wf s'" "shapes_le s s'"
    "attributes_wf s' a'"
    using attributes_set_ok [OF assms(1,2)] by blast
  have st: "object_invar (s, a)" using assms by (simp add: object_invar_def)
  have "attributes_get s' a' k = (if k = name then Ok (Some v) else attributes_get s a k)"
    using object.lookup_store_same [OF st TrueI, of name v "(s', a')"]
      object.lookup_store_other [OF st TrueI, of name v "(s', a')" k] set by simp
  then show ?thesis
    using set shapes_le_attributes [OF assms(1) set(3) assms(3)] assms
    by (simp add: attributes_get_map)
qed

lemma attribute_set_correct_witness:
  "\<exists>s' a'. attributes_set example_tree (Slots 1 [NONE]) ''y'' ELLIPSIS = Ok (s', a') \<and>
    shapes_wf s' \<and> attributes_wf s' a' \<and> attributes_wf s' (Slots 0 []) \<and>
    attributes_get s' a' ''x'' = (if ''x'' = ''y'' then Ok (Some ELLIPSIS)
      else attributes_get example_tree (Slots 1 [NONE]) ''x'') \<and>
    attributes_get s' (Slots 0 []) ''x'' = attributes_get example_tree (Slots 0 []) ''x''"
  by (rule attribute_set_correct [OF example_tree_wf])
    (simp_all add: example_tree_def depth_of_def node_def)

text \<open>C36: Deleting an attribute returns the value it had (or nothing when there was none), after
  which the name is absent and every other name reads as before. The tree is not touched.\<close>

theorem attribute_delete_correct:
  assumes "shapes_wf s" "attributes_wf s a"
  shows "\<exists>x a'. attributes_delete s a name = Ok (x, a') \<and> attributes_wf s a' \<and>
    attributes_get s a name = Ok x \<and>
    attributes_get s a' k = (if k = name then Ok None else attributes_get s a k)"
proof -
  obtain a' where "attributes_delete s a name = Ok (attributes_map s a name, a')"
    "attributes_wf s a'" "attributes_map s a' = (attributes_map s a)(name := None)"
    using attributes_delete_ok [OF assms] by blast
  then show ?thesis using assms by (auto simp: attributes_get_map)
qed

lemma attribute_delete_correct_witness:
  "\<exists>x a'. attributes_delete example_tree (Slots 1 [NONE]) ''x'' = Ok (x, a') \<and>
    attributes_wf example_tree a' \<and> attributes_get example_tree (Slots 1 [NONE]) ''x'' = Ok x \<and>
    attributes_get example_tree a' ''y''
      = (if ''y'' = ''x'' then Ok None else attributes_get example_tree (Slots 1 [NONE]) ''y'')"
  by (rule attribute_delete_correct [OF example_tree_wf])
    (simp add: example_tree_def depth_of_def node_def)

text \<open>C37: An inline cache entry (shape, slot) recorded for one object stays right: after the tree has
  grown by any stores, a hit on any object gives exactly what the full lookup of the name gives.\<close>

theorem inline_cache_sound:
  assumes "shapes_wf s" "attributes_wf s a" "slot_cache a s name = Ok (Some (sh, i))"
    and "shapes_wf s'" "shapes_le s s'" "attributes_wf s' b" "cached_slot b sh i = Some v"
  shows "attributes_get s' b name = Ok (Some v)"
  using assms by (rule cached_slot_ok)

lemma inline_cache_sound_witness:
  "attributes_get example_tree (Slots 1 [ELLIPSIS]) ''x'' = Ok (Some ELLIPSIS)"
  by (rule inline_cache_sound [OF example_tree_wf, of "Slots 1 [NONE]" _ 1 0, OF _ _ example_tree_wf shapes_le_refl])
    (simp_all add: example_tree_def depth_of_def node_def slot_def shapes_len_def depth_slot_def
      index_at_def)

end
