(* ===== verification/Bytecode.thy ===== *)
theory Bytecode
  imports Prelude
begin

text \<open>
  The bytecode format of crates/tonic-core/src/bytecode.rs: opcodes with their explicit wire
  numbers, the eight-byte little-endian instruction, and the tables of a code object and of a
  program. A fixed array \<open>[u8; 8]\<close> is a list of eight bytes. Operands and table sizes that are
  \<open>u16\<close> in the code are 16-bit words; \<open>as usize\<close> is \<open>unat\<close>.
\<close>

type_synonym u16 = "16 word"
type_synonym symbol_id = u16

definition BYTECODE_VERSION :: u16 where "BYTECODE_VERSION = 41"

section \<open>Opcodes\<close>

datatype (plugins only: size) op =
    OpConst | OpMove | OpLoadGlobal | OpStoreGlobal | OpLoadCell | OpStoreCell
  | OpAdd | OpSub | OpMul | OpFloorDiv | OpMod | OpDiv
  | OpNeg | OpPos | OpNot | OpInplaceAdd | OpEq | OpNe
  | OpLt | OpLe | OpGt | OpGe | OpPow | OpBitOr
  | OpBitXor | OpBitAnd | OpLeftShift | OpRightShift | OpInvert | OpInplaceSub
  | OpInplaceMul | OpInplaceDiv | OpInplaceFloorDiv | OpInplaceMod | OpInplacePow | OpInplaceBitOr
  | OpInplaceBitXor | OpInplaceBitAnd | OpInplaceLeftShift | OpInplaceRightShift | OpJump | OpJumpFalse
  | OpJumpTrue | OpCall | OpReturn | OpFunction | OpBeginArgs | OpArgPos
  | OpArgStar | OpArgNamed | OpArgMapping | OpCallExpanded | OpTuple | OpList
  | OpItem | OpUnpack | OpIter | OpNext | OpDict | OpSetItem
  | OpDictMerge | OpImportFrom | OpImport | OpAttr | OpSetAttr | OpClass
  | OpLoadName | OpStoreName | OpClassDeref | OpSlice | OpDelAttr | OpDelItem
  | OpRaise | OpExceptionMatch | OpClearException | OpClearBinding | OpPushException | OpContextEnter
  | OpContextExit | OpYield | OpYieldFrom | OpGetAwaitable | OpGetAIter | OpGetANext
  | OpEndAsyncFor | OpAsyncContextEnter | OpAsyncContextExit | OpAsyncYield | OpIs | OpIsNot
  | OpContains | OpNotContains | OpListAppend | OpSet | OpSetAdd | OpMatchSequence
  | OpMatchMapping | OpMatchKey | OpMatchClass | OpMatchAttr | OpMatchArgs | OpMatchClassItem
  | OpMatchUnique | OpConvert | OpFormatValue | OpTypeParam | OpTypeAlias | OpMatMul
  | OpInplaceMatMul | OpTypeParamDefault

text \<open>\<open>op as u16\<close>.\<close>

primrec op_code :: "op \<Rightarrow> 16 word" where
  "op_code OpConst = 1"
| "op_code OpMove = 2"
| "op_code OpLoadGlobal = 3"
| "op_code OpStoreGlobal = 4"
| "op_code OpLoadCell = 5"
| "op_code OpStoreCell = 6"
| "op_code OpAdd = 10"
| "op_code OpSub = 11"
| "op_code OpMul = 12"
| "op_code OpFloorDiv = 13"
| "op_code OpMod = 14"
| "op_code OpDiv = 15"
| "op_code OpNeg = 16"
| "op_code OpPos = 17"
| "op_code OpNot = 18"
| "op_code OpInplaceAdd = 19"
| "op_code OpEq = 20"
| "op_code OpNe = 21"
| "op_code OpLt = 22"
| "op_code OpLe = 23"
| "op_code OpGt = 24"
| "op_code OpGe = 25"
| "op_code OpPow = 80"
| "op_code OpBitOr = 81"
| "op_code OpBitXor = 82"
| "op_code OpBitAnd = 83"
| "op_code OpLeftShift = 84"
| "op_code OpRightShift = 85"
| "op_code OpInvert = 86"
| "op_code OpInplaceSub = 87"
| "op_code OpInplaceMul = 88"
| "op_code OpInplaceDiv = 89"
| "op_code OpInplaceFloorDiv = 90"
| "op_code OpInplaceMod = 91"
| "op_code OpInplacePow = 92"
| "op_code OpInplaceBitOr = 93"
| "op_code OpInplaceBitXor = 94"
| "op_code OpInplaceBitAnd = 95"
| "op_code OpInplaceLeftShift = 96"
| "op_code OpInplaceRightShift = 97"
| "op_code OpJump = 30"
| "op_code OpJumpFalse = 31"
| "op_code OpJumpTrue = 32"
| "op_code OpCall = 40"
| "op_code OpReturn = 41"
| "op_code OpFunction = 42"
| "op_code OpBeginArgs = 43"
| "op_code OpArgPos = 44"
| "op_code OpArgStar = 45"
| "op_code OpArgNamed = 46"
| "op_code OpArgMapping = 47"
| "op_code OpCallExpanded = 48"
| "op_code OpTuple = 50"
| "op_code OpList = 51"
| "op_code OpItem = 52"
| "op_code OpUnpack = 53"
| "op_code OpIter = 54"
| "op_code OpNext = 55"
| "op_code OpDict = 56"
| "op_code OpSetItem = 57"
| "op_code OpDictMerge = 58"
| "op_code OpImportFrom = 59"
| "op_code OpImport = 60"
| "op_code OpAttr = 61"
| "op_code OpSetAttr = 62"
| "op_code OpClass = 63"
| "op_code OpLoadName = 64"
| "op_code OpStoreName = 65"
| "op_code OpClassDeref = 66"
| "op_code OpSlice = 67"
| "op_code OpDelAttr = 68"
| "op_code OpDelItem = 69"
| "op_code OpRaise = 70"
| "op_code OpExceptionMatch = 71"
| "op_code OpClearException = 72"
| "op_code OpClearBinding = 73"
| "op_code OpPushException = 74"
| "op_code OpContextEnter = 75"
| "op_code OpContextExit = 76"
| "op_code OpYield = 77"
| "op_code OpYieldFrom = 78"
| "op_code OpGetAwaitable = 79"
| "op_code OpGetAIter = 98"
| "op_code OpGetANext = 99"
| "op_code OpEndAsyncFor = 100"
| "op_code OpAsyncContextEnter = 101"
| "op_code OpAsyncContextExit = 102"
| "op_code OpAsyncYield = 103"
| "op_code OpIs = 104"
| "op_code OpIsNot = 105"
| "op_code OpContains = 106"
| "op_code OpNotContains = 107"
| "op_code OpListAppend = 108"
| "op_code OpSet = 109"
| "op_code OpSetAdd = 110"
| "op_code OpMatchSequence = 111"
| "op_code OpMatchMapping = 112"
| "op_code OpMatchKey = 113"
| "op_code OpMatchClass = 114"
| "op_code OpMatchAttr = 115"
| "op_code OpMatchArgs = 116"
| "op_code OpMatchClassItem = 117"
| "op_code OpMatchUnique = 118"
| "op_code OpConvert = 119"
| "op_code OpFormatValue = 120"
| "op_code OpTypeParam = 121"
| "op_code OpTypeAlias = 122"
| "op_code OpMatMul = 123"
| "op_code OpInplaceMatMul = 124"
| "op_code OpTypeParamDefault = 125"

text \<open>The match of \<open>TryFrom<u16>\<close>, arm by arm.\<close>

definition op_table :: "(16 word \<times> op) list" where
  "op_table = [
    (1, OpConst), (2, OpMove), (3, OpLoadGlobal), (4, OpStoreGlobal), (5, OpLoadCell),
    (6, OpStoreCell), (10, OpAdd), (11, OpSub), (12, OpMul), (13, OpFloorDiv),
    (14, OpMod), (15, OpDiv), (16, OpNeg), (17, OpPos), (18, OpNot),
    (19, OpInplaceAdd), (20, OpEq), (21, OpNe), (22, OpLt), (23, OpLe),
    (24, OpGt), (25, OpGe), (80, OpPow), (81, OpBitOr), (82, OpBitXor),
    (83, OpBitAnd), (84, OpLeftShift), (85, OpRightShift), (86, OpInvert), (87, OpInplaceSub),
    (88, OpInplaceMul), (89, OpInplaceDiv), (90, OpInplaceFloorDiv), (91, OpInplaceMod), (92, OpInplacePow),
    (93, OpInplaceBitOr), (94, OpInplaceBitXor), (95, OpInplaceBitAnd), (96, OpInplaceLeftShift), (97, OpInplaceRightShift),
    (30, OpJump), (31, OpJumpFalse), (32, OpJumpTrue), (40, OpCall), (41, OpReturn),
    (42, OpFunction), (43, OpBeginArgs), (44, OpArgPos), (45, OpArgStar), (46, OpArgNamed),
    (47, OpArgMapping), (48, OpCallExpanded), (50, OpTuple), (51, OpList), (52, OpItem),
    (53, OpUnpack), (54, OpIter), (55, OpNext), (56, OpDict), (57, OpSetItem),
    (58, OpDictMerge), (59, OpImportFrom), (60, OpImport), (61, OpAttr), (62, OpSetAttr),
    (63, OpClass), (64, OpLoadName), (65, OpStoreName), (66, OpClassDeref), (67, OpSlice),
    (68, OpDelAttr), (69, OpDelItem), (70, OpRaise), (71, OpExceptionMatch), (72, OpClearException),
    (73, OpClearBinding), (74, OpPushException), (75, OpContextEnter), (76, OpContextExit), (77, OpYield),
    (78, OpYieldFrom), (79, OpGetAwaitable), (98, OpGetAIter), (99, OpGetANext), (100, OpEndAsyncFor),
    (101, OpAsyncContextEnter), (102, OpAsyncContextExit), (103, OpAsyncYield), (104, OpIs), (105, OpIsNot),
    (106, OpContains), (107, OpNotContains), (108, OpListAppend), (109, OpSet), (110, OpSetAdd),
    (111, OpMatchSequence), (112, OpMatchMapping), (113, OpMatchKey), (114, OpMatchClass), (115, OpMatchAttr),
    (116, OpMatchArgs), (117, OpMatchClassItem), (118, OpMatchUnique), (119, OpConvert), (120, OpFormatValue),
    (121, OpTypeParam), (122, OpTypeAlias), (123, OpMatMul), (124, OpInplaceMatMul), (125, OpTypeParamDefault)]"

definition op_try_from :: "u16 \<Rightarrow> op res" where
  "op_try_from w = ok_or (map_of op_table w)
     (diag_new ''BytecodeError'' (''unknown opcode '' @ decimal (unat w)))"

lemma op_table_code [simp]: "map_of op_table (op_code x) = Some x"
  by (cases x) (simp_all add: op_table_def)

lemma op_table_codes: "\<forall>(w, x) \<in> set op_table. op_code x = w"
  by (simp add: op_table_def)

lemma op_code_eq_iff [simp]: "op_code x = op_code y \<longleftrightarrow> x = y"
  by (metis op_table_code option.inject)

instantiation op :: equal
begin

definition equal_op :: "op \<Rightarrow> op \<Rightarrow> bool" where
  "equal_op x y \<longleftrightarrow> op_code x = op_code y"

instance by standard (simp add: equal_op_def)

end

section \<open>Instructions\<close>

record instr =
  opcode :: u16
  ia :: u16
  ib :: u16
  ic :: u16

definition instr_new :: "op \<Rightarrow> u16 \<Rightarrow> u16 \<Rightarrow> u16 \<Rightarrow> instr" where
  "instr_new x a b c = \<lparr>opcode = op_code x, ia = a, ib = b, ic = c\<rparr>"

definition to_le_bytes :: "u16 \<Rightarrow> 8 word list" where
  "to_le_bytes w = [ucast w, ucast (drop_bit 8 w)]"

definition from_le_bytes :: "8 word \<Rightarrow> 8 word \<Rightarrow> u16" where
  "from_le_bytes lo hi = or (ucast lo) (push_bit 8 (ucast hi))"

definition to_bytes :: "instr \<Rightarrow> 8 word list" where
  "to_bytes i = concat (map to_le_bytes [opcode i, ia i, ib i, ic i])"

definition from_bytes :: "8 word list \<Rightarrow> instr" where
  "from_bytes bs = (let w = (\<lambda>i. from_le_bytes (bs ! i) (bs ! (i + 1))) in
     \<lparr>opcode = w 0, ia = w 2, ib = w 4, ic = w 6\<rparr>)"

section \<open>Code objects and programs\<close>

datatype code_constant =
    ConstNone | ConstEllipsis | ConstBool bool | ConstInt string | ConstFloat "64 word"
  | ConstStr string | ConstBytes "8 word list"

record call_site =
  call_first :: u16
  call_count :: u16
  call_keywords :: "symbol_id list"

record function_site =
  site_code :: u16
  site_captures :: "u16 list"
  site_defaults :: "u16 list"
  site_annotations :: "(symbol_id \<times> u16) list"
  site_type_params :: "u16 list"

record exception_region =
  region_start :: u16
  region_end :: u16
  region_target :: u16
  region_exception :: u16

datatype (plugins only: size) advisory_scalar =
    AInt | AFloat | ABool | ANone | AIntOrNone | ABoolOrNone | AFloatOrNone | AIntOrFloat
  | AIntOrFloatOrNone | ABoolOrFloat | ABoolOrFloatOrNone | AIntOrBoolOrFloat
  | AIntOrBoolOrFloatOrNone | AIntOrBool | AIntOrBoolOrNone

record advisory_result =
  hint_pc :: u16
  hint_result :: advisory_scalar

record signature =
  positional :: u16
  posonly :: u16
  keyword_only :: u16
  vararg :: "u16 option"
  kwarg :: "u16 option"
  sig_defaults :: "u16 list"

record code_object =
  class_body :: bool
  generator :: bool
  coroutine :: bool
  code_name :: string
  params :: u16
  code_signature :: signature
  locals :: "symbol_id list"
  type_params :: "(symbol_id \<times> u16 option) list"
  registers :: u16
  instructions :: "instr list"
  spans :: "span list"
  constants :: "code_constant list"
  calls :: "call_site list"
  cell_locals :: "u16 list"
  free_vars :: "symbol_id list"
  function_sites :: "function_site list"
  advisory_results :: "advisory_result list"
  exception_regions :: "exception_region list"

record module_info =
  mod_name :: string
  mod_filename :: string
  mod_code :: u16
  mod_code_count :: u16
  mod_globals :: "symbol_id list"

record program =
  version :: u16
  symbols :: "string list"
  program_code :: "code_object list"
  modules :: "module_info list"

section \<open>Properties\<close>

text \<open>The wire number of an opcode decodes to that opcode, no other number does, and every
  number without an opcode is the \<open>BytecodeError\<close> diagnostic.\<close>

theorem opcode_roundtrip:
  "(op_try_from w = Ok x \<longleftrightarrow> w = op_code x) \<and>
   ((\<nexists>y. w = op_code y) \<longleftrightarrow> op_try_from w = fail ''BytecodeError'' (''unknown opcode '' @ decimal (unat w)))"
proof -
  have "w = op_code y" if "map_of op_table w = Some y" for y
    using op_table_codes map_of_SomeD [OF that] by auto
  then show ?thesis
    by (cases "map_of op_table w") (auto simp: op_try_from_def ok_or_def)
qed

text \<open>C40: The eight-byte encoding of an instruction round trips in both directions, whatever its
  opcode number and operands are.\<close>

theorem instr_bytes_roundtrip:
  "from_bytes (to_bytes i) = i \<and> length (to_bytes i) = 8 \<and>
   to_bytes (from_bytes [b0, b1, b2, b3, b4, b5, b6, b7]) = [b0, b1, b2, b3, b4, b5, b6, b7]"
proof -
  have a: "from_le_bytes (ucast w) (ucast (drop_bit 8 w)) = w" for w :: u16
    unfolding from_le_bytes_def by (rule bit_word_eqI) (auto simp: bit_simps)
  have b: "ucast (from_le_bytes lo hi) = lo" for lo hi
    unfolding from_le_bytes_def by (rule bit_word_eqI) (auto simp: bit_simps)
  have c: "ucast (drop_bit 8 (from_le_bytes lo hi)) = hi" for lo hi
    unfolding from_le_bytes_def
    by (rule bit_word_eqI) (auto simp: bit_simps dest: bit_imp_le_length)
  show ?thesis by (simp add: to_bytes_def from_bytes_def to_le_bytes_def a b c)
qed

end
