(* ===== verification/Verifier.thy ===== *)
theory Verifier
  imports Bytecode
begin

text \<open>
  \<open>Program::verify\<close> and \<open>verify_argument_stack\<close> of crates/tonic-core/src/bytecode.rs: the static
  check that every program passes before the interpreter or the native compiler sees it.

  The function is split at its loops: \<open>verify_modules\<close> and \<open>verify_coverage\<close> for the module table,
  \<open>verify_code_header\<close>, \<open>verify_sites\<close>, \<open>verify_regions\<close> and \<open>verify_calls\<close> for the tables of a
  code object, \<open>verify_operands\<close> for the match over opcodes, \<open>stack_loop\<close> for the work list over
  the control flow graph. A \<open>HashSet\<close> that only detects repetitions is a set; every index and
  every slice of the source is an \<open>index_at\<close> or a test that panics.
\<close>

abbreviation bad :: "string \<Rightarrow> diagnostic" where
  "bad m \<equiv> diag_new ''BytecodeError'' m"

section \<open>The module table\<close>

definition verify_header :: "program \<Rightarrow> unit res" where
  "verify_header p = ensure (\<not> (version p \<noteq> BYTECODE_VERSION \<or> program_code p = [] \<or> modules p = [] \<or>
      65535 < length (program_code p) \<or> 65535 < length (symbols p)))
     (bad ''invalid program header'')"

text \<open>The entry of a module runs without arguments and without closure.\<close>

definition entry_ok :: "code_object \<Rightarrow> bool" where
  "entry_ok entry \<longleftrightarrow> \<not> (params entry \<noteq> 0 \<or> class_body entry \<or> generator entry \<or> coroutine entry \<or>
     cell_locals entry \<noteq> [] \<or> free_vars entry \<noteq> [])"

text \<open>The names, entries and globals seen so far, and one module of the loop with its index.\<close>

type_synonym module_seen = "string set \<times> u16 set \<times> u16 set"

fun verify_module :: "program \<Rightarrow> module_seen \<Rightarrow> nat \<times> module_info \<Rightarrow> module_seen res" where
  "verify_module p (names, entries, globals) (index, m) =
     (let len = length (program_code p) in
      if mod_name m = [] \<or> mod_filename m = [] \<or> mod_name m \<in> names \<or> mod_code m \<in> entries \<or>
         len \<le> unat (mod_code m) \<or> mod_code_count m = 0 \<or>
         len < unat (mod_code m) + unat (mod_code_count m)
      then Err (bad ''invalid module table'')
      else case each_new (\<lambda>s. s) (\<lambda>s. unat s < length (symbols p)) globals (mod_globals m) of
        None \<Rightarrow> Err (bad ''invalid module table'')
      | Some globals' \<Rightarrow>
          if index = 0 \<and> mod_code m \<noteq> 0 then Err (bad ''invalid module table'')
          else and_then (index_at (program_code p) (unat (mod_code m))) (\<lambda>entry.
            and_then (ensure (entry_ok entry) (bad ''module cannot have parameters'')) (\<lambda>_.
            Ok (insert (mod_name m) names, insert (mod_code m) entries, globals'))))"

definition verify_modules :: "program \<Rightarrow> module_seen res" where
  "verify_modules p = try_fold (verify_module p) ({}, {}, {}) (enumerate 0 (modules p))"

definition cover_slot :: "bool list \<Rightarrow> nat \<Rightarrow> bool list res" where
  "cover_slot covered k = and_then (index_at covered k) (\<lambda>c.
     if c then Err (bad ''overlapping module code ranges'') else Ok (covered[k := True]))"

definition cover_module :: "bool list \<Rightarrow> module_info \<Rightarrow> bool list res" where
  "cover_module covered m =
     (let first = unat (mod_code m); last = first + unat (mod_code_count m) in
      if length covered < last then Panic else try_fold cover_slot covered [first..<last])"

definition verify_coverage :: "program \<Rightarrow> unit res" where
  "verify_coverage p =
     and_then (try_fold cover_module (replicate (length (program_code p)) False) (modules p))
       (\<lambda>covered. ensure (\<not> list_ex Not covered) (bad ''module code ranges do not cover the program''))"

section \<open>The tables of a code object\<close>

definition verify_signature :: "code_object \<Rightarrow> unit res" where
  "verify_signature code =
     (let sig = code_signature code;
          named = unat (positional sig) + unat (keyword_only sig);
          var = (if vararg sig = None then 0 else 1);
          total = named + var + (if kwarg sig = None then 0 else 1) in
      and_then (ensure (\<not> (positional sig < posonly sig \<or> total \<noteq> unat (params code) \<or>
          (\<exists>v \<in> set_option (vararg sig). unat v \<noteq> named) \<or>
          (\<exists>v \<in> set_option (kwarg sig). unat v \<noteq> named + var)))
        (bad ''invalid function signature'')) (\<lambda>_.
      and_then (ensure (each_new (\<lambda>s. s) (\<lambda>s. unat s < named) {} (sig_defaults sig) \<noteq> None)
        (bad ''invalid default parameter slot'')) (\<lambda>_.
      if length (locals code) < unat (params code) then Panic
      else ensure (length (remdups (take (unat (params code)) (locals code))) = unat (params code))
        (bad ''duplicate parameter symbol''))))"

definition verify_type_param ::
  "program \<Rightarrow> code_object \<Rightarrow> u16 set \<Rightarrow> symbol_id \<times> u16 option \<Rightarrow> u16 set res" where
  "verify_type_param p code seen = (\<lambda>(name, slot).
     and_then (ensure (unat name < length (symbols p) \<and> name \<notin> seen)
       (bad ''invalid type parameter symbol'')) (\<lambda>_.
     case slot of None \<Rightarrow> Ok (insert name seen)
     | Some s \<Rightarrow> if length (locals code) \<le> unat s then Err (bad ''invalid type parameter slot'')
         else and_then (index_at (locals code) (unat s)) (\<lambda>local.
           and_then (ensure (local = name) (bad ''invalid type parameter slot'')) (\<lambda>_.
           Ok (insert name seen)))))"

definition verify_class_cell :: "program \<Rightarrow> code_object \<Rightarrow> u16 \<Rightarrow> unit res" where
  "verify_class_cell p code local =
     and_then (index_at (locals code) (unat local)) (\<lambda>symbol.
     and_then (index_at (symbols p) (unat symbol)) (\<lambda>name.
     ensure (\<not> (name \<noteq> ''__class__'' \<and>
         \<not> list_ex (\<lambda>(name, slot). name = symbol \<and> slot = Some local) (type_params code)))
       (bad ''invalid class cell'')))"

definition cell_count :: "code_object \<Rightarrow> nat" where
  "cell_count code = length (cell_locals code) + length (free_vars code)"

definition verify_code_header :: "program \<Rightarrow> code_object \<Rightarrow> unit res" where
  "verify_code_header p code =
     and_then (ensure (\<not> (class_body code \<and> (params code \<noteq> 0 \<or> generator code \<or> coroutine code)))
       (bad ''class body cannot be a function'')) (\<lambda>_.
     and_then (ensure (\<not> (instructions code = [] \<or> 65535 < length (instructions code) \<or>
         length (spans code) \<noteq> length (instructions code) \<or> registers code = 0 \<or>
         length (locals code) < unat (params code) \<or> unat (registers code) < length (locals code)))
       (bad ''invalid code metadata'')) (\<lambda>_.
     and_then (verify_signature code) (\<lambda>_.
     and_then (try_all (\<lambda>local. ensure (unat local < length (symbols p)) (bad ''invalid local symbol''))
       (locals code)) (\<lambda>_.
     and_then (try_fold (verify_type_param p code) {} (type_params code)) (\<lambda>_.
     and_then (ensure (cell_count code \<le> 65535) (bad ''too many cells'')) (\<lambda>_.
     and_then (ensure (each_new (\<lambda>s. s) (\<lambda>s. unat s < length (locals code)) {} (cell_locals code) \<noteq> None)
       (bad ''invalid or duplicate cell local'')) (\<lambda>_.
     and_then (if class_body code then try_all (verify_class_cell p code) (cell_locals code) else Ok ()) (\<lambda>_.
     try_all (\<lambda>name. ensure (unat name < length (symbols p)) (bad ''invalid free variable symbol''))
       (free_vars code)))))))))"

definition verify_function_site ::
  "program \<Rightarrow> u16 set \<Rightarrow> code_object \<Rightarrow> function_site \<Rightarrow> unit res" where
  "verify_function_site p entries code site =
     (if site_code site \<in> entries \<or> length (program_code p) \<le> unat (site_code site)
      then Err (bad ''function code out of bounds'')
      else and_then (index_at (program_code p) (unat (site_code site))) (\<lambda>child.
        and_then (ensure (length (site_captures site) = length (free_vars child))
          (bad ''closure capture count mismatch'')) (\<lambda>_.
        and_then (ensure (\<not> (length (site_defaults site) \<noteq> length (sig_defaults (code_signature child)) \<or>
            list_ex (\<lambda>r. registers code \<le> r) (site_defaults site)))
          (bad ''invalid function defaults'')) (\<lambda>_.
        and_then (ensure (\<not> (length (site_type_params site) \<noteq> length (type_params child) \<or>
            list_ex (\<lambda>r. registers code \<le> r) (site_type_params site)))
          (bad ''invalid function type parameters'')) (\<lambda>_.
        and_then (ensure (each_new fst (\<lambda>(name, r). unat name < length (symbols p) \<and> r < registers code)
            {} (site_annotations site) \<noteq> None)
          (bad ''invalid function annotations'')) (\<lambda>_.
        try_all (\<lambda>capture. ensure (unat capture < cell_count code) (bad ''closure capture out of bounds''))
          (site_captures site)))))))"

definition advisory_op :: "op \<Rightarrow> bool" where
  "advisory_op x \<longleftrightarrow>
     x \<in> {OpLoadGlobal, OpLoadCell, OpMove, OpCall, OpCallExpanded, OpAttr, OpItem}"

definition advisory_pc_ok :: "code_object \<Rightarrow> advisory_result \<Rightarrow> bool" where
  "advisory_pc_ok code hint \<longleftrightarrow> unat (hint_pc hint) < length (instructions code) \<and>
     (case op_try_from (opcode (instructions code ! unat (hint_pc hint))) of
        Ok x \<Rightarrow> advisory_op x | _ \<Rightarrow> False)"

definition verify_region :: "code_object \<Rightarrow> exception_region \<Rightarrow> unit res" where
  "verify_region code r = ensure (\<not> (region_end r \<le> region_start r \<or>
       length (instructions code) < unat (region_end r) \<or>
       length (instructions code) \<le> unat (region_target r) \<or> registers code \<le> region_exception r))
     (bad ''invalid exception region'')"

definition verify_region_pair :: "exception_region \<Rightarrow> exception_region \<Rightarrow> unit res" where
  "verify_region_pair left right =
     (let overlaps = region_start left < region_end right \<and> region_start right < region_end left;
          nested = (region_start left \<le> region_start right \<and> region_end right \<le> region_end left) \<or>
                   (region_start right \<le> region_start left \<and> region_end left \<le> region_end right) in
      ensure (\<not> (overlaps \<and> \<not> nested)) (bad ''partially overlapping exception regions''))"

fun verify_region_pairs :: "exception_region list \<Rightarrow> unit res" where
  "verify_region_pairs [] = Ok ()"
| "verify_region_pairs (left # rest) =
     and_then (try_all (verify_region_pair left) rest) (\<lambda>_. verify_region_pairs rest)"

section \<open>Operands\<close>

text \<open>The closures \<open>reg\<close>, \<open>sym\<close>, \<open>jump\<close> and \<open>range\<close>.\<close>

definition check_reg :: "code_object \<Rightarrow> u16 \<Rightarrow> unit res" where
  "check_reg code r = ensure (r < registers code) (bad ''register out of bounds'')"

definition check_sym :: "program \<Rightarrow> u16 \<Rightarrow> unit res" where
  "check_sym p s = ensure (unat s < length (symbols p)) (bad ''symbol out of bounds'')"

definition check_jump :: "code_object \<Rightarrow> u16 \<Rightarrow> unit res" where
  "check_jump code j = ensure (unat j < length (instructions code)) (bad ''jump out of bounds'')"

definition check_range :: "code_object \<Rightarrow> u16 \<Rightarrow> u16 \<Rightarrow> unit res" where
  "check_range code start count = ensure (unat start + unat count \<le> unat (registers code))
     (bad ''register window out of bounds'')"

definition check_zero :: "bool \<Rightarrow> unit res" where
  "check_zero z = ensure z (bad ''nonzero reserved operand'')"

definition verify_keyword :: "program \<Rightarrow> u16 set \<Rightarrow> symbol_id \<Rightarrow> u16 set res" where
  "verify_keyword p seen name = and_then (check_sym p name) (\<lambda>_.
     and_then (ensure (name \<notin> seen) (bad ''duplicate keyword argument'')) (\<lambda>_.
     Ok (insert name seen)))"

definition verify_call :: "program \<Rightarrow> code_object \<Rightarrow> call_site \<Rightarrow> unit res" where
  "verify_call p code call =
     (let n = unat (call_count call) + length (call_keywords call) in
      if 65535 < n then Err (bad ''call window too large'')
      else and_then (check_range code (call_first call) (of_nat n)) (\<lambda>_.
        and_then (try_fold (verify_keyword p) {} (call_keywords call)) (\<lambda>_. Ok ())))"

text \<open>Statements that only check, in order: the first diagnostic is returned.\<close>

definition checks :: "unit res list \<Rightarrow> unit res" where
  "checks = try_all (\<lambda>c. c)"

definition binary_ops :: "op list" where
  "binary_ops = [OpAdd, OpInplaceAdd, OpSub, OpMul, OpFloorDiv, OpMod, OpDiv, OpEq, OpNe, OpLt, OpLe,
     OpGt, OpGe, OpIs, OpIsNot, OpContains, OpNotContains, OpPow, OpBitOr, OpBitXor, OpBitAnd,
     OpLeftShift, OpRightShift, OpInplaceSub, OpInplaceMul, OpInplaceDiv, OpInplaceFloorDiv,
     OpInplaceMod, OpInplacePow, OpInplaceBitOr, OpInplaceBitXor, OpInplaceBitAnd,
     OpInplaceLeftShift, OpInplaceRightShift, OpMatMul, OpInplaceMatMul, OpItem, OpSetItem,
     OpMatchKey, OpMatchClass, OpMatchAttr, OpMatchArgs, OpMatchClassItem]"

definition verify_class_keywords :: "program \<Rightarrow> call_site \<Rightarrow> unit res" where
  "verify_class_keywords p call =
     (if 1 < length (call_keywords call) then Err (bad ''invalid class keyword window'')
      else and_then (try_any (\<lambda>name. and_then (index_at (symbols p) (unat name)) (\<lambda>s.
              Ok (s \<noteq> ''metaclass''))) (call_keywords call)) (\<lambda>b.
        ensure (\<not> b) (bad ''invalid class keyword window'')))"

definition verify_raise :: "code_object \<Rightarrow> instr \<Rightarrow> unit res" where
  "verify_raise code i =
     (if 2 < ib i \<or> (ib i \<noteq> 2 \<and> ic i \<noteq> 0) then Err (bad ''invalid raise operand'')
      else if ib i = 0 then check_reg code (ia i)
      else if ib i = 1 then ensure (ia i = 0) (bad ''nonzero bare raise operand'')
      else if ib i = 2 then checks [check_reg code (ia i), check_reg code (ic i)]
      else Panic)"

definition verify_clear_binding :: "program \<Rightarrow> code_object \<Rightarrow> instr \<Rightarrow> unit res" where
  "verify_clear_binding p code i =
     (if 3 < ia i \<or> ic i \<noteq> 0 then Err (bad ''invalid clear-binding operand'')
      else if ia i = 0 then check_reg code (ib i)
      else if ia i = 1 then check_sym p (ib i)
      else if ia i = 2 then ensure (unat (ib i) < cell_count code) (bad ''clear cell out of bounds'')
      else if ia i = 3 then
        (if \<not> class_body code then Err (bad ''namespace clear outside class body'')
         else check_sym p (ib i))
      else Panic)"

text \<open>The match over opcodes. \<open>reg\<close>, \<open>sym\<close>, \<open>jump\<close> and \<open>range\<close> are the closures of the source. The
  arms are in the order of the source, in three definitions: from \<open>LoadName\<close> on, from
  \<open>LoadGlobal\<close> on, and from \<open>Return\<close> on.\<close>

definition verify_operands_last :: "program \<Rightarrow> code_object \<Rightarrow> op \<Rightarrow> instr \<Rightarrow> unit res" where
  "verify_operands_last p code x i =
    (let a = ia i; b = ib i; c = ic i;
         reg = check_reg code; sym = check_sym p; jump = check_jump code; range = check_range code in
     if x = OpReturn then checks [reg a, check_zero (b = 0 \<and> c = 0)]
     else if x = OpYield then checks
       [ensure (\<not> (\<not> generator code \<and> \<not> coroutine code)) (bad ''yield outside resumable code''),
        reg a, reg b, check_zero (c = 0)]
     else if x = OpAsyncYield then checks
       [ensure (\<not> (\<not> generator code \<or> \<not> coroutine code))
          (bad ''async yield outside async generator code''),
        reg a, reg b, check_zero (c = 0)]
     else if x = OpYieldFrom then checks
       [ensure (\<not> (\<not> generator code \<and> \<not> coroutine code)) (bad ''yield from outside resumable code''),
        reg a, reg b, jump c]
     else if x = OpGetAwaitable then checks
       [ensure (coroutine code) (bad ''await outside coroutine code''), reg a, reg b, check_zero (c = 0)]
     else if x \<in> set [OpGetAIter, OpGetANext] then checks
       [ensure (\<not> (x = OpGetANext \<and> \<not> coroutine code)) (bad ''async iteration outside coroutine code''),
        reg a, reg b, check_zero (c = 0)]
     else if x = OpEndAsyncFor then checks
       [ensure (coroutine code) (bad ''async iteration outside coroutine code''),
        reg a, jump b, check_zero (c = 0)]
     else if x = OpRaise then verify_raise code i
     else if x = OpExceptionMatch then checks [reg a, reg b, reg c]
     else if x = OpClearException then check_zero (a = 0 \<and> b = 0 \<and> c = 0)
     else if x = OpPushException then checks [reg a, check_zero (b = 0 \<and> c = 0)]
     else if x \<in> set [OpContextEnter, OpContextExit] then checks [reg a, reg b, reg c]
     else if x \<in> set [OpAsyncContextEnter, OpAsyncContextExit] then checks
       [ensure (coroutine code) (bad ''async context management outside coroutine code''),
        reg a, reg b, reg c]
     else if x = OpClearBinding then verify_clear_binding p code i
     else if x = OpFunction then checks
       [reg a, ensure (unat b < length (function_sites code)) (bad ''function site out of bounds''),
        check_zero (c = 0)]
     else if x \<in> set [OpCall, OpClass] then
       and_then (checks [reg a, reg b,
          ensure (unat c < length (calls code)) (bad ''call site out of bounds'')]) (\<lambda>_.
        if x = OpClass then and_then (index_at (calls code) (unat c)) (verify_class_keywords p)
        else Ok ())
     else if x \<in> set [OpTuple, OpList] then checks [reg a, range b c]
     else if x = OpUnpack then checks [reg b, range a c]
     else if x = OpNext then checks [reg a, reg b, jump c]
     else checks [reg a, reg b, sym c])"

definition verify_operands_mid :: "program \<Rightarrow> code_object \<Rightarrow> op \<Rightarrow> instr \<Rightarrow> unit res" where
  "verify_operands_mid p code x i =
    (let a = ia i; b = ib i; c = ic i;
         reg = check_reg code; sym = check_sym p; jump = check_jump code; range = check_range code in
     if x \<in> set [OpLoadGlobal, OpStoreGlobal, OpImport] then checks
       [reg a, sym b, check_zero (c = 0)]
     else if x = OpImportFrom then checks [reg a, reg b, sym c]
     else if x = OpDelAttr then checks [reg a, sym b, check_zero (c = 0)]
     else if x = OpDelItem then checks [reg a, reg b, check_zero (c = 0)]
     else if x \<in> set binary_ops then checks [reg a, reg b, reg c]
     else if x = OpSlice then checks [reg a, range b 3, check_zero (c = 0)]
     else if x = OpJump then checks [jump a, check_zero (b = 0 \<and> c = 0)]
     else if x \<in> set [OpJumpFalse, OpJumpTrue] then checks [reg a, jump b, check_zero (c = 0)]
     else verify_operands_last p code x i)"

definition verify_operands :: "program \<Rightarrow> code_object \<Rightarrow> op \<Rightarrow> instr \<Rightarrow> unit res" where
  "verify_operands p code x i =
    (let a = ia i; b = ib i; c = ic i;
         reg = check_reg code; sym = check_sym p; jump = check_jump code; range = check_range code in
     if x \<in> set [OpLoadName, OpStoreName, OpClassDeref] then checks
       [ensure (class_body code) (bad ''namespace opcode outside class body''), reg a, sym b,
        if x = OpClassDeref then ensure (unat c < length (free_vars code))
            (bad ''class closure operand out of bounds'')
        else check_zero (c = 0)]
     else if x = OpBeginArgs then check_zero (a = 0 \<and> b = 0 \<and> c = 0)
     else if x = OpArgStar then checks
       [reg a, ensure (\<not> (b \<noteq> 0 \<or> 1 < c)) (bad ''invalid star argument flags'')]
     else if x \<in> set [OpArgPos, OpArgMapping, OpDict, OpSet] then checks
       [reg a, check_zero (b = 0 \<and> c = 0)]
     else if x = OpArgNamed then checks [reg a, sym b, check_zero (c = 0)]
     else if x \<in> set [OpCallExpanded, OpDictMerge] then checks [reg a, reg b, check_zero (c = 0)]
     else if x \<in> set [OpLoadCell, OpStoreCell] then checks
       [reg a, ensure (\<not> (cell_count code \<le> unat b \<or> c \<noteq> 0)) (bad ''invalid cell operand'')]
     else if x = OpConst then checks
       [reg a, ensure (unat b < length (constants code)) (bad ''constant out of bounds''),
        check_zero (c = 0)]
     else if x \<in> set [OpMove, OpNeg, OpPos, OpInvert, OpNot, OpIter, OpListAppend, OpSetAdd] then
       checks [reg a, reg b, check_zero (c = 0)]
     else if x = OpMatchUnique then checks
       [reg a, reg b, ensure (\<not> 1 < c) (bad ''invalid match uniqueness mode'')]
     else if x = OpConvert then checks
       [reg a, reg b, ensure (1 \<le> c \<and> c \<le> 3) (bad ''invalid format conversion'')]
     else if x = OpFormatValue then checks [reg a, reg b, reg c]
     else if x = OpTypeParam then checks
       [reg a, sym b, ensure (\<not> 3 < c) (bad ''invalid type parameter kind'')]
     else if x = OpTypeParamDefault then checks
       [reg a, reg b, ensure (\<not> 1 < c) (bad ''invalid type parameter default mode'')]
     else if x = OpTypeAlias then checks [reg a, sym b, reg c]
     else if x = OpMatchMapping then checks [reg a, reg b]
     else if x = OpMatchSequence then checks [reg a, reg b]
     else verify_operands_mid p code x i)"

lemmas verify_operands_defs =
  verify_operands_def verify_operands_mid_def verify_operands_last_def

definition verify_instruction :: "program \<Rightarrow> code_object \<Rightarrow> nat \<times> instr \<Rightarrow> unit res" where
  "verify_instruction p code = (\<lambda>(pc, i).
     and_then (op_try_from (opcode i)) (\<lambda>x.
     and_then (verify_operands p code x i) (\<lambda>_.
     ensure (\<not> (pc + 1 = length (instructions code) \<and> x \<notin> {OpJump, OpReturn, OpRaise, OpEndAsyncFor}))
       (bad ''code can fall off end''))))"

definition verify_code :: "program \<Rightarrow> u16 set \<Rightarrow> code_object \<Rightarrow> unit res" where
  "verify_code p entries code =
     and_then (verify_code_header p code) (\<lambda>_.
     and_then (try_all (verify_function_site p entries code) (function_sites code)) (\<lambda>_.
     and_then (ensure (each_new hint_pc (advisory_pc_ok code) {} (advisory_results code) \<noteq> None)
       (bad ''invalid advisory result'')) (\<lambda>_.
     and_then (try_all (verify_region code) (exception_regions code)) (\<lambda>_.
     and_then (verify_region_pairs (exception_regions code)) (\<lambda>_.
     and_then (try_all (verify_call p code) (calls code)) (\<lambda>_.
     try_all (verify_instruction p code) (enumerate 0 (instructions code))))))))"

section \<open>The argument stack\<close>

text \<open>The two matches over an opcode: the depth after the instruction, and the edges that the work
  list receives, in the order they are pushed.\<close>

definition stack_bad :: "'a res" where
  "stack_bad = Err (bad ''unbalanced expanded argument stack'')"

definition stack_effect :: "op \<Rightarrow> nat \<Rightarrow> nat res" where
  "stack_effect x d =
     (if x = OpBeginArgs then Ok (d + 1)
      else if x = OpCallExpanded then (if d = 0 then stack_bad else Ok (d - 1))
      else if x \<in> {OpArgPos, OpArgStar, OpArgNamed, OpArgMapping} \<and> d = 0 then stack_bad
      else Ok d)"

definition stack_edges :: "op \<Rightarrow> instr \<Rightarrow> nat \<Rightarrow> nat \<Rightarrow> (nat \<times> nat) list res" where
  "stack_edges x i pc d =
     (if x \<in> {OpReturn, OpRaise, OpYield} then (if d \<noteq> 0 then stack_bad else Ok [])
      else if x = OpJump then Ok [(unat (ia i), d)]
      else if x \<in> {OpJumpFalse, OpJumpTrue} then Ok [(unat (ib i), d), (pc + 1, d)]
      else if x \<in> {OpNext, OpYieldFrom} then Ok [(unat (ic i), d), (pc + 1, d)]
      else if x = OpEndAsyncFor then Ok [(unat (ib i), d)]
      else Ok [(pc + 1, d)])"

definition stack_visit :: "code_object \<Rightarrow> nat \<Rightarrow> nat \<Rightarrow> (nat \<times> nat) list res" where
  "stack_visit code pc d =
     and_then (index_at (instructions code) pc) (\<lambda>i.
     and_then (op_try_from (opcode i)) (\<lambda>x.
     and_then (stack_effect x d) (stack_edges x i pc)))"

text \<open>The loop pops the end of the vector: here the head of the list, so pushes are reversed. It
  ends because a popped entry either finds its instruction visited or visits a new one.\<close>

lemma count_None_update:
  "pc < length ds \<Longrightarrow> ds ! pc = None \<Longrightarrow> count_list (ds[pc := Some d]) None < count_list ds None"
proof (induction ds arbitrary: pc)
  case (Cons x ds)
  then show ?case by (cases pc) auto
qed simp

function stack_loop :: "code_object \<Rightarrow> nat option list \<Rightarrow> (nat \<times> nat) list \<Rightarrow> nat option list res" where
  "stack_loop code depths [] = Ok depths"
| "stack_loop code depths ((pc, d) # work) =
     (if length depths \<le> pc then Panic
      else case depths ! pc of
        Some previous \<Rightarrow> if previous \<noteq> d then stack_bad else stack_loop code depths work
      | None \<Rightarrow> (case stack_visit code pc d of
          Ok edges \<Rightarrow> stack_loop code (depths[pc := Some d]) (rev edges @ work)
        | Err e \<Rightarrow> Err e | Panic \<Rightarrow> Panic | Diverge \<Rightarrow> Diverge))"
  by pat_completeness auto

termination
  by (relation "measures [\<lambda>(_, ds, _). count_list ds None, \<lambda>(_, _, w). length w]")
    (auto simp: count_None_update)

definition stack_depths :: "code_object \<Rightarrow> nat option list res" where
  "stack_depths code = stack_loop code (replicate (length (instructions code)) None)
     (rev ((0, 0) # map (\<lambda>r. (unat (region_target r), 0)) (exception_regions code)))"

definition verify_argument_stack :: "code_object \<Rightarrow> unit res" where
  "verify_argument_stack code = and_then (stack_depths code) (\<lambda>_. Ok ())"

text \<open>\<open>Program::verify\<close>; the verified program is the program itself.\<close>

definition verify :: "program \<Rightarrow> program res" where
  "verify p =
     and_then (verify_header p) (\<lambda>_.
     and_then (verify_modules p) (\<lambda>(names, entries, globals).
     and_then (verify_coverage p) (\<lambda>_.
     and_then (try_all (verify_code p entries) (program_code p)) (\<lambda>_.
     and_then (try_all verify_argument_stack (program_code p)) (\<lambda>_. Ok p)))))"

section \<open>Verification returns\<close>

lemma checks_simps [simp]: "checks [] = Ok ()" "checks (c # cs) = and_then c (\<lambda>_. checks cs)"
  by (simp_all add: checks_def)

lemma clean_checks_list [simp]:
  "clean (check_reg code r)" "clean (check_sym p s)" "clean (check_jump code j)"
  "clean (check_range code u v)" "clean (check_zero z)" "clean stack_bad"
  by (simp_all add: check_reg_def check_sym_def check_jump_def check_range_def check_zero_def
      stack_bad_def)

lemma clean_checks: "\<forall>c\<in>set cs. clean c \<Longrightarrow> clean (checks cs)"
  by (simp add: checks_def clean_try_all)

lemma clean_op_try_from [simp]: "clean (op_try_from w)"
  by (simp add: op_try_from_def)

lemma u16_cases_0_1_2: "\<not> 2 < (w :: u16) \<Longrightarrow> w = 0 \<or> w = 1 \<or> w = 2"
  by (simp add: word_less_nat_alt word_unat_eq_iff) linarith

lemma clean_verify_raise [simp]: "clean (verify_raise code i)"
  using u16_cases_0_1_2 [of "ib i"] by (auto simp: verify_raise_def intro!: clean_and_then)

lemma u16_cases_0_1_2_3: "\<not> 3 < (w :: u16) \<Longrightarrow> w = 0 \<or> w = 1 \<or> w = 2 \<or> w = 3"
  by (simp add: word_less_nat_alt word_unat_eq_iff) linarith

lemma clean_verify_clear_binding [simp]: "clean (verify_clear_binding p code i)"
  using u16_cases_0_1_2_3 [of "ia i"] by (auto simp: verify_clear_binding_def)

definition calls_ok :: "program \<Rightarrow> code_object \<Rightarrow> bool" where
  "calls_ok p code \<longleftrightarrow> (\<forall>c\<in>set (calls code). \<forall>k\<in>set (call_keywords c). unat k < length (symbols p))"

lemma clean_class_keywords:
  assumes "calls_ok p code" "unat c < length (calls code)"
  shows "clean (and_then (index_at (calls code) (unat c)) (verify_class_keywords p))"
proof -
  have "\<forall>k\<in>set (call_keywords (calls code ! unat c)). unat k < length (symbols p)"
    using assms unfolding calls_ok_def by (meson nth_mem)
  then show ?thesis
    using assms(2) by (auto simp: index_at_def verify_class_keywords_def intro!: clean_and_then clean_try_any)
qed

lemma clean_class_branch:
  assumes "calls_ok p code" and that: "clean c1" "clean c2"
  shows "clean (and_then (checks [c1, c2, ensure (unat c < length (calls code)) d]) (\<lambda>_.
      if q then and_then (index_at (calls code) (unat c)) (verify_class_keywords p) else Ok ()))"
  using that clean_class_keywords [OF assms(1), of c] by (auto simp: res_simps intro!: clean_and_then)

lemma clean_verify_operands:
  assumes "calls_ok p code"
  shows "clean (verify_operands p code x i)"
  unfolding verify_operands_defs Let_def
  by (intro clean_if clean_checks clean_class_branch [OF assms]; simp (no_asm))

lemma clean_verify_instruction: "calls_ok p code \<Longrightarrow> clean (verify_instruction p code pi)"
  by (cases pi) (auto simp: verify_instruction_def intro!: clean_and_then clean_verify_operands)

lemma jump_targets_ok:
  assumes "verify_operands p code x i = Ok ()"
  shows "stack_edges x i pc d = Ok es \<Longrightarrow> (j, e) \<in> set es \<Longrightarrow> j < length (instructions code) \<or>
    j = pc + 1 \<and> x \<notin> {OpJump, OpReturn, OpRaise, OpEndAsyncFor}"
proof -
  assume "stack_edges x i pc d = Ok es" "(j, e) \<in> set es"
  then consider "x = OpJump" "j = unat (ia i)"
    | "x = OpJumpFalse \<or> x = OpJumpTrue \<or> x = OpEndAsyncFor" "j = unat (ib i)"
    | "x = OpNext \<or> x = OpYieldFrom" "j = unat (ic i)"
    | "j = pc + 1" "x \<notin> {OpJump, OpReturn, OpRaise, OpEndAsyncFor}"
    by (auto simp: stack_edges_def stack_bad_def split: if_splits)
  then show ?thesis
    using assms
    by cases (auto simp: verify_operands_defs Let_def check_jump_def binary_ops_def res_simps)
qed

definition instructions_ok :: "program \<Rightarrow> code_object \<Rightarrow> bool" where
  "instructions_ok p code \<longleftrightarrow>
     (\<forall>pc<length (instructions code). verify_instruction p code (pc, instructions code ! pc) = Ok ())"

lemma instructions_okI:
  "try_all (verify_instruction p code) (enumerate 0 (instructions code)) = Ok u \<Longrightarrow> instructions_ok p code"
  by (auto simp: res_simps instructions_ok_def in_set_enumerate_eq)

text \<open>The edges of a visited instruction stay inside the code.\<close>

lemma stack_visit_edges:
  assumes ok: "instructions_ok p code" and es: "stack_visit code pc d = Ok es" "(j, e) \<in> set es"
  shows "j < length (instructions code)"
proof -
  let ?i = "instructions code ! pc"
  from es obtain x d' where pc: "pc < length (instructions code)" and x: "op_try_from (opcode ?i) = Ok x"
    and edges: "stack_edges x ?i pc d' = Ok es"
    by (auto simp: stack_visit_def res_simps)
  from ok pc have "verify_instruction p code (pc, ?i) = Ok ()" by (simp add: instructions_ok_def)
  then have "verify_operands p code x ?i = Ok ()"
    and "pc + 1 = length (instructions code) \<longrightarrow> x \<in> {OpJump, OpReturn, OpRaise, OpEndAsyncFor}"
    using x by (auto simp: verify_instruction_def res_simps)
  then show ?thesis
    using jump_targets_ok [OF _ edges es(2), of p code] pc by auto
qed

lemma stack_visit_clean: "pc < length (instructions code) \<Longrightarrow> clean (stack_visit code pc d)"
  by (auto simp: stack_visit_def stack_effect_def stack_edges_def intro!: clean_and_then)

lemma stack_loop_clean:
  "instructions_ok p code \<Longrightarrow> length depths = length (instructions code) \<Longrightarrow>
    \<forall>(pc, d)\<in>set work. pc < length (instructions code) \<Longrightarrow> clean (stack_loop code depths work)"
proof (induction code depths work rule: stack_loop.induct)
  case (2 code depths pc d work)
  then have pc: "pc < length (instructions code)" by auto
  show ?case
  proof (cases "depths ! pc")
    case (Some k)
    then show ?thesis using 2 pc by auto
  next
    case None
    show ?thesis
    proof (cases "stack_visit code pc d")
      case (Ok es)
      have "clean (stack_loop code (depths[pc := Some d]) (rev es @ work))"
        using 2 None Ok pc stack_visit_edges [OF 2(3) Ok] by (intro 2(1)) auto
      then show ?thesis using None Ok 2 pc by simp
    qed (use 2 pc None stack_visit_clean [OF pc, of d] in auto)
  qed
qed simp



section \<open>Verification does not panic\<close>

declare verify_module.simps [simp del]

lemma clean_verify_modules [simp]: "clean (verify_modules p)"
  unfolding verify_modules_def
proof (rule clean_try_fold_invariant [where P = "\<lambda>_. True"], goal_cases)
  case (2 s x)
  obtain names entries globals index m where "s = (names, entries, globals)" "x = (index, m)"
    by (metis surj_pair)
  then show ?case
    by (auto simp: verify_module.simps Let_def split: option.splits intro!: clean_and_then)
qed simp_all

definition module_in_range :: "program \<Rightarrow> module_info \<Rightarrow> bool" where
  "module_in_range p m \<longleftrightarrow> 0 < unat (mod_code_count m) \<and>
     unat (mod_code m) + unat (mod_code_count m) \<le> length (program_code p)"

lemma verify_module_range:
  "verify_module p s (k, m) = Ok s' \<Longrightarrow> module_in_range p m"
  by (cases s) (auto simp: verify_module.simps module_in_range_def Let_def unat_gt_0 split: if_splits)

lemma verify_modules_range:
  assumes "verify_modules p = Ok s" "m \<in> set (modules p)"
  shows "module_in_range p m"
proof -
  obtain k where "k < length (modules p)" "m = modules p ! k"
    using assms(2) by (metis in_set_conv_nth)
  then have "(k, m) \<in> set (enumerate 0 (modules p))" by (simp add: in_set_enumerate_eq)
  then show ?thesis
    using try_fold_each assms(1) verify_module_range unfolding verify_modules_def by fast
qed

lemma cover_slot_Ok: "cover_slot ds k = Ok ds' \<longleftrightarrow> k < length ds \<and> \<not> ds ! k \<and> ds' = ds[k := True]"
  by (auto simp: cover_slot_def res_simps split: if_splits)

lemma cover_slots_Ok:
  "try_fold cover_slot ds ks = Ok ds' \<Longrightarrow> length ds' = length ds \<and> distinct ks \<and>
     (\<forall>k\<in>set ks. k < length ds \<and> \<not> ds ! k) \<and>
     (\<forall>j<length ds. ds' ! j = (ds ! j \<or> j \<in> set ks))"
proof (induction ks arbitrary: ds)
  case (Cons k ks)
  then have k: "k < length ds" "\<not> ds ! k" and run: "try_fold cover_slot (ds[k := True]) ks = Ok ds'"
    by (auto simp: res_simps cover_slot_Ok)
  show ?case using Cons.IH [OF run] k by (auto simp: nth_list_update split: if_splits)
qed simp

lemma clean_cover_slots:
  "\<forall>k\<in>set ks. k < length ds \<Longrightarrow> clean (try_fold cover_slot ds ks)"
  by (rule clean_try_fold_invariant [where P = "\<lambda>t. length t = length ds"])
    (auto simp: cover_slot_def res_simps intro!: clean_and_then split: if_splits)

lemma clean_verify_coverage:
  assumes "\<forall>m\<in>set (modules p). module_in_range p m"
  shows "clean (verify_coverage p)"
  unfolding verify_coverage_def
proof (intro clean_and_then)
  let ?n = "length (program_code p)"
  show "clean (try_fold cover_module (replicate ?n False) (modules p))"
  proof (rule clean_try_fold_invariant [where P = "\<lambda>t. length t = ?n"], goal_cases)
    case (2 s m)
    then show ?case
      using assms by (auto simp: cover_module_def Let_def module_in_range_def intro!: clean_cover_slots)
  next
    case (3 s m s')
    then show ?case
      using cover_slots_Ok by (auto simp: cover_module_def Let_def split: if_splits)
  qed simp
qed simp

lemma each_new_ok: "each_new key ok {} xs \<noteq> None \<Longrightarrow> \<forall>x\<in>set xs. ok x"
  by (auto simp: res_simps)

lemma clean_verify_signature:
  "\<not> length (locals code) < unat (params code) \<Longrightarrow> clean (verify_signature code)"
  by (auto simp: verify_signature_def Let_def intro!: clean_and_then)

lemma clean_type_params [simp]: "clean (try_fold (verify_type_param p code) {} tps)"
  by (rule clean_try_fold_invariant [where P = "\<lambda>_. True"])
    (auto simp: verify_type_param_def intro!: clean_and_then split: option.splits)

lemma clean_verify_code_header: "clean (verify_code_header p code)"
  unfolding verify_code_header_def
  by (intro clean_and_then clean_if clean_try_all)
    (auto simp: res_simps verify_class_cell_def index_at_def intro!: clean_verify_signature clean_and_then)

lemma clean_verify_function_site [simp]: "clean (verify_function_site p entries code site)"
  by (auto simp: verify_function_site_def intro!: clean_and_then clean_try_all)

lemma clean_verify_region_pairs [simp]: "clean (verify_region_pairs rs)"
  by (induction rs) (auto simp: verify_region_pair_def Let_def intro!: clean_and_then clean_try_all)

lemma clean_verify_call [simp]: "clean (verify_call p code c)"
  by (auto simp: verify_call_def Let_def verify_keyword_def
      intro!: clean_and_then clean_try_fold_invariant [where P = "\<lambda>_. True"])

lemma verify_keywords_ok:
  "try_fold (verify_keyword p) seen ks = Ok s \<Longrightarrow> \<forall>k\<in>set ks. unat k < length (symbols p)"
  by (induction ks arbitrary: seen) (auto simp: res_simps verify_keyword_def check_sym_def)

lemma verify_calls_ok: "try_all (verify_call p code) (calls code) = Ok u \<Longrightarrow> calls_ok p code"
  using verify_keywords_ok by (fastforce simp: res_simps calls_ok_def verify_call_def Let_def split: if_splits)

lemma clean_verify_code: "clean (verify_code p entries code)"
  unfolding verify_code_def
  by (intro clean_and_then clean_verify_code_header clean_try_all)
    (auto simp: verify_region_def intro!: clean_verify_instruction dest: verify_calls_ok)

lemma verify_code_parts:
  assumes "verify_code p entries code = Ok u"
  shows "instructions_ok p code" "\<forall>r\<in>set (exception_regions code). verify_region code r = Ok ()"
    "instructions code \<noteq> []" "calls_ok p code"
    "verify_region_pairs (exception_regions code) = Ok ()"
  using assms
  by (auto simp: verify_code_def verify_code_header_def res_simps intro!: instructions_okI verify_calls_ok)

lemma clean_verify_argument_stack:
  assumes "verify_code p entries code = Ok u"
  shows "clean (verify_argument_stack code)"
proof -
  have "\<forall>(pc, d)\<in>set (rev ((0, 0) # map (\<lambda>r. (unat (region_target r), 0)) (exception_regions code))).
      pc < length (instructions code)"
    using verify_code_parts(2,3) [OF assms] by (auto simp: verify_region_def res_simps)
  then show ?thesis
    using verify_code_parts(1) [OF assms]
    by (auto simp: verify_argument_stack_def stack_depths_def intro!: clean_and_then stack_loop_clean)
qed

text \<open>C32: Verification always answers: on every program, however malformed, it returns the verified
  program or a diagnostic. No index, slice or \<open>unreachable!\<close> of the verifier can panic, and the work
  list of the argument-stack check is exhausted after finitely many steps.\<close>

theorem verify_total: "(\<exists>q. verify p = Ok q) \<or> (\<exists>d. verify p = Err d)"
proof -
  have "clean (verify p)"
    unfolding verify_def
    by (intro clean_and_then clean_try_all)
      (auto simp: verify_header_def res_simps intro!: clean_and_then clean_verify_coverage clean_try_all
        clean_verify_code clean_verify_argument_stack verify_modules_range)
  then show ?thesis by (cases rule: cleanE) auto
qed

section \<open>What verification guarantees\<close>

text \<open>Control flow as the interpreter moves: after a jump, a test, an exhausted iterator or an
  ordinary instruction. A frame ends at \<open>Return\<close> and \<open>Raise\<close>. \<open>Yield\<close> and \<open>AsyncYield\<close> suspend it;
  \<open>resume_generator\<close> goes on at the next instruction, with a frame that starts above all argument
  buffers of the machine: its own are gone. \<open>BeginArgs\<close> opens a buffer, \<open>CallExpanded\<close> consumes one.\<close>

definition suspends :: "op \<Rightarrow> bool" where
  "suspends x \<longleftrightarrow> x = OpYield \<or> x = OpAsyncYield"


definition flow_successors :: "op \<Rightarrow> instr \<Rightarrow> nat \<Rightarrow> nat set" where
  "flow_successors x i pc =
     (if x = OpReturn \<or> x = OpRaise then {}
      else if x = OpJump then {unat (ia i)}
      else if x = OpJumpFalse \<or> x = OpJumpTrue then {pc + 1, unat (ib i)}
      else if x = OpNext \<or> x = OpYieldFrom then {pc + 1, unat (ic i)}
      else if x = OpEndAsyncFor then {unat (ib i)}
      else {pc + 1})"

definition buffers_after :: "op \<Rightarrow> nat \<Rightarrow> nat" where
  "buffers_after x d =
     (if suspends x then 0 else if x = OpBeginArgs then d + 1 else if x = OpCallExpanded then d - 1 else d)"

definition needs_buffer :: "op \<Rightarrow> bool" where
  "needs_buffer x \<longleftrightarrow> x \<in> {OpArgPos, OpArgStar, OpArgNamed, OpArgMapping, OpCallExpanded}"

text \<open>What an activation can reach: whether it has been suspended and resumed before, the instruction
  and the number of its open argument buffers. A handler can be entered at any time; the unwinder
  drops the frame's buffers before it does so.\<close>

inductive activation :: "code_object \<Rightarrow> bool \<Rightarrow> nat \<Rightarrow> nat \<Rightarrow> bool" for code where
  start: "activation code False 0 0"
| handler: "activation code resumed pc d \<Longrightarrow> r \<in> set (exception_regions code) \<Longrightarrow>
    activation code resumed (unat (region_target r)) 0"
| step: "activation code resumed pc d \<Longrightarrow> pc < length (instructions code) \<Longrightarrow>
    opcode (instructions code ! pc) = op_code x \<Longrightarrow>
    pc' \<in> flow_successors x (instructions code ! pc) pc \<Longrightarrow>
    activation code (resumed \<or> suspends x) pc' (buffers_after x d)"

lemma op_try_from_code [simp]: "op_try_from (op_code x) = Ok x"
  by (simp add: op_try_from_def ok_or_def)

lemma op_try_from_Ok: "op_try_from w = Ok x \<Longrightarrow> w = op_code x"
  using opcode_roundtrip [of w x] by blast




lemma verify_Ok_parts:
  assumes "verify p = Ok q"
  obtains s where "verify_header p = Ok ()" "verify_modules p = Ok s" "verify_coverage p = Ok ()"
    "\<forall>code\<in>set (program_code p). verify_code p (fst (snd s)) code = Ok ()"
    "\<forall>code\<in>set (program_code p). verify_argument_stack code = Ok ()"
  using assms by (auto simp: verify_def res_simps)

text \<open>Where control goes next in verified code, suspensions included.\<close>

lemma verified_successors:
  assumes "verify_instruction p code (pc, i) = Ok ()" "pc < length (instructions code)"
  obtains x where "opcode i = op_code x" "verify_operands p code x i = Ok ()"
    "\<forall>j\<in>flow_successors x i pc. j < length (instructions code)"
proof -
  obtain x where x: "op_try_from (opcode i) = Ok x" and ops: "verify_operands p code x i = Ok ()"
    and last: "pc + 1 = length (instructions code) \<longrightarrow> x \<in> {OpJump, OpReturn, OpRaise, OpEndAsyncFor}"
    using assms(1) by (auto simp: verify_instruction_def res_simps)
  have "j < length (instructions code)" if j: "j \<in> flow_successors x i pc" for j
  proof (cases "x = OpYield")
    case True
    then show ?thesis using j last assms(2) by (auto simp: flow_successors_def)
  next
    case False
    then have "\<exists>es. stack_edges x i pc 0 = Ok es \<and> (j, 0) \<in> set es"
      using j by (auto simp: stack_edges_def flow_successors_def)
    then show ?thesis using jump_targets_ok [OF ops, of pc 0 _ j 0] last assms(2) by auto
  qed
  then show ?thesis using that op_try_from_Ok [OF x] ops by blast
qed



section \<open>Verified programs\<close>

text \<open>A function of two registers and one constant, and programs made of such functions.\<close>

definition example_code :: "bool \<Rightarrow> bool \<Rightarrow> exception_region list \<Rightarrow> instr list \<Rightarrow> code_object" where
  "example_code gen cor rs is = \<lparr>class_body = False, generator = gen, coroutine = cor,
     code_name = ''f'', params = 0,
     code_signature = \<lparr>positional = 0, posonly = 0, keyword_only = 0, vararg = None, kwarg = None,
       sig_defaults = []\<rparr>,
     locals = [], type_params = [], registers = 2, instructions = is,
     spans = map (\<lambda>_. \<lparr>span_start = 0, span_end = 0\<rparr>) is, constants = [ConstNone], calls = [],
     cell_locals = [], free_vars = [], function_sites = [], advisory_results = [],
     exception_regions = rs\<rparr>"

lemma example_code_fields [simp]:
  "class_body (example_code g c rs is) = False" "generator (example_code g c rs is) = g"
  "coroutine (example_code g c rs is) = c" "params (example_code g c rs is) = 0"
  "locals (example_code g c rs is) = []" "type_params (example_code g c rs is) = []"
  "registers (example_code g c rs is) = 2" "instructions (example_code g c rs is) = is"
  "length (spans (example_code g c rs is)) = length is"
  "constants (example_code g c rs is) = [ConstNone]" "calls (example_code g c rs is) = []"
  "cell_locals (example_code g c rs is) = []" "free_vars (example_code g c rs is) = []"
  "function_sites (example_code g c rs is) = []" "advisory_results (example_code g c rs is) = []"
  "exception_regions (example_code g c rs is) = rs"
  by (simp_all add: example_code_def)

lemma instr_new_fields [simp]:
  "opcode (instr_new x a b c) = op_code x" "ia (instr_new x a b c) = a"
  "ib (instr_new x a b c) = b" "ic (instr_new x a b c) = c"
  by (simp_all add: instr_new_def)

definition example_main :: code_object where
  "example_main = example_code False False
     [\<lparr>region_start = 0, region_end = 4, region_target = 6, region_exception = 1\<rparr>]
     [instr_new OpConst 0 0 0, instr_new OpBeginArgs 0 0 0, instr_new OpArgPos 0 0 0,
      instr_new OpCallExpanded 1 0 0, instr_new OpJumpFalse 1 6 0, instr_new OpClearException 0 0 0,
      instr_new OpReturn 1 0 0]"

definition example_program :: "code_object list \<Rightarrow> program" where
  "example_program fs = \<lparr>version = 41, symbols = [''x''], program_code = example_main # fs,
     modules = [\<lparr>mod_name = ''m'', mod_filename = ''m.py'', mod_code = 0,
       mod_code_count = of_nat (Suc (length fs)), mod_globals = [0]\<rparr>]\<rparr>"

lemma example_program_fields [simp]:
  "version (example_program fs) = 41" "symbols (example_program fs) = [''x'']"
  "program_code (example_program fs) = example_main # fs"
  by (simp_all add: example_program_def)

lemma verify_instruction_new:
  "verify_instruction p code (pc, instr_new x a b c) =
     and_then (verify_operands p code x (instr_new x a b c)) (\<lambda>_.
     ensure (\<not> (pc + 1 = length (instructions code) \<and> x \<notin> {OpJump, OpReturn, OpRaise, OpEndAsyncFor}))
       (bad ''code can fall off end''))"
  by (simp add: verify_instruction_def)

lemma stack_visit_new:
  "pc < length (instructions code) \<Longrightarrow> instructions code ! pc = instr_new x a b c \<Longrightarrow>
     stack_visit code pc d = and_then (stack_effect x d) (stack_edges x (instr_new x a b c) pc)"
  by (simp add: stack_visit_def index_at_def)

lemmas verify_checks = check_reg_def check_sym_def check_jump_def check_range_def check_zero_def
  ensure_def Let_def

lemma verify_example_code:
  assumes "try_all (verify_region (example_code g c rs is)) rs = Ok ()" "verify_region_pairs rs = Ok ()"
    and "is \<noteq> []" "length is < 65536"
    and "try_all (verify_instruction p (example_code g c rs is)) (enumerate 0 is) = Ok ()"
  shows "verify_code p entries (example_code g c rs is) = Ok ()"
  using assms
  by (simp add: verify_code_def verify_code_header_def verify_signature_def example_code_def
      cell_count_def ensure_def)

lemma example_main_code: "verify_code p entries example_main = Ok ()"
  unfolding example_main_def
  by (rule verify_example_code)
    (simp_all add: verify_instruction_new verify_operands_defs verify_checks verify_region_def cell_count_def
      binary_ops_def word_le_nat_alt)

lemma example_main_stack: "verify_argument_stack example_main = Ok ()"
  by (simp add: verify_argument_stack_def stack_depths_def example_main_def stack_visit_new
      stack_effect_def stack_edges_def)

lemma verify_example_program:
  assumes "fs = [] \<or> fs = [f]"
    and "\<forall>f\<in>set fs. verify_code (example_program fs) {0} f = Ok ()"
    and "\<forall>f\<in>set fs. verify_argument_stack f = Ok ()"
  shows "verify (example_program fs) = Ok (example_program fs)"
proof -
  have "verify_coverage (example_program fs) = Ok ()"
    using assms(1) by (auto simp: verify_coverage_def cover_module_def cover_slot_def example_program_def
        index_at_def upt_conv_Cons ensure_def Let_def)
  moreover have "\<exists>ns gs. verify_modules (example_program fs) = Ok (ns, {0}, gs)"
    using assms(1) by (auto simp: verify_modules_def verify_module.simps example_program_def Let_def
        index_at_def entry_ok_def example_main_def ensure_def)
  moreover have "verify_header (example_program fs) = Ok ()"
    using assms(1) by (auto simp: verify_header_def BYTECODE_VERSION_def example_program_def ensure_def)
  moreover have "try_all (verify_code (example_program fs) {0}) (program_code (example_program fs)) = Ok ()"
    using assms(1,2) by (auto simp: example_main_code)
  moreover have "try_all verify_argument_stack (program_code (example_program fs)) = Ok ()"
    using assms(1,3) by (auto simp: example_main_stack)
  ultimately show ?thesis by (auto simp: verify_def)
qed

lemma example_verified: "verify (example_program []) = Ok (example_program [])"
  by (rule verify_example_program) simp_all



section \<open>Suspension points\<close>

text \<open>A suspended generator keeps its registers, cells, handler stack and instruction pointer, but no
  argument buffers (\<open>suspend_active_generator\<close>), and resumes at the next instruction.\<close>

definition yield_code :: code_object where
  "yield_code = example_code True False []
     [instr_new OpConst 0 0 0, instr_new OpYield 0 0 0, instr_new OpArgPos 0 0 0,
      instr_new OpReturn 0 0 0]"

definition async_yield_code :: code_object where
  "async_yield_code = example_code True True []
     [instr_new OpConst 0 0 0, instr_new OpBeginArgs 0 0 0, instr_new OpAsyncYield 0 0 0,
      instr_new OpCallExpanded 0 0 0, instr_new OpReturn 0 0 0]"

lemma suspension_activations:
  "activation yield_code True 2 0" "activation async_yield_code False 2 1" "activation async_yield_code True 3 0"
proof -
  note flow = yield_code_def async_yield_code_def flow_successors_def suspends_def buffers_after_def
  have "activation yield_code False 1 0"
    using activation.step [OF activation.start, of yield_code OpConst 1] by (simp add: flow)
  from activation.step [OF this, of OpYield 2] show "activation yield_code True 2 0" by (simp add: flow)
  have "activation async_yield_code False 1 0"
    using activation.step [OF activation.start, of async_yield_code OpConst 1] by (simp add: flow)
  from activation.step [OF this, of OpBeginArgs 2] show two: "activation async_yield_code False 2 1"
    by (simp add: flow)
  from activation.step [OF this, of OpAsyncYield 3] show "activation async_yield_code True 3 0"
    by (simp add: flow)
qed

text \<open>C39: The check is blind at suspension points. It accepts a generator whose continuation after a
  \<open>Yield\<close>, entered without buffers, is an instruction that needs one (the interpreter then takes the
  innermost buffer of another activation, or fails its \<open>expect("verified argument stack")\<close> when there
  is none): \<open>Yield\<close> contributes no edge to the work list.
  And it accepts an asynchronous generator that is suspended at \<open>AsyncYield\<close> with an open buffer,
  although a plain \<open>Yield\<close> with an open buffer is refused, and that reaches \<open>CallExpanded\<close> without
  one after it is resumed.\<close>

theorem suspension_unchecked:
  "verify (example_program [yield_code]) = Ok (example_program [yield_code]) \<and>
   opcode (instructions yield_code ! 1) = op_code OpYield \<and>
   opcode (instructions yield_code ! 2) = op_code OpArgPos \<and> stack_effect OpArgPos 0 = stack_bad \<and>
   activation yield_code True 2 0 \<and> needs_buffer OpArgPos \<and>
   verify (example_program [async_yield_code]) = Ok (example_program [async_yield_code]) \<and>
   opcode (instructions async_yield_code ! 2) = op_code OpAsyncYield \<and> activation async_yield_code False 2 1 \<and>
   opcode (instructions async_yield_code ! 3) = op_code OpCallExpanded \<and>
   activation async_yield_code True 3 0 \<and> needs_buffer OpCallExpanded"
proof -
  have "verify_code p entries yield_code = Ok ()" "verify_code p entries async_yield_code = Ok ()"
    for p entries
    unfolding yield_code_def async_yield_code_def
    by (rule verify_example_code; simp add: verify_instruction_new verify_operands_defs verify_checks
        binary_ops_def word_le_nat_alt)+
  moreover have "verify_argument_stack yield_code = Ok ()" "verify_argument_stack async_yield_code = Ok ()"
    by (simp_all add: verify_argument_stack_def stack_depths_def yield_code_def async_yield_code_def
        stack_visit_new stack_effect_def stack_edges_def)
  ultimately have "verify (example_program [yield_code]) = Ok (example_program [yield_code])"
    "verify (example_program [async_yield_code]) = Ok (example_program [async_yield_code])"
    by (auto intro!: verify_example_program)
  moreover note suspension_activations
  ultimately show ?thesis
    by (simp add: yield_code_def async_yield_code_def stack_effect_def needs_buffer_def)
qed

section \<open>Operands\<close>

text \<open>The registers an instruction addresses: single operands, the windows of displays, slices and
  unpacking, and the argument window of a call site.\<close>

definition window :: "u16 \<Rightarrow> nat \<Rightarrow> nat set" where
  "window first count = {unat first ..< unat first + count}"

definition call_window :: "call_site \<Rightarrow> nat set" where
  "call_window s = window (call_first s) (unat (call_count s) + length (call_keywords s))"

definition site_registers :: "function_site \<Rightarrow> u16 set" where
  "site_registers s = set (site_defaults s) \<union> snd ` set (site_annotations s) \<union> set (site_type_params s)"

definition registers_addressed :: "code_object \<Rightarrow> op \<Rightarrow> instr \<Rightarrow> nat set" where
  "registers_addressed code x i =
    (let a = ia i; b = ib i; c = ic i in
     if x \<in> set [OpBeginArgs, OpClearException, OpJump] then {}
     else if x \<in> set [OpTuple, OpList] then {unat a} \<union> window b (unat c)
     else if x = OpUnpack then {unat b} \<union> window a (unat c)
     else if x = OpSlice then {unat a} \<union> window b 3
     else if x \<in> set [OpCall, OpClass] then {unat a, unat b} \<union> call_window (calls code ! unat c)
     else if x = OpFunction then {unat a} \<union> unat ` site_registers (function_sites code ! unat b)
     else if x = OpRaise then (if b = 0 then {unat a} else if b = 2 then {unat a, unat c} else {})
     else if x = OpClearBinding then (if a = 0 then {unat b} else {})
     else if x \<in> set [OpArgStar, OpArgPos, OpArgMapping, OpArgNamed, OpDict, OpSet, OpLoadCell,
       OpStoreCell, OpConst, OpTypeParam, OpLoadGlobal, OpStoreGlobal, OpImport, OpDelAttr,
       OpJumpFalse, OpJumpTrue, OpReturn, OpEndAsyncFor, OpPushException, OpLoadName,
       OpStoreName, OpClassDeref] then {unat a}
     else if x = OpTypeAlias then {unat a, unat c}
     else if x \<in> set binary_ops \<or> x \<in> set [OpFormatValue, OpExceptionMatch, OpContextEnter,
       OpContextExit, OpAsyncContextEnter, OpAsyncContextExit] then {unat a, unat b, unat c}
     else {unat a, unat b})"

text \<open>Symbols: single operands, the keywords of a call site, the annotated names of a function site.\<close>

definition symbols_addressed :: "code_object \<Rightarrow> op \<Rightarrow> instr \<Rightarrow> nat set" where
  "symbols_addressed code x i =
    (if x \<in> set [OpLoadName, OpStoreName, OpClassDeref, OpArgNamed, OpTypeParam, OpTypeAlias,
       OpLoadGlobal, OpStoreGlobal, OpImport, OpDelAttr] then {unat (ib i)}
     else if x \<in> set [OpImportFrom, OpAttr, OpSetAttr] then {unat (ic i)}
     else if x \<in> set [OpCall, OpClass] then unat ` set (call_keywords (calls code ! unat (ic i)))
     else if x = OpFunction then unat ` fst ` set (site_annotations (function_sites code ! unat (ib i)))
     else if x = OpClearBinding \<and> (ia i = 1 \<or> ia i = 3) then {unat (ib i)}
     else {})"

text \<open>The other tables: constants, cells, free variables, call sites, and function sites with the code
  object they name, which takes as many captures, defaults and type parameters as the site has.\<close>

definition site_addressed :: "program \<Rightarrow> code_object \<Rightarrow> function_site \<Rightarrow> bool" where
  "site_addressed p code s \<longleftrightarrow> unat (site_code s) < length (program_code p) \<and>
     (\<forall>c\<in>set (site_captures s). unat c < length (cell_locals code) + length (free_vars code)) \<and>
     (let child = program_code p ! unat (site_code s) in
       length (site_captures s) = length (free_vars child) \<and>
       length (site_defaults s) = length (sig_defaults (code_signature child)) \<and>
       length (site_type_params s) = length (type_params child))"

definition tables_addressed :: "program \<Rightarrow> code_object \<Rightarrow> op \<Rightarrow> instr \<Rightarrow> bool" where
  "tables_addressed p code x i \<longleftrightarrow>
     (x = OpConst \<longrightarrow> unat (ib i) < length (constants code)) \<and>
     (x = OpLoadCell \<or> x = OpStoreCell \<or> x = OpClearBinding \<and> ia i = 2 \<longrightarrow>
        unat (ib i) < length (cell_locals code) + length (free_vars code)) \<and>
     (x = OpClassDeref \<longrightarrow> unat (ic i) < length (free_vars code)) \<and>
     (x = OpFunction \<longrightarrow> unat (ib i) < length (function_sites code) \<and>
        site_addressed p code (function_sites code ! unat (ib i))) \<and>
     (x = OpCall \<or> x = OpClass \<longrightarrow> unat (ic i) < length (calls code))"

text \<open>What the checks of the two site tables establish, once for all instructions.\<close>

definition sites_ok :: "program \<Rightarrow> code_object \<Rightarrow> bool" where
  "sites_ok p code \<longleftrightarrow>
     (\<forall>s\<in>set (calls code). (\<forall>r\<in>call_window s. r < unat (registers code)) \<and>
        (\<forall>k\<in>set (call_keywords s). unat k < length (symbols p))) \<and>
     (\<forall>s\<in>set (function_sites code). site_addressed p code s \<and>
        (\<forall>r\<in>site_registers s. r < registers code) \<and>
        (\<forall>k\<in>fst ` set (site_annotations s). unat k < length (symbols p)))"

lemma window_iff [simp]: "r \<in> window first count \<longleftrightarrow> unat first \<le> r \<and> r < unat first + count"
  by (auto simp: window_def)

lemmas operand_defs = registers_addressed_def symbols_addressed_def tables_addressed_def
  verify_operands_defs check_reg_def check_sym_def check_range_def binary_ops_def cell_count_def
  word_less_nat_alt

lemma verify_raise_registers:
  "verify_raise code i = Ok () \<Longrightarrow> \<forall>r\<in>registers_addressed code OpRaise i. r < unat (registers code)"
  by (auto simp: verify_raise_def registers_addressed_def check_reg_def word_less_nat_alt Let_def res_simps
      split: if_splits)

lemma verify_clear_binding_addressed:
  "verify_clear_binding p code i = Ok () \<Longrightarrow>
     (\<forall>r\<in>registers_addressed code OpClearBinding i. r < unat (registers code)) \<and>
     (\<forall>s\<in>symbols_addressed code OpClearBinding i. s < length (symbols p)) \<and>
     tables_addressed p code OpClearBinding i"
  by (auto simp: verify_clear_binding_def operand_defs Let_def res_simps split: if_splits)

lemma verify_call_addressed:
  assumes "verify_operands p code x i = Ok ()" "sites_ok p code" "x = OpCall \<or> x = OpClass"
  shows "(\<forall>r\<in>registers_addressed code x i. r < unat (registers code)) \<and>
    (\<forall>s\<in>symbols_addressed code x i. s < length (symbols p)) \<and> tables_addressed p code x i"
proof -
  have "unat (ic i) < length (calls code)" "ia i < registers code" "ib i < registers code"
    using assms(1,3) by (auto simp: verify_operands_defs check_reg_def binary_ops_def Let_def res_simps)
  moreover from this have "calls code ! unat (ic i) \<in> set (calls code)" by simp
  ultimately show ?thesis
    using assms(2,3) unfolding sites_ok_def
    by (auto simp: registers_addressed_def symbols_addressed_def tables_addressed_def binary_ops_def
        word_less_nat_alt Let_def)
qed

lemma verify_function_addressed:
  assumes "verify_operands p code OpFunction i = Ok ()" "sites_ok p code"
  shows "(\<forall>r\<in>registers_addressed code OpFunction i. r < unat (registers code)) \<and>
    (\<forall>s\<in>symbols_addressed code OpFunction i. s < length (symbols p)) \<and> tables_addressed p code OpFunction i"
proof -
  have "unat (ib i) < length (function_sites code)" "ia i < registers code"
    using assms(1) by (auto simp: verify_operands_defs check_reg_def binary_ops_def Let_def res_simps)
  moreover from this have "function_sites code ! unat (ib i) \<in> set (function_sites code)" by simp
  ultimately show ?thesis
    using assms(2) unfolding sites_ok_def
    by (auto simp: registers_addressed_def symbols_addressed_def tables_addressed_def
        word_less_nat_alt Let_def)
qed

lemma verify_operands_addressed:
  assumes "verify_operands p code x i = Ok ()" "sites_ok p code"
  shows "(\<forall>r\<in>registers_addressed code x i. r < unat (registers code)) \<and>
    (\<forall>s\<in>symbols_addressed code x i. s < length (symbols p)) \<and> tables_addressed p code x i"
proof -
  consider "x = OpRaise" | "x = OpClearBinding" | "x = OpCall \<or> x = OpClass" | "x = OpFunction"
    | "x \<notin> {OpRaise, OpClearBinding, OpCall, OpClass, OpFunction}" by blast
  then show ?thesis
  proof cases
    case 1
    then show ?thesis
      using assms verify_raise_registers
      by (simp add: verify_operands_defs binary_ops_def symbols_addressed_def tables_addressed_def Let_def)
  next
    case 2
    then show ?thesis
      using assms verify_clear_binding_addressed
      by (simp add: verify_operands_defs binary_ops_def Let_def)
  next
    case 3
    then show ?thesis using assms verify_call_addressed by blast
  next
    case 4
    then show ?thesis using assms verify_function_addressed by blast
  next
    case 5
    then show ?thesis
      using assms(1) by (cases x) (auto simp: operand_defs Let_def res_simps)
  qed
qed

lemma unat_of_nat_u16: "n \<le> 65535 \<Longrightarrow> unat (of_nat n :: u16) = n"
  by (simp add: unat_of_nat take_bit_nat_eq_self_iff)

lemma verify_call_ok:
  assumes "verify_call p code s = Ok u"
  shows "(\<forall>r\<in>call_window s. r < unat (registers code)) \<and>
    (\<forall>k\<in>set (call_keywords s). unat k < length (symbols p))"
proof -
  have "unat (call_first s) + (unat (call_count s) + length (call_keywords s)) \<le> unat (registers code)"
    using assms
    by (auto simp: res_simps verify_call_def check_range_def Let_def unat_of_nat_u16 not_less
        simp del: of_nat_add split: if_splits)
  moreover have "\<forall>k\<in>set (call_keywords s). unat k < length (symbols p)"
    using assms verify_keywords_ok by (auto simp: res_simps verify_call_def Let_def split: if_splits)
  ultimately show ?thesis by (auto simp: call_window_def)
qed

lemma verify_function_site_ok:
  assumes "verify_function_site p entries code s = Ok u"
  shows "site_addressed p code s \<and> (\<forall>r\<in>site_registers s. r < registers code) \<and>
    (\<forall>k\<in>fst ` set (site_annotations s). unat k < length (symbols p))"
proof -
  have "\<forall>(k, r)\<in>set (site_annotations s). unat k < length (symbols p) \<and> r < registers code"
    using assms each_new_ok [of fst "\<lambda>(name, r). unat name < length (symbols p) \<and> r < registers code"]
    by (auto simp: res_simps verify_function_site_def split: if_splits)
  then show ?thesis
    using assms
    by (auto simp: res_simps verify_function_site_def site_addressed_def site_registers_def cell_count_def
        list_ex_iff Let_def not_le split: if_splits)
qed

lemma verify_sites_ok: "verify_code p entries code = Ok u \<Longrightarrow> sites_ok p code"
  using verify_call_ok verify_function_site_ok unfolding sites_ok_def verify_code_def
  by (fastforce simp: res_simps)

text \<open>C31: In a verified program every instruction decodes, and everything it addresses exists: every
  register, single operands as well as the windows of displays, slices and calls and the registers
  that a function site names for defaults, annotations and type parameters; every symbol, the
  keywords of call sites and annotated names included; every constant, cell, captured cell, free
  variable, call site, function site and the code object of a function site, which expects as many
  captures, defaults and type parameters as the site supplies. Execution cannot run past the last
  instruction, on resumption after a suspension neither.\<close>

theorem verify_operands_in_bounds:
  assumes "verify p = Ok q" "code \<in> set (program_code p)" "pc < length (instructions code)"
  shows "\<exists>x. opcode (instructions code ! pc) = op_code x \<and>
    (\<forall>r\<in>registers_addressed code x (instructions code ! pc). r < unat (registers code)) \<and>
    (\<forall>s\<in>symbols_addressed code x (instructions code ! pc). s < length (symbols p)) \<and>
    tables_addressed p code x (instructions code ! pc) \<and>
    (\<forall>j\<in>flow_successors x (instructions code ! pc) pc. j < length (instructions code))"
proof -
  let ?i = "instructions code ! pc"
  obtain s where code: "verify_code p s code = Ok ()"
    using assms(1,2) by (elim verify_Ok_parts) auto
  then have "verify_instruction p code (pc, ?i) = Ok ()"
    using verify_code_parts(1) assms(3) by (simp add: instructions_ok_def)
  then obtain x where "opcode ?i = op_code x" "verify_operands p code x ?i = Ok ()"
    "\<forall>j\<in>flow_successors x ?i pc. j < length (instructions code)"
    using assms(3) by (rule verified_successors)
  then show ?thesis using verify_operands_addressed verify_sites_ok [OF code] by blast
qed

text \<open>A function that defines itself again, with a default and an annotation, and calls the result with
  a keyword argument.\<close>

definition sites_code :: code_object where
  "sites_code = (example_code False False []
     [instr_new OpConst 1 0 0, instr_new OpFunction 0 0 0, instr_new OpCall 0 0 0, instr_new OpReturn 0 0 0])
     \<lparr>params := 1, locals := [0],
      code_signature := \<lparr>positional = 1, posonly = 0, keyword_only = 0, vararg = None, kwarg = None,
        sig_defaults = [0]\<rparr>,
      function_sites := [\<lparr>site_code = 1, site_captures = [], site_defaults = [1],
        site_annotations = [(0, 1)], site_type_params = []\<rparr>],
      calls := [\<lparr>call_first = 1, call_count = 0, call_keywords = [0]\<rparr>]\<rparr>"

lemma sites_code_tables:
  "function_sites sites_code = [\<lparr>site_code = 1, site_captures = [], site_defaults = [1],
     site_annotations = [(0, 1)], site_type_params = []\<rparr>]"
  "calls sites_code = [\<lparr>call_first = 1, call_count = 0, call_keywords = [0]\<rparr>]"
  "free_vars sites_code = []" "type_params sites_code = []" "registers sites_code = 2"
  "sig_defaults (code_signature sites_code) = [0]" "advisory_results sites_code = []"
  "exception_regions sites_code = []"
  by (simp_all add: sites_code_def)

lemma sites_verified: "verify (example_program [sites_code]) = Ok (example_program [sites_code])"
proof (rule verify_example_program)
  let ?p = "example_program [sites_code]"
  have "verify_code_header ?p sites_code = Ok ()"
    by (simp add: verify_code_header_def verify_signature_def sites_code_def cell_count_def ensure_def
        example_code_def)
  moreover have "try_all (verify_instruction ?p sites_code) (enumerate 0 (instructions sites_code)) = Ok ()"
    by (simp add: sites_code_def verify_instruction_new verify_operands_defs verify_checks binary_ops_def
        cell_count_def)
  moreover have "try_all (verify_function_site ?p {0} sites_code) (function_sites sites_code) = Ok ()"
    by (simp add: sites_code_tables verify_function_site_def ensure_def index_at_def word_le_nat_alt)
  moreover have "try_all (verify_call ?p sites_code) (calls sites_code) = Ok ()"
    by (simp add: sites_code_tables verify_call_def verify_keyword_def verify_checks)
  ultimately show "\<forall>f\<in>set [sites_code]. verify_code ?p {0} f = Ok ()"
    by (simp add: verify_code_def sites_code_tables ensure_def)
qed (simp_all add: sites_code_def verify_argument_stack_def stack_depths_def stack_visit_new
    stack_effect_def stack_edges_def)

lemma verify_operands_in_bounds_witness:
  "(\<exists>x. opcode (instructions sites_code ! 1) = op_code x \<and>
    (\<forall>r\<in>registers_addressed sites_code x (instructions sites_code ! 1). r < unat (registers sites_code)) \<and>
    (\<forall>s\<in>symbols_addressed sites_code x (instructions sites_code ! 1).
       s < length (symbols (example_program [sites_code]))) \<and>
    tables_addressed (example_program [sites_code]) sites_code x (instructions sites_code ! 1) \<and>
    (\<forall>j\<in>flow_successors x (instructions sites_code ! 1) 1. j < length (instructions sites_code)))"
  by (rule verify_operands_in_bounds [OF sites_verified]) (simp_all add: sites_code_def)

section \<open>Modules and handlers\<close>

definition module_codes :: "module_info \<Rightarrow> nat list" where
  "module_codes m = [unat (mod_code m)..<unat (mod_code m) + unat (mod_code_count m)]"

lemma cover_module_Ok:
  "cover_module ds m = Ok d1 \<longleftrightarrow> \<not> length ds < unat (mod_code m) + unat (mod_code_count m) \<and>
     try_fold cover_slot ds (module_codes m) = Ok d1"
  by (simp add: cover_module_def module_codes_def Let_def)

lemma cover_modules_Ok:
  "try_fold cover_module ds ms = Ok ds' \<Longrightarrow> length ds' = length ds \<and>
     distinct (concat (map module_codes ms)) \<and>
     (\<forall>k\<in>set (concat (map module_codes ms)). k < length ds \<and> \<not> ds ! k) \<and>
     (\<forall>j<length ds. ds' ! j = (ds ! j \<or> j \<in> set (concat (map module_codes ms))))"
proof (induction ms arbitrary: ds)
  case (Cons m ms)
  obtain d1 where d1: "try_fold cover_slot ds (module_codes m) = Ok d1"
    and run: "try_fold cover_module d1 ms = Ok ds'"
    using Cons.prems by (auto simp: res_simps cover_module_Ok)
  from cover_slots_Ok [OF d1] Cons.IH [OF run] show ?case by auto
qed simp

text \<open>The modules of a verified program partition its code objects: every code object belongs to the
  code range of exactly one module.\<close>

theorem verify_modules_partition:
  assumes "verify p = Ok q"
  shows "distinct (concat (map module_codes (modules p))) \<and>
    set (concat (map module_codes (modules p))) = {..<length (program_code p)}"
proof -
  obtain ds where ds: "try_fold cover_module (replicate (length (program_code p)) False) (modules p) = Ok ds"
    and full: "\<not> list_ex Not ds"
    using assms by (elim verify_Ok_parts) (auto simp: verify_coverage_def res_simps)
  have "\<forall>j<length ds. ds ! j" using full by (simp add: list_ex_iff) (meson nth_mem)
  with cover_modules_Ok [OF ds] show ?thesis by auto
qed

lemma verify_modules_partition_witness:
  "distinct (concat (map module_codes (modules (example_program [])))) \<and>
   set (concat (map module_codes (modules (example_program []))))
     = {..<length (program_code (example_program []))}"
  by (rule verify_modules_partition [OF example_verified])

lemma verify_region_pairs_nth:
  "verify_region_pairs rs = Ok () \<Longrightarrow> j < length rs \<Longrightarrow> k < j \<Longrightarrow> verify_region_pair (rs ! k) (rs ! j) = Ok ()"
proof (induction rs arbitrary: j k)
  case (Cons r rs)
  then show ?case by (cases j; cases k) (auto simp: res_simps)
qed simp

definition region_pcs :: "exception_region \<Rightarrow> nat set" where
  "region_pcs r = {unat (region_start r)..<unat (region_end r)}"

text \<open>C38: The protected ranges of a verified code object are nonempty ranges of its instructions and
  form a tree: any two are disjoint or one contains the other, so the handlers that apply to an
  instruction are totally ordered by inclusion.\<close>

theorem verify_regions_nested:
  assumes "verify p = Ok q" "code \<in> set (program_code p)"
    and "r \<in> set (exception_regions code)" "s \<in> set (exception_regions code)"
  shows "region_pcs r \<noteq> {} \<and> region_pcs r \<subseteq> {..<length (instructions code)} \<and>
    (region_pcs r \<inter> region_pcs s = {} \<or> region_pcs r \<subseteq> region_pcs s \<or> region_pcs s \<subseteq> region_pcs r)"
proof -
  obtain t where "verify_code p t code = Ok ()"
    using assms(1,2) by (elim verify_Ok_parts) auto
  note parts = verify_code_parts [OF this]
  have pair: "region_pcs a \<inter> region_pcs b = {} \<or> region_pcs a \<subseteq> region_pcs b \<or> region_pcs b \<subseteq> region_pcs a"
    if "verify_region_pair a b = Ok ()" for a b
    using that
    by (auto simp: verify_region_pair_def region_pcs_def res_simps Let_def word_less_nat_alt word_le_nat_alt)
  obtain j k where "j < length (exception_regions code)" "k < length (exception_regions code)"
    "r = exception_regions code ! j" "s = exception_regions code ! k"
    using assms(3,4) by (metis in_set_conv_nth)
  then have "region_pcs r \<inter> region_pcs s = {} \<or> region_pcs r \<subseteq> region_pcs s \<or> region_pcs s \<subseteq> region_pcs r"
    using pair [of r s] pair [of s r] verify_region_pairs_nth [OF parts(5)]
    by (cases j k rule: linorder_cases) blast+
  moreover have "verify_region code r = Ok ()" using parts(2) assms(3) by blast
  ultimately show ?thesis
    by (auto simp: verify_region_def region_pcs_def res_simps word_less_nat_alt word_le_nat_alt not_le)
qed

text \<open>A function with one handler inside another.\<close>

definition outer_region :: exception_region where
  "outer_region = \<lparr>region_start = 0, region_end = 3, region_target = 3, region_exception = 1\<rparr>"

definition inner_region :: exception_region where
  "inner_region = \<lparr>region_start = 1, region_end = 2, region_target = 2, region_exception = 1\<rparr>"

definition nested_code :: code_object where
  "nested_code = example_code False False [outer_region, inner_region]
     [instr_new OpConst 0 0 0, instr_new OpConst 1 0 0, instr_new OpConst 0 0 0, instr_new OpReturn 0 0 0]"

lemma nested_verified: "verify (example_program [nested_code]) = Ok (example_program [nested_code])"
proof (rule verify_example_program)
  show "\<forall>f\<in>set [nested_code]. verify_code (example_program [nested_code]) {0} f = Ok ()"
    unfolding nested_code_def
    by (simp, rule verify_example_code; simp add: verify_instruction_new verify_operands_defs verify_checks
        binary_ops_def word_le_nat_alt verify_region_def verify_region_pair_def outer_region_def
        inner_region_def)
qed (simp_all add: nested_code_def verify_argument_stack_def stack_depths_def stack_visit_new
    stack_effect_def stack_edges_def outer_region_def inner_region_def)

lemma verify_regions_nested_witness:
  "region_pcs outer_region \<noteq> {} \<and> region_pcs outer_region \<subseteq> {..<length (instructions nested_code)} \<and>
   (region_pcs outer_region \<inter> region_pcs inner_region = {} \<or>
    region_pcs outer_region \<subseteq> region_pcs inner_region \<or> region_pcs inner_region \<subseteq> region_pcs outer_region)"
  by (rule verify_regions_nested [OF nested_verified]) (simp_all add: nested_code_def)

end
