(* ===== verification/Objects.thy ===== *)
theory Objects
  imports Values Shapes
begin

text \<open>
  The managed objects of the runtime: the \<open>Object\<close> enumeration of
  crates/tonic-runtime/src/heap.rs with the structures its variants carry (classes.rs, dict.rs,
  buffer.rs, foreign.rs, type_plan.rs), and the edges a precise trace reports.

  An \<open>f64\<close> is its 64-bit pattern, a \<open>BigInt\<close> an \<open>int\<close>, an \<open>i64\<close> an \<open>int\<close> in its range, a
  function pointer of an extension an address. A \<open>HashMap\<close> that is only looked up is a map. Boxes
  are transparent.
\<close>

type_synonym fn_pointer = "64 word"

section \<open>Data of the variants\<close>

record traceback_entry =
  tb_function :: string
  tb_span :: span

datatype generator_state = GenCreated | GenSuspended | GenRunning | GenCompleted
datatype generator_kind = KindGenerator | KindCoroutine | KindAsyncGenerator
datatype async_generator_operation = OpSend tvalue | OpThrow tvalue "tvalue option" | OpClose
datatype async_generator_await_state = AwaitCreated | AwaitRunning | AwaitCompleted
datatype async_state = Pending | Finished tvalue | Failed tvalue | Cancelled tvalue

record async_future =
  fut_class :: tvalue
  fut_state :: async_state
  fut_waiters :: "tvalue list"
  fut_callbacks :: "tvalue list"
  fut_due_tick :: "nat option"
  fut_timer_result :: tvalue

record async_task =
  task_class :: tvalue
  task_coroutine :: tvalue
  task_state :: async_state
  task_waiters :: "tvalue list"
  task_callbacks :: "tvalue list"
  task_waiting_on :: "tvalue option"
  task_cancel_requested :: bool

record generator_frame =
  gen_class :: tvalue
  gen_kind :: generator_kind
  gen_execution :: nat
  gen_code :: nat
  gen_ip :: nat
  gen_registers :: "tvalue list"
  gen_cells :: "tvalue list"
  gen_exception_stack :: "tvalue list"
  gen_resume_register :: "nat option"
  gen_yield_from :: "tvalue option"
  gen_async_driver :: "tvalue option"
  gen_return_value :: tvalue
  gen_state :: generator_state

datatype type_parameter_kind = TypeVar | ParamSpec | TypeVarTuple
datatype typing_form_kind = FormLiteral | FormCallable

datatype class_dictionary_key = DictKeyString string | DictKeyOther tvalue

record class_object =
  cls_root :: bool
  cls_id :: nat
  cls_version :: nat
  cls_name :: string
  cls_metaclass :: tvalue
  cls_namespace_mapping :: "tvalue option"
  cls_attributes :: "(string \<times> tvalue) list"
  cls_extra_attributes :: "(tvalue \<times> tvalue) list"
  cls_dictionary_order :: "class_dictionary_key list"
  cls_bases :: "tvalue list"
  cls_mro :: "tvalue list"
  cls_dependents :: "tvalue list"

datatype literal_type_plan =
    LitNone | LitBool bool | LitInt string | LitStr string | LitBytes "8 word list" | LitEllipsis

datatype exact_type_plan =
    ExNoneType | ExBool | ExInt | ExFloat | ExStr | ExBytes | ExList | ExTuple | ExDict | ExSet

datatype buffer_dtype_plan = PlanF64
datatype buffer_mutability_plan = MutAny | MutReadOnly | MutWritable

record buffer_type_plan =
  btp_dtype :: buffer_dtype_plan
  btp_rank :: "nat option"
  btp_mutability :: buffer_mutability_plan

datatype type_plan =
    PlanNone | PlanExact exact_type_plan | PlanList type_plan | PlanDict type_plan type_plan
  | PlanSet type_plan | PlanFixedTuple "type_plan list" | PlanVariadicTuple type_plan
  | PlanLiteral "literal_type_plan list" | PlanCallable callable_parameters type_plan
  | PlanBuffer buffer_type_plan | PlanUnion "type_plan list" | PlanClass nat nat
and callable_parameters = ParamsAny | ParamsPositional "type_plan list"

datatype type_plan_rejection =
    UnsupportedValue | UnsupportedGenericOrigin | InvalidGenericArity | TypeParameterInPlan
  | RecursiveAlias | RecursionLimit | NonStringAnnotationKey | UnsupportedBufferDType
  | InvalidBufferRank | InvalidBufferMutability

record annotation_type_plan =
  atp_name :: string
  atp_plan :: "type_plan_rejection + type_plan"

record class_plan_dependency =
  cpd_class :: tvalue
  cpd_type_id :: nat
  cpd_version :: nat

record function_type_plan =
  ftp_schema_version :: nat
  ftp_annotation_version :: nat
  ftp_canonical_hash :: "64 word"
  ftp_annotations :: "annotation_type_plan list"
  ftp_class_dependencies :: "class_plan_dependency list"

record function_object =
  fun_code :: nat
  fun_execution :: nat
  fun_jit_compile_requested :: bool
  fun_captures :: "tvalue list"
  fun_defaults :: "tvalue list"
  fun_annotations :: "tvalue option"
  fun_annotation_plan :: "function_type_plan option"
  fun_type_params :: "tvalue option"

record exception_object =
  exc_class :: tvalue
  exc_message :: string
  exc_arguments :: "tvalue list"
  exc_stop_iteration_value :: "tvalue option"
  exc_attributes :: attributes
  exc_cause :: "tvalue option"
  exc_context :: "tvalue option"
  exc_suppress_context :: bool
  exc_traceback :: "tvalue option"

text \<open>Hash material of a dictionary key, and the insertion-ordered dictionary with its index from
  hashes to positions.\<close>

datatype key =
    KNone | KNotImplemented | KEllipsis | KSmallInt int | KInt int | KFloat "64 word"
  | KNaN "64 word" | KStr string | KBytes "8 word list" | KTuple "key list" | KSlice "key list"
  | KRange int "int option" "int option" | KIdentity "64 word" | KMethod key key
  | KGenericAlias key key | KLiteralAlias key "literal_type_plan list"
  | KCallableAlias key "key list option" key | KUnion "key list"

record dict =
  dict_entries :: "(tvalue \<times> tvalue) list"
  dict_materials :: "key list"
  dict_hashes :: "64 word list"
  dict_index :: "64 word \<rightharpoonup> nat list"
  dict_version :: nat
  dict_mutation_version :: nat

record buffer_mutation_state =
  bms_version :: nat
  bms_writable_exports :: nat
  bms_native_access_disabled :: bool

record buffer =
  buf_data :: "64 word list"
  buf_origin :: nat
  buf_elements :: nat
  buf_shape :: "nat list"
  buf_strides :: "int list"
  buf_writable :: bool
  buf_mutation :: buffer_mutation_state

type_synonym handle = "64 word"

record foreign_spec =
  spec_adapter_id :: nat
  spec_owned :: bool
  spec_trace :: "fn_pointer option"
  spec_destroy :: "fn_pointer option"

record foreign_object =
  fo_adapter_id :: nat
  fo_payload :: nat
  fo_spec :: foreign_spec
  fo_references :: "tvalue list"
  fo_reference_handles :: "handle list"
  fo_borrowed_handles :: "handle list"
  fo_active :: bool

datatype (plugins only: size) builtin =
    BPrint | BLen | BIter | BNext | BCallIteratorIter | BCallIteratorNext
  | BSequenceIteratorIter | BSequenceIteratorNext | BGeneratorIter | BGeneratorNext
  | BGeneratorSend | BGeneratorThrow | BGeneratorClose | BCoroutineAwait | BAsyncGeneratorIter
  | BAsyncGeneratorNext | BAsyncGeneratorSend | BAsyncGeneratorThrow | BAsyncGeneratorClose
  | BAsyncGeneratorAwait | BAsyncGeneratorAwaitNext | BAsyncGeneratorAwaitSend
  | BAsyncGeneratorAwaitThrow | BAsyncGeneratorAwaitClose | BAsyncioRun | BAsyncioCreateTask
  | BAsyncioCurrentTask | BAsyncioGetRunningLoop | BAsyncioSleep | BAsyncioFutureNew
  | BAsyncioFutureAwait | BAsyncioFutureNext | BAsyncioFutureSend | BAsyncioFutureDone
  | BAsyncioFutureCancelled | BAsyncioFutureCancel | BAsyncioFutureResult
  | BAsyncioFutureException | BAsyncioFutureSetResult | BAsyncioFutureSetException
  | BAsyncioFutureAddDoneCallback | BAsyncioTaskDone | BAsyncioTaskCancelled
  | BAsyncioTaskCancel | BAsyncioTaskResult | BAsyncioTaskException
  | BAsyncioTaskAddDoneCallback | BHash | BAbs | BDivMod | BPow | BRound | BRepr | BAscii
  | BFormat | BSum | BAny | BAll | BMin | BMax | BIntRound | BFloatRound | BIsInstance
  | BIsSubclass | BGetAttr | BSetAttr | BDelAttr | BHasAttr | BStaticMethod | BClassMethod
  | BProperty | BSuper | BSysUnraisableHook | BObjectNew | BObjectInit | BObjectHash | BIntHash
  | BFloatHash | BStrHash | BBytesHash | BTupleHash | BRangeHash | BIntNew | BBoolNew
  | BFloatNew | BStrNew | BBytesNew | BListNew | BListInit | BTupleNew | BDictNew | BDictInit
  | BRangeNew | BObjectGetAttribute | BObjectSetAttr | BObjectDelAttr | BTypeNew
  | BTypeGetAttribute | BTypeSetAttr | BTypeDelAttr | BTypeOr | BTypeRor

section \<open>Objects\<close>

datatype (plugins only: size) object =
    ObjClass class_object
  | ObjNamespace class_object
  | ObjMappingProxy tvalue
  | ObjInstance tvalue attributes "tvalue option"
  | ObjBoundMethod tvalue tvalue
  | ObjStaticMethod tvalue
  | ObjClassMethod tvalue
  | ObjProperty "tvalue option" "tvalue option" "tvalue option"
  | ObjPropertySetter tvalue
  | ObjPropertyDeleter tvalue
  | ObjSuper tvalue tvalue
  | ObjInt int
  | ObjFloat "64 word"
  | ObjBuffer buffer
  | ObjForeign foreign_object
  | ObjStr string
  | ObjBytes "8 word list"
  | ObjTuple "tvalue list"
  | ObjList "tvalue list"
  | ObjSlice tvalue tvalue tvalue
  | ObjDict dict
  | ObjSet dict
  | ObjException exception_object
  | ObjTraceback "traceback_entry list"
  | ObjFunction function_object
  | ObjTypeParam string type_parameter_kind "tvalue option" tvalue
  | ObjTypeNoDefault
  | ObjTypingForm tvalue typing_form_kind
  | ObjTypeUnpack tvalue
  | ObjTypeAlias string string tvalue tvalue
  | ObjGenericAlias tvalue tvalue tvalue
  | ObjUnionType tvalue "tvalue list"
  | ObjGenerator generator_frame
  | ObjCoroutineIterator tvalue tvalue
  | ObjAsyncGeneratorAwaitable tvalue tvalue async_generator_operation async_generator_await_state
  | ObjAsyncFuture async_future
  | ObjAsyncTask async_task
  | ObjAsyncFutureIterator tvalue tvalue
  | ObjAsyncEventLoop tvalue nat
  | ObjCell tvalue
  | ObjBuiltin builtin
  | ObjNative nat
  | ObjModule "(string \<times> tvalue) list"
  | ObjRange int int int
  | ObjIterator tvalue nat
  | ObjCallIterator tvalue tvalue tvalue bool
  | ObjSequenceIterator tvalue tvalue int bool
  | ObjDictIterator tvalue nat nat
  | ObjMappingProxyIterator tvalue nat nat
  | ObjRangeIterator int int int

definition instance_class :: "object \<Rightarrow> tvalue option" where
  "instance_class ob = (case ob of
      ObjInstance c _ _ \<Rightarrow> Some c
    | ObjException e \<Rightarrow> Some (exc_class e)
    | ObjGenerator g \<Rightarrow> Some (gen_class g)
    | ObjCoroutineIterator c _ \<Rightarrow> Some c
    | ObjAsyncGeneratorAwaitable c _ _ _ \<Rightarrow> Some c
    | ObjAsyncFuture f \<Rightarrow> Some (fut_class f)
    | ObjAsyncTask t \<Rightarrow> Some (task_class t)
    | ObjAsyncFutureIterator c _ \<Rightarrow> Some c
    | ObjAsyncEventLoop c _ \<Rightarrow> Some c
    | ObjCallIterator c _ _ _ \<Rightarrow> Some c
    | ObjSequenceIterator c _ _ _ \<Rightarrow> Some c
    | ObjTypingForm c _ \<Rightarrow> Some c
    | ObjGenericAlias c _ _ \<Rightarrow> Some c
    | ObjUnionType c _ \<Rightarrow> Some c
    | _ \<Rightarrow> None)"

definition instance_parts :: "object \<Rightarrow> (tvalue \<times> attributes) option" where
  "instance_parts ob = (case ob of
      ObjInstance c a _ \<Rightarrow> Some (c, a)
    | ObjException e \<Rightarrow> Some (exc_class e, exc_attributes e)
    | _ \<Rightarrow> None)"

section \<open>Tracing\<close>

text \<open>\<open>trace\<close> calls its visitor with every managed edge: here the list of the visited values, in
  order. \<open>opt\<close> is the iterator of an \<open>Option\<close>.\<close>

abbreviation opt :: "'a option \<Rightarrow> 'a list" where
  "opt x \<equiv> case_option [] (\<lambda>y. [y]) x"

definition class_trace :: "class_object \<Rightarrow> tvalue list" where
  "class_trace c = cls_metaclass c # opt (cls_namespace_mapping c) @ map snd (cls_attributes c) @
     concat (map (\<lambda>(k, v). [k, v]) (cls_extra_attributes c)) @ cls_bases c @ cls_mro c"

fun async_state_trace :: "async_state \<Rightarrow> tvalue list" where
  "async_state_trace Pending = []"
| "async_state_trace (Finished v) = [v]"
| "async_state_trace (Failed v) = [v]"
| "async_state_trace (Cancelled v) = [v]"

fun operation_trace :: "async_generator_operation \<Rightarrow> tvalue list" where
  "operation_trace (OpSend v) = [v]"
| "operation_trace (OpThrow e t) = e # opt t"
| "operation_trace OpClose = []"

definition foreign_trace :: "foreign_object \<Rightarrow> tvalue list" where
  "foreign_trace f = fo_references f"

definition object_trace :: "object \<Rightarrow> tvalue list" where
  "object_trace ob = (case ob of
      ObjClass c \<Rightarrow> class_trace c
    | ObjNamespace c \<Rightarrow> class_trace c
    | ObjMappingProxy c \<Rightarrow> [c]
    | ObjMappingProxyIterator c _ _ \<Rightarrow> [c]
    | ObjInstance c a n \<Rightarrow> c # attributes_trace a @ opt n
    | ObjException e \<Rightarrow> exc_class e # attributes_trace (exc_attributes e) @ exc_arguments e @
        opt (exc_cause e) @ opt (exc_context e) @ opt (exc_traceback e) @
        opt (exc_stop_iteration_value e)
    | ObjBoundMethod f r \<Rightarrow> [f, r]
    | ObjStaticMethod f \<Rightarrow> [f]
    | ObjClassMethod f \<Rightarrow> [f]
    | ObjProperty g s d \<Rightarrow> opt g @ opt s @ opt d
    | ObjPropertySetter p \<Rightarrow> [p]
    | ObjPropertyDeleter p \<Rightarrow> [p]
    | ObjSuper c r \<Rightarrow> [c, r]
    | ObjTuple vs \<Rightarrow> vs
    | ObjList vs \<Rightarrow> vs
    | ObjSlice a b c \<Rightarrow> [a, b, c]
    | ObjModule m \<Rightarrow> map snd m
    | ObjIterator s _ \<Rightarrow> [s]
    | ObjCallIterator c f s _ \<Rightarrow> [c, f, s]
    | ObjSequenceIterator c s _ _ \<Rightarrow> [c, s]
    | ObjFunction f \<Rightarrow> fun_captures f @ fun_defaults f @ opt (fun_annotations f) @ opt (fun_type_params f)
    | ObjTypeParam _ _ b d \<Rightarrow> opt b @ [d]
    | ObjTypingForm c _ \<Rightarrow> [c]
    | ObjTypeUnpack v \<Rightarrow> [v]
    | ObjTypeAlias _ _ ps v \<Rightarrow> [ps, v]
    | ObjGenericAlias c orig args \<Rightarrow> [c, orig, args]
    | ObjUnionType c ms \<Rightarrow> c # ms
    | ObjGenerator g \<Rightarrow> gen_class g # gen_return_value g # gen_registers g @ gen_cells g @
        gen_exception_stack g @ opt (gen_yield_from g) @ opt (gen_async_driver g)
    | ObjCoroutineIterator c k \<Rightarrow> [c, k]
    | ObjAsyncGeneratorAwaitable c g operation _ \<Rightarrow> c # g # operation_trace operation
    | ObjAsyncFuture f \<Rightarrow> fut_class f # fut_timer_result f # async_state_trace (fut_state f) @
        fut_waiters f @ fut_callbacks f
    | ObjAsyncTask t \<Rightarrow> task_class t # task_coroutine t # async_state_trace (task_state t) @
        task_waiters t @ task_callbacks t @ opt (task_waiting_on t)
    | ObjAsyncFutureIterator c s \<Rightarrow> [c, s]
    | ObjAsyncEventLoop c _ \<Rightarrow> [c]
    | ObjDict d \<Rightarrow> concat (map (\<lambda>(k, v). [k, v]) (dict_entries d))
    | ObjSet d \<Rightarrow> map fst (dict_entries d)
    | ObjDictIterator s _ _ \<Rightarrow> [s]
    | ObjCell v \<Rightarrow> [v]
    | ObjForeign f \<Rightarrow> foreign_trace f
    | _ \<Rightarrow> [])"

text \<open>The builtins that \<open>descriptor_callable\<close> binds to their receiver.\<close>

definition method_builtins :: "builtin set" where
  "method_builtins =
    {BObjectGetAttribute, BObjectSetAttr, BObjectDelAttr, BTypeGetAttribute, BTypeSetAttr,
     BTypeDelAttr, BTypeOr, BTypeRor, BObjectInit, BObjectHash, BIntHash, BFloatHash, BStrHash,
     BTupleHash, BRangeHash, BIntRound, BFloatRound, BListInit, BDictInit, BCallIteratorIter,
     BCallIteratorNext, BSequenceIteratorIter, BSequenceIteratorNext, BGeneratorIter,
     BGeneratorNext, BGeneratorSend, BGeneratorThrow, BGeneratorClose, BCoroutineAwait,
     BAsyncGeneratorIter, BAsyncGeneratorNext, BAsyncGeneratorSend, BAsyncGeneratorThrow,
     BAsyncGeneratorClose, BAsyncGeneratorAwait, BAsyncGeneratorAwaitNext,
     BAsyncGeneratorAwaitSend, BAsyncGeneratorAwaitThrow, BAsyncGeneratorAwaitClose,
     BAsyncioFutureAwait, BAsyncioFutureNext, BAsyncioFutureSend, BAsyncioFutureDone,
     BAsyncioFutureCancelled, BAsyncioFutureCancel, BAsyncioFutureResult,
     BAsyncioFutureException, BAsyncioFutureSetResult, BAsyncioFutureSetException,
     BAsyncioFutureAddDoneCallback, BAsyncioTaskDone, BAsyncioTaskCancelled, BAsyncioTaskCancel,
     BAsyncioTaskResult, BAsyncioTaskException, BAsyncioTaskAddDoneCallback}"

end
