(* ===== verification/Heap.thy ===== *)
theory Heap
  imports Objects
begin

text \<open>
  The managed heap of crates/tonic-runtime/src/heap.rs: generational logical slots over a
  compactable vector of objects, allocation, checked access, the write barrier and every owner-aware
  mutation that goes through it.

  A handle is a slot index and a generation (theory Values). \<open>slots\<close> says where the object of a slot
  lies now; \<open>free\<close> is a stack whose head is the end of the vector; \<open>remembered\<close>, a hash set that is
  also iterated, is a list without repetitions in some order. \<open>get_mut\<close> followed by an assignment
  is \<open>with_object\<close>. The byte accounting (\<open>bytes\<close>, \<open>peak_bytes\<close>) depends on allocator capacities
  and is left out; counters are unbounded.
\<close>

section \<open>State\<close>

record heap_slot =
  slot_generation :: nat
  slot_location :: "nat option"

record heap_object =
  ho_object :: object
  ho_slot :: nat
  ho_young :: bool

record pending_foreign =
  pf_payload :: nat
  pf_owned :: bool
  pf_destroy :: "fn_pointer option"
  pf_reference_handles :: "handle list"

record heap =
  heap_shapes :: shapes
  next_type :: nat
  objects :: "heap_object list"
  slots :: "heap_slot list"
  free_slots :: "nat list"
  remembered :: "nat list"
  external_fields :: "((tvalue \<times> nat) \<times> tvalue) list"
  allocations :: nat
  last_collection_allocations :: nat
  foreign_trace_calls :: nat
  foreign_destructor_calls :: nat
  foreign_destructor_panics :: nat
  pending_foreigns :: "pending_foreign list"
  pending_generators :: "tvalue list"
  pending_finalizers :: "tvalue list"
  finalized_objects :: "tvalue list"

definition heap_default :: heap where
  "heap_default = \<lparr>heap_shapes = shapes_default, next_type = 0, objects = [], slots = [],
     free_slots = [], remembered = [], external_fields = [], allocations = 0,
     last_collection_allocations = 0, foreign_trace_calls = 0, foreign_destructor_calls = 0,
     foreign_destructor_panics = 0, pending_foreigns = [], pending_generators = [],
     pending_finalizers = [], finalized_objects = []\<rparr>"

section \<open>Access\<close>

definition invalid_value :: "tvalue \<Rightarrow> diagnostic" where
  "invalid_value v = (if heap_index v \<noteq> None
     then diag_new ''HandleError'' ''stale or invalid internal heap handle''
     else diag_new ''TypeError'' ''expected a heap object'')"

definition location :: "heap \<Rightarrow> tvalue \<Rightarrow> nat option" where
  "location h v = (case heap_index v of None \<Rightarrow> None
     | Some s \<Rightarrow> if length (slots h) \<le> s then None
         else if slot_generation (slots h ! s) \<noteq> generation v then None
         else slot_location (slots h ! s))"

definition try_get :: "heap \<Rightarrow> tvalue \<Rightarrow> object option" where
  "try_get h v = (case location h v of None \<Rightarrow> None
     | Some l \<Rightarrow> if l < length (objects h) then Some (ho_object (objects h ! l)) else None)"

definition heap_get :: "heap \<Rightarrow> tvalue \<Rightarrow> object res" where
  "heap_get h v = ok_or (try_get h v) (invalid_value v)"

definition with_object :: "heap \<Rightarrow> tvalue \<Rightarrow> (object \<Rightarrow> ('a \<times> object) res) \<Rightarrow> ('a, heap) run" where
  "with_object h v f = (case location h v of None \<Rightarrow> (Err (invalid_value v), h)
     | Some l \<Rightarrow> if length (objects h) \<le> l then (Panic, h)
         else case f (ho_object (objects h ! l)) of
           Ok (x, ob) \<Rightarrow> (Ok x, h\<lparr>objects := (objects h)[l := (objects h ! l)\<lparr>ho_object := ob\<rparr>]\<rparr>)
         | Err d \<Rightarrow> (Err d, h) | Panic \<Rightarrow> (Panic, h) | Diverge \<Rightarrow> (Diverge, h))"

definition native_value :: "heap \<Rightarrow> tvalue \<Rightarrow> tvalue" where
  "native_value h v = (case try_get h v of Some (ObjInstance _ _ (Some native)) \<Rightarrow> native | _ \<Rightarrow> v)"

definition alloc :: "heap \<Rightarrow> object \<Rightarrow> (tvalue, heap) run" where
  "alloc h ob =
     (let place = (\<lambda>sl h1. if length (slots h1) \<le> sl then (Panic, h1) else
        (Ok (value_heap sl (slot_generation (slots h1 ! sl))),
         h1\<lparr>slots := (slots h1)[sl := (slots h1 ! sl)\<lparr>slot_location := Some (length (objects h1))\<rparr>],
            objects := objects h1 @ [\<lparr>ho_object = ob, ho_slot = sl, ho_young = True\<rparr>],
            allocations := allocations h1 + 1\<rparr>)) in
      case free_slots h of
        sl # rest \<Rightarrow> place sl (h\<lparr>free_slots := rest\<rparr>)
      | [] \<Rightarrow> if 2 ^ 32 \<le> length (slots h)
          then (fail ''MemoryError'' ''heap handle capacity exhausted'', h)
          else place (length (slots h))
            (h\<lparr>slots := slots h @ [\<lparr>slot_generation = 1, slot_location = None\<rparr>]\<rparr>))"

definition write_barrier :: "heap \<Rightarrow> tvalue \<Rightarrow> tvalue \<Rightarrow> (unit, heap) run" where
  "write_barrier h owner v = (case (location h owner, location h v) of
      (Some ol, Some vl) \<Rightarrow>
        if length (objects h) \<le> ol \<or> length (objects h) \<le> vl then (Panic, h)
        else if \<not> ho_young (objects h ! ol) \<and> ho_young (objects h ! vl)
        then (Ok (), h\<lparr>remembered := List.insert (ho_slot (objects h ! ol)) (remembered h)\<rparr>)
        else (Ok (), h)
    | _ \<Rightarrow> (Ok (), h))"

text \<open>\<open>values.iter().for_each(|v| self.write_barrier(owner, v))\<close>, and the barrier of an \<open>Option\<close>.\<close>

fun write_barriers :: "heap \<Rightarrow> tvalue \<Rightarrow> tvalue list \<Rightarrow> (unit, heap) run" where
  "write_barriers h owner [] = (Ok (), h)"
| "write_barriers h owner (v # vs) =
     run_then (write_barrier h owner v) (\<lambda>_ h1. write_barriers h1 owner vs)"

definition write_barrier_pair :: "heap \<Rightarrow> tvalue \<Rightarrow> tvalue \<Rightarrow> tvalue \<Rightarrow> (unit, heap) run" where
  "write_barrier_pair h owner v w =
     run_then (write_barrier h owner v) (\<lambda>_ h1. write_barrier h1 owner w)"

section \<open>External fields\<close>

definition store_external_field ::
  "heap \<Rightarrow> tvalue \<Rightarrow> nat \<Rightarrow> tvalue option \<Rightarrow> (unit, heap) run" where
  "store_external_field h owner field x =
     (if field = 0 then (fail ''HandleError'' ''native field token cannot be zero'', h)
      else case heap_get h owner of
        Ok _ \<Rightarrow> (case x of
            Some v \<Rightarrow>
              run_then (if heap_index v \<noteq> None then and_then (heap_get h v) (\<lambda>_. Ok ()) else Ok (), h) (\<lambda>_ h1.
              run_then (write_barrier h1 owner v) (\<lambda>_ h2.
              (Ok (), h2\<lparr>external_fields := AList.update (owner, field) v (external_fields h2)\<rparr>)))
          | None \<Rightarrow> (Ok (), h\<lparr>external_fields := AList.delete (owner, field) (external_fields h)\<rparr>))
      | Err d \<Rightarrow> (Err d, h) | Panic \<Rightarrow> (Panic, h) | Diverge \<Rightarrow> (Diverge, h))"

definition load_external_field :: "heap \<Rightarrow> tvalue \<Rightarrow> nat \<Rightarrow> tvalue option res" where
  "load_external_field h owner field =
     and_then (heap_get h owner) (\<lambda>_. Ok (map_of (external_fields h) (owner, field)))"

definition trace_external_fields :: "heap \<Rightarrow> tvalue \<Rightarrow> tvalue list" where
  "trace_external_fields h owner =
     map snd (filter (\<lambda>((candidate, _), _). candidate = owner) (external_fields h))"

section \<open>Lists, modules and cells\<close>

definition append_list :: "heap \<Rightarrow> tvalue \<Rightarrow> tvalue \<Rightarrow> (unit, heap) run" where
  "append_list h owner0 v = (let owner = native_value h owner0 in
     run_then (write_barrier h owner v) (\<lambda>_ h1.
     with_object h1 owner (\<lambda>ob. case ob of
         ObjList vs \<Rightarrow> Ok ((), ObjList (vs @ [v]))
       | _ \<Rightarrow> fail ''TypeError'' ''expected list'')))"

definition replace_list :: "heap \<Rightarrow> tvalue \<Rightarrow> tvalue list \<Rightarrow> (unit, heap) run" where
  "replace_list h owner0 vs = (let owner = native_value h owner0 in
     run_then (and_then (heap_get h owner) (\<lambda>ob. case ob of
         ObjList _ \<Rightarrow> Ok () | _ \<Rightarrow> fail ''TypeError'' ''expected list''), h) (\<lambda>_ h0.
     run_then (write_barriers h0 owner vs) (\<lambda>_ h1.
     with_object h1 owner (\<lambda>ob. case ob of ObjList _ \<Rightarrow> Ok ((), ObjList vs) | _ \<Rightarrow> Panic))))"

text \<open>\<open>iter_mut().find(|(member, _)| member == name)\<close> replaces the first member of that name.\<close>

fun set_member :: "string \<Rightarrow> tvalue \<Rightarrow> (string \<times> tvalue) list \<Rightarrow> (string \<times> tvalue) list" where
  "set_member name v [] = [(name, v)]"
| "set_member name v ((n, w) # ms) = (if n = name then (n, v) # ms else (n, w) # set_member name v ms)"

definition add_module_member :: "heap \<Rightarrow> tvalue \<Rightarrow> string \<Rightarrow> tvalue \<Rightarrow> (unit, heap) run" where
  "add_module_member h owner name v =
     run_then (write_barrier h owner v) (\<lambda>_ h1.
     with_object h1 owner (\<lambda>ob. case ob of
         ObjModule ms \<Rightarrow> Ok ((), ObjModule (set_member name v ms))
       | _ \<Rightarrow> fail ''TypeError'' ''expected module''))"

definition delete_module_member :: "heap \<Rightarrow> tvalue \<Rightarrow> string \<Rightarrow> (unit, heap) run" where
  "delete_module_member h owner name =
     with_object h owner (\<lambda>ob. case ob of
         ObjModule ms \<Rightarrow> (case position (\<lambda>(member, _). member = name) ms of
             None \<Rightarrow> fail ''AttributeError'' (''module has no attribute '' @ [char_of (39 :: nat)] @ name @ [char_of (39 :: nat)])
           | Some i \<Rightarrow> Ok ((), ObjModule (remove_at i ms)))
       | _ \<Rightarrow> fail ''TypeError'' ''expected module'')"

definition reset_module_members :: "heap \<Rightarrow> tvalue \<Rightarrow> (unit, heap) run" where
  "reset_module_members h owner =
     with_object h owner (\<lambda>ob. case ob of
         ObjModule ms \<Rightarrow> Ok ((), ObjModule (filter (\<lambda>(name, _). name = ''__name__'' \<or> name = ''__file__'') ms))
       | _ \<Rightarrow> fail ''TypeError'' ''expected module'')"

definition heap_cell :: "heap \<Rightarrow> tvalue \<Rightarrow> tvalue res" where
  "heap_cell h owner = and_then (heap_get h owner) (\<lambda>ob. case ob of
      ObjCell v \<Rightarrow> Ok v | _ \<Rightarrow> fail ''BytecodeError'' ''expected closure cell'')"

definition store_cell :: "heap \<Rightarrow> tvalue \<Rightarrow> tvalue \<Rightarrow> (unit, heap) run" where
  "store_cell h owner v =
     run_then (write_barrier h owner v) (\<lambda>_ h1.
     with_object h1 owner (\<lambda>ob. case ob of
         ObjCell _ \<Rightarrow> Ok ((), ObjCell v)
       | _ \<Rightarrow> fail ''BytecodeError'' ''expected closure cell''))"

section \<open>Exceptions\<close>

definition expected_exception :: "'a res" where
  "expected_exception = fail ''TypeError'' ''expected exception instance''"

definition set_exception_cause :: "heap \<Rightarrow> tvalue \<Rightarrow> tvalue option \<Rightarrow> bool \<Rightarrow> (unit, heap) run" where
  "set_exception_cause h owner cause suppress =
     run_then (write_barriers h owner (opt cause)) (\<lambda>_ h1.
     with_object h1 owner (\<lambda>ob. case ob of
         ObjException e \<Rightarrow> Ok ((), ObjException (e\<lparr>exc_cause := cause, exc_suppress_context := suppress\<rparr>))
       | _ \<Rightarrow> expected_exception))"

definition set_exception_context :: "heap \<Rightarrow> tvalue \<Rightarrow> tvalue \<Rightarrow> (unit, heap) run" where
  "set_exception_context h owner ctx =
     run_then (write_barrier h owner ctx) (\<lambda>_ h1.
     with_object h1 owner (\<lambda>ob. case ob of
         ObjException e \<Rightarrow> Ok ((), ObjException
           (if exc_context e = None then e\<lparr>exc_context := Some ctx\<rparr> else e))
       | _ \<Rightarrow> expected_exception))"

definition exception_traceback :: "heap \<Rightarrow> tvalue \<Rightarrow> tvalue option res" where
  "exception_traceback h owner = and_then (heap_get h owner) (\<lambda>ob. case ob of
      ObjException e \<Rightarrow> Ok (exc_traceback e) | _ \<Rightarrow> expected_exception)"

definition set_exception_traceback :: "heap \<Rightarrow> tvalue \<Rightarrow> tvalue option \<Rightarrow> (unit, heap) run" where
  "set_exception_traceback h owner tb =
     run_then (write_barriers h owner (opt tb)) (\<lambda>_ h1.
     with_object h1 owner (\<lambda>ob. case ob of
         ObjException e \<Rightarrow> Ok ((), ObjException (e\<lparr>exc_traceback := tb\<rparr>))
       | _ \<Rightarrow> expected_exception))"

definition stop_iteration_value :: "heap \<Rightarrow> tvalue \<Rightarrow> tvalue option" where
  "stop_iteration_value h owner = (case try_get h owner of
      Some (ObjException e) \<Rightarrow> exc_stop_iteration_value e | _ \<Rightarrow> None)"

text \<open>The entries of a traceback: consecutive repetitions are pushed once.\<close>

fun push_entries :: "traceback_entry list \<Rightarrow> traceback_entry list \<Rightarrow> traceback_entry list" where
  "push_entries es [] = es"
| "push_entries es (x # xs) = push_entries (if es \<noteq> [] \<and> last es = x then es else es @ [x]) xs"

definition record_exception_trace ::
  "heap \<Rightarrow> tvalue \<Rightarrow> traceback_entry list \<Rightarrow> (unit, heap) run" where
  "record_exception_trace h owner entries =
     (if entries = [] then (Ok (), h)
      else run_then (exception_traceback h owner, h) (\<lambda>found h0.
        run_then (case found of
            Some tb \<Rightarrow> (Ok tb, h0)
          | None \<Rightarrow> run_then (alloc h0 (ObjTraceback [])) (\<lambda>tb h1.
              run_then (write_barrier h1 owner tb) (\<lambda>_ h2.
              run_then (with_object h2 owner (\<lambda>ob. case ob of
                  ObjException e \<Rightarrow> Ok ((), ObjException (e\<lparr>exc_traceback := Some tb\<rparr>))
                | _ \<Rightarrow> Panic)) (\<lambda>_ h3. (Ok tb, h3))))) (\<lambda>tb h4.
        with_object h4 tb (\<lambda>ob. case ob of
            ObjTraceback es \<Rightarrow> Ok ((), ObjTraceback (push_entries es entries))
          | _ \<Rightarrow> fail ''RuntimeError'' ''invalid traceback object''))))"

section \<open>Classes of instances\<close>

definition heap_class :: "heap \<Rightarrow> tvalue \<Rightarrow> class_object res" where
  "heap_class h v = and_then (heap_get h v) (\<lambda>ob. case ob of
      ObjClass c \<Rightarrow> Ok c | _ \<Rightarrow> fail ''TypeError'' ''expected a Tonic class'')"

definition native_instance :: "heap \<Rightarrow> tvalue \<Rightarrow> tvalue \<Rightarrow> (tvalue, heap) run" where
  "native_instance h c native =
     run_then (heap_class h c, h) (\<lambda>_ h1. alloc h1 (ObjInstance c attributes_default (Some native)))"

text \<open>The search through a class and its C3 ancestors, which are stored without the class itself.\<close>

fun lookup_in :: "heap \<Rightarrow> string \<Rightarrow> tvalue list \<Rightarrow> tvalue option res" where
  "lookup_in h name [] = Ok None"
| "lookup_in h name (c # cs) = and_then (heap_class h c) (\<lambda>k.
     case map_of (cls_attributes k) name of
       Some v \<Rightarrow> Ok (Some v) | None \<Rightarrow> lookup_in h name cs)"

definition class_lookup :: "heap \<Rightarrow> tvalue \<Rightarrow> string \<Rightarrow> tvalue option res" where
  "class_lookup h owner name = and_then (heap_class h owner) (\<lambda>c.
     lookup_in h name (owner # cls_mro c))"

record descriptor_call =
  dc_callable :: tvalue
  dc_receiver :: "tvalue option"

definition descriptor_callable :: "heap \<Rightarrow> tvalue \<Rightarrow> tvalue \<Rightarrow> tvalue \<Rightarrow> descriptor_call" where
  "descriptor_callable h v descriptor descriptor_class = (case try_get h v of
      Some (ObjStaticMethod f) \<Rightarrow> \<lparr>dc_callable = f, dc_receiver = None\<rparr>
    | Some (ObjClassMethod f) \<Rightarrow> \<lparr>dc_callable = f, dc_receiver = Some descriptor_class\<rparr>
    | Some (ObjFunction _) \<Rightarrow> \<lparr>dc_callable = v, dc_receiver = Some descriptor\<rparr>
    | Some (ObjBuiltin b) \<Rightarrow> if b \<in> method_builtins
        then \<lparr>dc_callable = v, dc_receiver = Some descriptor\<rparr>
        else \<lparr>dc_callable = v, dc_receiver = None\<rparr>
    | _ \<Rightarrow> \<lparr>dc_callable = v, dc_receiver = None\<rparr>)"

definition special_method_call :: "heap \<Rightarrow> tvalue \<Rightarrow> string \<Rightarrow> descriptor_call option res" where
  "special_method_call h inst name = (case try_get h inst of
      None \<Rightarrow> Ok None
    | Some ob \<Rightarrow> (case instance_class ob of
        None \<Rightarrow> Ok None
      | Some c \<Rightarrow> and_then (class_lookup h c name) (\<lambda>found. case found of
          None \<Rightarrow> Ok None
        | Some callable \<Rightarrow> Ok (Some (descriptor_callable h callable inst c)))))"

end
