(* ===== verification/Heap_Invariant.thy ===== *)
theory Heap_Invariant
  imports Heap
begin

text \<open>
  The invariant of the managed heap and what reachability means for it. \<open>slots_wf\<close>: slots and objects
  are in bijection, free slots are empty, generations are in range. \<open>heap_closed\<close>: every edge and
  every queued handle resolves. \<open>remembered_ok\<close>: every old object with an edge into the nursery is
  remembered, and only old objects are. \<open>classes_ok\<close>: the class of an instance or exception and its
  ancestors are classes.
\<close>

section \<open>Slots and handles\<close>

definition slots_wf :: "heap \<Rightarrow> bool" where
  "slots_wf h \<longleftrightarrow> length (slots h) \<le> 2 ^ 32 \<and>
     (\<forall>s<length (slots h). 1 \<le> slot_generation (slots h ! s) \<and>
        slot_generation (slots h ! s) \<le> MAX_GENERATION) \<and>
     (\<forall>l<length (objects h). ho_slot (objects h ! l) < length (slots h) \<and>
        slot_location (slots h ! ho_slot (objects h ! l)) = Some l) \<and>
     (\<forall>s<length (slots h). \<forall>l. slot_location (slots h ! s) = Some l \<longrightarrow>
        l < length (objects h) \<and> ho_slot (objects h ! l) = s) \<and>
     distinct (free_slots h) \<and>
     (\<forall>s\<in>set (free_slots h). s < length (slots h) \<and> slot_location (slots h ! s) = None)"

definition handle_at :: "heap \<Rightarrow> nat \<Rightarrow> tvalue" where
  "handle_at h l = value_heap (ho_slot (objects h ! l)) (slot_generation (slots h ! ho_slot (objects h ! l)))"

lemma slots_wfD:
  assumes "slots_wf h"
  shows "length (slots h) \<le> 2 ^ 32"
    and "s < length (slots h) \<Longrightarrow> 1 \<le> slot_generation (slots h ! s)"
    and "s < length (slots h) \<Longrightarrow> slot_generation (slots h ! s) \<le> MAX_GENERATION"
    and "l < length (objects h) \<Longrightarrow> ho_slot (objects h ! l) < length (slots h)"
    and "l < length (objects h) \<Longrightarrow> slot_location (slots h ! ho_slot (objects h ! l)) = Some l"
    and "s < length (slots h) \<Longrightarrow> slot_location (slots h ! s) = Some l \<Longrightarrow>
           l < length (objects h) \<and> ho_slot (objects h ! l) = s"
    and "distinct (free_slots h)"
    and "s \<in> set (free_slots h) \<Longrightarrow> s < length (slots h) \<and> slot_location (slots h ! s) = None"
  using assms unfolding slots_wf_def by blast+

text \<open>A handle resolves to a location exactly when it is the handle of the object that lies there.\<close>

lemma location_iff:
  assumes wf: "slots_wf h"
  shows "location h v = Some l \<longleftrightarrow> l < length (objects h) \<and> v = handle_at h l"
proof
  assume "location h v = Some l"
  then obtain s where s: "heap_index v = Some s" "s < length (slots h)"
    "slot_generation (slots h ! s) = generation v" "slot_location (slots h ! s) = Some l"
    by (auto simp: location_def split: option.splits if_splits)
  then show "l < length (objects h) \<and> v = handle_at h l"
    using slots_wfD(6) [OF wf s(2,4)] value_heap_heap_index [OF s(1)] by (simp add: handle_at_def)
next
  assume l: "l < length (objects h) \<and> v = handle_at h l"
  let ?s = "ho_slot (objects h ! l)"
  have s: "?s < length (slots h)" "slot_location (slots h ! ?s) = Some l"
    using l slots_wfD(4,5) [OF wf] by auto
  then have "?s < 2 ^ 32" using slots_wfD(1) [OF wf] by linarith
  then show "location h v = Some l"
    using l s slots_wfD(3) [OF wf s(1)] heap_index_value_heap [of ?s] generation_value_heap [of ?s]
    by (simp add: location_def handle_at_def)
qed

lemma location_handle_at: "slots_wf h \<Longrightarrow> l < length (objects h) \<Longrightarrow> location h (handle_at h l) = Some l"
  by (simp add: location_iff)

lemma location_in_range: "slots_wf h \<Longrightarrow> location h v = Some l \<Longrightarrow> l < length (objects h)"
  by (simp add: location_iff)

lemma location_heap_index: "location h v = Some l \<Longrightarrow> heap_index v \<noteq> None"
  by (auto simp: location_def split: option.splits)

lemma handle_at_inj:
  "slots_wf h \<Longrightarrow> l < length (objects h) \<Longrightarrow> k < length (objects h) \<Longrightarrow> handle_at h l = handle_at h k \<Longrightarrow> l = k"
  by (metis location_handle_at option.inject)

lemma heap_index_handle_at:
  assumes "slots_wf h" "l < length (objects h)"
  shows "heap_index (handle_at h l) = Some (ho_slot (objects h ! l))"
    and "generation (handle_at h l) = slot_generation (slots h ! ho_slot (objects h ! l))"
proof -
  have s: "ho_slot (objects h ! l) < length (slots h)" using slots_wfD(4) [OF assms] .
  then have "ho_slot (objects h ! l) < 2 ^ 32" using slots_wfD(1) [OF assms(1)] by linarith
  then show "heap_index (handle_at h l) = Some (ho_slot (objects h ! l))"
    "generation (handle_at h l) = slot_generation (slots h ! ho_slot (objects h ! l))"
    using slots_wfD(3) [OF assms(1) s]
    by (simp_all add: handle_at_def heap_index_value_heap generation_value_heap)
qed

lemma try_get_location:
  "slots_wf h \<Longrightarrow> try_get h v = map_option (\<lambda>l. ho_object (objects h ! l)) (location h v)"
  by (auto simp: try_get_def dest: location_in_range split: option.splits)

section \<open>Edges and reachability\<close>

definition edges_at :: "heap \<Rightarrow> nat \<Rightarrow> tvalue list" where
  "edges_at h l = object_trace (ho_object (objects h ! l)) @ trace_external_fields h (handle_at h l)"

definition valid :: "heap \<Rightarrow> tvalue \<Rightarrow> bool" where
  "valid h v \<longleftrightarrow> heap_index v = None \<or> location h v \<noteq> None"

definition young_at :: "heap \<Rightarrow> nat \<Rightarrow> bool" where
  "young_at h l \<longleftrightarrow> ho_young (objects h ! l)"

definition heap_closed :: "heap \<Rightarrow> bool" where
  "heap_closed h \<longleftrightarrow> (\<forall>l<length (objects h). \<forall>v\<in>set (edges_at h l). valid h v) \<and>
     (\<forall>v\<in>set (pending_generators h) \<union> set (pending_finalizers h). valid h v)"

definition remembered_ok :: "heap \<Rightarrow> bool" where
  "remembered_ok h \<longleftrightarrow> (\<forall>l<length (objects h). \<not> young_at h l \<longrightarrow>
     (\<forall>v\<in>set (edges_at h l). \<forall>k. location h v = Some k \<longrightarrow> young_at h k \<longrightarrow>
        ho_slot (objects h ! l) \<in> set (remembered h))) \<and>
     (\<forall>s\<in>set (remembered h). \<exists>l<length (objects h). ho_slot (objects h ! l) = s \<and> \<not> young_at h l)"

definition is_class :: "heap \<Rightarrow> tvalue \<Rightarrow> bool" where
  "is_class h v \<longleftrightarrow> is_ok (heap_class h v)"

definition class_chain_ok :: "heap \<Rightarrow> tvalue \<Rightarrow> bool" where
  "class_chain_ok h c \<longleftrightarrow> (case heap_class h c of Ok k \<Rightarrow> \<forall>m\<in>set (cls_mro k). is_class h m | _ \<Rightarrow> False)"

definition classes_ok :: "heap \<Rightarrow> bool" where
  "classes_ok h \<longleftrightarrow> (\<forall>l<length (objects h). \<forall>c a. instance_parts (ho_object (objects h ! l)) = Some (c, a) \<longrightarrow>
     class_chain_ok h c)"

definition heap_ok :: "heap \<Rightarrow> bool" where
  "heap_ok h \<longleftrightarrow> slots_wf h \<and> heap_closed h \<and> remembered_ok h \<and> classes_ok h"

lemma instance_parts_trace: "instance_parts ob = Some (c, a) \<Longrightarrow> c \<in> set (object_trace ob)"
  by (cases ob) (auto simp: instance_parts_def object_trace_def)

lemma heap_class_located:
  assumes wf: "slots_wf h" and k: "heap_class h c = Ok k"
  shows "\<exists>l<length (objects h). location h c = Some l \<and> ho_object (objects h ! l) = ObjClass k"
proof (cases "location h c")
  case None
  then show ?thesis using k by (simp add: heap_class_def heap_get_def ok_or_def try_get_def)
next
  case (Some l)
  then show ?thesis using k location_in_range [OF wf Some]
    by (cases "ho_object (objects h ! l)") (simp_all add: heap_class_def heap_get_def ok_or_def try_get_def)
qed

text \<open>Reachability through the edges of live objects.\<close>

inductive reaches :: "heap \<Rightarrow> tvalue set \<Rightarrow> tvalue \<Rightarrow> bool" for h R where
  root: "v \<in> R \<Longrightarrow> reaches h R v"
| edge: "reaches h R v \<Longrightarrow> location h v = Some l \<Longrightarrow> w \<in> set (edges_at h l) \<Longrightarrow> reaches h R w"

lemma reaches_mono: "reaches h R v \<Longrightarrow> R \<subseteq> S \<Longrightarrow> reaches h S v"
  by (induction rule: reaches.induct) (auto intro: reaches.intros)

lemma reaches_trans: "reaches h S v \<Longrightarrow> (\<And>w. w \<in> S \<Longrightarrow> reaches h R w) \<Longrightarrow> reaches h R v"
  by (induction rule: reaches.induct) (auto intro: reaches.intros)

lemma heap_closed_edge:
  "heap_closed h \<Longrightarrow> l < length (objects h) \<Longrightarrow> v \<in> set (edges_at h l) \<Longrightarrow> valid h v"
  by (auto simp: heap_closed_def)

lemma reaches_valid:
  assumes "slots_wf h" "heap_closed h" "\<And>w. w \<in> R \<Longrightarrow> valid h w" "reaches h R v"
  shows "valid h v"
  using assms(4)
  by (induction rule: reaches.induct) (auto intro: assms(3) heap_closed_edge [OF assms(2)] location_in_range [OF assms(1)])

end
