(* ===== verification/Collector.thy ===== *)
theory Collector
  imports Heap_Invariant
begin

text \<open>
  The collector of crates/tonic-runtime/src/gc.rs: marking with an explicit work list, queueing of
  unreachable generators and of objects with \<open>__del__\<close>, and the compacting sweep, for a full
  collection and for a collection of the nursery.

  The four marking loops of the source have one body, \<open>mark_loop\<close>, whose flag says whether only
  nursery objects are traversed. A work vector is a list whose head is its end. The loop ends
  because every step marks an object or shortens the list. \<open>estimated_bytes\<close> and \<open>live_bytes\<close> are
  left out with the rest of the byte accounting.
\<close>

section \<open>Marking\<close>

text \<open>The edges of an object: what \<open>trace\<close> visits, then the external fields of its handle.\<close>

definition entry_edges :: "heap \<Rightarrow> nat \<Rightarrow> tvalue \<Rightarrow> tvalue list" where
  "entry_edges h l v = object_trace (ho_object (objects h ! l)) @ trace_external_fields h v"

lemma count_False_update:
  "l < length ms \<Longrightarrow> \<not> ms ! l \<Longrightarrow> count_list (ms[l := True]) False < count_list ms False"
proof (induction ms arbitrary: l)
  case (Cons m ms)
  then show ?case by (cases l) auto
qed simp

function mark_loop :: "bool \<Rightarrow> heap \<Rightarrow> bool list \<Rightarrow> tvalue list \<Rightarrow> bool list res" where
  "mark_loop young_only h marked [] = Ok marked"
| "mark_loop young_only h marked (v # work) =
     (if heap_index v = None then mark_loop young_only h marked work
      else case location h v of
        None \<Rightarrow> Err (invalid_value v)
      | Some l \<Rightarrow>
          if length (objects h) \<le> l \<or> length marked \<le> l then Panic
          else if young_only \<and> \<not> ho_young (objects h ! l) \<or> marked ! l
          then mark_loop young_only h marked work
          else mark_loop young_only h (marked[l := True]) (rev (entry_edges h l v) @ work))"
  by pat_completeness auto

termination
  by (relation "measures [\<lambda>(_, _, ms, _). count_list ms False, \<lambda>(_, _, _, w). length w]")
    (auto simp: count_False_update)

text \<open>The edges of the remembered owners, pushed before the nursery is marked.\<close>

fun remembered_edges :: "heap \<Rightarrow> nat list \<Rightarrow> tvalue list \<Rightarrow> tvalue list res" where
  "remembered_edges h [] work = Ok work"
| "remembered_edges h (s # ss) work =
     (if length (slots h) \<le> s then remembered_edges h ss work
      else case slot_location (slots h ! s) of
        None \<Rightarrow> remembered_edges h ss work
      | Some l \<Rightarrow> and_then (index_at (objects h) l) (\<lambda>entry.
          and_then (index_at (slots h) (ho_slot entry)) (\<lambda>sl.
          remembered_edges h ss
            (rev (entry_edges h l (value_heap (ho_slot entry) (slot_generation sl))) @ work))))"

section \<open>Finalization queues\<close>

definition queue_object_finalizer :: "heap \<Rightarrow> tvalue \<Rightarrow> (bool, heap) run" where
  "queue_object_finalizer h v =
     (if v \<in> set (finalized_objects h) \<or> v \<in> set (pending_finalizers h) then (Ok False, h)
      else run_then (special_method_call h v ''__del__'', h) (\<lambda>call h1. case call of
          None \<Rightarrow> (Ok False, h1)
        | Some _ \<Rightarrow> (Ok True, h1\<lparr>finalized_objects := finalized_objects h1 @ [v],
            pending_finalizers := pending_finalizers h1 @ [v]\<rparr>)))"

definition entry_handle :: "heap \<Rightarrow> heap_object \<Rightarrow> tvalue res" where
  "entry_handle h entry = and_then (index_at (slots h) (ho_slot entry)) (\<lambda>sl.
     Ok (value_heap (ho_slot entry) (slot_generation sl)))"

definition is_finalizable :: "object \<Rightarrow> bool" where
  "is_finalizable ob = (case ob of ObjInstance _ _ _ \<Rightarrow> True | ObjException _ \<Rightarrow> True | _ \<Rightarrow> False)"

definition is_suspended_generator :: "object \<Rightarrow> bool" where
  "is_suspended_generator ob = (case ob of ObjGenerator g \<Rightarrow> gen_state g = GenSuspended | _ \<Rightarrow> False)"

definition unreached :: "heap \<Rightarrow> bool list \<Rightarrow> bool \<Rightarrow> nat \<Rightarrow> bool" where
  "unreached h marked young_only l \<longleftrightarrow> \<not> marked ! l \<and> \<not> (young_only \<and> \<not> ho_young (objects h ! l))"

definition finalizer_candidates :: "heap \<Rightarrow> bool list \<Rightarrow> bool \<Rightarrow> tvalue list res" where
  "finalizer_candidates h marked young_only =
     try_map (\<lambda>l. entry_handle h (objects h ! l))
       (filter (\<lambda>l. unreached h marked young_only l \<and> is_finalizable (ho_object (objects h ! l)))
         [0..<length (objects h)])"

fun queue_candidates :: "tvalue list \<Rightarrow> heap \<Rightarrow> bool list \<Rightarrow> (bool list, heap) run" where
  "queue_candidates [] h marked = (Ok marked, h)"
| "queue_candidates (v # vs) h marked =
     run_then (ok_or (location h v) (invalid_value v), h) (\<lambda>_ h0.
     run_then (queue_object_finalizer h0 v) (\<lambda>queued h1.
     if queued then run_then (mark_loop False h1 marked [v], h1) (\<lambda>marked1 h2. queue_candidates vs h2 marked1)
     else queue_candidates vs h1 marked))"

definition queue_unreachable_object_finalizers ::
  "heap \<Rightarrow> bool list \<Rightarrow> bool \<Rightarrow> (bool list, heap) run" where
  "queue_unreachable_object_finalizers h marked young_only =
     run_then (finalizer_candidates h marked young_only, h) (\<lambda>vs h1. queue_candidates vs h1 marked)"

definition push_generator :: "heap \<Rightarrow> tvalue \<Rightarrow> heap" where
  "push_generator h v = (if v \<in> set (pending_generators h) then h
     else h\<lparr>pending_generators := pending_generators h @ [v]\<rparr>)"

fun queue_generators :: "nat list \<Rightarrow> bool \<Rightarrow> heap \<Rightarrow> bool list \<Rightarrow> (bool list, heap) run" where
  "queue_generators [] young_only h marked = (Ok marked, h)"
| "queue_generators (l # ls) young_only h marked =
     (if \<not> unreached h marked young_only l \<or> \<not> is_suspended_generator (ho_object (objects h ! l))
      then queue_generators ls young_only h marked
      else run_then (entry_handle h (objects h ! l), h) (\<lambda>v h0.
        let h1 = push_generator h0 v in
        run_then (mark_loop False h1 marked [v], h1) (\<lambda>marked1 h2.
        queue_generators ls young_only h2 marked1)))"

definition queue_unreachable_generators :: "heap \<Rightarrow> bool list \<Rightarrow> bool \<Rightarrow> (bool list, heap) run" where
  "queue_unreachable_generators h marked young_only =
     queue_generators [0..<length (objects h)] young_only h marked"

section \<open>Sweeping\<close>

record collection_stats =
  reclaimed :: nat
  young_reclaimed :: nat
  survivors :: nat
  promoted :: nat
  moved :: nat
  major :: bool

record sweep_state =
  sw_kept :: "heap_object list"
  sw_slots :: "heap_slot list"
  sw_free :: "nat list"
  sw_foreign :: "pending_foreign list"
  sw_stats :: collection_stats

definition take_finalizer :: "foreign_object \<Rightarrow> pending_foreign" where
  "take_finalizer f = \<lparr>pf_payload = fo_payload f, pf_owned = (fo_active f \<and> spec_owned (fo_spec f)),
     pf_destroy = spec_destroy (fo_spec f), pf_reference_handles = fo_reference_handles f\<rparr>"

definition sweep_live :: "sweep_state \<Rightarrow> nat \<Rightarrow> heap_object \<Rightarrow> heap_slot \<Rightarrow> sweep_state" where
  "sweep_live st old entry sl =
     (let n = survivors (sw_stats st);
          stats = sw_stats st;
          stats1 = (if old \<noteq> n then stats\<lparr>moved := moved stats + 1\<rparr> else stats);
          stats2 = (if ho_young entry then stats1\<lparr>promoted := promoted stats1 + 1\<rparr> else stats1) in
      st\<lparr>sw_kept := sw_kept st @ [entry\<lparr>ho_young := False\<rparr>],
         sw_slots := (sw_slots st)[ho_slot entry := sl\<lparr>slot_location := Some n\<rparr>],
         sw_stats := stats2\<lparr>survivors := n + 1\<rparr>\<rparr>)"

definition sweep_dead :: "sweep_state \<Rightarrow> heap_object \<Rightarrow> heap_slot \<Rightarrow> sweep_state" where
  "sweep_dead st entry sl =
     (let stats = sw_stats st;
          stats1 = stats\<lparr>reclaimed := reclaimed stats + 1\<rparr>;
          stats2 = (if ho_young entry then stats1\<lparr>young_reclaimed := young_reclaimed stats1 + 1\<rparr>
            else stats1);
          again = slot_generation sl < MAX_GENERATION in
      st\<lparr>sw_foreign := (case ho_object entry of
           ObjForeign f \<Rightarrow> sw_foreign st @ [take_finalizer f] | _ \<Rightarrow> sw_foreign st),
         sw_slots := (sw_slots st)[ho_slot entry :=
           sl\<lparr>slot_location := None,
             slot_generation := (if again then slot_generation sl + 1 else slot_generation sl)\<rparr>],
         sw_free := (if again then ho_slot entry # sw_free st else sw_free st),
         sw_stats := stats2\<rparr>)"

definition sweep_entry ::
  "bool list \<Rightarrow> bool \<Rightarrow> sweep_state \<Rightarrow> nat \<times> heap_object \<Rightarrow> sweep_state res" where
  "sweep_entry marked young_only st = (\<lambda>(old, entry).
     and_then (if \<not> ho_young entry \<and> young_only then Ok True else index_at marked old) (\<lambda>live.
     and_then (index_at (sw_slots st) (ho_slot entry)) (\<lambda>sl.
     Ok (if live then sweep_live st old entry sl else sweep_dead st entry sl))))"

text \<open>The test the weak tables are filtered with after the sweep.\<close>

definition still_live :: "heap_slot list \<Rightarrow> tvalue \<Rightarrow> bool" where
  "still_live sls v = (case heap_index v of None \<Rightarrow> False
     | Some s \<Rightarrow> if s < length sls
         then slot_generation (sls ! s) = generation v \<and> slot_location (sls ! s) \<noteq> None else False)"

definition prune_dependents :: "heap_slot list \<Rightarrow> object \<Rightarrow> object" where
  "prune_dependents sls ob = (case ob of
      ObjClass c \<Rightarrow> ObjClass (c\<lparr>cls_dependents := filter (still_live sls) (cls_dependents c)\<rparr>)
    | _ \<Rightarrow> ob)"

definition sweep_start :: "heap \<Rightarrow> bool \<Rightarrow> sweep_state" where
  "sweep_start h young_only = \<lparr>sw_kept = [], sw_slots = slots h, sw_free = free_slots h,
     sw_foreign = pending_foreigns h,
     sw_stats = \<lparr>reclaimed = 0, young_reclaimed = 0, survivors = 0, promoted = 0, moved = 0,
       major = (\<not> young_only)\<rparr>\<rparr>"

definition sweep_finish :: "heap \<Rightarrow> sweep_state \<Rightarrow> heap" where
  "sweep_finish h st = h\<lparr>
     objects := map (\<lambda>e. e\<lparr>ho_object := prune_dependents (sw_slots st) (ho_object e)\<rparr>) (sw_kept st),
     slots := sw_slots st, free_slots := sw_free st, pending_foreigns := sw_foreign st,
     finalized_objects := filter (still_live (sw_slots st)) (finalized_objects h),
     last_collection_allocations := allocations h, remembered := [],
     external_fields := filter (\<lambda>((owner, _), _). still_live (sw_slots st) owner) (external_fields h)\<rparr>"

definition sweep :: "heap \<Rightarrow> bool list \<Rightarrow> bool \<Rightarrow> (collection_stats, heap) run" where
  "sweep h marked young_only =
     (case try_fold (sweep_entry marked young_only) (sweep_start h young_only) (enumerate 0 (objects h)) of
        Ok st \<Rightarrow> (Ok (sw_stats st), sweep_finish h st)
      | Err d \<Rightarrow> (Err d, h) | Panic \<Rightarrow> (Panic, h) | Diverge \<Rightarrow> (Diverge, h))"

section \<open>Collections\<close>

definition no_marks :: "heap \<Rightarrow> bool list" where
  "no_marks h = replicate (length (objects h)) False"

definition initial_work :: "heap \<Rightarrow> tvalue list \<Rightarrow> tvalue list" where
  "initial_work h roots = rev (roots @ pending_generators h @ pending_finalizers h)"

definition finish_collection :: "heap \<Rightarrow> bool list \<Rightarrow> bool \<Rightarrow> (collection_stats, heap) run" where
  "finish_collection h marked young_only =
     run_then (queue_unreachable_generators h marked young_only) (\<lambda>marked1 h1.
     run_then (queue_unreachable_object_finalizers h1 marked1 young_only) (\<lambda>marked2 h2.
     sweep h2 marked2 young_only))"

definition collect :: "heap \<Rightarrow> tvalue list \<Rightarrow> (collection_stats, heap) run" where
  "collect h roots = run_then (mark_loop False h (no_marks h) (initial_work h roots), h)
     (\<lambda>marked h1. finish_collection h1 marked False)"

definition collect_young :: "heap \<Rightarrow> tvalue list \<Rightarrow> (collection_stats, heap) run" where
  "collect_young h roots =
     run_then (remembered_edges h (remembered h) (initial_work h roots), h) (\<lambda>work h1.
     run_then (mark_loop True h1 (no_marks h1) work, h1) (\<lambda>marked h2. finish_collection h2 marked True))"

section \<open>What marking computes\<close>

definition eligible :: "bool \<Rightarrow> heap \<Rightarrow> nat \<Rightarrow> bool" where
  "eligible young_only h l \<longleftrightarrow> young_only \<longrightarrow> young_at h l"

text \<open>Every edge of a marked object that leads to an object in \<open>E\<close> leads to a marked one, or is still
  on the work list.\<close>

definition marks_closed :: "(nat \<Rightarrow> bool) \<Rightarrow> heap \<Rightarrow> bool list \<Rightarrow> tvalue list \<Rightarrow> bool" where
  "marks_closed E h marked work \<longleftrightarrow> (\<forall>l<length marked. marked ! l \<longrightarrow>
     (\<forall>w\<in>set (edges_at h l). \<forall>k. location h w = Some k \<longrightarrow> E k \<longrightarrow> marked ! k \<or> w \<in> set work))"

lemma entry_edges_at: "slots_wf h \<Longrightarrow> location h v = Some l \<Longrightarrow> entry_edges h l v = edges_at h l"
  by (simp add: entry_edges_def edges_at_def location_iff)

definition marks_le :: "bool list \<Rightarrow> bool list \<Rightarrow> bool" where
  "marks_le ms ms' \<longleftrightarrow> length ms' = length ms \<and> (\<forall>l<length ms. ms ! l \<longrightarrow> ms' ! l)"

lemma marks_le_refl [simp]: "marks_le ms ms"
  by (simp add: marks_le_def)

lemma marks_le_trans: "marks_le a b \<Longrightarrow> marks_le b c \<Longrightarrow> marks_le a c"
  by (auto simp: marks_le_def)

lemma mark_loop_Ok:
  "slots_wf h \<Longrightarrow> heap_closed h \<Longrightarrow> length marked = length (objects h) \<Longrightarrow>
   \<forall>v\<in>set work. valid h v \<Longrightarrow>
   \<exists>marked'. mark_loop y h marked work = Ok marked' \<and> marks_le marked marked' \<and>
     (\<forall>v\<in>set work. \<forall>k. location h v = Some k \<longrightarrow> eligible y h k \<longrightarrow> marked' ! k)"
proof (induction y h marked work rule: mark_loop.induct)
  case (2 y h marked v work)
  show ?case
  proof (cases "heap_index v = None")
    case True
    then show ?thesis using 2 location_heap_index by fastforce
  next
    case False
    then obtain l where l: "location h v = Some l" using 2(7) by (auto simp: valid_def)
    then have ll: "l < length (objects h)" using 2(4) location_in_range by blast
    show ?thesis
    proof (cases "y \<and> \<not> ho_young (objects h ! l) \<or> marked ! l")
      case True
      then obtain m' where m': "mark_loop y h marked work = Ok m'" "marks_le marked m'"
        "\<forall>v\<in>set work. \<forall>k. location h v = Some k \<longrightarrow> eligible y h k \<longrightarrow> m' ! k"
        using 2(2) [OF False l] 2(4-7) ll by auto
      have "eligible y h l \<longrightarrow> m' ! l"
        using True m'(2) ll 2(6) by (auto simp: eligible_def young_at_def marks_le_def)
      then show ?thesis using m' False l ll True 2(6) by auto
    next
      case new: False
      have "\<forall>w\<in>set (entry_edges h l v). valid h w"
        using entry_edges_at [OF 2(4) l] heap_closed_edge [OF 2(5) ll] by auto
      then have "\<forall>w\<in>set (rev (entry_edges h l v) @ work). valid h w" using 2(7) by auto
      then obtain m' where m': "mark_loop y h (marked[l := True]) (rev (entry_edges h l v) @ work) = Ok m'"
        "marks_le (marked[l := True]) m'"
        "\<forall>v\<in>set (rev (entry_edges h l v) @ work). \<forall>k. location h v = Some k \<longrightarrow> eligible y h k \<longrightarrow> m' ! k"
        using 2(3) [OF False l _ new 2(4,5)] 2(6) ll by (metis leD length_list_update)
      have "m' ! l" "marks_le marked m'"
        using m'(2) ll 2(6) by (auto simp: marks_le_def nth_list_update)
      then show ?thesis using m' False l ll new 2(6) by auto
    qed
  qed
qed simp

lemma mark_loop_closed:
  "slots_wf h \<Longrightarrow> length marked = length (objects h) \<Longrightarrow> mark_loop y h marked work = Ok marked' \<Longrightarrow>
   marks_closed E h marked work \<Longrightarrow> (\<And>k. E k \<Longrightarrow> eligible y h k) \<Longrightarrow>
   marks_closed E h marked' []"
proof (induction y h marked work rule: mark_loop.induct)
  case (2 y h marked v work)
  note wf = 2(4) and len = 2(5) and run = 2(6) and cl = 2(7) and E = 2(8)
  show ?case
  proof (cases "heap_index v = None")
    case True
    then have "marks_closed E h marked work"
      using cl location_heap_index unfolding marks_closed_def by fastforce
    then show ?thesis using 2(1) True run wf len E by simp
  next
    case False
    then obtain l where l: "location h v = Some l" and ll: "l < length (objects h)" "l < length marked"
      using run by (auto split: option.splits if_splits)
    show ?thesis
    proof (cases "y \<and> \<not> ho_young (objects h ! l) \<or> marked ! l")
      case True
      have "marks_closed E h marked work"
        using cl True l E len unfolding marks_closed_def eligible_def young_at_def by fastforce
      then show ?thesis using 2(2) [OF False l] True run wf len ll E False l by simp
    next
      case new: False
      have "marks_closed E h (marked[l := True]) (rev (entry_edges h l v) @ work)"
        unfolding marks_closed_def
      proof (intro allI impI ballI)
        fix i w k assume i: "i < length (marked[l := True])" "marked[l := True] ! i"
          and w: "w \<in> set (edges_at h i)" "location h w = Some k" "E k"
        have k: "k < length marked" using location_in_range [OF wf w(2)] len by simp
        show "marked[l := True] ! k \<or> w \<in> set (rev (entry_edges h l v) @ work)"
        proof (cases "i = l")
          case True
          then show ?thesis using w entry_edges_at [OF wf l] by simp
        next
          case False
          then have "marked ! k \<or> w \<in> set (v # work)"
            using cl i w unfolding marks_closed_def by auto
          then show ?thesis using w(2) l k ll(2) by (auto simp: nth_list_update)
        qed
      qed
      moreover have "mark_loop y h (marked[l := True]) (rev (entry_edges h l v) @ work) = Ok marked'"
        using run False l ll new by (auto split: if_splits)
      ultimately show ?thesis using 2(3) [OF False l _ new wf] ll len E by simp
    qed
  qed
qed simp

lemma mark_loop_reaches:
  "slots_wf h \<Longrightarrow> length marked = length (objects h) \<Longrightarrow> mark_loop y h marked work = Ok marked' \<Longrightarrow>
   l < length marked \<Longrightarrow> marked' ! l \<Longrightarrow> marked ! l \<or> eligible y h l \<and> reaches h (set work) (handle_at h l)"
proof (induction y h marked work rule: mark_loop.induct)
  case (2 y h marked v work)
  note wf = 2(4) and len = 2(5) and run = 2(6)
  have mono: "reaches h (set work) w \<Longrightarrow> reaches h (set (v # work)) w" for w
    by (erule reaches_mono) auto
  show ?case
  proof (cases "heap_index v = None")
    case True
    then show ?thesis using 2(1) run wf len 2(7,8) mono by auto
  next
    case False
    then obtain k where k: "location h v = Some k" and kl: "k < length (objects h)" "k < length marked"
      using run by (auto split: option.splits if_splits)
    show ?thesis
    proof (cases "y \<and> \<not> ho_young (objects h ! k) \<or> marked ! k")
      case True
      then show ?thesis using 2(2) [OF False k] run wf len kl 2(7,8) False k mono by auto
    next
      case new: False
      have v: "v = handle_at h k" using k location_iff [OF wf] by simp
      have "marked[k := True] ! l \<or> eligible y h l \<and> reaches h (set (rev (entry_edges h k v) @ work)) (handle_at h l)"
        using 2(3) [OF False k _ new wf _ _ _ 2(8)] 2(7) kl len run False k new by simp
      moreover have "reaches h (set (v # work)) w" if "reaches h (set (rev (entry_edges h k v) @ work)) w" for w
        using that
      proof (rule reaches_trans)
        fix u assume "u \<in> set (rev (entry_edges h k v) @ work)"
        then consider "u \<in> set (edges_at h k)" | "u \<in> set work"
          using entry_edges_at [OF wf k] by auto
        then show "reaches h (set (v # work)) u"
        proof cases
          case 1
          show ?thesis by (rule reaches.edge [OF reaches.root k 1]) simp
        next
          case 2
          then show ?thesis by (auto intro: reaches.root)
        qed
      qed
      ultimately show ?thesis
        using new v by (cases "l = k") (auto simp: eligible_def young_at_def intro: reaches.root)
    qed
  qed
qed simp

lemma mark_loop_invalid:
  "slots_wf h \<Longrightarrow> length marked = length (objects h) \<Longrightarrow>
   clean (mark_loop y h marked work)"
proof (induction y h marked work rule: mark_loop.induct)
  case (2 y h marked v work)
  then show ?case
    using location_in_range [OF 2(4), of v] by (auto split: option.splits)
qed simp

section \<open>What the sweep computes\<close>

definition kept :: "heap \<Rightarrow> bool list \<Rightarrow> bool \<Rightarrow> nat \<Rightarrow> bool" where
  "kept h marked young_only l \<longleftrightarrow> young_only \<and> \<not> young_at h l \<or> marked ! l"

text \<open>The new location of a kept object: the number of kept objects before it.\<close>

definition rank :: "(nat \<Rightarrow> bool) \<Rightarrow> nat \<Rightarrow> nat" where
  "rank K l = length (filter K [0..<l])"

lemma rank_Suc: "rank K (Suc l) = (if K l then Suc (rank K l) else rank K l)"
  by (simp add: rank_def)

lemma rank_mono: "l \<le> k \<Longrightarrow> rank K l \<le> rank K k"
  by (induction k) (auto simp: rank_Suc le_Suc_eq)

lemma rank_less: "K l \<Longrightarrow> l < n \<Longrightarrow> rank K l < rank K n"
  using rank_mono [of "Suc l" n K] by (simp add: rank_Suc)

lemma rank_inj: "K l \<Longrightarrow> K k \<Longrightarrow> rank K l = rank K k \<Longrightarrow> l = k"
  by (metis rank_less nat_neq_iff)

lemma nth_filter_rank: "K l \<Longrightarrow> l < n \<Longrightarrow> filter K [0..<n] ! rank K l = l"
proof (induction n)
  case (Suc n)
  then show ?case
    by (cases "l = n") (auto simp: nth_append rank_less [unfolded rank_def] rank_def)
qed simp

lemma rank_surj: "j < rank K n \<Longrightarrow> \<exists>l<n. K l \<and> rank K l = j"
proof (induction n)
  case (Suc n)
  then show ?case by (cases "j = rank K n") (auto simp: rank_Suc less_Suc_eq split: if_splits)
qed (simp add: rank_def)

definition retired_slot :: "heap_slot \<Rightarrow> heap_slot" where
  "retired_slot sl = sl\<lparr>slot_location := None, slot_generation :=
     (if slot_generation sl < MAX_GENERATION then slot_generation sl + 1 else slot_generation sl)\<rparr>"

definition swept_slot :: "heap \<Rightarrow> (nat \<Rightarrow> bool) \<Rightarrow> nat \<Rightarrow> nat \<Rightarrow> heap_slot" where
  "swept_slot h K n s = (case slot_location (slots h ! s) of
      None \<Rightarrow> slots h ! s
    | Some l \<Rightarrow> if n \<le> l then slots h ! s
        else if K l then (slots h ! s)\<lparr>slot_location := Some (rank K l)\<rparr>
        else retired_slot (slots h ! s))"

definition freed_slots :: "heap \<Rightarrow> (nat \<Rightarrow> bool) \<Rightarrow> nat \<Rightarrow> nat list" where
  "freed_slots h K n = map (\<lambda>l. ho_slot (objects h ! l)) (filter (\<lambda>l. \<not> K l \<and>
     slot_generation (slots h ! ho_slot (objects h ! l)) < MAX_GENERATION) [0..<n])"

definition finalizer_of :: "object \<Rightarrow> pending_foreign list" where
  "finalizer_of ob = (case ob of ObjForeign f \<Rightarrow> [take_finalizer f] | _ \<Rightarrow> [])"

definition swept_foreign :: "heap \<Rightarrow> (nat \<Rightarrow> bool) \<Rightarrow> nat \<Rightarrow> pending_foreign list" where
  "swept_foreign h K n = concat (map (\<lambda>l. finalizer_of (ho_object (objects h ! l)))
     (filter (\<lambda>l. \<not> K l) [0..<n]))"

definition sweep_inv :: "heap \<Rightarrow> (nat \<Rightarrow> bool) \<Rightarrow> nat \<Rightarrow> sweep_state \<Rightarrow> bool" where
  "sweep_inv h K n st \<longleftrightarrow>
     survivors (sw_stats st) = rank K n \<and>
     reclaimed (sw_stats st) = n - rank K n \<and>
     sw_kept st = map (\<lambda>l. (objects h ! l)\<lparr>ho_young := False\<rparr>) (filter K [0..<n]) \<and>
     sw_slots st = map (swept_slot h K n) [0..<length (slots h)] \<and>
     sw_free st = rev (freed_slots h K n) @ free_slots h \<and>
     sw_foreign st = pending_foreigns h @ swept_foreign h K n"

lemma rank_le: "rank K n \<le> n"
  by (induction n) (auto simp: rank_Suc rank_def)

lemma sweep_inv_step:
  assumes wf: "slots_wf h" and n: "n < length (objects h)" "length marked = length (objects h)"
    and inv: "sweep_inv h (kept h marked y) n st"
  shows "\<exists>st'. sweep_entry marked y st (n, objects h ! n) = Ok st' \<and> sweep_inv h (kept h marked y) (Suc n) st'"
proof -
  let ?K = "kept h marked y" and ?e = "objects h ! n"
  let ?s = "ho_slot ?e"
  have s: "?s < length (slots h)" "slot_location (slots h ! ?s) = Some n"
    using slots_wfD(4,5) [OF wf n(1)] by auto
  have slots: "length (sw_slots st) = length (slots h)" "sw_slots st ! ?s = slots h ! ?s"
    using inv s by (simp_all add: sweep_inv_def swept_slot_def)
  have other: "swept_slot h ?K (Suc n) t = swept_slot h ?K n t" if "t < length (slots h)" "t \<noteq> ?s" for t
    using that slots_wfD(6) [OF wf that(1), of n]
    by (auto simp: swept_slot_def split: option.splits)
  have map_slots: "map (swept_slot h ?K (Suc n)) [0..<length (slots h)]
      = (map (swept_slot h ?K n) [0..<length (slots h)])[?s := swept_slot h ?K (Suc n) ?s]"
    using s(1) other by (intro nth_equalityI) (auto simp: nth_list_update)
  have live: "(if \<not> ho_young ?e \<and> y then Ok True else index_at marked n) = Ok (?K n)"
    using n by (auto simp: kept_def young_at_def index_at_def)
  have run: "sweep_entry marked y st (n, ?e)
      = Ok (if ?K n then sweep_live st n ?e (slots h ! ?s) else sweep_dead st ?e (slots h ! ?s))"
    using s slots live by (simp add: sweep_entry_def index_at_def)
  show ?thesis
  proof (cases "?K n")
    case True
    have "sweep_inv h ?K (Suc n) (sweep_live st n ?e (slots h ! ?s))"
      using inv True s map_slots rank_le [of ?K n]
      by (simp add: sweep_inv_def sweep_live_def Let_def rank_Suc swept_slot_def freed_slots_def
          swept_foreign_def)
    then show ?thesis using run True by simp
  next
    case False
    have "sweep_inv h ?K (Suc n) (sweep_dead st ?e (slots h ! ?s))"
      using inv False s map_slots rank_le [of ?K n]
      by (simp add: sweep_inv_def sweep_dead_def Let_def rank_Suc swept_slot_def freed_slots_def
          swept_foreign_def finalizer_of_def retired_slot_def Suc_diff_le split: object.split)
    then show ?thesis using run False by simp
  qed
qed

lemma sweep_inv_start: "sweep_inv h K 0 (sweep_start h y)"
proof -
  have "map (swept_slot h K 0) [0..<length (slots h)] = slots h"
    by (rule nth_equalityI) (auto simp: swept_slot_def split: option.splits)
  then show ?thesis
    by (simp add: sweep_inv_def sweep_start_def freed_slots_def swept_foreign_def rank_def)
qed

lemma sweep_fold:
  assumes wf: "slots_wf h" and len: "length marked = length (objects h)"
  shows "n \<le> length (objects h) \<Longrightarrow>
    \<exists>st. try_fold (sweep_entry marked y) (sweep_start h y) (enumerate 0 (take n (objects h))) = Ok st \<and>
      sweep_inv h (kept h marked y) n st"
proof (induction n)
  case 0
  then show ?case by (simp add: sweep_inv_start)
next
  case (Suc n)
  then obtain st where st: "try_fold (sweep_entry marked y) (sweep_start h y)
      (enumerate 0 (take n (objects h))) = Ok st" "sweep_inv h (kept h marked y) n st"
    by auto
  obtain st' where "sweep_entry marked y st (n, objects h ! n) = Ok st'"
    "sweep_inv h (kept h marked y) (Suc n) st'"
    using sweep_inv_step [OF wf _ len st(2)] Suc.prems by auto
  then show ?case
    using st(1) Suc.prems
    by (simp add: take_Suc_conv_app_nth enumerate_append_eq try_fold_append)
qed

lemma trace_prune [simp]: "object_trace (prune_dependents sls ob) = object_trace ob"
  by (simp add: prune_dependents_def object_trace_def class_trace_def split: object.split)

lemma parts_prune [simp]: "instance_parts (prune_dependents sls ob) = instance_parts ob"
  by (simp add: prune_dependents_def instance_parts_def split: object.split)

definition swept :: "heap \<Rightarrow> (nat \<Rightarrow> bool) \<Rightarrow> heap \<Rightarrow> bool" where
  "swept h K h' \<longleftrightarrow>
     slots h' = map (swept_slot h K (length (objects h))) [0..<length (slots h)] \<and>
     free_slots h' = rev (freed_slots h K (length (objects h))) @ free_slots h \<and>
     objects h' = map (\<lambda>l. (objects h ! l)\<lparr>ho_young := False,
         ho_object := prune_dependents (slots h') (ho_object (objects h ! l))\<rparr>)
       (filter K [0..<length (objects h)]) \<and>
     remembered h' = [] \<and>
     external_fields h' = filter (\<lambda>((owner, _), _). still_live (slots h') owner) (external_fields h) \<and>
     pending_generators h' = pending_generators h \<and> pending_finalizers h' = pending_finalizers h \<and>
     finalized_objects h' = filter (still_live (slots h')) (finalized_objects h) \<and>
     pending_foreigns h' = pending_foreigns h @ swept_foreign h K (length (objects h)) \<and>
     heap_shapes h' = heap_shapes h \<and> next_type h' = next_type h"

lemma sweep_swept:
  assumes wf: "slots_wf h" and len: "length marked = length (objects h)"
  shows "\<exists>stats h'. sweep h marked y = (Ok stats, h') \<and> swept h (kept h marked y) h' \<and>
    survivors stats = rank (kept h marked y) (length (objects h)) \<and>
    reclaimed stats = length (objects h) - rank (kept h marked y) (length (objects h))"
proof -
  obtain st where st: "try_fold (sweep_entry marked y) (sweep_start h y) (enumerate 0 (objects h)) = Ok st"
    "sweep_inv h (kept h marked y) (length (objects h)) st"
    using sweep_fold [OF wf len order_refl] by auto
  then have "swept h (kept h marked y) (sweep_finish h st)"
    by (simp add: swept_def sweep_finish_def sweep_inv_def)
  then show ?thesis using st by (simp add: sweep_def sweep_inv_def)
qed


lemma slot_swept:
  assumes wf: "slots_wf h" and sw: "swept h K h'"
  shows "s < length (slots h) \<Longrightarrow> slots h' ! s = swept_slot h K (length (objects h)) s"
using sw by (simp add: swept_def)

lemma length_swept:
  assumes wf: "slots_wf h" and sw: "swept h K h'"
  shows "length (slots h') = length (slots h)"
  "length (objects h') = rank K (length (objects h))"
using sw by (simp_all add: swept_def rank_def)

lemma object_swept:
  assumes wf: "slots_wf h" and sw: "swept h K h'"
  shows "l < length (objects h) \<Longrightarrow> K l \<Longrightarrow> objects h' ! rank K l = (objects h ! l)\<lparr>ho_young := False,
     ho_object := prune_dependents (slots h') (ho_object (objects h ! l))\<rparr>"
using sw nth_filter_rank [of K l "length (objects h)"] rank_less [of K l "length (objects h)"]
  by (simp add: swept_def rank_def)

lemma swept_location_slot:
  assumes wf: "slots_wf h" and sw: "swept h K h'"
  shows "s < length (slots h) \<Longrightarrow> slot_location (slots h' ! s) = Some j \<longleftrightarrow>
     (\<exists>l. slot_location (slots h ! s) = Some l \<and> K l \<and> j = rank K l)"
using slots_wfD(6) [OF wf, of s]
  by (auto simp: slot_swept [OF wf sw] swept_slot_def retired_slot_def split: option.splits)

lemma swept_generation_kept:
  assumes wf: "slots_wf h" and sw: "swept h K h'"
  shows "s < length (slots h) \<Longrightarrow> slot_location (slots h' ! s) \<noteq> None \<Longrightarrow>
     slot_generation (slots h' ! s) = slot_generation (slots h ! s)"
using slots_wfD(6) [OF wf, of s]
  by (auto simp: slot_swept [OF wf sw] swept_slot_def retired_slot_def split: option.splits if_splits)

lemma location_swept:
  assumes wf: "slots_wf h" and sw: "swept h K h'"
  shows "location h' v = (case location h v of None \<Rightarrow> None | Some l \<Rightarrow> if K l then Some (rank K l) else None)"
proof (cases "heap_index v")
  case None
  then show ?thesis by (simp add: location_def)
next
  case (Some s)
  show ?thesis
  proof (cases "s < length (slots h)")
    case False
    then show ?thesis using Some by (simp add: location_def length_swept [OF wf sw])
  next
    case True
    note sl = swept_location_slot [OF wf sw True] swept_generation_kept [OF wf sw True]
    show ?thesis
    proof (cases "slot_location (slots h' ! s)")
      case None
      then have "\<forall>l. slot_location (slots h ! s) = Some l \<longrightarrow> \<not> K l" using sl(1) by auto
      then show ?thesis using None Some True by (auto simp: location_def length_swept [OF wf sw] split: option.splits)
    next
      case (Some j)
      then obtain l where "slot_location (slots h ! s) = Some l" "K l" "j = rank K l" using sl(1) by auto
      then show ?thesis
        using Some sl(2) True \<open>heap_index v = Some s\<close> by (auto simp: location_def length_swept [OF wf sw])
    qed
  qed
qed

lemma location_swept_iff:
  assumes wf: "slots_wf h" and sw: "swept h K h'"
  shows "location h' v = Some j \<longleftrightarrow> (\<exists>l. location h v = Some l \<and> K l \<and> j = rank K l)"
by (auto simp: location_swept [OF wf sw] split: option.splits)

lemma still_live_swept:
  assumes wf: "slots_wf h" and sw: "swept h K h'"
  shows "still_live (slots h') v \<longleftrightarrow> location h' v \<noteq> None"
by (auto simp: still_live_def location_def split: option.splits)

lemma slots_wf_swept:
  assumes wf: "slots_wf h" and sw: "swept h K h'"
  shows "slots_wf h'"
unfolding slots_wf_def
proof (intro conjI)
  let ?n = "length (objects h)"
  show "length (slots h') \<le> 2 ^ 32" using slots_wfD(1) [OF wf] by (simp add: length_swept [OF wf sw])
  show "\<forall>s<length (slots h'). 1 \<le> slot_generation (slots h' ! s) \<and> slot_generation (slots h' ! s) \<le> MAX_GENERATION"
    using slots_wfD(2,3) [OF wf]
    by (auto simp: length_swept [OF wf sw] slot_swept [OF wf sw] swept_slot_def retired_slot_def split: option.split)
  show "\<forall>j<length (objects h'). ho_slot (objects h' ! j) < length (slots h') \<and>
      slot_location (slots h' ! ho_slot (objects h' ! j)) = Some j"
  proof (intro allI impI)
    fix j assume "j < length (objects h')"
    then obtain l where l: "l < ?n" "K l" "rank K l = j"
      using rank_surj [of j K ?n] by (auto simp: length_swept [OF wf sw])
    have "ho_slot (objects h' ! j) = ho_slot (objects h ! l)"
      using object_swept [OF wf sw l(1,2)] l(3) by simp
    then show "ho_slot (objects h' ! j) < length (slots h') \<and>
        slot_location (slots h' ! ho_slot (objects h' ! j)) = Some j"
      using l slots_wfD(4,5) [OF wf l(1)] by (auto simp: length_swept [OF wf sw] swept_location_slot [OF wf sw])
  qed
  show "\<forall>s<length (slots h'). \<forall>j. slot_location (slots h' ! s) = Some j \<longrightarrow>
      j < length (objects h') \<and> ho_slot (objects h' ! j) = s"
  proof (intro allI impI)
    fix s j assume "s < length (slots h')" and j: "slot_location (slots h' ! s) = Some j"
    then have s: "s < length (slots h)" by (simp add: length_swept [OF wf sw])
    then obtain l where l: "slot_location (slots h ! s) = Some l" "K l" "j = rank K l"
      using j by (auto simp: swept_location_slot [OF wf sw])
    then show "j < length (objects h') \<and> ho_slot (objects h' ! j) = s"
      using slots_wfD(6) [OF wf s l(1)] object_swept [OF wf sw, of l] rank_less [of K l ?n]
      by (simp add: length_swept [OF wf sw])
  qed
  have freed: "t < length (slots h) \<and> t \<notin> set (free_slots h) \<and> slot_location (slots h' ! t) = None"
    if "t \<in> set (freed_slots h K ?n)" for t
    using that slots_wfD(4,5,8) [OF wf]
    by (force simp: freed_slots_def slot_swept [OF wf sw] swept_slot_def retired_slot_def)
  have "inj_on (\<lambda>l. ho_slot (objects h ! l)) {..<?n}"
    using slots_wfD(5) [OF wf] by (intro inj_onI) (metis lessThan_iff option.inject)
  then have "distinct (freed_slots h K ?n)"
    unfolding freed_slots_def by (subst distinct_map) (auto elim: inj_on_subset)
  then show "distinct (free_slots h')"
    using sw freed slots_wfD(7) [OF wf] by (auto simp: swept_def)
  show "\<forall>s\<in>set (free_slots h'). s < length (slots h') \<and> slot_location (slots h' ! s) = None"
    using sw freed slots_wfD(8) [OF wf]
    by (auto simp: swept_def length_swept [OF wf sw] slot_swept [OF wf sw] swept_slot_def)
qed

lemma handle_swept:
  assumes wf: "slots_wf h" and sw: "swept h K h'"
  shows "l < length (objects h) \<Longrightarrow> K l \<Longrightarrow> handle_at h' (rank K l) = handle_at h l"
using location_swept_iff [OF wf sw, of "handle_at h l" "rank K l"] location_handle_at [OF wf, of l]
    location_iff [OF slots_wf_swept [OF wf sw]] by auto

lemma edges_swept:
  assumes wf: "slots_wf h" and sw: "swept h K h'"
    and new: "l < length (objects h)" "K l"
  shows "edges_at h' (rank K l) = edges_at h l"
proof -
  have "location h' (handle_at h l) = Some (rank K l)"
    using new location_handle_at [OF wf new(1)] by (simp add: location_swept [OF wf sw])
  then have "still_live (slots h') (handle_at h l)" by (simp add: still_live_swept [OF wf sw])
  then have "trace_external_fields h' (handle_at h l) = trace_external_fields h (handle_at h l)"
    using sw
    by (auto simp: trace_external_fields_def swept_def case_prod_unfold intro!: arg_cong [of _ _ "map snd"]
        filter_cong)
  then show ?thesis using new by (simp add: edges_at_def handle_swept [OF wf sw] object_swept [OF wf sw])
qed

lemma try_get_swept:
  assumes wf: "slots_wf h" and sw: "swept h K h'"
    and new: "location h v = Some l" "K l"
  shows "try_get h' v = map_option (prune_dependents (slots h')) (try_get h v)"
  using new object_swept [OF wf sw, of l] location_in_range [OF wf new(1)]
  by (simp add: try_get_location [OF wf] try_get_location [OF slots_wf_swept [OF wf sw]] location_swept [OF wf sw])

lemma young_swept:
  assumes wf: "slots_wf h" and sw: "swept h K h'"
  shows "j < length (objects h') \<Longrightarrow> \<not> young_at h' j"
using sw by (simp add: swept_def young_at_def)

section \<open>What queueing adds\<close>

text \<open>Queueing changes nothing but the queues.\<close>

definition requeued :: "heap \<Rightarrow> heap \<Rightarrow> bool" where
  "requeued h h' \<longleftrightarrow> h' = h\<lparr>pending_generators := pending_generators h',
     pending_finalizers := pending_finalizers h', finalized_objects := finalized_objects h'\<rparr>"

lemma requeued_refl [simp]: "requeued h h"
  by (simp add: requeued_def)

lemma requeued_fields:
  assumes "requeued h h'"
  shows "objects h' = objects h" "slots h' = slots h" "external_fields h' = external_fields h"
    "free_slots h' = free_slots h" "remembered h' = remembered h" "allocations h' = allocations h"
    "pending_foreigns h' = pending_foreigns h"
  using assms by (cases h; cases h'; simp add: requeued_def)+

lemma requeued_trans: "requeued h h1 \<Longrightarrow> requeued h1 h2 \<Longrightarrow> requeued h h2"
  by (cases h; cases h1; cases h2) (simp add: requeued_def)

lemma requeued_same:
  assumes "requeued h h'"
  shows "location h' = location h" "edges_at h' = edges_at h" "valid h' = valid h"
    "handle_at h' = handle_at h" "try_get h' = try_get h" "slots_wf h' = slots_wf h"
    "young_at h' = young_at h" "trace_external_fields h' = trace_external_fields h"
    "unreached h' = unreached h" "entry_handle h' = entry_handle h" "entry_edges h' = entry_edges h"
  using requeued_fields [OF assms]
  by (simp_all add: fun_eq_iff location_def edges_at_def valid_def handle_at_def try_get_def slots_wf_def
      young_at_def trace_external_fields_def unreached_def entry_handle_def entry_edges_def
      cong: option.case_cong if_cong)

lemma requeued_reaches:
  assumes "requeued h h'" shows "reaches h' R v = reaches h R v"
proof -
  note same = requeued_same [OF assms]
  show ?thesis
  proof
    show "reaches h R v" if "reaches h' R v"
      using that by (induction rule: reaches.induct) (auto simp: same intro: reaches.intros)
    show "reaches h' R v" if "reaches h R v"
      using that by (induction rule: reaches.induct) (auto simp: same [symmetric] intro: reaches.intros)
  qed
qed

lemma requeued_mark_loop: "requeued h h' \<Longrightarrow> mark_loop y h' marked work = mark_loop y h marked work"
proof (induction y h marked work rule: mark_loop.induct)
  case (2 y h marked v work)
  note same = requeued_same [OF 2(4)] requeued_fields [OF 2(4)]
  show ?case
    using 2 by (auto simp: same split: option.splits)
qed simp

lemma requeued_classes:
  assumes "requeued h h'"
  shows "heap_class h' = heap_class h" "class_lookup h' = class_lookup h"
    "special_method_call h' = special_method_call h" "classes_ok h' = classes_ok h"
proof -
  note same = requeued_same [OF assms] requeued_fields [OF assms]
  show c: "heap_class h' = heap_class h"
    by (simp add: fun_eq_iff heap_class_def heap_get_def same)
  have "lookup_in h' name cs = lookup_in h name cs" for name cs
    by (induction cs) (simp_all add: c cong: option.case_cong)
  then show l: "class_lookup h' = class_lookup h"
    by (simp add: fun_eq_iff class_lookup_def c cong: option.case_cong)
  have "descriptor_callable h' = descriptor_callable h"
    by (simp add: fun_eq_iff descriptor_callable_def same)
  then show "special_method_call h' = special_method_call h"
    by (simp add: fun_eq_iff special_method_call_def l same cong: option.case_cong)
  have "is_class h' = is_class h" by (simp add: fun_eq_iff is_class_def c)
  then show "classes_ok h' = classes_ok h"
    by (simp add: classes_ok_def class_chain_ok_def c same cong: res.case_cong)
qed

lemma lookup_in_Ok: "\<forall>c\<in>set cs. is_class h c \<Longrightarrow> \<exists>r. lookup_in h name cs = Ok r"
proof (induction cs)
  case (Cons c cs)
  then obtain k where "heap_class h c = Ok k" by (auto simp: is_class_def is_ok_iff)
  with Cons show ?case by (auto split: option.splits)
qed simp

lemma class_lookup_Ok: "class_chain_ok h c \<Longrightarrow> \<exists>r. class_lookup h c name = Ok r"
proof -
  assume "class_chain_ok h c"
  then obtain k where "heap_class h c = Ok k" "\<forall>m\<in>set (cls_mro k). is_class h m"
    by (auto simp: class_chain_ok_def split: res.splits)
  then show ?thesis using lookup_in_Ok [of "c # cls_mro k" h name] by (simp add: class_lookup_def is_class_def)
qed

lemma special_method_call_Ok:
  assumes "slots_wf h" "classes_ok h" "location h v = Some l" "is_finalizable (ho_object (objects h ! l))"
  shows "\<exists>r. special_method_call h v name = Ok r"
proof -
  have l: "l < length (objects h)" using location_in_range [OF assms(1,3)] .
  obtain c a where "instance_parts (ho_object (objects h ! l)) = Some (c, a)"
    "instance_class (ho_object (objects h ! l)) = Some c"
    using assms(4) by (auto simp: is_finalizable_def instance_parts_def instance_class_def split: object.splits)
  moreover from this have "\<exists>r. class_lookup h c name = Ok r"
    using assms(2) l class_lookup_Ok unfolding classes_ok_def by blast
  ultimately show ?thesis
    using assms(3) by (auto simp: special_method_call_def try_get_location [OF assms(1)] split: option.splits)
qed

text \<open>One finalization root: the object is marked with all it reaches.\<close>

lemma mark_root:
  assumes wf: "slots_wf h" "heap_closed h" and len: "length marked = length (objects h)"
    and v: "location h v = Some l" and cl: "marks_closed E h marked []"
  shows "\<exists>m. mark_loop False h marked [v] = Ok m \<and> marks_le marked m \<and> m ! l \<and> marks_closed E h m [] \<and>
    (\<forall>k<length marked. m ! k \<longrightarrow> marked ! k \<or> reaches h {v} (handle_at h k))"
proof -
  obtain m where m: "mark_loop False h marked [v] = Ok m" "marks_le marked m" "m ! l"
    using mark_loop_Ok [OF wf len, of "[v]" False] v by (auto simp: valid_def eligible_def)
  have "marks_closed E h marked [v]" using cl by (auto simp: marks_closed_def)
  then have "marks_closed E h m []"
    by (rule mark_loop_closed [OF wf(1) len m(1)]) (simp add: eligible_def)
  then show ?thesis using m mark_loop_reaches [OF wf(1) len m(1)] by auto
qed

lemma unreached_le: "marks_le m m' \<Longrightarrow> l < length m \<Longrightarrow> unreached h m' y l \<Longrightarrow> unreached h m y l"
  by (auto simp: unreached_def marks_le_def)

lemma queue_generators_spec:
  "slots_wf h \<Longrightarrow> heap_closed h \<Longrightarrow> length marked = length (objects h) \<Longrightarrow> marks_closed E h marked [] \<Longrightarrow>
   \<forall>l\<in>set ls. l < length (objects h) \<Longrightarrow>
   \<exists>m h' new. queue_generators ls y h marked = (Ok m, h') \<and> requeued h h' \<and>
     pending_generators h' = pending_generators h @ new \<and>
     pending_finalizers h' = pending_finalizers h \<and> finalized_objects h' = finalized_objects h \<and>
     marks_le marked m \<and> marks_closed E h m [] \<and>
     (\<forall>k<length marked. m ! k \<longrightarrow> marked ! k \<or> reaches h (set (pending_generators h')) (handle_at h k)) \<and>
     (\<forall>v\<in>set new. \<exists>l. l < length (objects h) \<and> v = handle_at h l \<and> m ! l \<and> unreached h marked y l \<and>
        is_suspended_generator (ho_object (objects h ! l))) \<and>
     (\<forall>l\<in>set ls. is_suspended_generator (ho_object (objects h ! l)) \<longrightarrow> \<not> unreached h m y l)"
proof (induction ls arbitrary: h marked)
  case Nil
  then show ?case by auto
next
  case (Cons l ls)
  note wf = Cons.prems(1,2) and len = Cons.prems(3) and cl = Cons.prems(4)
  have l: "l < length (objects h)" using Cons.prems(5) by simp
  show ?case
  proof (cases "unreached h marked y l \<and> is_suspended_generator (ho_object (objects h ! l))")
    case False
    have pre: "\<forall>l\<in>set ls. l < length (objects h)" using Cons.prems(5) by simp
    obtain m h' new where IH: "queue_generators ls y h marked = (Ok m, h')" "requeued h h'"
      "pending_generators h' = pending_generators h @ new" "pending_finalizers h' = pending_finalizers h"
      "finalized_objects h' = finalized_objects h" "marks_le marked m" "marks_closed E h m []"
      "\<forall>k<length marked. m ! k \<longrightarrow> marked ! k \<or> reaches h (set (pending_generators h')) (handle_at h k)"
      "\<forall>v\<in>set new. \<exists>l. l < length (objects h) \<and> v = handle_at h l \<and> m ! l \<and> unreached h marked y l \<and>
        is_suspended_generator (ho_object (objects h ! l))"
      "\<forall>l\<in>set ls. is_suspended_generator (ho_object (objects h ! l)) \<longrightarrow> \<not> unreached h m y l"
      using Cons.IH [OF Cons.prems(1-4) pre] by blast
    have "is_suspended_generator (ho_object (objects h ! l)) \<longrightarrow> \<not> unreached h m y l"
      using False unreached_le [OF IH(6), unfolded len, OF l] by blast
    then show ?thesis using False IH by (intro exI [of _ m] exI [of _ h'] exI [of _ new]) simp
  next
    case True
    let ?v = "handle_at h l"
    have v: "entry_handle h (objects h ! l) = Ok ?v"
      using slots_wfD(4) [OF wf(1) l] by (simp add: entry_handle_def index_at_def handle_at_def)
    define h1 where "h1 = push_generator h ?v"
    have r1: "requeued h h1" and q1: "pending_finalizers h1 = pending_finalizers h"
      "finalized_objects h1 = finalized_objects h"
      by (auto simp: h1_def push_generator_def requeued_def)
    obtain new0 where new0: "pending_generators h1 = pending_generators h @ new0" "set new0 \<subseteq> {?v}"
      "?v \<in> set (pending_generators h1)"
      by (cases "?v \<in> set (pending_generators h)") (auto simp: h1_def push_generator_def)
    obtain m1 where m1: "mark_loop False h marked [?v] = Ok m1" "marks_le marked m1" "m1 ! l"
      "marks_closed E h m1 []" "\<forall>k<length marked. m1 ! k \<longrightarrow> marked ! k \<or> reaches h {?v} (handle_at h k)"
      using mark_root [OF wf len location_handle_at [OF wf(1) l] cl] by blast
    note same = requeued_same [OF r1] requeued_fields [OF r1]
    have closed1: "heap_closed h1" "marks_closed E h1 m1 []"
      using wf new0(1,2) q1 m1(4) location_handle_at [OF wf(1) l]
      by (auto simp: heap_closed_def same valid_def marks_closed_def)
    have len1: "length m1 = length (objects h1)" using m1(2) len by (simp add: marks_le_def same)
    have pre: "slots_wf h1" "\<forall>l\<in>set ls. l < length (objects h1)"
      using wf(1) Cons.prems(5) by (simp_all add: same)
    from Cons.IH [OF pre(1) closed1(1) len1 closed1(2) pre(2)]
    obtain m h' new where "queue_generators ls y h1 m1 = (Ok m, h')" "requeued h1 h'"
      "pending_generators h' = pending_generators h1 @ new" "pending_finalizers h' = pending_finalizers h1"
      "finalized_objects h' = finalized_objects h1" "marks_le m1 m" "marks_closed E h1 m []"
      "\<forall>k<length m1. m ! k \<longrightarrow> m1 ! k \<or> reaches h1 (set (pending_generators h')) (handle_at h1 k)"
      "\<forall>v\<in>set new. \<exists>l. l < length (objects h1) \<and> v = handle_at h1 l \<and> m ! l \<and> unreached h1 m1 y l \<and>
        is_suspended_generator (ho_object (objects h1 ! l))"
      "\<forall>l\<in>set ls. is_suspended_generator (ho_object (objects h1 ! l)) \<longrightarrow> \<not> unreached h1 m y l"
      by blast
    note IH = this [unfolded same requeued_reaches [OF r1]]
    have IH7: "marks_closed E h m []" using IH(7) by (simp add: marks_closed_def same)
    have run: "queue_generators (l # ls) y h marked = (Ok m, h')"
      using True v m1(1) IH(1) requeued_mark_loop [OF r1]
      by (simp add: Let_def h1_def [symmetric] del: mark_loop.simps)
    have reach: "\<forall>k<length marked. m ! k \<longrightarrow> marked ! k \<or> reaches h (set (pending_generators h')) (handle_at h k)"
    proof (intro allI impI)
      fix k assume k: "k < length marked" "m ! k"
      have "reaches h (set (pending_generators h')) (handle_at h k)" if "reaches h {?v} (handle_at h k)"
        using that new0(3) IH(3) by (auto intro: reaches_mono)
      then show "marked ! k \<or> reaches h (set (pending_generators h')) (handle_at h k)"
        using IH(8) m1(2,5) k by (auto simp: marks_le_def)
    qed
    have added: "\<exists>l. l < length (objects h) \<and> w = handle_at h l \<and> m ! l \<and> unreached h marked y l \<and>
        is_suspended_generator (ho_object (objects h ! l))" if w: "w \<in> set (new0 @ new)" for w
    proof (cases "w \<in> set new")
      case True
      then show ?thesis using IH(9) unreached_le [OF m1(2), unfolded len] by blast
    next
      case False
      then have "w = ?v" using w new0(2) by auto
      moreover have "m ! l" using IH(6) m1(3) len1 l by (simp add: marks_le_def same)
      ultimately show ?thesis using l \<open>unreached h marked y l \<and> _\<close> by blast
    qed
    have "m ! l" using IH(6) m1(3) len1 l by (simp add: marks_le_def same)
    then have "\<not> unreached h m y l" by (simp add: unreached_def)
    then show ?thesis
      using run requeued_trans [OF r1 IH(2)] IH(3-6,10) IH7 new0(1) q1 marks_le_trans [OF m1(2) IH(6)] reach added
      by (intro exI [of _ m] exI [of _ h'] exI [of _ "new0 @ new"]) simp
  qed
qed

lemma finalizer_candidates_Ok:
  assumes "slots_wf h"
  shows "finalizer_candidates h marked y = Ok (map (handle_at h) (filter (\<lambda>l. unreached h marked y l \<and>
      is_finalizable (ho_object (objects h ! l))) [0..<length (objects h)]))"
proof -
  have "try_map (\<lambda>l. entry_handle h (objects h ! l)) ls = Ok (map (handle_at h) ls)"
    if "\<forall>l\<in>set ls. l < length (objects h)" for ls
    using that slots_wfD(4) [OF assms]
    by (induction ls) (auto simp: entry_handle_def index_at_def handle_at_def)
  then show ?thesis by (simp add: finalizer_candidates_def)
qed

lemma queue_object_finalizer_Ok:
  assumes "slots_wf h" "classes_ok h" "location h v = Some l" "is_finalizable (ho_object (objects h ! l))"
  shows "\<exists>b h'. queue_object_finalizer h v = (Ok b, h') \<and> requeued h h' \<and>
    pending_generators h' = pending_generators h \<and>
    pending_finalizers h' = pending_finalizers h @ (if b then [v] else []) \<and>
    finalized_objects h' = finalized_objects h @ (if b then [v] else []) \<and>
    (b \<longrightarrow> v \<notin> set (finalized_objects h) \<and> v \<notin> set (pending_finalizers h)) \<and>
    (\<not> b \<longrightarrow> v \<in> set (finalized_objects h) \<union> set (pending_finalizers h) \<or>
       special_method_call h v ''__del__'' = Ok None)"
  using special_method_call_Ok [OF assms, of "''__del__''"]
  by (auto simp: queue_object_finalizer_def requeued_def split: option.splits)

lemma queue_candidates_spec:
  "slots_wf h \<Longrightarrow> heap_closed h \<Longrightarrow> classes_ok h \<Longrightarrow> length marked = length (objects h) \<Longrightarrow>
   marks_closed E h marked [] \<Longrightarrow>
   \<forall>l\<in>set ls. l < length (objects h) \<and> is_finalizable (ho_object (objects h ! l)) \<Longrightarrow>
   \<exists>m h' new. queue_candidates (map (handle_at h) ls) h marked = (Ok m, h') \<and> requeued h h' \<and>
     pending_generators h' = pending_generators h \<and>
     pending_finalizers h' = pending_finalizers h @ new \<and> finalized_objects h' = finalized_objects h @ new \<and>
     set new \<inter> set (finalized_objects h) = {} \<and> distinct new \<and>
     marks_le marked m \<and> marks_closed E h m [] \<and>
     (\<forall>k<length marked. m ! k \<longrightarrow> marked ! k \<or> reaches h (set (pending_finalizers h')) (handle_at h k)) \<and>
     (\<forall>v\<in>set new. \<exists>l\<in>set ls. v = handle_at h l \<and> m ! l) \<and>
     (\<forall>l\<in>set ls. m ! l \<or> handle_at h l \<in> set (finalized_objects h) \<union> set (pending_finalizers h) \<or>
       special_method_call h (handle_at h l) ''__del__'' = Ok None)"
proof (induction ls arbitrary: h marked)
  case Nil
  then show ?case by auto
next
  case (Cons l ls)
  note wf = Cons.prems(1,2) and cls = Cons.prems(3) and len = Cons.prems(4) and cl = Cons.prems(5)
  have l: "l < length (objects h)" "is_finalizable (ho_object (objects h ! l))" using Cons.prems(6) by auto
  let ?v = "handle_at h l"
  have v: "location h ?v = Some l" by (rule location_handle_at [OF wf(1) l(1)])
  obtain b h1 where q: "queue_object_finalizer h ?v = (Ok b, h1)" and r1: "requeued h h1"
    and p1: "pending_generators h1 = pending_generators h"
      "pending_finalizers h1 = pending_finalizers h @ (if b then [?v] else [])"
      "finalized_objects h1 = finalized_objects h @ (if b then [?v] else [])"
      "b \<longrightarrow> ?v \<notin> set (finalized_objects h) \<and> ?v \<notin> set (pending_finalizers h)"
      "\<not> b \<longrightarrow> ?v \<in> set (finalized_objects h) \<union> set (pending_finalizers h) \<or>
        special_method_call h ?v ''__del__'' = Ok None"
    using queue_object_finalizer_Ok [OF wf(1) cls v l(2)] by blast
  note same = requeued_same [OF r1] requeued_fields [OF r1] requeued_classes [OF r1]
  obtain m0 where m0: "mark_loop False h marked [?v] = Ok m0" "marks_le marked m0" "m0 ! l"
    "marks_closed E h m0 []" "\<forall>k<length marked. m0 ! k \<longrightarrow> marked ! k \<or> reaches h {?v} (handle_at h k)"
    using mark_root [OF wf len v cl] by blast
  define m1 where "m1 = (if b then m0 else marked)"
  have m1: "marks_le marked m1" "marks_closed E h m1 []" "b \<longrightarrow> m1 ! l"
    "\<forall>k<length marked. m1 ! k \<longrightarrow> marked ! k \<or> b \<and> reaches h {?v} (handle_at h k)"
    using m0 cl by (auto simp: m1_def)
  have closed1: "heap_closed h1"
    using wf p1(1,2) v by (auto simp: heap_closed_def same valid_def)
  have pre: "slots_wf h1" "classes_ok h1" "length m1 = length (objects h1)" "marks_closed E h1 m1 []"
    "\<forall>l\<in>set ls. l < length (objects h1) \<and> is_finalizable (ho_object (objects h1 ! l))"
    using wf(1) cls Cons.prems(6) m1(1,2) len by (simp_all add: same marks_le_def marks_closed_def)
  from Cons.IH [OF pre(1) closed1 pre(2-5)]
  obtain m h' new where "queue_candidates (map (handle_at h1) ls) h1 m1 = (Ok m, h')" "requeued h1 h'"
    "pending_generators h' = pending_generators h1"
    "pending_finalizers h' = pending_finalizers h1 @ new" "finalized_objects h' = finalized_objects h1 @ new"
    "set new \<inter> set (finalized_objects h1) = {}" "distinct new"
    "marks_le m1 m" "marks_closed E h1 m []"
    "\<forall>k<length m1. m ! k \<longrightarrow> m1 ! k \<or> reaches h1 (set (pending_finalizers h')) (handle_at h1 k)"
    "\<forall>v\<in>set new. \<exists>l\<in>set ls. v = handle_at h1 l \<and> m ! l"
    "\<forall>l\<in>set ls. m ! l \<or> handle_at h1 l \<in> set (finalized_objects h1) \<union> set (pending_finalizers h1) \<or>
       special_method_call h1 (handle_at h1 l) ''__del__'' = Ok None"
    by blast
  note IH = this [unfolded same requeued_reaches [OF r1]]
  have run: "queue_candidates (map (handle_at h) (l # ls)) h marked = (Ok m, h')"
    using v q m0(1) IH(1) requeued_mark_loop [OF r1]
    by (cases b) (simp_all add: ok_or_def m1_def del: mark_loop.simps)
  have reach: "\<forall>k<length marked. m ! k \<longrightarrow> marked ! k \<or> reaches h (set (pending_finalizers h')) (handle_at h k)"
  proof (intro allI impI)
    fix k assume k: "k < length marked" "m ! k"
    have "reaches h (set (pending_finalizers h')) (handle_at h k)" if "b" "reaches h {?v} (handle_at h k)"
      using that p1(2) IH(4) by (auto intro: reaches_mono)
    then show "marked ! k \<or> reaches h (set (pending_finalizers h')) (handle_at h k)"
      using IH(10) m1(1,4) k by (auto simp: marks_le_def)
  qed
  have closed: "marks_closed E h m []" using IH(9) by (simp add: marks_closed_def same)
  have bl: "b \<longrightarrow> m ! l" using m1(1,3) IH(8) l(1) len by (simp add: marks_le_def)
  have missed: "m ! k \<or> handle_at h k \<in> set (finalized_objects h) \<union> set (pending_finalizers h) \<or>
      special_method_call h (handle_at h k) ''__del__'' = Ok None" if "k \<in> set (l # ls)" for k
  proof (cases "handle_at h k = ?v")
    case True
    then have "k = l" using that Cons.prems(6) l(1) handle_at_inj [OF wf(1)] by auto
    then show ?thesis using bl p1(5) by blast
  next
    case False
    then show ?thesis using that IH(12) p1(2,3) by (cases b) auto
  qed
  show ?case
    using run requeued_trans [OF r1 IH(2)] IH(3-7,11) p1(1-4) bl closed marks_le_trans [OF m1(1) IH(8)] reach missed
    by (intro exI [of _ m] exI [of _ h'] exI [of _ "(if b then [?v] else []) @ new"]) auto
qed

section \<open>Collections\<close>

text \<open>What keeps an object alive: the roots, the queues after the collection, and in a nursery
  collection every old object.\<close>

definition old_handles :: "heap \<Rightarrow> tvalue set" where
  "old_handles h = {handle_at h l | l. l < length (objects h) \<and> \<not> young_at h l}"

definition sources :: "bool \<Rightarrow> heap \<Rightarrow> tvalue list \<Rightarrow> heap \<Rightarrow> tvalue set" where
  "sources young_only h roots h' = set roots \<union> set (pending_generators h') \<union> set (pending_finalizers h') \<union>
     (if young_only then old_handles h else {})"

text \<open>What the queues gain: suspended generators, and objects that were not finalized before, both out
  of reach of the roots and of the queues as they were.\<close>

definition queued :: "bool \<Rightarrow> heap \<Rightarrow> tvalue list \<Rightarrow> heap \<Rightarrow> bool" where
  "queued young_only h roots h' \<longleftrightarrow> (\<exists>g f. pending_generators h' = pending_generators h @ g \<and>
     pending_finalizers h' = pending_finalizers h @ f \<and> distinct f \<and> set f \<inter> set (finalized_objects h) = {} \<and>
     finalized_objects h' = filter (still_live (slots h')) (finalized_objects h @ f) \<and>
     (\<forall>v\<in>set g \<union> set f. \<not> reaches h (sources young_only h roots h) v) \<and>
     (\<forall>v\<in>set g. \<exists>ob. try_get h v = Some ob \<and> is_suspended_generator ob) \<and>
     (\<forall>v\<in>set f. \<exists>ob. try_get h v = Some ob \<and> is_finalizable ob))"

text \<open>No suspended generator is reclaimed, and no object with a \<open>__del__\<close> that was not yet finalized.\<close>

definition finalized_first :: "heap \<Rightarrow> heap \<Rightarrow> bool" where
  "finalized_first h h' \<longleftrightarrow> (\<forall>v ob. try_get h v = Some ob \<longrightarrow> location h' v = None \<longrightarrow>
     \<not> is_suspended_generator ob \<and> (is_finalizable ob \<longrightarrow>
       v \<in> set (finalized_objects h) \<or> special_method_call h v ''__del__'' = Ok None))"

definition collected :: "bool \<Rightarrow> heap \<Rightarrow> tvalue list \<Rightarrow> heap \<Rightarrow> bool" where
  "collected young_only h roots h' \<longleftrightarrow> (\<exists>h2 K. requeued h h2 \<and> swept h2 K h' \<and>
     (\<forall>l<length (objects h). K l \<longleftrightarrow> reaches h (sources young_only h roots h') (handle_at h l)) \<and>
     (\<forall>v\<in>set (pending_generators h') \<union> set (pending_finalizers h'). valid h v)) \<and>
     queued young_only h roots h' \<and> finalized_first h h'"

lemma marked_complete:
  assumes wf: "slots_wf h" and len: "length marked = length (objects h)"
    and closed: "marks_closed (if y then young_at h else (\<lambda>_. True)) h marked []"
    and old: "\<And>l w k. y \<Longrightarrow> l < length (objects h) \<Longrightarrow> \<not> young_at h l \<Longrightarrow> w \<in> set (edges_at h l) \<Longrightarrow>
      location h w = Some k \<Longrightarrow> young_at h k \<Longrightarrow> marked ! k"
    and roots: "\<And>v k. v \<in> R \<Longrightarrow> location h v = Some k \<Longrightarrow> eligible y h k \<Longrightarrow> marked ! k"
    and r: "reaches h (R \<union> (if y then old_handles h else {})) v" and l: "location h v = Some l"
  shows "\<not> unreached h marked y l"
  using r l
proof (induction arbitrary: l rule: reaches.induct)
  case (root v)
  then show ?case
    using roots location_handle_at [OF wf]
    by (auto simp: unreached_def old_handles_def eligible_def young_at_def split: if_splits)
next
  case (edge v k w)
  have k: "k < length (objects h)" and l: "l < length (objects h)"
    using location_in_range [OF wf] edge by auto
  show ?case
  proof (cases "y \<and> \<not> young_at h k")
    case True
    then show ?thesis using old [OF _ k _ edge(3) \<open>location h w = Some l\<close>]
      by (auto simp: unreached_def young_at_def)
  next
    case False
    then have "marked ! k" using edge.IH [OF edge(2)] by (auto simp: unreached_def young_at_def)
    then show ?thesis
      using closed k len edge(3) \<open>location h w = Some l\<close> unfolding marks_closed_def
      by (auto simp: unreached_def young_at_def split: if_splits)
  qed
qed

lemma finish_collection_spec:
  assumes ok: "heap_ok h" and len: "length marked = length (objects h)"
    and closed: "marks_closed (if y then young_at h else (\<lambda>_. True)) h marked []"
    and old: "\<And>l w k. y \<Longrightarrow> l < length (objects h) \<Longrightarrow> \<not> young_at h l \<Longrightarrow> w \<in> set (edges_at h l) \<Longrightarrow>
      location h w = Some k \<Longrightarrow> young_at h k \<Longrightarrow> marked ! k"
    and roots: "\<And>v k. v \<in> set roots \<union> set (pending_generators h) \<union> set (pending_finalizers h) \<Longrightarrow>
      location h v = Some k \<Longrightarrow> eligible y h k \<Longrightarrow> marked ! k"
    and reach: "\<And>l. l < length (objects h) \<Longrightarrow> marked ! l \<Longrightarrow> reaches h (sources y h roots h) (handle_at h l)"
  shows "\<exists>stats h'. finish_collection h marked y = (Ok stats, h') \<and> collected y h roots h'"
proof -
  let ?E = "if y then young_at h else (\<lambda>_. True)"
  have wf: "slots_wf h" and cl: "heap_closed h" and cls: "classes_ok h" using ok by (auto simp: heap_ok_def)
  obtain m1 h1 g where q1: "queue_unreachable_generators h marked y = (Ok m1, h1)" and r1: "requeued h h1"
    and g: "pending_generators h1 = pending_generators h @ g"
      "pending_finalizers h1 = pending_finalizers h" "finalized_objects h1 = finalized_objects h"
    and m1: "marks_le marked m1" "marks_closed ?E h m1 []"
      "\<forall>k<length marked. m1 ! k \<longrightarrow> marked ! k \<or> reaches h (set (pending_generators h1)) (handle_at h k)"
    and new_g: "\<forall>v\<in>set g. \<exists>l. l < length (objects h) \<and> v = handle_at h l \<and> m1 ! l \<and> unreached h marked y l \<and>
        is_suspended_generator (ho_object (objects h ! l))"
    and all_g: "\<And>l. l < length (objects h) \<Longrightarrow> is_suspended_generator (ho_object (objects h ! l)) \<Longrightarrow>
        \<not> unreached h m1 y l"
    using queue_generators_spec [OF wf cl len closed, of "[0..<length (objects h)]" y]
    by (auto simp: queue_unreachable_generators_def)
  note same = requeued_same [OF r1] requeued_fields [OF r1] requeued_classes [OF r1]
  have pre: "slots_wf h1" "heap_closed h1" "classes_ok h1" "length m1 = length (objects h1)"
    "marks_closed ?E h1 m1 []"
    using wf cls m1(1,2) len
    by (simp_all add: same marks_le_def marks_closed_def)
      (use cl g new_g location_handle_at [OF wf] in \<open>auto simp: heap_closed_def same valid_def\<close>)
  let ?ls = "filter (\<lambda>l. unreached h1 m1 y l \<and> is_finalizable (ho_object (objects h1 ! l))) [0..<length (objects h1)]"
  have "\<forall>l\<in>set ?ls. l < length (objects h1) \<and> is_finalizable (ho_object (objects h1 ! l))" by auto
  from queue_candidates_spec [OF pre this]
  obtain m2 h2 f where "queue_candidates (map (handle_at h1) ?ls) h1 m1 = (Ok m2, h2)" and r2: "requeued h1 h2"
    and "pending_generators h2 = pending_generators h1" "pending_finalizers h2 = pending_finalizers h1 @ f"
    "finalized_objects h2 = finalized_objects h1 @ f" "set f \<inter> set (finalized_objects h1) = {}" "distinct f"
    "marks_le m1 m2" "marks_closed ?E h1 m2 []"
    "\<forall>k<length m1. m2 ! k \<longrightarrow> m1 ! k \<or> reaches h1 (set (pending_finalizers h2)) (handle_at h1 k)"
    "\<forall>v\<in>set f. \<exists>l\<in>set ?ls. v = handle_at h1 l \<and> m2 ! l"
    "\<forall>l\<in>set ?ls. m2 ! l \<or> handle_at h1 l \<in> set (finalized_objects h1) \<union> set (pending_finalizers h1) \<or>
       special_method_call h1 (handle_at h1 l) ''__del__'' = Ok None"
    by blast
  note f = this
  have q2: "queue_unreachable_object_finalizers h1 m1 y = (Ok m2, h2)"
    using f(1) finalizer_candidates_Ok [OF pre(1)] by (simp add: queue_unreachable_object_finalizers_def)
  have r: "requeued h h2" by (rule requeued_trans [OF r1 r2])
  note same2 = requeued_same [OF r] requeued_fields [OF r]
  have len2: "length m2 = length (objects h2)" using f m1(1) len by (simp add: marks_le_def same same2)
  obtain stats h' where sweep: "sweep h2 m2 y = (Ok stats, h')" and sw: "swept h2 (kept h2 m2 y) h'"
    using sweep_swept [of h2 m2 y] wf len2 by (auto simp: same2)
  let ?K = "kept h2 m2 y"
  have queues: "pending_generators h' = pending_generators h @ g" "pending_finalizers h' = pending_finalizers h @ f"
    using sw g f by (auto simp: swept_def)
  have le: "marks_le marked m2" using m1(1) f marks_le_trans by blast
  have K: "?K l \<longleftrightarrow> y \<and> \<not> young_at h l \<or> m2 ! l" for l by (simp add: kept_def same2)
  have closedK: "?K k" if "l < length (objects h)" "?K l" "w \<in> set (edges_at h l)" "location h w = Some k" for l w k
  proof -
    have k: "k < length (objects h)" using location_in_range [OF wf that(4)] .
    show ?thesis
    proof (cases "m2 ! l \<and> (y \<longrightarrow> young_at h k)")
      case True
      then have "m2 ! k" using f(9) that(1,3,4) len2 unfolding marks_closed_def
        by (auto simp: same same2 split: if_splits)
      then show ?thesis by (simp add: K)
    next
      case False
      then show ?thesis
        using that K old [OF _ that(1) _ that(3,4)] le k len by (auto simp: marks_le_def)
    qed
  qed
  have rootK: "?K k" if "v \<in> set roots \<union> set (pending_generators h') \<union> set (pending_finalizers h')"
    "location h v = Some k" for v k
  proof -
    note v = that
    have k: "k < length (objects h)" using location_in_range [OF wf v(2)] .
    consider "v \<in> set roots \<union> set (pending_generators h) \<union> set (pending_finalizers h)" | "v \<in> set g" | "v \<in> set f"
      using v(1) queues by auto
    then show ?thesis
    proof cases
      case 1
      then show ?thesis using roots [OF 1 v(2)] le k len by (auto simp: K eligible_def marks_le_def)
    next
      case 2
      then obtain l where "l < length (objects h)" "v = handle_at h l" "m1 ! l" using new_g by blast
      then have "m1 ! k" using v(2) by (simp add: location_handle_at [OF wf])
      then show ?thesis using f(8) k len m1(1) by (auto simp: K marks_le_def)
    next
      case 3
      then obtain l where "l < length (objects h)" "v = handle_at h l" "m2 ! l" using f(11) by (auto simp: same)
      then show ?thesis using v(2) by (simp add: location_handle_at [OF wf] K)
    qed
  qed
  have sound: "\<forall>k. location h v = Some k \<longrightarrow> ?K k" if "reaches h (sources y h roots h') v" for v
    using that
  proof (induction rule: reaches.induct)
    case (root v)
    then show ?case
      using rootK K location_handle_at [OF wf] by (auto simp: sources_def old_handles_def split: if_splits)
  next
    case (edge v l w)
    then show ?case using closedK location_in_range [OF wf edge(2)] by blast
  qed
  have src: "sources y h roots h \<subseteq> sources y h roots h'" "set (pending_generators h1) \<subseteq> sources y h roots h'"
    "set (pending_finalizers h2) \<subseteq> sources y h roots h'"
    using queues g f by (auto simp: sources_def)
  have complete: "reaches h (sources y h roots h') (handle_at h l)" if "l < length (objects h)" "?K l" for l
  proof (cases "y \<and> \<not> young_at h l")
    case True
    then show ?thesis using that by (auto simp: sources_def old_handles_def intro!: reaches.root)
  next
    case False
    then have "m2 ! l" using that(2) K [of l] by blast
    note l = that(1) this
    then consider "marked ! l" | "reaches h (set (pending_generators h1)) (handle_at h l)"
      | "reaches h (set (pending_finalizers h2)) (handle_at h l)"
      using f(10) m1(1,3) l len requeued_reaches [OF r1] by (auto simp: marks_le_def same)
    then show ?thesis
      using reach [OF l(1)] src by cases (auto intro: reaches_mono)
  qed
  have "valid h v" if "v \<in> set (pending_generators h') \<union> set (pending_finalizers h')" for v
    using that queues cl new_g f(11) location_handle_at [OF wf] by (auto simp: heap_closed_def valid_def same)
  moreover have "queued y h roots h'"
  proof -
    have before: "\<not> reaches h (sources y h roots h) (handle_at h l)"
      if "l < length (objects h)" "unreached h marked y l" for l
    proof
      let ?R = "set roots \<union> set (pending_generators h) \<union> set (pending_finalizers h)"
      assume "reaches h (sources y h roots h) (handle_at h l)"
      then have "reaches h (?R \<union> (if y then old_handles h else {})) (handle_at h l)"
        by (simp add: sources_def)
      then have "\<not> unreached h marked y l"
        by (rule marked_complete [OF wf len closed, rotated 2])
          (fact location_handle_at [OF wf that(1)] old roots)+
      then show False using that(2) by contradiction
    qed
    have got: "try_get h (handle_at h l) = Some (ho_object (objects h ! l))" if "l < length (objects h)" for l
      by (simp add: try_get_location [OF wf] location_handle_at [OF wf that])
    have in_f: "\<exists>l<length (objects h). v = handle_at h l \<and> unreached h marked y l \<and>
        is_finalizable (ho_object (objects h ! l))" if "v \<in> set f" for v
      using f(11) that unreached_le [OF m1(1), unfolded len] by (fastforce simp: same)
    show ?thesis
      unfolding queued_def
    proof (rule exI [of _ g], rule exI [of _ f], intro conjI ballI)
      show "pending_generators h' = pending_generators h @ g" "pending_finalizers h' = pending_finalizers h @ f"
        "distinct f" "set f \<inter> set (finalized_objects h) = {}"
        "finalized_objects h' = filter (still_live (slots h')) (finalized_objects h @ f)"
        using queues f(5-7) g(3) sw by (simp_all add: swept_def)
      show "\<not> reaches h (sources y h roots h) v" if "v \<in> set g \<union> set f" for v
      proof -
        have "\<exists>l<length (objects h). v = handle_at h l \<and> unreached h marked y l"
          using that new_g in_f [of v] by (cases "v \<in> set g") auto
        then show ?thesis using before by auto
      qed
      show "\<exists>ob. try_get h v = Some ob \<and> is_suspended_generator ob" if "v \<in> set g" for v
        using that new_g got by fastforce
      show "\<exists>ob. try_get h v = Some ob \<and> is_finalizable ob" if "v \<in> set f" for v
        using in_f [OF that] got by fastforce
    qed
  qed
  moreover have "finalized_first h h'"
    unfolding finalized_first_def
  proof (intro allI impI)
    fix v ob assume ob: "try_get h v = Some ob" and gone: "location h' v = None"
    obtain l where l: "location h v = Some l" "l < length (objects h)" "ob = ho_object (objects h ! l)"
      using ob location_in_range [OF wf] by (auto simp: try_get_location [OF wf])
    have v: "v = handle_at h l" using l(1) location_iff [OF wf] by simp
    have not_kept: "\<not> ?K l" using gone l(1) location_swept [OF _ sw, of v] wf by (auto simp: same2 split: if_splits)
    then have un2: "unreached h m2 y l" by (simp add: K unreached_def young_at_def)
    then have un1: "unreached h m1 y l" using unreached_le [OF f(8)] l(2) len m1(1) by (simp add: marks_le_def)
    have "\<not> m2 ! l" using not_kept K by blast
    moreover have "v \<notin> set (pending_finalizers h1)"
    proof
      assume "v \<in> set (pending_finalizers h1)"
      then have "?K l" using rootK [OF _ l(1)] queues(2) g(2) by simp
      then show False using not_kept by blast
    qed
    ultimately have "is_finalizable ob \<Longrightarrow> v \<in> set (finalized_objects h) \<or> special_method_call h v ''__del__'' = Ok None"
      using f(12) l un1 v g(3) by (auto simp: same)
    then show "\<not> is_suspended_generator ob \<and> (is_finalizable ob \<longrightarrow>
        v \<in> set (finalized_objects h) \<or> special_method_call h v ''__del__'' = Ok None)"
      using all_g [OF l(2)] un1 l(3) by blast
  qed
  ultimately have "collected y h roots h'"
    unfolding collected_def using r sw sound complete location_handle_at [OF wf] by blast
  then show ?thesis using q1 q2 sweep by (auto simp: finish_collection_def)
qed

text \<open>A collected heap: who is alive, and what they hold.\<close>

lemma collected_alive:
  assumes wf: "slots_wf h" and c: "collected y h roots h'"
  shows "location h' v \<noteq> None \<longleftrightarrow> location h v \<noteq> None \<and> reaches h (sources y h roots h') v"
    and "location h' v \<noteq> None \<Longrightarrow> try_get h' v = map_option (prune_dependents (slots h')) (try_get h v)"
proof -
  obtain h2 K where r: "requeued h h2" and sw: "swept h2 K h'"
    and K: "\<And>l. l < length (objects h) \<Longrightarrow> K l \<longleftrightarrow> reaches h (sources y h roots h') (handle_at h l)"
    using c by (auto simp: collected_def)
  note same = requeued_same [OF r] requeued_fields [OF r]
  have wf2: "slots_wf h2" using wf by (simp add: same)
  have alive: "location h' v \<noteq> None \<longleftrightarrow> (\<exists>l. location h v = Some l \<and> K l)"
    using location_swept [OF wf2 sw, of v] by (auto simp: same split: option.splits)
  moreover have "K l \<longleftrightarrow> reaches h (sources y h roots h') v" if "location h v = Some l" for l
    using that K location_iff [OF wf] by auto
  ultimately show "location h' v \<noteq> None \<longleftrightarrow> location h v \<noteq> None \<and> reaches h (sources y h roots h') v"
    by auto
  show "try_get h' v = map_option (prune_dependents (slots h')) (try_get h v)" if "location h' v \<noteq> None"
    using that alive try_get_swept [OF wf2 sw, of v] by (auto simp: same)
qed

lemma heap_class_prune:
  assumes "try_get h' v = map_option (prune_dependents sls) (try_get h v)" "heap_class h v = Ok k"
  shows "\<exists>k'. heap_class h' v = Ok k' \<and> cls_mro k' = cls_mro k"
  using assms
  by (auto simp: heap_class_def heap_get_def ok_or_def prune_dependents_def split: option.splits object.splits)

lemma collected_heap_ok:
  assumes ok: "heap_ok h" and c: "collected y h roots h'"
  shows "heap_ok h' \<and> (\<forall>l<length (objects h'). \<not> young_at h' l)"
proof -
  have wf: "slots_wf h" and cl: "heap_closed h" and cls: "classes_ok h" using ok by (auto simp: heap_ok_def)
  obtain h2 K where r: "requeued h h2" and sw: "swept h2 K h'"
    and K: "\<And>l. l < length (objects h) \<Longrightarrow> K l \<longleftrightarrow> reaches h (sources y h roots h') (handle_at h l)"
    and queues: "\<forall>v\<in>set (pending_generators h') \<union> set (pending_finalizers h'). valid h v"
    using c by (auto simp: collected_def)
  note same = requeued_same [OF r] requeued_fields [OF r]
  have wf2: "slots_wf h2" using wf by (simp add: same)
  have wf': "slots_wf h'" by (rule slots_wf_swept [OF wf2 sw])
  note alive = collected_alive [OF wf c]
  have old: "\<exists>l<length (objects h). K l \<and> rank K l = j" if "j < length (objects h')" for j
    using that rank_surj length_swept(2) [OF wf2 sw] by (auto simp: same)
  have edge: "location h' w \<noteq> None"
    if "l < length (objects h)" "K l" "w \<in> set (edges_at h l)" "location h w \<noteq> None" for l w
    using that K [OF that(1)] alive(1) location_handle_at [OF wf that(1)]
    by (auto intro: reaches.edge)
  have "valid h' w" if "j < length (objects h')" "w \<in> set (edges_at h' j)" for j w
  proof -
    obtain l where l: "l < length (objects h)" "K l" "rank K l = j" using old [OF \<open>j < _\<close>] by blast
    then have w: "w \<in> set (edges_at h l)"
      using \<open>w \<in> _\<close> edges_swept [OF wf2 sw, of l] by (simp add: same)
    then show ?thesis using heap_closed_edge [OF cl l(1) w] edge [OF l(1,2) w] by (auto simp: valid_def)
  qed
  moreover have "valid h' v" if "v \<in> set (pending_generators h') \<union> set (pending_finalizers h')" for v
  proof -
    have "reaches h (sources y h roots h') v" using that by (auto simp: sources_def intro: reaches.root)
    then show ?thesis using that queues alive(1) [of v] by (auto simp: valid_def)
  qed
  ultimately have closed: "heap_closed h'" unfolding heap_closed_def by blast
  have young: "\<not> young_at h' j" if "j < length (objects h')" for j
    using young_swept [OF wf2 sw that] .
  have "classes_ok h'"
    unfolding classes_ok_def
  proof (intro allI impI)
    fix j cv a assume j: "j < length (objects h')"
      and parts: "instance_parts (ho_object (objects h' ! j)) = Some (cv, a)"
    obtain l where l: "l < length (objects h)" "K l" "rank K l = j" using old [OF j] by blast
    then have p: "instance_parts (ho_object (objects h ! l)) = Some (cv, a)"
      using parts object_swept [OF wf2 sw, of l] by (auto simp: same)
    then obtain k where k: "heap_class h cv = Ok k" and mro: "\<forall>m\<in>set (cls_mro k). is_class h m"
      using cls l(1) unfolding classes_ok_def class_chain_ok_def by (fastforce split: res.splits)
    have "cv \<in> set (edges_at h l)"
      using instance_parts_trace [OF p] by (simp add: edges_at_def)
    moreover have located: "location h v \<noteq> None" if "is_class h v" for v
      using that heap_class_located [OF wf] by (fastforce simp: is_class_def is_ok_iff)
    ultimately have cv: "location h' cv \<noteq> None"
      using edge [OF l(1,2)] k by (auto simp: is_class_def)
    then obtain k' where k': "heap_class h' cv = Ok k'" "cls_mro k' = cls_mro k"
      using heap_class_prune [OF alive(2) k] by blast
    have "is_class h' m" if m: "m \<in> set (cls_mro k)" for m
    proof -
      obtain lc where lc: "location h cv = Some lc" and obc: "ho_object (objects h ! lc) = ObjClass k"
        using heap_class_located [OF wf k] by blast
      have "m \<in> set (edges_at h lc)"
        using m obc by (simp add: edges_at_def object_trace_def class_trace_def)
      moreover have "K lc"
        using cv alive(1) [of cv] K location_in_range [OF wf lc] lc location_iff [OF wf] by auto
      ultimately have "location h' m \<noteq> None"
        using edge [of lc m] location_in_range [OF wf lc] located mro m by blast
      moreover obtain km where "heap_class h m = Ok km" using mro m by (auto simp: is_class_def is_ok_iff)
      ultimately show ?thesis using heap_class_prune [OF alive(2)] by (fastforce simp: is_class_def)
    qed
    then show "class_chain_ok h' cv" using k' by (simp add: class_chain_ok_def)
  qed
  then show ?thesis
    using wf' closed young location_in_range [OF wf'] sw
    unfolding heap_ok_def remembered_ok_def swept_def by (metis empty_iff list.set(1))
qed

lemma length_no_marks [simp]: "length (no_marks h) = length (objects h)"
  by (simp add: no_marks_def)

lemma marks_closed_no_marks [simp]: "marks_closed E h (no_marks h) work"
  by (simp add: marks_closed_def no_marks_def)

lemma set_initial_work [simp]: "set (initial_work h roots) =
    set roots \<union> set (pending_generators h) \<union> set (pending_finalizers h)"
  by (auto simp: initial_work_def)

lemma collect_spec:
  assumes ok: "heap_ok h" and roots: "\<forall>v\<in>set roots. valid h v"
  shows "\<exists>stats h'. collect h roots = (Ok stats, h') \<and> collected False h roots h'"
proof -
  have wf: "slots_wf h" and cl: "heap_closed h" using ok by (auto simp: heap_ok_def)
  have "\<forall>v\<in>set (initial_work h roots). valid h v" using roots cl by (auto simp: heap_closed_def)
  then obtain m where m: "mark_loop False h (no_marks h) (initial_work h roots) = Ok m"
    "marks_le (no_marks h) m"
    "\<forall>v\<in>set (initial_work h roots). \<forall>k. location h v = Some k \<longrightarrow> eligible False h k \<longrightarrow> m ! k"
    using mark_loop_Ok [OF wf cl length_no_marks, of "initial_work h roots" False] by blast
  have len: "length m = length (objects h)" using m(2) by (simp add: marks_le_def)
  have "marks_closed (\<lambda>_. True) h m []"
    by (rule mark_loop_closed [OF wf length_no_marks m(1)]) (simp_all add: eligible_def)
  moreover have "reaches h (sources False h roots h) (handle_at h l)" if "l < length (objects h)" "m ! l" for l
    using mark_loop_reaches [OF wf length_no_marks m(1), of l] that by (simp add: no_marks_def sources_def)
  ultimately have "\<exists>stats h'. finish_collection h m False = (Ok stats, h') \<and> collected False h roots h'"
    using m(3) by (intro finish_collection_spec [OF ok len]) auto
  then show ?thesis using m(1) by (auto simp: collect_def)
qed

lemma remembered_edges_Ok:
  assumes wf: "slots_wf h"
  shows "\<exists>work'. remembered_edges h ss work = Ok work' \<and> (\<forall>w. w \<in> set work' \<longleftrightarrow> w \<in> set work \<or>
    (\<exists>l<length (objects h). ho_slot (objects h ! l) \<in> set ss \<and> w \<in> set (edges_at h l)))"
proof (induction ss arbitrary: work)
  case Nil
  then show ?case by simp
next
  case (Cons s ss)
  show ?case
  proof (cases "s < length (slots h) \<and> slot_location (slots h ! s) \<noteq> None")
    case False
    then have "\<not> (\<exists>l<length (objects h). ho_slot (objects h ! l) = s)"
      using slots_wfD(4,5) [OF wf] by auto
    then have "l < length (objects h) \<Longrightarrow> ho_slot (objects h ! l) \<in> set (s # ss) \<longleftrightarrow>
        ho_slot (objects h ! l) \<in> set ss" for l by auto
    moreover have "remembered_edges h (s # ss) work = remembered_edges h ss work"
      using False by (auto split: option.splits)
    ultimately show ?thesis using Cons.IH [of work] by (simp del: remembered_edges.simps cong: conj_cong)
  next
    case True
    then obtain l where l: "slot_location (slots h ! s) = Some l" by auto
    then have ll: "l < length (objects h)" "ho_slot (objects h ! l) = s"
      using slots_wfD(6) [OF wf _ l] True by auto
    have other: "k = l" if "k < length (objects h)" "ho_slot (objects h ! k) = s" for k
      using slots_wfD(5) [OF wf that(1)] that(2) l by simp
    have "remembered_edges h (s # ss) work = remembered_edges h ss (rev (edges_at h l) @ work)"
      using True l ll by (simp add: index_at_def entry_edges_def edges_at_def handle_at_def)
    then show ?thesis using Cons.IH [of "rev (edges_at h l) @ work"] ll other by fastforce
  qed
qed

lemma collect_young_spec:
  assumes ok: "heap_ok h" and roots: "\<forall>v\<in>set roots. valid h v"
  shows "\<exists>stats h'. collect_young h roots = (Ok stats, h') \<and> collected True h roots h'"
proof -
  have wf: "slots_wf h" and cl: "heap_closed h" and rem: "remembered_ok h"
    using ok by (auto simp: heap_ok_def)
  have old: "\<not> young_at h l" if "ho_slot (objects h ! l) \<in> set (remembered h)" "l < length (objects h)" for l
    using rem that slots_wfD(5) [OF wf] unfolding remembered_ok_def by (metis option.inject)
  obtain work where work: "remembered_edges h (remembered h) (initial_work h roots) = Ok work"
    "\<forall>w. w \<in> set work \<longleftrightarrow> w \<in> set (initial_work h roots) \<or>
      (\<exists>l<length (objects h). ho_slot (objects h ! l) \<in> set (remembered h) \<and> w \<in> set (edges_at h l))"
    using remembered_edges_Ok [OF wf] by blast
  have "\<forall>v\<in>set work. valid h v"
    using work(2) roots cl by (auto simp: heap_closed_def)
  then obtain m where m: "mark_loop True h (no_marks h) work = Ok m" "marks_le (no_marks h) m"
    "\<forall>v\<in>set work. \<forall>k. location h v = Some k \<longrightarrow> eligible True h k \<longrightarrow> m ! k"
    using mark_loop_Ok [OF wf cl length_no_marks, of work True] by blast
  have len: "length m = length (objects h)" using m(2) by (simp add: marks_le_def)
  have "marks_closed (young_at h) h m []"
    by (rule mark_loop_closed [OF wf length_no_marks m(1)]) (simp_all add: eligible_def)
  moreover have "m ! k" if "l < length (objects h)" "\<not> young_at h l" "w \<in> set (edges_at h l)"
    "location h w = Some k" "young_at h k" for l w k
  proof -
    have "ho_slot (objects h ! l) \<in> set (remembered h)" using rem that unfolding remembered_ok_def by blast
    then have "w \<in> set work" using work(2) that(1,3) by blast
    then show ?thesis using m(3) that(4,5) by (simp add: eligible_def)
  qed
  moreover have "reaches h (sources True h roots h) (handle_at h l)" if "l < length (objects h)" "m ! l" for l
  proof -
    have "reaches h (set work) (handle_at h l)"
      using mark_loop_reaches [OF wf length_no_marks m(1), of l] that by (simp add: no_marks_def)
    then show ?thesis
    proof (rule reaches_trans)
      fix w assume "w \<in> set work"
      then consider "w \<in> set (initial_work h roots)" | k where "k < length (objects h)"
        "ho_slot (objects h ! k) \<in> set (remembered h)" "w \<in> set (edges_at h k)"
        using work(2) by blast
      then show "reaches h (sources True h roots h) w"
      proof cases
        case 1
        then show ?thesis by (auto simp: sources_def intro: reaches.root)
      next
        case 2
        then have "handle_at h k \<in> sources True h roots h" using old by (auto simp: sources_def old_handles_def)
        then show ?thesis
          by (rule reaches.edge [OF reaches.root location_handle_at [OF wf 2(1)] 2(3)])
      qed
    qed
  qed
  ultimately have "\<exists>stats h'. finish_collection h m True = (Ok stats, h') \<and> collected True h roots h'"
    using m(3) work(2) by (intro finish_collection_spec [OF ok len]) auto
  then show ?thesis using work(1) m(1) by (auto simp: collect_young_def)
qed

end
