(* ===== verification/Mutators.thy ===== *)
theory Mutators
  imports Heap_Invariant
begin

text \<open>
  The contract of a managed mutation, as a locale, and the operations of the heap that satisfy it.
  A mutator may extend the remembered set and replace one object. The replaced object keeps its
  kind, its new edges are old edges or among the values the mutator was handed, and an edge from an
  old object into the nursery leaves its owner remembered.
\<close>

section \<open>Barriers\<close>

definition barrier_le :: "heap \<Rightarrow> tvalue \<Rightarrow> tvalue list \<Rightarrow> nat list \<Rightarrow> bool" where
  "barrier_le h owner vs R \<longleftrightarrow> set (remembered h) \<subseteq> set R \<and>
     (\<forall>l w k. location h owner = Some l \<longrightarrow> w \<in> set vs \<longrightarrow> location h w = Some k \<longrightarrow>
        \<not> young_at h l \<longrightarrow> young_at h k \<longrightarrow> ho_slot (objects h ! l) \<in> set R) \<and>
     (\<forall>s\<in>set R. s \<in> set (remembered h) \<or>
        (\<exists>l. location h owner = Some l \<and> \<not> young_at h l \<and> s = ho_slot (objects h ! l)))"

lemma remembered_update_same:
  "location (h\<lparr>remembered := R\<rparr>) = location h" "edges_at (h\<lparr>remembered := R\<rparr>) = edges_at h"
  "valid (h\<lparr>remembered := R\<rparr>) = valid h" "handle_at (h\<lparr>remembered := R\<rparr>) = handle_at h"
  "slots_wf (h\<lparr>remembered := R\<rparr>) = slots_wf h" "young_at (h\<lparr>remembered := R\<rparr>) = young_at h"
  "try_get (h\<lparr>remembered := R\<rparr>) = try_get h"
  by (simp_all add: fun_eq_iff location_def edges_at_def valid_def handle_at_def slots_wf_def young_at_def
      try_get_def trace_external_fields_def cong: option.case_cong if_cong)

lemma write_barrier_Ok:
  assumes wf: "slots_wf h"
  shows "\<exists>R. write_barrier h owner v = (Ok (), h\<lparr>remembered := R\<rparr>) \<and> barrier_le h owner [v] R"
proof (cases "location h owner")
  case None
  then show ?thesis
    by (intro exI [of _ "remembered h"]) (simp add: write_barrier_def barrier_le_def)
next
  case (Some l)
  have l: "l < length (objects h)" using location_in_range [OF wf Some] .
  show ?thesis
  proof (cases "location h v")
    case None
    then show ?thesis using Some
      by (intro exI [of _ "remembered h"]) (simp add: write_barrier_def barrier_le_def)
  next
    case (Some k)
    have k: "k < length (objects h)" using location_in_range [OF wf Some] .
    show ?thesis
    proof (cases "\<not> young_at h l \<and> young_at h k")
      case True
      then show ?thesis
        using Some \<open>location h owner = Some l\<close> l k
        by (intro exI [of _ "List.insert (ho_slot (objects h ! l)) (remembered h)"])
          (auto simp: write_barrier_def barrier_le_def young_at_def)
    next
      case False
      then show ?thesis
        using Some \<open>location h owner = Some l\<close> l k
        by (intro exI [of _ "remembered h"]) (auto simp: write_barrier_def barrier_le_def young_at_def)
    qed
  qed
qed

lemma barrier_le_trans:
  "barrier_le h owner vs R \<Longrightarrow> barrier_le (h\<lparr>remembered := R\<rparr>) owner ws S \<Longrightarrow> barrier_le h owner (vs @ ws) S"
  unfolding barrier_le_def remembered_update_same by simp blast

lemma write_barriers_Ok:
  "slots_wf h \<Longrightarrow> \<exists>R. write_barriers h owner vs = (Ok (), h\<lparr>remembered := R\<rparr>) \<and> barrier_le h owner vs R"
proof (induction vs arbitrary: h)
  case Nil
  then show ?case by (intro exI [of _ "remembered h"]) (simp add: barrier_le_def)
next
  case (Cons v vs)
  obtain R where R: "write_barrier h owner v = (Ok (), h\<lparr>remembered := R\<rparr>)" "barrier_le h owner [v] R"
    using write_barrier_Ok [OF Cons.prems] by blast
  have "slots_wf (h\<lparr>remembered := R\<rparr>)" using Cons.prems by (simp add: remembered_update_same)
  from Cons.IH [OF this] obtain S where "write_barriers (h\<lparr>remembered := R\<rparr>) owner vs = (Ok (), h\<lparr>remembered := S\<rparr>)"
    "barrier_le (h\<lparr>remembered := R\<rparr>) owner vs S" by auto
  then show ?case using R barrier_le_trans [OF R(2)] by force
qed

section \<open>Mutations\<close>

text \<open>What the heap needs of a replaced object: an instance keeps its class, a class its ancestors.
  The mutators of heap.rs keep more: they change no attributes, no class and no builtin.\<close>

definition keeps_kind :: "object \<Rightarrow> object \<Rightarrow> bool" where
  "keeps_kind ob ob' \<longleftrightarrow> map_option fst (instance_parts ob') = map_option fst (instance_parts ob) \<and>
     (\<forall>c. ob = ObjClass c \<longrightarrow> (\<exists>c'. ob' = ObjClass c' \<and> cls_mro c' = cls_mro c))"

definition same_kind :: "object \<Rightarrow> object \<Rightarrow> bool" where
  "same_kind ob ob' \<longleftrightarrow> instance_parts ob' = instance_parts ob \<and>
     ((\<exists>c. ob = ObjClass c) \<or> (\<exists>c. ob' = ObjClass c) \<or> (\<exists>c. ob = ObjNamespace c) \<or>
      (\<exists>c. ob' = ObjNamespace c) \<or> (\<exists>b. ob = ObjBuiltin b) \<or> (\<exists>b. ob' = ObjBuiltin b) \<longrightarrow> ob' = ob)"

lemma same_kind_refl [simp]: "same_kind ob ob" "keeps_kind ob ob"
  by (simp_all add: same_kind_def keeps_kind_def)

lemma same_keeps_kind: "same_kind ob ob' \<Longrightarrow> keeps_kind ob ob'"
proof -
  assume same: "same_kind ob ob'"
  then have "map_option fst (instance_parts ob') = map_option fst (instance_parts ob)"
    by (simp only: same_kind_def)
  moreover have "\<forall>c. ob = ObjClass c \<longrightarrow> ob' = ObjClass c" using same unfolding same_kind_def by blast
  ultimately show ?thesis by (simp add: keeps_kind_def)
qed

definition changed :: "(object \<Rightarrow> object \<Rightarrow> bool) \<Rightarrow> heap \<Rightarrow> tvalue \<Rightarrow> tvalue list \<Rightarrow> heap \<Rightarrow> bool" where
  "changed kind h owner vs h' \<longleftrightarrow> h' = h \<or> (\<exists>R. barrier_le h owner vs R \<and>
     (h' = h\<lparr>remembered := R\<rparr> \<or> (\<exists>l ob. location h owner = Some l \<and>
        kind (ho_object (objects h ! l)) ob \<and>
        set (object_trace ob) \<subseteq> set (object_trace (ho_object (objects h ! l))) \<union> set vs \<and>
        h' = h\<lparr>remembered := R, objects := (objects h)[l := (objects h ! l)\<lparr>ho_object := ob\<rparr>]\<rparr>)))"

abbreviation mutated :: "heap \<Rightarrow> tvalue \<Rightarrow> tvalue list \<Rightarrow> heap \<Rightarrow> bool" where
  "mutated \<equiv> changed same_kind"

lemma object_update_same:
  assumes "h' = h\<lparr>remembered := R, objects := (objects h)[l := (objects h ! l)\<lparr>ho_object := ob\<rparr>]\<rparr>"
  shows "location h' = location h" "handle_at h' k = handle_at h k" "young_at h' k = young_at h k"
    "length (objects h') = length (objects h)" "valid h' = valid h"
    "k \<noteq> l \<Longrightarrow> edges_at h' k = edges_at h k" "ho_slot (objects h' ! k) = ho_slot (objects h ! k)"
    "l < length (objects h) \<Longrightarrow> edges_at h' l = object_trace ob @ trace_external_fields h (handle_at h l)"
    "slots_wf h' = slots_wf h"
proof -
  have len: "length (objects h') = length (objects h)" "slots h' = slots h" "free_slots h' = free_slots h"
    "external_fields h' = external_fields h"
    and obj: "objects h' = (objects h)[l := (objects h ! l)\<lparr>ho_object := ob\<rparr>]"
    unfolding assms by simp_all
  have eq: "objects h' ! k = (if k = l \<and> l < length (objects h) then (objects h ! l)\<lparr>ho_object := ob\<rparr>
      else objects h ! k)" for k
    unfolding obj by (auto simp: nth_list_update list_update_beyond not_less)
  have e: "ho_slot (objects h' ! k) = ho_slot (objects h ! k)"
    "ho_young (objects h' ! k) = ho_young (objects h ! k)" for k
    unfolding eq by simp_all
  have loc: "location h' = location h"
    unfolding location_def len by simp
  have val: "valid h' = valid h" unfolding valid_def loc by simp
  have hd: "handle_at h' k = handle_at h k" for k
    unfolding handle_at_def e len by simp
  have wf: "slots_wf h' = slots_wf h"
    unfolding slots_wf_def len e by simp
  show "location h' = location h" "handle_at h' k = handle_at h k" "young_at h' k = young_at h k"
    "length (objects h') = length (objects h)" "valid h' = valid h"
    "ho_slot (objects h' ! k) = ho_slot (objects h ! k)" "slots_wf h' = slots_wf h"
    unfolding young_at_def e by (rule loc hd len(1) val wf refl)+
  have tr: "trace_external_fields h' = trace_external_fields h"
    unfolding trace_external_fields_def len by simp
  show "k \<noteq> l \<Longrightarrow> edges_at h' k = edges_at h k"
    unfolding edges_at_def hd tr eq by simp
  show "l < length (objects h) \<Longrightarrow> edges_at h' l = object_trace ob @ trace_external_fields h (handle_at h l)"
    unfolding edges_at_def hd tr eq by simp
qed

lemma heap_class_changed:
  assumes wf: "slots_wf h" and l: "location h owner = Some l"
    and kind: "keeps_kind (ho_object (objects h ! l)) ob"
    and h': "h' = h\<lparr>remembered := R, objects := (objects h)[l := (objects h ! l)\<lparr>ho_object := ob\<rparr>]\<rparr>"
    and c: "heap_class h c = Ok k"
  shows "\<exists>k'. heap_class h' c = Ok k' \<and> cls_mro k' = cls_mro k"
proof -
  obtain m where m: "location h c = Some m" "ho_object (objects h ! m) = ObjClass k" "m < length (objects h)"
    using heap_class_located [OF wf c] by blast
  obtain k' where "ho_object (objects h' ! m) = ObjClass k'" "cls_mro k' = cls_mro k"
    using m kind h' by (cases "m = l") (auto simp: keeps_kind_def)
  then show ?thesis
    using m object_update_same(1,4) [OF h'] by (simp add: heap_class_def heap_get_def ok_or_def try_get_def)
qed

text \<open>A mutation with valid values keeps the invariant of the heap, moves nothing, and changes no
  other object.\<close>

lemma changed_heap_ok:
  assumes ok: "heap_ok h" and m: "changed kind h owner vs h'" and keeps: "\<And>ob ob'. kind ob ob' \<Longrightarrow> keeps_kind ob ob'"
    and vs: "\<forall>v\<in>set vs. valid h v"
  shows "heap_ok h'"
proof -
  have wf: "slots_wf h" and cl: "heap_closed h" and rem: "remembered_ok h" and cls: "classes_ok h"
    using ok by (auto simp: heap_ok_def)
  show ?thesis
  proof (cases "h' = h")
    case True
    then show ?thesis using ok by simp
  next
  case False
  obtain R where R: "barrier_le h owner vs R" and cases: "h' = h\<lparr>remembered := R\<rparr> \<or> (\<exists>l ob. location h owner = Some l \<and>
        kind (ho_object (objects h ! l)) ob \<and>
        set (object_trace ob) \<subseteq> set (object_trace (ho_object (objects h ! l))) \<union> set vs \<and>
        h' = h\<lparr>remembered := R, objects := (objects h)[l := (objects h ! l)\<lparr>ho_object := ob\<rparr>]\<rparr>)"
    using m False unfolding changed_def by blast
  have owner_R: "\<forall>s\<in>set R. \<exists>l<length (objects h). ho_slot (objects h ! l) = s \<and> \<not> young_at h l"
    using R rem location_in_range [OF wf] unfolding barrier_le_def remembered_ok_def by blast
  from cases show ?thesis
  proof (elim disjE exE conjE)
    assume h': "h' = h\<lparr>remembered := R\<rparr>"
    have hc: "heap_class h' = heap_class h"
      by (simp add: h' fun_eq_iff heap_class_def heap_get_def remembered_update_same)
    have "class_chain_ok h' c = class_chain_ok h c" for c
      unfolding class_chain_ok_def is_class_def hc ..
    then have "classes_ok h'"
      using cls unfolding classes_ok_def by (simp add: h')
    then show ?thesis
      using ok R owner_R
      by (auto simp: heap_ok_def h' remembered_update_same heap_closed_def remembered_ok_def barrier_le_def)
  next
    fix l ob assume l: "location h owner = Some l" and kind0: "kind (ho_object (objects h ! l)) ob"
      and tr: "set (object_trace ob) \<subseteq> set (object_trace (ho_object (objects h ! l))) \<union> set vs"
      and h': "h' = h\<lparr>remembered := R, objects := (objects h)[l := (objects h ! l)\<lparr>ho_object := ob\<rparr>]\<rparr>"
    have kind: "keeps_kind (ho_object (objects h ! l)) ob" using keeps [OF kind0] .
    note same = object_update_same [OF h']
    have ll: "l < length (objects h)" using location_in_range [OF wf l] .
    have edges: "v \<in> set (edges_at h k) \<or> k = l \<and> v \<in> set vs" if "v \<in> set (edges_at h' k)" for k v
      using that tr same(6) [of k] same(8) [OF ll] by (cases "k = l") (auto simp: edges_at_def [of h])
    have "heap_closed h'"
      using cl vs edges h' unfolding heap_closed_def same by (simp add: same) blast
    moreover have "remembered_ok h'"
      unfolding remembered_ok_def same
    proof (intro conjI allI impI ballI)
      fix k v j assume k: "k < length (objects h)" "\<not> young_at h k" "v \<in> set (edges_at h' k)"
        "location h v = Some j" "young_at h j"
      show "ho_slot (objects h ! k) \<in> set (remembered h')"
        using edges [OF k(3)] k rem R l unfolding remembered_ok_def barrier_le_def by (auto simp: h')
    qed (use owner_R in \<open>simp add: h'\<close>)
    moreover have "classes_ok h'"
      unfolding classes_ok_def
    proof (intro allI impI)
      fix k cv a assume k: "k < length (objects h')" "instance_parts (ho_object (objects h' ! k)) = Some (cv, a)"
      have "map_option fst (instance_parts (ho_object (objects h' ! k)))
          = map_option fst (instance_parts (ho_object (objects h ! k)))"
        using kind ll by (cases "k = l") (auto simp: h' keeps_kind_def)
      then obtain a' where "instance_parts (ho_object (objects h ! k)) = Some (cv, a')"
        using k(2) by (cases "instance_parts (ho_object (objects h ! k))") auto
      then have "class_chain_ok h cv" using cls k(1) same(4) unfolding classes_ok_def by auto
      then show "class_chain_ok h' cv"
        using heap_class_changed [OF wf l kind h']
        by (fastforce simp: class_chain_ok_def is_class_def is_ok_iff split: res.splits)
    qed
    ultimately show ?thesis using wf same(9) by (simp add: heap_ok_def)
  qed
  qed
qed

lemma mutated_heap_ok: "heap_ok h \<Longrightarrow> mutated h owner vs h' \<Longrightarrow> \<forall>v\<in>set vs. valid h v \<Longrightarrow> heap_ok h'"
  by (rule changed_heap_ok [OF _ _ same_keeps_kind])

section \<open>Guarded replacements\<close>

text \<open>\<open>replaces vs f\<close>: the update \<open>f\<close> of an object never panics, keeps its kind, and adds no edges
  but to \<open>vs\<close>. \<open>barred\<close> is the shape of a mutator: barriers first, then the update.\<close>

definition replaces :: "tvalue list \<Rightarrow> (object \<Rightarrow> ('a \<times> object) res) \<Rightarrow> bool" where
  "replaces vs f \<longleftrightarrow> (\<forall>ob. clean (f ob) \<and> (\<forall>x ob'. f ob = Ok (x, ob') \<longrightarrow>
     same_kind ob ob' \<and> set (object_trace ob') \<subseteq> set (object_trace ob) \<union> set vs))"

definition barred :: "heap \<Rightarrow> tvalue \<Rightarrow> tvalue list \<Rightarrow> (object \<Rightarrow> ('a \<times> object) res) \<Rightarrow> ('a, heap) run" where
  "barred h owner vs f = run_then (write_barriers h owner vs) (\<lambda>_ h1. with_object h1 owner f)"

lemma run_then_unit: "run_then m (\<lambda>_ s. (Ok (), s)) = m"
  by (cases m; cases "fst m") simp_all

lemma write_barriers_single: "write_barrier h owner v = write_barriers h owner [v]"
  by (simp add: run_then_unit)

lemma with_object_barred: "with_object h owner f = barred h owner [] f"
  by (simp add: barred_def)

lemma write_barrier_barred:
  "run_then (write_barrier h owner v) (\<lambda>_ h1. with_object h1 owner f) = barred h owner [v] f"
  by (simp only: barred_def write_barriers_single)

lemma barred_mutated:
  assumes wf: "slots_wf h" and f: "replaces vs f"
  shows "mutated h owner vs (snd (barred h owner vs f)) \<and> clean (fst (barred h owner vs f))"
proof -
  obtain R where w: "write_barriers h owner vs = (Ok (), h\<lparr>remembered := R\<rparr>)" and R: "barrier_le h owner vs R"
    using write_barriers_Ok [OF wf] by blast
  let ?h = "h\<lparr>remembered := R\<rparr>"
  have run: "barred h owner vs f = with_object ?h owner f" using w by (simp add: barred_def)
  show ?thesis
  proof (cases "location h owner")
    case None
    then show ?thesis using R by (auto simp: run with_object_def remembered_update_same changed_def)
  next
    case (Some l)
    have l: "l < length (objects h)" using location_in_range [OF wf Some] .
    let ?ob = "ho_object (objects h ! l)"
    from f have "clean (f ?ob)" by (simp add: replaces_def)
    then show ?thesis
    proof (cases rule: cleanE)
      case (1 p)
      obtain x ob' where p: "p = (x, ob')" by force
      then have "same_kind ?ob ob'" "set (object_trace ob') \<subseteq> set (object_trace ?ob) \<union> set vs"
        using f 1 by (auto simp: replaces_def)
      then show ?thesis
        using Some l 1 p R by (auto simp: run with_object_def remembered_update_same changed_def)
    next
      case (2 d)
      then show ?thesis
        using Some l R by (auto simp: run with_object_def remembered_update_same changed_def)
    qed
  qed
qed

lemma mutated_refl: "changed kind h owner vs h"
  by (simp add: changed_def)

lemma mutated_same:
  assumes wf: "slots_wf h" and m: "changed kind h owner vs h'"
  shows "location h' = location h" "slots_wf h'" "length (objects h') = length (objects h)"
    "location h owner \<noteq> Some k \<Longrightarrow> objects h' ! k = objects h ! k"
    "young_at h' k = young_at h k" "handle_at h' k = handle_at h k"
  using m unfolding changed_def
  by (auto simp: remembered_update_same object_update_same [OF refl] wf nth_list_update)

section \<open>The contract\<close>

text \<open>What the runtime may assume of every operation that changes one managed object: \<open>step\<close> is the
  operation, \<open>owner\<close> the object it changes, \<open>incoming\<close> the values it may store there.\<close>

locale mutator =
  fixes step :: "heap \<Rightarrow> 'a \<Rightarrow> ('b, heap) run"
    and owner :: "heap \<Rightarrow> 'a \<Rightarrow> tvalue"
    and incoming :: "'a \<Rightarrow> tvalue list"
  assumes step_mutated: "slots_wf h \<Longrightarrow> mutated h (owner h a) (incoming a) (snd (step h a))"
    and step_clean: "slots_wf h \<Longrightarrow> clean (fst (step h a))"
begin

lemma step_heap_ok:
  "heap_ok h \<Longrightarrow> \<forall>v\<in>set (incoming a). valid h v \<Longrightarrow> heap_ok (snd (step h a))"
  using mutated_heap_ok [OF _ step_mutated] by (simp add: heap_ok_def)

lemma step_location: "slots_wf h \<Longrightarrow> location (snd (step h a)) = location h"
  by (rule mutated_same(1) [OF _ step_mutated])

lemma step_frame:
  "slots_wf h \<Longrightarrow> location h (owner h a) \<noteq> Some k \<Longrightarrow> objects (snd (step h a)) ! k = objects h ! k"
  by (rule mutated_same(4) [OF _ step_mutated])

end

text \<open>An operation of the shape of \<open>barred\<close> keeps the contract.\<close>

lemma mutator_barred:
  assumes "\<And>h a. step h a = barred h (owner h a) (incoming a) (f a)"
    and "\<And>a. replaces (incoming a) (f a)"
  shows "mutator step owner incoming"
  by unfold_locales (simp_all add: assms barred_mutated)

definition replaced :: "tvalue list \<Rightarrow> object \<Rightarrow> ('a \<times> object) res \<Rightarrow> bool" where
  "replaced vs ob m \<longleftrightarrow> clean m \<and> (\<forall>x ob'. m = Ok (x, ob') \<longrightarrow>
     same_kind ob ob' \<and> set (object_trace ob') \<subseteq> set (object_trace ob) \<union> set vs)"

lemma replacesI: "(\<And>ob. replaced vs ob (f ob)) \<Longrightarrow> replaces vs f"
  by (simp add: replaces_def replaced_def)

section \<open>Lists, modules, cells and exceptions\<close>

lemma set_opt: "set (case_option [] (\<lambda>y. [y]) x) = set_option x"
  by (cases x) simp_all

lemmas replaces_simps = replaced_def same_kind_def instance_parts_def object_trace_def set_opt expected_exception_def

lemma set_member_values: "x \<in> set (set_member name v ms) \<Longrightarrow> x = (name, v) \<or> x \<in> set ms"
  by (induction name v ms rule: set_member.induct) (auto split: if_splits)

lemma set_remove_at: "x \<in> set (remove_at i xs) \<Longrightarrow> x \<in> set xs"
  by (auto simp: remove_at_def dest: in_set_takeD in_set_dropD)

lemma replaces_append_list: "replaces ([v]) (\<lambda>ob. case ob of ObjList vs \<Rightarrow> Ok ((), ObjList (vs @ [v]))
       | _ \<Rightarrow> fail ''TypeError'' ''expected list'')"
proof (rule replacesI)
  fix ob show "replaced ([v]) ob (case ob of ObjList vs \<Rightarrow> Ok ((), ObjList (vs @ [v]))
       | _ \<Rightarrow> fail ''TypeError'' ''expected list'')"
    by (cases ob) (auto simp: replaces_simps)+
qed

interpretation append_list: mutator "\<lambda>h (owner, v). append_list h owner v"
  "\<lambda>h (owner, v). native_value h owner" "\<lambda>(owner, v). [v]"
  by (rule mutator_barred [where f = "\<lambda>(owner, v) ob. case ob of ObjList vs \<Rightarrow> Ok ((), ObjList (vs @ [v]))
       | _ \<Rightarrow> fail ''TypeError'' ''expected list''"])
    (auto simp: append_list_def Let_def write_barrier_barred intro: replaces_append_list)

lemma replaces_add_module_member: "replaces ([v]) (\<lambda>ob. case ob of ObjModule ms \<Rightarrow> Ok ((), ObjModule (set_member name v ms))
       | _ \<Rightarrow> fail ''TypeError'' ''expected module'')"
proof (rule replacesI)
  fix ob show "replaced ([v]) ob (case ob of ObjModule ms \<Rightarrow> Ok ((), ObjModule (set_member name v ms))
       | _ \<Rightarrow> fail ''TypeError'' ''expected module'')"
    by (cases ob) (force simp: replaces_simps dest: set_member_values)+
qed

interpretation add_module_member: mutator "\<lambda>h (owner, name, v). add_module_member h owner name v"
  "\<lambda>h (owner, name, v). owner" "\<lambda>(owner, name, v). [v]"
  by (rule mutator_barred [where f = "\<lambda>(owner, name, v) ob. case ob of ObjModule ms \<Rightarrow> Ok ((), ObjModule (set_member name v ms))
       | _ \<Rightarrow> fail ''TypeError'' ''expected module''"])
    (auto simp: add_module_member_def write_barrier_barred intro: replaces_add_module_member)

lemma replaces_delete_module_member: "replaces ([]) (\<lambda>ob. case ob of ObjModule ms \<Rightarrow> (case position (\<lambda>(member, _). member = name) ms of
             None \<Rightarrow> fail ''AttributeError'' (''module has no attribute '' @ [char_of (39 :: nat)] @ name @ [char_of (39 :: nat)])
           | Some i \<Rightarrow> Ok ((), ObjModule (remove_at i ms)))
       | _ \<Rightarrow> fail ''TypeError'' ''expected module'')"
proof (rule replacesI)
  fix ob show "replaced ([]) ob (case ob of ObjModule ms \<Rightarrow> (case position (\<lambda>(member, _). member = name) ms of
             None \<Rightarrow> fail ''AttributeError'' (''module has no attribute '' @ [char_of (39 :: nat)] @ name @ [char_of (39 :: nat)])
           | Some i \<Rightarrow> Ok ((), ObjModule (remove_at i ms)))
       | _ \<Rightarrow> fail ''TypeError'' ''expected module'')"
    by (cases ob) (force simp: replaces_simps dest: set_remove_at split: option.splits)+
qed

interpretation delete_module_member: mutator "\<lambda>h (owner, name). delete_module_member h owner name"
  "\<lambda>h (owner, name). owner" "\<lambda>(owner, name). []"
  by (rule mutator_barred [where f = "\<lambda>(owner, name) ob. case ob of ObjModule ms \<Rightarrow> (case position (\<lambda>(member, _). member = name) ms of
             None \<Rightarrow> fail ''AttributeError'' (''module has no attribute '' @ [char_of (39 :: nat)] @ name @ [char_of (39 :: nat)])
           | Some i \<Rightarrow> Ok ((), ObjModule (remove_at i ms)))
       | _ \<Rightarrow> fail ''TypeError'' ''expected module''"])
    (auto simp: delete_module_member_def with_object_barred intro: replaces_delete_module_member)

lemma replaces_reset_module_members: "replaces ([]) (\<lambda>ob. case ob of ObjModule ms \<Rightarrow> Ok ((), ObjModule (filter (\<lambda>(name, _). name = ''__name__'' \<or> name = ''__file__'') ms))
       | _ \<Rightarrow> fail ''TypeError'' ''expected module'')"
proof (rule replacesI)
  fix ob show "replaced ([]) ob (case ob of ObjModule ms \<Rightarrow> Ok ((), ObjModule (filter (\<lambda>(name, _). name = ''__name__'' \<or> name = ''__file__'') ms))
       | _ \<Rightarrow> fail ''TypeError'' ''expected module'')"
    by (cases ob) (auto simp: replaces_simps)+
qed

interpretation reset_module_members: mutator "\<lambda>h owner. reset_module_members h owner"
  "\<lambda>h owner. owner" "\<lambda>owner. []"
  by (rule mutator_barred [where f = "\<lambda>owner ob. case ob of ObjModule ms \<Rightarrow> Ok ((), ObjModule (filter (\<lambda>(name, _). name = ''__name__'' \<or> name = ''__file__'') ms))
       | _ \<Rightarrow> fail ''TypeError'' ''expected module''"])
    (auto simp: reset_module_members_def with_object_barred intro: replaces_reset_module_members)

lemma replaces_store_cell: "replaces ([v]) (\<lambda>ob. case ob of ObjCell _ \<Rightarrow> Ok ((), ObjCell v)
       | _ \<Rightarrow> fail ''BytecodeError'' ''expected closure cell'')"
proof (rule replacesI)
  fix ob show "replaced ([v]) ob (case ob of ObjCell _ \<Rightarrow> Ok ((), ObjCell v)
       | _ \<Rightarrow> fail ''BytecodeError'' ''expected closure cell'')"
    by (cases ob) (auto simp: replaces_simps)+
qed

interpretation store_cell: mutator "\<lambda>h (owner, v). store_cell h owner v"
  "\<lambda>h (owner, v). owner" "\<lambda>(owner, v). [v]"
  by (rule mutator_barred [where f = "\<lambda>(owner, v) ob. case ob of ObjCell _ \<Rightarrow> Ok ((), ObjCell v)
       | _ \<Rightarrow> fail ''BytecodeError'' ''expected closure cell''"])
    (auto simp: store_cell_def write_barrier_barred intro: replaces_store_cell)

lemma replaces_set_exception_cause: "replaces (opt cause) (\<lambda>ob. case ob of ObjException e \<Rightarrow> Ok ((), ObjException (e\<lparr>exc_cause := cause, exc_suppress_context := suppress\<rparr>))
       | _ \<Rightarrow> expected_exception)"
proof (rule replacesI)
  fix ob show "replaced (opt cause) ob (case ob of ObjException e \<Rightarrow> Ok ((), ObjException (e\<lparr>exc_cause := cause, exc_suppress_context := suppress\<rparr>))
       | _ \<Rightarrow> expected_exception)"
    by (cases ob) (auto simp: replaces_simps)+
qed

interpretation set_exception_cause: mutator "\<lambda>h (owner, cause, suppress). set_exception_cause h owner cause suppress"
  "\<lambda>h (owner, cause, suppress). owner" "\<lambda>(owner, cause, suppress). opt cause"
  by (rule mutator_barred [where f = "\<lambda>(owner, cause, suppress) ob. case ob of ObjException e \<Rightarrow> Ok ((), ObjException (e\<lparr>exc_cause := cause, exc_suppress_context := suppress\<rparr>))
       | _ \<Rightarrow> expected_exception"])
    (auto simp: set_exception_cause_def barred_def intro: replaces_set_exception_cause)

lemma replaces_set_exception_context: "replaces ([ctx]) (\<lambda>ob. case ob of ObjException e \<Rightarrow> Ok ((), ObjException
         (if exc_context e = None then e\<lparr>exc_context := Some ctx\<rparr> else e))
       | _ \<Rightarrow> expected_exception)"
proof (rule replacesI)
  fix ob show "replaced ([ctx]) ob (case ob of ObjException e \<Rightarrow> Ok ((), ObjException
         (if exc_context e = None then e\<lparr>exc_context := Some ctx\<rparr> else e))
       | _ \<Rightarrow> expected_exception)"
    by (cases ob) (auto simp: replaces_simps)+
qed

interpretation set_exception_context: mutator "\<lambda>h (owner, ctx). set_exception_context h owner ctx"
  "\<lambda>h (owner, ctx). owner" "\<lambda>(owner, ctx). [ctx]"
  by (rule mutator_barred [where f = "\<lambda>(owner, ctx) ob. case ob of ObjException e \<Rightarrow> Ok ((), ObjException
         (if exc_context e = None then e\<lparr>exc_context := Some ctx\<rparr> else e))
       | _ \<Rightarrow> expected_exception"])
    (auto simp: set_exception_context_def write_barrier_barred intro: replaces_set_exception_context)

lemma replaces_set_exception_traceback: "replaces (opt tb) (\<lambda>ob. case ob of ObjException e \<Rightarrow> Ok ((), ObjException (e\<lparr>exc_traceback := tb\<rparr>))
       | _ \<Rightarrow> expected_exception)"
proof (rule replacesI)
  fix ob show "replaced (opt tb) ob (case ob of ObjException e \<Rightarrow> Ok ((), ObjException (e\<lparr>exc_traceback := tb\<rparr>))
       | _ \<Rightarrow> expected_exception)"
    by (cases ob) (auto simp: replaces_simps)+
qed

interpretation set_exception_traceback: mutator "\<lambda>h (owner, tb). set_exception_traceback h owner tb"
  "\<lambda>h (owner, tb). owner" "\<lambda>(owner, tb). opt tb"
  by (rule mutator_barred [where f = "\<lambda>(owner, tb) ob. case ob of ObjException e \<Rightarrow> Ok ((), ObjException (e\<lparr>exc_traceback := tb\<rparr>))
       | _ \<Rightarrow> expected_exception"])
    (auto simp: set_exception_traceback_def barred_def intro: replaces_set_exception_traceback)

text \<open>\<open>replace_list\<close> looks at the object before it runs the barriers.\<close>

lemma replaces_replace_list: "replaces vs (\<lambda>ob. case ob of
    ObjList _ \<Rightarrow> Ok ((), ObjList vs) | _ \<Rightarrow> fail ''TypeError'' ''expected list'')"
proof (rule replacesI)
  fix ob show "replaced vs ob (case ob of
      ObjList _ \<Rightarrow> Ok ((), ObjList vs) | _ \<Rightarrow> fail ''TypeError'' ''expected list'')"
    by (cases ob) (auto simp: replaces_simps)
qed

lemma replace_list_cases:
  assumes wf: "slots_wf h"
  obtains (barred) "replace_list h owner vs = barred h (native_value h owner) vs (\<lambda>ob. case ob of
      ObjList _ \<Rightarrow> Ok ((), ObjList vs) | _ \<Rightarrow> fail ''TypeError'' ''expected list'')"
  | (failed) d where "replace_list h owner vs = (Err d, h)"
proof -
  let ?o = "native_value h owner"
  obtain R where w: "write_barriers h ?o vs = (Ok (), h\<lparr>remembered := R\<rparr>)"
    using write_barriers_Ok [OF wf] by blast
  show thesis
  proof (cases "location h ?o")
    case None
    then show thesis
      by (intro failed) (simp add: replace_list_def heap_get_def ok_or_def try_get_location [OF wf])
  next
    case (Some l)
    show thesis
    proof (cases "\<exists>us. ho_object (objects h ! l) = ObjList us")
      case True
      then show thesis using Some location_in_range [OF wf Some]
        by (intro barred) (auto simp: replace_list_def heap_get_def ok_or_def try_get_location [OF wf]
          barred_def w with_object_def remembered_update_same)
    next
      case False
      then have "(case ho_object (objects h ! l) of ObjList _ \<Rightarrow> Ok ()
          | _ \<Rightarrow> fail ''TypeError'' ''expected list'') = fail ''TypeError'' ''expected list''"
        by (cases "ho_object (objects h ! l)") auto
      then show thesis using Some
        by (intro failed) (simp add: replace_list_def heap_get_def ok_or_def try_get_location [OF wf])
    qed
  qed
qed

interpretation replace_list: mutator "\<lambda>h (owner, vs). replace_list h owner vs"
  "\<lambda>h (owner, vs). native_value h owner" "\<lambda>(owner, vs). vs"
proof
  fix h and a :: "tvalue \<times> tvalue list" assume wf: "slots_wf h"
  obtain owner vs where a: "a = (owner, vs)" by force
  have "mutated h (native_value h owner) vs (snd (replace_list h owner vs)) \<and> clean (fst (replace_list h owner vs))"
    by (rule replace_list_cases [OF wf, of owner vs])
      (simp_all add: barred_mutated [OF wf replaces_replace_list] mutated_refl)
  then show "mutated h (case a of (owner, vs) \<Rightarrow> native_value h owner) (case a of (owner, vs) \<Rightarrow> vs)
      (snd (case a of (owner, vs) \<Rightarrow> replace_list h owner vs))"
    "clean (fst (case a of (owner, vs) \<Rightarrow> replace_list h owner vs))"
    by (simp_all add: a)
qed

end
