(* ===== verification/Suspension.thy ===== *)
theory Suspension
  imports Mutators
begin

text \<open>
  Suspended computations on the managed heap (crates/tonic-runtime/src/heap.rs): generators and
  coroutines, which hand their frame to the interpreter and take it back, the driver of an
  asynchronous generator, and futures and tasks with their waiters and callbacks.
\<close>

section \<open>Generators\<close>

record resumed_generator =
  res_code :: nat
  res_ip :: nat
  res_registers :: "tvalue list"
  res_cells :: "tvalue list"
  res_exception_stack :: "tvalue list"
  res_resume_register :: "nat option"
  res_yield_from :: "tvalue option"

record suspended_generator =
  sus_ip :: nat
  sus_registers :: "tvalue list"
  sus_cells :: "tvalue list"
  sus_exception_stack :: "tvalue list"
  sus_resume_register :: nat
  sus_yield_from :: "tvalue option"

definition is_kind :: "generator_kind set \<Rightarrow> heap \<Rightarrow> tvalue \<Rightarrow> bool" where
  "is_kind kinds h v = (case try_get h v of Some (ObjGenerator g) \<Rightarrow> gen_kind g \<in> kinds | _ \<Rightarrow> False)"

definition is_generator :: "heap \<Rightarrow> tvalue \<Rightarrow> bool" where
  "is_generator = is_kind {KindGenerator}"

definition is_coroutine :: "heap \<Rightarrow> tvalue \<Rightarrow> bool" where
  "is_coroutine = is_kind {KindCoroutine}"

definition is_async_generator :: "heap \<Rightarrow> tvalue \<Rightarrow> bool" where
  "is_async_generator = is_kind {KindAsyncGenerator}"

definition is_resumable :: "heap \<Rightarrow> tvalue \<Rightarrow> bool" where
  "is_resumable = is_kind {KindGenerator, KindCoroutine}"

definition coroutine_iterator_source :: "heap \<Rightarrow> tvalue \<Rightarrow> tvalue option" where
  "coroutine_iterator_source h v = (case try_get h v of
      Some (ObjCoroutineIterator _ coroutine) \<Rightarrow> Some coroutine | _ \<Rightarrow> None)"

definition heap_generator_state :: "heap \<Rightarrow> tvalue \<Rightarrow> generator_state option" where
  "heap_generator_state h v = (case try_get h v of
      Some (ObjGenerator g) \<Rightarrow> Some (gen_state g) | _ \<Rightarrow> None)"

definition heap_generator_kind :: "heap \<Rightarrow> tvalue \<Rightarrow> generator_kind option" where
  "heap_generator_kind h v = (case try_get h v of
      Some (ObjGenerator g) \<Rightarrow> Some (gen_kind g) | _ \<Rightarrow> None)"

definition generator_return_value :: "heap \<Rightarrow> tvalue \<Rightarrow> tvalue option" where
  "generator_return_value h v = (case try_get h v of
      Some (ObjGenerator g) \<Rightarrow> if gen_state g = GenCompleted then Some (gen_return_value g) else None
    | _ \<Rightarrow> None)"

definition generator_yield_from :: "heap \<Rightarrow> tvalue \<Rightarrow> tvalue option" where
  "generator_yield_from h v = (case try_get h v of
      Some (ObjGenerator g) \<Rightarrow> if gen_state g = GenSuspended then gen_yield_from g else None
    | _ \<Rightarrow> None)"

definition resume_object :: "nat \<Rightarrow> object \<Rightarrow> (resumed_generator \<times> object) res" where
  "resume_object execution ob = (case ob of
      ObjGenerator g \<Rightarrow>
        if gen_execution g \<noteq> execution
        then fail ''RuntimeError'' ''generator belongs to a previous module execution''
        else if gen_state g = GenCompleted then fail ''StopIteration'' ''''
        else if gen_state g = GenRunning then fail ''ValueError'' ''generator already executing''
        else Ok (\<lparr>res_code = gen_code g, res_ip = gen_ip g, res_registers = gen_registers g,
            res_cells = gen_cells g, res_exception_stack = gen_exception_stack g,
            res_resume_register = gen_resume_register g, res_yield_from = gen_yield_from g\<rparr>,
          ObjGenerator (g\<lparr>gen_state := GenRunning, gen_registers := [], gen_cells := [],
            gen_exception_stack := [], gen_resume_register := None, gen_yield_from := None\<rparr>))
    | _ \<Rightarrow> fail ''TypeError'' ''object is not a generator'')"

definition resume_generator :: "heap \<Rightarrow> tvalue \<Rightarrow> nat \<Rightarrow> (resumed_generator, heap) run" where
  "resume_generator h owner execution = with_object h owner (resume_object execution)"

definition suspended_values :: "suspended_generator \<Rightarrow> tvalue list" where
  "suspended_values s = sus_registers s @ sus_cells s @ sus_exception_stack s @ opt (sus_yield_from s)"

definition suspend_object :: "suspended_generator \<Rightarrow> object \<Rightarrow> (unit \<times> object) res" where
  "suspend_object s ob = (case ob of
      ObjGenerator g \<Rightarrow>
        if gen_state g \<noteq> GenRunning then fail ''RuntimeError'' ''generator is not running''
        else Ok ((), ObjGenerator (g\<lparr>gen_ip := sus_ip s, gen_registers := sus_registers s,
          gen_cells := sus_cells s, gen_exception_stack := sus_exception_stack s,
          gen_resume_register := Some (sus_resume_register s), gen_yield_from := sus_yield_from s,
          gen_state := GenSuspended\<rparr>))
    | _ \<Rightarrow> fail ''TypeError'' ''object is not a generator'')"

definition suspend_generator :: "heap \<Rightarrow> tvalue \<Rightarrow> suspended_generator \<Rightarrow> (unit, heap) run" where
  "suspend_generator h owner s =
     run_then (write_barriers h owner (suspended_values s)) (\<lambda>_ h1. with_object h1 owner (suspend_object s))"

definition complete_object :: "tvalue \<Rightarrow> object \<Rightarrow> (unit \<times> object) res" where
  "complete_object v ob = (case ob of
      ObjGenerator g \<Rightarrow> Ok ((), ObjGenerator (g\<lparr>gen_registers := [], gen_cells := [],
        gen_exception_stack := [], gen_yield_from := None, gen_async_driver := None,
        gen_return_value := v, gen_state := GenCompleted\<rparr>))
    | _ \<Rightarrow> fail ''TypeError'' ''object is not a generator'')"

definition complete_generator_with_value :: "heap \<Rightarrow> tvalue \<Rightarrow> tvalue \<Rightarrow> (unit, heap) run" where
  "complete_generator_with_value h owner v =
     run_then (write_barrier h owner v) (\<lambda>_ h1. with_object h1 owner (complete_object v))"

definition complete_generator :: "heap \<Rightarrow> tvalue \<Rightarrow> (unit, heap) run" where
  "complete_generator h owner = complete_generator_with_value h owner NONE"

section \<open>Asynchronous generators\<close>

definition async_generator_awaitable ::
  "heap \<Rightarrow> tvalue \<Rightarrow> (tvalue \<times> async_generator_operation \<times> async_generator_await_state) option" where
  "async_generator_awaitable h v = (case try_get h v of
      Some (ObjAsyncGeneratorAwaitable _ g operation state) \<Rightarrow> Some (g, operation, state)
    | _ \<Rightarrow> None)"

definition await_state_object :: "async_generator_await_state \<Rightarrow> object \<Rightarrow> (unit \<times> object) res" where
  "await_state_object state ob = (case ob of
      ObjAsyncGeneratorAwaitable c g operation _ \<Rightarrow> Ok ((), ObjAsyncGeneratorAwaitable c g operation state)
    | _ \<Rightarrow> fail ''TypeError'' ''object is not an async-generator awaitable'')"

definition set_async_generator_await_state ::
  "heap \<Rightarrow> tvalue \<Rightarrow> async_generator_await_state \<Rightarrow> (unit, heap) run" where
  "set_async_generator_await_state h owner state = with_object h owner (await_state_object state)"

definition claim_object :: "tvalue \<Rightarrow> object \<Rightarrow> (unit \<times> object) res" where
  "claim_object awaitable ob = (case ob of
      ObjGenerator g \<Rightarrow>
        if gen_kind g \<noteq> KindAsyncGenerator then fail ''TypeError'' ''object is not an async generator''
        else if (case gen_async_driver g of Some current \<Rightarrow> current \<noteq> awaitable | None \<Rightarrow> False)
        then fail ''RuntimeError'' ''asynchronous generator is already running''
        else Ok ((), ObjGenerator (g\<lparr>gen_async_driver := Some awaitable\<rparr>))
    | _ \<Rightarrow> fail ''TypeError'' ''object is not an async generator'')"

definition claim_async_generator_driver :: "heap \<Rightarrow> tvalue \<Rightarrow> tvalue \<Rightarrow> (unit, heap) run" where
  "claim_async_generator_driver h g awaitable =
     run_then (write_barrier h g awaitable) (\<lambda>_ h1. with_object h1 g (claim_object awaitable))"

definition release_object :: "tvalue \<Rightarrow> object \<Rightarrow> (unit \<times> object) res" where
  "release_object awaitable ob = (case ob of
      ObjGenerator g \<Rightarrow> Ok ((), if gen_async_driver g = Some awaitable
        then ObjGenerator (g\<lparr>gen_async_driver := None\<rparr>) else ob)
    | _ \<Rightarrow> fail ''TypeError'' ''object is not an async generator'')"

definition release_async_generator_driver :: "heap \<Rightarrow> tvalue \<Rightarrow> tvalue \<Rightarrow> (unit, heap) run" where
  "release_async_generator_driver h g awaitable = with_object h g (release_object awaitable)"

section \<open>Futures and tasks\<close>

definition heap_async_state :: "heap \<Rightarrow> tvalue \<Rightarrow> async_state option" where
  "heap_async_state h v = (case try_get h v of
      Some (ObjAsyncFuture f) \<Rightarrow> Some (fut_state f)
    | Some (ObjAsyncTask t) \<Rightarrow> Some (task_state t)
    | _ \<Rightarrow> None)"

definition async_future_iterator_source :: "heap \<Rightarrow> tvalue \<Rightarrow> tvalue option" where
  "async_future_iterator_source h v = (case try_get h v of
      Some (ObjAsyncFutureIterator _ source) \<Rightarrow> Some source | _ \<Rightarrow> None)"

definition async_future_timer :: "heap \<Rightarrow> tvalue \<Rightarrow> (nat \<times> tvalue) option" where
  "async_future_timer h v = (case try_get h v of
      Some (ObjAsyncFuture f) \<Rightarrow> if fut_state f = Pending
        then map_option (\<lambda>tick. (tick, fut_timer_result f)) (fut_due_tick f) else None
    | _ \<Rightarrow> None)"

definition async_task_coroutine :: "heap \<Rightarrow> tvalue \<Rightarrow> tvalue option" where
  "async_task_coroutine h v = (case try_get h v of
      Some (ObjAsyncTask t) \<Rightarrow> Some (task_coroutine t) | _ \<Rightarrow> None)"

definition cancel_object :: "object \<Rightarrow> ((bool \<times> tvalue option) \<times> object) res" where
  "cancel_object ob = (case ob of
      ObjAsyncTask t \<Rightarrow>
        if task_state t \<noteq> Pending \<or> task_cancel_requested t then Ok ((False, None), ob)
        else Ok ((True, task_waiting_on t),
          ObjAsyncTask (t\<lparr>task_cancel_requested := True, task_waiting_on := None\<rparr>))
    | _ \<Rightarrow> fail ''TypeError'' ''object is not a task'')"

definition request_task_cancel :: "heap \<Rightarrow> tvalue \<Rightarrow> (bool \<times> tvalue option, heap) run" where
  "request_task_cancel h v = with_object h v cancel_object"

definition clear_cancel_object :: "object \<Rightarrow> (unit \<times> object) res" where
  "clear_cancel_object ob = (case ob of
      ObjAsyncTask t \<Rightarrow> Ok ((), ObjAsyncTask (t\<lparr>task_cancel_requested := False\<rparr>))
    | _ \<Rightarrow> fail ''TypeError'' ''object is not a task'')"

definition clear_task_cancel_request :: "heap \<Rightarrow> tvalue \<Rightarrow> (unit, heap) run" where
  "clear_task_cancel_request h v = with_object h v clear_cancel_object"

definition remove_waiter_object :: "tvalue \<Rightarrow> object \<Rightarrow> (unit \<times> object) res" where
  "remove_waiter_object task ob = (case ob of
      ObjAsyncFuture f \<Rightarrow> Ok ((), ObjAsyncFuture (f\<lparr>fut_waiters := filter (\<lambda>w. w \<noteq> task) (fut_waiters f)\<rparr>))
    | ObjAsyncTask t \<Rightarrow> Ok ((), ObjAsyncTask (t\<lparr>task_waiters := filter (\<lambda>w. w \<noteq> task) (task_waiters t)\<rparr>))
    | _ \<Rightarrow> fail ''TypeError'' ''object is not a future'')"

definition remove_async_waiter :: "heap \<Rightarrow> tvalue \<Rightarrow> tvalue \<Rightarrow> (unit, heap) run" where
  "remove_async_waiter h source task = with_object h source (remove_waiter_object task)"

definition push_new :: "'a \<Rightarrow> 'a list \<Rightarrow> 'a list" where
  "push_new x xs = (if x \<in> set xs then xs else xs @ [x])"

definition add_waiter_object :: "tvalue \<Rightarrow> object \<Rightarrow> (unit \<times> object) res" where
  "add_waiter_object task ob = (case ob of
      ObjAsyncFuture f \<Rightarrow> Ok ((), if fut_state f = Pending
        then ObjAsyncFuture (f\<lparr>fut_waiters := push_new task (fut_waiters f)\<rparr>) else ob)
    | ObjAsyncTask t \<Rightarrow> Ok ((), if task_state t = Pending
        then ObjAsyncTask (t\<lparr>task_waiters := push_new task (task_waiters t)\<rparr>) else ob)
    | _ \<Rightarrow> fail ''TypeError'' ''object is not awaitable'')"

definition add_async_waiter :: "heap \<Rightarrow> tvalue \<Rightarrow> tvalue \<Rightarrow> (unit, heap) run" where
  "add_async_waiter h source task =
     run_then (write_barrier h source task) (\<lambda>_ h1. with_object h1 source (add_waiter_object task))"

definition add_callback_object :: "tvalue \<Rightarrow> object \<Rightarrow> (bool \<times> object) res" where
  "add_callback_object callback ob = (case ob of
      ObjAsyncFuture f \<Rightarrow> Ok (if fut_state f = Pending
        then (True, ObjAsyncFuture (f\<lparr>fut_callbacks := fut_callbacks f @ [callback]\<rparr>)) else (False, ob))
    | ObjAsyncTask t \<Rightarrow> Ok (if task_state t = Pending
        then (True, ObjAsyncTask (t\<lparr>task_callbacks := task_callbacks t @ [callback]\<rparr>)) else (False, ob))
    | _ \<Rightarrow> fail ''TypeError'' ''object is not a future'')"

definition add_async_callback :: "heap \<Rightarrow> tvalue \<Rightarrow> tvalue \<Rightarrow> (bool, heap) run" where
  "add_async_callback h source callback =
     run_then (write_barrier h source callback) (\<lambda>_ h1. with_object h1 source (add_callback_object callback))"

definition complete_async_object ::
  "async_state \<Rightarrow> object \<Rightarrow> ((tvalue list \<times> tvalue list) \<times> object) res" where
  "complete_async_object state ob = (case ob of
      ObjAsyncFuture f \<Rightarrow>
        if fut_state f \<noteq> Pending then fail ''InvalidStateError'' ''future is already done''
        else Ok ((fut_waiters f, fut_callbacks f),
          ObjAsyncFuture (f\<lparr>fut_state := state, fut_due_tick := None, fut_waiters := [], fut_callbacks := []\<rparr>))
    | ObjAsyncTask t \<Rightarrow>
        if task_state t \<noteq> Pending then fail ''InvalidStateError'' ''task is already done''
        else Ok ((task_waiters t, task_callbacks t),
          ObjAsyncTask (t\<lparr>task_state := state, task_waiting_on := None, task_waiters := [], task_callbacks := []\<rparr>))
    | _ \<Rightarrow> fail ''TypeError'' ''object is not a future'')"

definition complete_async :: "heap \<Rightarrow> tvalue \<Rightarrow> async_state \<Rightarrow> (tvalue list \<times> tvalue list, heap) run" where
  "complete_async h source state =
     (if state = Pending
      then (fail ''RuntimeError'' ''future completion state must be terminal'', h)
      else run_then (write_barriers h source (async_state_trace state)) (\<lambda>_ h1.
        with_object h1 source (complete_async_object state)))"

definition task_waiting_object :: "tvalue option \<Rightarrow> object \<Rightarrow> (unit \<times> object) res" where
  "task_waiting_object source ob = (case ob of
      ObjAsyncTask t \<Rightarrow> Ok ((), ObjAsyncTask (t\<lparr>task_waiting_on := source\<rparr>))
    | _ \<Rightarrow> fail ''TypeError'' ''object is not a task'')"

definition set_task_waiting :: "heap \<Rightarrow> tvalue \<Rightarrow> tvalue option \<Rightarrow> (unit, heap) run" where
  "set_task_waiting h task source =
     run_then (write_barriers h task (opt source)) (\<lambda>_ h1. with_object h1 task (task_waiting_object source))"

section \<open>The contract of mutation\<close>

lemma replaces_resume_object: "replaces ([]) (resume_object execution)"
proof (rule replacesI)
  fix ob show "replaced ([]) ob (resume_object execution ob)"
    by (cases ob) (auto simp: replaces_simps resume_object_def)+
qed

interpretation resume_generator: mutator "\<lambda>h (owner, execution). resume_generator h owner execution"
  "\<lambda>h (owner, execution). owner" "\<lambda>(owner, execution). []"
  by (rule mutator_barred [where f = "\<lambda>(owner, execution). resume_object execution"])
    (auto simp: resume_generator_def with_object_barred replaces_resume_object)

lemma replaces_suspend_object: "replaces (suspended_values s) (suspend_object s)"
proof (rule replacesI)
  fix ob show "replaced (suspended_values s) ob (suspend_object s ob)"
    by (cases ob) (auto simp: replaces_simps suspend_object_def suspended_values_def)+
qed

interpretation suspend_generator: mutator "\<lambda>h (owner, s). suspend_generator h owner s"
  "\<lambda>h (owner, s). owner" "\<lambda>(owner, s). suspended_values s"
  by (rule mutator_barred [where f = "\<lambda>(owner, s). suspend_object s"])
    (auto simp: suspend_generator_def barred_def replaces_suspend_object)

lemma replaces_complete_object: "replaces ([v]) (complete_object v)"
proof (rule replacesI)
  fix ob show "replaced ([v]) ob (complete_object v ob)"
    by (cases ob) (auto simp: replaces_simps complete_object_def)+
qed

interpretation complete_generator_with_value: mutator "\<lambda>h (owner, v). complete_generator_with_value h owner v"
  "\<lambda>h (owner, v). owner" "\<lambda>(owner, v). [v]"
  by (rule mutator_barred [where f = "\<lambda>(owner, v). complete_object v"])
    (auto simp: complete_generator_with_value_def write_barrier_barred replaces_complete_object)

lemma replaces_await_state_object: "replaces ([]) (await_state_object state)"
proof (rule replacesI)
  fix ob show "replaced ([]) ob (await_state_object state ob)"
    by (cases ob) (auto simp: replaces_simps await_state_object_def)+
qed

interpretation set_async_generator_await_state: mutator "\<lambda>h (owner, state). set_async_generator_await_state h owner state"
  "\<lambda>h (owner, state). owner" "\<lambda>(owner, state). []"
  by (rule mutator_barred [where f = "\<lambda>(owner, state). await_state_object state"])
    (auto simp: set_async_generator_await_state_def with_object_barred replaces_await_state_object)

lemma replaces_claim_object: "replaces ([v]) (claim_object v)"
proof (rule replacesI)
  fix ob show "replaced ([v]) ob (claim_object v ob)"
    by (cases ob) (auto simp: replaces_simps claim_object_def)+
qed

interpretation claim_async_generator_driver: mutator "\<lambda>h (owner, v). claim_async_generator_driver h owner v"
  "\<lambda>h (owner, v). owner" "\<lambda>(owner, v). [v]"
  by (rule mutator_barred [where f = "\<lambda>(owner, v). claim_object v"])
    (auto simp: claim_async_generator_driver_def write_barrier_barred replaces_claim_object)

lemma replaces_release_object: "replaces ([]) (release_object v)"
proof (rule replacesI)
  fix ob show "replaced ([]) ob (release_object v ob)"
    by (cases ob) (auto simp: replaces_simps release_object_def)+
qed

interpretation release_async_generator_driver: mutator "\<lambda>h (owner, v). release_async_generator_driver h owner v"
  "\<lambda>h (owner, v). owner" "\<lambda>(owner, v). []"
  by (rule mutator_barred [where f = "\<lambda>(owner, v). release_object v"])
    (auto simp: release_async_generator_driver_def with_object_barred replaces_release_object)

lemma replaces_cancel_object: "replaces ([]) (cancel_object)"
proof (rule replacesI)
  fix ob show "replaced ([]) ob (cancel_object ob)"
    by (cases ob) (auto simp: replaces_simps cancel_object_def)+
qed

interpretation request_task_cancel: mutator "\<lambda>h owner. request_task_cancel h owner"
  "\<lambda>h owner. owner" "\<lambda>owner. []"
  by (rule mutator_barred [where f = "\<lambda>owner. cancel_object"])
    (auto simp: request_task_cancel_def with_object_barred replaces_cancel_object)

lemma replaces_clear_cancel_object: "replaces ([]) (clear_cancel_object)"
proof (rule replacesI)
  fix ob show "replaced ([]) ob (clear_cancel_object ob)"
    by (cases ob) (auto simp: replaces_simps clear_cancel_object_def)+
qed

interpretation clear_task_cancel_request: mutator "\<lambda>h owner. clear_task_cancel_request h owner"
  "\<lambda>h owner. owner" "\<lambda>owner. []"
  by (rule mutator_barred [where f = "\<lambda>owner. clear_cancel_object"])
    (auto simp: clear_task_cancel_request_def with_object_barred replaces_clear_cancel_object)

lemma replaces_remove_waiter_object: "replaces ([]) (remove_waiter_object v)"
proof (rule replacesI)
  fix ob show "replaced ([]) ob (remove_waiter_object v ob)"
    by (cases ob) (auto simp: replaces_simps remove_waiter_object_def)+
qed

interpretation remove_async_waiter: mutator "\<lambda>h (owner, v). remove_async_waiter h owner v"
  "\<lambda>h (owner, v). owner" "\<lambda>(owner, v). []"
  by (rule mutator_barred [where f = "\<lambda>(owner, v). remove_waiter_object v"])
    (auto simp: remove_async_waiter_def with_object_barred replaces_remove_waiter_object)

lemma replaces_add_waiter_object: "replaces ([v]) (add_waiter_object v)"
proof (rule replacesI)
  fix ob show "replaced ([v]) ob (add_waiter_object v ob)"
    by (cases ob) (auto simp: replaces_simps add_waiter_object_def push_new_def)+
qed

interpretation add_async_waiter: mutator "\<lambda>h (owner, v). add_async_waiter h owner v"
  "\<lambda>h (owner, v). owner" "\<lambda>(owner, v). [v]"
  by (rule mutator_barred [where f = "\<lambda>(owner, v). add_waiter_object v"])
    (auto simp: add_async_waiter_def write_barrier_barred replaces_add_waiter_object)

lemma replaces_add_callback_object: "replaces ([v]) (add_callback_object v)"
proof (rule replacesI)
  fix ob show "replaced ([v]) ob (add_callback_object v ob)"
    by (cases ob) (auto simp: replaces_simps add_callback_object_def)+
qed

interpretation add_async_callback: mutator "\<lambda>h (owner, v). add_async_callback h owner v"
  "\<lambda>h (owner, v). owner" "\<lambda>(owner, v). [v]"
  by (rule mutator_barred [where f = "\<lambda>(owner, v). add_callback_object v"])
    (auto simp: add_async_callback_def write_barrier_barred replaces_add_callback_object)

lemma replaces_task_waiting_object: "replaces (opt source) (task_waiting_object source)"
proof (rule replacesI)
  fix ob show "replaced (opt source) ob (task_waiting_object source ob)"
    by (cases ob) (auto simp: replaces_simps task_waiting_object_def)+
qed

interpretation set_task_waiting: mutator "\<lambda>h (owner, source). set_task_waiting h owner source"
  "\<lambda>h (owner, source). owner" "\<lambda>(owner, source). opt source"
  by (rule mutator_barred [where f = "\<lambda>(owner, source). task_waiting_object source"])
    (auto simp: set_task_waiting_def barred_def replaces_task_waiting_object)

lemma replaces_complete_async_object: "replaces (async_state_trace state) (complete_async_object state)"
proof (rule replacesI)
  fix ob show "replaced (async_state_trace state) ob (complete_async_object state ob)"
    by (cases ob) (auto simp: replaces_simps complete_async_object_def)+
qed

interpretation complete_async: mutator "\<lambda>h (owner, state). complete_async h owner state"
  "\<lambda>h (owner, state). owner" "\<lambda>(owner, state). async_state_trace state"
proof
  fix h and a :: "tvalue \<times> async_state" assume wf: "slots_wf h"
  have "complete_async h owner state = (if state = Pending
      then (fail ''RuntimeError'' ''future completion state must be terminal'', h)
      else barred h owner (async_state_trace state) (complete_async_object state))" for owner state
    by (simp add: complete_async_def barred_def)
  then show "mutated h (case a of (owner, state) \<Rightarrow> owner) (case a of (owner, state) \<Rightarrow> async_state_trace state)
      (snd (case a of (owner, state) \<Rightarrow> complete_async h owner state))"
    "clean (fst (case a of (owner, state) \<Rightarrow> complete_async h owner state))"
    by (auto simp: barred_mutated [OF wf replaces_complete_async_object] mutated_refl split: prod.split)
qed

end
