(* ===== verification/Heap_Steps.thy ===== *)
theory Heap_Steps
  imports Collector Suspension
begin

text \<open>
  What the steps of the heap do to its invariant, one section per kind of step: allocation, which
  hands out a handle that resolved to nothing before; handles that died, which no step revives; and
  the table of external fields. The invariant of theory Heap_Invariant is strengthened by one clause:
  external fields belong to live owners.
\<close>

section \<open>Allocation\<close>

definition external_owned :: "heap \<Rightarrow> bool" where
  "external_owned h \<longleftrightarrow> (\<forall>((owner, _), _)\<in>set (external_fields h). location h owner \<noteq> None)"

lemma external_owned_None: "external_owned h \<Longrightarrow> location h v = None \<Longrightarrow> trace_external_fields h v = []"
  by (auto simp: external_owned_def trace_external_fields_def filter_empty_conv)

text \<open>What a new object may hold: edges to live objects, and a class that is a class.\<close>

definition allocatable :: "heap \<Rightarrow> object \<Rightarrow> bool" where
  "allocatable h ob \<longleftrightarrow> (\<forall>v\<in>set (object_trace ob). valid h v) \<and>
     (case instance_parts ob of None \<Rightarrow> True | Some (c, _) \<Rightarrow> class_chain_ok h c)"

definition allocated :: "heap \<Rightarrow> object \<Rightarrow> tvalue \<Rightarrow> heap \<Rightarrow> bool" where
  "allocated h ob v h' \<longleftrightarrow> (\<exists>s g. v = value_heap s g \<and> s < 2 ^ 32 \<and> 1 \<le> g \<and> g \<le> MAX_GENERATION \<and>
     s < length (slots h') \<and> s \<notin> set (free_slots h') \<and>
     (s < length (slots h) \<longrightarrow> slots h' = (slots h)[s := \<lparr>slot_generation = g, slot_location = Some (length (objects h))\<rparr>] \<and>
        slot_generation (slots h ! s) = g \<and> slot_location (slots h ! s) = None \<and> free_slots h = s # free_slots h') \<and>
     (length (slots h) \<le> s \<longrightarrow> s = length (slots h) \<and> free_slots h = [] \<and> free_slots h' = [] \<and>
        slots h' = slots h @ [\<lparr>slot_generation = g, slot_location = Some (length (objects h))\<rparr>]) \<and>
     objects h' = objects h @ [\<lparr>ho_object = ob, ho_slot = s, ho_young = True\<rparr>] \<and>
     h' = h\<lparr>slots := slots h', free_slots := free_slots h', objects := objects h',
       allocations := allocations h + 1\<rparr>)"

lemma alloc_cases:
  assumes wf: "slots_wf h"
  obtains (full) "alloc h ob = (fail ''MemoryError'' ''heap handle capacity exhausted'', h)"
      "free_slots h = []" "length (slots h) = 2 ^ 32"
  | (placed) v h' where "alloc h ob = (Ok v, h')" "allocated h ob v h'"
proof (cases "free_slots h")
  case Nil
  show thesis
  proof (cases "2 ^ 32 \<le> length (slots h)")
    case True
    then show thesis using full Nil slots_wfD(1) [OF wf] by (simp add: alloc_def)
  next
    case False
    let ?h = "h\<lparr>slots := slots h @ [\<lparr>slot_generation = 1, slot_location = Some (length (objects h))\<rparr>],
      objects := objects h @ [\<lparr>ho_object = ob, ho_slot = length (slots h), ho_young = True\<rparr>],
      allocations := allocations h + 1\<rparr>"
    have run: "alloc h ob = (Ok (value_heap (length (slots h)) 1), ?h)"
      using Nil False by (simp add: alloc_def Let_def nth_append list_update_append)
    have "allocated h ob (value_heap (length (slots h)) 1) ?h"
      unfolding allocated_def using Nil False
      by (intro exI [of _ "length (slots h)"] exI [of _ 1]) (simp add: MAX_GENERATION_def)
    then show thesis using placed run by blast
  qed
next
  case (Cons s rest)
  have s: "s < length (slots h)" "slot_location (slots h ! s) = None" "s \<notin> set rest"
    using slots_wfD(7) [OF wf] slots_wfD(8) [OF wf, of s] Cons by auto
  let ?g = "slot_generation (slots h ! s)"
  let ?h = "h\<lparr>slots := (slots h)[s := \<lparr>slot_generation = ?g, slot_location = Some (length (objects h))\<rparr>],
      objects := objects h @ [\<lparr>ho_object = ob, ho_slot = s, ho_young = True\<rparr>],
      free_slots := rest, allocations := allocations h + 1\<rparr>"
  have eq: "(slots h ! s)\<lparr>slot_location := Some (length (objects h))\<rparr> =
      \<lparr>slot_generation = ?g, slot_location = Some (length (objects h))\<rparr>"
    by (cases "slots h ! s") simp
  have run: "alloc h ob = (Ok (value_heap s ?g), ?h)"
    using Cons s by (simp add: alloc_def Let_def eq)
  have "allocated h ob (value_heap s ?g) ?h"
    unfolding allocated_def using Cons s slots_wfD(1) [OF wf] slots_wfD(2,3) [OF wf s(1)]
    by (intro exI [of _ s] exI [of _ ?g]) (simp add: less_le_trans)
  then show thesis using placed run by blast
qed

lemma allocated_location:
  assumes wf: "slots_wf h" and a: "allocated h ob v h'"
  shows "location h v = None" "location h' = (location h)(v \<mapsto> length (objects h))" "heap_index v \<noteq> None"
proof -
  obtain s g where v: "v = value_heap s g" "s < 2 ^ 32" "1 \<le> g" "g \<le> MAX_GENERATION" "s < length (slots h')"
    and old: "s < length (slots h) \<Longrightarrow> slots h' = (slots h)[s := \<lparr>slot_generation = g, slot_location = Some (length (objects h))\<rparr>] \<and>
        slot_generation (slots h ! s) = g \<and> slot_location (slots h ! s) = None"
    and new: "length (slots h) \<le> s \<Longrightarrow> s = length (slots h) \<and>
        slots h' = slots h @ [\<lparr>slot_generation = g, slot_location = Some (length (objects h))\<rparr>]"
    using a unfolding allocated_def by blast
  have idx: "heap_index v = Some s" "generation v = g"
    using v by (simp_all add: heap_index_value_heap generation_value_heap)
  then show "heap_index v \<noteq> None" by simp
  show "location h v = None" using idx old by (cases "s < length (slots h)") (auto simp: location_def)
  show "location h' = (location h)(v \<mapsto> length (objects h))"
  proof
    fix w show "location h' w = ((location h)(v \<mapsto> length (objects h))) w"
    proof (cases "w = v")
      case True
      then show ?thesis using idx old new by (cases "s < length (slots h)") (auto simp: location_def)
    next
      case False
      then have "heap_index w = Some s \<Longrightarrow> generation w \<noteq> g"
        using value_heap_heap_index [of w s] v(1) by auto
      then show ?thesis using False old new
        by (cases "s < length (slots h)"; cases "heap_index w = Some s")
          (auto simp: location_def nth_append nth_list_update split: option.split)
    qed
  qed
qed

lemma allocated_objects:
  assumes wf: "slots_wf h" and a: "allocated h ob v h'"
  shows "length (objects h') = Suc (length (objects h))"
    "l < length (objects h) \<Longrightarrow> objects h' ! l = objects h ! l"
    "ho_object (objects h' ! length (objects h)) = ob" "young_at h' (length (objects h))"
    "external_fields h' = external_fields h" "pending_generators h' = pending_generators h"
    "pending_finalizers h' = pending_finalizers h" "remembered h' = remembered h"
    "finalized_objects h' = finalized_objects h"
proof -
  obtain s where o: "objects h' = objects h @ [\<lparr>ho_object = ob, ho_slot = s, ho_young = True\<rparr>]"
    and h': "h' = h\<lparr>slots := slots h', free_slots := free_slots h', objects := objects h',
       allocations := allocations h + 1\<rparr>"
    using a unfolding allocated_def by blast
  show "length (objects h') = Suc (length (objects h))"
    "l < length (objects h) \<Longrightarrow> objects h' ! l = objects h ! l"
    "ho_object (objects h' ! length (objects h)) = ob" "young_at h' (length (objects h))"
    unfolding o young_at_def by (simp_all add: nth_append)
  show "external_fields h' = external_fields h" "pending_generators h' = pending_generators h"
    "pending_finalizers h' = pending_finalizers h" "remembered h' = remembered h"
    "finalized_objects h' = finalized_objects h"
    by (subst h', simp)+
qed

lemma allocated_slots_wf:
  assumes wf: "slots_wf h" and a: "allocated h ob v h'"
  shows "slots_wf h'"
proof -
  obtain s g where v: "s < 2 ^ 32" "1 \<le> g" "g \<le> MAX_GENERATION" "s < length (slots h')" "s \<notin> set (free_slots h')"
    and old: "s < length (slots h) \<Longrightarrow> slots h' = (slots h)[s := \<lparr>slot_generation = g, slot_location = Some (length (objects h))\<rparr>] \<and>
        slot_location (slots h ! s) = None \<and> free_slots h = s # free_slots h'"
    and new: "length (slots h) \<le> s \<Longrightarrow> s = length (slots h) \<and> free_slots h = [] \<and> free_slots h' = [] \<and>
        slots h' = slots h @ [\<lparr>slot_generation = g, slot_location = Some (length (objects h))\<rparr>]"
    and o: "objects h' = objects h @ [\<lparr>ho_object = ob, ho_slot = s, ho_young = True\<rparr>]"
    using a unfolding allocated_def by blast
  note D = slots_wfD [OF wf]
  have len: "length (slots h') = max (length (slots h)) (Suc s)"
    using old new by (cases "s < length (slots h)") auto
  have sl: "slots h' ! t = (if t = s then \<lparr>slot_generation = g, slot_location = Some (length (objects h))\<rparr>
      else slots h ! t)" if "t < length (slots h')" for t
    using old new that len by (cases "s < length (slots h)") (auto simp: nth_append nth_list_update)
  have other: "t < length (slots h)" if "t < length (slots h')" "t \<noteq> s" for t
    using new that len by (cases "s < length (slots h)") auto
  have free: "t < length (slots h) \<and> t \<noteq> s \<and> slot_location (slots h ! t) = None" if "t \<in> set (free_slots h')" for t
    using old new that v(5) D(8) [of t] by (cases "s < length (slots h)") auto
  have occupied: "ho_slot (objects h ! l) \<noteq> s" if "l < length (objects h)" for l
    using D(4,5) [OF that] old new by (cases "s < length (slots h)") auto
  show ?thesis
    unfolding slots_wf_def
  proof (intro conjI allI impI ballI)
    show "length (slots h') \<le> 2 ^ 32" using len D(1) v(1) by simp
    show "distinct (free_slots h')" using old new D(7) by (cases "s < length (slots h)") auto
  next
    fix t assume t: "t < length (slots h')"
    show "1 \<le> slot_generation (slots h' ! t)" "slot_generation (slots h' ! t) \<le> MAX_GENERATION"
      using sl [OF t] other [OF t] D(2,3) [of t] v by auto
    fix l assume "slot_location (slots h' ! t) = Some l"
    then show "l < length (objects h')" "ho_slot (objects h' ! l) = t"
      using sl [OF t] other [OF t] D(6) [of t l] by (auto simp: o nth_append split: if_splits)
  next
    fix l assume l: "l < length (objects h')"
    show "ho_slot (objects h' ! l) < length (slots h')"
      "slot_location (slots h' ! ho_slot (objects h' ! l)) = Some l"
      using l D(4,5) [of l] occupied [of l] v(4) sl [of "ho_slot (objects h' ! l)"]
      by (auto simp: o nth_append len less_Suc_eq split: if_splits)
  next
    fix t assume "t \<in> set (free_slots h')"
    then show "t < length (slots h')" "slot_location (slots h' ! t) = None"
      using free [of t] sl [of t] len by auto
  qed
qed

lemma allocated_handle_at:
  assumes wf: "slots_wf h" and a: "allocated h ob v h'"
  shows "l < length (objects h) \<Longrightarrow> handle_at h' l = handle_at h l" "handle_at h' (length (objects h)) = v"
proof -
  note loc = allocated_location [OF wf a] and iff = location_iff [OF allocated_slots_wf [OF wf a]]
  have "location h' v = Some (length (objects h))" using loc(2) by simp
  then show "handle_at h' (length (objects h)) = v" by (simp add: iff)
  assume l: "l < length (objects h)"
  then have "location h (handle_at h l) = Some l" by (rule location_handle_at [OF wf])
  then have "location h' (handle_at h l) = Some l" using loc(1,2) by auto
  then show "handle_at h' l = handle_at h l" by (simp add: iff)
qed

lemma allocated_edges:
  assumes wf: "slots_wf h" and own: "external_owned h" and a: "allocated h ob v h'"
  shows "l < length (objects h) \<Longrightarrow> edges_at h' l = edges_at h l" "edges_at h' (length (objects h)) = object_trace ob"
proof -
  note ob = allocated_objects [OF wf a] and hd = allocated_handle_at [OF wf a]
  have tr: "trace_external_fields h' = trace_external_fields h"
    by (simp add: fun_eq_iff trace_external_fields_def ob)
  show "l < length (objects h) \<Longrightarrow> edges_at h' l = edges_at h l"
    by (simp add: edges_at_def ob hd tr)
  show "edges_at h' (length (objects h)) = object_trace ob"
    by (simp add: edges_at_def ob hd tr external_owned_None [OF own allocated_location(1) [OF wf a]])
qed

lemma allocated_heap_class:
  assumes wf: "slots_wf h" and a: "allocated h ob v h'" and k: "heap_class h c = Ok k"
  shows "heap_class h' c = Ok k"
proof -
  obtain l where l: "location h c = Some l" "l < length (objects h)"
    using k location_in_range [OF wf]
    by (cases "location h c") (auto simp: heap_class_def heap_get_def ok_or_def try_get_def)
  then have "try_get h' c = try_get h c"
    using allocated_location(1,2) [OF wf a] allocated_objects(1,2) [OF wf a] by (auto simp: try_get_def)
  then show ?thesis using k by (simp add: heap_class_def heap_get_def)
qed

lemma class_chain_mono:
  "(\<And>c k. heap_class h c = Ok k \<Longrightarrow> heap_class h' c = Ok k) \<Longrightarrow> class_chain_ok h c \<Longrightarrow> class_chain_ok h' c"
  unfolding class_chain_ok_def is_class_def is_ok_iff by (cases "heap_class h c") auto

lemma allocated_heap_ok:
  assumes ok: "heap_ok h" and own: "external_owned h" and a: "allocated h ob v h'" and new: "allocatable h ob"
  shows "heap_ok h' \<and> external_owned h'"
proof -
  have wf: "slots_wf h" and cl: "heap_closed h" and rem: "remembered_ok h" and cls: "classes_ok h"
    using ok by (auto simp: heap_ok_def)
  note loc = allocated_location [OF wf a] and ob = allocated_objects [OF wf a]
    and edges = allocated_edges [OF wf own a]
  have valid: "valid h w \<Longrightarrow> valid h' w" for w using loc by (auto simp: valid_def)
  have split: "l < length (objects h) \<or> l = length (objects h)" if "l < length (objects h')" for l
    using that ob(1) by auto
  have "heap_closed h'"
    unfolding heap_closed_def ob
  proof (intro conjI allI impI ballI)
    fix l w assume "l < Suc (length (objects h))" "w \<in> set (edges_at h' l)"
    then show "valid h' w"
      using valid edges new heap_closed_edge [OF cl] by (auto simp: less_Suc_eq allocatable_def)
  qed (use cl valid in \<open>auto simp: heap_closed_def\<close>)
  moreover have "remembered_ok h'"
    unfolding remembered_ok_def
  proof (intro conjI allI impI ballI)
    fix l w k assume l: "l < length (objects h')" "\<not> young_at h' l" and w: "w \<in> set (edges_at h' l)"
      "location h' w = Some k" "young_at h' k"
    have l': "l < length (objects h)" using split [OF l(1)] l(2) ob(4) by auto
    have "w \<noteq> v" using w(1) edges(1) [OF l'] heap_closed_edge [OF cl l', of v] loc(1,3) by (auto simp: valid_def)
    then show "ho_slot (objects h' ! l) \<in> set (remembered h')"
      using l l' w rem loc(2) edges(1) [OF l'] ob(2,8) location_in_range [OF wf, of w k]
      unfolding remembered_ok_def young_at_def by auto
  next
    fix s assume "s \<in> set (remembered h')"
    then show "\<exists>l<length (objects h'). ho_slot (objects h' ! l) = s \<and> \<not> young_at h' l"
      using rem ob(1,2,8) unfolding remembered_ok_def young_at_def by (metis less_SucI)
  qed
  moreover have "classes_ok h'"
    unfolding classes_ok_def
  proof (intro allI impI)
    fix l c at assume l: "l < length (objects h')" "instance_parts (ho_object (objects h' ! l)) = Some (c, at)"
    have "class_chain_ok h c"
      using split [OF l(1)] l(2) cls new ob(2,3) by (auto simp: classes_ok_def allocatable_def)
    then show "class_chain_ok h' c" using class_chain_mono [of h h' c] allocated_heap_class [OF wf a] by blast
  qed
  moreover have "external_owned h'"
    using own loc(2) ob(5) by (auto simp: external_owned_def)
  ultimately show ?thesis using allocated_slots_wf [OF wf a] by (simp add: heap_ok_def)
qed

section \<open>Dead handles\<close>

text \<open>A handle is dead when its slot has moved on: the generation of the slot is past it, or the slot
  is retired, empty and never to be used again.\<close>

definition dead :: "heap \<Rightarrow> tvalue \<Rightarrow> bool" where
  "dead h v \<longleftrightarrow> (\<exists>s. heap_index v = Some s \<and> s < length (slots h) \<and> location h v = None \<and>
     (generation v < slot_generation (slots h ! s) \<or>
      generation v = slot_generation (slots h ! s) \<and> s \<notin> set (free_slots h)))"

lemma dead_location: "dead h v \<Longrightarrow> location h v = None"
  by (auto simp: dead_def)

lemma dead_allocated:
  assumes wf: "slots_wf h" and a: "allocated h ob w h'" and d: "dead h v"
  shows "dead h' v"
proof -
  obtain t where t: "heap_index v = Some t" "t < length (slots h)" "location h v = None"
    "generation v < slot_generation (slots h ! t) \<or>
      generation v = slot_generation (slots h ! t) \<and> t \<notin> set (free_slots h)"
    using d by (auto simp: dead_def)
  obtain s g where w: "w = value_heap s g" "s < 2 ^ 32" "g \<le> MAX_GENERATION"
    and old: "s < length (slots h) \<Longrightarrow> slots h' = (slots h)[s := \<lparr>slot_generation = g, slot_location = Some (length (objects h))\<rparr>] \<and>
        slot_generation (slots h ! s) = g \<and> free_slots h = s # free_slots h'"
    and new: "length (slots h) \<le> s \<Longrightarrow> s = length (slots h) \<and> free_slots h = [] \<and> free_slots h' = [] \<and>
        slots h' = slots h @ [\<lparr>slot_generation = g, slot_location = Some (length (objects h))\<rparr>]"
    using a unfolding allocated_def by blast
  have gen: "t < length (slots h') \<and> slot_generation (slots h' ! t) = slot_generation (slots h ! t)"
    using old new t(2) by (cases "s < length (slots h)") (auto simp: nth_append nth_list_update)
  have free: "t \<notin> set (free_slots h) \<Longrightarrow> t \<notin> set (free_slots h')"
    using old new by (cases "s < length (slots h)") auto
  have "v \<noteq> w"
  proof
    assume "v = w"
    then have "t = s" "generation v = g" using t(1) w by (simp_all add: heap_index_value_heap generation_value_heap)
    then show False using t(2,4) old by auto
  qed
  then have "location h' v = None" using allocated_location(2) [OF wf a] t(3) by simp
  then show ?thesis using t gen free by (auto simp: dead_def)
qed

lemma mutated_slots:
  "changed kind h owner vs h' \<Longrightarrow> slots h' = slots h \<and> free_slots h' = free_slots h \<and>
     external_fields h' = external_fields h"
  unfolding changed_def by auto

lemma dead_mutated:
  assumes wf: "slots_wf h" and m: "changed kind h owner vs h'" and d: "dead h v"
  shows "dead h' v"
  using d mutated_slots [OF m] by (simp add: dead_def mutated_same(1) [OF wf m])

lemma external_owned_mutated:
  assumes wf: "slots_wf h" and m: "changed kind h owner vs h'" and d: "external_owned h"
  shows "external_owned h'"
  using d mutated_slots [OF m] by (simp add: external_owned_def mutated_same(1) [OF wf m])

lemma dead_swept:
  assumes wf: "slots_wf h" and sw: "swept h K h'" and d: "dead h v"
  shows "dead h' v"
proof -
  obtain s where s: "heap_index v = Some s" "s < length (slots h)" "location h v = None"
    "generation v < slot_generation (slots h ! s) \<or>
      generation v = slot_generation (slots h ! s) \<and> s \<notin> set (free_slots h)"
    using d by (auto simp: dead_def)
  have loc: "location h' v = None" using s(3) by (simp add: location_swept [OF wf sw])
  have le: "slot_generation (slots h ! s) \<le> slot_generation (slots h' ! s)"
    using slot_swept [OF wf sw s(2)] by (auto simp: swept_slot_def retired_slot_def split: option.split)
  show ?thesis
  proof (cases "generation v = slot_generation (slots h ! s)")
    case True
    then have "slot_location (slots h ! s) = None" using s by (simp add: location_def)
    moreover from this have "s \<notin> set (freed_slots h K (length (objects h)))"
      using slots_wfD(5) [OF wf] by (auto simp: freed_slots_def)
    ultimately have "slots h' ! s = slots h ! s" "s \<notin> set (free_slots h')"
      using slot_swept [OF wf sw s(2)] sw s(4) True by (auto simp: swept_slot_def swept_def)
    then show ?thesis using s loc True by (simp add: dead_def length_swept [OF wf sw])
  next
    case False
    then show ?thesis using s loc le by (auto simp: dead_def length_swept [OF wf sw])
  qed
qed

text \<open>A collection that does not keep an object makes its handle dead.\<close>

lemma swept_dead:
  assumes wf: "slots_wf h" and sw: "swept h K h'" and l: "location h v = Some l" "\<not> K l"
  shows "dead h' v"
proof -
  obtain s where s: "heap_index v = Some s" "s < length (slots h)" "slot_generation (slots h ! s) = generation v"
    "slot_location (slots h ! s) = Some l"
    using l(1) by (auto simp: location_def split: option.splits if_splits)
  have ll: "l < length (objects h)" "ho_slot (objects h ! l) = s" using slots_wfD(6) [OF wf s(2,4)] by auto
  have slot: "slots h' ! s = retired_slot (slots h ! s)"
    using slot_swept [OF wf sw s(2)] s(4) l(2) ll by (simp add: swept_slot_def)
  have loc: "location h' v = None" using l by (simp add: location_swept [OF wf sw])
  show ?thesis
  proof (cases "generation v < MAX_GENERATION")
    case True
    then show ?thesis using s slot loc by (simp add: dead_def retired_slot_def length_swept [OF wf sw])
  next
    case False
    have "s \<notin> set (free_slots h)" using slots_wfD(8) [OF wf, of s] s(4) by auto
    moreover have "s \<notin> set (freed_slots h K (length (objects h)))"
      using False s(3) by (auto simp: freed_slots_def)
    ultimately have "s \<notin> set (free_slots h')" using sw by (auto simp: swept_def)
    then show ?thesis using s slot loc False by (simp add: dead_def retired_slot_def length_swept [OF wf sw])
  qed
qed

lemma dead_requeued: "requeued h h' \<Longrightarrow> dead h' v = dead h v"
  using requeued_same [of h h'] requeued_fields [of h h'] by (simp add: dead_def)

lemma collected_dead:
  assumes wf: "slots_wf h" and c: "collected y h roots h'"
  shows "dead h v \<Longrightarrow> dead h' v" "location h v \<noteq> None \<Longrightarrow> location h' v = None \<Longrightarrow> dead h' v"
proof -
  obtain h2 K where r: "requeued h h2" and sw: "swept h2 K h'"
    using c by (auto simp: collected_def)
  have wf2: "slots_wf h2" using wf by (simp add: requeued_same [OF r])
  show "dead h v \<Longrightarrow> dead h' v" using dead_swept [OF wf2 sw] dead_requeued [OF r] by simp
  show "location h v \<noteq> None \<Longrightarrow> location h' v = None \<Longrightarrow> dead h' v"
    using swept_dead [OF wf2 sw] location_swept [OF wf2 sw, of v]
    by (auto simp: requeued_same [OF r] split: if_splits)
qed

lemma external_owned_collected:
  assumes wf: "slots_wf h" and c: "collected y h roots h'"
  shows "external_owned h'"
proof -
  obtain h2 K where r: "requeued h h2" and sw: "swept h2 K h'"
    using c by (auto simp: collected_def)
  have wf2: "slots_wf h2" using wf by (simp add: requeued_same [OF r])
  have "external_fields h' = filter (\<lambda>((owner, _), _). still_live (slots h') owner) (external_fields h2)"
    using sw by (simp add: swept_def)
  then show ?thesis by (auto simp: external_owned_def still_live_swept [OF wf2 sw])
qed

section \<open>External fields\<close>

definition refielded :: "heap \<Rightarrow> tvalue \<Rightarrow> tvalue list \<Rightarrow> heap \<Rightarrow> bool" where
  "refielded h owner vs h' \<longleftrightarrow> h' = h \<or> (location h owner \<noteq> None \<and> (\<exists>R xs. barrier_le h owner vs R \<and>
     h' = h\<lparr>remembered := R, external_fields := xs\<rparr> \<and>
     (\<forall>k v. (k, v) \<in> set xs \<longrightarrow> (k, v) \<in> set (external_fields h) \<or> fst k = owner \<and> v \<in> set vs)))"

lemma fields_update_same:
  "location (h\<lparr>remembered := R, external_fields := xs\<rparr>) = location h"
  "valid (h\<lparr>remembered := R, external_fields := xs\<rparr>) = valid h"
  "handle_at (h\<lparr>remembered := R, external_fields := xs\<rparr>) = handle_at h"
  "slots_wf (h\<lparr>remembered := R, external_fields := xs\<rparr>) = slots_wf h"
  "young_at (h\<lparr>remembered := R, external_fields := xs\<rparr>) = young_at h"
  "try_get (h\<lparr>remembered := R, external_fields := xs\<rparr>) = try_get h"
  by (simp_all add: fun_eq_iff location_def valid_def handle_at_def slots_wf_def young_at_def
      try_get_def cong: option.case_cong if_cong)

lemma heap_class_fields: "heap_class (h\<lparr>remembered := R, external_fields := xs\<rparr>) = heap_class h"
  by (simp add: fun_eq_iff heap_class_def heap_get_def fields_update_same)

lemma refielded_edges:
  assumes "h' = h\<lparr>remembered := R, external_fields := xs\<rparr>"
    and "\<forall>k v. (k, v) \<in> set xs \<longrightarrow> (k, v) \<in> set (external_fields h) \<or> fst k = owner \<and> v \<in> set vs"
    and "w \<in> set (edges_at h' l)"
  shows "w \<in> set (edges_at h l) \<or> handle_at h l = owner \<and> w \<in> set vs"
  using assms(2,3) unfolding assms(1) edges_at_def trace_external_fields_def fields_update_same by fastforce

lemma refielded_heap_ok:
  assumes ok: "heap_ok h" and own: "external_owned h" and m: "refielded h owner vs h'"
    and vs: "\<forall>v\<in>set vs. valid h v"
  shows "heap_ok h' \<and> external_owned h'"
proof (cases "h' = h")
  case False
  have wf: "slots_wf h" and cl: "heap_closed h" and rem: "remembered_ok h" and cls: "classes_ok h"
    using ok by (auto simp: heap_ok_def)
  obtain R xs where R: "barrier_le h owner vs R" and live: "location h owner \<noteq> None"
    and h': "h' = h\<lparr>remembered := R, external_fields := xs\<rparr>"
    and xs: "\<forall>k v. (k, v) \<in> set xs \<longrightarrow> (k, v) \<in> set (external_fields h) \<or> fst k = owner \<and> v \<in> set vs"
    using m False unfolding refielded_def by blast
  note same = fields_update_same [where h = h and R = R and xs = xs, folded h'] and edges = refielded_edges [OF h' xs]
  have obs: "objects h' = objects h" "remembered h' = R" "external_fields h' = xs"
    "pending_generators h' = pending_generators h" "pending_finalizers h' = pending_finalizers h"
    by (simp_all add: h')
  have "heap_closed h'"
    using cl vs edges unfolding heap_closed_def same obs by blast
  moreover have "remembered_ok h'"
    unfolding remembered_ok_def same obs
  proof (intro conjI allI impI ballI)
    fix k v j assume k: "k < length (objects h)" "\<not> young_at h k" "v \<in> set (edges_at h' k)"
      "location h v = Some j" "young_at h j"
    show "ho_slot (objects h ! k) \<in> set R"
      using edges [OF k(3)] k rem R location_handle_at [OF wf k(1)]
      unfolding remembered_ok_def barrier_le_def by auto
  qed (use R rem location_in_range [OF wf] in \<open>unfold barrier_le_def remembered_ok_def, blast\<close>)
  moreover have "classes_ok h'"
  proof -
    have hc: "heap_class h' = heap_class h" unfolding h' by (rule heap_class_fields)
    have "class_chain_ok h' c = class_chain_ok h c" for c
      unfolding class_chain_ok_def is_class_def hc ..
    then show ?thesis using cls unfolding classes_ok_def obs by simp
  qed
  moreover have "external_owned h'"
    using own xs live unfolding external_owned_def same obs by fastforce
  ultimately show ?thesis using wf by (simp add: heap_ok_def same)
qed (use ok own in simp)

lemma dead_refielded: "refielded h owner vs h' \<Longrightarrow> dead h v \<Longrightarrow> dead h' v"
  unfolding refielded_def by (auto simp: dead_def fields_update_same)

lemma update_alist_elem: "(k, v) \<in> set (AList.update k' v' xs) \<Longrightarrow> (k, v) \<in> set xs \<or> k = k' \<and> v = v'"
  by (induction xs) (auto split: if_splits)

lemma delete_alist_elem: "x \<in> set (AList.delete k xs) \<Longrightarrow> x \<in> set xs"
  by (auto simp: AList.delete_eq)

lemma store_external_field_refielded:
  assumes wf: "slots_wf h"
  shows "refielded h owner (opt x) (snd (store_external_field h owner field x)) \<and>
    clean (fst (store_external_field h owner field x))"
proof (cases "field = 0 \<or> location h owner = None")
  case True
  then show ?thesis
    by (auto simp: store_external_field_def heap_get_def ok_or_def try_get_def refielded_def)
next
  case False
  then obtain l where l: "location h owner = Some l" "l < length (objects h)"
    using location_in_range [OF wf] by auto
  show ?thesis
  proof (cases x)
    case None
    have "refielded h owner [] (h\<lparr>external_fields := AList.delete (owner, field) (external_fields h)\<rparr>)"
      unfolding refielded_def using l
      by (intro disjI2 conjI exI [of _ "remembered h"] exI [of _ "AList.delete (owner, field) (external_fields h)"])
        (auto simp: barrier_le_def dest: delete_alist_elem)
    then show ?thesis using None False l by (simp add: store_external_field_def heap_get_def ok_or_def try_get_def)
  next
    case (Some v)
    obtain R where w: "write_barrier h owner v = (Ok (), h\<lparr>remembered := R\<rparr>)" and R: "barrier_le h owner [v] R"
      using write_barrier_Ok [OF wf] by blast
    let ?h = "h\<lparr>remembered := R, external_fields := AList.update (owner, field) v (external_fields h)\<rparr>"
    have "refielded h owner [v] ?h"
      unfolding refielded_def using l R
      by (intro disjI2 conjI exI [of _ R] exI [of _ "AList.update (owner, field) v (external_fields h)"])
        (auto dest: update_alist_elem)
    moreover have "refielded h owner [v] h" by (simp add: refielded_def)
    ultimately show ?thesis using Some False l w
      by (simp add: store_external_field_def heap_get_def ok_or_def try_get_def split: option.split)
  qed
qed

end
