(* ===== verification/Finalization.thy ===== *)
theory Finalization
  imports Heap_Steps
begin

text \<open>
  The finalization queues of the heap outside a collection (crates/tonic-runtime/src/heap.rs): taking
  the next generator or object to finalize, and the shutdown operations that queue everything that is
  left; and the ledger \<open>finalized_objects\<close> that keeps a \<open>__del__\<close> from running twice.
\<close>

section \<open>Operations\<close>

text \<open>\<open>Vec::pop\<close>.\<close>

definition pop_last :: "'a list \<Rightarrow> 'a option \<times> 'a list" where
  "pop_last xs = (if xs = [] then (None, []) else (Some (last xs), butlast xs))"

definition has_pending_generator_finalizers :: "heap \<Rightarrow> bool" where
  "has_pending_generator_finalizers h \<longleftrightarrow> pending_generators h \<noteq> []"

definition pop_generator_finalizer :: "heap \<Rightarrow> (tvalue option, heap) run" where
  "pop_generator_finalizer h = (case pop_last (pending_generators h) of
     (x, rest) \<Rightarrow> (Ok x, h\<lparr>pending_generators := rest\<rparr>))"

definition has_pending_object_finalizers :: "heap \<Rightarrow> bool" where
  "has_pending_object_finalizers h \<longleftrightarrow> pending_finalizers h \<noteq> []"

definition has_pending_foreign_finalizers :: "heap \<Rightarrow> bool" where
  "has_pending_foreign_finalizers h \<longleftrightarrow> pending_foreigns h \<noteq> []"

definition pop_object_finalizer :: "heap \<Rightarrow> (tvalue option, heap) run" where
  "pop_object_finalizer h = (case pop_last (pending_finalizers h) of
     (x, rest) \<Rightarrow> (Ok x, h\<lparr>pending_finalizers := rest\<rparr>))"

fun queue_finalizers :: "tvalue list \<Rightarrow> heap \<Rightarrow> (unit, heap) run" where
  "queue_finalizers [] h = (Ok (), h)"
| "queue_finalizers (v # vs) h = run_then (queue_object_finalizer h v) (\<lambda>_ h1. queue_finalizers vs h1)"

definition queue_all_object_finalizers :: "heap \<Rightarrow> (unit, heap) run" where
  "queue_all_object_finalizers h =
     run_then (try_map (entry_handle h) (filter (\<lambda>e. is_finalizable (ho_object e)) (objects h)), h)
       (\<lambda>vs h1. queue_finalizers vs h1)"

fun queue_suspended :: "heap_object list \<Rightarrow> heap \<Rightarrow> (unit, heap) run" where
  "queue_suspended [] h = (Ok (), h)"
| "queue_suspended (e # es) h =
     (if is_suspended_generator (ho_object e)
      then run_then (entry_handle h e, h) (\<lambda>v h1. queue_suspended es (push_generator h1 v))
      else queue_suspended es h)"

definition queue_all_suspended_generators :: "heap \<Rightarrow> (unit, heap) run" where
  "queue_all_suspended_generators h = queue_suspended (objects h) h"

section \<open>The ledger\<close>

text \<open>Every queued object is entered in the ledger, once, and the ledger names live objects.\<close>

definition ledger_ok :: "heap \<Rightarrow> bool" where
  "ledger_ok h \<longleftrightarrow> distinct (pending_finalizers h) \<and> set (pending_finalizers h) \<subseteq> set (finalized_objects h) \<and>
     (\<forall>v\<in>set (finalized_objects h). location h v \<noteq> None)"

text \<open>What every step keeps: an object in the ledger stays there while it is live, and is not queued
  again.\<close>

definition ledger_step :: "heap \<Rightarrow> heap \<Rightarrow> bool" where
  "ledger_step h h' \<longleftrightarrow> ledger_ok h' \<and> (\<forall>v\<in>set (finalized_objects h). location h' v \<noteq> None \<longrightarrow>
     v \<in> set (finalized_objects h') \<and> (v \<in> set (pending_finalizers h') \<longrightarrow> v \<in> set (pending_finalizers h)))"

lemma ledger_same:
  assumes "ledger_ok h" "pending_finalizers h' = pending_finalizers h" "finalized_objects h' = finalized_objects h"
    and "\<And>v. location h v \<noteq> None \<Longrightarrow> location h' v \<noteq> None"
  shows "ledger_step h h'"
  using assms by (auto simp: ledger_ok_def ledger_step_def)

lemma ledger_step_refl: "ledger_ok h \<Longrightarrow> ledger_step h h"
  by (rule ledger_same) simp_all

lemma ledger_collected:
  assumes wf: "slots_wf h" and c: "collected y h roots h'" and ok: "ledger_ok h"
  shows "ledger_step h h'"
proof -
  obtain h2 K where r: "requeued h h2" and sw: "swept h2 K h'" and q: "queued y h roots h'"
    using c by (auto simp: collected_def)
  have wf2: "slots_wf h2" using wf by (simp add: requeued_same [OF r])
  note live = still_live_swept [OF wf2 sw]
  obtain f where f: "pending_finalizers h' = pending_finalizers h @ f" "distinct f"
    "set f \<inter> set (finalized_objects h) = {}"
    "finalized_objects h' = filter (still_live (slots h')) (finalized_objects h @ f)"
    "\<And>v. v \<in> set f \<Longrightarrow> \<exists>ob. try_get h v = Some ob"
    using q unfolding queued_def by blast
  have alive: "location h' v \<noteq> None" if "v \<in> set (pending_finalizers h')" for v
  proof -
    have "location h v \<noteq> None" if "try_get h v = Some ob" for ob
      using that by (auto simp: try_get_def split: option.splits)
    then have "location h v \<noteq> None" using that ok f(1) f(5) [of v] by (auto simp: ledger_ok_def subset_iff)
    moreover have "reaches h (sources y h roots h') v" using that by (auto simp: sources_def intro: reaches.root)
    ultimately show ?thesis using collected_alive(1) [OF wf c] by simp
  qed
  have "set (pending_finalizers h') \<subseteq> set (finalized_objects h')"
    using alive ok f(1) unfolding f(4) ledger_ok_def by (auto simp: live)
  then have "ledger_ok h'" using ok f(1-3) unfolding ledger_ok_def f(4) by (auto simp: live)
  then show ?thesis using f(1,3) unfolding ledger_step_def f(4) by (auto simp: live)
qed

section \<open>The operations keep the invariant\<close>

lemma requeued_heap_ok:
  assumes r: "requeued h h'" and ok: "heap_ok h" and own: "external_owned h"
    and q: "\<forall>v\<in>set (pending_generators h') \<union> set (pending_finalizers h'). valid h v"
  shows "heap_ok h' \<and> external_owned h'"
  using ok own q
  by (simp add: heap_ok_def external_owned_def heap_closed_def remembered_ok_def requeued_same [OF r]
      requeued_fields [OF r] requeued_classes [OF r])

lemma set_pop_last: "pop_last xs = (x, rest) \<Longrightarrow> set rest \<subseteq> set xs \<and> (distinct xs \<longrightarrow> distinct rest)"
  by (auto simp: pop_last_def distinct_butlast dest: in_set_butlastD split: if_splits)

lemma pop_generator_requeued:
  "\<exists>x rest. pop_generator_finalizer h = (Ok x, h\<lparr>pending_generators := rest\<rparr>) \<and>
    set rest \<subseteq> set (pending_generators h) \<and> requeued h (h\<lparr>pending_generators := rest\<rparr>)"
proof -
  obtain x rest where p: "pop_last (pending_generators h) = (x, rest)" by (metis surj_pair)
  show ?thesis
    by (rule exI [of _ x], rule exI [of _ rest])
      (use set_pop_last [OF p] in \<open>simp add: pop_generator_finalizer_def p requeued_def\<close>)
qed

lemma pop_object_requeued:
  "\<exists>x rest. pop_object_finalizer h = (Ok x, h\<lparr>pending_finalizers := rest\<rparr>) \<and>
    set rest \<subseteq> set (pending_finalizers h) \<and> (distinct (pending_finalizers h) \<longrightarrow> distinct rest) \<and>
    requeued h (h\<lparr>pending_finalizers := rest\<rparr>)"
proof -
  obtain x rest where p: "pop_last (pending_finalizers h) = (x, rest)" by (metis surj_pair)
  show ?thesis
    by (rule exI [of _ x], rule exI [of _ rest])
      (use set_pop_last [OF p] in \<open>simp add: pop_object_finalizer_def p requeued_def\<close>)
qed

text \<open>The shutdown queues gain live handles only, and the ledger grows with them.\<close>

definition shutdown_queued :: "heap \<Rightarrow> heap \<Rightarrow> bool" where
  "shutdown_queued h h' \<longleftrightarrow> requeued h h' \<and> (\<exists>g f. pending_generators h' = pending_generators h @ g \<and>
     pending_finalizers h' = pending_finalizers h @ f \<and> finalized_objects h' = finalized_objects h @ f \<and>
     distinct f \<and> set f \<inter> set (finalized_objects h) = {} \<and>
     (\<forall>v\<in>set g \<union> set f. location h v \<noteq> None))"

lemma shutdown_queued_refl [simp]: "shutdown_queued h h"
  by (simp add: shutdown_queued_def)

lemma shutdown_queued_trans:
  assumes "shutdown_queued h h1" "shutdown_queued h1 h2"
  shows "shutdown_queued h h2"
proof -
  have r: "requeued h h1" "requeued h1 h2" using assms by (auto simp: shutdown_queued_def)
  obtain g f where a: "pending_generators h1 = pending_generators h @ g"
    "pending_finalizers h1 = pending_finalizers h @ f" "finalized_objects h1 = finalized_objects h @ f"
    "distinct f" "set f \<inter> set (finalized_objects h) = {}" "\<forall>v\<in>set g \<union> set f. location h v \<noteq> None"
    using assms(1) unfolding shutdown_queued_def by blast
  obtain g' f' where b: "pending_generators h2 = pending_generators h1 @ g'"
    "pending_finalizers h2 = pending_finalizers h1 @ f'" "finalized_objects h2 = finalized_objects h1 @ f'"
    "distinct f'" "set f' \<inter> set (finalized_objects h1) = {}" "\<forall>v\<in>set g' \<union> set f'. location h1 v \<noteq> None"
    using assms(2) unfolding shutdown_queued_def by blast
  show ?thesis
    unfolding shutdown_queued_def
  proof (intro conjI, rule requeued_trans [OF r], rule exI [of _ "g @ g'"], rule exI [of _ "f @ f'"], intro conjI)
    show "\<forall>v\<in>set (g @ g') \<union> set (f @ f'). location h v \<noteq> None"
      using a(6) b(6) by (auto simp: requeued_same [OF r(1)])
  qed (use a(1-5) b(1-5) in auto)
qed

lemma queue_object_finalizer_queued:
  assumes wf: "slots_wf h" and cls: "classes_ok h" and l: "location h v = Some l" "is_finalizable (ho_object (objects h ! l))"
  shows "\<exists>b h'. queue_object_finalizer h v = (Ok b, h') \<and> shutdown_queued h h'"
proof -
  obtain b h' where q: "queue_object_finalizer h v = (Ok b, h')" "requeued h h'"
    "pending_generators h' = pending_generators h"
    "pending_finalizers h' = pending_finalizers h @ (if b then [v] else [])"
    "finalized_objects h' = finalized_objects h @ (if b then [v] else [])"
    "b \<longrightarrow> v \<notin> set (finalized_objects h) \<and> v \<notin> set (pending_finalizers h)"
    using queue_object_finalizer_Ok [OF assms] by blast
  have "shutdown_queued h h'"
    unfolding shutdown_queued_def
    by (intro conjI exI [of _ "[]"] exI [of _ "if b then [v] else []"]) (use q l in auto)
  then show ?thesis using q(1) by blast
qed

lemma queue_finalizers_Ok:
  "slots_wf h \<Longrightarrow> classes_ok h \<Longrightarrow>
   \<forall>v\<in>set vs. \<exists>l. location h v = Some l \<and> is_finalizable (ho_object (objects h ! l)) \<Longrightarrow>
   \<exists>h'. queue_finalizers vs h = (Ok (), h') \<and> shutdown_queued h h'"
proof (induction vs arbitrary: h)
  case (Cons v vs)
  obtain l where l: "location h v = Some l" "is_finalizable (ho_object (objects h ! l))"
    using Cons.prems(3) by (metis list.set_intros(1))
  obtain b h1 where q: "queue_object_finalizer h v = (Ok b, h1)" "shutdown_queued h h1"
    using queue_object_finalizer_queued [OF Cons.prems(1,2) l] by blast
  then have r: "requeued h h1" by (simp add: shutdown_queued_def)
  have pre: "slots_wf h1" "classes_ok h1"
    "\<forall>v\<in>set vs. \<exists>l. location h1 v = Some l \<and> is_finalizable (ho_object (objects h1 ! l))"
    using Cons.prems by (simp_all add: requeued_same [OF r] requeued_fields [OF r] requeued_classes [OF r])
  obtain h' where h': "queue_finalizers vs h1 = (Ok (), h')" "shutdown_queued h1 h'"
    using Cons.IH [OF pre] by blast
  have "queue_finalizers (v # vs) h = (Ok (), h')" using q(1) h'(1) by simp
  then show ?case using shutdown_queued_trans [OF q(2) h'(2)] by blast
qed simp

lemma queue_all_object_finalizers_Ok:
  assumes wf: "slots_wf h" and cls: "classes_ok h"
  shows "\<exists>h'. queue_all_object_finalizers h = (Ok (), h') \<and> shutdown_queued h h'"
proof -
  let ?es = "filter (\<lambda>e. is_finalizable (ho_object e)) (objects h)"
  have each: "\<exists>v l. entry_handle h e = Ok v \<and> location h v = Some l \<and> objects h ! l = e" if "e \<in> set (objects h)" for e
  proof -
    note e = that
    obtain l where l: "l < length (objects h)" "e = objects h ! l" using e by (auto simp: in_set_conv_nth)
    from l have "entry_handle h e = Ok (handle_at h l)"
      using slots_wfD(4) [OF wf l(1)] by (simp add: entry_handle_def index_at_def handle_at_def)
    then show ?thesis using location_handle_at [OF wf l(1)] l(2) by blast
  qed
  have "\<exists>vs. try_map (entry_handle h) es = Ok vs \<and>
      (\<forall>v\<in>set vs. \<exists>l. location h v = Some l \<and> is_finalizable (ho_object (objects h ! l)))"
    if "set es \<subseteq> {e \<in> set (objects h). is_finalizable (ho_object e)}" for es
    using that
  proof (induction es)
    case (Cons e es)
    then obtain vs where vs: "try_map (entry_handle h) es = Ok vs"
      "\<forall>v\<in>set vs. \<exists>l. location h v = Some l \<and> is_finalizable (ho_object (objects h ! l))" by auto
    obtain v l where v: "entry_handle h e = Ok v" "location h v = Some l" "objects h ! l = e"
      using each [of e] Cons.prems by auto
    then show ?case using vs Cons.prems by auto
  qed simp
  from this [of ?es] obtain vs where vs: "try_map (entry_handle h) ?es = Ok vs"
      "\<forall>v\<in>set vs. \<exists>l. location h v = Some l \<and> is_finalizable (ho_object (objects h ! l))" by auto
  then show ?thesis
    using queue_finalizers_Ok [OF wf cls vs(2)] by (simp add: queue_all_object_finalizers_def)
qed

lemma queue_suspended_Ok:
  "slots_wf h \<Longrightarrow> set es \<subseteq> set (objects h) \<Longrightarrow>
   \<exists>h'. queue_suspended es h = (Ok (), h') \<and> shutdown_queued h h'"
proof (induction es arbitrary: h)
  case (Cons e es)
  have "e \<in> set (objects h)" using Cons.prems by simp
  then obtain l where l: "l < length (objects h)" "e = objects h ! l" by (metis in_set_conv_nth)
  then have e: "entry_handle h e = Ok (handle_at h l)"
    using slots_wfD(4) [OF Cons.prems(1) l(1)] by (simp add: entry_handle_def index_at_def handle_at_def)
  let ?h = "push_generator h (handle_at h l)"
  have s: "shutdown_queued h ?h"
    unfolding shutdown_queued_def
    by (intro conjI exI [of _ "if handle_at h l \<in> set (pending_generators h) then [] else [handle_at h l]"] exI [of _ "[]"])
      (auto simp: push_generator_def requeued_def location_handle_at [OF Cons.prems(1) l(1)])
  then have r: "requeued h ?h" by (simp add: shutdown_queued_def)
  have pre: "slots_wf ?h" "set es \<subseteq> set (objects ?h)" "set es \<subseteq> set (objects h)"
    using Cons.prems by (simp_all add: requeued_same [OF r] requeued_fields [OF r])
  show ?case
  proof (cases "is_suspended_generator (ho_object e)")
    case True
    obtain h' where h': "queue_suspended es ?h = (Ok (), h')" "shutdown_queued ?h h'"
      using Cons.IH [OF pre(1,2)] by blast
    then show ?thesis using True e shutdown_queued_trans [OF s h'(2)] by simp
  next
    case False
    then show ?thesis using Cons.IH [OF Cons.prems(1) pre(3)] by simp
  qed
qed simp

lemma shutdown_ledger:
  assumes s: "shutdown_queued h h'" and ok: "ledger_ok h"
  shows "ledger_step h h'"
proof -
  have r: "requeued h h'" using s by (simp add: shutdown_queued_def)
  obtain f where f: "pending_finalizers h' = pending_finalizers h @ f" "finalized_objects h' = finalized_objects h @ f"
    "distinct f" "set f \<inter> set (finalized_objects h) = {}" "\<forall>v\<in>set f. location h v \<noteq> None"
    using s unfolding shutdown_queued_def by blast
  then show ?thesis
    using ok by (auto simp: ledger_step_def ledger_ok_def requeued_same [OF r])
qed

lemma shutdown_valid:
  assumes "shutdown_queued h h'" "heap_closed h"
  shows "\<forall>v\<in>set (pending_generators h') \<union> set (pending_finalizers h'). valid h v"
proof -
  obtain g f where "pending_generators h' = pending_generators h @ g"
    "pending_finalizers h' = pending_finalizers h @ f" "\<forall>v\<in>set g \<union> set f. location h v \<noteq> None"
    using assms(1) unfolding shutdown_queued_def by blast
  moreover have "\<forall>v\<in>set (pending_generators h) \<union> set (pending_finalizers h). valid h v"
    using assms(2) by (simp add: heap_closed_def)
  ultimately show ?thesis by (auto simp: valid_def)
qed

end
