(* ===== verification/Heap_Machine.thy ===== *)
theory Heap_Machine
  imports Finalization
begin

text \<open>
  The heap as a machine: every operation of theories Heap, Suspension and Collector is an event, and a
  reachable heap is one that admissible events make of the empty heap. An event is admissible when
  the values it stores or names as roots resolve, and a new instance has a class.
\<close>

section \<open>Events\<close>

datatype heap_event =
    EvAlloc object
  | EvExternal tvalue nat "tvalue option"
  | EvAppend tvalue tvalue
  | EvReplace tvalue "tvalue list"
  | EvModuleAdd tvalue string tvalue
  | EvModuleDelete tvalue string
  | EvModuleReset tvalue
  | EvCell tvalue tvalue
  | EvCause tvalue "tvalue option" bool
  | EvContext tvalue tvalue
  | EvTraceback tvalue "tvalue option"
  | EvRecordTrace tvalue "traceback_entry list"
  | EvResume tvalue nat
  | EvSuspend tvalue suspended_generator
  | EvComplete tvalue tvalue
  | EvAwaitState tvalue async_generator_await_state
  | EvClaim tvalue tvalue
  | EvRelease tvalue tvalue
  | EvCancel tvalue
  | EvClearCancel tvalue
  | EvAddWaiter tvalue tvalue
  | EvRemoveWaiter tvalue tvalue
  | EvAddCallback tvalue tvalue
  | EvCompleteAsync tvalue async_state
  | EvTaskWaiting tvalue "tvalue option"
  | EvCollect "tvalue list"
  | EvCollectYoung "tvalue list"
  | EvPopGenerator
  | EvPopFinalizer
  | EvQueueGenerators
  | EvQueueFinalizers

definition no_result :: "('a, heap) run \<Rightarrow> (unit, heap) run" where
  "no_result m = (and_then (fst m) (\<lambda>_. Ok ()), snd m)"

fun run_event :: "heap \<Rightarrow> heap_event \<Rightarrow> (unit, heap) run" where
  "run_event h (EvAlloc ob) = no_result (alloc h ob)"
| "run_event h (EvExternal owner field x) = store_external_field h owner field x"
| "run_event h (EvAppend owner v) = append_list h owner v"
| "run_event h (EvReplace owner vs) = replace_list h owner vs"
| "run_event h (EvModuleAdd owner name v) = add_module_member h owner name v"
| "run_event h (EvModuleDelete owner name) = delete_module_member h owner name"
| "run_event h (EvModuleReset owner) = reset_module_members h owner"
| "run_event h (EvCell owner v) = store_cell h owner v"
| "run_event h (EvCause owner cause suppress) = set_exception_cause h owner cause suppress"
| "run_event h (EvContext owner ctx) = set_exception_context h owner ctx"
| "run_event h (EvTraceback owner tb) = set_exception_traceback h owner tb"
| "run_event h (EvRecordTrace owner entries) = record_exception_trace h owner entries"
| "run_event h (EvResume owner execution) = no_result (resume_generator h owner execution)"
| "run_event h (EvSuspend owner s) = suspend_generator h owner s"
| "run_event h (EvComplete owner v) = complete_generator_with_value h owner v"
| "run_event h (EvAwaitState owner state) = set_async_generator_await_state h owner state"
| "run_event h (EvClaim owner v) = claim_async_generator_driver h owner v"
| "run_event h (EvRelease owner v) = release_async_generator_driver h owner v"
| "run_event h (EvCancel owner) = no_result (request_task_cancel h owner)"
| "run_event h (EvClearCancel owner) = clear_task_cancel_request h owner"
| "run_event h (EvAddWaiter owner v) = add_async_waiter h owner v"
| "run_event h (EvRemoveWaiter owner v) = remove_async_waiter h owner v"
| "run_event h (EvAddCallback owner v) = no_result (add_async_callback h owner v)"
| "run_event h (EvCompleteAsync owner state) = no_result (complete_async h owner state)"
| "run_event h (EvTaskWaiting owner source) = set_task_waiting h owner source"
| "run_event h (EvCollect roots) = no_result (collect h roots)"
| "run_event h (EvCollectYoung roots) = no_result (collect_young h roots)"
| "run_event h EvPopGenerator = no_result (pop_generator_finalizer h)"
| "run_event h EvPopFinalizer = no_result (pop_object_finalizer h)"
| "run_event h EvQueueGenerators = queue_all_suspended_generators h"
| "run_event h EvQueueFinalizers = queue_all_object_finalizers h"

text \<open>The values an event stores, or gives as roots.\<close>

fun event_values :: "heap_event \<Rightarrow> tvalue list" where
  "event_values (EvAlloc ob) = object_trace ob"
| "event_values (EvExternal owner field x) = opt x"
| "event_values (EvAppend owner v) = [v]"
| "event_values (EvReplace owner vs) = vs"
| "event_values (EvModuleAdd owner name v) = [v]"
| "event_values (EvCell owner v) = [v]"
| "event_values (EvCause owner cause suppress) = opt cause"
| "event_values (EvContext owner ctx) = [ctx]"
| "event_values (EvTraceback owner tb) = opt tb"
| "event_values (EvSuspend owner s) = suspended_values s"
| "event_values (EvComplete owner v) = [v]"
| "event_values (EvClaim owner v) = [v]"
| "event_values (EvAddWaiter owner v) = [v]"
| "event_values (EvAddCallback owner v) = [v]"
| "event_values (EvCompleteAsync owner state) = async_state_trace state"
| "event_values (EvTaskWaiting owner source) = opt source"
| "event_values (EvCollect roots) = roots"
| "event_values (EvCollectYoung roots) = roots"
| "event_values _ = []"

definition admissible :: "heap \<Rightarrow> heap_event \<Rightarrow> bool" where
  "admissible h e \<longleftrightarrow> (\<forall>v\<in>set (event_values e). valid h v) \<and>
     (case e of EvAlloc ob \<Rightarrow> allocatable h ob | _ \<Rightarrow> True)"

fun is_collection :: "heap_event \<Rightarrow> bool" where
  "is_collection (EvCollect roots) = True"
| "is_collection (EvCollectYoung roots) = True"
| "is_collection _ = False"

definition heap_inv :: "heap \<Rightarrow> bool" where
  "heap_inv h \<longleftrightarrow> heap_ok h \<and> external_owned h \<and> ledger_ok h"

text \<open>What an event does to the heap, whichever it is.\<close>

definition good_step :: "heap \<Rightarrow> bool \<Rightarrow> (unit, heap) run \<Rightarrow> bool" where
  "good_step h collection m \<longleftrightarrow> clean (fst m) \<and> heap_inv (snd m) \<and> (\<forall>v. dead h v \<longrightarrow> dead (snd m) v) \<and>
     (\<forall>v. location h v \<noteq> None \<longrightarrow> location (snd m) v \<noteq> None \<or> dead (snd m) v \<and> collection) \<and>
     ledger_step h (snd m)"

lemma fst_no_result [simp]: "clean (fst (no_result m)) \<longleftrightarrow> clean (fst m)" "snd (no_result m) = snd m"
  by (cases m; cases "fst m"; simp add: no_result_def)+

lemma mutated_queues:
  "changed kind h owner vs h' \<Longrightarrow> pending_finalizers h' = pending_finalizers h \<and> finalized_objects h' = finalized_objects h"
  unfolding changed_def by auto

lemma changed_good:
  assumes "heap_inv h" "changed kind h owner vs (snd m)" "clean (fst m)" "\<forall>v\<in>set vs. valid h v"
    and "\<And>ob ob'. kind ob ob' \<Longrightarrow> keeps_kind ob ob'"
  shows "good_step h b m"
proof -
  have wf: "slots_wf h" using assms(1) by (simp add: heap_inv_def heap_ok_def)
  show ?thesis
    using assms changed_heap_ok [OF _ assms(2,5,4)] external_owned_mutated [OF wf assms(2)]
      dead_mutated [OF wf assms(2)] mutated_same(1) [OF wf assms(2)] mutated_queues [OF assms(2)]
      ledger_same [of h "snd m"]
    by (simp add: good_step_def heap_inv_def ledger_step_def)
qed

lemma mutated_good:
  "heap_inv h \<Longrightarrow> mutated h owner vs (snd m) \<Longrightarrow> clean (fst m) \<Longrightarrow> \<forall>v\<in>set vs. valid h v \<Longrightarrow> good_step h b m"
  by (rule changed_good [OF _ _ _ _ same_keeps_kind])

lemma mutator_good:
  assumes "mutator step owner incoming" "heap_inv h" "\<forall>v\<in>set (incoming a). valid h v"
  shows "good_step h b (no_result (step h a))"
proof -
  have wf: "slots_wf h" using assms(2) by (simp add: heap_inv_def heap_ok_def)
  show ?thesis
    using mutator.step_mutated [OF assms(1) wf, of a] mutator.step_clean [OF assms(1) wf, of a] assms(2,3)
    by (intro mutated_good) simp_all
qed

lemma no_result_unit [simp]: "no_result (m :: (unit, heap) run) = m"
  by (cases m; cases "fst m") (simp_all add: no_result_def)

lemma refielded_good:
  assumes "heap_inv h" "refielded h owner vs (snd m)" "clean (fst m)" "\<forall>v\<in>set vs. valid h v"
  shows "good_step h b m"
proof -
  have "location (snd m) = location h" "pending_finalizers (snd m) = pending_finalizers h"
    "finalized_objects (snd m) = finalized_objects h"
    using assms(2) by (auto simp: refielded_def fields_update_same)
  then show ?thesis
    using assms refielded_heap_ok [OF _ _ assms(2,4)] dead_refielded [OF assms(2)] ledger_same [of h "snd m"]
    by (simp add: good_step_def heap_inv_def ledger_step_def)
qed

lemma alloc_good:
  assumes inv: "heap_inv h" and new: "allocatable h ob"
  shows "good_step h b (no_result (alloc h ob))"
proof -
  have wf: "slots_wf h" using inv by (simp add: heap_inv_def heap_ok_def)
  from wf show ?thesis
  proof (cases rule: alloc_cases [where ob = ob])
    case full
    then show ?thesis using inv ledger_step_refl by (simp add: good_step_def heap_inv_def)
  next
    case (placed v h')
    note fin = allocated_objects(9) [OF wf placed(2)]
    have "ledger_step h h'"
      using ledger_same [OF _ allocated_objects(7) [OF wf placed(2)] fin] inv allocated_location(2) [OF wf placed(2)]
      by (simp add: heap_inv_def)
    then show ?thesis
      using allocated_heap_ok [OF _ _ placed(2) new] inv dead_allocated [OF wf placed(2)]
        allocated_location(2) [OF wf placed(2)] placed(1)
      by (auto simp: good_step_def heap_inv_def ledger_step_def)
  qed
qed

lemma collected_good:
  assumes inv: "heap_inv h" and c: "collected y h roots (snd m)" and ok: "fst m = Ok stats"
  shows "good_step h True (no_result m)"
proof -
  have wf: "slots_wf h" using inv by (simp add: heap_inv_def heap_ok_def)
  show ?thesis
    using collected_heap_ok [OF _ c] external_owned_collected [OF wf c] collected_dead [OF wf c] inv ok
      ledger_collected [OF wf c]
    by (auto simp: good_step_def heap_inv_def ledger_step_def)
qed

lemma good_step_trans:
  assumes "heap_inv h" "good_step h False (Ok u, h1)" "good_step h1 b m"
  shows "good_step h b m"
proof -
  have live: "location h1 v \<noteq> None" if "v \<in> set (finalized_objects h)" for v
    using assms(1,2) that by (auto simp: heap_inv_def ledger_ok_def good_step_def)
  then have "ledger_step h (snd m)"
    using assms(2,3) unfolding good_step_def ledger_step_def by (metis snd_conv)
  then show ?thesis
    using assms(2,3) unfolding good_step_def by (metis fst_conv snd_conv)
qed

lemma requeued_good:
  assumes inv: "heap_inv h" and r: "requeued h (snd m)" and q: "clean (fst m)"
    "\<forall>v\<in>set (pending_generators (snd m)) \<union> set (pending_finalizers (snd m)). valid h v"
    and l: "ledger_step h (snd m)"
  shows "good_step h b m"
  using requeued_heap_ok [OF r _ _ q(2)] inv q(1) l dead_requeued [OF r]
  by (simp add: good_step_def heap_inv_def ledger_step_def requeued_same [OF r])

lemma pop_generator_good:
  assumes inv: "heap_inv h"
  shows "good_step h b (no_result (pop_generator_finalizer h))"
proof -
  obtain x rest where p: "pop_generator_finalizer h = (Ok x, h\<lparr>pending_generators := rest\<rparr>)"
    "set rest \<subseteq> set (pending_generators h)" "requeued h (h\<lparr>pending_generators := rest\<rparr>)"
    using pop_generator_requeued by blast
  have "ledger_step h (h\<lparr>pending_generators := rest\<rparr>)"
    using inv by (intro ledger_same) (simp_all add: heap_inv_def requeued_same [OF p(3)])
  then show ?thesis
    using p inv by (intro requeued_good) (auto simp: heap_inv_def heap_ok_def heap_closed_def)
qed

lemma pop_object_good:
  assumes inv: "heap_inv h"
  shows "good_step h b (no_result (pop_object_finalizer h))"
proof -
  obtain x rest where p: "pop_object_finalizer h = (Ok x, h\<lparr>pending_finalizers := rest\<rparr>)"
    "set rest \<subseteq> set (pending_finalizers h)" "distinct (pending_finalizers h) \<longrightarrow> distinct rest"
    "requeued h (h\<lparr>pending_finalizers := rest\<rparr>)"
    using pop_object_requeued by blast
  have "ledger_step h (h\<lparr>pending_finalizers := rest\<rparr>)"
    using inv p(2,3) by (auto simp: heap_inv_def ledger_ok_def ledger_step_def requeued_same [OF p(4)])
  then show ?thesis
    using p inv by (intro requeued_good) (auto simp: heap_inv_def heap_ok_def heap_closed_def)
qed

lemma shutdown_good:
  assumes inv: "heap_inv h" and s: "shutdown_queued h (snd m)" and ok: "clean (fst m)"
  shows "good_step h b m"
proof -
  have r: "requeued h (snd m)" using s by (simp add: shutdown_queued_def)
  show ?thesis
    using shutdown_valid [OF s] shutdown_ledger [OF s] inv
    by (intro requeued_good [OF inv r ok]) (auto simp: heap_inv_def heap_ok_def)
qed

lemma expected_exception_simps [simp]: "clean expected_exception" "expected_exception \<noteq> Ok x"
  by (simp_all add: expected_exception_def)

lemma replaces_traceback: "replaces [] (\<lambda>ob. case ob of
    ObjTraceback es \<Rightarrow> Ok ((), ObjTraceback (push_entries es entries))
  | _ \<Rightarrow> fail ''RuntimeError'' ''invalid traceback object'')"
proof (rule replacesI)
  fix ob show "replaced [] ob (case ob of
      ObjTraceback es \<Rightarrow> Ok ((), ObjTraceback (push_entries es entries))
    | _ \<Rightarrow> fail ''RuntimeError'' ''invalid traceback object'')"
    by (cases ob) (auto simp: replaces_simps)
qed

lemma record_exception_trace_good:
  assumes inv: "heap_inv h"
  shows "good_step h b (record_exception_trace h owner entries)"
proof (cases "entries = []")
  case True
  then show ?thesis using inv ledger_step_refl by (simp add: record_exception_trace_def good_step_def heap_inv_def)
next
  case False
  have wf: "slots_wf h" using inv by (simp add: heap_inv_def heap_ok_def)
  let ?push = "\<lambda>ob. case ob of ObjTraceback es \<Rightarrow> Ok ((), ObjTraceback (push_entries es entries))
      | _ \<Rightarrow> fail ''RuntimeError'' ''invalid traceback object''"
  have push: "good_step h1 b (with_object h1 tb ?push)" if "heap_inv h1" for h1 tb
  proof -
    have "slots_wf h1" using that by (simp add: heap_inv_def heap_ok_def)
    then show ?thesis using barred_mutated [OF _ replaces_traceback] that
      by (intro mutated_good [where owner = tb and vs = "[]"]) (simp_all add: with_object_barred)
  qed
  show ?thesis
  proof (cases "exception_traceback h owner")
    case (Ok found)
    then show ?thesis
    proof (cases found)
      case (Some tb)
      then show ?thesis using False Ok push [OF inv, of tb] by (simp add: record_exception_trace_def)
    next
      case None
      from wf show ?thesis
      proof (cases rule: alloc_cases [where ob = "ObjTraceback []"])
        case full
        then show ?thesis using False Ok None inv ledger_step_refl
      by (simp add: record_exception_trace_def good_step_def heap_inv_def)
      next
        case (placed tb h1)
        have new: "allocatable h (ObjTraceback [])"
          by (simp add: allocatable_def object_trace_def instance_parts_def)
        have g1: "good_step h False (Ok (), h1)"
          using alloc_good [OF inv new] placed(1) by (simp add: no_result_def)
        then have inv1: "heap_inv h1" by (simp add: good_step_def)
        then have wf1: "slots_wf h1" by (simp add: heap_inv_def heap_ok_def)
        note loc = allocated_location [OF wf placed(2)]
        obtain l e where l: "location h owner = Some l" "ho_object (objects h ! l) = ObjException e"
          "l < length (objects h)"
          using Ok location_in_range [OF wf]
          by (cases "location h owner"; cases "ho_object (objects h ! the (location h owner))")
            (auto simp: exception_traceback_def heap_get_def ok_or_def try_get_location [OF wf])
        obtain R where w: "write_barrier h1 owner tb = (Ok (), h1\<lparr>remembered := R\<rparr>)"
          using write_barrier_Ok [OF wf1] by blast
        let ?set = "\<lambda>ob. case ob of ObjException e \<Rightarrow> Ok ((), ObjException (e\<lparr>exc_traceback := Some tb\<rparr>)) | _ \<Rightarrow> Panic"
        have l1: "location h1 owner = Some l" "objects h1 ! l = objects h ! l" "l < length (objects h1)"
          using l loc allocated_objects [OF wf placed(2)] by auto
        have same: "with_object (h1\<lparr>remembered := R\<rparr>) owner ?set = set_exception_traceback h1 owner (Some tb)"
          using l l1 w by (simp add: set_exception_traceback_def with_object_def remembered_update_same)
        obtain h2 where h2: "set_exception_traceback h1 owner (Some tb) = (Ok (), h2)"
          using l l1 w by (simp add: set_exception_traceback_def with_object_def remembered_update_same)
        have "good_step h1 False (set_exception_traceback h1 owner (Some tb))"
          using mutator_good [OF set_exception_traceback.mutator_axioms inv1, of "(owner, Some tb)"] loc
          by (simp add: valid_def)
        then have g2: "good_step h1 False (Ok (), h2)" by (simp add: h2)
        then have inv2: "heap_inv h2" by (simp add: good_step_def)
        have "record_exception_trace h owner entries = with_object h2 tb ?push"
          using False Ok None placed(1) w same h2 by (simp add: record_exception_trace_def)
        then show ?thesis
          using good_step_trans [OF inv g1 good_step_trans [OF inv1 g2 push [OF inv2, of tb]]] by simp
      qed
    qed
  next
    case (Err d)
    then show ?thesis using False inv ledger_step_refl
      by (simp add: record_exception_trace_def good_step_def heap_inv_def)
  next
    case Panic
    then show ?thesis
      by (auto simp: exception_traceback_def heap_get_def ok_or_def res_simps expected_exception_def
          split: option.splits object.splits)
  next
    case Diverge
    then show ?thesis
      by (auto simp: exception_traceback_def heap_get_def ok_or_def res_simps expected_exception_def
          split: option.splits object.splits)
  qed
qed

lemma run_event_good:
  assumes inv: "heap_inv h" and adm: "admissible h e"
  shows "good_step h (is_collection e) (run_event h e)"
proof -
  have ok: "heap_ok h" and wf: "slots_wf h" using inv by (auto simp: heap_inv_def heap_ok_def)
  have vs: "\<forall>v\<in>set (event_values e). valid h v" using adm by (simp add: admissible_def)
  note good = mutator_good [OF _ inv]
  show ?thesis
  proof (cases e)
    case (EvAlloc ob)
    then show ?thesis using alloc_good [OF inv] adm by (simp add: admissible_def)
  next
    case (EvExternal owner field x)
    then show ?thesis
      using refielded_good [OF inv, where owner = owner and vs = "opt x"] store_external_field_refielded [OF wf] vs by simp
  next
    case (EvAppend owner v)
    then show ?thesis using good [OF append_list.mutator_axioms, where a = "(owner, v)"] vs by simp
  next
    case (EvReplace owner us)
    then show ?thesis using good [OF replace_list.mutator_axioms, where a = "(owner, us)"] vs by simp
  next
    case (EvModuleAdd owner name v)
    then show ?thesis using good [OF add_module_member.mutator_axioms, where a = "(owner, name, v)"] vs by simp
  next
    case (EvModuleDelete owner name)
    then show ?thesis using good [OF delete_module_member.mutator_axioms, where a = "(owner, name)"] by simp
  next
    case (EvModuleReset owner)
    then show ?thesis using good [OF reset_module_members.mutator_axioms, where a = owner] by simp
  next
    case (EvCell owner v)
    then show ?thesis using good [OF store_cell.mutator_axioms, where a = "(owner, v)"] vs by simp
  next
    case (EvCause owner cause suppress)
    then show ?thesis using good [OF set_exception_cause.mutator_axioms, where a = "(owner, cause, suppress)"] vs by simp
  next
    case (EvContext owner ctx)
    then show ?thesis using good [OF set_exception_context.mutator_axioms, where a = "(owner, ctx)"] vs by simp
  next
    case (EvTraceback owner tb)
    then show ?thesis using good [OF set_exception_traceback.mutator_axioms, where a = "(owner, tb)"] vs by simp
  next
    case (EvRecordTrace owner entries)
    then show ?thesis using record_exception_trace_good [OF inv] by simp
  next
    case (EvResume owner execution)
    then show ?thesis using good [OF resume_generator.mutator_axioms, where a = "(owner, execution)"] by simp
  next
    case (EvSuspend owner s)
    then show ?thesis using good [OF suspend_generator.mutator_axioms, where a = "(owner, s)"] vs by simp
  next
    case (EvComplete owner v)
    then show ?thesis using good [OF complete_generator_with_value.mutator_axioms, where a = "(owner, v)"] vs by simp
  next
    case (EvAwaitState owner state)
    then show ?thesis using good [OF set_async_generator_await_state.mutator_axioms, where a = "(owner, state)"] by simp
  next
    case (EvClaim owner v)
    then show ?thesis using good [OF claim_async_generator_driver.mutator_axioms, where a = "(owner, v)"] vs by simp
  next
    case (EvRelease owner v)
    then show ?thesis using good [OF release_async_generator_driver.mutator_axioms, where a = "(owner, v)"] by simp
  next
    case (EvCancel owner)
    then show ?thesis using good [OF request_task_cancel.mutator_axioms, where a = owner] by simp
  next
    case (EvClearCancel owner)
    then show ?thesis using good [OF clear_task_cancel_request.mutator_axioms, where a = owner] by simp
  next
    case (EvAddWaiter owner v)
    then show ?thesis using good [OF add_async_waiter.mutator_axioms, where a = "(owner, v)"] vs by simp
  next
    case (EvRemoveWaiter owner v)
    then show ?thesis using good [OF remove_async_waiter.mutator_axioms, where a = "(owner, v)"] by simp
  next
    case (EvAddCallback owner v)
    then show ?thesis using good [OF add_async_callback.mutator_axioms, where a = "(owner, v)"] vs by simp
  next
    case (EvCompleteAsync owner state)
    then show ?thesis using good [OF complete_async.mutator_axioms, where a = "(owner, state)"] vs by simp
  next
    case (EvTaskWaiting owner source)
    then show ?thesis using good [OF set_task_waiting.mutator_axioms, where a = "(owner, source)"] vs by simp
  next
    case (EvCollect roots)
    then show ?thesis using collect_spec [OF ok, of roots] collected_good [OF inv] vs by fastforce
  next
    case (EvCollectYoung roots)
    then show ?thesis using collect_young_spec [OF ok, of roots] collected_good [OF inv] vs by fastforce
  next
    case EvPopGenerator
    then show ?thesis using pop_generator_good [OF inv] by simp
  next
    case EvPopFinalizer
    then show ?thesis using pop_object_good [OF inv] by simp
  next
    case EvQueueGenerators
    then show ?thesis using queue_suspended_Ok [OF wf subset_refl] shutdown_good [OF inv]
      by (fastforce simp: queue_all_suspended_generators_def)
  next
    case EvQueueFinalizers
    then show ?thesis using queue_all_object_finalizers_Ok [OF wf] ok shutdown_good [OF inv]
      by (fastforce simp: heap_ok_def)
  qed
qed

section \<open>Runs\<close>

fun run_events :: "heap \<Rightarrow> heap_event list \<Rightarrow> heap" where
  "run_events h [] = h"
| "run_events h (e # es) = run_events (snd (run_event h e)) es"

fun admissible_run :: "heap \<Rightarrow> heap_event list \<Rightarrow> bool" where
  "admissible_run h [] \<longleftrightarrow> True"
| "admissible_run h (e # es) \<longleftrightarrow> admissible h e \<and> admissible_run (snd (run_event h e)) es"

inductive heap_reachable :: "heap \<Rightarrow> bool" where
  start: "heap_reachable heap_default"
| event: "heap_reachable h \<Longrightarrow> admissible h e \<Longrightarrow> heap_reachable (snd (run_event h e))"

lemma heap_inv_default: "heap_inv heap_default"
  by (simp add: heap_inv_def heap_ok_def slots_wf_def heap_closed_def remembered_ok_def classes_ok_def
      external_owned_def ledger_ok_def heap_default_def)

lemma reachable_heap_inv: "heap_reachable h \<Longrightarrow> heap_inv h"
  by (induction rule: heap_reachable.induct) (auto simp: heap_inv_default dest: run_event_good simp: good_step_def)

lemma reachable_run: "heap_reachable h \<Longrightarrow> admissible_run h es \<Longrightarrow> heap_reachable (run_events h es)"
  by (induction es arbitrary: h) (auto intro: heap_reachable.event)

lemma run_events_append: "run_events h (es @ fs) = run_events (run_events h es) fs"
  by (induction es arbitrary: h) simp_all

lemma run_dead: "heap_inv h \<Longrightarrow> admissible_run h es \<Longrightarrow> dead h v \<Longrightarrow> dead (run_events h es) v"
  by (induction es arbitrary: h) (auto dest: run_event_good simp: good_step_def)

lemma run_lost:
  "heap_inv h \<Longrightarrow> admissible_run h es \<Longrightarrow> location h v \<noteq> None \<Longrightarrow> location (run_events h es) v = None \<Longrightarrow>
   dead (run_events h es) v"
proof (induction es arbitrary: h)
  case (Cons e es)
  have good: "good_step h (is_collection e) (run_event h e)" using run_event_good Cons.prems by simp
  then have inv: "heap_inv (snd (run_event h e))" by (simp add: good_step_def)
  show ?case
  proof (cases "location (snd (run_event h e)) v")
    case None
    then have "dead (snd (run_event h e)) v" using good Cons.prems(3) by (auto simp: good_step_def)
    then show ?thesis using run_dead [OF inv] Cons.prems(2) by simp
  next
    case (Some l)
    then show ?thesis using Cons.IH [OF inv] Cons.prems by simp
  qed
qed simp

lemma run_inv: "heap_inv h \<Longrightarrow> admissible_run h es \<Longrightarrow> heap_inv (run_events h es)"
  by (induction es arbitrary: h) (auto dest: run_event_good simp: good_step_def)

end
