(* ===== verification/Heap_Properties.thy ===== *)
theory Heap_Properties
  imports Heap_Machine
begin

text \<open>
  What holds of every reachable heap: the properties of the allocator, of the write barrier and of the
  two collections, with a small concrete heap for their witnesses.
\<close>

section \<open>A small heap\<close>

text \<open>A list that holds a string, and a string nobody holds.\<close>

definition sample_events :: "heap_event list" where
  "sample_events = [EvAlloc (ObjStr ''kept''), EvAlloc (ObjList []), EvAppend (value_heap 1 1) (value_heap 0 1),
     EvAlloc (ObjStr ''lost'')]"

definition sample_heap :: heap where
  "sample_heap = run_events heap_default sample_events"

lemma value_heap_eq_iff:
  "s < 2 ^ 32 \<Longrightarrow> t < 2 ^ 32 \<Longrightarrow> g \<le> MAX_GENERATION \<Longrightarrow> k \<le> MAX_GENERATION \<Longrightarrow>
   value_heap s g = value_heap t k \<longleftrightarrow> s = t \<and> g = k"
  by (metis heap_index_value_heap generation_value_heap option.inject)

lemmas machine_simps = heap_default_def alloc_def Let_def no_result_def append_list_def native_value_def
  try_get_def location_def with_object_def write_barrier_def heap_index_value_heap generation_value_heap
  MAX_GENERATION_def value_heap_eq_iff

lemma sample_heap_eq: "sample_heap = heap_default\<lparr>allocations := 3,
    slots := [\<lparr>slot_generation = 1, slot_location = Some 0\<rparr>, \<lparr>slot_generation = 1, slot_location = Some 1\<rparr>,
      \<lparr>slot_generation = 1, slot_location = Some 2\<rparr>],
    objects := [\<lparr>ho_object = ObjStr ''kept'', ho_slot = 0, ho_young = True\<rparr>,
      \<lparr>ho_object = ObjList [value_heap 0 1], ho_slot = 1, ho_young = True\<rparr>,
      \<lparr>ho_object = ObjStr ''lost'', ho_slot = 2, ho_young = True\<rparr>]\<rparr>"
  by (simp add: sample_heap_def sample_events_def machine_simps)

lemma sample_admissible: "admissible_run heap_default sample_events"
  by (simp add: sample_events_def admissible_def allocatable_def valid_def object_trace_def instance_parts_def
      machine_simps)

lemma sample_reachable: "heap_reachable sample_heap"
  unfolding sample_heap_def by (rule reachable_run [OF heap_reachable.start sample_admissible])

lemma sample_location: "location sample_heap (value_heap 0 1) = Some 0"
  "location sample_heap (value_heap 1 1) = Some 1" "location sample_heap (value_heap 2 1) = Some 2"
  by (simp_all add: sample_heap_eq machine_simps)

lemma collected_contents:
  assumes wf: "slots_wf h" and c: "collected y h roots h'"
  shows "try_get h' v = (if reaches h (sources y h roots h') v
      then map_option (prune_dependents (slots h')) (try_get h v) else None)"
proof (cases "location h' v")
  case None
  then have "location h v = None \<or> \<not> reaches h (sources y h roots h') v"
    using collected_alive(1) [OF wf c, of v] by simp
  then show ?thesis using None by (auto simp: try_get_def)
next
  case (Some l)
  then show ?thesis using collected_alive [OF wf c, of v] by simp
qed

section \<open>Properties\<close>



text \<open>C6: A handle whose object was collected resolves to nothing for ever, whatever is allocated
  afterwards: slots are reused, their generations are not.\<close>

theorem stale_handles_stay_dead:
  assumes "heap_reachable h" "location h v \<noteq> None" "admissible_run h es"
    "location (run_events h es) v = None" "admissible_run (run_events h es) fs"
  shows "try_get (run_events h (es @ fs)) v = None"
proof -
  have inv: "heap_inv h" by (rule reachable_heap_inv [OF assms(1)])
  have "dead (run_events h es) v" by (rule run_lost [OF inv assms(3,2,4)])
  then have "dead (run_events h (es @ fs)) v"
    using run_dead [OF reachable_heap_inv [OF reachable_run [OF assms(1,3)]] assms(5)]
    by (simp add: run_events_append)
  then show ?thesis by (simp add: try_get_def dead_location)
qed

text \<open>An allocation returns a handle that resolved to nothing and now resolves to the new object,
  leaves what every other handle resolves to, and fails only when all \<open>2 ^ 32\<close> slots are taken.\<close>

theorem alloc_fresh:
  assumes "heap_reachable h"
  shows "(\<exists>v h'. alloc h ob = (Ok v, h') \<and> try_get h v = None \<and>
      (\<forall>w. try_get h' w = (if w = v then Some ob else try_get h w))) \<or>
    (\<exists>d. alloc h ob = (Err d, h) \<and> free_slots h = [] \<and> length (slots h) = 2 ^ 32)"
proof -
  have wf: "slots_wf h" using reachable_heap_inv [OF assms] by (simp add: heap_inv_def heap_ok_def)
  from wf show ?thesis
  proof (cases rule: alloc_cases [where ob = ob])
    case full
    then show ?thesis by blast
  next
    case (placed v h')
    have "try_get h' w = (if w = v then Some ob else try_get h w)" for w
      using allocated_location [OF wf placed(2)] allocated_objects(1-3) [OF wf placed(2)]
      by (auto simp: try_get_def split: option.split dest: location_in_range [OF wf])
    then show ?thesis using placed(1) allocated_location(1) [OF wf placed(2)] by (auto simp: try_get_def)
  qed
qed

lemma alloc_fresh_witness: "\<exists>v h'. alloc sample_heap (ObjInt 7) = (Ok v, h') \<and> try_get sample_heap v = None \<and>
    (\<forall>w. try_get h' w = (if w = v then Some (ObjInt 7) else try_get sample_heap w))"
  using alloc_fresh [OF sample_reachable, of "ObjInt 7"] by (simp add: sample_heap_eq)

text \<open>C4: A full collection with live roots keeps an object if and only if its handle is reachable from
  the roots or from the finalization queues, and every kept object is unchanged (but for the weak
  list of dependents of a class); everything else stops resolving.\<close>

theorem collect_exact:
  assumes "heap_reachable h" "\<forall>v\<in>set roots. valid h v"
  shows "\<exists>stats h'. collect h roots = (Ok stats, h') \<and>
    (\<forall>v. try_get h' v =
      (if reaches h (set roots \<union> set (pending_generators h') \<union> set (pending_finalizers h')) v
       then map_option (prune_dependents (slots h')) (try_get h v) else None))"
proof -
  have ok: "heap_ok h" using reachable_heap_inv [OF assms(1)] by (simp add: heap_inv_def)
  then have wf: "slots_wf h" by (simp add: heap_ok_def)
  obtain stats h' where run: "collect h roots = (Ok stats, h')" and c: "collected False h roots h'"
    using collect_spec [OF ok assms(2)] by blast
  show ?thesis using run collected_contents [OF wf c] by (auto simp: sources_def)
qed

lemma collect_exact_witness:
  "\<exists>stats h'. collect sample_heap [value_heap 1 1] = (Ok stats, h') \<and>
    (\<forall>v. try_get h' v =
      (if reaches sample_heap (set [value_heap 1 1] \<union> set (pending_generators h') \<union> set (pending_finalizers h')) v
       then map_option (prune_dependents (slots h')) (try_get sample_heap v) else None))"
  by (rule collect_exact [OF sample_reachable]) (simp add: valid_def sample_location del: One_nat_def)

text \<open>C5: A nursery collection keeps every old object, and a young one if and only if its handle is
  reachable from the roots, the finalization queues or an old object, although it traverses old
  objects only where the remembered set says so.\<close>

theorem collect_young_exact:
  assumes "heap_reachable h" "\<forall>v\<in>set roots. valid h v"
  shows "\<exists>stats h'. collect_young h roots = (Ok stats, h') \<and>
    (\<forall>v. try_get h' v =
      (if reaches h (set roots \<union> set (pending_generators h') \<union> set (pending_finalizers h') \<union> old_handles h) v
       then map_option (prune_dependents (slots h')) (try_get h v) else None))"
proof -
  have ok: "heap_ok h" using reachable_heap_inv [OF assms(1)] by (simp add: heap_inv_def)
  then have wf: "slots_wf h" by (simp add: heap_ok_def)
  obtain stats h' where run: "collect_young h roots = (Ok stats, h')" and c: "collected True h roots h'"
    using collect_young_spec [OF ok assms(2)] by blast
  then show ?thesis using collected_contents [OF wf c] by (auto simp: sources_def)
qed

lemma collect_young_exact_witness:
  "\<exists>stats h'. collect_young sample_heap [value_heap 1 1] = (Ok stats, h') \<and>
    (\<forall>v. try_get h' v =
      (if reaches sample_heap (set [value_heap 1 1] \<union> set (pending_generators h') \<union>
          set (pending_finalizers h') \<union> old_handles sample_heap) v
       then map_option (prune_dependents (slots h')) (try_get sample_heap v) else None))"
  by (rule collect_young_exact [OF sample_reachable]) (simp add: valid_def sample_location del: One_nat_def)

lemma sample_marked: "mark_loop False sample_heap (no_marks sample_heap) (initial_work sample_heap [value_heap 1 1]) =
    Ok [True, True, False]"
  by (simp add: sample_heap_eq no_marks_def initial_work_def entry_edges_def trace_external_fields_def object_trace_def machine_simps)

lemma sample_finished: "finish_collection sample_heap [True, True, False] False =
    (Ok \<lparr>reclaimed = 1, young_reclaimed = 1, survivors = 2, promoted = 2, moved = 0, major = True\<rparr>, heap_default\<lparr>allocations := 3,
    last_collection_allocations := 3, free_slots := [2],
    slots := [\<lparr>slot_generation = 1, slot_location = Some 0\<rparr>, \<lparr>slot_generation = 1, slot_location = Some 1\<rparr>,
      \<lparr>slot_generation = 2, slot_location = None\<rparr>],
    objects := [\<lparr>ho_object = ObjStr ''kept'', ho_slot = 0, ho_young = False\<rparr>,
      \<lparr>ho_object = ObjList [value_heap 0 1], ho_slot = 1, ho_young = False\<rparr>]\<rparr>)"
  by (simp add: sample_heap_eq finish_collection_def queue_unreachable_generators_def unreached_def is_suspended_generator_def
  queue_unreachable_object_finalizers_def finalizer_candidates_def is_finalizable_def
  sweep_def sweep_start_def sweep_finish_def sweep_entry_def sweep_live_def sweep_dead_def index_at_def
  prune_dependents_def heap_default_def MAX_GENERATION_def Let_def)

lemma sample_collected: "snd (collect sample_heap [value_heap 1 1]) = heap_default\<lparr>allocations := 3,
    last_collection_allocations := 3, free_slots := [2],
    slots := [\<lparr>slot_generation = 1, slot_location = Some 0\<rparr>, \<lparr>slot_generation = 1, slot_location = Some 1\<rparr>,
      \<lparr>slot_generation = 2, slot_location = None\<rparr>],
    objects := [\<lparr>ho_object = ObjStr ''kept'', ho_slot = 0, ho_young = False\<rparr>,
      \<lparr>ho_object = ObjList [value_heap 0 1], ho_slot = 1, ho_young = False\<rparr>]\<rparr>"
  by (simp add: collect_def sample_marked sample_finished del: One_nat_def)

lemma stale_handles_stay_dead_witness:
  "try_get (run_events sample_heap ([EvCollect [value_heap 1 1]] @ [EvAlloc (ObjInt 7)])) (value_heap 2 1) = None"
proof (rule stale_handles_stay_dead [OF sample_reachable])
  show "location sample_heap (value_heap 2 1) \<noteq> None" by (simp add: sample_location del: One_nat_def)
  show "admissible_run sample_heap [EvCollect [value_heap 1 1]]"
    by (simp add: admissible_def valid_def sample_location del: One_nat_def)
  show "location (run_events sample_heap [EvCollect [value_heap 1 1]]) (value_heap 2 1) = None"
    by (simp add: sample_collected del: One_nat_def) (simp add: machine_simps)
  show "admissible_run (run_events sample_heap [EvCollect [value_heap 1 1]]) [EvAlloc (ObjInt 7)]"
    by (simp add: admissible_def allocatable_def object_trace_def instance_parts_def)
qed

lemma mark_loop_Ok_valid:
  "mark_loop y h marked work = Ok marked' \<Longrightarrow> v \<in> set work \<Longrightarrow> valid h v"
proof (induction y h marked work arbitrary: marked' rule: mark_loop.induct)
  case (2 y h marked w work)
  show ?case
  proof (cases "heap_index w = None")
    case True
    then show ?thesis using 2(1,4,5) by (auto simp: valid_def)
  next
    case False
    then obtain l where l: "location h w = Some l" "l < length (objects h)" "l < length marked"
      using 2(4) by (auto split: option.splits if_splits)
    show ?thesis
    proof (cases "y \<and> \<not> ho_young (objects h ! l) \<or> marked ! l")
      case True
      then show ?thesis using 2(2) [OF False l(1)] 2(4,5) False l by (auto simp: valid_def)
    next
      case new: False
      then show ?thesis using 2(3) [OF False l(1) _ new] 2(4,5) False l by (auto simp: valid_def)
    qed
  qed
qed simp

text \<open>C23: A stale root is refused and the heap stays as it was, in both kinds of collection.\<close>

theorem collect_error_atomic:
  assumes "heap_reachable h" "v \<in> set roots" "\<not> valid h v"
  shows "(\<exists>d. collect h roots = (Err d, h)) \<and> (\<exists>d. collect_young h roots = (Err d, h))"
proof -
  have wf: "slots_wf h" using reachable_heap_inv [OF assms(1)] by (simp add: heap_inv_def heap_ok_def)
  have err: "\<exists>d. mark_loop y h (no_marks h) work = Err d" if "v \<in> set work" for y work
    using mark_loop_invalid [OF wf length_no_marks, of y work]
  proof (cases rule: cleanE)
    case (1 m)
    then show ?thesis using mark_loop_Ok_valid [OF _ that] assms(3) by blast
  qed blast
  obtain work where work: "remembered_edges h (remembered h) (initial_work h roots) = Ok work"
    "\<forall>w. w \<in> set (initial_work h roots) \<longrightarrow> w \<in> set work"
    using remembered_edges_Ok [OF wf, of "remembered h" "initial_work h roots"] by blast
  have "\<exists>d. mark_loop False h (no_marks h) (initial_work h roots) = Err d"
    by (rule err) (simp add: assms(2))
  moreover have "\<exists>d. mark_loop True h (no_marks h) work = Err d"
    by (rule err) (simp add: assms(2) work(2))
  ultimately show ?thesis using work(1) by (auto simp: collect_def collect_young_def)
qed

lemma collect_error_atomic_witness:
  "(\<exists>d. collect sample_heap [value_heap 2 9] = (Err d, sample_heap)) \<and>
   (\<exists>d. collect_young sample_heap [value_heap 2 9] = (Err d, sample_heap))"
  by (rule collect_error_atomic [OF sample_reachable, of "value_heap 2 9"])
    (simp_all add: valid_def sample_heap_eq machine_simps)






text \<open>What a collection puts on the finalization queues, and what it reclaims without having done so.\<close>

definition finalizes_first :: "tvalue set \<Rightarrow> heap \<Rightarrow> heap \<Rightarrow> bool" where
  "finalizes_first keep h h' \<longleftrightarrow> (\<exists>g f.
     pending_generators h' = pending_generators h @ g \<and> pending_finalizers h' = pending_finalizers h @ f \<and>
     (\<forall>v\<in>set g \<union> set f.
        \<not> reaches h (keep \<union> set (pending_generators h) \<union> set (pending_finalizers h)) v) \<and>
     (\<forall>v\<in>set g. \<exists>ob. try_get h v = Some ob \<and> is_suspended_generator ob) \<and>
     (\<forall>v\<in>set f. v \<notin> set (finalized_objects h) \<and> (\<exists>ob. try_get h v = Some ob \<and> is_finalizable ob))) \<and>
   (\<forall>v ob. try_get h v = Some ob \<and> try_get h' v = None \<longrightarrow> \<not> is_suspended_generator ob \<and>
      (is_finalizable ob \<longrightarrow> v \<in> set (finalized_objects h) \<or> special_method_call h v ''__del__'' = Ok None))"

lemma collected_finalizes_first:
  assumes ok: "heap_ok h" and c: "collected y h roots h'"
  shows "finalizes_first (set roots \<union> (if y then old_handles h else {})) h h'"
proof -
  have q: "queued y h roots h'" and first: "finalized_first h h'" using c by (auto simp: collected_def)
  have wf': "slots_wf h'" using collected_heap_ok [OF ok c] by (simp add: heap_ok_def)
  have gone: "location h' v = None" if "try_get h' v = None" for v
    using that by (simp add: try_get_location [OF wf'])
  obtain g f where gf: "pending_generators h' = pending_generators h @ g" "pending_finalizers h' = pending_finalizers h @ f"
    "set f \<inter> set (finalized_objects h) = {}" "\<forall>v\<in>set g \<union> set f. \<not> reaches h (sources y h roots h) v"
    "\<forall>v\<in>set g. \<exists>ob. try_get h v = Some ob \<and> is_suspended_generator ob"
    "\<forall>v\<in>set f. \<exists>ob. try_get h v = Some ob \<and> is_finalizable ob"
    using q unfolding queued_def by blast
  have "sources y h roots h =
      set roots \<union> (if y then old_handles h else {}) \<union> set (pending_generators h) \<union> set (pending_finalizers h)"
    by (auto simp: sources_def)
  with gf(4) have "\<forall>v\<in>set g \<union> set f. \<not> reaches h (set roots \<union> (if y then old_handles h else {}) \<union>
      set (pending_generators h) \<union> set (pending_finalizers h)) v" by simp
  moreover have "\<forall>v\<in>set f. v \<notin> set (finalized_objects h) \<and> (\<exists>ob. try_get h v = Some ob \<and> is_finalizable ob)"
    using gf(3,6) by blast
  moreover have "\<forall>v ob. try_get h v = Some ob \<and> try_get h' v = None \<longrightarrow> \<not> is_suspended_generator ob \<and>
      (is_finalizable ob \<longrightarrow> v \<in> set (finalized_objects h) \<or> special_method_call h v ''__del__'' = Ok None)"
    using first gone unfolding finalized_first_def by blast
  ultimately show ?thesis unfolding finalizes_first_def using gf(1,2,5) by blast
qed

lemma finalizes_first_kept:
  "finalizes_first keep h h' \<Longrightarrow> try_get h v = Some ob \<Longrightarrow> is_suspended_generator ob \<or>
     is_finalizable ob \<and> v \<notin> set (finalized_objects h) \<and> special_method_call h v ''__del__'' \<noteq> Ok None \<Longrightarrow>
   try_get h' v \<noteq> None"
  unfolding finalizes_first_def by (drule conjunct2) (metis (no_types, lifting))

text \<open>C21: Both collections finalize before they reclaim. What a full collection puts on the finalization
  queues are suspended generators and objects that were never finalized, all of them out of reach of
  the roots and the queues; for a nursery collection, out of reach of the old objects too. And neither
  reclaims a suspended generator, or an instance or exception with a \<open>__del__\<close> that was not finalized
  before.\<close>

theorem collect_finalizes_first:
  assumes "heap_reachable h" "\<forall>v\<in>set roots. valid h v"
  shows "(\<exists>stats h'. collect h roots = (Ok stats, h') \<and> finalizes_first (set roots) h h') \<and>
    (\<exists>stats h'. collect_young h roots = (Ok stats, h') \<and> finalizes_first (set roots \<union> old_handles h) h h')"
proof -
  have ok: "heap_ok h" using reachable_heap_inv [OF assms(1)] by (simp add: heap_inv_def)
  obtain stats h1 where "collect h roots = (Ok stats, h1)" and full: "collected False h roots h1"
    using collect_spec [OF ok assms(2)] by blast
  moreover have "finalizes_first (set roots) h h1" using collected_finalizes_first [OF ok full] by simp
  moreover obtain stats2 h2 where "collect_young h roots = (Ok stats2, h2)" and young: "collected True h roots h2"
    using collect_young_spec [OF ok assms(2)] by blast
  moreover have "finalizes_first (set roots \<union> old_handles h) h h2"
    using collected_finalizes_first [OF ok young] by simp
  ultimately show ?thesis by blast
qed

lemma ledger_run:
  "heap_inv h \<Longrightarrow> admissible_run h es \<Longrightarrow> v \<in> set (finalized_objects h) \<Longrightarrow> v \<notin> set (pending_finalizers h) \<Longrightarrow>
   v \<notin> set (pending_finalizers (run_events h es))"
proof (induction es arbitrary: h)
  case (Cons e es)
  have good: "good_step h (is_collection e) (run_event h e)" using run_event_good Cons.prems by simp
  let ?h = "snd (run_event h e)"
  have inv: "heap_inv ?h" and step: "ledger_step h ?h" using good by (auto simp: good_step_def)
  show ?case
  proof (cases "location ?h v")
    case None
    have "location h v \<noteq> None" using Cons.prems(1,3) by (auto simp: heap_inv_def ledger_ok_def)
    then have "dead ?h v" using good None by (auto simp: good_step_def)
    then have "location (run_events ?h es) v = None"
      using run_dead [OF inv] Cons.prems(2) by (simp add: dead_location)
    moreover have "ledger_ok (run_events ?h es)"
      using run_inv [OF inv] Cons.prems(2) by (simp add: heap_inv_def)
    ultimately show ?thesis unfolding ledger_ok_def run_events.simps by blast
  next
    case (Some l)
    then show ?thesis using Cons.IH [OF inv] Cons.prems step by (auto simp: ledger_step_def)
  qed
qed simp

text \<open>C22: A \<open>__del__\<close> is queued once: an object in the ledger that has left the queue never enters it
  again, whatever happens to the heap.\<close>

theorem finalizer_once:
  assumes "heap_reachable h" "admissible_run h es" "v \<in> set (finalized_objects h)" "v \<notin> set (pending_finalizers h)"
  shows "v \<notin> set (pending_finalizers (run_events h es))"
  by (rule ledger_run [OF reachable_heap_inv [OF assms(1)] assms(2-4)])

definition sample_class :: class_object where
  "sample_class = \<lparr>cls_root = False, cls_id = 0, cls_version = 0, cls_name = ''C'', cls_metaclass = NONE,
     cls_namespace_mapping = None, cls_attributes = [(''__del__'', NONE)], cls_extra_attributes = [],
     cls_dictionary_order = [], cls_bases = [], cls_mro = [], cls_dependents = []\<rparr>"

definition finalized_heap :: heap where
  "finalized_heap = run_events heap_default [EvAlloc (ObjClass sample_class),
     EvAlloc (ObjInstance (value_heap 0 1) attributes_default None), EvQueueFinalizers, EvPopFinalizer]"

lemmas finalizer_simps = queue_all_object_finalizers_def entry_handle_def index_at_def is_finalizable_def
  queue_object_finalizer_def special_method_call_def instance_class_def class_lookup_def heap_class_def
  heap_get_def ok_or_def sample_class_def pop_object_finalizer_def pop_last_def

lemma finalized_heap_facts:
  "finalized_objects finalized_heap = [value_heap 1 1]" "pending_finalizers finalized_heap = []"
  by (simp_all add: finalized_heap_def machine_simps finalizer_simps)

lemma finalized_admissible: "admissible_run heap_default [EvAlloc (ObjClass sample_class),
     EvAlloc (ObjInstance (value_heap 0 1) attributes_default None), EvQueueFinalizers, EvPopFinalizer]"
  by (simp add: admissible_def allocatable_def valid_def object_trace_def class_trace_def instance_parts_def
      attributes_default_def class_chain_ok_def is_class_def machine_simps finalizer_simps)

lemma finalizer_once_witness:
  "value_heap 1 1 \<notin> set (pending_finalizers (run_events finalized_heap [EvQueueFinalizers, EvCollect []]))"
proof (rule finalizer_once)
  show "heap_reachable finalized_heap"
    unfolding finalized_heap_def by (rule reachable_run [OF heap_reachable.start finalized_admissible])
qed (simp_all add: admissible_def finalized_heap_facts)

text \<open>An instance with a \<open>__del__\<close> and a suspended generator, which nothing refers to.\<close>

definition suspended_generator :: generator_frame where
  "suspended_generator = \<lparr>gen_class = NONE, gen_kind = KindGenerator, gen_execution = 0, gen_code = 0, gen_ip = 1,
     gen_registers = [], gen_cells = [], gen_exception_stack = [], gen_resume_register = None,
     gen_yield_from = None, gen_async_driver = None, gen_return_value = NONE, gen_state = GenSuspended\<rparr>"

definition orphan_events :: "heap_event list" where
  "orphan_events = [EvAlloc (ObjClass sample_class),
     EvAlloc (ObjInstance (value_heap 0 1) attributes_default None), EvAlloc (ObjGenerator suspended_generator)]"

definition orphan_heap :: heap where
  "orphan_heap = run_events heap_default orphan_events"

lemma orphan_reachable: "heap_reachable orphan_heap"
  unfolding orphan_heap_def
  by (rule reachable_run [OF heap_reachable.start])
    (simp add: orphan_events_def suspended_generator_def admissible_def allocatable_def valid_def object_trace_def
      class_trace_def instance_parts_def attributes_default_def class_chain_ok_def is_class_def
      machine_simps finalizer_simps)

lemma orphan_objects:
  "try_get orphan_heap (value_heap 1 1) = Some (ObjInstance (value_heap 0 1) attributes_default None)"
  "try_get orphan_heap (value_heap 2 1) = Some (ObjGenerator suspended_generator)"
  "finalized_objects orphan_heap = []" "special_method_call orphan_heap (value_heap 1 1) ''__del__'' \<noteq> Ok None"
  by (simp_all add: orphan_heap_def orphan_events_def machine_simps finalizer_simps)

text \<open>Neither collection reclaims them, without any root: they are queued.\<close>

lemma collect_finalizes_first_witness:
  "(\<exists>stats h'. collect orphan_heap [] = (Ok stats, h') \<and> finalizes_first {} orphan_heap h' \<and>
      try_get h' (value_heap 1 1) \<noteq> None \<and> try_get h' (value_heap 2 1) \<noteq> None) \<and>
   (\<exists>stats h'. collect_young orphan_heap [] = (Ok stats, h') \<and>
      finalizes_first (old_handles orphan_heap) orphan_heap h' \<and>
      try_get h' (value_heap 1 1) \<noteq> None \<and> try_get h' (value_heap 2 1) \<noteq> None)"
proof -
  have kept: "try_get h' (value_heap 1 1) \<noteq> None \<and> try_get h' (value_heap 2 1) \<noteq> None"
    if "finalizes_first keep orphan_heap h'" for keep h'
    using finalizes_first_kept [OF that orphan_objects(1)] finalizes_first_kept [OF that orphan_objects(2)]
      orphan_objects(3,4)
    by (simp add: is_finalizable_def is_suspended_generator_def suspended_generator_def)
  from collect_finalizes_first [OF orphan_reachable, of "[]"] kept show ?thesis by auto
qed

end
