(* ===== verification/Floats.thy ===== *)
theory Floats
  imports Complex_Main Values "HOL-Library.Log_Nat" "HOL-Library.Signed_Division"
begin

text \<open>
  IEEE-754 binary64 as Rust's \<open>f64\<close> computes with it. A number is its 64-bit pattern: the sign in
  bit 63 and the magnitude below, whose patterns are in the order of the numbers they stand for.
  Every finite number is an integer multiple of \<open>2^-1074\<close>: \<open>mag_scaled\<close> is that multiple for a
  magnitude, \<open>F64_UNIT\<close> the multiple of 1. Addition, multiplication, division, remainder and the
  conversions are the exact result, rounded once to the nearest magnitude with ties to the even
  pattern (\<open>round_mag\<close>, \<open>round_mag_nearest\<close>); a quiet NaN is one canonical pattern.

  \<open>nearest_f64\<close>, \<open>overflows_f64\<close> and \<open>nearest_int\<close> state correct rounding of a rational number without
  any algorithm; theory Numbers proves the rounding code of the runtime against them.
\<close>

definition round_half_even :: "int \<Rightarrow> int \<Rightarrow> int" where
  "round_half_even n d = (let q = n div d; r = 2 * (n mod d) in
     if d < r \<or> (r = d \<and> odd q) then q + 1 else q)"

definition f64_sign :: "64 word \<Rightarrow> bool" where
  "f64_sign w \<longleftrightarrow> 2 ^ 63 \<le> unat w"

definition f64_mag :: "64 word \<Rightarrow> nat" where
  "f64_mag w = unat w mod 2 ^ 63"

definition F64_INF :: nat where "F64_INF = 2047 * 2 ^ 52"

definition f64_make :: "bool \<Rightarrow> nat \<Rightarrow> 64 word" where
  "f64_make neg m = of_nat (if neg then 2 ^ 63 + m else m)"

definition mag_scaled :: "nat \<Rightarrow> int" where
  "mag_scaled m = (if m < 2 ^ 52 then int m
     else (2 ^ 52 + int (m mod 2 ^ 52)) * 2 ^ (m div 2 ^ 52 - 1))"

definition bits :: "int \<Rightarrow> nat" where
  "bits n = nat (bitlen \<bar>n\<bar>)"

definition round_mag :: "int \<Rightarrow> int \<Rightarrow> nat" where
  "round_mag x y = (let s = bits (x div y) - 53 in
     s * 2 ^ 52 + nat (round_half_even x (y * 2 ^ s)))"

lemma mag_scaled_pack:
  assumes "q \<le> 2 ^ 53" "s = 0 \<or> 2 ^ 52 \<le> q"
  shows "mag_scaled (s * 2 ^ 52 + q) = int q * 2 ^ s"
proof -
  consider "q < 2 ^ 52" | "2 ^ 52 \<le> q" "q < 2 ^ 53" | "q = 2 ^ 53" using assms(1) by linarith
  then show ?thesis
  proof cases
    case 1
    with assms(2) show ?thesis by (simp add: mag_scaled_def)
  next
    case 2
    define r where "r = q - 2 ^ 52"
    have q: "q = 2 ^ 52 + r" and r: "r < 2 ^ 52" using 2 by (simp_all add: r_def)
    have "s * 2 ^ 52 + q = (s + 1) * 2 ^ 52 + r" by (simp add: q)
    then have "(s * 2 ^ 52 + q) div 2 ^ 52 = s + 1" "(s * 2 ^ 52 + q) mod 2 ^ 52 = r"
      using r by (simp_all del: mult_Suc add: div_add1_eq mod_add_eq)
    then show ?thesis using 2 by (simp add: mag_scaled_def q)
  next
    case 3
    then have "s * 2 ^ 52 + q = (s + 2) * 2 ^ 52" by simp
    then have "(s * 2 ^ 52 + q) div 2 ^ 52 = s + 2" "(s * 2 ^ 52 + q) mod 2 ^ 52 = 0"
      by (simp_all only: nonzero_mult_div_cancel_right mod_mult_self2_is_0, simp)
    then show ?thesis using 3 by (simp add: mag_scaled_def)
  qed
qed

lemma mag_scaled_pack_int:
  assumes "0 \<le> q" "q \<le> 2 ^ 53" "s = 0 \<or> 2 ^ 52 \<le> q"
  shows "mag_scaled (s * 2 ^ 52 + nat q) = q * 2 ^ s"
proof -
  have "mag_scaled (s * 2 ^ 52 + nat q) = int (nat q) * 2 ^ s"
    using assms by (intro mag_scaled_pack) (auto simp: le_nat_iff)
  with assms(1) show ?thesis by simp
qed

lemma mag_cases:
  obtains s q :: nat where "m = s * 2 ^ 52 + q" "q < 2 ^ 53" "s = 0 \<or> 2 ^ 52 \<le> q"
proof (cases "m < 2 ^ 53")
  case True
  then show thesis using that [of 0 m] by simp
next
  case False
  have m: "m = m div 2 ^ 52 * 2 ^ 52 + m mod 2 ^ 52" by (simp only: div_mult_mod_eq)
  have b: "m mod 2 ^ 52 < 2 ^ 52" by simp
  have "2 \<le> m div 2 ^ 52" using False by simp
  then obtain s where s: "m div 2 ^ 52 = Suc s" by (cases "m div 2 ^ 52") auto
  show thesis
  proof (rule that [of s "2 ^ 52 + m mod 2 ^ 52"])
    have "m = Suc s * 2 ^ 52 + m mod 2 ^ 52" using m s by argo
    then show "m = s * 2 ^ 52 + (2 ^ 52 + m mod 2 ^ 52)" by simp
  qed (use b in simp_all)
qed

lemma mag_scaled_less_Suc: "mag_scaled m < mag_scaled (Suc m)"
proof -
  obtain s q where m: "m = s * 2 ^ 52 + q" and q: "q < 2 ^ 53" "s = 0 \<or> 2 ^ 52 \<le> q" by (rule mag_cases)
  have "mag_scaled m = int q * 2 ^ s" unfolding m using q by (intro mag_scaled_pack) auto
  moreover have "mag_scaled (s * 2 ^ 52 + (q + 1)) = int (q + 1) * 2 ^ s"
    using q by (intro mag_scaled_pack) auto
  moreover have "Suc m = s * 2 ^ 52 + (q + 1)" by (simp add: m)
  ultimately show ?thesis by (simp add: algebra_simps)
qed

lemma mag_scaled_mono: "strict_mono mag_scaled"
  by (simp add: strict_mono_Suc_iff mag_scaled_less_Suc)

lemma mag_scaled_le_iff [simp]: "mag_scaled m \<le> mag_scaled n \<longleftrightarrow> m \<le> n"
  by (rule strict_mono_less_eq [OF mag_scaled_mono])

lemma round_half_even_cases:
  assumes "0 < d"
  shows "n div d \<le> round_half_even n d" "round_half_even n d \<le> n div d + 1"
    "2 * \<bar>n - round_half_even n d * d\<bar> \<le> d"
    "2 * \<bar>n - round_half_even n d * d\<bar> = d \<Longrightarrow> even (round_half_even n d)"
proof -
  have n: "n = n div d * d + n mod d" by simp
  have b: "0 \<le> n mod d" "n mod d < d" using assms by simp_all
  have q0: "n - n div d * d = n mod d" using n by linarith
  have q1: "n - (n div d + 1) * d = n mod d - d" using n by (simp add: algebra_simps)
  show "n div d \<le> round_half_even n d" "round_half_even n d \<le> n div d + 1"
    by (auto simp: round_half_even_def Let_def)
  show "2 * \<bar>n - round_half_even n d * d\<bar> \<le> d"
    using b by (auto simp: round_half_even_def Let_def q0 q1)
  show "2 * \<bar>n - round_half_even n d * d\<bar> = d \<Longrightarrow> even (round_half_even n d)"
    using b by (auto simp: round_half_even_def Let_def q0 q1 split: if_splits)
qed

lemma bits_bounds:
  assumes "0 < n"
  shows "2 ^ (bits n - 1) \<le> n" "n < 2 ^ bits n" "0 < bits n"
proof -
  have "2 ^ nat (bitlen n - 1) \<le> n \<and> n < 2 ^ nat (bitlen n)" by (rule bitlen_bounds [OF assms])
  moreover have "0 < bitlen n" using assms by (simp add: bitlen_eq_zero_iff bitlen_nonneg order_less_le)
  ultimately show "2 ^ (bits n - 1) \<le> n" "n < 2 ^ bits n" "0 < bits n"
    using assms by (auto simp: bits_def nat_diff_distrib)
qed

lemma bits_0 [simp]: "bits 0 = 0"
  by (simp add: bits_def bitlen_def floorlog_def)


lemma round_mag_near:
  assumes x: "0 \<le> x" and y: "0 < y"
  obtains s :: nat and q f :: int where
    "round_mag x y = s * 2 ^ 52 + nat q" "q = round_half_even x (y * 2 ^ s)"
    "f = x div (y * 2 ^ s)" "0 \<le> f" "f < 2 ^ 53" "f \<le> q" "q \<le> f + 1" "s = 0 \<or> 2 ^ 52 \<le> f"
    "s = bits (x div y) - 53"
proof -
  define s f q where "s = bits (x div y) - 53" and "f = x div (y * 2 ^ s)"
    and "q = round_half_even x (y * 2 ^ s)"
  have d: "0 < y * 2 ^ s" using y by simp
  have f0: "0 \<le> f" using x d by (simp add: f_def div_int_pos_iff)
  have f: "f = x div y div 2 ^ s" using y by (simp add: f_def zdiv_zmult2_eq)
  have u0: "0 \<le> x div y" using x y by (simp add: div_int_pos_iff)
  have fb: "f < 2 ^ 53 \<and> (s = 0 \<or> 2 ^ 52 \<le> f)"
  proof (cases "s = 0")
    case True
    have "x div y < 2 ^ 53"
    proof (cases "x div y = 0")
      case False
      then have "x div y < 2 ^ bits (x div y)" using u0 by (intro bits_bounds) simp
      also have "\<dots> \<le> 2 ^ 53" using True by (intro power_increasing) (simp_all add: s_def)
      finally show ?thesis .
    qed simp
    then show ?thesis using True by (simp add: f)
  next
    case False
    then have b: "bits (x div y) = s + 53" by (simp add: s_def)
    then have pos: "0 < x div y" using u0 by (cases "x div y = 0") simp_all
    define u where "u = x div y"
    have l: "2 ^ 52 * 2 ^ s \<le> u" and h: "u < 2 ^ 53 * 2 ^ s"
      using bits_bounds(1,2) [OF pos] by (simp_all add: u_def b power_add mult.commute)
    have "2 ^ 52 * 2 ^ s div 2 ^ s \<le> u div 2 ^ s" by (rule zdiv_mono1 [OF l]) simp
    moreover have "u div 2 ^ s * 2 ^ s \<le> u" by (simp add: minus_mod_eq_div_mult [symmetric])
    then have "u div 2 ^ s * 2 ^ s < 2 ^ 53 * 2 ^ s" using h by linarith
    then have "u div 2 ^ s < 2 ^ 53" by simp
    ultimately show ?thesis by (simp add: f u_def)
  qed
  have q: "f \<le> q" "q \<le> f + 1"
    using round_half_even_cases(1,2) [OF d, of x] by (simp_all add: f_def q_def)
  show thesis
  proof (rule that)
    show "round_mag x y = s * 2 ^ 52 + nat q" by (simp only: round_mag_def s_def q_def Let_def)
    show "s = 0 \<or> 2 ^ 52 \<le> f" "f < 2 ^ 53" using fb by blast+
  qed (fact q_def f_def s_def f0 q)+
qed

lemma round_mag_nearest:
  assumes x: "0 \<le> x" and y: "0 < y"
  shows "\<bar>x - y * mag_scaled (round_mag x y)\<bar> \<le> \<bar>x - y * mag_scaled m\<bar>"
    and "\<bar>x - y * mag_scaled (round_mag x y)\<bar> = \<bar>x - y * mag_scaled m\<bar> \<Longrightarrow>
      m \<noteq> round_mag x y \<Longrightarrow> even (round_mag x y)"
proof -
  obtain s q f where r: "round_mag x y = s * 2 ^ 52 + nat q" "q = round_half_even x (y * 2 ^ s)"
    and f: "f = x div (y * 2 ^ s)" "0 \<le> f" "f < 2 ^ 53" "f \<le> q" "q \<le> f + 1" "s = 0 \<or> 2 ^ 52 \<le> f"
    by (rule round_mag_near [OF x y])
  have d: "0 < y * 2 ^ s" using y by simp
  define m0 where "m0 = s * 2 ^ 52 + nat f"
  have S0: "mag_scaled m0 = f * 2 ^ s"
    unfolding m0_def by (rule mag_scaled_pack_int) (use f(2-6) in auto)
  have "mag_scaled (s * 2 ^ 52 + nat (f + 1)) = (f + 1) * 2 ^ s"
    by (rule mag_scaled_pack_int) (use f(2-6) in auto)
  then have S1: "mag_scaled (m0 + 1) = (f + 1) * 2 ^ s"
    using f(2) by (simp add: m0_def nat_add_distrib add.assoc)
  have Sr: "mag_scaled (round_mag x y) = q * 2 ^ s"
    unfolding r(1) by (rule mag_scaled_pack_int) (use f(2-6) in auto)
  have e: "even (round_mag x y) \<longleftrightarrow> even q" using f by (simp add: r(1) even_nat_iff)
  have lo: "y * mag_scaled m0 \<le> x"
  proof -
    have "f * (y * 2 ^ s) \<le> x" using d by (simp add: f(1) minus_mod_eq_div_mult [symmetric])
    then show ?thesis by (simp add: S0 mult.left_commute)
  qed
  have hi: "x < y * mag_scaled (m0 + 1)"
  proof -
    have "x mod (y * 2 ^ s) < y * 2 ^ s" using d by simp
    then have "x < f * (y * 2 ^ s) + y * 2 ^ s"
      using div_mult_mod_eq [of x "y * 2 ^ s"] unfolding f(1) by linarith
    then show ?thesis unfolding S1 by (simp add: algebra_simps)
  qed
  have gap: "y * mag_scaled (m0 + 1) - y * mag_scaled m0 = y * 2 ^ s"
    unfolding S0 S1 by (simp add: algebra_simps)
  have near: "2 * \<bar>x - y * mag_scaled (round_mag x y)\<bar> \<le> y * 2 ^ s"
    "2 * \<bar>x - y * mag_scaled (round_mag x y)\<bar> = y * 2 ^ s \<Longrightarrow> even (round_mag x y)"
    using round_half_even_cases(3,4) [OF d, of x] unfolding e r(2) [symmetric] Sr
    by (simp_all add: mult.left_commute)
  have which: "round_mag x y = m0 \<or> round_mag x y = m0 + 1"
    using f r(1) by (auto simp: m0_def nat_add_distrib order_le_less)
  have far: "y * mag_scaled m \<le> y * mag_scaled m0 \<or> y * mag_scaled (m0 + 1) \<le> y * mag_scaled m"
    using y by auto
  show a: "\<bar>x - y * mag_scaled (round_mag x y)\<bar> \<le> \<bar>x - y * mag_scaled m\<bar>"
    using which near(1) far lo hi gap by auto
  have strict: "m = m0 \<or> m = m0 + 1 \<or> y * mag_scaled m < y * mag_scaled m0 \<or> y * mag_scaled (m0 + 1) < y * mag_scaled m"
    using y by (auto simp: strict_mono_less [OF mag_scaled_mono])
  assume t: "\<bar>x - y * mag_scaled (round_mag x y)\<bar> = \<bar>x - y * mag_scaled m\<bar>" "m \<noteq> round_mag x y"
  have "2 * \<bar>x - y * mag_scaled (round_mag x y)\<bar> = y * 2 ^ s"
    using t which strict near(1) lo hi gap by auto
  then show "even (round_mag x y)" by (rule near(2))
qed


lemma mag_scaled_0 [simp]: "mag_scaled 0 = 0"
  by (simp add: mag_scaled_def)

lemma mag_scaled_nonneg [simp]: "0 \<le> mag_scaled m"
  using mag_scaled_le_iff [of 0 m] by simp

lemma mag_scaled_eq_iff [simp]: "mag_scaled m = mag_scaled n \<longleftrightarrow> m = n"
  by (rule strict_mono_eq [OF mag_scaled_mono])

lemma mag_scaled_less_iff [simp]: "mag_scaled m < mag_scaled n \<longleftrightarrow> m < n"
  by (rule strict_mono_less [OF mag_scaled_mono])

lemma round_mag_exact:
  assumes y: "0 < y" and x: "x = y * mag_scaled m"
  shows "round_mag x y = m"
proof -
  have "0 \<le> x" using y by (simp add: x)
  from round_mag_nearest(1) [OF this y, of m] have "x = y * mag_scaled (round_mag x y)" by (simp add: x)
  then show ?thesis using y by (simp add: x)
qed

definition f64_nan :: "64 word" where "f64_nan = 0x7FF8000000000000"

definition f64_is_nan :: "64 word \<Rightarrow> bool" where
  "f64_is_nan w \<longleftrightarrow> F64_INF < f64_mag w"

definition f64_is_infinite :: "64 word \<Rightarrow> bool" where
  "f64_is_infinite w \<longleftrightarrow> f64_mag w = F64_INF"

definition f64_is_finite :: "64 word \<Rightarrow> bool" where
  "f64_is_finite w \<longleftrightarrow> f64_mag w < F64_INF"

definition f64_is_zero :: "64 word \<Rightarrow> bool" where
  "f64_is_zero w \<longleftrightarrow> f64_mag w = 0"

definition F64_UNIT :: int where "F64_UNIT = 2 ^ 1074"

definition f64_scaled :: "64 word \<Rightarrow> int" where
  "f64_scaled w = (if f64_sign w then - mag_scaled (f64_mag w) else mag_scaled (f64_mag w))"

definition f64_round :: "bool \<Rightarrow> int \<Rightarrow> int \<Rightarrow> 64 word" where
  "f64_round neg x y = f64_make neg (min (round_mag x y) F64_INF)"

definition f64_of_int :: "int \<Rightarrow> 64 word" where
  "f64_of_int n = f64_round (n < 0) (\<bar>n\<bar> * F64_UNIT) 1"

definition f64_neg :: "64 word \<Rightarrow> 64 word" where
  "f64_neg w = f64_make (\<not> f64_sign w) (f64_mag w)"

definition f64_copysign :: "64 word \<Rightarrow> 64 word \<Rightarrow> 64 word" where
  "f64_copysign a b = f64_make (f64_sign b) (f64_mag a)"

definition f64_add :: "64 word \<Rightarrow> 64 word \<Rightarrow> 64 word" where
  "f64_add a b = (if f64_is_nan a \<or> f64_is_nan b then f64_nan
     else if f64_is_infinite a then (if f64_is_infinite b \<and> f64_sign a \<noteq> f64_sign b then f64_nan else a)
     else if f64_is_infinite b then b
     else let s = f64_scaled a + f64_scaled b in
       if s = 0 then f64_make (f64_sign a \<and> f64_sign b) 0 else f64_round (s < 0) \<bar>s\<bar> 1)"

definition f64_sub :: "64 word \<Rightarrow> 64 word \<Rightarrow> 64 word" where
  "f64_sub a b = f64_add a (f64_neg b)"

definition f64_mul :: "64 word \<Rightarrow> 64 word \<Rightarrow> 64 word" where
  "f64_mul a b = (let neg = (f64_sign a \<noteq> f64_sign b) in
     if f64_is_nan a \<or> f64_is_nan b then f64_nan
     else if f64_is_infinite a \<or> f64_is_infinite b
     then (if f64_is_zero a \<or> f64_is_zero b then f64_nan else f64_make neg F64_INF)
     else f64_round neg \<bar>f64_scaled a * f64_scaled b\<bar> F64_UNIT)"

definition f64_div :: "64 word \<Rightarrow> 64 word \<Rightarrow> 64 word" where
  "f64_div a b = (let neg = (f64_sign a \<noteq> f64_sign b) in
     if f64_is_nan a \<or> f64_is_nan b then f64_nan
     else if f64_is_infinite a then (if f64_is_infinite b then f64_nan else f64_make neg F64_INF)
     else if f64_is_infinite b then f64_make neg 0
     else if f64_is_zero b then (if f64_is_zero a then f64_nan else f64_make neg F64_INF)
     else f64_round neg (\<bar>f64_scaled a\<bar> * F64_UNIT) \<bar>f64_scaled b\<bar>)"

definition f64_rem :: "64 word \<Rightarrow> 64 word \<Rightarrow> 64 word" where
  "f64_rem a b = (if f64_is_nan a \<or> f64_is_nan b \<or> f64_is_infinite a \<or> f64_is_zero b then f64_nan
     else if f64_is_infinite b then a
     else f64_round (f64_sign a) (\<bar>f64_scaled a\<bar> mod \<bar>f64_scaled b\<bar>) 1)"

definition f64_floor :: "64 word \<Rightarrow> 64 word" where
  "f64_floor a = (if \<not> f64_is_finite a then a
     else f64_round (f64_sign a) \<bar>f64_scaled a div F64_UNIT * F64_UNIT\<bar> 1)"

definition f64_fract :: "64 word \<Rightarrow> 64 word" where
  "f64_fract a = (if f64_is_finite a
     then f64_sub a (f64_round (f64_sign a) (\<bar>f64_scaled a\<bar> div F64_UNIT * F64_UNIT) 1)
     else f64_nan)"

definition f64_lt :: "64 word \<Rightarrow> 64 word \<Rightarrow> bool" where
  "f64_lt a b \<longleftrightarrow> \<not> f64_is_nan a \<and> \<not> f64_is_nan b \<and> f64_scaled a < f64_scaled b"

definition f64_eq :: "64 word \<Rightarrow> 64 word \<Rightarrow> bool" where
  "f64_eq a b \<longleftrightarrow> \<not> f64_is_nan a \<and> \<not> f64_is_nan b \<and> f64_scaled a = f64_scaled b"

lemma unat_f64_make: "m < 2 ^ 63 \<Longrightarrow> unat (f64_make neg m) = (if neg then 2 ^ 63 + m else m)"
  by (simp add: f64_make_def unat_of_nat)

lemma f64_mag_make: "m < 2 ^ 63 \<Longrightarrow> f64_mag (f64_make neg m) = m"
  by (simp add: f64_mag_def unat_f64_make)

lemma f64_sign_make: "m < 2 ^ 63 \<Longrightarrow> f64_sign (f64_make neg m) = neg"
  by (simp add: f64_sign_def unat_f64_make)

lemma f64_mag_round: "f64_mag (f64_round neg x y) = min (round_mag x y) F64_INF"
  unfolding f64_round_def by (rule f64_mag_make) (simp add: F64_INF_def)

lemma f64_sign_round: "f64_sign (f64_round neg x y) = neg"
  unfolding f64_round_def by (rule f64_sign_make) (simp add: F64_INF_def)

lemma f64_make_eq: "f64_make (f64_sign w) (f64_mag w) = w"
proof -
  have w: "unat w < 2 ^ 64" using unsigned_less [of w] by simp
  have m: "f64_mag w < 2 ^ 63" by (simp add: f64_mag_def)
  have "unat (f64_make (f64_sign w) (f64_mag w)) = unat w"
  proof (cases "f64_sign w")
    case True
    then have "2 ^ 63 \<le> unat w" by (simp add: f64_sign_def)
    then have "unat w mod 2 ^ 63 = unat w - 2 ^ 63"
      using w by (simp add: le_mod_geq)
    then show ?thesis using True \<open>2 ^ 63 \<le> unat w\<close>
      by (simp add: unat_f64_make [OF m]) (simp add: f64_mag_def)
  next
    case False
    then show ?thesis
      by (simp add: unat_f64_make [OF m]) (simp add: f64_mag_def f64_sign_def)
  qed
  then show ?thesis by (simp only: word_unat_eq_iff)
qed

lemma f64_scaled_make: "m < 2 ^ 63 \<Longrightarrow>
    f64_scaled (f64_make neg m) = (if neg then - mag_scaled m else mag_scaled m)"
  by (simp add: f64_scaled_def f64_mag_make f64_sign_make)

lemma abs_f64_scaled: "\<bar>f64_scaled w\<bar> = mag_scaled (f64_mag w)"
  by (simp add: f64_scaled_def)

lemma f64_round_exact:
  "0 < y \<Longrightarrow> m \<le> F64_INF \<Longrightarrow> x = y * mag_scaled m \<Longrightarrow> f64_round neg x y = f64_make neg m"
  by (simp add: f64_round_def round_mag_exact)

lemma F64_UNIT_pos [simp]: "0 < F64_UNIT" "0 \<le> F64_UNIT" "F64_UNIT \<noteq> 0" "\<not> F64_UNIT < 0"
  by (simp_all add: F64_UNIT_def)

lemma f64_finite_make: "m < F64_INF \<Longrightarrow> f64_is_finite (f64_make neg m)"
  by (simp add: f64_is_finite_def f64_mag_make F64_INF_def)

definition f64_rat :: "64 word \<Rightarrow> rat" where
  "f64_rat w = of_int (f64_scaled w) / of_int F64_UNIT"

definition nearest_f64 :: "rat \<Rightarrow> 64 word \<Rightarrow> bool" where
  "nearest_f64 r w \<longleftrightarrow> f64_is_finite w \<and> (\<forall>v. f64_is_finite v \<longrightarrow>
     \<bar>r - f64_rat w\<bar> < \<bar>r - f64_rat v\<bar> \<or>
     \<bar>r - f64_rat w\<bar> = \<bar>r - f64_rat v\<bar> \<and> (f64_rat v = f64_rat w \<or> even (f64_mag w)))"

definition overflows_f64 :: "rat \<Rightarrow> bool" where
  "overflows_f64 r \<longleftrightarrow> (2 ^ 54 - 1) * 2 ^ 970 \<le> \<bar>r\<bar>"

definition nearest_int :: "rat \<Rightarrow> int \<Rightarrow> bool" where
  "nearest_int r k \<longleftrightarrow> (\<forall>j. \<bar>r - of_int k\<bar> < \<bar>r - of_int j\<bar> \<or>
     \<bar>r - of_int k\<bar> = \<bar>r - of_int j\<bar> \<and> (j = k \<or> even k))"

end
