(* ===== verification/Numbers.thy ===== *)
theory Numbers
  imports Floats
begin

text \<open>
  crates/tonic-runtime/src/number.rs: the correctly rounded quotient of two integers of any size,
  rounding of a float to an integer and to a number of decimal digits. The arguments are \<open>BigInt\<close>s
  (\<open>int\<close>); \<open>bits\<close> is \<open>BigInt::bits\<close>. The debugging assertions are preconditions of the callers here.
\<close>

unbundle bit_operations_syntax

section \<open>Quotients\<close>

definition ratio_overflow :: diagnostic where
  "ratio_overflow = diag_new ''OverflowError'' ''integer division result too large for float''"

definition ratio_exponent :: "int \<Rightarrow> int \<Rightarrow> int" where
  "ratio_exponent x y = (let e = int (bits x) - int (bits y) in
     if 0 \<le> e then (if x < push_bit (nat e) y then e - 1 else e)
     else if push_bit (nat (- e)) x < y then e - 1 else e)"

definition ratio_quotient :: "int \<Rightarrow> int \<Rightarrow> int \<Rightarrow> int" where
  "ratio_quotient shift x y =
     (let (numerator, denominator) = (if 0 \<le> shift then (push_bit (nat shift) x, y)
            else (x, push_bit (nat (- shift)) y));
          q = numerator div denominator;
          rem = push_bit 1 (numerator mod denominator) in
      if denominator < rem \<or> (rem = denominator \<and> q AND 1 \<noteq> 0) then q + 1 else q)"

definition ratio_power :: "int \<Rightarrow> 64 word" where
  "ratio_power scale = (if -1022 \<le> scale then push_bit 52 (word_of_int (scale + 1023))
     else push_bit (nat (scale + 1074)) 1)"

definition ratio :: "int \<Rightarrow> int \<Rightarrow> (64 word) res" where
  "ratio x0 y0 =
     (if y0 = 0 then fail ''ZeroDivisionError'' ''division by zero''
      else let negative = ((x0 < 0) \<noteq> (y0 < 0));
               signed = (\<lambda>f. if negative then f64_neg f else f) in
      if x0 = 0 then Ok (signed (f64_make False 0))
      else let x = \<bar>x0\<bar>; y = \<bar>y0\<bar>; e = ratio_exponent x y in
      if 1023 < e then Err ratio_overflow
      else if e < -1075 then Ok (signed (f64_make False 0))
      else let shift = (if e < -1022 then 1074 else 52 - e);
               q = ratio_quotient shift x y in
           if \<not> (0 \<le> q \<and> q < 2 ^ 64) then Err ratio_overflow
           else let result = f64_mul (f64_of_int q) (ratio_power (- shift)) in
             if f64_is_finite result then Ok (signed result) else Err ratio_overflow)"

lemma shifted_le:
  assumes "int i - int j = int i' - int j'"
  shows "b * 2 ^ i \<le> a * 2 ^ j \<longleftrightarrow> b * 2 ^ i' \<le> a * (2 :: int) ^ j'"
proof -
  have *: "b * 2 ^ (i + k) \<le> a * 2 ^ (j + k) \<longleftrightarrow> b * 2 ^ i \<le> a * (2 :: int) ^ j" for i j k
    by (simp add: power_add mult.assoc [symmetric])
  from assms have "i + j' = i' + j" by linarith
  have "b * 2 ^ i \<le> a * 2 ^ j \<longleftrightarrow> b * 2 ^ (i + j') \<le> a * 2 ^ (j + j')" by (rule * [symmetric])
  also have "\<dots> \<longleftrightarrow> b * 2 ^ (i' + j) \<le> a * 2 ^ (j' + j)" using \<open>i + j' = _\<close> by (simp add: add.commute)
  also have "\<dots> \<longleftrightarrow> b * 2 ^ i' \<le> a * 2 ^ j'" by (rule *)
  finally show ?thesis .
qed

lemma shifted_less:
  assumes "int i - int j = int i' - int j'"
  shows "a * 2 ^ j < b * 2 ^ i \<longleftrightarrow> a * 2 ^ j' < b * (2 :: int) ^ i'"
  using shifted_le [OF assms, of b a] by linarith

lemma ratio_exponent_bounds:
  assumes "0 < x" "0 < y"
  shows "int i - int j = ratio_exponent x y \<Longrightarrow> y * 2 ^ i \<le> x * 2 ^ j"
    and "int i - int j = ratio_exponent x y + 1 \<Longrightarrow> x * 2 ^ j < y * 2 ^ i"
proof -
  define p r where "p = bits x" and "r = bits y"
  have x: "2 ^ (p - 1) \<le> x" "x < 2 ^ p" "0 < p" and y: "2 ^ (r - 1) \<le> y" "y < 2 ^ r" "0 < r"
    using bits_bounds [OF assms(1)] bits_bounds [OF assms(2)] by (simp_all add: p_def r_def)
  have lower: "y * 2 ^ (p - 1) < x * 2 ^ r"
  proof -
    have "y * 2 ^ (p - 1) < 2 ^ r * 2 ^ (p - 1)" using y by simp
    also have "\<dots> \<le> 2 ^ r * x" using x by simp
    finally show ?thesis by (simp add: mult.commute)
  qed
  have upper: "x * 2 ^ (r - 1) < y * 2 ^ p"
  proof -
    have "x * 2 ^ (r - 1) < 2 ^ p * 2 ^ (r - 1)" using x by simp
    also have "\<dots> \<le> 2 ^ p * y" using y by simp
    finally show ?thesis by (simp add: mult.commute)
  qed
  have e: "ratio_exponent x y =
    (if x * 2 ^ r < y * 2 ^ p then int p - int r - 1 else int p - int r)"
  proof (cases "r \<le> p")
    case True
    then have "x * 2 ^ 0 < y * 2 ^ (p - r) \<longleftrightarrow> x * 2 ^ r < y * 2 ^ p" by (intro shifted_less) simp
    with True show ?thesis
      by (simp add: ratio_exponent_def Let_def p_def [symmetric] r_def [symmetric] push_bit_eq_mult
          nat_diff_distrib)
  next
    case False
    then have "x * 2 ^ (r - p) < y * 2 ^ 0 \<longleftrightarrow> x * 2 ^ r < y * 2 ^ p" by (intro shifted_less) simp
    moreover have "nat (int r - int p) = r - p" by simp
    ultimately show ?thesis using False
      by (simp add: ratio_exponent_def Let_def p_def [symmetric] r_def [symmetric] push_bit_eq_mult)
  qed
  {
    assume i: "int i - int j = ratio_exponent x y"
    show "y * 2 ^ i \<le> x * 2 ^ j"
    proof (cases "x * 2 ^ r < y * 2 ^ p")
      case True
      then have "y * 2 ^ i \<le> x * 2 ^ j \<longleftrightarrow> y * 2 ^ (p - 1) \<le> x * 2 ^ r"
        using i e x(3) by (intro shifted_le) (simp add: of_nat_diff)
      then show ?thesis using lower by simp
    next
      case False
      then have "y * 2 ^ i \<le> x * 2 ^ j \<longleftrightarrow> y * 2 ^ p \<le> x * 2 ^ r"
        using i e by (intro shifted_le) simp
      then show ?thesis using False by simp
    qed
  next
    assume i: "int i - int j = ratio_exponent x y + 1"
    show "x * 2 ^ j < y * 2 ^ i"
    proof (cases "x * 2 ^ r < y * 2 ^ p")
      case True
      then have "x * 2 ^ j < y * 2 ^ i \<longleftrightarrow> x * 2 ^ r < y * 2 ^ p"
        using i e by (intro shifted_less) simp
      then show ?thesis using True by simp
    next
      case False
      then have "x * 2 ^ j < y * 2 ^ i \<longleftrightarrow> x * 2 ^ (r - 1) < y * 2 ^ p"
        using i e y(3) by (intro shifted_less) (simp add: of_nat_diff)
      then show ?thesis using upper by simp
    qed
  }
qed


lemma bits_le: "0 \<le> n \<Longrightarrow> n < 2 ^ k \<Longrightarrow> bits n \<le> k"
proof (cases "n = 0")
  case False
  assume "0 \<le> n" "n < 2 ^ k"
  then have "0 < n" "n < 2 ^ k" using False by simp_all
  then have "(2 :: int) ^ (bits n - 1) < 2 ^ k" using bits_bounds(1) [of n] by linarith
  then have "bits n - 1 < k" by (simp only: power_strict_increasing_iff)
  then show ?thesis by linarith
qed simp

lemma bits_ge: "2 ^ k \<le> n \<Longrightarrow> k < bits n"
proof -
  assume n: "2 ^ k \<le> n"
  then have "0 < n" by (rule less_le_trans [rotated]) simp
  then have "n < 2 ^ bits n" by (rule bits_bounds)
  with n have "(2 :: int) ^ k < 2 ^ bits n" by (rule le_less_trans)
  then show ?thesis by simp
qed

lemma le_div_iff: "0 < y \<Longrightarrow> k \<le> x div y \<longleftrightarrow> k * y \<le> x" for x y k :: int
proof
  assume y: "0 < y" and k: "k \<le> x div y"
  then have "k * y \<le> x div y * y" by simp
  also have "\<dots> \<le> x" using y by (simp add: minus_mod_eq_div_mult [symmetric])
  finally show "k * y \<le> x" .
next
  assume y: "0 < y" and k: "k * y \<le> x"
  then show "k \<le> x div y" using zdiv_mono1 [OF k y] by simp
qed

lemma div_less_iff: "0 < y \<Longrightarrow> x div y < k \<longleftrightarrow> x < k * y" for x y k :: int
  using le_div_iff [of y k x] by linarith

lemma ratio_scale:
  assumes "0 < x" "0 < y"
  shows "bits (x * 2 ^ 1074 div y) - 53 = nat (ratio_exponent x y + 1022)"
proof -
  define e where "e = ratio_exponent x y"
  note bounds = ratio_exponent_bounds [OF assms, folded e_def]
  show ?thesis
  proof (cases "-1022 \<le> e")
    case True
    have "y * 2 ^ nat (e + 1074) \<le> x * 2 ^ 1074" by (rule bounds(1)) (use True in simp)
    then have "2 ^ nat (e + 1074) \<le> x * 2 ^ 1074 div y"
      using assms(2) by (simp add: le_div_iff mult.commute)
    then have "nat (e + 1074) < bits (x * 2 ^ 1074 div y)" by (rule bits_ge)
    moreover have "x * 2 ^ 1074 < y * 2 ^ nat (e + 1075)" by (rule bounds(2)) (use True in simp)
    then have "x * 2 ^ 1074 div y < 2 ^ nat (e + 1075)"
      using assms(2) by (simp add: div_less_iff mult.commute)
    then have "bits (x * 2 ^ 1074 div y) \<le> nat (e + 1075)"
      using assms by (intro bits_le) (simp_all add: div_int_pos_iff)
    ultimately show ?thesis using True by (simp add: e_def [symmetric])
  next
    case False
    have "x * 2 ^ 1074 < y * 2 ^ 52"
    proof (cases "0 \<le> e + 1075")
      case True
      have "x * 2 ^ 1074 < y * 2 ^ nat (e + 1075)" by (rule bounds(2)) (use True in simp)
      also have "y * 2 ^ nat (e + 1075) \<le> y * 2 ^ 52"
        using assms(2) False by (intro mult_left_mono power_increasing) simp_all
      finally show ?thesis .
    next
      case neg: False
      have "x * 2 ^ nat (- e - 1) < y * 2 ^ 0" by (rule bounds(2)) (use neg in simp)
      moreover have "x * 2 ^ 1074 \<le> x * 2 ^ nat (- e - 1)"
        using assms(1) neg by (intro mult_left_mono power_increasing) simp_all
      moreover have "y \<le> y * 2 ^ 52" using assms(2) by simp
      ultimately show ?thesis by simp
    qed
    then have "x * 2 ^ 1074 div y < 2 ^ 52"
      using assms(2) by (simp only: div_less_iff mult.commute [of "2 ^ 52"])
    then have "bits (x * 2 ^ 1074 div y) \<le> 52"
      using assms by (intro bits_le) (simp_all add: div_int_pos_iff)
    then show ?thesis using False by (simp add: e_def [symmetric])
  qed
qed

lemma round_half_even_scale:
  assumes "0 < c" shows "round_half_even (n * c) (d * c) = round_half_even n d"
proof -
  have "n * c mod (d * c) = n mod d * c" by (simp add: mod_mult_mult2)
  then show ?thesis using assms by (simp add: round_half_even_def Let_def)
qed

lemma representable:
  assumes "0 \<le> q" "q \<le> 2 ^ 53"
  shows "\<exists>m. mag_scaled m = q * 2 ^ t"
  using assms
proof (induction t arbitrary: q)
  case 0
  then show ?case using mag_scaled_pack_int [of q 0] by (intro exI [of _ "nat q"]) simp
next
  case (Suc t)
  show ?case
  proof (cases "2 ^ 52 \<le> q")
    case True
    with Suc.prems show ?thesis using mag_scaled_pack_int [of q "Suc t"] by (intro exI) auto
  next
    case False
    with Suc.prems have "\<exists>m. mag_scaled m = 2 * q * 2 ^ t" by (intro Suc.IH) simp_all
    then show ?thesis by (simp add: mult.assoc mult.left_commute)
  qed
qed

lemma mag_scaled_INF: "mag_scaled F64_INF = 2 ^ 52 * 2 ^ 2046"
proof -
  have "mag_scaled (2046 * 2 ^ 52 + nat (2 ^ 52)) = 2 ^ 52 * 2 ^ 2046"
    by (rule mag_scaled_pack_int) simp_all
  moreover have "2046 * 2 ^ 52 + nat (2 ^ 52) = F64_INF" by (simp add: F64_INF_def)
  ultimately show ?thesis by argo
qed

lemma f64_of_int_exact:
  assumes "0 \<le> q" "q \<le> 2 ^ 53"
  obtains m where "m < F64_INF" "f64_of_int q = f64_make False m" "mag_scaled m = q * 2 ^ 1074"
proof -
  obtain m where m: "mag_scaled m = q * 2 ^ 1074" using representable [OF assms] by blast
  have "q * 2 ^ 1074 \<le> 2 ^ 53 * 2 ^ 1074" using assms by (intro mult_right_mono) simp_all
  also have "\<dots> = 2 ^ 1127" by (simp flip: power_add)
  also have "\<dots> < (2 :: int) ^ 2098" by (rule power_strict_increasing) simp_all
  also have "\<dots> = mag_scaled F64_INF" by (simp only: mag_scaled_INF power_add [symmetric], simp)
  finally have less: "m < F64_INF" by (simp only: m [symmetric] mag_scaled_less_iff)
  show thesis
  proof (rule that [OF less _ m])
    show "f64_of_int q = f64_make False m"
      using assms less m by (simp add: f64_of_int_def F64_UNIT_def f64_round_exact)
  qed
qed


lemma ratio_power:
  assumes "s \<le> 2045"
  obtains m where "m < F64_INF" "ratio_power (int s - 1074) = f64_make False m" "mag_scaled m = 2 ^ s"
proof (cases "52 \<le> s")
  case True
  then obtain t where s: "s = t + 52" using le_Suc_ex [of 52 s] by (auto simp: add.commute)
  show thesis
  proof (rule that [of "t * 2 ^ 52 + nat (2 ^ 52)"])
    show "mag_scaled (t * 2 ^ 52 + nat (2 ^ 52)) = 2 ^ s"
      by (subst mag_scaled_pack_int) (simp_all add: s power_add)
    show "t * 2 ^ 52 + nat (2 ^ 52) < F64_INF" using assms by (simp add: s F64_INF_def)
    show "ratio_power (int s - 1074) = f64_make False (t * 2 ^ 52 + nat (2 ^ 52))"
      by (simp add: ratio_power_def f64_make_def s push_bit_eq_mult algebra_simps)
  qed
next
  case False
  have b: "(2 :: nat) ^ s < 2 ^ 52" using False by (intro power_strict_increasing) simp_all
  show thesis
  proof (rule that [of "2 ^ s"])
    show "mag_scaled (2 ^ s) = 2 ^ s" using b by (simp add: mag_scaled_def)
    show "2 ^ s < F64_INF" using b by (simp add: F64_INF_def)
    show "ratio_power (int s - 1074) = f64_make False (2 ^ s)"
      using False by (simp add: ratio_power_def f64_make_def push_bit_eq_mult)
  qed
qed

lemma f64_mul_exact:
  assumes "a = f64_make False m" "m < F64_INF" "mag_scaled m = q * 2 ^ 1074"
    and "b = f64_make False n" "n < F64_INF" "mag_scaled n = p"
    and "mag_scaled k = q * p" "k \<le> F64_INF"
  shows "f64_mul a b = f64_make False k"
proof -
  have mn: "m < 2 ^ 63" "n < 2 ^ 63" using assms by (simp_all add: F64_INF_def)
  have "0 \<le> q * 2 ^ 1074" by (simp only: assms(3) [symmetric] mag_scaled_nonneg)
  then have q: "0 \<le> q" by (simp add: zero_le_mult_iff)
  have p: "0 \<le> p" using assms by auto
  have f: "\<not> f64_is_nan a" "\<not> f64_is_infinite a" "\<not> f64_is_nan b" "\<not> f64_is_infinite b"
    using assms mn by (simp_all add: f64_is_nan_def f64_is_infinite_def f64_mag_make)
  have "f64_mul a b = f64_round False \<bar>f64_scaled a * f64_scaled b\<bar> (2 ^ 1074)"
    using f mn by (simp add: f64_mul_def F64_UNIT_def Let_def assms(1,4) f64_sign_make)
  also have "\<bar>f64_scaled a * f64_scaled b\<bar> = 2 ^ 1074 * mag_scaled k"
    using mn p q by (simp add: assms f64_scaled_make abs_mult ac_simps)
  finally show ?thesis using assms(8) by (simp add: f64_round_exact)
qed

lemma push_bit_1 [simp]: "push_bit (Suc 0) n = 2 * (n :: int)"
  by (simp add: push_bit_eq_mult)

lemma ratio_quotient: "ratio_quotient shift x y =
    (if 0 \<le> shift then round_half_even (push_bit (nat shift) x) y
     else round_half_even x (push_bit (nat (- shift)) y))"
  by (simp add: ratio_quotient_def round_half_even_def Let_def and_one_eq odd_iff_mod_2_eq_one)

lemma ratio_middle:
  assumes "0 < x" "0 < y" "ratio_exponent x y \<le> 1023"
    and shift: "shift = (if ratio_exponent x y < -1022 then 1074 else 52 - ratio_exponent x y)"
    and q0: "q = ratio_quotient shift x y"
  shows "0 \<le> q" "q \<le> 2 ^ 53" "round_mag (x * 2 ^ 1074) y \<le> F64_INF"
    "f64_mul (f64_of_int q) (ratio_power (- shift)) = f64_make False (round_mag (x * 2 ^ 1074) y)"
proof -
  note q = q0 [unfolded ratio_quotient]
  let ?X = "x * 2 ^ 1074"
  define s where "s = nat (ratio_exponent x y + 1022)"
  have s: "s \<le> 2045" using assms(3) by (simp add: s_def)
  have sh: "shift = 1074 - int s" by (simp add: shift s_def)
  have r: "bits (?X div y) - 53 = s" by (simp only: ratio_scale [OF assms(1,2)] s_def)
  have X: "0 \<le> ?X" using assms(1) by simp
  have qr: "q = round_half_even ?X (y * 2 ^ s)"
  proof (cases "s \<le> 1074")
    case True
    then obtain k where k: "1074 = s + k" using le_Suc_ex by blast
    have "round_half_even ?X (y * 2 ^ s) = round_half_even (x * 2 ^ k * 2 ^ s) (y * 2 ^ s)"
      by (simp only: k power_add ac_simps)
    also have "\<dots> = round_half_even (x * 2 ^ k) y" by (rule round_half_even_scale) simp
    finally have "round_half_even ?X (y * 2 ^ s) = round_half_even (x * 2 ^ k) y" .
    moreover have "nat shift = k" "0 \<le> shift" using k by (simp_all add: sh)
    ultimately show ?thesis by (simp only: q push_bit_eq_mult if_True)
  next
    case False
    then obtain k where k: "s = 1074 + k" using le_Suc_ex [of 1074 s] by auto
    have "round_half_even ?X (y * 2 ^ s) = round_half_even (x * 2 ^ 1074) (y * 2 ^ k * 2 ^ 1074)"
      by (simp only: k power_add ac_simps)
    also have "\<dots> = round_half_even x (y * 2 ^ k)" by (rule round_half_even_scale) simp
    finally have "round_half_even ?X (y * 2 ^ s) = round_half_even x (y * 2 ^ k)" .
    moreover have "nat (- shift) = k" "\<not> 0 \<le> shift" using k False by (simp_all add: sh)
    ultimately show ?thesis by (simp only: q push_bit_eq_mult if_False)
  qed
  obtain t p f where near: "round_mag ?X y = t * 2 ^ 52 + nat p" "p = round_half_even ?X (y * 2 ^ t)"
    "0 \<le> f" "f < 2 ^ 53" "f \<le> p" "p \<le> f + 1" "t = 0 \<or> 2 ^ 52 \<le> f" and "t = bits (?X div y) - 53"
    by (rule round_mag_near [OF X assms(2)])
  note t = this(8) [unfolded r]
  have m: "round_mag ?X y = s * 2 ^ 52 + nat q" using near qr t by simp
  show qpos: "0 \<le> q" and q53: "q \<le> 2 ^ 53" using near qr t by simp_all
  have S: "mag_scaled (round_mag ?X y) = q * 2 ^ s"
    unfolding m by (rule mag_scaled_pack_int) (use near qr t in auto)
  show le: "round_mag ?X y \<le> F64_INF"
  proof -
    have "nat q \<le> 2 ^ 53" using q53 by simp
    moreover have "s * 2 ^ 52 \<le> 2045 * 2 ^ 52" using s by simp
    ultimately have "s * 2 ^ 52 + nat q \<le> 2047 * 2 ^ 52" by simp
    then show ?thesis by (simp only: m F64_INF_def)
  qed
  obtain a where a: "a < F64_INF" "f64_of_int q = f64_make False a" "mag_scaled a = q * 2 ^ 1074"
    by (rule f64_of_int_exact [OF qpos q53])
  obtain b where b: "b < F64_INF" "ratio_power (int s - 1074) = f64_make False b" "mag_scaled b = 2 ^ s"
    by (rule ratio_power [OF s])
  show "f64_mul (f64_of_int q) (ratio_power (- shift)) = f64_make False (round_mag ?X y)"
    using a b S le by (intro f64_mul_exact [of _ a q _ b "2 ^ s"]) (simp_all add: sh)
qed


lemma ratio_high:
  assumes "0 < x" "0 < y" "1023 < ratio_exponent x y"
  shows "F64_INF \<le> round_mag (x * 2 ^ 1074) y"
proof -
  let ?X = "x * 2 ^ 1074"
  have X: "0 \<le> ?X" using assms(1) by simp
  obtain s q f where near: "round_mag ?X y = s * 2 ^ 52 + nat q" "q = round_half_even ?X (y * 2 ^ s)"
    "f = ?X div (y * 2 ^ s)" "0 \<le> f" "f < 2 ^ 53" "f \<le> q" "q \<le> f + 1" "s = 0 \<or> 2 ^ 52 \<le> f"
    "s = bits (?X div y) - 53"
    by (rule round_mag_near [OF X assms(2)])
  have "s = nat (ratio_exponent x y + 1022)" unfolding near(9) by (rule ratio_scale [OF assms(1,2)])
  then have s: "2046 \<le> s" using assms(3) by simp
  then have "2 ^ 52 \<le> q" using near(6,8) by auto
  then have "2 ^ 52 \<le> nat q" by (simp add: le_nat_iff)
  moreover have "2046 * 2 ^ 52 \<le> s * 2 ^ 52" using s by simp
  ultimately show ?thesis unfolding near(1) F64_INF_def by linarith
qed

lemma ratio_low:
  assumes "0 < x" "0 < y" "ratio_exponent x y < -1075"
  shows "round_mag (x * 2 ^ 1074) y = 0"
proof -
  let ?X = "x * 2 ^ 1074"
  have "x * 2 ^ nat (- ratio_exponent x y - 1) < y * 2 ^ 0"
    by (rule ratio_exponent_bounds(2) [OF assms(1,2)]) (use assms(3) in simp)
  moreover have "x * 2 ^ 1075 \<le> x * 2 ^ nat (- ratio_exponent x y - 1)"
    using assms(1,3) by (intro mult_left_mono power_increasing) simp_all
  moreover have "x * 2 ^ 1075 = 2 * ?X"
    using power_Suc [of "2 :: int" 1074] by (simp only: mult.left_commute) simp
  ultimately have less: "2 * ?X < y" by (simp only: power_0 mult_1_right)
  then have "?X < y" using assms(1) by simp
  then have "?X div y = 0" "?X mod y = ?X"
    using assms(1) by (simp_all add: div_pos_pos_trivial mod_pos_pos_trivial)
  then show ?thesis using less
    by (simp add: round_mag_def round_half_even_def Let_def del: mult_numeral_left_semiring_numeral)
qed

lemma ratio_eq:
  "ratio x y = (if y = 0 then fail ''ZeroDivisionError'' ''division by zero''
     else if round_mag (\<bar>x\<bar> * F64_UNIT) \<bar>y\<bar> < F64_INF
     then Ok (f64_make ((x < 0) \<noteq> (y < 0)) (round_mag (\<bar>x\<bar> * F64_UNIT) \<bar>y\<bar>))
     else Err ratio_overflow)"
proof -
  define X where "X = \<bar>x\<bar> * 2 ^ 1074"
  define m where "m = round_mag X \<bar>y\<bar>"
  define e where "e = ratio_exponent \<bar>x\<bar> \<bar>y\<bar>"
  have neg: "f64_neg (f64_make False k) = f64_make True k" if "k \<le> F64_INF" for k
    using that by (simp add: f64_neg_def f64_mag_make f64_sign_make F64_INF_def)
  show ?thesis unfolding F64_UNIT_def X_def [symmetric] m_def [symmetric]
  proof (cases "x = 0 \<or> y = 0")
    case True
    then show "ratio x y = (if y = 0 then fail ''ZeroDivisionError'' ''division by zero''
      else if m < F64_INF then Ok (f64_make ((x < 0) \<noteq> (y < 0)) m) else Err ratio_overflow)"
    proof (cases "y = 0")
      case False
      with True have x: "x = 0" and "m = 0"
        using round_mag_exact [of "\<bar>y\<bar>" X 0] by (simp_all add: m_def X_def)
      with False show ?thesis by (simp add: ratio_def neg F64_INF_def)
    qed (simp add: ratio_def)
  next
    case False
    then have pos: "0 < \<bar>x\<bar>" "0 < \<bar>y\<bar>" by simp_all
    consider (high) "1023 < e" | (low) "e < -1075" | (middle) "-1075 \<le> e" "e \<le> 1023" by linarith
    then show "ratio x y = (if y = 0 then fail ''ZeroDivisionError'' ''division by zero''
      else if m < F64_INF then Ok (f64_make ((x < 0) \<noteq> (y < 0)) m) else Err ratio_overflow)"
    proof cases
      case high
      then have "F64_INF \<le> m" using ratio_high [OF pos] by (simp only: m_def X_def e_def)
      with False high show ?thesis by (simp add: ratio_def e_def [symmetric])
    next
      case low
      then have "m = 0" using ratio_low [OF pos] by (simp only: m_def X_def e_def)
      with False low show ?thesis by (simp add: ratio_def e_def [symmetric] neg F64_INF_def)
    next
      case middle
      define shift where "shift = (if e < -1022 then 1074 else 52 - e)"
      define q where "q = ratio_quotient shift \<bar>x\<bar> \<bar>y\<bar>"
      note mid = ratio_middle [OF pos, folded e_def X_def m_def, OF middle(2) shift_def q_def]
      have m: "m < 2 ^ 63" using mid(3) by (simp add: F64_INF_def)
      have "q < 2 ^ 64" using mid(2) by simp
      then have "ratio x y = (let result = f64_make False m in if f64_is_finite result
          then Ok (if (x < 0) \<noteq> (y < 0) then f64_neg result else result) else Err ratio_overflow)"
        using False middle mid
        by (simp only: ratio_def Let_def e_def [symmetric] shift_def [symmetric] q_def [symmetric]
            if_False if_True not_less [symmetric] de_Morgan_disj simp_thms)
      with False mid(3) show ?thesis by (simp add: f64_is_finite_def f64_mag_make [OF m] neg Let_def)
    qed
  qed
qed

lemma distance_scaled:
  assumes "0 < y"
  shows "\<bar>of_int x / of_int y - f64_rat w\<bar> = of_int \<bar>x * F64_UNIT - y * f64_scaled w\<bar> / (of_int y * of_int F64_UNIT)"
proof -
  have y: "(0 :: rat) < of_int y * of_int F64_UNIT" using assms by simp
  have "of_int x / of_int y - f64_rat w =
      (of_int (x * F64_UNIT - y * f64_scaled w) / (of_int y * of_int F64_UNIT) :: rat)"
    using assms by (simp add: f64_rat_def field_simps)
  then show ?thesis using y by (simp add: abs_divide)
qed

lemma nearest_round_mag:
  assumes y: "0 < y" and m: "round_mag (\<bar>x\<bar> * F64_UNIT) y < F64_INF" and neg: "x < 0 \<Longrightarrow> neg" "0 < x \<Longrightarrow> \<not> neg"
  shows "nearest_f64 (of_int x / of_int y) (f64_make neg (round_mag (\<bar>x\<bar> * F64_UNIT) y))"
proof -
  define X where "X = \<bar>x\<bar> * F64_UNIT"
  define M where "M = round_mag X y"
  define w where "w = f64_make neg M"
  have M63: "M < 2 ^ 63" using m by (simp add: M_def X_def F64_INF_def)
  have X: "0 \<le> X" by (simp add: X_def)
  note near = round_mag_nearest [OF X y, folded M_def]
  have sw: "f64_scaled w = (if neg then - mag_scaled M else mag_scaled M)"
    unfolding w_def by (rule f64_scaled_make [OF M63])
  have mw: "f64_mag w = M" unfolding w_def by (rule f64_mag_make [OF M63])
  have x: "x * F64_UNIT = (if neg then - X else X)"
    using neg by (cases "x = 0") (auto simp: X_def abs_if)
  have dw: "\<bar>x * F64_UNIT - y * f64_scaled w\<bar> = \<bar>X - y * mag_scaled M\<bar>"
    by (simp add: x sw abs_minus_commute)
  have dv: "\<bar>X - y * mag_scaled (f64_mag v)\<bar> \<le> \<bar>x * F64_UNIT - y * f64_scaled v\<bar>" for v
  proof (cases "f64_sign v = neg")
    case True
    then show ?thesis by (simp add: x f64_scaled_def abs_minus_commute)
  next
    case False
    have "0 \<le> y * mag_scaled (f64_mag v)" using y by simp
    with X False show ?thesis by (auto simp: x f64_scaled_def)
  qed
  have c: "(0 :: rat) < of_int y * of_int F64_UNIT" using y by simp
  have "nearest_f64 (of_int x / of_int y) w"
    unfolding nearest_f64_def distance_scaled [OF y]
  proof (intro conjI allI impI)
    show "f64_is_finite w" using m by (simp add: w_def M_def X_def f64_finite_make)
    fix v
    have le: "\<bar>x * F64_UNIT - y * f64_scaled w\<bar> \<le> \<bar>x * F64_UNIT - y * f64_scaled v\<bar>"
      using near(1) [of "f64_mag v"] dv [of v] unfolding dw by linarith
    have tie: "f64_rat v = f64_rat w \<or> even (f64_mag w)"
      if e: "\<bar>x * F64_UNIT - y * f64_scaled w\<bar> = \<bar>x * F64_UNIT - y * f64_scaled v\<bar>"
    proof (cases "f64_mag v = M")
      case False
      then show ?thesis using near [of "f64_mag v"] dv [of v] e unfolding dw mw by linarith
    next
      case True
      show ?thesis
      proof (cases "f64_sign v = neg \<or> M = 0")
        case True
        have "f64_scaled v = (if f64_sign v then - mag_scaled M else mag_scaled M)"
          by (simp add: f64_scaled_def \<open>f64_mag v = M\<close>)
        with True have "f64_scaled v = f64_scaled w" by (auto simp: sw)
        then show ?thesis by (simp add: f64_rat_def)
      next
        case False
        then have "0 < mag_scaled M" using mag_scaled_less_iff [of 0 M] by simp
        then have "0 < y * mag_scaled M" using y by simp
        with e False \<open>f64_mag v = M\<close> X near(1) [of 0] y show ?thesis
          unfolding dw by (auto simp: x f64_scaled_def mw)
      qed
    qed
    have "(of_int \<bar>x * F64_UNIT - y * f64_scaled w\<bar> :: rat) < of_int \<bar>x * F64_UNIT - y * f64_scaled v\<bar> \<or>
      (of_int \<bar>x * F64_UNIT - y * f64_scaled w\<bar> :: rat) = of_int \<bar>x * F64_UNIT - y * f64_scaled v\<bar> \<and>
      (f64_rat v = f64_rat w \<or> even (f64_mag w))"
      using le tie by (simp only: of_int_less_iff of_int_eq_iff) linarith
    then show "of_int \<bar>x * F64_UNIT - y * f64_scaled w\<bar> / (of_int y * of_int F64_UNIT :: rat)
        < of_int \<bar>x * F64_UNIT - y * f64_scaled v\<bar> / (of_int y * of_int F64_UNIT) \<or>
      of_int \<bar>x * F64_UNIT - y * f64_scaled w\<bar> / (of_int y * of_int F64_UNIT :: rat)
        = of_int \<bar>x * F64_UNIT - y * f64_scaled v\<bar> / (of_int y * of_int F64_UNIT) \<and>
      (f64_rat v = f64_rat w \<or> even (f64_mag w))"
      using c divide_strict_right_mono by metis
  qed
  then show ?thesis by (simp only: w_def M_def X_def)
qed


lemma mag_scaled_MAX: "mag_scaled (F64_INF - 1) = (2 ^ 53 - 1) * 2 ^ 2045"
proof -
  have "mag_scaled (2045 * 2 ^ 52 + nat (2 ^ 53 - 1)) = (2 ^ 53 - 1) * 2 ^ 2045"
    by (rule mag_scaled_pack_int) simp_all
  moreover have "2045 * 2 ^ 52 + nat (2 ^ 53 - 1) = F64_INF - 1" by (simp add: F64_INF_def)
  ultimately show ?thesis by argo
qed

lemma overflow_boundary:
  assumes X: "0 \<le> X" and y: "0 < y"
  shows "F64_INF \<le> round_mag X y \<longleftrightarrow>
    y * mag_scaled (F64_INF - 1) + y * mag_scaled F64_INF \<le> 2 * X"
proof -
  define M where "M = round_mag X y"
  have odd: "odd (F64_INF - 1)" by (simp add: F64_INF_def)
  have gap: "y * mag_scaled (F64_INF - 1) < y * mag_scaled F64_INF"
    using y by (simp add: F64_INF_def)
  note near = round_mag_nearest [OF X y, folded M_def]
  show ?thesis unfolding M_def [symmetric]
  proof
    assume "F64_INF \<le> M"
    then have "y * mag_scaled F64_INF \<le> y * mag_scaled M" using y by simp
    then show "y * mag_scaled (F64_INF - 1) + y * mag_scaled F64_INF \<le> 2 * X"
      using near(1) [of "F64_INF - 1"] gap by linarith
  next
    assume h: "y * mag_scaled (F64_INF - 1) + y * mag_scaled F64_INF \<le> 2 * X"
    show "F64_INF \<le> M"
    proof (rule ccontr)
      assume "\<not> F64_INF \<le> M"
      then have M: "M \<le> F64_INF - 1" "F64_INF \<noteq> M" by simp_all
      then have le: "y * mag_scaled M \<le> y * mag_scaled (F64_INF - 1)" using y by simp
      then have "\<bar>X - y * mag_scaled M\<bar> = \<bar>X - y * mag_scaled F64_INF\<bar>"
        and "y * mag_scaled M = y * mag_scaled (F64_INF - 1)"
        using near(1) [of F64_INF] h gap by linarith+
      then have "even M" "M = F64_INF - 1" using near(2) [of F64_INF] M(2) y by simp_all
      then show False using odd by simp
    qed
  qed
qed

lemma ratio_overflow_iff:
  assumes "y \<noteq> 0"
  shows "F64_INF \<le> round_mag (\<bar>x\<bar> * F64_UNIT) \<bar>y\<bar> \<longleftrightarrow> overflows_f64 (of_int x / of_int y)"
proof -
  have "F64_INF \<le> round_mag (\<bar>x\<bar> * F64_UNIT) \<bar>y\<bar> \<longleftrightarrow>
    \<bar>y\<bar> * mag_scaled (F64_INF - 1) + \<bar>y\<bar> * mag_scaled F64_INF \<le> 2 * (\<bar>x\<bar> * F64_UNIT)"
    using assms by (intro overflow_boundary) simp_all
  also have "\<bar>y\<bar> * mag_scaled (F64_INF - 1) + \<bar>y\<bar> * mag_scaled F64_INF = (2 ^ 54 - 1) * 2 ^ 970 * \<bar>y\<bar> * (2 * F64_UNIT)"
  proof -
    have "mag_scaled (F64_INF - 1) + mag_scaled F64_INF = (2 ^ 53 - 1) * 2 ^ 2045 + 2 ^ 53 * 2 ^ 2045"
      unfolding mag_scaled_MAX mag_scaled_INF by (simp flip: power_add)
    also have "\<dots> = (2 ^ 54 - 1) * 2 ^ 2045" by (simp flip: distrib_right)
    also have "(2 :: int) ^ 2045 = 2 ^ 970 * (2 * F64_UNIT)"
      unfolding F64_UNIT_def by (simp only: power_Suc [symmetric] power_add [symmetric]) simp
    finally have e: "mag_scaled (F64_INF - 1) + mag_scaled F64_INF = (2 ^ 54 - 1) * (2 ^ 970 * (2 * F64_UNIT))" .
    show ?thesis unfolding distrib_left [symmetric] e by (simp only: ac_simps)
  qed
  also have "\<dots> \<le> 2 * (\<bar>x\<bar> * F64_UNIT) \<longleftrightarrow> (2 ^ 54 - 1) * 2 ^ 970 * \<bar>y\<bar> \<le> \<bar>x\<bar>"
    using mult_le_cancel_right_pos [of "2 * F64_UNIT"] by (simp only: mult.left_commute [of 2] mult.commute [of _ F64_UNIT]) auto
  also have "\<dots> \<longleftrightarrow> of_int ((2 ^ 54 - 1) * 2 ^ 970 * \<bar>y\<bar>) \<le> (of_int \<bar>x\<bar> :: rat)"
    by (simp only: of_int_le_iff)
  also have "\<dots> \<longleftrightarrow> overflows_f64 (of_int x / of_int y)"
    using assms by (simp add: overflows_f64_def abs_divide pos_le_divide_eq)
  finally show ?thesis .
qed

definition ratio_spec :: "int \<Rightarrow> int \<Rightarrow> (64 word) res \<Rightarrow> bool" where
  "ratio_spec x y result \<longleftrightarrow> (case result of
      Ok w \<Rightarrow> y \<noteq> 0 \<and> \<not> overflows_f64 (of_int x / of_int y) \<and>
        nearest_f64 (of_int x / of_int y) w \<and> f64_sign w = ((x < 0) \<noteq> (y < 0))
    | Err d \<Rightarrow> y = 0 \<and> d = diag_new ''ZeroDivisionError'' ''division by zero'' \<or>
        y \<noteq> 0 \<and> overflows_f64 (of_int x / of_int y) \<and> d = ratio_overflow
    | _ \<Rightarrow> False)"

lemma ratio_spec_holds: "ratio_spec x y (ratio x y)"
proof (cases "y = 0")
  case False
  show ?thesis
  proof (cases "overflows_f64 (of_int x / of_int y)")
    case True
    with \<open>y \<noteq> 0\<close> have "\<not> round_mag (\<bar>x\<bar> * F64_UNIT) \<bar>y\<bar> < F64_INF" by (simp add: ratio_overflow_iff not_less)
    with True \<open>y \<noteq> 0\<close> show ?thesis by (simp add: ratio_spec_def ratio_eq)
  next
    case no: False
    with \<open>y \<noteq> 0\<close> have m: "round_mag (\<bar>x\<bar> * F64_UNIT) \<bar>y\<bar> < F64_INF" using ratio_overflow_iff [of y x] by simp
    define x' where "x' = (if y < 0 then - x else x)"
    have q: "of_int x' / of_int \<bar>y\<bar> = (of_int x / of_int y :: rat)"
      using False by (simp add: x'_def abs_if)
    have "nearest_f64 (of_int x' / of_int \<bar>y\<bar>)
        (f64_make ((x < 0) \<noteq> (y < 0)) (round_mag (\<bar>x'\<bar> * F64_UNIT) \<bar>y\<bar>))"
      by (rule nearest_round_mag) (use False m in \<open>auto simp: x'_def split: if_splits\<close>)
    moreover have "\<bar>x'\<bar> = \<bar>x\<bar>" by (simp add: x'_def)
    ultimately have "nearest_f64 (of_int x / of_int y)
        (f64_make ((x < 0) \<noteq> (y < 0)) (round_mag (\<bar>x\<bar> * F64_UNIT) \<bar>y\<bar>))" unfolding q by simp
    moreover have "round_mag (\<bar>x\<bar> * F64_UNIT) \<bar>y\<bar> < 2 ^ 63" using m by (simp add: F64_INF_def)
    note f64_sign_make [OF this]
    ultimately show ?thesis using False no m by (simp add: ratio_spec_def ratio_eq)
  qed
qed (simp add: ratio_spec_def ratio_eq)

section \<open>Rounding to integers and decimals\<close>

definition round_ratio :: "int \<Rightarrow> int \<Rightarrow> int" where
  "round_ratio numerator0 denominator =
     (let negative = numerator0 < 0; numerator = \<bar>numerator0\<bar>;
          quotient = numerator div denominator;
          remainder = numerator mod denominator;
          twice_remainder = push_bit 1 remainder;
          quotient = (if denominator < twice_remainder \<or>
              (twice_remainder = denominator \<and> quotient AND 1 \<noteq> 0) then quotient + 1 else quotient) in
      if negative then - quotient else quotient)"

lemma round_ratio_eq: "round_ratio n d =
    (if n < 0 then - round_half_even (- n) d else round_half_even n d)"
  by (simp add: round_ratio_def round_half_even_def Let_def and_one_eq odd_iff_mod_2_eq_one)

lemma half_way:
  "d \<le> a + b \<Longrightarrow> 2 * a \<le> d \<Longrightarrow> (2 * a = d \<Longrightarrow> even q) \<Longrightarrow> a < b \<or> a = b \<and> even q"
  for a b d q :: int
  by auto

lemma round_half_even_near:
  assumes d: "0 < d" and j: "j \<noteq> round_half_even n d"
  shows "\<bar>n - round_half_even n d * d\<bar> < \<bar>n - j * d\<bar> \<or>
    \<bar>n - round_half_even n d * d\<bar> = \<bar>n - j * d\<bar> \<and> even (round_half_even n d)"
proof -
  let ?q = "round_half_even n d"
  have "1 \<le> \<bar>j - ?q\<bar>" using j by linarith
  then have "d \<le> \<bar>j - ?q\<bar> * d" using d by simp
  also have "\<dots> = \<bar>(j - ?q) * d\<bar>" using d by (simp add: abs_mult)
  also have "(j - ?q) * d = (n - ?q * d) - (n - j * d)" by (simp add: algebra_simps)
  finally have "d \<le> \<bar>(n - ?q * d) - (n - j * d)\<bar>" .
  then have far: "d \<le> \<bar>n - ?q * d\<bar> + \<bar>n - j * d\<bar>" using abs_triangle_ineq4 by (rule order_trans)
  show ?thesis
    by (rule half_way [OF far round_half_even_cases(3,4) [OF d, of n]])
qed

lemma round_ratio_near:
  assumes d: "0 < d" and j: "j \<noteq> round_ratio n d"
  shows "\<bar>n - round_ratio n d * d\<bar> < \<bar>n - j * d\<bar> \<or>
    \<bar>n - round_ratio n d * d\<bar> = \<bar>n - j * d\<bar> \<and> even (round_ratio n d)"
proof (cases "n < 0")
  case True
  then have "- j \<noteq> round_half_even (- n) d" using j by (auto simp: round_ratio_eq)
  moreover have "\<bar>n - k * d\<bar> = \<bar>- n - - k * d\<bar>" "\<bar>- n - k * d\<bar> = \<bar>n + k * d\<bar>" for k
    using abs_minus_cancel [of "n + k * d"] by (simp_all add: abs_minus_commute)
  ultimately show ?thesis using round_half_even_near [OF d, of "- j" "- n"] True
    by (simp add: round_ratio_eq)
next
  case False
  with round_half_even_near [OF d, of j n] j show ?thesis by (simp add: round_ratio_eq)
qed

lemma round_ratio_nearest:
  assumes d: "0 < d" shows "nearest_int (of_int n / of_int d) (round_ratio n d)"
  unfolding nearest_int_def
proof
  fix j
  have dist: "\<bar>of_int n / of_int d - of_int k\<bar> = (of_int \<bar>n - k * d\<bar> / of_int d :: rat)" for k
  proof -
    have "of_int n / of_int d - of_int k = (of_int (n - k * d) / of_int d :: rat)"
      using d by (simp add: field_simps)
    then show ?thesis using d by (simp add: abs_divide)
  qed
  have "\<bar>n - round_ratio n d * d\<bar> < \<bar>n - j * d\<bar> \<or>
    \<bar>n - round_ratio n d * d\<bar> = \<bar>n - j * d\<bar> \<and> (j = round_ratio n d \<or> even (round_ratio n d))"
    using round_ratio_near [OF d, of j n] by (cases "j = round_ratio n d") auto
  then show "\<bar>of_int n / of_int d - of_int (round_ratio n d)\<bar> < \<bar>of_int n / of_int d - (of_int j :: rat)\<bar> \<or>
    \<bar>of_int n / of_int d - of_int (round_ratio n d)\<bar> = \<bar>of_int n / of_int d - (of_int j :: rat)\<bar> \<and>
    (j = round_ratio n d \<or> even (round_ratio n d))"
    unfolding dist of_int_less_iff [where 'a = rat, symmetric]
    using divide_strict_right_mono [of _ _ "of_int d :: rat"] d by (metis of_int_0_less_iff of_int_less_iff)
qed

definition float_ratio :: "64 word \<Rightarrow> int \<times> int" where
  "float_ratio value =
     (let negative = (drop_bit 63 value \<noteq> 0);
          exponent = uint (drop_bit 52 value AND 0x7FF);
          fraction = uint (value AND (push_bit 52 1 - 1));
          (significand, binary_exponent) = (if exponent = 0 then (fraction, -1074)
            else (push_bit 52 1 OR fraction, exponent - 1023 - 52));
          (numerator, denominator) = (if 0 \<le> binary_exponent
            then (push_bit (nat binary_exponent) significand, 1)
            else (significand, push_bit (nat (- binary_exponent)) 1)) in
      (if negative then - numerator else numerator, denominator))"

definition round_float_to_integer :: "64 word \<Rightarrow> int res" where
  "round_float_to_integer value =
     (if f64_is_nan value then fail ''ValueError'' ''cannot convert float NaN to integer''
      else if f64_is_infinite value then fail ''OverflowError'' ''cannot convert float infinity to integer''
      else let (numerator, denominator) = float_ratio value in Ok (round_ratio numerator denominator))"

definition round_float :: "64 word \<Rightarrow> int \<Rightarrow> (64 word) res" where
  "round_float value ndigits =
     (if \<not> f64_is_finite value then Ok value
      else if 323 < ndigits then Ok value
      else if ndigits < -308 then Ok (f64_copysign 0 value)
      else let digits = ndigits; (numerator, denominator) = float_ratio value in
        if 0 \<le> digits then
          let scale = 10 ^ nat digits; rounded = round_ratio (numerator * scale) denominator in
          if rounded = 0 then Ok (f64_copysign 0 value) else ratio rounded scale
        else
          let scale = 10 ^ nat (- digits); rounded = round_ratio numerator (denominator * scale) in
          if rounded = 0 then Ok (f64_copysign 0 value) else ratio (rounded * scale) 1)"

lemma f64_fields:
  "drop_bit 63 w \<noteq> 0 \<longleftrightarrow> f64_sign w"
  "uint (drop_bit 52 w AND 0x7FF) = int (f64_mag w div 2 ^ 52)"
  "uint (w AND (push_bit 52 1 - 1)) = int (f64_mag w mod 2 ^ 52)"
proof -
  have u: "unat w < 2 ^ 64" using unsigned_less [of w] by simp
  have "drop_bit 63 w \<noteq> 0 \<longleftrightarrow> unat w div 2 ^ 63 \<noteq> 0"
    by (simp add: drop_bit_eq_div word_unat_eq_iff unat_div_distrib)
  then show "drop_bit 63 w \<noteq> 0 \<longleftrightarrow> f64_sign w"
    unfolding f64_sign_def by (simp add: div_eq_0_iff not_less)
  have "drop_bit 52 w AND 0x7FF = take_bit 11 (drop_bit 52 w)"
    by (simp add: take_bit_eq_mask mask_eq_exp_minus_1)
  then have "unat (drop_bit 52 w AND 0x7FF) = unat w div 2 ^ 52 mod 2 ^ 11"
    by (simp add: take_bit_eq_mod unat_mod_distrib drop_bit_eq_div unat_div_distrib)
  also have "\<dots> = f64_mag w div 2 ^ 52"
    unfolding f64_mag_def using mod_mult2_eq [of "unat w" "2 ^ 52" "2 ^ 11"] by simp
  finally show "uint (drop_bit 52 w AND 0x7FF) = int (f64_mag w div 2 ^ 52)"
    by (simp only: uint_nat)
  have "w AND (push_bit 52 1 - 1) = take_bit 52 w"
    by (simp add: take_bit_eq_mask mask_eq_exp_minus_1 push_bit_eq_mult)
  then have "unat (w AND (push_bit 52 1 - 1)) = unat w mod 2 ^ 52"
    by (simp add: take_bit_eq_mod unat_mod_distrib)
  also have "\<dots> = f64_mag w mod 2 ^ 52" unfolding f64_mag_def by (simp add: mod_mod_cancel)
  finally show "uint (w AND (push_bit 52 1 - 1)) = int (f64_mag w mod 2 ^ 52)"
    by (simp only: uint_nat)
qed


lemma f64_mag_bound: "f64_mag w < 2 ^ 63"
  by (simp add: f64_mag_def)

lemma float_ratio_value:
  assumes "float_ratio w = (n, d)"
  shows "0 < d" "of_int n / of_int d = f64_rat w"
proof -
  define E f where "E = f64_mag w div 2 ^ 52" and "f = f64_mag w mod 2 ^ 52"
  have E: "E < 2048" using f64_mag_bound [of w] by (simp add: E_def less_mult_imp_div_less)
  have f: "f < 2 ^ 52" by (simp add: f_def)
  have m: "f64_mag w = E * 2 ^ 52 + f" by (simp only: E_def f_def div_mult_mod_eq)
  define g where "g = (if E = 0 then int f else 2 ^ 52 + int f)"
  define t where "t = E - 1"
  have orr: "push_bit 52 1 OR int f = 2 ^ 52 + int f"
  proof -
    have "take_bit 52 (int f) = int f" using f by (simp add: take_bit_int_eq_self_iff)
    moreover have "push_bit 52 1 AND take_bit 52 (int f) = 0"
      by (rule bit_eqI) (simp only: bit_and_iff bit_take_bit_iff bit_push_bit_iff bit_1_iff bit_0, auto)
    ultimately have "push_bit 52 1 AND int f = 0" by simp
    then show ?thesis by (simp add: disjunctive_add_eq_or [symmetric] push_bit_eq_mult)
  qed
  have S: "mag_scaled (f64_mag w) = g * 2 ^ t"
  proof (cases "E = 0")
    case True then show ?thesis using f by (simp add: m g_def t_def mag_scaled_def)
  next
    case False
    have "mag_scaled (t * 2 ^ 52 + nat (2 ^ 52 + int f)) = (2 ^ 52 + int f) * 2 ^ t"
      by (rule mag_scaled_pack_int) (use f in simp_all)
    moreover have "t * 2 ^ 52 + nat (2 ^ 52 + int f) = f64_mag w"
      using False by (cases E) (simp_all add: m t_def nat_add_distrib)
    ultimately show ?thesis using False by (simp add: g_def)
  qed
  define n' d' where "n' = (if 1074 \<le> t then g * 2 ^ (t - 1074) else g)"
    and "d' = (if 1074 \<le> t then 1 else 2 ^ (1074 - t) :: int)"
  note fields = f64_fields [of w, folded E_def f_def]
  have fr: "float_ratio w = (if f64_sign w then - n' else n', d')"
  proof (cases "E = 0")
    case True
    then show ?thesis unfolding float_ratio_def fields
      by (simp add: Let_def n'_def d'_def t_def g_def push_bit_eq_mult)
  next
    case False
    have e: "int E - 1023 - 52 = int t - 1074" using False by (simp add: t_def)
    show ?thesis unfolding float_ratio_def fields Let_def orr e
      using False by (auto simp: n'_def d'_def g_def push_bit_eq_mult nat_diff_distrib)
  qed
  have d': "0 < d'" by (simp add: d'_def)
  have "n' * F64_UNIT = mag_scaled (f64_mag w) * d'"
  proof (cases "1074 \<le> t")
    case True
    then obtain k where "t = 1074 + k" using le_Suc_ex by blast
    then show ?thesis unfolding S n'_def d'_def F64_UNIT_def by (simp add: power_add)
  next
    case False
    then obtain k where "1074 = t + k" using le_Suc_ex [of t 1074] by auto
    moreover from this have "1074 - t = k" by simp
    ultimately show ?thesis unfolding S n'_def d'_def F64_UNIT_def using False
      by (simp only: power_add if_False mult.assoc)
  qed
  then have "n * F64_UNIT = f64_scaled w * d" and d: "d = d'"
    using fr assms by (auto simp: f64_scaled_def)
  then have "(of_int n * of_int F64_UNIT :: rat) = of_int (f64_scaled w) * of_int d"
    by (simp only: of_int_mult [symmetric])
  then show "0 < d" "of_int n / of_int d = f64_rat w"
    using d d' by (simp_all add: f64_rat_def frac_eq_eq)
qed


definition round_int_spec :: "64 word \<Rightarrow> int res \<Rightarrow> bool" where
  "round_int_spec w result \<longleftrightarrow> (case result of
      Ok k \<Rightarrow> f64_is_finite w \<and> nearest_int (f64_rat w) k
    | Err d \<Rightarrow> \<not> f64_is_finite w \<and> diag_kind d = (if f64_is_nan w then ''ValueError'' else ''OverflowError'')
    | _ \<Rightarrow> False)"

lemma round_int_spec_holds: "round_int_spec w (round_float_to_integer w)"
proof -
  obtain n d where r: "float_ratio w = (n, d)" by (cases "float_ratio w")
  have "nearest_int (f64_rat w) (round_ratio n d)"
    using round_ratio_nearest [OF float_ratio_value(1) [OF r], of n] float_ratio_value(2) [OF r] by simp
  then show ?thesis
    by (auto simp: round_float_to_integer_def round_int_spec_def r f64_is_finite_def f64_is_nan_def
        f64_is_infinite_def diag_new_def)
qed

definition round_float_spec :: "64 word \<Rightarrow> int \<Rightarrow> (64 word) res \<Rightarrow> bool" where
  "round_float_spec w nd result \<longleftrightarrow>
     (if \<not> f64_is_finite w then result = Ok w
      else \<exists>k. nearest_int (f64_rat w * 10 powi nd) k \<and> (case result of
          Ok v \<Rightarrow> nearest_f64 (of_int k * 10 powi (- nd)) v \<and> f64_sign v = f64_sign w
        | Err d \<Rightarrow> overflows_f64 (of_int k * 10 powi (- nd)) \<and> d = ratio_overflow
        | _ \<Rightarrow> False))"

lemma nearest_f64_exact: "f64_is_finite w \<Longrightarrow> f64_rat w = r \<Longrightarrow> nearest_f64 r w"
  by (auto simp: nearest_f64_def)

lemma f64_copysign_zero:
  "f64_sign (f64_copysign 0 w) = f64_sign w" "f64_rat (f64_copysign 0 w) = 0"
  "f64_is_finite (f64_copysign 0 w)"
proof -
  have z: "f64_mag 0 = 0" by (simp add: f64_mag_def)
  have b: "(0 :: nat) < 2 ^ 63" by simp
  show "f64_sign (f64_copysign 0 w) = f64_sign w" "f64_rat (f64_copysign 0 w) = 0"
    "f64_is_finite (f64_copysign 0 w)"
    using f64_sign_make [OF b] f64_scaled_make [OF b] f64_finite_make [of 0]
    by (simp_all add: f64_copysign_def z f64_rat_def F64_INF_def)
qed

lemma round_ratio_sign:
  assumes "0 < d" "round_ratio n d \<noteq> 0"
  shows "round_ratio n d < 0 \<longleftrightarrow> n < 0"
proof -
  have "0 \<le> \<bar>n\<bar> div d" using assms(1) by (simp add: div_int_pos_iff)
  then have "0 \<le> round_half_even \<bar>n\<bar> d" using round_half_even_cases(1) [OF assms(1)] by (rule order_trans)
  then show ?thesis using assms(2) by (auto simp: round_ratio_eq split: if_splits)
qed

lemma round_ratio_0: "0 < d \<Longrightarrow> round_ratio 0 d = 0"
  by (simp add: round_ratio_eq round_half_even_def)

lemma ratio_nearest_decimal:
  assumes w: "f64_is_finite w" and k: "nearest_int (f64_rat w * 10 powi nd) k"
    and v: "(of_int x / of_int y :: rat) = of_int k * 10 powi (- nd)"
    and s: "k \<noteq> 0 \<Longrightarrow> (x < 0) \<noteq> (y < 0) \<longleftrightarrow> f64_sign w" and y: "y \<noteq> 0"
  shows "round_float_spec w nd (if k = 0 then Ok (f64_copysign 0 w) else ratio x y)"
proof (cases "k = 0")
  case True
  have "nearest_f64 (of_int k * 10 powi (- nd)) (f64_copysign 0 w)"
    by (rule nearest_f64_exact) (simp_all add: f64_copysign_zero True)
  then show ?thesis using w k True by (auto simp: round_float_spec_def f64_copysign_zero)
next
  case False
  note r = ratio_spec_holds [of x y, unfolded ratio_spec_def v]
  have "case ratio x y of
      Ok v \<Rightarrow> nearest_f64 (of_int k * 10 powi (- nd)) v \<and> f64_sign v = f64_sign w
    | Err d \<Rightarrow> overflows_f64 (of_int k * 10 powi (- nd)) \<and> d = ratio_overflow
    | _ \<Rightarrow> False"
    using r s [OF False] y by (cases "ratio x y") auto
  then show ?thesis using w k False by (auto simp: round_float_spec_def)
qed

lemma float_ratio_sign:
  assumes "float_ratio w = (n, d)" "n \<noteq> 0"
  shows "n < 0 \<longleftrightarrow> f64_sign w"
proof -
  have d: "0 < d" and v: "of_int n / of_int d = f64_rat w" using float_ratio_value [OF assms(1)] by auto
  have "n < 0 \<longleftrightarrow> (of_int n / of_int d :: rat) < 0" using d by (simp add: divide_less_0_iff)
  also have "\<dots> \<longleftrightarrow> f64_scaled w < 0" unfolding v f64_rat_def by (simp add: divide_less_0_iff)
  also have "\<dots> \<longleftrightarrow> f64_sign w"
  proof -
    have "f64_rat w \<noteq> 0" using v d assms(2) by auto
    then have "mag_scaled (f64_mag w) \<noteq> 0" by (auto simp: f64_rat_def f64_scaled_def split: if_splits)
    then have "0 < mag_scaled (f64_mag w)" using mag_scaled_nonneg [of "f64_mag w"] by linarith
    then show ?thesis by (simp add: f64_scaled_def)
  qed
  finally show ?thesis .
qed


lemma nearest_int_0:
  assumes "\<bar>r\<bar> < 1 / 2" shows "nearest_int r 0"
  unfolding nearest_int_def
proof
  fix j
  have "1 \<le> \<bar>of_int j :: rat\<bar>" if "j \<noteq> 0" using that by (simp flip: of_int_abs)
  then show "\<bar>r - of_int 0\<bar> < \<bar>r - of_int j\<bar> \<or>
    \<bar>r - of_int 0\<bar> = \<bar>r - of_int j\<bar> \<and> (j = 0 \<or> even (0 :: int))"
    using assms by (cases "j = 0") (simp, linarith)
qed

lemma nearest_int_half:
  assumes "nearest_int r k" shows "\<bar>r - of_int k\<bar> \<le> 1 / 2"
proof -
  have "\<bar>r - of_int k\<bar> \<le> \<bar>r - of_int (k + 1)\<bar>" "\<bar>r - of_int k\<bar> \<le> \<bar>r - of_int (k - 1)\<bar>"
    using assms unfolding nearest_int_def by (blast intro: less_imp_le eq_refl)+
  then show ?thesis unfolding of_int_add of_int_diff of_int_1 by linarith
qed

lemma f64_rat_bound:
  assumes "f64_is_finite w" shows "\<bar>f64_rat w\<bar> < 2 ^ 1024"
proof -
  have "mag_scaled (f64_mag w) < mag_scaled F64_INF" using assms by (simp add: f64_is_finite_def)
  also have "\<dots> = 2 ^ 1024 * F64_UNIT" unfolding mag_scaled_INF F64_UNIT_def by (simp flip: power_add)
  finally have "(of_int (mag_scaled (f64_mag w)) :: rat) < of_int (2 ^ 1024 * F64_UNIT)"
    by (simp only: of_int_less_iff)
  moreover have "\<bar>f64_rat w\<bar> = of_int (mag_scaled (f64_mag w)) / of_int F64_UNIT"
    by (simp add: f64_rat_def f64_scaled_def abs_divide)
  ultimately show ?thesis by (simp add: pos_divide_less_eq)
qed

lemma f64_rat_apart:
  assumes "f64_rat v \<noteq> f64_rat w" shows "1 / of_int F64_UNIT \<le> \<bar>f64_rat v - f64_rat w\<bar>"
proof -
  have "f64_scaled v \<noteq> f64_scaled w" using assms by (auto simp: f64_rat_def)
  then have "1 \<le> \<bar>f64_scaled v - f64_scaled w\<bar>" by linarith
  then have "(1 :: rat) \<le> of_int \<bar>f64_scaled v - f64_scaled w\<bar>" by (simp only: of_int_1_le_iff)
  moreover have "\<bar>f64_rat v - f64_rat w\<bar> = of_int \<bar>f64_scaled v - f64_scaled w\<bar> / of_int F64_UNIT"
    by (simp add: f64_rat_def abs_divide flip: diff_divide_distrib)
  ultimately show ?thesis by (simp add: divide_right_mono)
qed

lemma round_float_spec_holds: "round_float_spec w nd (round_float w nd)"
proof (cases "f64_is_finite w")
  case fin: True
  obtain n d where r: "float_ratio w = (n, d)" by (cases "float_ratio w")
  note d = float_ratio_value(1) [OF r] and v = float_ratio_value(2) [OF r]
  consider (high) "323 < nd" | (low) "nd < -308" | (pos) "0 \<le> nd" "nd \<le> 323" | (neg) "-308 \<le> nd" "nd < 0"
    by linarith
  then show ?thesis
  proof cases
    case high
    define k where "k = round_ratio (n * 10 ^ nat nd) d"
    have p: "(10 :: rat) powi nd = 10 ^ nat nd" "(10 :: rat) powi (- nd) = 1 / 10 ^ nat nd"
      using high by (simp_all add: power_int_def inverse_eq_divide power_one_over)
    have "of_int (n * 10 ^ nat nd) / of_int d = f64_rat w * 10 powi nd" by (simp add: p v [symmetric])
    then have k: "nearest_int (f64_rat w * 10 powi nd) k"
      unfolding k_def using round_ratio_nearest [OF d] by metis
    have T: "(0 :: rat) < 10 ^ nat nd" by simp
    have "\<bar>f64_rat w * 10 ^ nat nd - of_int k\<bar> \<le> 1 / 2" using nearest_int_half [OF k] by (simp add: p)
    moreover have "of_int k * 10 powi (- nd) - f64_rat w = - (f64_rat w * 10 ^ nat nd - of_int k) / 10 ^ nat nd"
      by (simp add: p field_simps)
    then have "\<bar>of_int k * 10 powi (- nd) - f64_rat w\<bar> = \<bar>f64_rat w * 10 ^ nat nd - of_int k\<bar> / 10 ^ nat nd"
      by (simp only: abs_divide abs_minus_cancel) simp
    ultimately have close: "\<bar>of_int k * 10 powi (- nd) - f64_rat w\<bar> \<le> 1 / 2 / 10 ^ nat nd"
      by (simp only: divide_right_mono [OF _ less_imp_le [OF T]])
    have "(10 :: rat) ^ 324 \<le> 10 ^ nat nd" using high by (intro power_increasing) simp_all
    then have "1 / 2 / 10 ^ nat nd \<le> (1 / 2 / 10 ^ 324 :: rat)" by (intro divide_left_mono) simp_all
    also have "\<dots> < 1 / 2 / of_int F64_UNIT" by (simp add: F64_UNIT_def)
    finally have small: "\<bar>of_int k * 10 powi (- nd) - f64_rat w\<bar> < 1 / 2 / of_int F64_UNIT"
      using close by linarith
    have "nearest_f64 (of_int k * 10 powi (- nd)) w"
      unfolding nearest_f64_def
    proof (intro conjI allI impI)
      fix v
      show "\<bar>of_int k * 10 powi - nd - f64_rat w\<bar> < \<bar>of_int k * 10 powi - nd - f64_rat v\<bar> \<or>
        \<bar>of_int k * 10 powi - nd - f64_rat w\<bar> = \<bar>of_int k * 10 powi - nd - f64_rat v\<bar> \<and>
        (f64_rat v = f64_rat w \<or> even (f64_mag w))"
        using f64_rat_apart [of v w] small by (cases "f64_rat v = f64_rat w") (simp, linarith)
    qed (fact fin)
    then show ?thesis using fin k high by (auto simp: round_float_spec_def round_float_def)
  next
    case low
    have "(10 :: rat) powi nd \<le> 10 powi - 309" using low by (intro power_int_increasing) simp_all
    then have "\<bar>f64_rat w\<bar> * 10 powi nd \<le> \<bar>f64_rat w\<bar> * 10 powi - 309" by (rule mult_left_mono) simp
    also have "\<dots> < 2 ^ 1024 * 10 powi - 309"
      by (rule mult_strict_right_mono [OF f64_rat_bound [OF fin]]) simp
    finally have "\<bar>f64_rat w * 10 powi nd\<bar> < 2 ^ 1024 * 10 powi - 309" by (simp add: abs_mult)
    then have "\<bar>f64_rat w * 10 powi nd\<bar> < 1 / 2" by (simp add: power_int_minus)
    then have k: "nearest_int (f64_rat w * 10 powi nd) 0" by (rule nearest_int_0)
    have "round_float w nd = Ok (f64_copysign 0 w)" using fin low by (simp add: round_float_def)
    with ratio_nearest_decimal [OF fin k, of 0 1] show ?thesis by simp
  next
    case pos
    define k where "k = round_ratio (n * 10 ^ nat nd) d"
    have p: "(10 :: rat) powi nd = 10 ^ nat nd" "(10 :: rat) powi (- nd) = 1 / 10 ^ nat nd"
      using pos by (simp_all add: power_int_def inverse_eq_divide power_one_over)
    have "of_int (n * 10 ^ nat nd) / of_int d = f64_rat w * 10 powi nd" by (simp add: p v [symmetric])
    then have k: "nearest_int (f64_rat w * 10 powi nd) k"
      unfolding k_def using round_ratio_nearest [OF d] by metis
    have "round_float w nd = (if k = 0 then Ok (f64_copysign 0 w) else ratio k (10 ^ nat nd))"
      using fin pos by (simp add: round_float_def r k_def Let_def)
    moreover have n0: "round_ratio (n * 10 ^ nat nd) d \<noteq> 0 \<Longrightarrow> n \<noteq> 0"
      using round_ratio_0 [OF d] by auto
    have "round_float_spec w nd (if k = 0 then Ok (f64_copysign 0 w) else ratio k (10 ^ nat nd))"
      by (rule ratio_nearest_decimal [OF fin k])
        (use round_ratio_sign [OF d, of "n * 10 ^ nat nd"] float_ratio_sign [OF r] in
          \<open>auto simp: p k_def n0 mult_less_0_iff\<close>)
    ultimately show ?thesis by simp
  next
    case neg
    define k where "k = round_ratio n (d * 10 ^ nat (- nd))"
    have p: "(10 :: rat) powi nd = 1 / 10 ^ nat (- nd)" "(10 :: rat) powi (- nd) = 10 ^ nat (- nd)"
      using neg by (simp_all add: power_int_def inverse_eq_divide power_one_over)
    have d10: "0 < d * 10 ^ nat (- nd)" using d by simp
    have "of_int n / of_int (d * 10 ^ nat (- nd)) = f64_rat w * 10 powi nd" by (simp add: p v [symmetric])
    then have k: "nearest_int (f64_rat w * 10 powi nd) k"
      unfolding k_def using round_ratio_nearest [OF d10] by metis
    have "round_float w nd = (if k = 0 then Ok (f64_copysign 0 w) else ratio (k * 10 ^ nat (- nd)) 1)"
      using fin neg by (simp add: round_float_def r k_def Let_def)
    moreover have n0: "round_ratio n (d * 10 ^ nat (- nd)) \<noteq> 0 \<Longrightarrow> n \<noteq> 0"
      using round_ratio_0 [OF d10] by auto
    have "round_float_spec w nd (if k = 0 then Ok (f64_copysign 0 w) else ratio (k * 10 ^ nat (- nd)) 1)"
      by (rule ratio_nearest_decimal [OF fin k])
        (use round_ratio_sign [OF d10, of n] float_ratio_sign [OF r] in
          \<open>auto simp: p k_def mult_less_0_iff n0\<close>)
    ultimately show ?thesis by simp
  qed
qed (simp add: round_float_spec_def round_float_def)

section \<open>Properties\<close>

text \<open>C29: The quotient of two integers of any size is correctly rounded: the result is a double
  nearest to the exact rational quotient among all finite doubles, the one with the even pattern
  on a tie, with the sign of the operands. It fails exactly for a zero divisor and for quotients that
  reach the rounding boundary above the largest double, and never panics.\<close>

theorem ratio_correctly_rounded: "ratio_spec x y (ratio x y)"
  by (rule ratio_spec_holds)

text \<open>C30: Rounding a double to any number of decimal digits rounds twice, each time correctly: first
  the exact binary value to the nearest multiple of the power of ten (ties to even), then that
  decimal number to the nearest double. The shortcuts for very many and very few digits agree with
  this, the sign survives also for a zero, and the error is exactly overflow.\<close>

theorem round_float_correct: "round_float_spec w nd (round_float w nd)"
  by (rule round_float_spec_holds)

end
