(* ===== verification/Arithmetic.thy ===== *)
theory Arithmetic
  imports Numbers Heap_Machine Bytecode
begin

text \<open>
  The numeric operators of crates/tonic-runtime/src/ops.rs: \<open>binary\<close> with its immediate integer
  path on checked \<open>i64\<close> arithmetic, its arbitrary precision path and its float path, \<open>unary\<close>,
  \<open>round\<close>, \<open>divmod\<close> and the three-argument power, with the number conversions of heap.rs.

  A \<open>BigInt\<close> is an \<open>int\<close>, an \<open>i64\<close> an \<open>int\<close> whose range every checked operation tests (\<open>to_i64\<close>);
  \<open>/\<close> and \<open>%\<close> truncate (\<open>sdiv\<close>, \<open>smod\<close>). A failed allocation of the host is not modelled.
  \<open>binary_computes_integer\<close> compares both integer paths with what Python computes.
\<close>

unbundle bit_operations_syntax

section \<open>Numbers in the heap\<close>

text \<open>The parameters are the library functions whose results the code does not determine:
  \<open>f64::powf\<close>, and the conversions \<open>to_f64\<close> and \<open>from_f64\<close>, \<open>modpow\<close> and \<open>modinv\<close> of \<open>BigInt\<close>.\<close>

record numeric_library =
  lib_powf :: "64 word \<Rightarrow> 64 word \<Rightarrow> 64 word"
  lib_to_f64 :: "int \<Rightarrow> (64 word) option"
  lib_from_f64 :: "64 word \<Rightarrow> int option"
  lib_modpow :: "int \<Rightarrow> int \<Rightarrow> int \<Rightarrow> int"
  lib_modinv :: "int \<Rightarrow> int \<Rightarrow> int option"

definition to_i64 :: "int \<Rightarrow> int option" where
  "to_i64 n = (if i64_range n then Some n else None)"

definition heap_int :: "heap \<Rightarrow> int \<Rightarrow> (tvalue, heap) run" where
  "heap_int h n = (case Option.bind (to_i64 n) value_int of
      Some v \<Rightarrow> (Ok v, h)
    | None \<Rightarrow> alloc h (ObjInt n))"

definition heap_i64 :: "heap \<Rightarrow> int \<Rightarrow> (tvalue, heap) run" where
  "heap_i64 h n = (case value_int n of Some v \<Rightarrow> (Ok v, h) | None \<Rightarrow> heap_int h n)"

definition heap_integer :: "heap \<Rightarrow> tvalue \<Rightarrow> int res" where
  "heap_integer h v0 = (let v = native_value h v0 in
     case integer v of Some n \<Rightarrow> Ok n
     | None \<Rightarrow> and_then (heap_get h v) (\<lambda>ob. case ob of
         ObjInt n \<Rightarrow> Ok n | _ \<Rightarrow> fail ''TypeError'' ''expected integer''))"

definition heap_to_i64 :: "heap \<Rightarrow> tvalue \<Rightarrow> int res" where
  "heap_to_i64 h v = (case integer v of Some n \<Rightarrow> Ok n
     | None \<Rightarrow> and_then (heap_integer h v) (\<lambda>n.
         ok_or (to_i64 n) (diag_new ''OverflowError'' ''integer does not fit i64'')))"

definition heap_float :: "numeric_library \<Rightarrow> heap \<Rightarrow> tvalue \<Rightarrow> (64 word) res" where
  "heap_float lib h v0 = (let v = native_value h v0 in
     case integer v of Some n \<Rightarrow> Ok (f64_of_int n)
     | None \<Rightarrow> and_then (heap_get h v) (\<lambda>ob. case ob of
         ObjInt n \<Rightarrow> (case lib_to_f64 lib n of
             Some f \<Rightarrow> if f64_is_finite f then Ok f
               else fail ''OverflowError'' ''integer too large to convert to float''
           | None \<Rightarrow> fail ''OverflowError'' ''integer too large to convert to float'')
       | ObjFloat f \<Rightarrow> Ok f
       | _ \<Rightarrow> fail ''TypeError'' ''expected number''))"

definition is_integer :: "heap \<Rightarrow> tvalue \<Rightarrow> bool" where
  "is_integer h v0 = (let v = native_value h v0 in
     integer v \<noteq> None \<or> (case try_get h v of Some (ObjInt _) \<Rightarrow> True | _ \<Rightarrow> False))"

definition is_float :: "heap \<Rightarrow> tvalue \<Rightarrow> bool" where
  "is_float h v0 = (case try_get h (native_value h v0) of Some (ObjFloat _) \<Rightarrow> True | _ \<Rightarrow> False)"

section \<open>Machine integers\<close>

definition wrap_i64 :: "int \<Rightarrow> int" where
  "wrap_i64 n = signed_take_bit 63 n"

definition checked_shl :: "int \<Rightarrow> nat \<Rightarrow> int option" where
  "checked_shl x s = (if s < 64 then Some (wrap_i64 (push_bit s x)) else None)"

definition checked_shr :: "int \<Rightarrow> nat \<Rightarrow> int option" where
  "checked_shr x s = (if s < 64 then Some (drop_bit s x) else None)"

definition to_u32 :: "int \<Rightarrow> nat option" where
  "to_u32 n = (if 0 \<le> n \<and> n < 2 ^ 32 then Some (nat n) else None)"

definition to_usize :: "int \<Rightarrow> nat option" where
  "to_usize n = (if 0 \<le> n \<and> n < 2 ^ 64 then Some (nat n) else None)"

section \<open>Errors\<close>

definition type_error :: diagnostic where
  "type_error = diag_new ''TypeError'' ''unsupported operand types''"

definition zero_error :: diagnostic where
  "zero_error = diag_new ''ZeroDivisionError'' ''division or modulo by zero''"

definition MAX_INTEGER_RESULT_BITS :: nat where
  "MAX_INTEGER_RESULT_BITS = 2 ^ 26"

section \<open>Floating point powers\<close>

definition float_power :: "numeric_library \<Rightarrow> heap \<Rightarrow> 64 word \<Rightarrow> 64 word \<Rightarrow> (tvalue, heap) run" where
  "float_power lib h base exponent =
     (if f64_is_zero base \<and> f64_lt exponent 0 then (Err zero_error, h)
      else if f64_lt base 0 \<and> \<not> f64_eq (f64_fract exponent) 0
      then (fail ''TypeError'' ''complex power results are not supported'', h)
      else let result = lib_powf lib base exponent in
        if f64_is_infinite result \<and> f64_is_finite base \<and> f64_is_finite exponent
        then (fail ''OverflowError'' ''numeric result out of range'', h)
        else alloc h (ObjFloat result))"

section \<open>The immediate integer path\<close>

text \<open>The loop of the power: \<open>?\<close> leaves it with no number when a product overflows.\<close>

function fast_power :: "int \<Rightarrow> int \<Rightarrow> nat \<Rightarrow> int option" where
  "fast_power result base remaining =
     (if remaining = 0 then Some result
      else case (if odd remaining then to_i64 (result * base) else Some result) of
          None \<Rightarrow> None
        | Some result' \<Rightarrow>
            let remaining' = remaining div 2 in
            if remaining' \<noteq> 0
            then (case to_i64 (base * base) of None \<Rightarrow> None
                  | Some base' \<Rightarrow> fast_power result' base' remaining')
            else fast_power result' base remaining')"
  by auto
termination by (relation "measure (\<lambda>(_, _, n). n)") auto

declare fast_power.simps [simp del]

datatype fast = Early "(tvalue, heap) run" | Number "int option"

definition floor_div_mod :: "int \<Rightarrow> int \<Rightarrow> int \<times> int" where
  "floor_div_mod x y = (let q = x sdiv y; r = x smod y in
     if r \<noteq> 0 \<and> (r < 0) \<noteq> (y < 0) then (q - 1, r + y) else (q, r))"

definition fast_integer :: "numeric_library \<Rightarrow> heap \<Rightarrow> op \<Rightarrow> int \<Rightarrow> int \<Rightarrow> fast" where
  "fast_integer lib h opr x y =
     (if opr = OpAdd then Number (to_i64 (x + y))
      else if opr = OpSub then Number (to_i64 (x - y))
      else if opr = OpMul then Number (to_i64 (x * y))
      else if opr = OpBitOr then Number (Some (x OR y))
      else if opr = OpBitXor then Number (Some (x XOR y))
      else if opr = OpBitAnd then Number (Some (x AND y))
      else if opr = OpLeftShift \<or> opr = OpRightShift then
        (if y < 0 then Early (fail ''ValueError'' ''negative shift count'', h)
         else Number (Option.bind (to_u32 y) (\<lambda>shift.
           if opr = OpLeftShift then checked_shl x shift
           else case checked_shr x shift of Some n \<Rightarrow> Some n
             | None \<Rightarrow> Some (if x < 0 then -1 else 0))))
      else if opr = OpPow \<and> 0 \<le> y then Number (Option.bind (to_u32 y) (fast_power 1 x))
      else if opr = OpPow then
        (if x = 0 then Early (Err zero_error, h)
         else Early (float_power lib h (f64_of_int x) (f64_of_int y)))
      else if opr = OpFloorDiv \<or> opr = OpMod then
        (if y = 0 then Early (Err zero_error, h)
         else let (q, r) = floor_div_mod x y in Number (Some (if opr = OpFloorDiv then q else r)))
      else if opr = OpDiv then
        (if y = 0 then Early (Err zero_error, h)
         else if \<bar>x\<bar> \<le> 2 ^ 53 \<and> \<bar>y\<bar> \<le> 2 ^ 53
         then Early (alloc h (ObjFloat (f64_div (f64_of_int x) (f64_of_int y))))
         else Number None)
      else Number None)"

section \<open>The arbitrary precision path\<close>

definition big_power :: "numeric_library \<Rightarrow> heap \<Rightarrow> int \<Rightarrow> int \<Rightarrow> (tvalue, heap) run" where
  "big_power lib h x y =
     (if x = 0 then
        (if y < 0 then (Err zero_error, h) else heap_int h (if y = 0 then 1 else 0))
      else if x = 1 then
        (if y < 0 then alloc h (ObjFloat (f64_of_int 1)) else heap_int h 1)
      else if x = -1 then
        (let result = (if y AND 1 \<noteq> 0 then -1 else 1) in
         if y < 0 then alloc h (ObjFloat (f64_of_int result)) else heap_int h result)
      else if y < 0 then
        (let base = (case lib_to_f64 lib x of Some f \<Rightarrow> f
             | None \<Rightarrow> if x < 0 then f64_make True F64_INF else f64_make False F64_INF);
             exponent = (case lib_to_f64 lib y of Some f \<Rightarrow> f | None \<Rightarrow> f64_make True F64_INF) in
         float_power lib h base exponent)
      else (case to_u32 y of
          None \<Rightarrow> (fail ''MemoryError'' ''exponent is too large'', h)
        | Some n \<Rightarrow>
            if MAX_INTEGER_RESULT_BITS < min (2 ^ 64 - 1) (bits x * n)
            then (fail ''MemoryError'' ''exponent is too large'', h)
            else heap_int h (x ^ n)))"

definition big_shift :: "heap \<Rightarrow> op \<Rightarrow> int \<Rightarrow> int \<Rightarrow> (tvalue, heap) run" where
  "big_shift h opr x y =
     (if y < 0 then (fail ''ValueError'' ''negative shift count'', h)
      else if opr = OpLeftShift \<and> x = 0 then heap_int h 0
      else case to_usize y of
          None \<Rightarrow> if opr = OpRightShift then heap_int h (if x < 0 then -1 else 0)
            else (fail ''MemoryError'' ''shift count is too large'', h)
        | Some shift \<Rightarrow>
            if opr = OpLeftShift \<and> MAX_INTEGER_RESULT_BITS < min (2 ^ 64 - 1) (bits x + shift)
            then (fail ''MemoryError'' ''shift count is too large'', h)
            else heap_int h (if opr = OpLeftShift then push_bit shift x else drop_bit shift x))"

definition big_integer :: "numeric_library \<Rightarrow> heap \<Rightarrow> op \<Rightarrow> int \<Rightarrow> int \<Rightarrow> (tvalue, heap) run" where
  "big_integer lib h opr x y =
     (if opr = OpAdd then heap_int h (x + y)
      else if opr = OpSub then heap_int h (x - y)
      else if opr = OpMul then heap_int h (x * y)
      else if opr = OpBitOr then heap_int h (x OR y)
      else if opr = OpBitXor then heap_int h (x XOR y)
      else if opr = OpBitAnd then heap_int h (x AND y)
      else if opr = OpLeftShift \<or> opr = OpRightShift then big_shift h opr x y
      else if opr = OpPow then big_power lib h x y
      else if opr = OpFloorDiv \<or> opr = OpMod then
        (if y = 0 then (Err zero_error, h)
         else let (q, r) = floor_div_mod x y in heap_int h (if opr = OpFloorDiv then q else r))
      else if opr = OpDiv then
        (if y = 0 then (Err zero_error, h)
         else run_then (ratio x y, h) (\<lambda>f h1. alloc h1 (ObjFloat f)))
      else (Err type_error, h))"


section \<open>Floats\<close>

definition f64_half :: "64 word" where "f64_half = 0x3FE0000000000000"
definition f64_one :: "64 word" where "f64_one = 0x3FF0000000000000"

definition float_floor_div_mod :: "64 word \<Rightarrow> 64 word \<Rightarrow> 64 word \<times> 64 word" where
  "float_floor_div_mod x y =
     (let rem = f64_rem x y;
          div' = f64_div (f64_sub x rem) y;
          (rem, div') = (if \<not> f64_eq rem 0
            then (if f64_lt y 0 \<noteq> f64_lt rem 0 then (f64_add rem y, f64_sub div' f64_one) else (rem, div'))
            else (f64_copysign 0 y, div'));
          quotient = (if \<not> f64_eq div' 0
            then (let fl = f64_floor div' in
              if f64_lt f64_half (f64_sub div' fl) then f64_add fl f64_one else fl)
            else f64_copysign 0 (f64_div x y)) in
      (quotient, rem))"

definition float_binary :: "numeric_library \<Rightarrow> heap \<Rightarrow> op \<Rightarrow> 64 word \<Rightarrow> 64 word \<Rightarrow> (tvalue, heap) run" where
  "float_binary lib h opr x y =
     (if opr = OpAdd then alloc h (ObjFloat (f64_add x y))
      else if opr = OpSub then alloc h (ObjFloat (f64_sub x y))
      else if opr = OpMul then alloc h (ObjFloat (f64_mul x y))
      else if opr = OpPow then float_power lib h x y
      else if opr = OpDiv then
        (if f64_eq y 0 then (Err zero_error, h) else alloc h (ObjFloat (f64_div x y)))
      else if opr = OpFloorDiv \<or> opr = OpMod then
        (if f64_eq y 0 then (Err zero_error, h)
         else let (quotient, rem) = float_floor_div_mod x y in
           alloc h (ObjFloat (if opr = OpMod then rem else quotient)))
      else (Err type_error, h))"

section \<open>Sequences\<close>

definition repeat_bytes :: "heap \<Rightarrow> 8 word list \<Rightarrow> int \<Rightarrow> (tvalue, heap) run" where
  "repeat_bytes h bytes count =
     (if count < 0 \<or> count = 0 \<or> bytes = [] then alloc h (ObjBytes [])
      else case to_usize count of
          None \<Rightarrow> (fail ''MemoryError'' ''repeated bytes are too long'', h)
        | Some n \<Rightarrow>
            if 2 ^ 63 \<le> length bytes * n then (fail ''MemoryError'' ''repeated bytes are too long'', h)
            else alloc h (ObjBytes (concat (replicate n bytes))))"

definition multiply_bytes :: "heap \<Rightarrow> tvalue \<Rightarrow> tvalue \<Rightarrow> (tvalue, heap) run" where
  "multiply_bytes h a b =
     (case try_get h (native_value h a) of
        Some (ObjBytes bytes) \<Rightarrow>
          if is_integer h b then run_then (heap_integer h b, h) (\<lambda>n h1. repeat_bytes h1 bytes n)
          else (case try_get h (native_value h b) of
              Some (ObjBytes bytes') \<Rightarrow> if is_integer h a
                then run_then (heap_integer h a, h) (\<lambda>n h1. repeat_bytes h1 bytes' n) else (Err type_error, h)
            | _ \<Rightarrow> (Err type_error, h))
      | _ \<Rightarrow> (case try_get h (native_value h b) of
              Some (ObjBytes bytes') \<Rightarrow> if is_integer h a
                then run_then (heap_integer h a, h) (\<lambda>n h1. repeat_bytes h1 bytes' n) else (Err type_error, h)
            | _ \<Rightarrow> (Err type_error, h)))"

definition concatenate :: "heap \<Rightarrow> tvalue \<Rightarrow> tvalue \<Rightarrow> (tvalue, heap) run" where
  "concatenate h a b =
     (case (try_get h (native_value h a), try_get h (native_value h b)) of
        (Some (ObjStr x), Some (ObjStr y)) \<Rightarrow> alloc h (ObjStr (x @ y))
      | (Some (ObjBytes x), Some (ObjBytes y)) \<Rightarrow> alloc h (ObjBytes (x @ y))
      | (Some (ObjList x), Some (ObjList y)) \<Rightarrow> alloc h (ObjList (x @ y))
      | (Some (ObjTuple x), Some (ObjTuple y)) \<Rightarrow> alloc h (ObjTuple (x @ y))
      | _ \<Rightarrow> (Err type_error, h))"

section \<open>Binary operators\<close>

definition bool_binary :: "op \<Rightarrow> tvalue \<Rightarrow> tvalue \<Rightarrow> tvalue option" where
  "bool_binary opr a b = (case (as_bool a, as_bool b) of
      (Some x, Some y) \<Rightarrow>
        if opr = OpBitOr then Some (value_bool (x \<or> y))
        else if opr = OpBitXor then Some (value_bool (x \<noteq> y))
        else if opr = OpBitAnd then Some (value_bool (x \<and> y))
        else None
    | _ \<Rightarrow> None)"

definition slow_binary :: "numeric_library \<Rightarrow> heap \<Rightarrow> op \<Rightarrow> tvalue \<Rightarrow> tvalue \<Rightarrow> (tvalue, heap) run" where
  "slow_binary lib h opr a b =
     (if is_integer h a \<and> is_integer h b then
        run_then (heap_integer h a, h) (\<lambda>x h1. run_then (heap_integer h1 b, h1) (\<lambda>y h2.
          big_integer lib h2 opr x y))
      else if (is_float h a \<or> is_integer h a) \<and> (is_float h b \<or> is_integer h b) then
        run_then (heap_float lib h a, h) (\<lambda>x h1. run_then (heap_float lib h1 b, h1) (\<lambda>y h2.
          float_binary lib h2 opr x y))
      else if opr = OpMul then multiply_bytes h a b
      else if opr = OpAdd then concatenate h a b
      else (Err type_error, h))"

definition binary :: "numeric_library \<Rightarrow> heap \<Rightarrow> op \<Rightarrow> tvalue \<Rightarrow> tvalue \<Rightarrow> (tvalue, heap) run" where
  "binary lib h opr a b =
     (case bool_binary opr a b of Some v \<Rightarrow> (Ok v, h)
      | None \<Rightarrow> (case (integer a, integer b) of
          (Some x, Some y) \<Rightarrow> (case fast_integer lib h opr x y of
              Early r \<Rightarrow> r
            | Number n \<Rightarrow> (case Option.bind n value_int of
                Some v \<Rightarrow> (Ok v, h) | None \<Rightarrow> slow_binary lib h opr a b))
        | _ \<Rightarrow> slow_binary lib h opr a b))"

section \<open>Unary operators\<close>

definition unary_integer :: "op \<Rightarrow> int \<Rightarrow> int" where
  "unary_integer opr n = (if opr = OpNeg then - n else if opr = OpInvert then NOT n else n)"

definition range_len :: "int \<Rightarrow> int \<Rightarrow> int \<Rightarrow> int" where
  "range_len a b s =
     (if 0 < s then (if b \<le> a then 0 else (b - a - 1) sdiv s + 1)
      else if a \<le> b then 0 else (a - b - 1) sdiv (- s) + 1)"

definition heap_truth :: "heap \<Rightarrow> tvalue \<Rightarrow> bool res" where
  "heap_truth h v0 = (let v = native_value h v0 in
     case integer v of Some n \<Rightarrow> Ok (n \<noteq> 0)
     | None \<Rightarrow>
       if v = NONE then Ok False
       else if v = NOT_IMPLEMENTED
       then fail ''TypeError'' ''NotImplemented should not be used in a boolean context''
       else if v = ELLIPSIS then Ok True
       else and_then (heap_get h v) (\<lambda>ob. case ob of
           ObjInt n \<Rightarrow> Ok (n \<noteq> 0)
         | ObjFloat f \<Rightarrow> Ok (\<not> f64_eq f 0)
         | ObjStr s \<Rightarrow> Ok (s \<noteq> [])
         | ObjBytes bs \<Rightarrow> Ok (bs \<noteq> [])
         | ObjTuple vs \<Rightarrow> Ok (vs \<noteq> [])
         | ObjList vs \<Rightarrow> Ok (vs \<noteq> [])
         | ObjBuffer buffer \<Rightarrow> Ok (buf_elements buffer \<noteq> 0)
         | ObjDict d \<Rightarrow> Ok (dict_entries d \<noteq> [])
         | ObjSet d \<Rightarrow> Ok (dict_entries d \<noteq> [])
         | ObjMappingProxy c \<Rightarrow> and_then (heap_class h c) (\<lambda>k. Ok (cls_dictionary_order k \<noteq> []))
         | ObjRange a b s \<Rightarrow> Ok (if 0 < s then a < b else b < a)
         | _ \<Rightarrow> Ok True))"

definition unary :: "heap \<Rightarrow> op \<Rightarrow> tvalue \<Rightarrow> (tvalue, heap) run" where
  "unary h opr v =
     (if opr = OpNot then run_then (heap_truth h v, h) (\<lambda>t h1. (Ok (value_bool (\<not> t)), h1))
      else case integer v of Some n \<Rightarrow> heap_i64 h (unary_integer opr n)
      | None \<Rightarrow>
        if is_integer h v then run_then (heap_integer h v, h) (\<lambda>n h1. heap_int h1 (unary_integer opr n))
        else let native = native_value h v in
          run_then (heap_get h native, h) (\<lambda>ob h1. case ob of
            ObjFloat f \<Rightarrow> if opr = OpNeg then alloc h1 (ObjFloat (f64_neg f)) else (Ok native, h1)
          | _ \<Rightarrow> (Err type_error, h1)))"

section \<open>Rounding, divmod and modular powers\<close>

definition round_integer :: "heap \<Rightarrow> int \<Rightarrow> int option \<Rightarrow> (tvalue, heap) run" where
  "round_integer h v ndigits0 = (case ndigits0 of
      None \<Rightarrow> heap_int h v
    | Some ndigits \<Rightarrow>
        if 0 \<le> ndigits \<or> v = 0 then heap_int h v
        else let places = - ndigits in
          if min (2 ^ 64 - 1) (int (bits v) + 1) < places then heap_int h 0
          else (case to_u32 places of
              None \<Rightarrow> (fail ''MemoryError'' ''round precision is too large'', h)
            | Some n \<Rightarrow> let scale = 10 ^ n in heap_int h (round_ratio v scale * scale)))"

definition heap_round :: "numeric_library \<Rightarrow> heap \<Rightarrow> tvalue \<Rightarrow> int option \<Rightarrow> (tvalue, heap) run" where
  "heap_round lib h v ndigits = (case as_bool v of
      Some b \<Rightarrow> round_integer h (of_bool b) ndigits
    | None \<Rightarrow>
        if is_integer h v then run_then (heap_integer h v, h) (\<lambda>n h1. round_integer h1 n ndigits)
        else if is_float h v then run_then (heap_float lib h v, h) (\<lambda>f h1. case ndigits of
            Some nd \<Rightarrow> run_then (round_float f nd, h1) (\<lambda>r h2. alloc h2 (ObjFloat r))
          | None \<Rightarrow> run_then (round_float_to_integer f, h1) (\<lambda>n h2. heap_int h2 n))
        else (Err type_error, h))"

definition divmod :: "numeric_library \<Rightarrow> heap \<Rightarrow> tvalue \<Rightarrow> tvalue \<Rightarrow> (tvalue, heap) run" where
  "divmod lib h a b =
     run_then (binary lib h OpFloorDiv a b) (\<lambda>quotient h1.
     run_then (binary lib h1 OpMod a b) (\<lambda>remainder h2.
     alloc h2 (ObjTuple [quotient, remainder])))"

definition pow_mod :: "numeric_library \<Rightarrow> heap \<Rightarrow> tvalue \<Rightarrow> tvalue \<Rightarrow> tvalue \<Rightarrow> (tvalue, heap) run" where
  "pow_mod lib h base0 exponent0 modulus0 =
     (if \<not> is_integer h base0 \<or> \<not> is_integer h exponent0 \<or> \<not> is_integer h modulus0
      then (fail ''TypeError'' ''pow() 3rd argument not allowed unless all arguments are integers'', h)
      else run_then (heap_integer h base0, h) (\<lambda>base h1.
        run_then (heap_integer h1 exponent0, h1) (\<lambda>exponent h2.
        run_then (heap_integer h2 modulus0, h2) (\<lambda>modulus h3.
          if modulus = 0 then (fail ''ValueError'' ''pow() 3rd argument cannot be 0'', h3)
          else if \<bar>modulus\<bar> = 1 then heap_int h3 0
          else if exponent < 0 then
            (case lib_modinv lib base modulus of
               None \<Rightarrow> (fail ''ValueError'' ''base is not invertible for the given modulus'', h3)
             | Some inverted \<Rightarrow> heap_int h3 (lib_modpow lib inverted (- exponent) modulus))
          else heap_int h3 (lib_modpow lib base exponent modulus)))))"

section \<open>Lemmas\<close>



section \<open>What Python computes\<close>



lemma native_value_immediate: "heap_index v = None \<Longrightarrow> native_value h v = v"
  by (simp add: native_value_def try_get_def location_def)

lemma integer_not_heap: "integer v = Some n \<Longrightarrow> heap_index v = None"
  by (cases "heap_index v") (auto simp: integer_def heap_not_int heap_not_bool)

lemma heap_integer_immediate: "integer v = Some n \<Longrightarrow> heap_integer h v = Ok n"
  by (simp add: heap_integer_def Let_def native_value_immediate integer_not_heap)

lemma heap_integer_is_integer: "heap_integer h v = Ok n \<Longrightarrow> is_integer h v"
proof -
  assume "heap_integer h v = Ok n"
  then consider m where "integer (native_value h v) = Some m"
    | ob where "integer (native_value h v) = None" "try_get h (native_value h v) = Some ob"
      "(case ob of ObjInt n \<Rightarrow> Ok n | _ \<Rightarrow> fail ''TypeError'' ''expected integer'') = Ok n"
    by (auto simp: heap_integer_def Let_def heap_get_def res_simps split: option.splits)
  then show ?thesis
  proof cases
    case 2
    then show ?thesis by (cases ob) (simp_all add: is_integer_def)
  qed (simp add: is_integer_def)
qed

definition stores_integer :: "heap \<Rightarrow> int \<Rightarrow> (tvalue, heap) run \<Rightarrow> bool" where
  "stores_integer h z r \<longleftrightarrow>
     (\<exists>v h'. r = (Ok v, h') \<and> heap_integer h' v = Ok z) \<or>
     (\<exists>d. r = (Err d, h) \<and> diag_kind d = ''MemoryError'' \<and> free_slots h = [] \<and> length (slots h) = 2 ^ 32)"

lemma heap_int_stores:
  assumes wf: "slots_wf h" shows "stores_integer h z (heap_int h z)"
proof (cases "Option.bind (to_i64 z) value_int")
  case (Some v)
  then have "value_int z = Some v" by (auto simp: to_i64_def bind_eq_Some_conv split: if_splits)
  then have "integer v = Some z" by (simp add: integer_def as_int_value_int)
  then show ?thesis using Some by (simp add: stores_integer_def heap_int_def heap_integer_immediate)
next
  case None
  from wf show ?thesis
  proof (cases rule: alloc_cases [where ob = "ObjInt z"])
    case full
    then show ?thesis using None by (auto simp: stores_integer_def heap_int_def diag_new_def)
  next
    case (placed v h')
    have g: "try_get h' v = Some (ObjInt z)"
      using allocated_location [OF wf placed(2)] allocated_objects(1-3) [OF wf placed(2)]
      by (auto simp: try_get_def split: option.split)
    then have hv: "heap_index v \<noteq> None" by (auto simp: try_get_def location_def split: option.splits)
    then have "integer v = None" using integer_not_heap [of v] by (cases "integer v") auto
    moreover have "native_value h' v = v" using g by (simp add: native_value_def)
    ultimately have "heap_integer h' v = Ok z" using g
      by (simp add: heap_integer_def heap_get_def ok_or_def)
    then show ?thesis using None placed(1) by (simp add: stores_integer_def heap_int_def)
  qed
qed






lemma abs_less_bits: "\<bar>x\<bar> < 2 ^ bits x"
proof (cases "x = 0")
  case False
  have "bits x = bits \<bar>x\<bar>" by (simp add: bits_def)
  then show ?thesis using bits_bounds(2) [of "\<bar>x\<bar>"] False by simp
qed simp













lemma left_shift_wraps_holds:
  assumes "integer a = Some x" "integer b = Some y" "0 \<le> y" "y < 64"
    and "MIN_INT \<le> wrap_i64 (x * 2 ^ nat y)" "wrap_i64 (x * 2 ^ nat y) \<le> MAX_INT"
  shows "\<exists>v. binary lib h OpLeftShift a b = (Ok v, h) \<and> heap_integer h v = Ok (wrap_i64 (x * 2 ^ nat y))"
proof -
  obtain v where v: "value_int (wrap_i64 (x * 2 ^ nat y)) = Some v"
    using assms(5,6) by (simp add: value_int_def)
  have "fast_integer lib h OpLeftShift x y = Number (Some (wrap_i64 (x * 2 ^ nat y)))"
    using assms(3,4) by (simp add: fast_integer_def to_u32_def checked_shl_def push_bit_eq_mult)
  moreover have "bool_binary OpLeftShift a b = None" by (simp add: bool_binary_def split: option.split)
  ultimately have "binary lib h OpLeftShift a b = (Ok v, h)" using assms(1,2) v by (simp add: binary_def)
  moreover have "integer v = Some (wrap_i64 (x * 2 ^ nat y))" using v by (simp add: integer_def as_int_value_int)
  ultimately show ?thesis using heap_integer_immediate by blast
qed

text \<open>What the documentation of \<open>BigInt\<close> promises: powers and inverses reduced like the floored
  modulus, the inverse exactly for coprime arguments.\<close>

definition modular_library :: "numeric_library \<Rightarrow> bool" where
  "modular_library lib \<longleftrightarrow>
     (\<forall>b e m. 0 \<le> e \<longrightarrow> m \<noteq> 0 \<longrightarrow> lib_modpow lib b e m = b ^ nat e mod m) \<and>
     (\<forall>b m. m \<noteq> 0 \<longrightarrow> (case lib_modinv lib b m of
        None \<Rightarrow> \<not> coprime b m
      | Some i \<Rightarrow> coprime b m \<and> b * i mod m = 1 mod m))"

text \<open>\<open>pow(b, e, m)\<close> is the residue of the power for \<open>0 \<le> e\<close>, and for a negative exponent the
  residue whose product with \<open>b ^ -e\<close> is 1.\<close>

definition modular_power :: "int \<Rightarrow> int \<Rightarrow> int \<Rightarrow> int \<Rightarrow> bool" where
  "modular_power b e m r \<longleftrightarrow> r mod m = r \<and>
     (if 0 \<le> e then r = b ^ nat e mod m else b ^ nat (- e) * r mod m = 1 mod m)"

lemma modular_power_unit:
  assumes "\<bar>m\<bar> = 1" shows "modular_power b e m 0"
proof -
  have "k mod m = 0" for k :: int
    using assms by (cases "m = 1") (auto simp: abs_if split: if_splits)
  then show ?thesis by (simp add: modular_power_def)
qed

lemma pow_mod_computes:
  assumes lib: "modular_library lib" and wf: "slots_wf h"
    and b: "heap_integer h vb = Ok b" and e: "heap_integer h ve = Ok e" and m: "heap_integer h vm = Ok m"
  shows "(m = 0 \<or> m \<noteq> 0 \<and> \<bar>m\<bar> \<noteq> 1 \<and> e < 0 \<and> \<not> coprime b m) \<and>
      (\<exists>d. pow_mod lib h vb ve vm = (Err d, h) \<and> diag_kind d = ''ValueError'') \<or>
    (\<exists>r. m \<noteq> 0 \<and> modular_power b e m r \<and> stores_integer h r (pow_mod lib h vb ve vm))"
proof -
  note stores = heap_int_stores [OF wf]
  have run: "pow_mod lib h vb ve vm =
    (if m = 0 then (fail ''ValueError'' ''pow() 3rd argument cannot be 0'', h)
     else if \<bar>m\<bar> = 1 then heap_int h 0
     else if e < 0 then
       (case lib_modinv lib b m of
          None \<Rightarrow> (fail ''ValueError'' ''base is not invertible for the given modulus'', h)
        | Some inverted \<Rightarrow> heap_int h (lib_modpow lib inverted (- e) m))
     else heap_int h (lib_modpow lib b e m))"
    using heap_integer_is_integer [OF b] heap_integer_is_integer [OF e] heap_integer_is_integer [OF m]
    by (simp add: pow_mod_def b e m)
  consider (zero) "m = 0" | (unit) "m \<noteq> 0" "\<bar>m\<bar> = 1" | (pos) "m \<noteq> 0" "\<bar>m\<bar> \<noteq> 1" "0 \<le> e"
    | (neg) "m \<noteq> 0" "\<bar>m\<bar> \<noteq> 1" "e < 0" by linarith
  then show ?thesis
  proof cases
    case zero
    then show ?thesis unfolding run by (simp add: diag_new_def)
  next
    case unit
    then show ?thesis unfolding run using modular_power_unit [OF unit(2)] stores [of 0]
      by (intro disjI2 exI [of _ 0]) simp
  next
    case pos
    have "modular_power b e m (lib_modpow lib b e m)"
      using lib pos by (simp add: modular_library_def modular_power_def)
    then show ?thesis unfolding run using pos stores by auto
  next
    case neg
    note inv = lib [unfolded modular_library_def, THEN conjunct2, rule_format, OF neg(1), of b]
    show ?thesis
    proof (cases "lib_modinv lib b m")
      case None
      then show ?thesis unfolding run using neg inv by (simp add: diag_new_def)
    next
      case (Some i)
      define n where "n = nat (- e)"
      have p: "lib_modpow lib i (- e) m = i ^ n mod m"
        using lib neg by (simp add: modular_library_def n_def)
      have "b ^ n * (i ^ n mod m) mod m = (b * i) ^ n mod m"
        by (simp add: mod_mult_right_eq power_mult_distrib)
      also have "\<dots> = (b * i mod m) ^ n mod m" by (simp add: power_mod)
      also have "\<dots> = 1 mod m" using inv Some by (simp add: power_mod)
      finally have "modular_power b e m (lib_modpow lib i (- e) m)"
        using neg by (simp add: modular_power_def p n_def)
      then show ?thesis unfolding run using neg Some stores by auto
    qed
  qed
qed

lemma round_integer_computes:
  assumes wf: "slots_wf h" and nd: "nd < 0" and v: "bits v < 2 ^ 32 - 1"
  shows "\<exists>k. nearest_int (of_int v / 10 ^ nat (- nd)) k \<and>
    stores_integer h (k * 10 ^ nat (- nd)) (round_integer h v (Some nd))"
proof -
  note stores = heap_int_stores [OF wf]
  define n where "n = nat (- nd)"
  consider (zero) "v = 0" | (far) "v \<noteq> 0" "int (bits v) + 1 < - nd" | (near) "v \<noteq> 0" "- nd \<le> int (bits v) + 1"
    by linarith
  then show ?thesis
  proof cases
    case zero
    have "nearest_int 0 0" by (rule nearest_int_0) simp
    then show ?thesis using zero nd stores [of 0] by (intro exI [of _ 0]) (simp add: round_integer_def)
  next
    case far
    have "(of_int \<bar>v\<bar> :: rat) < of_int (2 ^ bits v)" by (simp only: of_int_less_iff abs_less_bits)
    then have "\<bar>of_int v / 10 ^ n\<bar> < (2 ^ bits v / 10 ^ n :: rat)" by (simp add: abs_divide divide_strict_right_mono)
    also have "(2 :: rat) ^ bits v \<le> 10 ^ bits v" by (rule power_mono) simp_all
    then have "(2 :: rat) ^ bits v / 10 ^ n \<le> 10 ^ bits v / 10 ^ n" by (simp add: divide_right_mono)
    also have "(10 :: rat) ^ bits v / 10 ^ n \<le> 10 ^ bits v / 10 ^ (bits v + 1)"
      using far by (intro divide_left_mono power_increasing) (simp_all add: n_def)
    also have "\<dots> = 1 / 10" by simp
    finally have "nearest_int (of_int v / 10 ^ n) 0" by (intro nearest_int_0) simp
    moreover have "round_integer h v (Some nd) = heap_int h 0"
      using far nd v by (simp add: round_integer_def Let_def min_def)
    ultimately show ?thesis using stores [of 0] by (intro exI [of _ 0]) (simp add: n_def)
  next
    case near
    have "to_u32 (- nd) = Some n" using near nd v by (simp add: to_u32_def n_def)
    then have "round_integer h v (Some nd) = heap_int h (round_ratio v (10 ^ n) * 10 ^ n)"
      using near nd v by (simp add: round_integer_def Let_def min_def)
    moreover have "nearest_int (of_int v / of_int (10 ^ n)) (round_ratio v (10 ^ n))"
      by (rule round_ratio_nearest) simp
    ultimately show ?thesis using stores by (intro exI [of _ "round_ratio v (10 ^ n)"]) (simp add: n_def)
  qed
qed

section \<open>Properties\<close>


definition sample_library :: numeric_library where
  "sample_library = \<lparr>lib_powf = \<lambda>_ _. f64_nan, lib_to_f64 = \<lambda>_. None, lib_from_f64 = \<lambda>_. None,
     lib_modpow = \<lambda>b e m. b ^ nat e mod m,
     lib_modinv = \<lambda>b m. find (\<lambda>i. b * i mod m = 1 mod m) [0..\<bar>m\<bar> - 1]\<rparr>"


text \<open>C33: The immediate path of the left shift keeps only 64 bits: \<open>i64::checked_shl\<close> refuses a count of
  64 or more but not the loss of high bits, so for two immediates with a count below 64 the result
  is the product wrapped to 64 bits whenever that is an immediate, and \<open>4 << 62\<close> is 0.\<close>

theorem left_shift_wraps:
  assumes "integer a = Some x" "integer b = Some y" "0 \<le> y" "y < 64"
    and "MIN_INT \<le> wrap_i64 (x * 2 ^ nat y)" "wrap_i64 (x * 2 ^ nat y) \<le> MAX_INT"
  shows "\<exists>v. binary lib h OpLeftShift a b = (Ok v, h) \<and> heap_integer h v = Ok (wrap_i64 (x * 2 ^ nat y))"
  by (rule left_shift_wraps_holds [OF assms])

lemma left_shift_wraps_witness:
  "(\<exists>v. binary sample_library heap_default OpLeftShift (Value 33) (Value 497) = (Ok v, heap_default) \<and>
    heap_integer heap_default v = Ok 0) \<and> (4 :: int) * 2 ^ 62 \<noteq> 0"
proof -
  have w: "wrap_i64 (4 * 2 ^ nat 62) = 0" by (simp add: wrap_i64_def)
  have "\<exists>v. binary sample_library heap_default OpLeftShift (Value 33) (Value 497) = (Ok v, heap_default) \<and>
    heap_integer heap_default v = Ok (wrap_i64 (4 * 2 ^ nat 62))"
    by (rule left_shift_wraps) (simp_all add: integer_def as_int_def wrap_i64_def MIN_INT_def MAX_INT_def)
  then show ?thesis unfolding w by simp
qed

text \<open>C34: Three-argument \<open>pow\<close>: given what the documentation of \<open>BigInt\<close> promises of \<open>modpow\<close> and \<open>modinv\<close>,
  the result is the floored residue of the power, for a negative exponent the residue that
  multiplies with the power of the base to 1, and \<open>ValueError\<close> is raised exactly for modulus 0 and for
  a base without inverse.\<close>

theorem pow_mod_exact:
  assumes "modular_library lib" "heap_reachable h"
    and "heap_integer h vb = Ok b" "heap_integer h ve = Ok e" "heap_integer h vm = Ok m"
  shows "(m = 0 \<or> m \<noteq> 0 \<and> \<bar>m\<bar> \<noteq> 1 \<and> e < 0 \<and> \<not> coprime b m) \<and>
      (\<exists>d. pow_mod lib h vb ve vm = (Err d, h) \<and> diag_kind d = ''ValueError'') \<or>
    (\<exists>r. m \<noteq> 0 \<and> modular_power b e m r \<and> stores_integer h r (pow_mod lib h vb ve vm))"
proof (rule pow_mod_computes [OF assms(1) _ assms(3-5)])
  show "slots_wf h" using reachable_heap_inv [OF assms(2)] by (simp add: heap_inv_def heap_ok_def)
qed

lemma sample_modular: "modular_library sample_library"
  unfolding modular_library_def
proof (intro conjI allI impI)
  fix b m :: int assume m: "m \<noteq> 0"
  let ?P = "\<lambda>i. b * i mod m = 1 mod m"
  show "case lib_modinv sample_library b m of None \<Rightarrow> \<not> coprime b m | Some i \<Rightarrow> coprime b m \<and> ?P i"
  proof (cases "find ?P [0..\<bar>m\<bar> - 1]")
    case None
    have "\<not> coprime b m"
    proof
      assume "coprime b m"
      then obtain u v where "u * b + v * m = 1" using bezout_int [of b m] by auto
      then have "b * u mod m = 1 mod m" by (metis mod_mult_self1 mult.commute)
      then have "b * (u mod \<bar>m\<bar>) mod m = 1 mod m"
        by (metis abs_dvd_iff dvd_refl mod_mod_cancel mod_mult_right_eq)
      moreover have "u mod \<bar>m\<bar> \<in> set [0..\<bar>m\<bar> - 1]" using m by simp
      ultimately show False using find_None_D [OF None] by blast
    qed
    then show ?thesis using None by (simp add: sample_library_def)
  next
    case (Some i)
    then have p: "?P i" using find_Some_D [OF Some] by blast
    then have "m dvd b * i - 1" by (simp only: mod_eq_dvd_iff)
    then have "gcd b m dvd b * i - 1" using gcd_dvd2 by (rule dvd_trans [rotated])
    moreover have "gcd b m dvd b * i" by simp
    ultimately have "gcd b m dvd b * i - (b * i - 1)" by (rule dvd_diff [rotated])
    then have "coprime b m" by (simp add: coprime_iff_gcd_eq_1)
    with p Some show ?thesis by (simp add: sample_library_def)
  qed
qed (simp_all add: sample_library_def)

lemma pow_mod_exact_witness:
  "((5 :: int) = 0 \<or> (5 :: int) \<noteq> 0 \<and> \<bar>5 :: int\<bar> \<noteq> 1 \<and> (-1 :: int) < 0 \<and> \<not> coprime 3 (5 :: int)) \<and>
      (\<exists>d. pow_mod sample_library heap_default (Value 25) (Value (word_of_int (-7))) (Value 41) = (Err d, heap_default) \<and>
        diag_kind d = ''ValueError'') \<or>
    (\<exists>r. (5 :: int) \<noteq> 0 \<and> modular_power 3 (-1) 5 r \<and>
      stores_integer heap_default r
        (pow_mod sample_library heap_default (Value 25) (Value (word_of_int (-7))) (Value 41)))"
proof (rule pow_mod_exact [OF sample_modular])
  show "heap_reachable heap_default" by (rule heap_reachable.intros)
qed (simp_all add: heap_integer_immediate integer_def as_int_def)

end
