(* ===== verification/Handles.thy ===== *)
theory Handles
  imports Objects
begin

text \<open>
  The handle tables of the native boundary, \<open>HandleTable\<close> of crates/tonic-runtime/src/native.rs.

  A handle is a 64-bit word, the token of an insertion in its upper half and the slot of the table
  in its lower half. Tokens come from one atomic counter shared by all runtimes of the process
  (\<open>NEXT_TOKEN\<close>), so the state of an operation is the counter together with a table; \<open>free\<close> is a
  stack whose head is the end of the vector. The world of the machine at the end is the counter and
  the tables of all runtimes, and \<open>live\<close> is the map from handles to values a table stands for.
\<close>

unbundle bit_operations_syntax

section \<open>Tables\<close>

datatype handle_kind = Local | Persistent | BufferOwner bool | ForeignReference

record handle_entry =
  he_token :: nat
  he_value :: "tvalue option"
  he_kind :: handle_kind

record handle_table =
  ht_entries :: "handle_entry list"
  ht_free :: "nat list"

definition handle_table_default :: handle_table where
  "handle_table_default = \<lparr>ht_entries = [], ht_free = []\<rparr>"

definition invalid_handle :: diagnostic where
  "invalid_handle = diag_new ''HandleError'' ''stale, released, or foreign-runtime handle''"

definition handle_word :: "nat \<Rightarrow> nat \<Rightarrow> handle" where
  "handle_word token i = push_bit 32 (of_nat token) OR of_nat i"

definition handle_slot :: "handle \<Rightarrow> nat" where
  "handle_slot w = unat (take_bit 32 w)"

definition handle_token :: "handle \<Rightarrow> nat" where
  "handle_token w = unat (drop_bit 32 w)"

definition table_insert ::
  "nat \<times> handle_table \<Rightarrow> tvalue \<Rightarrow> handle_kind \<Rightarrow> (handle, nat \<times> handle_table) run" where
  "table_insert st v kind = (case st of (token, t) \<Rightarrow>
     if 2 ^ 32 - 1 \<le> token then (fail ''HandleError'' ''handle token space exhausted'', st)
     else let place = (\<lambda>i t1. if length (ht_entries t1) \<le> i then (Panic, (token + 1, t1))
         else (Ok (handle_word token i), (token + 1, t1\<lparr>ht_entries := (ht_entries t1)
           [i := \<lparr>he_token = token, he_value = Some v, he_kind = kind\<rparr>]\<rparr>))) in
       case ht_free t of
         i # rest \<Rightarrow> place i (t\<lparr>ht_free := rest\<rparr>)
       | [] \<Rightarrow> if 2 ^ 32 \<le> length (ht_entries t)
           then (fail ''HandleError'' ''handle table exhausted'', (token + 1, t))
           else place (length (ht_entries t))
             (t\<lparr>ht_entries := ht_entries t @ [\<lparr>he_token = 0, he_value = None, he_kind = Local\<rparr>]\<rparr>))"

definition table_entry :: "handle_table \<Rightarrow> handle \<Rightarrow> handle_entry res" where
  "table_entry t w = (if length (ht_entries t) \<le> handle_slot w then Err invalid_handle
     else let e = ht_entries t ! handle_slot w in
       if he_token e \<noteq> handle_token w \<or> he_value e = None then Err invalid_handle else Ok e)"

definition resolve_kinds :: "handle_kind set \<Rightarrow> handle_table \<Rightarrow> handle \<Rightarrow> tvalue res" where
  "resolve_kinds kinds t w = and_then (table_entry t w) (\<lambda>e.
     if he_kind e \<notin> kinds then Err invalid_handle else ok_or (he_value e) invalid_handle)"

definition table_resolve :: "handle_table \<Rightarrow> handle \<Rightarrow> tvalue res" where
  "table_resolve = resolve_kinds {Local, Persistent}"

definition resolve_persistent :: "handle_table \<Rightarrow> handle \<Rightarrow> tvalue res" where
  "resolve_persistent = resolve_kinds {Persistent}"

definition resolve_foreign_reference :: "handle_table \<Rightarrow> handle \<Rightarrow> tvalue res" where
  "resolve_foreign_reference = resolve_kinds {ForeignReference}"

definition table_release :: "handle_table \<Rightarrow> handle \<Rightarrow> handle_kind \<Rightarrow> (unit, handle_table) run" where
  "table_release t w kind = run_then (table_entry t w, t) (\<lambda>e t.
     if he_kind e \<noteq> kind then (Err invalid_handle, t)
     else let i = handle_slot w in
       (Ok (), t\<lparr>ht_entries := (ht_entries t)[i := (ht_entries t ! i)\<lparr>he_value := None\<rparr>],
          ht_free := i # ht_free t\<rparr>))"

definition table_roots :: "handle_table \<Rightarrow> tvalue list" where
  "table_roots t = concat (map (\<lambda>e. if he_kind e \<noteq> ForeignReference then opt (he_value e) else [])
     (ht_entries t))"

definition table_active :: "handle_table \<Rightarrow> nat" where
  "table_active t = length (filter (\<lambda>e. he_value e \<noteq> None) (ht_entries t))"

definition promote_foreign_reference ::
  "nat \<times> handle_table \<Rightarrow> handle \<Rightarrow> (handle, nat \<times> handle_table) run" where
  "promote_foreign_reference st w = run_then (resolve_foreign_reference (snd st) w, st) (\<lambda>v st.
     table_insert st v Persistent)"

text \<open>The pushes of the loop leave the last index at the end of the vector.\<close>

definition invalidate_all :: "handle_table \<Rightarrow> handle_table" where
  "invalidate_all t = t\<lparr>ht_entries := map (\<lambda>e. e\<lparr>he_value := None\<rparr>) (ht_entries t),
     ht_free := rev (filter (\<lambda>i. i < 2 ^ 32) [0..<length (ht_entries t)])\<rparr>"

section \<open>Encoding\<close>

lemma handle_word_fields:
  assumes "token < 2 ^ 32" "i < 2 ^ 32"
  shows "handle_slot (handle_word token i) = i" "handle_token (handle_word token i) = token"
proof -
  have bits: "take_bit 32 i = i" "take_bit 32 token = token"
    using assms by (simp_all add: take_bit_nat_eq_self_iff)
  have "take_bit 32 (handle_word token i) = of_nat (take_bit 32 i)"
    by (rule bit_word_eqI) (auto simp: handle_word_def bit_simps)
  then show "handle_slot (handle_word token i) = i"
    using assms(2) by (simp add: handle_slot_def bits unat_of_nat)
  have "drop_bit 32 (handle_word token i) = of_nat token"
  proof (rule bit_word_eqI)
    fix k assume k: "k < LENGTH(64)"
    have "\<not> bit i (32 + k)" by (subst bits(1) [symmetric]) (simp add: bit_simps)
    moreover have "bit token k \<Longrightarrow> k < 32" by (subst (asm) bits(2) [symmetric]) (simp add: bit_simps)
    ultimately show "bit (drop_bit 32 (handle_word token i)) k = bit (of_nat token :: 64 word) k"
      using k by (auto simp: handle_word_def bit_simps)
  qed
  then show "handle_token (handle_word token i) = token"
    using assms(1) by (simp add: handle_token_def unat_of_nat)
qed

lemma handle_word_eqI:
  assumes "handle_slot v = handle_slot w" "handle_token v = handle_token w"
  shows "v = w"
proof -
  have "take_bit 32 v = take_bit 32 w" "drop_bit 32 v = drop_bit 32 w"
    using assms by (simp_all add: handle_slot_def handle_token_def word_unat_eq_iff)
  then have "push_bit 32 (drop_bit 32 v) OR take_bit 32 v = push_bit 32 (drop_bit 32 w) OR take_bit 32 w"
    by simp
  moreover have "push_bit 32 (drop_bit 32 u) OR take_bit 32 u = u" for u :: handle
    by (rule bit_word_eqI) (auto simp: bit_simps)
  ultimately show ?thesis by simp
qed

section \<open>What a table stands for\<close>

definition live :: "handle_table \<Rightarrow> handle \<Rightarrow> (tvalue \<times> handle_kind) option" where
  "live t w = (if handle_slot w < length (ht_entries t) \<and>
       he_token (ht_entries t ! handle_slot w) = handle_token w
     then map_option (\<lambda>v. (v, he_kind (ht_entries t ! handle_slot w)))
       (he_value (ht_entries t ! handle_slot w)) else None)"

definition table_ok :: "handle_table \<Rightarrow> bool" where
  "table_ok t \<longleftrightarrow> distinct (ht_free t) \<and> length (ht_entries t) \<le> 2 ^ 32 \<and>
     (\<forall>i. i \<in> set (ht_free t) \<longleftrightarrow> i < length (ht_entries t) \<and> he_value (ht_entries t ! i) = None)"

text \<open>Every token in any table was issued before and stands in one slot of one table only.\<close>

definition tokens_ok :: "nat \<times> handle_table list \<Rightarrow> bool" where
  "tokens_ok wd \<longleftrightarrow> (case wd of (token, ts) \<Rightarrow> token \<le> 2 ^ 32 - 1 \<and>
     (\<forall>j < length ts. \<forall>i < length (ht_entries (ts ! j)). he_token (ht_entries (ts ! j) ! i) < token \<and>
       (\<forall>j' < length ts. \<forall>i' < length (ht_entries (ts ! j')).
          he_token (ht_entries (ts ! j) ! i) = he_token (ht_entries (ts ! j') ! i') \<longrightarrow> j = j' \<and> i = i')))"


lemma live_entry: "live t w = (case table_entry t w of Ok e \<Rightarrow> Some (the (he_value e), he_kind e) | _ \<Rightarrow> None)"
  by (auto simp: live_def table_entry_def Let_def not_le)

lemma table_entry_live: "table_entry t w = Ok e \<Longrightarrow> live t w = Some (the (he_value e), he_kind e) \<and> he_value e \<noteq> None"
  by (auto simp: live_def table_entry_def Let_def split: if_splits)

lemma table_entry_result: "(\<exists>e. table_entry t w = Ok e) \<or> table_entry t w = Err invalid_handle"
  by (simp add: table_entry_def Let_def)

lemma resolve_kinds_live:
  "resolve_kinds kinds t w = (case live t w of
     Some (v, k) \<Rightarrow> if k \<in> kinds then Ok v else Err invalid_handle | None \<Rightarrow> Err invalid_handle)"
  using table_entry_result [of t w] table_entry_live [of t w]
  by (auto simp: resolve_kinds_def live_entry ok_or_def)

text \<open>An insertion seen from outside: \<open>inserted\<close> is the entry list after it.\<close>

definition inserted :: "nat \<Rightarrow> handle_table \<Rightarrow> tvalue \<Rightarrow> handle_kind \<Rightarrow> nat \<Rightarrow> handle_table \<Rightarrow> bool" where
  "inserted token t v k i t' \<longleftrightarrow> i < 2 ^ 32 \<and> i < length (ht_entries t') \<and>
     length (ht_entries t) \<le> length (ht_entries t') \<and> length (ht_entries t') \<le> 2 ^ 32 \<and>
     (i < length (ht_entries t) \<longrightarrow> he_value (ht_entries t ! i) = None) \<and>
     ht_entries t' ! i = \<lparr>he_token = token, he_value = Some v, he_kind = k\<rparr> \<and>
     (\<forall>m < length (ht_entries t'). m \<noteq> i \<longrightarrow> m < length (ht_entries t) \<and> ht_entries t' ! m = ht_entries t ! m) \<and>
     distinct (ht_free t') \<and> set (ht_free t') = set (ht_free t) - {i}"

lemma table_insert_cases:
  assumes ok: "table_ok t" and n: "token \<le> 2 ^ 32 - 1"
  obtains (full) d m where "table_insert (token, t) v k = (Err d, (m, t))" "token \<le> m" "m \<le> 2 ^ 32 - 1"
  | (placed) i t' where "table_insert (token, t) v k = (Ok (handle_word token i), (token + 1, t'))"
      "token < 2 ^ 32 - 1" "inserted token t v k i t'"
proof (cases "2 ^ 32 - 1 \<le> token")
  case True
  with n show thesis by (intro full) (auto simp: table_insert_def)
next
  case False
  show thesis
  proof (cases "ht_free t")
    case Nil
    show thesis
    proof (cases "2 ^ 32 \<le> length (ht_entries t)")
      case True
      with False Nil show thesis by (intro full) (auto simp: table_insert_def)
    next
      case room: False
      let ?t = "t\<lparr>ht_entries := ht_entries t @ [\<lparr>he_token = token, he_value = Some v, he_kind = k\<rparr>]\<rparr>"
      have "table_insert (token, t) v k = (Ok (handle_word token (length (ht_entries t))), (token + 1, ?t))"
        using False Nil room by (simp add: table_insert_def list_update_append)
      moreover have "inserted token t v k (length (ht_entries t)) ?t"
        using room Nil by (auto simp: inserted_def nth_append less_Suc_eq)
      ultimately show thesis using False by (intro placed) auto
    qed
  next
    case (Cons i rest)
    have i: "i < length (ht_entries t)" "he_value (ht_entries t ! i) = None" and d: "i \<notin> set rest" "distinct rest"
      and l: "length (ht_entries t) \<le> 2 ^ 32"
      using ok Cons by (auto simp: table_ok_def)
    let ?t = "t\<lparr>ht_free := rest, ht_entries := (ht_entries t)[i := \<lparr>he_token = token, he_value = Some v, he_kind = k\<rparr>]\<rparr>"
    have "table_insert (token, t) v k = (Ok (handle_word token i), (token + 1, ?t))"
      using False Cons i by (simp add: table_insert_def)
    moreover have "inserted token t v k i ?t"
      using i d l Cons by (auto simp: inserted_def)
    ultimately show thesis using False by (intro placed) auto
  qed
qed

lemma inserted_table_ok:
  assumes ok: "table_ok t" and ins: "inserted token t v k i t'"
  shows "table_ok t'"
proof -
  have "m \<in> set (ht_free t') \<longleftrightarrow> m < length (ht_entries t') \<and> he_value (ht_entries t' ! m) = None" for m
    using ok ins unfolding table_ok_def inserted_def
    by (cases "m = i") (auto dest: less_le_trans)
  then show ?thesis using ins by (simp add: table_ok_def inserted_def)
qed

lemma inserted_live:
  assumes ins: "inserted token t v k i t'" and n: "token < 2 ^ 32"
    and fresh: "\<And>m. m < length (ht_entries t) \<Longrightarrow> he_token (ht_entries t ! m) < token"
  shows "live t' = (live t)(handle_word token i \<mapsto> (v, k))" "live t (handle_word token i) = None"
proof -
  have w: "handle_slot (handle_word token i) = i" "handle_token (handle_word token i) = token"
    using handle_word_fields [OF n] ins by (auto simp: inserted_def)
  show "live t (handle_word token i) = None" using fresh [of i] by (auto simp: live_def w)
  show "live t' = (live t)(handle_word token i \<mapsto> (v, k))"
  proof
    fix u
    show "live t' u = ((live t)(handle_word token i \<mapsto> (v, k))) u"
    proof (cases "u = handle_word token i")
      case True
      then show ?thesis using ins by (simp add: live_def w inserted_def)
    next
      case False
      show ?thesis
      proof (cases "handle_slot u = i")
        case True
        then have "handle_token u \<noteq> token" using False w handle_word_eqI [of u "handle_word token i"] by auto
        then show ?thesis using False True ins by (auto simp: live_def inserted_def)
      next
        case slot: False
        then have "handle_slot u < length (ht_entries t') \<longleftrightarrow> handle_slot u < length (ht_entries t)"
          "handle_slot u < length (ht_entries t) \<Longrightarrow> ht_entries t' ! handle_slot u = ht_entries t ! handle_slot u"
          using ins by (auto simp: inserted_def dest: less_le_trans)
        then show ?thesis using False by (auto simp: live_def)
      qed
    qed
  qed
qed

lemma inserted_tokens_ok:
  assumes tk: "tokens_ok (token, ts)" and j: "j < length ts" and ins: "inserted token (ts ! j) v k i t'"
    and n: "token < 2 ^ 32 - 1"
  shows "tokens_ok (token + 1, ts[j := t'])"
proof -
  let ?tok = "\<lambda>ts j i. he_token (ht_entries (ts ! j) ! i)"
  have old: "?tok ts a m < token" if "a < length ts" "m < length (ht_entries (ts ! a))" for a m
    using tk that unfolding tokens_ok_def by auto
  have uniq: "?tok ts a m = ?tok ts b m' \<Longrightarrow> a = b \<and> m = m'"
    if "a < length ts" "m < length (ht_entries (ts ! a))" "b < length ts" "m' < length (ht_entries (ts ! b))"
    for a m b m'
    using tk that unfolding tokens_ok_def by auto
  have new: "(a, m) = (j, i) \<and> ?tok (ts[j := t']) a m = token \<or>
      (a, m) \<noteq> (j, i) \<and> m < length (ht_entries (ts ! a)) \<and> ?tok (ts[j := t']) a m = ?tok ts a m"
    if "a < length ts" "m < length (ht_entries (ts[j := t'] ! a))" for a m
    using that ins j by (cases "a = j") (auto simp: inserted_def)
  show ?thesis unfolding tokens_ok_def prod.case length_list_update
  proof (intro conjI allI impI)
    show "token + 1 \<le> 2 ^ 32 - 1" using n by simp
    fix a m assume a: "a < length ts" "m < length (ht_entries (ts[j := t'] ! a))"
    show "?tok (ts[j := t']) a m < token + 1" using new [OF a] old [OF a(1)] less_SucI by fastforce
    fix b m' assume b: "b < length ts" "m' < length (ht_entries (ts[j := t'] ! b))"
      and eq: "?tok (ts[j := t']) a m = ?tok (ts[j := t']) b m'"
    have "a = b \<and> m = m'"
      using new [OF a] new [OF b] old [OF a(1), of m] old [OF b(1), of m'] uniq [OF a(1) _ b(1)] eq
      by (metis less_irrefl prod.inject)
    then show "a = b" "m = m'" by auto
  qed
qed


text \<open>A release and the invalidation keep tokens and only drop values.\<close>

lemma table_release_ok:
  assumes ok: "table_ok t" and r: "table_release t w k = (Ok u, t')"
  shows "table_ok t'" "live t' = (live t)(w := None)" "\<exists>v. live t w = Some (v, k)"
    "length (ht_entries t') = length (ht_entries t)"
    "\<And>i. i < length (ht_entries t) \<Longrightarrow> he_token (ht_entries t' ! i) = he_token (ht_entries t ! i)"
proof -
  let ?i = "handle_slot w"
  from r obtain e where e: "table_entry t w = Ok e" and k: "he_kind e = k"
    and t': "t' = t\<lparr>ht_entries := (ht_entries t)[?i := (ht_entries t ! ?i)\<lparr>he_value := None\<rparr>],
      ht_free := ?i # ht_free t\<rparr>"
    by (auto simp: table_release_def Let_def res_simps split: if_splits)
  from e have i: "?i < length (ht_entries t)" and tok: "he_token (ht_entries t ! ?i) = handle_token w"
    and v: "he_value (ht_entries t ! ?i) \<noteq> None" and e': "e = ht_entries t ! ?i"
    by (auto simp: table_entry_def Let_def split: if_splits)
  show "\<exists>v. live t w = Some (v, k)" using table_entry_live [OF e] k by auto
  show "length (ht_entries t') = length (ht_entries t)"
    "\<And>i. i < length (ht_entries t) \<Longrightarrow> he_token (ht_entries t' ! i) = he_token (ht_entries t ! i)"
    by (simp add: t', case_tac "i = ?i") (simp_all add: t')
  show "table_ok t'" using ok i v by (auto simp: t' table_ok_def nth_list_update)
  show "live t' = (live t)(w := None)"
  proof
    fix u
    show "live t' u = ((live t)(w := None)) u"
      using i tok handle_word_eqI [of u w]
      by (cases "handle_slot u = ?i") (auto simp: t' live_def nth_list_update)
  qed
qed

lemma table_release_fails:
  "(\<exists>u t'. table_release t w k = (Ok u, t')) \<longleftrightarrow> (\<exists>v. live t w = Some (v, k))" (is ?live)
  "(\<exists>u t'. table_release t w k = (Ok u, t')) \<or> table_release t w k = (Err invalid_handle, t)" (is ?result)
proof -
  have "?live \<and> ?result"
  proof (cases "table_entry t w")
    case (Ok e)
    then show ?thesis using table_entry_live [OF Ok]
      by (cases "he_kind e = k") (simp_all add: table_release_def Let_def)
  qed (use table_entry_result [of t w] in \<open>auto simp: table_release_def live_entry\<close>)
  then show ?live ?result by auto
qed

lemma invalidate_all_entries:
  "length (ht_entries (invalidate_all t)) = length (ht_entries t)"
  "i < length (ht_entries t) \<Longrightarrow> ht_entries (invalidate_all t) ! i = (ht_entries t ! i)\<lparr>he_value := None\<rparr>"
  by (simp_all add: invalidate_all_def)

lemma invalidate_all_live: "live (invalidate_all t) = Map.empty"
proof
  fix w
  show "live (invalidate_all t) w = None"
    by (cases "handle_slot w < length (ht_entries t)") (simp_all add: live_def invalidate_all_entries)
qed

lemma indices_below_bound:
  assumes "n \<le> (b::nat)" shows "filter (\<lambda>i. i < b) [0..<n] = [0..<n]"
  using assms by (intro filter_True) auto

lemma invalidate_all_table_ok:
  assumes ok: "table_ok t"
  shows "table_ok (invalidate_all t)"
proof -
  have len: "length (ht_entries t) \<le> 2 ^ 32" using ok by (simp add: table_ok_def)
  have free: "ht_free (invalidate_all t) = rev [0..<length (ht_entries t)]"
    by (simp only: invalidate_all_def indices_below_bound [OF len]) simp
  have gone: "he_value (e\<lparr>he_value := None\<rparr>) = None" for e :: handle_entry by simp
  show ?thesis
    using len by (auto simp only: table_ok_def free invalidate_all_entries gone set_rev set_upt
      distinct_rev distinct_upt atLeastLessThan_iff le0 simp_thms)
qed

lemma tokens_ok_same_tokens:
  assumes tk: "tokens_ok (token, ts)" and j: "j < length ts" and m: "token \<le> m" "m \<le> 2 ^ 32 - 1"
    and len: "length (ht_entries t') = length (ht_entries (ts ! j))"
    and tok: "\<And>i. i < length (ht_entries (ts ! j)) \<Longrightarrow> he_token (ht_entries t' ! i) = he_token (ht_entries (ts ! j) ! i)"
  shows "tokens_ok (m, ts[j := t'])"
proof -
  have same: "length (ht_entries (ts[j := t'] ! a)) = length (ht_entries (ts ! a)) \<and>
      (i < length (ht_entries (ts ! a)) \<longrightarrow>
        he_token (ht_entries (ts[j := t'] ! a) ! i) = he_token (ht_entries (ts ! a) ! i))" for a i
    using len tok j by (cases "a = j") auto
  show ?thesis using tk m same unfolding tokens_ok_def by (auto dest: less_le_trans)
qed

lemma live_token:
  assumes "live t w = Some x" shows "handle_slot w < length (ht_entries t)"
    "he_token (ht_entries t ! handle_slot w) = handle_token w"
  using assms by (auto simp: live_def split: if_splits)

lemma live_unique:
  assumes tk: "tokens_ok (token, ts)" and a: "a < length ts" "live (ts ! a) w = Some x"
    and b: "b < length ts" "live (ts ! b) w = Some y"
  shows "a = b"
  using tk a(1) b(1) live_token [OF a(2)] live_token [OF b(2)] unfolding tokens_ok_def by auto

section \<open>All runtimes of a process\<close>

datatype handle_event =
    HandleNewRuntime
  | HandleInsert nat tvalue handle_kind
  | HandlePromote nat handle
  | HandleRelease nat handle handle_kind
  | HandleInvalidate nat

definition insert_in :: "nat \<Rightarrow> tvalue \<Rightarrow> handle_kind \<Rightarrow> nat \<times> handle_table list \<Rightarrow> nat \<times> handle_table list" where
  "insert_in j v k wd = (case snd (table_insert (fst wd, snd wd ! j) v k) of
     (token, t) \<Rightarrow> (token, (snd wd)[j := t]))"

text \<open>An event on a runtime that does not exist does nothing.\<close>

fun handle_step :: "handle_event \<Rightarrow> nat \<times> handle_table list \<Rightarrow> nat \<times> handle_table list" where
  "handle_step HandleNewRuntime (token, ts) = (token, ts @ [handle_table_default])"
| "handle_step (HandleInsert j v k) (token, ts) =
     (if j < length ts then insert_in j v k (token, ts) else (token, ts))"
| "handle_step (HandlePromote j w) (token, ts) =
     (if j < length ts then (case snd (promote_foreign_reference (token, ts ! j) w) of
        (token', t) \<Rightarrow> (token', ts[j := t])) else (token, ts))"
| "handle_step (HandleRelease j w k) (token, ts) =
     (if j < length ts then (token, ts[j := snd (table_release (ts ! j) w k)]) else (token, ts))"
| "handle_step (HandleInvalidate j) (token, ts) =
     (if j < length ts then (token, ts[j := invalidate_all (ts ! j)]) else (token, ts))"

definition handle_run :: "handle_event list \<Rightarrow> nat \<times> handle_table list \<Rightarrow> nat \<times> handle_table list" where
  "handle_run evs wd = fold handle_step evs wd"

definition handle_world :: "handle_event list \<Rightarrow> nat \<times> handle_table list" where
  "handle_world evs = handle_run evs (1, [])"

definition world_ok :: "nat \<times> handle_table list \<Rightarrow> bool" where
  "world_ok wd \<longleftrightarrow> tokens_ok wd \<and> list_all table_ok (snd wd)"

lemma list_all_update: "list_all P xs \<Longrightarrow> P x \<Longrightarrow> list_all P (xs[i := x])"
  by (auto simp: list_all_iff dest: set_update_subset_insert [THEN subsetD])

text \<open>A handle issued before and live in no table.\<close>

definition forgotten :: "handle \<Rightarrow> nat \<times> handle_table list \<Rightarrow> bool" where
  "forgotten w wd \<longleftrightarrow> handle_token w < fst wd \<and> list_all (\<lambda>t. live t w = None) (snd wd)"

lemma promote_step:
  assumes "j < length ts"
  shows "handle_step (HandlePromote j w) (token, ts) = (token, ts) \<or>
    (\<exists>v. handle_step (HandlePromote j w) (token, ts) = insert_in j v Persistent (token, ts))"
  using assms
proof (cases "resolve_foreign_reference (ts ! j) w")
  case (Ok v)
  then have "handle_step (HandlePromote j w) (token, ts) = insert_in j v Persistent (token, ts)"
    using assms by (simp add: promote_foreign_reference_def insert_in_def)
  then show ?thesis by blast
qed (use assms in \<open>simp_all add: promote_foreign_reference_def\<close>)

lemma insert_in_ok:
  assumes ok: "world_ok wd" and j: "j < length (snd wd)"
  shows "world_ok (insert_in j v k wd)" "forgotten w wd \<Longrightarrow> forgotten w (insert_in j v k wd)"
proof -
  obtain token ts where wd: "wd = (token, ts)" by (cases wd)
  have tk: "tokens_ok (token, ts)" and ts: "list_all table_ok ts" and n: "token \<le> 2 ^ 32 - 1" and j: "j < length ts"
    and old: "\<And>m. m < length (ht_entries (ts ! j)) \<Longrightarrow> he_token (ht_entries (ts ! j) ! m) < token"
    using ok j by (auto simp: world_ok_def tokens_ok_def wd)
  have t: "table_ok (ts ! j)" using ts j by (simp add: list_all_length)
  have "world_ok (insert_in j v k wd) \<and> (forgotten w wd \<longrightarrow> forgotten w (insert_in j v k wd))"
    using t n
  proof (cases rule: table_insert_cases [where v = v and k = k])
    case (full d m)
    then have "insert_in j v k wd = (m, ts)" by (simp add: insert_in_def wd)
    moreover have "tokens_ok (m, ts)"
      using tokens_ok_same_tokens [OF tk j full(2,3) refl refl] by simp
    ultimately show ?thesis using ts full(2) by (auto simp: world_ok_def forgotten_def wd)
  next
    case (placed i t')
    have in_wd: "insert_in j v k wd = (token + 1, ts[j := t'])" using placed by (simp add: insert_in_def wd)
    have "tokens_ok (token + 1, ts[j := t'])" by (rule inserted_tokens_ok [OF tk j placed(3,2)])
    moreover have "list_all table_ok (ts[j := t'])"
      by (rule list_all_update [OF ts inserted_table_ok [OF t placed(3)]])
    moreover have "forgotten w (token + 1, ts[j := t'])" if w: "forgotten w wd"
    proof -
      have "handle_token (handle_word token i) = token"
        using placed by (intro handle_word_fields) (auto simp: inserted_def)
      then have "w \<noteq> handle_word token i" using w by (auto simp: forgotten_def wd)
      moreover have "live (ts ! j) w = None" using w j by (simp add: forgotten_def wd list_all_length)
      ultimately have "live t' w = None"
        using inserted_live(1) [OF placed(3) _ old] placed(2) by simp
      then show ?thesis using w by (simp add: forgotten_def wd list_all_update)
    qed
    ultimately show ?thesis by (simp add: in_wd world_ok_def)
  qed
  then show "world_ok (insert_in j v k wd)" "forgotten w wd \<Longrightarrow> forgotten w (insert_in j v k wd)" by auto
qed

lemma same_tokens_ok:
  assumes ok: "world_ok (token, ts)" and j: "j < length ts" and t': "table_ok t'"
    and len: "length (ht_entries t') = length (ht_entries (ts ! j))"
    and tok: "\<And>i. i < length (ht_entries (ts ! j)) \<Longrightarrow> he_token (ht_entries t' ! i) = he_token (ht_entries (ts ! j) ! i)"
    and l: "live t' \<subseteq>\<^sub>m live (ts ! j)"
  shows "world_ok (token, ts[j := t'])" "forgotten w (token, ts) \<Longrightarrow> forgotten w (token, ts[j := t'])"
proof -
  have "tokens_ok (token, ts)" "token \<le> 2 ^ 32 - 1" "list_all table_ok ts"
    using ok by (auto simp: world_ok_def tokens_ok_def)
  then show "world_ok (token, ts[j := t'])"
    using tokens_ok_same_tokens [OF _ j order_refl _ len tok] t'
    by (simp add: world_ok_def list_all_update)
  have "live (ts ! j) w = None \<Longrightarrow> live t' w = None" using l by (metis map_le_def domIff)
  then show "forgotten w (token, ts) \<Longrightarrow> forgotten w (token, ts[j := t'])"
    using j by (auto simp: forgotten_def list_all_length nth_list_update)
qed

lemma handle_step_ok:
  assumes "world_ok wd"
  shows "world_ok (handle_step ev wd) \<and> (forgotten w wd \<longrightarrow> forgotten w (handle_step ev wd))"
proof -
  obtain token ts where wd: "wd = (token, ts)" by (cases wd)
  have ok: "world_ok (token, ts)" using assms wd by simp
  have t: "table_ok (ts ! j)" if "j < length ts" for j using ok that by (simp add: world_ok_def list_all_length)
  show ?thesis
  proof (cases ev)
    case HandleNewRuntime
    have "table_ok handle_table_default" "live handle_table_default = Map.empty"
      by (auto simp: table_ok_def handle_table_default_def live_def)
    moreover have "tokens_ok (token, ts @ [handle_table_default])"
      using ok unfolding world_ok_def tokens_ok_def
      by (auto simp: nth_append less_Suc_eq handle_table_default_def)
    ultimately show ?thesis using ok by (simp add: HandleNewRuntime wd world_ok_def forgotten_def)
  next
    case (HandleInsert j v k)
    then show ?thesis using ok insert_in_ok(1) [OF ok, where j = j and v = v and k = k] insert_in_ok(2) [OF ok, where j = j and v = v and k = k and w = w] by (simp add: wd)
  next
    case (HandlePromote j h)
    show ?thesis
    proof (cases "j < length ts")
      case True
      then show ?thesis
        using promote_step [OF True, where w = h and token = token] insert_in_ok(1) [OF ok, where j = j and k = Persistent] insert_in_ok(2) [OF ok, where j = j and k = Persistent and w = w] ok
        unfolding HandlePromote wd by (metis snd_conv)
    qed (use ok in \<open>simp add: HandlePromote wd\<close>)
  next
    case (HandleRelease j h k)
    show ?thesis
    proof (cases "j < length ts")
      case True
      show ?thesis
      proof (cases "table_release (ts ! j) h k = (Err invalid_handle, ts ! j)")
        case False
        then obtain u t' where r: "table_release (ts ! j) h k = (Ok u, t')"
          using table_release_fails(2) [of "ts ! j" h k] by auto
        have le: "live t' \<subseteq>\<^sub>m live (ts ! j)"
          unfolding table_release_ok(2) [OF t [OF True] r] by (auto simp: map_le_def)
        note step = same_tokens_ok [OF ok True table_release_ok(1) [OF t [OF True] r]
          table_release_ok(4,5) [OF t [OF True] r] le]
        show ?thesis using True r step by (simp add: HandleRelease wd)
      qed (use True ok in \<open>simp add: HandleRelease wd\<close>)
    qed (use ok in \<open>simp add: HandleRelease wd\<close>)
  next
    case (HandleInvalidate j)
    show ?thesis
    proof (cases "j < length ts")
      case True
      have "live (invalidate_all (ts ! j)) \<subseteq>\<^sub>m live (ts ! j)" by (simp add: invalidate_all_live)
      note step = same_tokens_ok [OF ok True invalidate_all_table_ok [OF t [OF True]] _ _ this]
      show ?thesis using True step by (simp add: HandleInvalidate wd invalidate_all_entries)
    qed (use ok in \<open>simp add: HandleInvalidate wd\<close>)
  qed
qed

lemma handle_run_ok:
  "world_ok wd \<Longrightarrow> world_ok (handle_run evs wd) \<and> (forgotten w wd \<longrightarrow> forgotten w (handle_run evs wd))"
proof (induction evs arbitrary: wd)
  case (Cons ev evs)
  then show ?case using handle_step_ok [OF Cons.prems, of ev w] by (auto simp: handle_run_def)
qed (simp add: handle_run_def)

lemma handle_world_ok: "world_ok (handle_world evs)"
proof -
  have "world_ok (1, [])" by (simp add: world_ok_def tokens_ok_def)
  then show ?thesis using handle_run_ok by (simp add: handle_world_def)
qed

lemma forgotten_dead:
  assumes "forgotten w wd" "t \<in> set (snd wd)"
  shows "live t w = None" "resolve_kinds kinds t w = Err invalid_handle"
  using assms by (auto simp: forgotten_def list_all_iff resolve_kinds_live)

lemma token_issued:
  assumes "world_ok (token, ts)" "j < length ts" "i < length (ht_entries (ts ! j))"
  shows "he_token (ht_entries (ts ! j) ! i) < token" "he_token (ht_entries (ts ! j) ! i) < 2 ^ 32" "i < 2 ^ 32"
proof -
  show less: "he_token (ht_entries (ts ! j) ! i) < token" using assms unfolding world_ok_def tokens_ok_def by blast
  have "token \<le> 2 ^ 32 - 1" using assms(1) by (simp add: world_ok_def tokens_ok_def)
  then show "he_token (ht_entries (ts ! j) ! i) < 2 ^ 32" using less by simp
  have "length (ht_entries (ts ! j)) \<le> 2 ^ 32"
    using assms(1,2) by (simp add: world_ok_def list_all_length table_ok_def)
  then show "i < 2 ^ 32" by (rule less_le_trans [OF assms(3)])
qed

lemma live_issued: "world_ok (token, ts) \<Longrightarrow> j < length ts \<Longrightarrow> live (ts ! j) w = Some x \<Longrightarrow> handle_token w < token"
  using live_token [of "ts ! j" w x] token_issued [of token ts j "handle_slot w"] by simp

text \<open>A handle live in one table, dropped there, is forgotten.\<close>

lemma dropped_forgotten:
  assumes ok: "world_ok (token, ts)" and j: "j < length ts" and l: "live (ts ! j) w = Some x" and d: "live t' w = None"
  shows "forgotten w (token, ts[j := t'])"
proof -
  have "live (ts ! a) w = None" if "a < length ts" "a \<noteq> j" for a
    using live_unique [of token ts a w _ j x] ok that j l by (cases "live (ts ! a) w") (auto simp: world_ok_def)
  then show ?thesis using live_issued [OF ok j l] d j
    by (auto simp: forgotten_def list_all_length nth_list_update)
qed

section \<open>Roots and counts\<close>

lemma live_of_entry:
  assumes "world_ok (token, ts)" "t \<in> set ts" "i < length (ht_entries t)" "he_value (ht_entries t ! i) = Some v"
  shows "live t (handle_word (he_token (ht_entries t ! i)) i) = Some (v, he_kind (ht_entries t ! i))"
proof -
  obtain j where "j < length ts" "t = ts ! j" using assms(2) by (auto simp: in_set_conv_nth)
  then have "he_token (ht_entries t ! i) < 2 ^ 32" "i < 2 ^ 32" using token_issued [OF assms(1)] assms(3) by auto
  from handle_word_fields [OF this] show ?thesis using assms(3,4) by (simp add: live_def)
qed

lemma table_roots_live:
  assumes "world_ok (token, ts)" "t \<in> set ts"
  shows "set (table_roots t) = {v. \<exists>w k. live t w = Some (v, k) \<and> k \<noteq> ForeignReference}"
proof -
  have "v \<in> set (table_roots t) \<longleftrightarrow> (\<exists>i < length (ht_entries t).
      he_kind (ht_entries t ! i) \<noteq> ForeignReference \<and> he_value (ht_entries t ! i) = Some v)" for v
  proof -
    have "v \<in> set (table_roots t) \<longleftrightarrow> (\<exists>e\<in>set (ht_entries t). he_kind e \<noteq> ForeignReference \<and> he_value e = Some v)"
      by (force simp: table_roots_def split: option.splits if_splits)
    then show ?thesis by (metis in_set_conv_nth)
  qed
  then show ?thesis using live_of_entry [OF assms] by (fastforce simp: live_def split: if_splits)
qed

lemma table_active_live:
  assumes "world_ok (token, ts)" "t \<in> set ts"
  shows "table_active t = card (dom (live t))"
proof -
  let ?S = "{i. i < length (ht_entries t) \<and> he_value (ht_entries t ! i) \<noteq> None}"
  have "bij_betw handle_slot (dom (live t)) ?S"
  proof (rule bij_betwI')
    show "handle_slot v = handle_slot w \<longleftrightarrow> v = w" if "v \<in> dom (live t)" "w \<in> dom (live t)" for v w
      using that handle_word_eqI [of v w] by (auto simp: live_def split: if_splits)
    show "handle_slot w \<in> ?S" if "w \<in> dom (live t)" for w using that by (auto simp: live_def split: if_splits)
    fix i assume i: "i \<in> ?S"
    then obtain v where v: "he_value (ht_entries t ! i) = Some v" by auto
    obtain j where "j < length ts" "t = ts ! j" using assms(2) by (auto simp: in_set_conv_nth)
    then have "he_token (ht_entries t ! i) < 2 ^ 32" "i < 2 ^ 32" using token_issued [OF assms(1)] i by auto
    from handle_word_fields(1) [OF this] show "\<exists>w\<in>dom (live t). i = handle_slot w"
      using live_of_entry [OF assms _ v] i by (auto intro!: bexI)
  qed
  then show ?thesis by (simp add: table_active_def length_filter_conv_card bij_betw_same_card)
qed

section \<open>Properties\<close>

text \<open>The states of the map specification: what a table of a reachable world answers to each operation.\<close>

lemma insert_refines:
  assumes ok: "world_ok (token, ts)" and j: "j < length ts" and r: "table_insert (token, ts ! j) v k = (res, (token', t'))"
  shows "res \<noteq> Panic \<and> res \<noteq> Diverge" "(\<exists>d. res = Err d) \<Longrightarrow> t' = ts ! j"
    "res = Ok w \<Longrightarrow> live t' = (live (ts ! j))(w \<mapsto> (v, k)) \<and> list_all (\<lambda>t. live t w = None) ts"
proof -
  have t: "table_ok (ts ! j)" and n: "token \<le> 2 ^ 32 - 1" using ok j by (auto simp: world_ok_def tokens_ok_def list_all_length)
  have "(res \<noteq> Panic \<and> res \<noteq> Diverge) \<and> ((\<exists>d. res = Err d) \<longrightarrow> t' = ts ! j) \<and>
    (res = Ok w \<longrightarrow> live t' = (live (ts ! j))(w \<mapsto> (v, k)) \<and> list_all (\<lambda>t. live t w = None) ts)"
    using t n
  proof (cases rule: table_insert_cases [where v = v and k = k])
    case (full d m)
    then show ?thesis using r by simp
  next
    case (placed i t1)
    have "handle_token (handle_word token i) = token"
      using placed by (intro handle_word_fields) (auto simp: inserted_def)
    then have "live (ts ! a) (handle_word token i) = None" if "a < length ts" for a
      using live_issued [OF ok that, of "handle_word token i"]
      by (cases "live (ts ! a) (handle_word token i)") auto
    then have "list_all (\<lambda>t. live t (handle_word token i) = None) ts" by (simp add: list_all_length)
    moreover have "live t1 = (live (ts ! j))(handle_word token i \<mapsto> (v, k))"
      using inserted_live(1) [OF placed(3)] placed(2) token_issued(1) [OF ok j] by simp
    ultimately show ?thesis using placed(1) r by auto
  qed
  then show "res \<noteq> Panic \<and> res \<noteq> Diverge" "(\<exists>d. res = Err d) \<Longrightarrow> t' = ts ! j"
    "res = Ok w \<Longrightarrow> live t' = (live (ts ! j))(w \<mapsto> (v, k)) \<and> list_all (\<lambda>t. live t w = None) ts"
    by auto
qed

lemma release_refines:
  assumes ok: "table_ok t"
  shows "table_release t w k = (if \<exists>v. live t w = Some (v, k) then (Ok (), snd (table_release t w k))
      else (Err invalid_handle, t))"
    "\<exists>v. live t w = Some (v, k) \<Longrightarrow> live (snd (table_release t w k)) = (live t)(w := None)"
proof -
  show "table_release t w k = (if \<exists>v. live t w = Some (v, k) then (Ok (), snd (table_release t w k))
      else (Err invalid_handle, t))"
    using table_release_fails [of t w k] by auto
  assume "\<exists>v. live t w = Some (v, k)"
  then obtain u t' where "table_release t w k = (Ok u, t')" using table_release_fails(1) by blast
  then show "live (snd (table_release t w k)) = (live t)(w := None)" using table_release_ok(2) [OF ok] by simp
qed

text \<open>C11: In every state the runtimes of a process reach, a handle table implements a finite map from
  handles to values and kinds: an insertion either fails and leaves the map alone or binds a handle
  that was live in no runtime's table, and never panics; a resolution answers what the map says for
  its kinds; a release removes exactly the handle named, and only under its own kind; the roots are
  the values of the handles other than foreign references; \<open>active\<close> is the size of the map; and
  the invalidation empties it.\<close>

theorem handle_table_refines_map:
  assumes "handle_world evs = (token, ts)" "j < length ts"
  shows "(case table_insert (token, ts ! j) v k of
      (Err d, (_, t')) \<Rightarrow> t' = ts ! j
    | (Ok h, (_, t')) \<Rightarrow> live t' = (live (ts ! j))(h \<mapsto> (v, k)) \<and> list_all (\<lambda>t. live t h = None) ts
    | _ \<Rightarrow> False) \<and>
    resolve_kinds kinds (ts ! j) w = (case live (ts ! j) w of
      Some (u, k') \<Rightarrow> if k' \<in> kinds then Ok u else Err invalid_handle | None \<Rightarrow> Err invalid_handle) \<and>
    (if \<exists>u. live (ts ! j) w = Some (u, k)
     then fst (table_release (ts ! j) w k) = Ok () \<and>
       live (snd (table_release (ts ! j) w k)) = (live (ts ! j))(w := None)
     else table_release (ts ! j) w k = (Err invalid_handle, ts ! j)) \<and>
    set (table_roots (ts ! j)) = {u. \<exists>h k'. live (ts ! j) h = Some (u, k') \<and> k' \<noteq> ForeignReference} \<and>
    table_active (ts ! j) = card (dom (live (ts ! j))) \<and>
    live (invalidate_all (ts ! j)) = Map.empty"
proof -
  have ok: "world_ok (token, ts)" using handle_world_ok [of evs] assms(1) by simp
  have t: "table_ok (ts ! j)" using ok assms(2) by (simp add: world_ok_def list_all_length)
  obtain res token' t' where r: "table_insert (token, ts ! j) v k = (res, (token', t'))"
    by (metis prod.collapse)
  have "case table_insert (token, ts ! j) v k of
      (Err d, (_, t')) \<Rightarrow> t' = ts ! j
    | (Ok h, (_, t')) \<Rightarrow> live t' = (live (ts ! j))(h \<mapsto> (v, k)) \<and> list_all (\<lambda>t. live t h = None) ts
    | _ \<Rightarrow> False"
    using insert_refines [OF ok assms(2) r] by (cases res) (auto simp: r)
  moreover have "if \<exists>u. live (ts ! j) w = Some (u, k)
     then fst (table_release (ts ! j) w k) = Ok () \<and>
       live (snd (table_release (ts ! j) w k)) = (live (ts ! j))(w := None)
     else table_release (ts ! j) w k = (Err invalid_handle, ts ! j)"
    using release_refines [OF t, of w k] by (metis fst_conv)
  ultimately show ?thesis
    using resolve_kinds_live table_roots_live [OF ok, of "ts ! j"] table_active_live [OF ok, of "ts ! j"]
      invalidate_all_live assms(2) by simp
qed

theorem handle_table_refines_map_witness:
  "\<exists>token ts. handle_world [HandleNewRuntime, HandleInsert 0 (value_bool False) Persistent] = (token, ts) \<and>
     table_active (ts ! 0) = card (dom (live (ts ! 0)))"
  using handle_table_refines_map [where evs = "[HandleNewRuntime, HandleInsert 0 (value_bool False) Persistent]" and j = 0]
  by (simp add: handle_world_def handle_run_def insert_in_def table_insert_def handle_table_default_def)

text \<open>C14: A handle that was released, or whose table was invalidated, stays dead in every runtime of the
  process: whatever insertions, promotions, releases, invalidations and new runtimes follow, no
  table resolves it again, and a second release of it fails.\<close>

theorem released_handle_dead:
  assumes "handle_world evs = (token, ts)" "j < length ts" "live (ts ! j) w = Some (v, k)"
    and "ev = HandleRelease j w k \<or> ev = HandleInvalidate j"
    and "handle_run (ev # later) (token, ts) = (token', ts')" "i < length ts'"
  shows "live (ts' ! i) w = None \<and> resolve_kinds kinds (ts' ! i) w = Err invalid_handle \<and>
    table_release (ts' ! i) w k' = (Err invalid_handle, ts' ! i)"
proof -
  have ok: "world_ok (token, ts)" using handle_world_ok [of evs] assms(1) by simp
  have t: "table_ok (ts ! j)" using ok assms(2) by (simp add: world_ok_def list_all_length)
  have "forgotten w (handle_step ev (token, ts))"
    using assms(4)
  proof
    assume ev: "ev = HandleRelease j w k"
    have "live (snd (table_release (ts ! j) w k)) w = None"
      using release_refines(2) [OF t] assms(3) by simp
    from dropped_forgotten [OF ok assms(2,3) this] show ?thesis using ev assms(2) by simp
  next
    assume ev: "ev = HandleInvalidate j"
    have "live (invalidate_all (ts ! j)) w = None" by (simp add: invalidate_all_live)
    from dropped_forgotten [OF ok assms(2,3) this] show ?thesis using ev assms(2) by simp
  qed
  then have "forgotten w (token', ts')"
    using handle_run_ok [where wd = "handle_step ev (token, ts)" and evs = later and w = w]
      handle_step_ok [OF ok, where ev = ev and w = w] assms(5)
    by (simp add: handle_run_def)
  from forgotten_dead(1) [OF this, of "ts' ! i"] forgotten_dead(2) [OF this, of "ts' ! i" kinds] assms(6) table_release_fails [of "ts' ! i" w k']
  show ?thesis by auto
qed

theorem released_handle_dead_witness:
  "\<exists>token' ts'. handle_run [HandleRelease 0 (handle_word 1 0) Local, HandleInsert 0 (value_bool True) Local]
       (2, [\<lparr>ht_entries = [\<lparr>he_token = 1, he_value = Some (value_bool False), he_kind = Local\<rparr>], ht_free = []\<rparr>]) = (token', ts') \<and>
     live (ts' ! 0) (handle_word 2 0) = Some ((value_bool True), Local) \<and> live (ts' ! 0) (handle_word 1 0) = None"
proof -
  let ?ts = "[\<lparr>ht_entries = [\<lparr>he_token = 1, he_value = Some (value_bool False), he_kind = Local\<rparr>], ht_free = []\<rparr>]"
  let ?final = "(3, [\<lparr>ht_entries = [\<lparr>he_token = 2, he_value = Some (value_bool True), he_kind = Local\<rparr>], ht_free = []\<rparr>])"
  have w: "handle_slot (handle_word (Suc 0) 0) = 0" "handle_token (handle_word (Suc 0) 0) = Suc 0"
    "handle_slot (handle_word 2 0) = 0" "handle_token (handle_word 2 0) = 2"
    by (simp_all add: handle_word_fields)
  have start: "handle_world [HandleNewRuntime, HandleInsert 0 (value_bool False) Local] = (2, ?ts)"
    by (simp add: handle_world_def handle_run_def insert_in_def table_insert_def handle_table_default_def)
  have run: "handle_run [HandleRelease 0 (handle_word 1 0) Local, HandleInsert 0 (value_bool True) Local] (2, ?ts) = ?final"
    by (simp add: handle_run_def insert_in_def table_insert_def table_release_def table_entry_def w)
  have "live (?ts ! 0) (handle_word 1 0) = Some ((value_bool False), Local)" by (simp add: live_def w)
  from released_handle_dead [OF start _ this _ run, of 0]
  have "live (snd ?final ! 0) (handle_word 1 0) = None" by simp
  moreover have "live (snd ?final ! 0) (handle_word 2 0) = Some ((value_bool True), Local)" by (simp add: live_def w)
  ultimately show ?thesis using run by simp
qed

end
