(* ===== verification/Hashing.thy ===== *)
theory Hashing
  imports Arithmetic "HOL-Library.Multiset"
begin

text \<open>
  Hash material of keys: crates/tonic-runtime/src/hashing.rs, the \<open>Key\<close> of dict.rs with its hash and
  its derived order, \<open>Heap::dict_key\<close>, and the canonical arguments of a \<open>Literal\<close> (type_plan.rs).

  An \<open>i64\<close> hash is an \<open>int\<close>, \<open>hash as u64\<close> its word. The hasher of the standard library, whose
  algorithm is not specified, is the parameter \<open>hash_library\<close>. The derived orders compare the
  discriminant and then the fields; they are the order of a tree (\<open>rose\<close>) that a key maps to.
\<close>

section \<open>Hash arithmetic\<close>

record hash_library =
  hash_of_string :: "string \<Rightarrow> 64 word"
  hash_of_bytes :: "8 word list \<Rightarrow> 64 word"

definition HASH_MODULUS :: int where "HASH_MODULUS = 2 ^ 61 - 1"

definition normalize_i64 :: "int \<Rightarrow> int" where
  "normalize_i64 n = (if n = -1 then -2 else n)"

definition normalize_bigint :: "int \<Rightarrow> int" where
  "normalize_bigint n = (case to_i64 n of Some m \<Rightarrow> normalize_i64 m
     | None \<Rightarrow> normalize_i64 (n smod HASH_MODULUS))"

definition hash_u64 :: "64 word \<Rightarrow> int" where
  "hash_u64 w = normalize_i64 (uint w mod HASH_MODULUS)"

definition hash_string :: "hash_library \<Rightarrow> string \<Rightarrow> int" where
  "hash_string hl s = hash_u64 (hash_of_string hl s)"

definition hash_bytes :: "hash_library \<Rightarrow> 8 word list \<Rightarrow> int" where
  "hash_bytes hl bs = hash_u64 (hash_of_bytes hl bs)"

definition sequence_start :: int where "sequence_start = 0x345678"

definition sequence_step :: "int \<Rightarrow> int \<Rightarrow> int" where
  "sequence_step accumulator item = (accumulator * 1000003 + item) mod HASH_MODULUS"

definition sequence_finish :: "int \<Rightarrow> nat \<Rightarrow> int" where
  "sequence_finish accumulator n = normalize_i64 ((accumulator + int n) mod HASH_MODULUS)"

definition range_length :: "int \<Rightarrow> int \<Rightarrow> int \<Rightarrow> int" where
  "range_length start stop step =
     (if 0 < step then (if stop \<le> start then 0 else 1 + (stop - 1 - start) sdiv step)
      else if start \<le> stop then 0 else 1 + (start - 1 - stop) sdiv (- step))"

definition hash_range_parts :: "int \<Rightarrow> int option \<Rightarrow> int option \<Rightarrow> int" where
  "hash_range_parts n start step =
     (let a0 = sequence_step sequence_start (normalize_bigint n);
          a1 = (case start of Some s \<Rightarrow> sequence_step a0 (normalize_i64 s) | None \<Rightarrow> a0);
          a2 = (case step of Some s \<Rightarrow> sequence_step a1 (normalize_i64 s) | None \<Rightarrow> a1)
      in sequence_finish a2 (if n = 0 then 1 else if n = 1 then 2 else 3))"

definition hash_range :: "int \<Rightarrow> int \<Rightarrow> int \<Rightarrow> int" where
  "hash_range start stop step = (let n = range_length start stop step in
     hash_range_parts n (if n \<noteq> 0 then Some start else None) (if 1 < n then Some step else None))"

section \<open>The hash of a key\<close>

unbundle bit_operations_syntax

definition as_u64 :: "int \<Rightarrow> 64 word" where "as_u64 n = word_of_int n"

definition literal_code :: "hash_library \<Rightarrow> literal_type_plan \<Rightarrow> int" where
  "literal_code hl l = (case l of
      LitNone \<Rightarrow> 0x501
    | LitBool b \<Rightarrow> 0x510 + (if b then 1 else 0)
    | LitInt s \<Rightarrow> hash_string hl s XOR 0x520
    | LitStr s \<Rightarrow> hash_string hl s XOR 0x530
    | LitBytes bs \<Rightarrow> hash_bytes hl bs XOR 0x540
    | LitEllipsis \<Rightarrow> 0x550)"

text \<open>\<open>key_code\<close> is the local \<open>hash\<close> of \<open>key_hash\<close>; \<open>item\<close> is \<open>key_hash(value) as i64\<close>.\<close>

fun key_code :: "hash_library \<Rightarrow> key \<Rightarrow> int" where
  "key_code hl KNone = 0x421"
| "key_code hl KNotImplemented = 0x422"
| "key_code hl KEllipsis = 0x423"
| "key_code hl (KSmallInt n) = normalize_i64 n"
| "key_code hl (KInt n) = normalize_bigint n"
| "key_code hl (KFloat w) = hash_u64 w"
| "key_code hl (KNaN w) = hash_u64 w"
| "key_code hl (KIdentity w) = hash_u64 w"
| "key_code hl (KStr s) = hash_string hl s"
| "key_code hl (KBytes bs) = hash_bytes hl bs"
| "key_code hl (KTuple ks) = sequence_finish
     (fold (\<lambda>k a. sequence_step a (sint (as_u64 (key_code hl k)))) ks sequence_start) (length ks)"
| "key_code hl (KSlice ks) = sequence_finish
     (fold (\<lambda>k a. sequence_step a (sint (as_u64 (key_code hl k)))) ks sequence_start) (length ks)"
| "key_code hl (KRange n start step) = hash_range_parts n start step"
| "key_code hl (KMethod f r) = sequence_finish (sequence_step
     (sequence_step sequence_start (sint (as_u64 (key_code hl f)))) (sint (as_u64 (key_code hl r)))) 2"
| "key_code hl (KGenericAlias origin args) = sequence_finish (sequence_step
     (sequence_step sequence_start (sint (as_u64 (key_code hl origin)))) (sint (as_u64 (key_code hl args)))) 2"
| "key_code hl (KLiteralAlias origin args) = sequence_finish
     (fold (\<lambda>l a. sequence_step a (literal_code hl l)) args
       (sequence_step sequence_start (sint (as_u64 (key_code hl origin))))) (length args + 1)"
| "key_code hl (KCallableAlias origin ps result) =
     (let a0 = sequence_step sequence_start (sint (as_u64 (key_code hl origin)));
          a1 = (case ps of None \<Rightarrow> sequence_step a0 0x601
            | Some ks \<Rightarrow> fold (\<lambda>k a. sequence_step a (sint (as_u64 (key_code hl k)))) ks
                (sequence_step a0 0x602))
      in sequence_finish (sequence_step a1 (sint (as_u64 (key_code hl result))))
           (case ps of None \<Rightarrow> 2 | Some ks \<Rightarrow> length ks + 2))"
| "key_code hl (KUnion ks) = sequence_finish
     (fold (\<lambda>k a. sequence_step a (sint (as_u64 (key_code hl k)))) ks sequence_start) (length ks)"

definition key_hash :: "hash_library \<Rightarrow> key \<Rightarrow> 64 word" where
  "key_hash hl k = as_u64 (key_code hl k)"

section \<open>The derived order\<close>

datatype rose = Rose int "rose list"

fun rose_le :: "rose \<Rightarrow> rose \<Rightarrow> bool" and roses_le :: "rose list \<Rightarrow> rose list \<Rightarrow> bool" where
  "rose_le (Rose a xs) (Rose b ys) \<longleftrightarrow> a < b \<or> a = b \<and> roses_le xs ys"
| "roses_le [] ys \<longleftrightarrow> True"
| "roses_le (x # xs) [] \<longleftrightarrow> False"
| "roses_le (x # xs) (y # ys) \<longleftrightarrow> (if x = y then roses_le xs ys else rose_le x y)"

lemma rose_le_refl: "roses_le xs xs" "rose_le r r"
proof -
  show xs: "roses_le xs xs" for xs by (induction xs) auto
  show "rose_le r r" by (cases r) (simp add: xs)
qed

lemma rose_le_antisym:
  "rose_le r s \<Longrightarrow> rose_le s r \<Longrightarrow> r = s"
  "roses_le xs ys \<Longrightarrow> roses_le ys xs \<Longrightarrow> xs = ys"
proof (induction r s and xs ys rule: rose_le_roses_le.induct)
  case (2 ys)
  then show ?case by (cases ys) auto
qed (auto split: if_splits)

lemma rose_le_linear:
  "rose_le r s \<or> rose_le s r"
  "roses_le xs ys \<or> roses_le ys xs"
  by (induction r s and xs ys rule: rose_le_roses_le.induct) auto

lemma rose_le_trans:
  "rose_le r s \<Longrightarrow> rose_le s t \<Longrightarrow> rose_le r t"
  "roses_le xs ys \<Longrightarrow> roses_le ys zs \<Longrightarrow> roses_le xs zs"
proof (induction r s and xs ys arbitrary: t and zs rule: rose_le_roses_le.induct)
  case (1 a xs b ys)
  then show ?case by (cases t) auto
next
  case (4 x xs y ys)
  show ?case
  proof (cases zs)
    case (Cons z zs')
    show ?thesis
    proof (cases "x = y \<or> y = z")
      case True
      then show ?thesis using 4 Cons by (auto split: if_splits)
    next
      case False
      then have le: "rose_le x y" "rose_le y z" using 4 Cons by auto
      then have "x \<noteq> z" using rose_le_antisym(1) [of x y] False by auto
      then show ?thesis using 4 Cons False le by auto
    qed
  qed (use 4 in simp)
qed auto

instantiation rose :: linorder
begin

definition less_eq_rose :: "rose \<Rightarrow> rose \<Rightarrow> bool" where "less_eq_rose = rose_le"
definition less_rose :: "rose \<Rightarrow> rose \<Rightarrow> bool" where "less_rose r s \<longleftrightarrow> rose_le r s \<and> r \<noteq> s"

instance
proof
  fix r s :: rose
  show "r \<le> s \<or> s \<le> r" using rose_le_linear(1) by (simp add: less_eq_rose_def)
qed (auto simp: less_eq_rose_def less_rose_def rose_le_refl dest: rose_le_antisym intro: rose_le_trans)

end

definition field_string :: "string \<Rightarrow> rose" where
  "field_string s = Rose 0 (map (\<lambda>c. Rose (int (of_char c)) []) s)"

definition field_bytes :: "8 word list \<Rightarrow> rose" where
  "field_bytes bs = Rose 0 (map (\<lambda>b. Rose (uint b) []) bs)"

definition field_option :: "int option \<Rightarrow> rose" where
  "field_option x = (case x of None \<Rightarrow> Rose 0 [] | Some n \<Rightarrow> Rose 1 [Rose n []])"

fun literal_rose :: "literal_type_plan \<Rightarrow> rose" where
  "literal_rose LitNone = Rose 0 []"
| "literal_rose (LitBool b) = Rose 1 [Rose (if b then 1 else 0) []]"
| "literal_rose (LitInt s) = Rose 2 [field_string s]"
| "literal_rose (LitStr s) = Rose 3 [field_string s]"
| "literal_rose (LitBytes bs) = Rose 4 [field_bytes bs]"
| "literal_rose LitEllipsis = Rose 5 []"

fun key_rose :: "key \<Rightarrow> rose" where
  "key_rose KNone = Rose 0 []"
| "key_rose KNotImplemented = Rose 1 []"
| "key_rose KEllipsis = Rose 2 []"
| "key_rose (KSmallInt n) = Rose 3 [Rose n []]"
| "key_rose (KInt n) = Rose 4 [Rose n []]"
| "key_rose (KFloat w) = Rose 5 [Rose (uint w) []]"
| "key_rose (KNaN w) = Rose 6 [Rose (uint w) []]"
| "key_rose (KStr s) = Rose 7 [field_string s]"
| "key_rose (KBytes bs) = Rose 8 [field_bytes bs]"
| "key_rose (KTuple ks) = Rose 9 [Rose 0 (map key_rose ks)]"
| "key_rose (KSlice ks) = Rose 10 [Rose 0 (map key_rose ks)]"
| "key_rose (KRange n start step) = Rose 11 [Rose n [], field_option start, field_option step]"
| "key_rose (KIdentity w) = Rose 12 [Rose (uint w) []]"
| "key_rose (KMethod f r) = Rose 13 [key_rose f, key_rose r]"
| "key_rose (KGenericAlias origin args) = Rose 14 [key_rose origin, key_rose args]"
| "key_rose (KLiteralAlias origin args) = Rose 15 [key_rose origin, Rose 0 (map literal_rose args)]"
| "key_rose (KCallableAlias origin ps result) = Rose 16 [key_rose origin,
     (case ps of None \<Rightarrow> Rose 0 [] | Some ks \<Rightarrow> Rose 1 [Rose 0 (map key_rose ks)]), key_rose result]"
| "key_rose (KUnion ks) = Rose 17 [Rose 0 (map key_rose ks)]"

text \<open>\<open>sort_unstable\<close> on keys and on literals. The orders are antisymmetric on them, so the sorted
  list is the only one.\<close>

definition sort_keys :: "key list \<Rightarrow> key list" where
  "sort_keys ks = sort_key key_rose ks"

definition sort_literals :: "literal_type_plan list \<Rightarrow> literal_type_plan list" where
  "sort_literals ls = sort_key literal_rose ls"

lemma uint_inject [simp]: "uint v = uint w \<longleftrightarrow> v = w"
  by (simp add: word_uint_eq_iff)

lemma rose_chars_inj: "map (\<lambda>c. Rose (int (of_char c)) []) s = map (\<lambda>c. Rose (int (of_char c)) []) t \<longleftrightarrow> s = (t :: string)"
  by (rule inj_map_eq_map) (auto simp: inj_def)

lemma rose_bytes_inj: "map (\<lambda>b. Rose (uint b) []) s = map (\<lambda>b. Rose (uint b) []) t \<longleftrightarrow> s = (t :: 8 word list)"
  by (rule inj_map_eq_map) (auto simp: inj_def)

lemma field_inj [simp]:
  "field_string s = field_string t \<longleftrightarrow> s = t"
  "field_bytes bs = field_bytes cs \<longleftrightarrow> bs = cs"
  "field_option x = field_option y \<longleftrightarrow> x = y"
  by (auto simp: field_string_def field_bytes_def field_option_def rose_chars_inj rose_bytes_inj split: option.splits)

lemma literal_rose_inj: "literal_rose l = literal_rose m \<longleftrightarrow> l = m"
  by (cases l; cases m) (auto split: if_splits)

lemma map_inj_on_elements:
  "(\<And>x y. x \<in> set xs \<Longrightarrow> f x = f y \<Longrightarrow> x = y) \<Longrightarrow> map f xs = map f ys \<Longrightarrow> xs = ys"
  by (induction xs arbitrary: ys) (auto simp: Cons_eq_map_conv)

lemma key_rose_injective: "key_rose k = key_rose m \<Longrightarrow> k = m"
proof (induction k arbitrary: m rule: key_rose.induct)
  case (16 origin args)
  then show ?case by (cases m) (auto dest: map_inj_on_elements [rotated] simp: literal_rose_inj)
next
  case (17 origin ps result)
  then show ?case
    by (cases m) (auto split: option.splits dest: map_inj_on_elements [rotated])
next
  case (10 ks)
  then show ?case by (cases m) (auto dest: map_inj_on_elements [rotated])
next
  case (11 ks)
  then show ?case by (cases m) (auto dest: map_inj_on_elements [rotated])
next
  case (18 ks)
  then show ?case by (cases m) (auto dest: map_inj_on_elements [rotated])
qed (case_tac m; auto; fail)+

lemma sort_keys_unique: "sort_keys ks = sort_keys ms \<longleftrightarrow> mset ks = mset ms"
proof
  assume "sort_keys ks = sort_keys ms"
  then show "mset ks = mset ms" by (metis sort_keys_def mset_sort)
next
  assume eq: "mset ks = mset ms"
  have "sort (map key_rose (sort_keys ms)) = map key_rose (sort_keys ks)"
    using eq by (intro properties_for_sort) (auto simp: sort_keys_def)
  moreover have "sort (map key_rose (sort_keys ms)) = map key_rose (sort_keys ms)"
    by (intro properties_for_sort) (auto simp: sort_keys_def)
  ultimately show "sort_keys ks = sort_keys ms"
    by (metis map_inj_on_elements key_rose_injective)
qed

section \<open>Literal arguments\<close>

definition MAX_TYPE_PLAN_DEPTH :: nat where "MAX_TYPE_PLAN_DEPTH = 32"

definition integer_text :: "int \<Rightarrow> string" where
  "integer_text n = (if n < 0 then ''-'' @ decimal (nat (- n)) else decimal (nat n))"

definition make_literal :: "heap \<Rightarrow> tvalue \<Rightarrow> type_plan_rejection + literal_type_plan" where
  "make_literal h v =
     (if v = NONE then Inr LitNone
      else case as_bool v of Some b \<Rightarrow> Inr (LitBool b)
      | None \<Rightarrow> (case as_int v of Some n \<Rightarrow> Inr (LitInt (integer_text n))
      | None \<Rightarrow> if v = ELLIPSIS then Inr LitEllipsis
      else (case try_get h v of
          Some (ObjInt n) \<Rightarrow> Inr (LitInt (integer_text n))
        | Some (ObjStr s) \<Rightarrow> Inr (LitStr s)
        | Some (ObjBytes bs) \<Rightarrow> Inr (LitBytes bs)
        | _ \<Rightarrow> Inl UnsupportedValue)))"

definition is_form :: "heap \<Rightarrow> typing_form_kind \<Rightarrow> tvalue \<Rightarrow> bool" where
  "is_form h kind v = (case try_get h v of Some (ObjTypingForm _ k) \<Rightarrow> k = kind | _ \<Rightarrow> False)"

definition nested_literal :: "heap \<Rightarrow> tvalue \<Rightarrow> tvalue option" where
  "nested_literal h v = (case try_get h v of
      Some (ObjGenericAlias _ origin args) \<Rightarrow> if is_form h FormLiteral origin then Some args else None
    | _ \<Rightarrow> None)"

text \<open>The recursive \<open>append\<close>; \<open>items\<close> is the vector it pushes to.\<close>

function append_literals ::
  "heap \<Rightarrow> tvalue \<Rightarrow> nat \<Rightarrow> literal_type_plan list \<Rightarrow> type_plan_rejection + literal_type_plan list" where
  "append_literals h args level items =
     (if MAX_TYPE_PLAN_DEPTH \<le> level then Inl RecursionLimit
      else case try_get h args of
        Some (ObjTuple arguments) \<Rightarrow>
          if arguments = [] then Inl InvalidGenericArity
          else fold (\<lambda>argument acc. case acc of Inl e \<Rightarrow> Inl e
            | Inr items \<Rightarrow> (case nested_literal h argument of
                Some nested \<Rightarrow> append_literals h nested (level + 1) items
              | None \<Rightarrow> (case make_literal h argument of
                  Inl e \<Rightarrow> Inl e | Inr l \<Rightarrow> Inr (items @ [l])))) arguments (Inr items)
      | _ \<Rightarrow> Inl InvalidGenericArity)"
  by pat_completeness auto
termination
  by (relation "measure (\<lambda>(h, args, level, items). MAX_TYPE_PLAN_DEPTH - level)") auto

declare append_literals.simps [simp del]

text \<open>\<open>dedup\<close> drops consecutive repetitions.\<close>

definition canonical_literal_arguments ::
  "heap \<Rightarrow> tvalue \<Rightarrow> type_plan_rejection + literal_type_plan list" where
  "canonical_literal_arguments h args = (case append_literals h args 0 [] of
      Inl e \<Rightarrow> Inl e | Inr items \<Rightarrow> Inr (remdups_adj (sort_literals items)))"

section \<open>The key of a value\<close>

definition big_key :: "int \<Rightarrow> key" where
  "big_key n = (case to_i64 n of Some m \<Rightarrow> KSmallInt m | None \<Rightarrow> KInt n)"

definition is_integral :: "64 word \<Rightarrow> bool" where
  "is_integral f \<longleftrightarrow> f64_is_finite f \<and> f64_eq (f64_fract f) 0"

definition float_key :: "numeric_library \<Rightarrow> tvalue \<Rightarrow> 64 word \<Rightarrow> key res" where
  "float_key lib v f =
     (if f64_is_nan f then Ok (KNaN (raw v))
      else if is_integral f then (case lib_from_f64 lib f of Some n \<Rightarrow> Ok (big_key n) | None \<Rightarrow> Panic)
      else Ok (KFloat f))"

text \<open>\<open>callable_values\<close> is what a \<open>Callable\<close> alias lists: the parameters, unless they are \<open>...\<close>, and
  the result.\<close>

definition callable_values :: "heap \<Rightarrow> tvalue \<Rightarrow> (tvalue list option \<times> tvalue) res" where
  "callable_values h args = and_then (heap_get h args) (\<lambda>ob. case ob of
      ObjTuple [parameters, result] \<Rightarrow>
        if parameters = ELLIPSIS then Ok (None, result)
        else and_then (heap_get h parameters) (\<lambda>ob. case ob of
            ObjList vs \<Rightarrow> Ok (Some vs, result)
          | ObjTuple vs \<Rightarrow> Ok (Some vs, result)
          | _ \<Rightarrow> fail ''TypeError'' ''invalid Callable parameters'')
    | _ \<Rightarrow> fail ''TypeError'' ''invalid Callable arguments'')"

function dict_key :: "numeric_library \<Rightarrow> heap \<Rightarrow> tvalue \<Rightarrow> nat \<Rightarrow> key res" where
  "dict_key lib h v0 level =
     (if 100 < level then fail ''RecursionError'' ''dictionary key nesting limit''
      else let v = native_value h v0 in
        if v = NONE then Ok KNone
        else if v = NOT_IMPLEMENTED then Ok KNotImplemented
        else if v = ELLIPSIS then Ok KEllipsis
        else case integer v of Some n \<Rightarrow> Ok (KSmallInt n)
        | None \<Rightarrow> and_then (heap_get h v) (\<lambda>ob. case ob of
            ObjInt n \<Rightarrow> Ok (big_key n)
          | ObjFloat f \<Rightarrow> float_key lib v0 f
          | ObjStr s \<Rightarrow> Ok (KStr s)
          | ObjBytes bs \<Rightarrow> Ok (KBytes bs)
          | ObjTuple vs \<Rightarrow> and_then (try_map (\<lambda>w. dict_key lib h w (level + 1)) vs) (\<lambda>ks. Ok (KTuple ks))
          | ObjSlice a b c \<Rightarrow>
              and_then (try_map (\<lambda>w. dict_key lib h w (level + 1)) [a, b, c]) (\<lambda>ks. Ok (KSlice ks))
          | ObjRange start stop step \<Rightarrow> (let n = range_length start stop step in
              Ok (KRange n (if n \<noteq> 0 then Some start else None) (if 1 < n then Some step else None)))
          | ObjGenericAlias _ origin args \<Rightarrow>
              and_then (dict_key lib h origin (level + 1)) (\<lambda>origin_key.
              case (if is_form h FormLiteral origin then canonical_literal_arguments h args else Inl UnsupportedValue) of
                Inr ls \<Rightarrow> Ok (KLiteralAlias origin_key ls)
              | Inl _ \<Rightarrow>
                if is_form h FormCallable origin then
                  and_then (callable_values h args) (\<lambda>(parameters, result).
                  and_then (case parameters of None \<Rightarrow> Ok None
                    | Some vs \<Rightarrow> and_then (try_map (\<lambda>w. dict_key lib h w (level + 1)) vs) (\<lambda>ks. Ok (Some ks))) (\<lambda>parameter_keys.
                  and_then (dict_key lib h result (level + 1)) (\<lambda>result_key.
                  Ok (KCallableAlias origin_key parameter_keys result_key))))
                else and_then (dict_key lib h args (level + 1)) (\<lambda>k. Ok (KGenericAlias origin_key k)))
          | ObjUnionType _ members \<Rightarrow>
              and_then (try_map (\<lambda>w. dict_key lib h w (level + 1)) members) (\<lambda>ks. Ok (KUnion (sort_keys ks)))
          | ObjFunction _ \<Rightarrow> Ok (KIdentity (raw v))
          | ObjBuiltin _ \<Rightarrow> Ok (KIdentity (raw v))
          | ObjNative _ \<Rightarrow> Ok (KIdentity (raw v))
          | ObjTypingForm _ _ \<Rightarrow> Ok (KIdentity (raw v))
          | ObjClass _ \<Rightarrow> Ok (KIdentity (raw v))
          | ObjInstance _ _ _ \<Rightarrow> Ok (KIdentity (raw v))
          | ObjException _ \<Rightarrow> Ok (KIdentity (raw v))
          | ObjStaticMethod _ \<Rightarrow> Ok (KIdentity (raw v))
          | ObjClassMethod _ \<Rightarrow> Ok (KIdentity (raw v))
          | ObjProperty _ _ _ \<Rightarrow> Ok (KIdentity (raw v))
          | ObjPropertySetter _ \<Rightarrow> Ok (KIdentity (raw v))
          | ObjBoundMethod function receiver \<Rightarrow>
              and_then (dict_key lib h function (level + 1)) (\<lambda>f.
              and_then (dict_key lib h receiver (level + 1)) (\<lambda>r. Ok (KMethod f r)))
          | _ \<Rightarrow> fail ''TypeError'' ''unhashable dictionary key''))"
  by pat_completeness auto
termination
  by (relation "measure (\<lambda>(lib, h, v, level). 101 - level)") auto

declare dict_key.simps [simp del]

definition structural_hash :: "numeric_library \<Rightarrow> hash_library \<Rightarrow> heap \<Rightarrow> tvalue \<Rightarrow> (64 word) res" where
  "structural_hash lib hl h v = and_then (dict_key lib h v 0) (\<lambda>k. Ok (key_hash hl k))"

definition dict_keys_equal :: "numeric_library \<Rightarrow> heap \<Rightarrow> tvalue \<Rightarrow> tvalue \<Rightarrow> bool res" where
  "dict_keys_equal lib h a b = and_then (dict_key lib h a 0) (\<lambda>x.
     and_then (dict_key lib h b 0) (\<lambda>y. Ok (x = y)))"

end
