(* ===== verification/Dictionaries.thy ===== *)
theory Dictionaries
  imports Hashing "HOL-Library.AList"
begin

text \<open>
  Dictionaries and sets: crates/tonic-runtime/src/dict.rs.

  A dictionary is a vector of entries in insertion order, the hash material and the hash of each
  entry, and an index from hashes to positions. The operations of \<open>Heap\<close> that take a key compute its
  material (\<open>dict_key\<close>); the hashed operations, which the interpreter uses for keys with their own
  \<open>__hash__\<close>, get the hash and the matching position from the caller. \<open>describe\<close>, the text of a value in
  the message of a \<open>KeyError\<close>, is an argument: no other result depends on it. Byte accounting is
  left out, as in theory Heap.

  A dictionary implements an association list in insertion order (\<open>dict_alist\<close>).
\<close>

section \<open>Dictionaries\<close>

definition VERSION_LIMIT :: nat where "VERSION_LIMIT = 2 ^ 64"

definition dict_default :: dict where
  "dict_default = \<lparr>dict_entries = [], dict_materials = [], dict_hashes = [], dict_index = Map.empty,
     dict_version = 0, dict_mutation_version = 0\<rparr>"

fun find_slot :: "key list \<Rightarrow> key \<Rightarrow> nat list \<Rightarrow> nat option res" where
  "find_slot ms m [] = Ok None"
| "find_slot ms m (i # bucket) = and_then (index_at ms i) (\<lambda>k.
     if k = m then Ok (Some i) else find_slot ms m bucket)"

definition find_material :: "hash_library \<Rightarrow> dict \<Rightarrow> key \<Rightarrow> nat option res" where
  "find_material hl d m = (case dict_index d (key_hash hl m) of
      None \<Rightarrow> Ok None | Some bucket \<Rightarrow> find_slot (dict_materials d) m bucket)"

definition dict_lookup :: "hash_library \<Rightarrow> dict \<Rightarrow> key \<Rightarrow> tvalue option res" where
  "dict_lookup hl d m = and_then (find_material hl d m) (\<lambda>x. case x of
      None \<Rightarrow> Ok None
    | Some i \<Rightarrow> and_then (index_at (dict_entries d) i) (\<lambda>e. Ok (Some (snd e))))"

definition bucket_push :: "64 word \<Rightarrow> nat \<Rightarrow> (64 word \<rightharpoonup> nat list) \<Rightarrow> (64 word \<rightharpoonup> nat list)" where
  "bucket_push w i ix = ix(w \<mapsto> (case ix w of None \<Rightarrow> [] | Some bucket \<Rightarrow> bucket) @ [i])"

text \<open>The mutation of \<open>dict_set\<close> once the material is known: both version checks come before it.\<close>

definition dict_store :: "hash_library \<Rightarrow> tvalue \<Rightarrow> dict \<Rightarrow> key \<Rightarrow> tvalue \<Rightarrow> dict res" where
  "dict_store hl k d m v =
     (if VERSION_LIMIT \<le> dict_mutation_version d + 1
      then fail ''RuntimeError'' ''dict mutation version exhausted''
      else and_then (find_material hl d m) (\<lambda>x. case x of
        Some i \<Rightarrow> and_then (index_at (dict_entries d) i) (\<lambda>e.
          Ok (d\<lparr>dict_entries := (dict_entries d)[i := (fst e, v)],
            dict_mutation_version := dict_mutation_version d + 1\<rparr>))
      | None \<Rightarrow>
          if VERSION_LIMIT \<le> dict_version d + 1 then fail ''RuntimeError'' ''dict version exhausted''
          else let i = length (dict_entries d); ms = dict_materials d @ [m] in
            and_then (index_at ms i) (\<lambda>stored.
            Ok (d\<lparr>dict_index := bucket_push (key_hash hl m) i (dict_index d),
              dict_entries := dict_entries d @ [(k, v)],
              dict_materials := ms,
              dict_hashes := dict_hashes d @ [key_hash hl stored],
              dict_version := dict_version d + 1,
              dict_mutation_version := dict_mutation_version d + 1\<rparr>))))"

text \<open>The mutation of \<open>hash_set_hashed\<close>.\<close>

definition dict_store_hashed ::
  "tvalue \<Rightarrow> tvalue \<Rightarrow> key \<Rightarrow> int \<Rightarrow> nat option \<Rightarrow> dict \<Rightarrow> dict res" where
  "dict_store_hashed k v m hash matched d =
     (if VERSION_LIMIT \<le> dict_mutation_version d + 1
      then fail ''RuntimeError'' ''dict mutation version exhausted''
      else case matched of
        Some i \<Rightarrow>
          if length (dict_entries d) \<le> i then fail ''RuntimeError'' ''stale hash candidate''
          else Ok (d\<lparr>dict_entries := (dict_entries d)[i := (fst (dict_entries d ! i), v)],
            dict_mutation_version := dict_mutation_version d + 1\<rparr>)
      | None \<Rightarrow>
          if VERSION_LIMIT \<le> dict_version d + 1 then fail ''RuntimeError'' ''dict version exhausted''
          else Ok (d\<lparr>dict_index := bucket_push (as_u64 hash) (length (dict_entries d)) (dict_index d),
              dict_entries := dict_entries d @ [(k, v)],
              dict_materials := dict_materials d @ [m],
              dict_hashes := dict_hashes d @ [as_u64 hash],
              dict_version := dict_version d + 1,
              dict_mutation_version := dict_mutation_version d + 1\<rparr>))"

definition bucket_remove :: "nat \<Rightarrow> nat list \<Rightarrow> nat list res" where
  "bucket_remove i bucket = (case position ((=) i) bucket of
      None \<Rightarrow> Panic | Some s \<Rightarrow> Ok (remove_at s bucket))"

definition shift_slot :: "nat \<Rightarrow> nat \<Rightarrow> nat" where
  "shift_slot i s = (if i < s then s - 1 else s)"

definition remove_index :: "nat \<Rightarrow> 64 word \<Rightarrow> (64 word \<rightharpoonup> nat list) \<Rightarrow> (64 word \<rightharpoonup> nat list) res" where
  "remove_index i w ix = (case ix w of None \<Rightarrow> Panic
     | Some bucket \<Rightarrow> and_then (bucket_remove i bucket) (\<lambda>rest.
         let ix1 = (if rest = [] then ix(w := None) else ix(w \<mapsto> rest)) in
         Ok (\<lambda>u. map_option (map (shift_slot i)) (ix1 u))))"

text \<open>\<open>advance_versions\<close>: the two checked increments at the end. The entry is gone even where one fails.\<close>

definition advance_versions :: "dict \<Rightarrow> (unit, dict) run" where
  "advance_versions d =
     (if VERSION_LIMIT \<le> dict_version d + 1 then (fail ''RuntimeError'' ''dict version exhausted'', d)
      else let d1 = d\<lparr>dict_version := dict_version d + 1\<rparr> in
        if VERSION_LIMIT \<le> dict_mutation_version d1 + 1
        then (fail ''RuntimeError'' ''dict mutation version exhausted'', d1)
        else (Ok (), d1\<lparr>dict_mutation_version := dict_mutation_version d1 + 1\<rparr>))"

definition dict_remove :: "nat \<Rightarrow> dict \<Rightarrow> (unit, dict) run" where
  "dict_remove i d = run_then (index_at (dict_hashes d) i, d) (\<lambda>w d.
     run_then (remove_index i w (dict_index d), d) (\<lambda>ix d.
     if length (dict_entries d) \<le> i \<or> length (dict_materials d) \<le> i then (Panic, d)
     else advance_versions (d\<lparr>dict_index := ix, dict_entries := remove_at i (dict_entries d),
       dict_materials := remove_at i (dict_materials d), dict_hashes := remove_at i (dict_hashes d)\<rparr>)))"

definition dict_emptied :: "dict \<Rightarrow> (unit, dict) run" where
  "dict_emptied d = advance_versions (d\<lparr>dict_entries := [], dict_materials := [], dict_hashes := [],
     dict_index := Map.empty\<rparr>)"

section \<open>Operations of the heap\<close>

text \<open>\<open>get_mut\<close> and a mutation that can fail half way.\<close>

definition mutate_object :: "heap \<Rightarrow> tvalue \<Rightarrow> (object \<Rightarrow> ('a, object) run) \<Rightarrow> ('a, heap) run" where
  "mutate_object h v f = (case location h v of None \<Rightarrow> (Err (invalid_value v), h)
     | Some l \<Rightarrow> if length (objects h) \<le> l then (Panic, h)
         else case f (ho_object (objects h ! l)) of (r, ob) \<Rightarrow>
           (r, h\<lparr>objects := (objects h)[l := (objects h ! l)\<lparr>ho_object := ob\<rparr>]\<rparr>))"

definition dict_run :: "(dict \<Rightarrow> object) \<Rightarrow> (dict \<Rightarrow> ('a, dict) run) \<Rightarrow> dict \<Rightarrow> ('a, object) run" where
  "dict_run c f d = (case f d of (r, d') \<Rightarrow> (r, c d'))"

definition expect_dict :: "heap \<Rightarrow> tvalue \<Rightarrow> dict res" where
  "expect_dict h v = and_then (heap_get h v) (\<lambda>ob. case ob of
     ObjDict d \<Rightarrow> Ok d | _ \<Rightarrow> fail ''TypeError'' ''expected dict'')"

definition expect_hashed :: "heap \<Rightarrow> tvalue \<Rightarrow> dict res" where
  "expect_hashed h v = and_then (heap_get h v) (\<lambda>ob. case ob of
     ObjDict d \<Rightarrow> Ok d | ObjSet d \<Rightarrow> Ok d | _ \<Rightarrow> fail ''TypeError'' ''expected hashed container'')"

definition dict_get ::
  "numeric_library \<Rightarrow> hash_library \<Rightarrow> heap \<Rightarrow> tvalue \<Rightarrow> tvalue \<Rightarrow> tvalue option res" where
  "dict_get lib hl h owner k = and_then (dict_key lib h k 0) (\<lambda>m.
     and_then (expect_dict h (native_value h owner)) (\<lambda>d. dict_lookup hl d m))"

definition dict_get_str :: "hash_library \<Rightarrow> heap \<Rightarrow> tvalue \<Rightarrow> string \<Rightarrow> tvalue option res" where
  "dict_get_str hl h owner name =
     and_then (expect_dict h (native_value h owner)) (\<lambda>d. dict_lookup hl d (KStr name))"

definition heap_dict_entries :: "heap \<Rightarrow> tvalue \<Rightarrow> (tvalue \<times> tvalue) list res" where
  "heap_dict_entries h owner = and_then (expect_dict h (native_value h owner)) (\<lambda>d. Ok (dict_entries d))"

definition set_entries :: "heap \<Rightarrow> tvalue \<Rightarrow> (tvalue \<times> tvalue) list res" where
  "set_entries h owner = and_then (heap_get h (native_value h owner)) (\<lambda>ob. case ob of
     ObjSet d \<Rightarrow> Ok (dict_entries d) | _ \<Rightarrow> fail ''TypeError'' ''expected set'')"

definition dict_set ::
  "numeric_library \<Rightarrow> hash_library \<Rightarrow> heap \<Rightarrow> tvalue \<Rightarrow> tvalue \<Rightarrow> tvalue \<Rightarrow> (unit, heap) run" where
  "dict_set lib hl h owner0 k v = (let owner = native_value h owner0 in
     run_then (dict_key lib h k 0, h) (\<lambda>m h0.
     run_then (write_barrier_pair h0 owner k v) (\<lambda>_ h1.
     with_object h1 owner (\<lambda>ob. case ob of
         ObjDict d \<Rightarrow> and_then (dict_store hl k d m v) (\<lambda>d'. Ok ((), ObjDict d'))
       | _ \<Rightarrow> fail ''TypeError'' ''expected dict''))))"

definition dict_set_str ::
  "numeric_library \<Rightarrow> hash_library \<Rightarrow> heap \<Rightarrow> tvalue \<Rightarrow> string \<Rightarrow> tvalue \<Rightarrow> (unit, heap) run" where
  "dict_set_str lib hl h owner name v = run_then (alloc h (ObjStr name)) (\<lambda>k h1.
     dict_set lib hl h1 owner k v)"

definition missing_key :: "(heap \<Rightarrow> tvalue \<Rightarrow> string res) \<Rightarrow> heap \<Rightarrow> tvalue \<Rightarrow> diagnostic" where
  "missing_key describe h k = diag_new ''KeyError'' (case describe h k of Ok s \<Rightarrow> s | _ \<Rightarrow> ''missing key'')"

definition dict_delete :: "numeric_library \<Rightarrow> hash_library \<Rightarrow> (heap \<Rightarrow> tvalue \<Rightarrow> string res) \<Rightarrow>
    heap \<Rightarrow> tvalue \<Rightarrow> tvalue \<Rightarrow> (unit, heap) run" where
  "dict_delete lib hl describe h owner0 k = (let owner = native_value h owner0 in
     run_then (dict_key lib h k 0, h) (\<lambda>m h0.
     run_then (expect_dict h0 owner, h0) (\<lambda>d h1.
     run_then (and_then (find_material hl d m) (\<lambda>x. ok_or x (missing_key describe h1 k)), h1) (\<lambda>i h2.
     mutate_object h2 owner (\<lambda>ob. case ob of
         ObjDict d \<Rightarrow> dict_run ObjDict (dict_remove i) d | _ \<Rightarrow> (Panic, ob))))))"

fun merge_entries :: "numeric_library \<Rightarrow> hash_library \<Rightarrow> heap \<Rightarrow> tvalue \<Rightarrow> tvalue \<Rightarrow> nat list \<Rightarrow> (unit, heap) run" where
  "merge_entries lib hl h owner other [] = (Ok (), h)"
| "merge_entries lib hl h owner other (i # is) =
     run_then (case try_get h other of Some (ObjDict d) \<Rightarrow> index_at (dict_entries d) i
       | Some _ \<Rightarrow> Panic | None \<Rightarrow> Err (invalid_value other), h) (\<lambda>(k, v) h1.
     run_then (dict_set lib hl h1 owner k v) (\<lambda>_ h2. merge_entries lib hl h2 owner other is))"

definition dict_merge ::
  "numeric_library \<Rightarrow> hash_library \<Rightarrow> heap \<Rightarrow> tvalue \<Rightarrow> tvalue \<Rightarrow> (unit, heap) run" where
  "dict_merge lib hl h owner0 other0 = (let owner = native_value h owner0; other = native_value h other0 in
     run_then (and_then (heap_get h other) (\<lambda>ob. case ob of ObjDict d \<Rightarrow> Ok d
       | _ \<Rightarrow> fail ''TypeError'' ''dictionary unpacking requires a mapping''), h) (\<lambda>d h1.
     if owner = other then (Ok (), h1)
     else merge_entries lib hl h1 owner other [0..<length (dict_entries d)]))"

definition dict_clear :: "heap \<Rightarrow> tvalue \<Rightarrow> (unit, heap) run" where
  "dict_clear h owner = mutate_object h (native_value h owner) (\<lambda>ob. case ob of
     ObjDict d \<Rightarrow> dict_run ObjDict dict_emptied d
   | _ \<Rightarrow> (fail ''TypeError'' ''expected dict'', ob))"

section \<open>Hashed operations\<close>

definition hash_candidates :: "heap \<Rightarrow> tvalue \<Rightarrow> int \<Rightarrow> nat list res" where
  "hash_candidates h owner hash = and_then (expect_hashed h (native_value h owner)) (\<lambda>d.
     Ok (case dict_index d (as_u64 hash) of None \<Rightarrow> [] | Some bucket \<Rightarrow> bucket))"

definition hash_version :: "heap \<Rightarrow> tvalue \<Rightarrow> nat res" where
  "hash_version h owner = and_then (expect_hashed h (native_value h owner)) (\<lambda>d. Ok (dict_version d))"

definition hash_len :: "heap \<Rightarrow> tvalue \<Rightarrow> nat res" where
  "hash_len h owner = and_then (expect_hashed h (native_value h owner)) (\<lambda>d. Ok (length (dict_entries d)))"

definition hash_entry_at :: "heap \<Rightarrow> tvalue \<Rightarrow> nat \<Rightarrow> (tvalue \<times> tvalue) res" where
  "hash_entry_at h owner i = and_then (expect_hashed h (native_value h owner)) (\<lambda>d.
     if i < length (dict_entries d) then Ok (dict_entries d ! i)
     else fail ''RuntimeError'' ''stale hash candidate'')"

definition hash_set_hashed :: "numeric_library \<Rightarrow> heap \<Rightarrow> tvalue \<Rightarrow> tvalue \<Rightarrow> tvalue \<Rightarrow> int \<Rightarrow>
    nat option \<Rightarrow> (unit, heap) run" where
  "hash_set_hashed lib h owner0 k v hash matched = (let owner = native_value h owner0 in
     run_then (dict_key lib h k 0, h) (\<lambda>m h0.
     run_then (write_barrier_pair h0 owner k v) (\<lambda>_ h1.
     with_object h1 owner (\<lambda>ob. case ob of
         ObjDict d \<Rightarrow> and_then (dict_store_hashed k v m hash matched d) (\<lambda>d'. Ok ((), ObjDict d'))
       | ObjSet d \<Rightarrow> and_then (dict_store_hashed k v m hash matched d) (\<lambda>d'. Ok ((), ObjSet d'))
       | _ \<Rightarrow> fail ''TypeError'' ''expected hashed container''))))"

definition dict_delete_at :: "heap \<Rightarrow> tvalue \<Rightarrow> nat \<Rightarrow> (unit, heap) run" where
  "dict_delete_at h owner i = mutate_object h (native_value h owner) (\<lambda>ob. case ob of
     ObjDict d \<Rightarrow> if length (dict_entries d) \<le> i
         then (fail ''RuntimeError'' ''stale dictionary candidate'', ob)
         else dict_run ObjDict (dict_remove i) d
   | _ \<Rightarrow> (fail ''TypeError'' ''expected dict'', ob))"

section \<open>The index\<close>

definition index_ok :: "dict \<Rightarrow> bool" where
  "index_ok d \<longleftrightarrow> length (dict_materials d) = length (dict_entries d) \<and>
     length (dict_hashes d) = length (dict_entries d) \<and>
     (\<forall>w. (case dict_index d w of
         None \<Rightarrow> \<forall>i < length (dict_hashes d). dict_hashes d ! i \<noteq> w
       | Some bucket \<Rightarrow> bucket \<noteq> [] \<and> distinct bucket \<and>
           set bucket = {i. i < length (dict_hashes d) \<and> dict_hashes d ! i = w}))"

text \<open>A dictionary that was changed only through keys, or by hashed operations with the hash and the
  match of the key, holds every material once, under its hash.\<close>

definition dict_ok :: "hash_library \<Rightarrow> dict \<Rightarrow> bool" where
  "dict_ok hl d \<longleftrightarrow> index_ok d \<and> distinct (dict_materials d) \<and>
     dict_hashes d = map (key_hash hl) (dict_materials d)"

definition dict_alist :: "dict \<Rightarrow> (key \<times> tvalue) list" where
  "dict_alist d = zip (dict_materials d) (map snd (dict_entries d))"

definition dict_room :: "dict \<Rightarrow> bool" where
  "dict_room d \<longleftrightarrow> dict_version d + 1 < VERSION_LIMIT \<and> dict_mutation_version d + 1 < VERSION_LIMIT"

lemma index_okD:
  assumes "index_ok d"
  shows "length (dict_materials d) = length (dict_entries d)" "length (dict_hashes d) = length (dict_entries d)"
    "dict_index d w = None \<Longrightarrow> i < length (dict_entries d) \<Longrightarrow> dict_hashes d ! i \<noteq> w"
    "dict_index d w = Some bucket \<Longrightarrow> bucket \<noteq> [] \<and> distinct bucket"
    "dict_index d w = Some bucket \<Longrightarrow> i \<in> set bucket \<longleftrightarrow> i < length (dict_entries d) \<and> dict_hashes d ! i = w"
proof -
  have bucket: "case dict_index d w of
         None \<Rightarrow> \<forall>i < length (dict_hashes d). dict_hashes d ! i \<noteq> w
       | Some bucket \<Rightarrow> bucket \<noteq> [] \<and> distinct bucket \<and>
           set bucket = {i. i < length (dict_hashes d) \<and> dict_hashes d ! i = w}"
    using assms unfolding index_ok_def by blast
  show "length (dict_materials d) = length (dict_entries d)" and hashes: "length (dict_hashes d) = length (dict_entries d)"
    using assms unfolding index_ok_def by blast+
  show "dict_index d w = None \<Longrightarrow> i < length (dict_entries d) \<Longrightarrow> dict_hashes d ! i \<noteq> w"
    "dict_index d w = Some bucket \<Longrightarrow> bucket \<noteq> [] \<and> distinct bucket"
    "dict_index d w = Some bucket \<Longrightarrow> i \<in> set bucket \<longleftrightarrow> i < length (dict_entries d) \<and> dict_hashes d ! i = w"
    using bucket hashes by auto
qed

lemma index_okI:
  assumes "length (dict_materials d) = length (dict_entries d)" "length (dict_hashes d) = length (dict_entries d)"
    and "\<And>w i. dict_index d w = None \<Longrightarrow> i < length (dict_entries d) \<Longrightarrow> dict_hashes d ! i \<noteq> w"
    and "\<And>w bucket. dict_index d w = Some bucket \<Longrightarrow> bucket \<noteq> [] \<and> distinct bucket"
    and "\<And>w bucket i. dict_index d w = Some bucket \<Longrightarrow>
      i \<in> set bucket \<longleftrightarrow> i < length (dict_entries d) \<and> dict_hashes d ! i = w"
  shows "index_ok d"
  using assms unfolding index_ok_def by (auto split: option.splits)

lemma index_ok_default: "index_ok dict_default" "dict_ok hl dict_default" "dict_alist dict_default = []"
  by (simp_all add: dict_default_def index_ok_def dict_ok_def dict_alist_def)

lemma find_slot_eq:
  "\<forall>i\<in>set bucket. i < length ms \<Longrightarrow> find_slot ms m bucket = Ok (find (\<lambda>i. ms ! i = m) bucket)"
  by (induction bucket) (simp_all add: index_at_def)

text \<open>Lookups never leave the vectors, whatever the hashes are.\<close>

lemma find_material_in_range:
  assumes "index_ok d"
  shows "\<exists>x. find_material hl d m = Ok x \<and> (\<forall>i. x = Some i \<longrightarrow> i < length (dict_entries d) \<and> dict_materials d ! i = m)"
proof (cases "dict_index d (key_hash hl m)")
  case (Some bucket)
  have "\<forall>i\<in>set bucket. i < length (dict_materials d)" using index_okD [OF assms] Some by simp
  with Some show ?thesis
    using index_okD(1,5) [OF assms] by (auto simp: find_material_def find_slot_eq dest: find_Some_D)
qed (simp add: find_material_def)

lemma find_material_position:
  assumes "dict_ok hl d"
  shows "find_material hl d m = Ok (position ((=) m) (dict_materials d))"
proof -
  have ix: "index_ok d" and dist: "distinct (dict_materials d)"
    and hash: "dict_hashes d = map (key_hash hl) (dict_materials d)" using assms by (auto simp: dict_ok_def)
  obtain x where x: "find_material hl d m = Ok x"
    and range: "\<And>i. x = Some i \<Longrightarrow> i < length (dict_entries d) \<and> dict_materials d ! i = m"
    using find_material_in_range [OF ix] by blast
  show ?thesis
  proof (cases "position ((=) m) (dict_materials d)")
    case None
    then have "m \<notin> set (dict_materials d)" by (simp add: position_None_iff) metis
    then have "x = None" using range index_okD(1) [OF ix] by (metis not_Some_eq nth_mem)
    then show ?thesis using x None by simp
  next
    case (Some i)
    note pos = position_Some_D [OF Some]
    have member: "i < length (dict_entries d)" "dict_hashes d ! i = key_hash hl m"
      using pos index_okD(1) [OF ix] hash by auto
    obtain bucket where b: "dict_index d (key_hash hl m) = Some bucket"
      using index_okD(3) [OF ix _ member(1)] member(2) by (cases "dict_index d (key_hash hl m)") auto
    then have i: "i \<in> set bucket" using index_okD(5) [OF ix b] member by simp
    have "\<forall>j\<in>set bucket. j < length (dict_materials d)" using index_okD [OF ix] b by simp
    then have "x = find (\<lambda>j. dict_materials d ! j = m) bucket"
      using x b by (simp add: find_material_def find_slot_eq)
    then obtain j where xj: "x = Some j" using i pos find_None_D [of "\<lambda>j. dict_materials d ! j = m" bucket i]
      by (cases x) auto
    moreover have "j = i" using range [OF xj] pos dist index_okD(1) [OF ix]
      by (metis nth_eq_iff_index_eq)
    ultimately show ?thesis using x Some by simp
  qed
qed

lemma dict_lookup_alist:
  assumes "dict_ok hl d" shows "dict_lookup hl d m = Ok (map_of (dict_alist d) m)"
proof -
  have len: "length (dict_materials d) = length (dict_entries d)" using assms by (simp add: dict_ok_def index_okD)
  then show ?thesis
    using find_material_position [OF assms, of m] position_Some_D [of "(=) m" "dict_materials d"]
    by (auto simp: dict_lookup_def dict_alist_def map_of_zip_position index_at_def split: option.splits)
qed

section \<open>Insertion\<close>

lemma index_ok_append:
  assumes "index_ok d" and "dict_index d' = bucket_push w (length (dict_entries d)) (dict_index d)"
    and "dict_hashes d' = dict_hashes d @ [w]" "length (dict_materials d') = length (dict_entries d) + 1"
    and "length (dict_entries d') = length (dict_entries d) + 1"
  shows "index_ok d'"
proof (rule index_okI)
  note ok = index_okD [OF assms(1)]
  show "length (dict_materials d') = length (dict_entries d')" "length (dict_hashes d') = length (dict_entries d')"
    using assms ok by auto
  have hash: "i < length (dict_entries d') \<Longrightarrow> dict_hashes d' ! i =
      (if i = length (dict_entries d) then w else dict_hashes d ! i)" for i
    using assms(3,5) ok(2) by (auto simp: nth_append)
  show "dict_hashes d' ! i \<noteq> u" if "dict_index d' u = None" "i < length (dict_entries d')" for u i
    using that hash ok(3) [of u i] assms(2,5) by (auto simp: bucket_push_def split: if_splits)
  show "bucket \<noteq> [] \<and> distinct bucket" if "dict_index d' u = Some bucket" for u bucket
    using that assms(2) ok(4) [of u] ok(5) [of u _ "length (dict_entries d)"]
    by (auto simp: bucket_push_def split: if_splits option.splits)
  show "i \<in> set bucket \<longleftrightarrow> i < length (dict_entries d') \<and> dict_hashes d' ! i = u"
    if "dict_index d' u = Some bucket" for u bucket i
    using that assms(2,5) hash [of i] ok(5) [of u _ i] ok(3) [of u i]
    by (auto simp: bucket_push_def less_Suc_eq split: if_splits option.splits)
qed

lemma index_ok_same:
  assumes "index_ok d" "dict_index d' = dict_index d" "dict_hashes d' = dict_hashes d"
    "length (dict_materials d') = length (dict_materials d)" "length (dict_entries d') = length (dict_entries d)"
  shows "index_ok d'"
  by (rule index_okI) (use index_okD [OF assms(1)] assms(2-5) in auto)

lemma alist_update_zip:
  "length ms = length vs \<Longrightarrow> AList.update m v (zip ms vs) = (case position ((=) m) ms of
     Some i \<Rightarrow> zip ms (vs[i := v]) | None \<Rightarrow> zip (ms @ [m]) (vs @ [v]))"
  by (induction ms vs rule: list_induct2) (auto split: option.splits)

lemma dict_store_alist:
  assumes ok: "dict_ok hl d" and room: "dict_room d"
  shows "\<exists>d'. dict_store hl k d m v = Ok d' \<and> dict_ok hl d' \<and> dict_alist d' = AList.update m v (dict_alist d)"
proof -
  have ix: "index_ok d" and len: "length (dict_materials d) = length (dict_entries d)"
    using ok by (simp_all add: dict_ok_def index_okD)
  have room': "\<not> VERSION_LIMIT \<le> dict_mutation_version d + 1" "\<not> VERSION_LIMIT \<le> dict_version d + 1"
    using room by (simp_all add: dict_room_def)
  have alist: "AList.update m v (dict_alist d) = (case position ((=) m) (dict_materials d) of
      Some i \<Rightarrow> zip (dict_materials d) ((map snd (dict_entries d))[i := v])
    | None \<Rightarrow> zip (dict_materials d @ [m]) (map snd (dict_entries d) @ [v]))"
    unfolding dict_alist_def using len by (intro alist_update_zip) simp
  show ?thesis
  proof (cases "position ((=) m) (dict_materials d)")
    case None
    let ?d = "d\<lparr>dict_index := bucket_push (key_hash hl m) (length (dict_entries d)) (dict_index d),
      dict_entries := dict_entries d @ [(k, v)], dict_materials := dict_materials d @ [m],
      dict_hashes := dict_hashes d @ [key_hash hl m], dict_version := dict_version d + 1,
      dict_mutation_version := dict_mutation_version d + 1\<rparr>"
    have "dict_store hl k d m v = Ok ?d"
      using None room' len find_material_position [OF ok]
      by (simp add: dict_store_def index_at_def Let_def nth_append)
    moreover have "index_ok ?d" by (rule index_ok_append [OF ix]) (simp_all add: len)
    moreover have "m \<notin> set (dict_materials d)" using None by (auto simp: position_None_iff)
    ultimately show ?thesis using ok None alist by (auto simp: dict_ok_def dict_alist_def)
  next
    case (Some i)
    have i: "i < length (dict_entries d)" using position_Some_D [OF Some] len by simp
    let ?d = "d\<lparr>dict_entries := (dict_entries d)[i := (fst (dict_entries d ! i), v)],
      dict_mutation_version := dict_mutation_version d + 1\<rparr>"
    have "dict_store hl k d m v = Ok ?d"
      using Some room' i find_material_position [OF ok] by (simp add: dict_store_def index_at_def)
    moreover have "index_ok ?d" by (rule index_ok_same [OF ix]) simp_all
    ultimately show ?thesis using ok Some alist by (auto simp: dict_ok_def dict_alist_def map_update)
  qed
qed

lemma dict_store_hashed_index:
  assumes "index_ok d" "dict_store_hashed k v m hash matched d = Ok d'"
  shows "index_ok d'"
proof (cases matched)
  case None
  with assms(2) show ?thesis
    by (intro index_ok_append [OF assms(1), where w = "as_u64 hash"])
      (auto simp: dict_store_hashed_def index_okD [OF assms(1)] split: if_splits)
next
  case (Some i)
  with assms(2) show ?thesis
    by (intro index_ok_same [OF assms(1)]) (auto simp: dict_store_hashed_def split: if_splits)
qed

text \<open>A hashed store with the hash and the match of its key is a plain store.\<close>

lemma dict_store_hashed_structural:
  assumes "dict_ok hl d"
  shows "dict_store_hashed k v m (sint (key_hash hl m)) (position ((=) m) (dict_materials d)) d = dict_store hl k d m v"
proof -
  have len: "length (dict_materials d) = length (dict_entries d)" using assms by (simp add: dict_ok_def index_okD)
  then show ?thesis
    using position_Some_D [of "(=) m" "dict_materials d"] find_material_position [OF assms, of m]
    by (auto simp: dict_store_hashed_def dict_store_def as_u64_def index_at_def Let_def nth_append split: option.splits)
qed

section \<open>Removal\<close>

lemma remove_at_position: "position ((=) i) xs = Some s \<Longrightarrow> remove_at s xs = remove1 i xs"
  by (induction xs arbitrary: s) (auto simp: remove_at_def split: if_splits)

lemma shift_slot_image:
  assumes "i < n" "B \<subseteq> {..<n}" "i \<notin> B"
  shows "j \<in> shift_slot i ` B \<longleftrightarrow> j < n - 1 \<and> (if j < i then j else Suc j) \<in> B"
proof
  assume "j \<in> shift_slot i ` B"
  then obtain b where "b \<in> B" "j = shift_slot i b" by auto
  then show "j < n - 1 \<and> (if j < i then j else Suc j) \<in> B"
    using assms by (cases b rule: linorder_cases [of _ i]) (auto simp: shift_slot_def)
next
  assume "j < n - 1 \<and> (if j < i then j else Suc j) \<in> B"
  then show "j \<in> shift_slot i ` B"
    by (intro image_eqI [where x = "if j < i then j else Suc j"]) (auto simp: shift_slot_def)
qed

lemma shift_slot_inj: "i \<notin> B \<Longrightarrow> inj_on (shift_slot i) B"
  unfolding inj_on_def shift_slot_def by (metis Suc_pred' diff_Suc_1 gr_implies_not0 less_Suc_eq nat_neq_iff not_less_eq zero_less_iff_neq_zero)

lemma remove_index_Ok:
  assumes ok: "index_ok d" and i: "i < length (dict_entries d)"
  shows "\<exists>ix. remove_index i (dict_hashes d ! i) (dict_index d) = Ok ix \<and>
    (\<forall>u. (case ix u of None \<Rightarrow> \<forall>j < length (dict_entries d) - 1. remove_at i (dict_hashes d) ! j \<noteq> u
      | Some bucket \<Rightarrow> bucket \<noteq> [] \<and> distinct bucket \<and>
          (\<forall>j. j \<in> set bucket \<longleftrightarrow> j < length (dict_entries d) - 1 \<and> remove_at i (dict_hashes d) ! j = u)))"
proof -
  note idx = index_okD [OF ok]
  let ?w = "dict_hashes d ! i" and ?n = "length (dict_entries d)"
  obtain bucket where b: "dict_index d ?w = Some bucket" using idx(3) [of ?w i] i by (cases "dict_index d ?w") auto
  have "i \<in> set bucket" using idx(5) [OF b] i by simp
  then obtain s where s: "position ((=) i) bucket = Some s"
    by (cases "position ((=) i) bucket") (auto simp: position_None_iff)
  let ?rest = "remove1 i bucket"
  let ?ix1 = "if ?rest = [] then (dict_index d)(?w := None) else (dict_index d)(?w \<mapsto> ?rest)"
  have Ok: "remove_index i ?w (dict_index d) = Ok (\<lambda>u. map_option (map (shift_slot i)) (?ix1 u))"
    using b s by (simp add: remove_index_def bucket_remove_def remove_at_position Let_def)
  have rest: "distinct ?rest" "set ?rest = set bucket - {i}" using idx(4) [OF b] by auto
  have hash: "j < ?n - 1 \<Longrightarrow> remove_at i (dict_hashes d) ! j = dict_hashes d ! (if j < i then j else Suc j)" for j
    using i idx(2) by (simp add: nth_remove_at)
  have ix1: "c \<noteq> [] \<and> distinct c \<and> i \<notin> set c \<and> (\<forall>j. j \<in> set c \<longleftrightarrow> j < ?n \<and> j \<noteq> i \<and> dict_hashes d ! j = u)"
    if "?ix1 u = Some c" for u c
    using that idx(4,5) [of u] idx(5) [OF b] rest b by (cases "u = ?w") (auto split: if_splits)
  have ix1_none: "j < ?n \<Longrightarrow> j \<noteq> i \<Longrightarrow> dict_hashes d ! j \<noteq> u" if "?ix1 u = None" for u j
    using that idx(3) [of u j] idx(5) [OF b, of j] rest by (cases "u = ?w") (auto split: if_splits)
  have "case map_option (map (shift_slot i)) (?ix1 u) of
        None \<Rightarrow> \<forall>j < ?n - 1. remove_at i (dict_hashes d) ! j \<noteq> u
      | Some bucket \<Rightarrow> bucket \<noteq> [] \<and> distinct bucket \<and>
          (\<forall>j. j \<in> set bucket \<longleftrightarrow> j < ?n - 1 \<and> remove_at i (dict_hashes d) ! j = u)" for u
  proof (cases "?ix1 u")
    case None
    then show ?thesis using ix1_none [OF None] hash by (auto simp del: remove1.simps)
  next
    case (Some c)
    note c = ix1 [OF Some]
    have "distinct (map (shift_slot i) c)" using c shift_slot_inj by (auto simp: distinct_map)
    moreover have "j \<in> set (map (shift_slot i) c) \<longleftrightarrow> j < ?n - 1 \<and> remove_at i (dict_hashes d) ! j = u" for j
    proof -
      let ?u = "if j < i then j else Suc j"
      have "set c \<subseteq> {..<?n}" "i \<notin> set c" using c by auto
      then have "j \<in> set (map (shift_slot i) c) \<longleftrightarrow> j < ?n - 1 \<and> ?u \<in> set c"
        unfolding set_map by (rule shift_slot_image [OF i])
      moreover have "j < ?n - 1 \<Longrightarrow> ?u < ?n \<and> ?u \<noteq> i" by auto
      moreover have "?u \<in> set c \<longleftrightarrow> ?u < ?n \<and> ?u \<noteq> i \<and> dict_hashes d ! ?u = u" using c by blast
      ultimately show ?thesis using hash [of j] by metis
    qed
    ultimately show ?thesis using c unfolding Some by simp
  qed
  then show ?thesis using Ok by blast
qed

lemma distinct_remove_at: "distinct xs \<Longrightarrow> distinct (remove_at i xs)"
  using set_take_disj_set_drop_if_distinct [of xs i "Suc i"] by (auto simp: remove_at_def)

lemma map_remove_at: "map f (remove_at i xs) = remove_at i (map f xs)"
  by (simp add: remove_at_def take_map drop_map)

lemma alist_delete_zip:
  "length ms = length vs \<Longrightarrow> distinct ms \<Longrightarrow> i < length ms \<Longrightarrow>
     AList.delete (ms ! i) (zip ms vs) = zip (remove_at i ms) (remove_at i vs)"
proof (induction ms vs arbitrary: i rule: list_induct2)
  case (Cons m ms v vs)
  have "AList.delete m (zip ms vs) = zip ms vs" if "m \<notin> set ms"
    using that by (induction ms vs rule: list_induct2') (auto simp: AList.delete_eq)
  then show ?case
    using Cons by (cases i) (auto simp: remove_at_def)
qed simp

lemma advance_versions_same:
  assumes "advance_versions d = (r, d')"
  shows "dict_index d' = dict_index d" "dict_hashes d' = dict_hashes d" "dict_materials d' = dict_materials d"
    "dict_entries d' = dict_entries d" "clean r" "dict_room d \<Longrightarrow> r = Ok ()"
  using assms by (auto simp: advance_versions_def dict_room_def Let_def split: if_splits)

text \<open>What a removal leaves behind, also when a version counter is exhausted.\<close>

lemma dict_remove_entry:
  assumes ok: "index_ok d" and i: "i < length (dict_entries d)"
  obtains r d' where "dict_remove i d = (r, d')" "clean r" "index_ok d'" "dict_room d \<Longrightarrow> r = Ok ()"
    "dict_entries d' = remove_at i (dict_entries d)" "dict_materials d' = remove_at i (dict_materials d)"
    "dict_hashes d' = remove_at i (dict_hashes d)"
proof -
  note idx = index_okD [OF ok]
  obtain ix where ix: "remove_index i (dict_hashes d ! i) (dict_index d) = Ok ix"
    and buckets: "\<And>u. case ix u of None \<Rightarrow> \<forall>j < length (dict_entries d) - 1. remove_at i (dict_hashes d) ! j \<noteq> u
      | Some bucket \<Rightarrow> bucket \<noteq> [] \<and> distinct bucket \<and>
          (\<forall>j. j \<in> set bucket \<longleftrightarrow> j < length (dict_entries d) - 1 \<and> remove_at i (dict_hashes d) ! j = u)"
    using remove_index_Ok [OF ok i] by blast
  let ?d = "d\<lparr>dict_index := ix, dict_entries := remove_at i (dict_entries d),
       dict_materials := remove_at i (dict_materials d), dict_hashes := remove_at i (dict_hashes d)\<rparr>"
  have rem: "dict_remove i d = advance_versions ?d"
    using i idx(1,2) ix by (simp add: dict_remove_def index_at_def)
  have "index_ok ?d"
  proof (rule index_okI)
    fix w bucket assume "dict_index ?d w = Some bucket"
    then show "bucket \<noteq> [] \<and> distinct bucket" "\<And>j. j \<in> set bucket \<longleftrightarrow> j < length (dict_entries ?d) \<and> dict_hashes ?d ! j = w"
      using buckets [of w] i by auto
  next
    fix w j assume "dict_index ?d w = None" "j < length (dict_entries ?d)"
    then show "dict_hashes ?d ! j \<noteq> w" using buckets [of w] i by auto
  qed (use i idx(1,2) in auto)
  moreover obtain r d' where adv: "advance_versions ?d = (r, d')" by force
  moreover note same = advance_versions_same [OF adv]
  ultimately have "index_ok d'" by (intro index_ok_same [of ?d d']) auto
  moreover have "dict_room d \<Longrightarrow> r = Ok ()" using same(6) by (simp add: dict_room_def)
  ultimately show thesis using that rem adv same by simp
qed

lemma dict_remove_alist:
  assumes ok: "dict_ok hl d" and room: "dict_room d" and m: "position ((=) m) (dict_materials d) = Some i"
  shows "\<exists>d'. dict_remove i d = (Ok (), d') \<and> dict_ok hl d' \<and> dict_alist d' = AList.delete m (dict_alist d)"
proof -
  have ix: "index_ok d" and dist: "distinct (dict_materials d)"
    and hash: "dict_hashes d = map (key_hash hl) (dict_materials d)" using ok by (auto simp: dict_ok_def)
  have i: "i < length (dict_entries d)" "dict_materials d ! i = m"
    using position_Some_D [OF m] index_okD(1) [OF ix] by auto
  obtain r d' where d': "dict_remove i d = (r, d')" "index_ok d'" "dict_room d \<Longrightarrow> r = Ok ()"
    "dict_entries d' = remove_at i (dict_entries d)" "dict_materials d' = remove_at i (dict_materials d)"
    "dict_hashes d' = remove_at i (dict_hashes d)"
    using dict_remove_entry [OF ix i(1)] by metis
  have "dict_alist d' = AList.delete m (dict_alist d)"
    using alist_delete_zip [of "dict_materials d" "map snd (dict_entries d)" i] i dist index_okD(1) [OF ix]
    by (simp add: dict_alist_def d' map_remove_at)
  then show ?thesis using d' room hash dist by (simp add: dict_ok_def distinct_remove_at map_remove_at)
qed

text \<open>The interface: a dictionary is a store keyed by hash material.\<close>

interpretation dictionary: keyed_store "dict_ok hl" dict_room "\<lambda>d. map_of (dict_alist d)" "dict_lookup hl"
  "dict_store hl k" for hl k
proof unfold_locales
  fix d m v
  assume "dict_ok hl d"
  then show "dict_lookup hl d m = Ok (map_of (dict_alist d) m)" by (rule dict_lookup_alist)
  assume "dict_room d"
  with \<open>dict_ok hl d\<close> show "\<exists>d'. dict_store hl k d m v = Ok d' \<and> dict_ok hl d' \<and>
      map_of (dict_alist d') = (map_of (dict_alist d))(m \<mapsto> v)"
    using dict_store_alist [of hl d k m v] by (auto simp: update_conv')
qed

section \<open>Keys are stable\<close>

text \<open>Two heaps that differ in the contents of dictionaries and sets only give every value the same key:
  dictionaries and sets are not hashable.\<close>

definition same_keys :: "heap \<Rightarrow> heap \<Rightarrow> bool" where
  "same_keys h h' \<longleftrightarrow> (\<forall>v. try_get h' v = try_get h v \<or>
     (\<exists>d d'. try_get h v = Some (ObjDict d) \<and> try_get h' v = Some (ObjDict d')) \<or>
     (\<exists>d d'. try_get h v = Some (ObjSet d) \<and> try_get h' v = Some (ObjSet d')))"

lemma same_keysE:
  assumes "same_keys h h'"
  obtains "try_get h' v = try_get h v"
  | d d' where "try_get h v = Some (ObjDict d)" "try_get h' v = Some (ObjDict d')"
  | d d' where "try_get h v = Some (ObjSet d)" "try_get h' v = Some (ObjSet d')"
  using assms unfolding same_keys_def by metis

lemma native_value_keys: "same_keys h h' \<Longrightarrow> native_value h' v = native_value h v"
  by (erule same_keysE [where v = v]) (simp_all add: native_value_def)

lemma is_form_keys: "same_keys h h' \<Longrightarrow> is_form h' kind v = is_form h kind v"
  by (erule same_keysE [where v = v]) (simp_all add: is_form_def)

lemma nested_literal_keys: "same_keys h h' \<Longrightarrow> nested_literal h' v = nested_literal h v"
  unfolding nested_literal_def is_form_keys by (erule same_keysE [where v = v]) simp_all

lemma make_literal_keys: "same_keys h h' \<Longrightarrow> make_literal h' v = make_literal h v"
  by (erule same_keysE [where v = v]) (simp_all add: make_literal_def cong: option.case_cong)

lemma append_literals_keys:
  "same_keys h h' \<Longrightarrow> append_literals h' args level items = append_literals h args level items"
proof (induction "MAX_TYPE_PLAN_DEPTH - level" arbitrary: args level items rule: less_induct)
  case less
  show ?case
  proof (cases "MAX_TYPE_PLAN_DEPTH \<le> level")
    case False
    then have "append_literals h' a (level + 1) it = append_literals h a (level + 1) it" for a it
      by (intro less) auto
    note same = this nested_literal_keys [OF less.prems] make_literal_keys [OF less.prems]
    show ?thesis
      unfolding append_literals.simps [of h' args level items] append_literals.simps [of h args level items] same
      by (cases rule: same_keysE [OF less.prems, of args]) simp_all
  qed (simp add: append_literals.simps)
qed

lemma canonical_literal_arguments_keys:
  "same_keys h h' \<Longrightarrow> canonical_literal_arguments h' args = canonical_literal_arguments h args"
  by (simp add: canonical_literal_arguments_def append_literals_keys)

lemma callable_parameters_keys:
  assumes "same_keys h h'"
  shows "and_then (heap_get h' v) (\<lambda>ob. case ob of ObjList vs \<Rightarrow> f vs | ObjTuple vs \<Rightarrow> f vs | _ \<Rightarrow> Err e) =
    and_then (heap_get h v) (\<lambda>ob. case ob of ObjList vs \<Rightarrow> f vs | ObjTuple vs \<Rightarrow> f vs | _ \<Rightarrow> Err e)"
  by (cases rule: same_keysE [OF assms, of v]) (simp_all add: heap_get_def ok_or_def)

lemma callable_values_keys:
  assumes "same_keys h h'"
  shows "callable_values h' args = callable_values h args"
  unfolding callable_values_def callable_parameters_keys [OF assms]
  by (cases rule: same_keysE [OF assms, of args]) (simp_all add: heap_get_def ok_or_def)

lemma dict_key_keys: "same_keys h h' \<Longrightarrow> dict_key lib h' v level = dict_key lib h v level"
proof (induction "101 - level" arbitrary: v level rule: less_induct)
  case less
  show ?case
  proof (cases "100 < level")
    case False
    then have "dict_key lib h' w (level + 1) = dict_key lib h w (level + 1)" for w
      by (intro less) auto
    then have rec: "(\<lambda>w. dict_key lib h' w (level + 1)) = (\<lambda>w. dict_key lib h w (level + 1))" by blast
    note same = native_value_keys [OF less.prems] is_form_keys [OF less.prems] rec [THEN fun_cong] rec
      canonical_literal_arguments_keys [OF less.prems] callable_values_keys [OF less.prems]
    have "heap_get h' w = heap_get h w \<or>
        (\<exists>d d'. heap_get h w = Ok (ObjDict d) \<and> heap_get h' w = Ok (ObjDict d')) \<or>
        (\<exists>d d'. heap_get h w = Ok (ObjSet d) \<and> heap_get h' w = Ok (ObjSet d'))" for w
      by (cases rule: same_keysE [OF less.prems, of w]) (simp_all add: heap_get_def ok_or_def)
    from this [of "native_value h v"] show ?thesis
      unfolding dict_key.simps [of lib h' v level] dict_key.simps [of lib h v level] same Let_def
      by (elim disjE exE conjE) (simp_all only: object.case and_then.simps)
  qed (simp add: dict_key.simps)
qed

section \<open>Dictionaries in the heap\<close>

definition dict_at :: "heap \<Rightarrow> tvalue \<Rightarrow> dict option" where
  "dict_at h owner = (case try_get h (native_value h owner) of Some (ObjDict d) \<Rightarrow> Some d | _ \<Rightarrow> None)"

lemma dict_at_get: "dict_at h owner = Some d \<longleftrightarrow> try_get h (native_value h owner) = Some (ObjDict d)"
  by (auto simp: dict_at_def split: option.splits object.splits)

lemma expect_dict_at: "dict_at h owner = Some d \<Longrightarrow> expect_dict h (native_value h owner) = Ok d"
  by (simp add: dict_at_get expect_dict_def heap_get_def ok_or_def)

text \<open>An object of a located value written back, after a barrier.\<close>

definition written :: "heap \<Rightarrow> tvalue \<Rightarrow> tvalue list \<Rightarrow> object \<Rightarrow> heap \<Rightarrow> bool" where
  "written h v vs ob h' \<longleftrightarrow> (\<exists>R l. barrier_le h v vs R \<and> location h v = Some l \<and>
     h' = h\<lparr>remembered := R, objects := (objects h)[l := (objects h ! l)\<lparr>ho_object := ob\<rparr>]\<rparr>)"

lemma written_try_get:
  assumes wf: "slots_wf h" and w: "written h v vs ob h'"
  shows "try_get h' = (try_get h)(v \<mapsto> ob)" "slots_wf h'" "location h' = location h"
proof -
  obtain R l where l: "location h v = Some l"
    and h': "h' = h\<lparr>remembered := R, objects := (objects h)[l := (objects h ! l)\<lparr>ho_object := ob\<rparr>]\<rparr>"
    using w by (auto simp: written_def)
  note same = object_update_same [OF h']
  show wf': "slots_wf h'" and loc: "location h' = location h" using same wf by auto
  have len: "l < length (objects h)" using location_in_range [OF wf l] .
  have "objects h' = (objects h)[l := (objects h ! l)\<lparr>ho_object := ob\<rparr>]" unfolding h' by simp
  then have obj: "ho_object (objects h' ! k) = (if k = l then ob else ho_object (objects h ! k))" for k
    using len by (cases "k = l") simp_all
  have only: "location h u = Some l \<longleftrightarrow> u = v" for u
    using location_iff [OF wf, of u l] location_iff [OF wf, of v l] l by auto
  show "try_get h' = (try_get h)(v \<mapsto> ob)"
  proof
    fix u
    show "try_get h' u = ((try_get h)(v \<mapsto> ob)) u"
      using only [of u] l unfolding try_get_location [OF wf'] loc
      by (cases "location h u") (auto simp: try_get_location [OF wf] obj)
  qed
qed

lemma written_heap_ok:
  assumes ok: "heap_ok h" and w: "written h v vs ob' h'" and ob: "try_get h v = Some ob"
    and same: "same_kind ob ob'" and tr: "set (object_trace ob') \<subseteq> set (object_trace ob) \<union> set vs"
    and valid: "\<forall>v\<in>set vs. valid h v"
  shows "heap_ok h'"
proof -
  obtain R l where R: "barrier_le h v vs R" and l: "location h v = Some l"
    and h': "h' = h\<lparr>remembered := R, objects := (objects h)[l := (objects h ! l)\<lparr>ho_object := ob'\<rparr>]\<rparr>"
    using w by (auto simp: written_def)
  have "slots_wf h" using ok by (simp add: heap_ok_def)
  then have "ho_object (objects h ! l) = ob" using ob l try_get_location [of h v] by simp
  then have "mutated h v vs h'" using R l h' same tr unfolding changed_def by blast
  then show ?thesis by (rule mutated_heap_ok [OF ok _ valid])
qed

lemma written_same_keys:
  assumes wf: "slots_wf h" and w: "written h v vs ob' h'"
    and ob: "try_get h v = Some (ObjDict d) \<and> ob' = ObjDict d' \<or> try_get h v = Some (ObjSet d) \<and> ob' = ObjSet d'"
  shows "same_keys h h'"
  using written_try_get(1) [OF wf w] ob by (auto simp: same_keys_def)

lemma write_pair:
  assumes wf: "slots_wf h"
  shows "\<exists>R. write_barrier_pair h owner k v = (Ok (), h\<lparr>remembered := R\<rparr>) \<and> barrier_le h owner [k, v] R"
  using write_barriers_Ok [OF wf, of owner "[k, v]"] by (simp add: write_barrier_pair_def run_then_unit)

text \<open>A barrier and a mutation of the object behind a value.\<close>

lemma barrier_with_object:
  assumes wf: "slots_wf h" and ob: "try_get h owner = Some ob"
    and run: "run_then (write_barrier_pair h owner k v) (\<lambda>_ h1. with_object h1 owner f) = (r, h')"
  shows "case f ob of Ok (x, ob') \<Rightarrow> r = Ok x \<and> written h owner [k, v] ob' h'
    | Err d \<Rightarrow> r = Err d \<and> (\<exists>R. h' = h\<lparr>remembered := R\<rparr> \<and> barrier_le h owner [k, v] R)
    | Panic \<Rightarrow> r = Panic | Diverge \<Rightarrow> r = Diverge"
proof -
  obtain R where R: "write_barrier_pair h owner k v = (Ok (), h\<lparr>remembered := R\<rparr>)" "barrier_le h owner [k, v] R"
    using write_pair [OF wf] by blast
  obtain l where l: "location h owner = Some l" "l < length (objects h)" "ho_object (objects h ! l) = ob"
    using ob location_in_range [OF wf] try_get_location [OF wf, of owner] by auto
  have "with_object (h\<lparr>remembered := R\<rparr>) owner f = (r, h')" using run R by simp
  then show ?thesis
    using l R(2) by (cases "f ob") (auto simp: with_object_def remembered_update_same written_def)
qed

lemma mutate_object_written:
  assumes wf: "slots_wf h" and ob: "try_get h v = Some ob"
  shows "\<exists>h'. mutate_object h v f = (fst (f ob), h') \<and> written h v [] (snd (f ob)) h'"
proof -
  obtain l where l: "location h v = Some l" "l < length (objects h)" "ho_object (objects h ! l) = ob"
    using ob location_in_range [OF wf] try_get_location [OF wf, of v] by auto
  have "barrier_le h v [] (remembered h)" by (simp add: barrier_le_def)
  then show ?thesis using l by (auto simp: mutate_object_def written_def split: prod.splits)
qed

section \<open>Dictionaries through keys\<close>

text \<open>What an operation on one dictionary leaves of everything else.\<close>

definition dict_becomes :: "hash_library \<Rightarrow> heap \<Rightarrow> tvalue \<Rightarrow> (key \<times> tvalue) list \<Rightarrow> heap \<Rightarrow> bool" where
  "dict_becomes hl h owner al h' \<longleftrightarrow> (\<exists>d'. dict_at h' owner = Some d' \<and> dict_ok hl d' \<and> dict_alist d' = al) \<and>
     (\<forall>v. v \<noteq> native_value h owner \<longrightarrow> try_get h' v = try_get h v) \<and> same_keys h h'"

lemma written_dict_becomes:
  assumes wf: "slots_wf h" and d: "dict_at h owner = Some d"
    and w: "written h (native_value h owner) vs (ObjDict d') h'" and d': "dict_ok hl d'" "dict_alist d' = al"
  shows "dict_becomes hl h owner al h'"
proof -
  have same: "same_keys h h'" using written_same_keys [OF wf w] d by (auto simp: dict_at_get)
  have "dict_at h' owner = Some d'"
    using written_try_get(1) [OF wf w] by (simp add: dict_at_get native_value_keys [OF same])
  then show ?thesis using written_try_get(1) [OF wf w] same d' by (simp add: dict_becomes_def)
qed

lemma dict_entry_trace: "object_trace (ObjDict d) = concat (map (\<lambda>(k, v). [k, v]) (dict_entries d))"
  by (simp add: object_trace_def)

lemma dict_trace_set: "set (object_trace (ObjDict d)) = fst ` set (dict_entries d) \<union> snd ` set (dict_entries d)"
  by (force simp: dict_entry_trace)

lemma entry_update_sets:
  assumes "i < length es"
  shows "fst ` set (es[i := (fst (es ! i), v)]) \<subseteq> fst ` set es" "snd ` set (es[i := (x, v)]) \<subseteq> insert v (snd ` set es)"
proof -
  have "map fst (es[i := (fst (es ! i), v)]) = map fst es" using assms by (simp add: map_update list_update_same_conv)
  then show "fst ` set (es[i := (fst (es ! i), v)]) \<subseteq> fst ` set es" by (metis list.set_map order_refl)
  show "snd ` set (es[i := (x, v)]) \<subseteq> insert v (snd ` set es)"
    using set_update_subset_insert [of es i "(x, v)"] by auto
qed

lemma dict_store_entries:
  assumes "dict_store hl k d m v = Ok d'"
  shows "fst ` set (dict_entries d') \<subseteq> insert k (fst ` set (dict_entries d))"
    "snd ` set (dict_entries d') \<subseteq> insert v (snd ` set (dict_entries d))"
proof -
  have "dict_entries d' = dict_entries d @ [(k, v)] \<or>
      (\<exists>i < length (dict_entries d). dict_entries d' = (dict_entries d)[i := (fst (dict_entries d ! i), v)])"
    using assms by (auto simp: dict_store_def Let_def res_simps split: if_splits option.splits; blast)
  then have "fst ` set (dict_entries d') \<subseteq> insert k (fst ` set (dict_entries d)) \<and>
    snd ` set (dict_entries d') \<subseteq> insert v (snd ` set (dict_entries d))"
  proof (elim disjE exE conjE)
    fix i assume "i < length (dict_entries d)" and d': "dict_entries d' = (dict_entries d)[i := (fst (dict_entries d ! i), v)]"
    note sets = entry_update_sets(1) [OF this(1), where v = v] entry_update_sets(2) [OF this(1), where v = v]
    then show ?thesis unfolding d' by blast
  qed auto
  then show "fst ` set (dict_entries d') \<subseteq> insert k (fst ` set (dict_entries d))"
    "snd ` set (dict_entries d') \<subseteq> insert v (snd ` set (dict_entries d))" by auto
qed

lemma dict_store_trace:
  "dict_store hl k d m v = Ok d' \<Longrightarrow>
     set (object_trace (ObjDict d')) \<subseteq> set (object_trace (ObjDict d)) \<union> set [k, v]"
  using dict_store_entries [of hl k d m v d'] unfolding dict_trace_set by auto

lemma same_kind_dict [simp]: "same_kind (ObjDict d) (ObjDict d')" "same_kind (ObjSet d) (ObjSet d')"
  by (simp_all add: same_kind_def instance_parts_def)

lemma dict_set_becomes:
  assumes wf: "slots_wf h" and d: "dict_at h owner = Some d" "dict_ok hl d" "dict_room d"
    and m: "dict_key lib h k 0 = Ok m"
  shows "\<exists>h'. dict_set lib hl h owner k v = (Ok (), h') \<and> dict_becomes hl h owner (AList.update m v (dict_alist d)) h' \<and>
    (heap_ok h \<longrightarrow> valid h k \<longrightarrow> valid h v \<longrightarrow> heap_ok h')"
proof -
  let ?o = "native_value h owner"
  let ?f = "\<lambda>ob. case ob of ObjDict d \<Rightarrow> and_then (dict_store hl k d m v) (\<lambda>d'. Ok ((), ObjDict d'))
    | _ \<Rightarrow> fail ''TypeError'' ''expected dict''"
  obtain d' where d': "dict_store hl k d m v = Ok d'" "dict_ok hl d'" "dict_alist d' = AList.update m v (dict_alist d)"
    using dict_store_alist [OF d(2,3)] by metis
  have ob: "try_get h ?o = Some (ObjDict d)" using d(1) by (simp add: dict_at_get)
  obtain r h' where run: "run_then (write_barrier_pair h ?o k v) (\<lambda>_ h1. with_object h1 ?o ?f) = (r, h')" by force
  have w: "r = Ok ()" "written h ?o [k, v] (ObjDict d') h'"
    using barrier_with_object [OF wf ob run] d'(1) by auto
  have "heap_ok h'" if "heap_ok h" "valid h k" "valid h v"
    by (rule written_heap_ok [OF that(1) w(2) ob same_kind_dict(1) dict_store_trace [OF d'(1)]])
      (simp add: that)
  moreover have "dict_set lib hl h owner k v = (Ok (), h')" using m run w(1) by (simp add: dict_set_def Let_def)
  ultimately show ?thesis using written_dict_becomes [OF wf d(1) w(2) d'(2,3)] by blast
qed

lemma dict_delete_becomes:
  assumes wf: "slots_wf h" and d: "dict_at h owner = Some d" "dict_ok hl d" "dict_room d"
    and m: "dict_key lib h k 0 = Ok m"
  shows "if map_of (dict_alist d) m = None then dict_delete lib hl describe h owner k = (Err (missing_key describe h k), h)
    else \<exists>h'. dict_delete lib hl describe h owner k = (Ok (), h') \<and>
      dict_becomes hl h owner (AList.delete m (dict_alist d)) h' \<and> (heap_ok h \<longrightarrow> heap_ok h')"
proof -
  let ?o = "native_value h owner"
  have len: "length (dict_materials d) = length (dict_entries d)" using d(2) by (simp add: dict_ok_def index_okD)
  have found: "map_of (dict_alist d) m = map_option ((!) (map snd (dict_entries d))) (position ((=) m) (dict_materials d))"
    using len by (simp add: dict_alist_def map_of_zip_position)
  have find: "find_material hl d m = Ok (position ((=) m) (dict_materials d))" by (rule find_material_position [OF d(2)])
  show ?thesis
  proof (cases "position ((=) m) (dict_materials d)")
    case None
    then show ?thesis using m find found expect_dict_at [OF d(1)] by (simp add: dict_delete_def Let_def ok_or_def)
  next
    case (Some i)
    obtain d' where d': "dict_remove i d = (Ok (), d')" "dict_ok hl d'" "dict_alist d' = AList.delete m (dict_alist d)"
      using dict_remove_alist [OF d(2,3) Some] by blast
    have ob: "try_get h ?o = Some (ObjDict d)" using d(1) by (simp add: dict_at_get)
    let ?f = "\<lambda>ob. case ob of ObjDict d \<Rightarrow> dict_run ObjDict (dict_remove i) d | _ \<Rightarrow> (Panic, ob)"
    obtain h' where h': "mutate_object h ?o ?f = (Ok (), h')" "written h ?o [] (ObjDict d') h'"
      using mutate_object_written [OF wf ob, of ?f] d'(1) by (auto simp: dict_run_def)
    have "dict_entries d' = remove_at i (dict_entries d)"
      using dict_remove_entry [of d i] d(2) d'(1) position_Some_D [OF Some] len by (fastforce simp: dict_ok_def)
    then have "set (dict_entries d') \<subseteq> set (dict_entries d)" using set_remove_at by fastforce
    then have "heap_ok h'" if "heap_ok h"
      using that by (intro written_heap_ok [OF _ h'(2) ob same_kind_dict(1)]) (auto simp: dict_trace_set)
    moreover have "dict_delete lib hl describe h owner k = (Ok (), h')"
      using m find Some h'(1) expect_dict_at [OF d(1)] by (simp add: dict_delete_def Let_def ok_or_def)
    ultimately show ?thesis using found Some written_dict_becomes [OF wf d(1) h'(2) d'(2,3)] by auto
  qed
qed

section \<open>The hashed protocol\<close>

text \<open>\<open>dict_key\<close> returns on every heap; only the conversion of an integral float is a library call.\<close>

definition converts_integral :: "numeric_library \<Rightarrow> bool" where
  "converts_integral lib \<longleftrightarrow> (\<forall>f. is_integral f \<longrightarrow> lib_from_f64 lib f \<noteq> None)"

lemma clean_heap_get [simp]: "clean (heap_get h v)"
  by (simp add: heap_get_def)

lemma clean_callable_values [simp]: "clean (callable_values h args)"
  by (auto simp: callable_values_def intro!: clean_and_then split: object.splits list.splits)

lemma clean_dict_key: "converts_integral lib \<Longrightarrow> clean (dict_key lib h v level)"
proof (induction "101 - level" arbitrary: v level rule: less_induct)
  case less
  show ?case
  proof (cases "100 < level")
    case False
    then have rec: "clean (dict_key lib h w (Suc level))" for w by (intro less) auto
    have float: "clean (float_key lib v f)" for f
      using less.prems by (auto simp: float_key_def converts_integral_def split: option.splits)
    show ?thesis
      unfolding dict_key.simps [of lib h v level]
      by (auto simp: Let_def rec float simp del: try_map.simps intro!: clean_and_then clean_try_map
        split: option.splits object.splits sum.splits prod.splits)
  qed (simp add: dict_key.simps)
qed

lemma expect_hashed_get:
  "expect_hashed h v = Ok d \<longleftrightarrow> try_get h v = Some (ObjDict d) \<or> try_get h v = Some (ObjSet d)"
proof (cases "try_get h v")
  case (Some ob)
  then show ?thesis by (cases ob) (simp_all add: expect_hashed_def heap_get_def ok_or_def)
qed (simp add: expect_hashed_def heap_get_def ok_or_def)

lemma clean_dict_store_hashed [simp]: "clean (dict_store_hashed k v m hash matched d)"
  by (auto simp: dict_store_hashed_def split: option.splits)

lemma dict_run_result: "fst (dict_run c f d) = fst (f d)" "snd (dict_run c f d) = c (snd (f d))"
  by (simp_all add: dict_run_def split: prod.splits)

lemma hash_set_hashed_safe:
  assumes wf: "slots_wf h" and d: "expect_hashed h (native_value h owner) = Ok d" "index_ok d"
    and lib: "converts_integral lib"
  shows "clean (fst (hash_set_hashed lib h owner k v hash matched)) \<and>
    (\<exists>d'. expect_hashed (snd (hash_set_hashed lib h owner k v hash matched)) (native_value h owner) = Ok d' \<and> index_ok d')"
proof -
  let ?o = "native_value h owner"
  show ?thesis
  proof (cases rule: cleanE [OF clean_dict_key [OF lib, of h k 0]])
    case (2 e)
    then show ?thesis using d by (auto simp: hash_set_hashed_def Let_def)
  next
    case (1 m)
    let ?f = "\<lambda>ob. case ob of
         ObjDict d \<Rightarrow> and_then (dict_store_hashed k v m hash matched d) (\<lambda>d'. Ok ((), ObjDict d'))
       | ObjSet d \<Rightarrow> and_then (dict_store_hashed k v m hash matched d) (\<lambda>d'. Ok ((), ObjSet d'))
       | _ \<Rightarrow> fail ''TypeError'' ''expected hashed container''"
    obtain ob where ob: "try_get h ?o = Some ob" "ob = ObjDict d \<or> ob = ObjSet d" using d(1) by (auto simp: expect_hashed_get)
    obtain r h' where run: "run_then (write_barrier_pair h ?o k v) (\<lambda>_ h1. with_object h1 ?o ?f) = (r, h')" by force
    have res: "hash_set_hashed lib h owner k v hash matched = (r, h')"
      using 1 run by (simp add: hash_set_hashed_def Let_def)
    note spec = barrier_with_object [OF wf ob(1) run]
    show ?thesis
    proof (cases rule: cleanE [OF clean_dict_store_hashed [of k v m hash matched d]])
      case (2 e)
      then have "clean r" "try_get h' = try_get h" using spec ob(2) by (auto simp: remembered_update_same)
      then show ?thesis using res d ob by (auto simp: expect_hashed_get)
    next
      case (1 d')
      then obtain ob' where "clean r" "written h ?o [k, v] ob' h'" "ob' = ObjDict d' \<or> ob' = ObjSet d'"
        using spec ob(2) by auto
      then show ?thesis
        using res written_try_get(1) [OF wf, of ?o "[k, v]" ob' h'] dict_store_hashed_index [OF d(2) 1]
        by (auto simp: expect_hashed_get)
    qed
  qed
qed

lemma dict_delete_at_safe:
  assumes wf: "slots_wf h" and d: "expect_hashed h (native_value h owner) = Ok d" "index_ok d"
  shows "clean (fst (dict_delete_at h owner i)) \<and>
    (\<exists>d'. expect_hashed (snd (dict_delete_at h owner i)) (native_value h owner) = Ok d' \<and> index_ok d')"
proof -
  let ?o = "native_value h owner"
  let ?f = "\<lambda>ob. case ob of
     ObjDict d \<Rightarrow> if length (dict_entries d) \<le> i
         then (fail ''RuntimeError'' ''stale dictionary candidate'', ob)
         else dict_run ObjDict (dict_remove i) d
   | _ \<Rightarrow> (fail ''TypeError'' ''expected dict'', ob)"
  obtain ob where ob: "try_get h ?o = Some ob" "ob = ObjDict d \<or> ob = ObjSet d" using d(1) by (auto simp: expect_hashed_get)
  obtain h' where h': "dict_delete_at h owner i = (fst (?f ob), h')" "written h ?o [] (snd (?f ob)) h'"
    using mutate_object_written [OF wf ob(1), of ?f] by (auto simp: dict_delete_at_def)
  have "clean (fst (?f ob)) \<and> (\<exists>d'. (snd (?f ob) = ObjDict d' \<or> snd (?f ob) = ObjSet d') \<and> index_ok d')"
  proof (cases "ob = ObjDict d \<and> i < length (dict_entries d)")
    case True
    obtain r d' where "dict_remove i d = (r, d')" "clean r" "index_ok d'"
      using dict_remove_entry [OF d(2)] True by metis
    then show ?thesis using True by (simp add: dict_run_result)
  qed (use ob(2) d(2) in auto)
  then show ?thesis using h' written_try_get(1) [OF wf h'(2)] by (auto simp: expect_hashed_get)
qed

section \<open>Properties\<close>

text \<open>C15: A dictionary in the heap implements an association list in insertion order, keyed by the hash
  material of its keys: \<open>dict_get\<close> looks the key up, \<open>dict_set\<close> replaces the value in place or appends,
  \<open>dict_delete\<close> removes the entry or raises \<open>KeyError\<close> and changes nothing, and after each of them
  the dictionary is in order again, no other object has changed and every value has the key it had.\<close>

theorem dict_refines_alist:
  assumes "heap_ok h" "dict_at h owner = Some d" "dict_ok hl d" "dict_room d" "dict_key lib h k 0 = Ok m"
  shows "dict_get lib hl h owner k = Ok (map_of (dict_alist d) m) \<and>
    (\<exists>h'. dict_set lib hl h owner k v = (Ok (), h') \<and> dict_becomes hl h owner (AList.update m v (dict_alist d)) h') \<and>
    (if map_of (dict_alist d) m = None
     then dict_delete lib hl describe h owner k = (Err (missing_key describe h k), h)
     else \<exists>h'. dict_delete lib hl describe h owner k = (Ok (), h') \<and>
       dict_becomes hl h owner (AList.delete m (dict_alist d)) h')"
proof -
  have wf: "slots_wf h" using assms(1) by (simp add: heap_ok_def)
  have "dict_get lib hl h owner k = Ok (map_of (dict_alist d) m)"
    using dictionary.lookup_abs [OF assms(3)] assms(5) expect_dict_at [OF assms(2)] by (simp add: dict_get_def)
  then show ?thesis
    using dict_set_becomes [OF wf assms(2-5), of v] dict_delete_becomes [OF wf assms(2-5), of describe]
    by (auto split: if_splits)
qed

lemma sample_dict_heap:
  "alloc heap_default (ObjDict dict_default) = (Ok (value_heap 0 1), heap_default\<lparr>allocations := 1,
    slots := [\<lparr>slot_generation = 1, slot_location = Some 0\<rparr>],
    objects := [\<lparr>ho_object = ObjDict dict_default, ho_slot = 0, ho_young = True\<rparr>]\<rparr>)"
  by (simp add: alloc_def heap_default_def)

lemma sample_dict_heap_ok:
  assumes "alloc heap_default (ObjDict dict_default) = (Ok v, h)"
  shows "heap_ok h" "try_get h v = Some (ObjDict dict_default)"
proof -
  have "admissible heap_default (EvAlloc (ObjDict dict_default))"
    by (simp add: admissible_def allocatable_def object_trace_def instance_parts_def dict_default_def)
  from heap_reachable.event [OF heap_reachable.start this]
  have "heap_reachable h" using assms by (simp add: no_result_def)
  then show ok: "heap_ok h" using reachable_heap_inv by (simp add: heap_inv_def)
  show "try_get h v = Some (ObjDict dict_default)"
    using assms by (auto simp: sample_dict_heap try_get_def location_def heap_index_value_heap generation_value_heap
      MAX_GENERATION_def)
qed

lemma immediate_key:
  "integer k = Some n \<Longrightarrow> k \<noteq> NONE \<Longrightarrow> k \<noteq> NOT_IMPLEMENTED \<Longrightarrow> k \<noteq> ELLIPSIS \<Longrightarrow> dict_key lib h k 0 = Ok (KSmallInt n)"
  by (simp add: dict_key.simps native_value_immediate integer_not_heap)

lemma dict_refines_alist_witness:
  "\<exists>h v. alloc heap_default (ObjDict dict_default) = (Ok v, h) \<and>
    dict_get sample_library \<lparr>hash_of_string = \<lambda>_. 0, hash_of_bytes = \<lambda>_. 0\<rparr> h v (Value 9) = Ok None \<and>
    (\<exists>h'. dict_set sample_library \<lparr>hash_of_string = \<lambda>_. 0, hash_of_bytes = \<lambda>_. 0\<rparr> h v (Value 9) NONE = (Ok (), h') \<and>
      dict_becomes \<lparr>hash_of_string = \<lambda>_. 0, hash_of_bytes = \<lambda>_. 0\<rparr> h v [(KSmallInt 1, NONE)] h')"
proof -
  obtain h where h: "alloc heap_default (ObjDict dict_default) = (Ok (value_heap 0 1), h)" by (simp add: sample_dict_heap)
  have native: "native_value h (value_heap 0 1) = value_heap 0 1"
    using sample_dict_heap_ok(2) [OF h] by (simp add: native_value_def)
  have d: "dict_at h (value_heap 0 1) = Some dict_default"
    using sample_dict_heap_ok(2) [OF h] native by (simp add: dict_at_get)
  have key: "dict_key sample_library h (Value 9) 0 = Ok (KSmallInt 1)"
    by (rule immediate_key) (simp_all add: integer_def as_int_def NONE_def NOT_IMPLEMENTED_def ELLIPSIS_def)
  have room: "dict_room dict_default" by (simp add: dict_room_def dict_default_def VERSION_LIMIT_def)
  show ?thesis
    using dict_refines_alist [OF sample_dict_heap_ok(1) [OF h] d index_ok_default(2) room key,
      where hl = "\<lparr>hash_of_string = \<lambda>_. 0, hash_of_bytes = \<lambda>_. 0\<rparr>" and v = NONE] h
    by (auto simp: index_ok_default(3))
qed

text \<open>C24: Whatever hash a caller gives, the index of a dictionary or set stays exact: the candidates for a
  hash are, each once, the positions stored under it, all in range, and a hashed store and a removal
  by position return without a panic and leave an exact index, also when they fail.\<close>

theorem hashed_protocol_safe:
  assumes "heap_ok h" "expect_hashed h (native_value h owner) = Ok d" "index_ok d" "converts_integral lib"
  shows "(\<exists>c. hash_candidates h owner hash = Ok c \<and> distinct c \<and>
      set c = {i. i < length (dict_entries d) \<and> dict_hashes d ! i = as_u64 hash}) \<and>
    clean (fst (hash_set_hashed lib h owner k v hash matched)) \<and>
    (\<exists>d'. expect_hashed (snd (hash_set_hashed lib h owner k v hash matched)) (native_value h owner) = Ok d' \<and> index_ok d') \<and>
    clean (fst (dict_delete_at h owner i)) \<and>
    (\<exists>d'. expect_hashed (snd (dict_delete_at h owner i)) (native_value h owner) = Ok d' \<and> index_ok d')"
proof -
  have wf: "slots_wf h" using assms(1) by (simp add: heap_ok_def)
  have "\<exists>c. hash_candidates h owner hash = Ok c \<and> distinct c \<and>
      set c = {i. i < length (dict_entries d) \<and> dict_hashes d ! i = as_u64 hash}"
    using index_okD(3-5) [OF assms(3), of "as_u64 hash"] assms(2)
    by (cases "dict_index d (as_u64 hash)") (auto simp: hash_candidates_def)
  then show ?thesis
    using hash_set_hashed_safe [OF wf assms(2-4)] dict_delete_at_safe [OF wf assms(2,3)] by blast
qed

lemma hashed_protocol_safe_witness:
  "\<exists>h v lib. alloc heap_default (ObjDict dict_default) = (Ok v, h) \<and>
    clean (fst (hash_set_hashed lib h v (Value 9) NONE (-2) None)) \<and> clean (fst (dict_delete_at h v 0))"
proof -
  obtain h where h: "alloc heap_default (ObjDict dict_default) = (Ok (value_heap 0 1), h)" by (simp add: sample_dict_heap)
  let ?lib = "sample_library\<lparr>lib_from_f64 := \<lambda>_. Some 0\<rparr>"
  have "native_value h (value_heap 0 1) = value_heap 0 1"
    using sample_dict_heap_ok(2) [OF h] by (simp add: native_value_def)
  then have "expect_hashed h (native_value h (value_heap 0 1)) = Ok dict_default"
    using sample_dict_heap_ok(2) [OF h] by (simp add: expect_hashed_get)
  moreover have "converts_integral ?lib" by (simp add: converts_integral_def)
  ultimately have "clean (fst (hash_set_hashed ?lib h (value_heap 0 1) (Value 9) NONE (-2) None)) \<and>
      clean (fst (dict_delete_at h (value_heap 0 1) 0))"
    using hashed_protocol_safe [OF sample_dict_heap_ok(1) [OF h] _ index_ok_default(1)] by blast
  with h show ?thesis by blast
qed

end
