(* ===== verification/Buffers.thy ===== *)
theory Buffers
  imports Objects "HOL-Library.Signed_Division"
begin

text \<open>
  Strided \<open>f64\<close> buffers: crates/tonic-runtime/src/buffer.rs.

  A buffer views an owned allocation through a shape, byte strides and an origin; native code gets raw
  pointers into it, so that memory safety rests on the layout check of the constructor. \<open>usize\<close> is a
  \<open>nat\<close>, \<open>isize\<close> and \<open>i128\<close> an \<open>int\<close>, with the range tests of the checked operations written out;
  a division by a dimension of zero is a panic. Pointers and byte sizes are not modelled.

  \<open>layout_offset\<close> is the mathematical position of an element; the lemmas show that the code computes
  it, in every branch, without leaving the allocation.
\<close>

section \<open>Layouts\<close>

definition ITEM_SIZE :: int where "ITEM_SIZE = 8"

definition i128_range :: "int \<Rightarrow> bool" where
  "i128_range n \<longleftrightarrow> - (2 ^ 127) \<le> n \<and> n < 2 ^ 127"

definition checked_i128 :: "int \<Rightarrow> int option" where
  "checked_i128 n = (if i128_range n then Some n else None)"

definition checked_usize :: "nat \<Rightarrow> nat option" where
  "checked_usize n = (if n < 2 ^ 64 then Some n else None)"

definition isize_of_usize :: "nat \<Rightarrow> int option" where
  "isize_of_usize n = (if n < 2 ^ 63 then Some (int n) else None)"

definition buffer_error :: "string \<Rightarrow> diagnostic" where
  "buffer_error message = diag_new ''BufferError'' message"

text \<open>The loop fills the strides from the last dimension to the first: its argument is the reversed
  shape, its result the reversed strides.\<close>

fun contiguous_loop :: "nat \<Rightarrow> nat list \<Rightarrow> int list res" where
  "contiguous_loop stride [] = Ok []"
| "contiguous_loop stride (dimension # rest) =
     and_then (ok_or (isize_of_usize stride) (buffer_error ''buffer stride does not fit isize'')) (\<lambda>s.
     and_then (ok_or (checked_usize (stride * dimension)) (buffer_error ''buffer byte length overflows usize'')) (\<lambda>next_stride.
     and_then (contiguous_loop next_stride rest) (\<lambda>ss. Ok (s # ss))))"

definition contiguous_strides :: "nat list \<Rightarrow> int list res" where
  "contiguous_strides shape = and_then (contiguous_loop (nat ITEM_SIZE) (rev shape)) (\<lambda>ss. Ok (rev ss))"

definition stride_range :: "'a option \<Rightarrow> 'a res" where
  "stride_range x = ok_or x (buffer_error ''buffer stride range overflows'')"

fun extent_loop :: "(nat \<times> int) list \<Rightarrow> int \<Rightarrow> int \<Rightarrow> (int \<times> int) res" where
  "extent_loop [] minimum maximum = Ok (minimum, maximum)"
| "extent_loop ((dimension, stride) # rest) minimum maximum =
     and_then (stride_range (checked_i128 (int (dimension - 1) * (stride sdiv ITEM_SIZE)))) (\<lambda>extent.
     if extent < 0
     then and_then (stride_range (checked_i128 (minimum + extent))) (\<lambda>lo. extent_loop rest lo maximum)
     else and_then (stride_range (checked_i128 (maximum + extent))) (\<lambda>hi. extent_loop rest minimum hi))"

definition validate_layout :: "nat \<Rightarrow> nat list \<Rightarrow> int list \<Rightarrow> nat \<Rightarrow> nat \<Rightarrow> unit res" where
  "validate_layout backing_len shape strides origin elements =
     (if backing_len < origin
      then Err (buffer_error ''buffer origin is outside its backing allocation'')
      else if list_ex (\<lambda>stride. stride smod ITEM_SIZE \<noteq> 0) strides
      then Err (buffer_error ''buffer strides must be aligned to the f64 item size'')
      else if elements = 0 then Ok ()
      else and_then (extent_loop (zip shape strides) 0 0) (\<lambda>(minimum, maximum).
        and_then (stride_range (checked_i128 (int origin + minimum))) (\<lambda>first.
        and_then (stride_range (checked_i128 (int origin + maximum))) (\<lambda>last.
        if first < 0 \<or> int backing_len \<le> last
        then Err (buffer_error ''buffer shape, strides, and origin escape the backing allocation'')
        else Ok ()))))"

fun element_count :: "nat \<Rightarrow> nat list \<Rightarrow> nat res" where
  "element_count product [] = Ok product"
| "element_count product (dimension # rest) =
     and_then (ok_or (checked_usize (product * dimension)) (buffer_error ''buffer shape element count overflows usize''))
       (\<lambda>n. element_count n rest)"

definition f64_strided :: "64 word list \<Rightarrow> nat list \<Rightarrow> int list \<Rightarrow> nat \<Rightarrow> bool \<Rightarrow> buffer res" where
  "f64_strided vals shape strides origin writable =
     (if 2 ^ 32 \<le> length shape then Err (buffer_error ''buffer rank exceeds u32'')
      else if length strides \<noteq> length shape
      then Err (buffer_error (''buffer rank is '' @ decimal (length shape) @ '', but '' @
        decimal (length strides) @ '' strides were provided''))
      else and_then (element_count 1 shape) (\<lambda>elements.
        and_then (ok_or (checked_usize (elements * nat ITEM_SIZE)) (buffer_error ''buffer byte length overflows usize'')) (\<lambda>_.
        and_then (validate_layout (length vals) shape strides origin elements) (\<lambda>_.
        Ok \<lparr>buf_data = vals, buf_origin = origin, buf_elements = elements, buf_shape = shape,
          buf_strides = strides, buf_writable = writable,
          buf_mutation = \<lparr>bms_version = 0, bms_writable_exports = 0, bms_native_access_disabled = False\<rparr>\<rparr>))))"

definition f64_buffer :: "64 word list \<Rightarrow> nat list \<Rightarrow> bool \<Rightarrow> buffer res" where
  "f64_buffer vals shape writable =
     and_then (contiguous_strides shape) (\<lambda>strides.
     and_then (f64_strided vals shape strides 0 writable) (\<lambda>b.
     if buf_elements b \<noteq> length vals
     then Err (buffer_error (''buffer shape describes '' @ decimal (buf_elements b) @ '' elements, got '' @
       decimal (length vals)))
     else Ok b))"

section \<open>Positions\<close>

fun contiguous_check :: "nat \<Rightarrow> (nat \<times> int) list \<Rightarrow> bool" where
  "contiguous_check expected [] = True"
| "contiguous_check expected ((dimension, stride) # rest) =
     (if 1 < dimension \<and> isize_of_usize expected \<noteq> Some stride then False
      else case checked_usize (expected * max dimension 1) of None \<Rightarrow> False
        | Some expected1 \<Rightarrow> contiguous_check expected1 rest)"

definition is_c_contiguous :: "buffer \<Rightarrow> bool" where
  "is_c_contiguous b = (if buf_elements b = 0 then True
     else contiguous_check (nat ITEM_SIZE) (rev (zip (buf_shape b) (buf_strides b))))"

definition advance_offset :: "int \<Rightarrow> nat \<Rightarrow> int \<Rightarrow> int option" where
  "advance_offset offset i stride = Option.bind (checked_i128 (int i * (stride sdiv ITEM_SIZE)))
     (\<lambda>d. checked_i128 (offset + d))"

definition storage_slot :: "buffer \<Rightarrow> int \<Rightarrow> nat option" where
  "storage_slot b offset =
     (if 0 \<le> offset \<and> offset < 2 ^ 64 \<and> nat offset < length (buf_data b) then Some (nat offset) else None)"

fun storage_loop :: "int \<Rightarrow> ((nat \<times> nat) \<times> int) list \<Rightarrow> int option" where
  "storage_loop offset [] = Some offset"
| "storage_loop offset (((i, dimension), stride) # rest) =
     (if dimension \<le> i then None
      else Option.bind (advance_offset offset i stride) (\<lambda>o1. storage_loop o1 rest))"

definition storage_index :: "buffer \<Rightarrow> nat list \<Rightarrow> nat option" where
  "storage_index b indices =
     (if length indices \<noteq> length (buf_shape b) then None
      else Option.bind (storage_loop (int (buf_origin b)) (zip (zip indices (buf_shape b)) (buf_strides b)))
        (storage_slot b))"

fun flat_loop :: "int \<Rightarrow> nat \<Rightarrow> (nat \<times> int) list \<Rightarrow> int option res" where
  "flat_loop offset i [] = Ok (Some offset)"
| "flat_loop offset i ((dimension, stride) # rest) =
     (if dimension = 0 then Panic
      else case advance_offset offset (i mod dimension) stride of None \<Rightarrow> Ok None
        | Some o1 \<Rightarrow> flat_loop o1 (i div dimension) rest)"

definition flat_storage_index :: "buffer \<Rightarrow> nat \<Rightarrow> nat option res" where
  "flat_storage_index b i =
     (if buf_elements b \<le> i then Ok None
      else if is_c_contiguous b then Ok (checked_usize (buf_origin b + i))
      else and_then (flat_loop (int (buf_origin b)) i (rev (zip (buf_shape b) (buf_strides b))))
        (\<lambda>x. Ok (Option.bind x (storage_slot b))))"

section \<open>Mutation and exports\<close>

definition has_active_writable_exports :: "buffer \<Rightarrow> bool" where
  "has_active_writable_exports b \<longleftrightarrow> bms_writable_exports (buf_mutation b) \<noteq> 0"

definition begin_export :: "buffer \<Rightarrow> bool \<Rightarrow> (unit, buffer) run" where
  "begin_export b writable =
     (if \<not> writable then (Ok (), b)
      else let n = bms_writable_exports (buf_mutation b) + 1 in
        if 2 ^ 32 \<le> n then (Err (buffer_error ''writable export count exhausted''), b)
        else (Ok (), b\<lparr>buf_mutation := (buf_mutation b)\<lparr>bms_writable_exports := n\<rparr>\<rparr>))"

definition end_export :: "buffer \<Rightarrow> bool \<Rightarrow> buffer" where
  "end_export b writable =
     (if \<not> writable then b
      else let m = (buf_mutation b)\<lparr>bms_writable_exports := bms_writable_exports (buf_mutation b) - 1\<rparr> in
        b\<lparr>buf_mutation := if bms_version m + 1 < 2 ^ 64 then m\<lparr>bms_version := bms_version m + 1\<rparr>
          else m\<lparr>bms_native_access_disabled := True\<rparr>\<rparr>)"

definition advance_mutation :: "buffer \<Rightarrow> (unit, buffer) run" where
  "advance_mutation b = (let n = bms_version (buf_mutation b) + 1 in
     if 2 ^ 64 \<le> n then (fail ''RuntimeError'' ''buffer mutation version exhausted'', b)
     else (Ok (), b\<lparr>buf_mutation := (buf_mutation b)\<lparr>bms_version := n\<rparr>\<rparr>))"

definition set_f64 :: "buffer \<Rightarrow> nat \<Rightarrow> 64 word \<Rightarrow> (unit, buffer) run" where
  "set_f64 b i v =
     (if \<not> buf_writable b then (fail ''TypeError'' ''buffer is read-only'', b)
      else if length (buf_data b) \<le> i then (fail ''IndexError'' ''buffer index out of range'', b)
      else run_then (advance_mutation b) (\<lambda>_ b. (Ok (), b\<lparr>buf_data := (buf_data b)[i := v]\<rparr>)))"

section \<open>The mathematical layout\<close>

definition element_stride :: "int \<Rightarrow> int" where "element_stride stride = stride div ITEM_SIZE"

definition layout_offset :: "int list \<Rightarrow> nat list \<Rightarrow> int" where
  "layout_offset strides indices = sum_list (map2 (\<lambda>s i. int i * element_stride s) strides indices)"

text \<open>Row-major coordinates of a flat index, for a reversed shape and for a shape.\<close>

fun unravel_rev :: "nat list \<Rightarrow> nat \<Rightarrow> nat list" where
  "unravel_rev [] i = []"
| "unravel_rev (d # ds) i = (i mod d) # unravel_rev ds (i div d)"

definition unravel :: "nat list \<Rightarrow> nat \<Rightarrow> nat list" where
  "unravel shape i = rev (unravel_rev (rev shape) i)"

definition in_shape :: "nat list \<Rightarrow> nat list \<Rightarrow> bool" where
  "in_shape shape indices \<longleftrightarrow> list_all2 (\<lambda>i d. i < d) indices shape"

text \<open>A buffer as the constructors build it: \<open>usize\<close> and \<open>isize\<close> values, a checked layout.\<close>

definition buffer_ok :: "buffer \<Rightarrow> bool" where
  "buffer_ok b \<longleftrightarrow> length (buf_strides b) = length (buf_shape b) \<and>
     buf_elements b = prod_list (buf_shape b) \<and> buf_elements b * 8 < 2 ^ 64 \<and>
     validate_layout (length (buf_data b)) (buf_shape b) (buf_strides b) (buf_origin b) (buf_elements b) = Ok () \<and>
     length (buf_data b) < 2 ^ 60"

section \<open>Bounds of positions\<close>

lemma aligned_stride:
  assumes "stride smod ITEM_SIZE = 0" shows "stride sdiv ITEM_SIZE = element_stride stride"
proof -
  have "stride = ITEM_SIZE * (stride sdiv ITEM_SIZE)"
    using assms sdiv_mult_smod_eq [of stride ITEM_SIZE] by (simp add: mult.commute)
  then show ?thesis by (simp add: element_stride_def ITEM_SIZE_def)
qed

definition extent :: "nat \<times> int \<Rightarrow> int" where
  "extent = (\<lambda>(dimension, stride). int (dimension - 1) * (stride sdiv ITEM_SIZE))"

lemma stride_range_Ok: "stride_range (checked_i128 n) = Ok y \<longleftrightarrow> i128_range n \<and> y = n"
  by (auto simp: stride_range_def checked_i128_def ok_or_def)

lemma extent_loop_Ok:
  assumes "extent_loop ds lo hi = Ok (lo', hi')"
  shows "lo' = lo + sum_list (map (min 0 \<circ> extent) ds) \<and> hi' = hi + sum_list (map (max 0 \<circ> extent) ds) \<and>
    (\<forall>p\<in>set ds. i128_range (extent p))"
  using assms
proof (induction ds arbitrary: lo hi)
  case (Cons p rest)
  have step: "extent_loop (p # rest) lo hi = and_then (stride_range (checked_i128 (extent p))) (\<lambda>extent.
     if extent < 0
     then and_then (stride_range (checked_i128 (lo + extent))) (\<lambda>lo. extent_loop rest lo hi)
     else and_then (stride_range (checked_i128 (hi + extent))) (\<lambda>hi. extent_loop rest lo hi))"
    by (cases p) (simp add: extent_def)
  have "i128_range (extent p) \<and> extent_loop rest (lo + min 0 (extent p)) (hi + max 0 (extent p)) = Ok (lo', hi')"
    using Cons.prems unfolding step and_then_Ok_iff stride_range_Ok
    by (cases "extent p < 0") (auto simp: and_then_Ok_iff stride_range_Ok)
  then have ext: "i128_range (extent p)"
    and "extent_loop rest (lo + min 0 (extent p)) (hi + max 0 (extent p)) = Ok (lo', hi')" by auto
  from Cons.IH [OF this(2)] ext show ?case by simp
qed simp

lemma scaled_between:
  fixes i n k :: int
  assumes "0 \<le> i" "i \<le> n"
  shows "min 0 (n * k) \<le> i * k" "i * k \<le> max 0 (n * k)"
proof -
  have "0 \<le> i * k \<and> i * k \<le> n * k \<or> i * k \<le> 0 \<and> n * k \<le> i * k"
    using assms by (cases "0 \<le> k") (simp_all add: mult_right_mono mult_right_mono_neg mult_nonneg_nonpos)
  then show "min 0 (n * k) \<le> i * k" "i * k \<le> max 0 (n * k)" by auto
qed

lemma term_bounds:
  assumes "i < d"
  shows "min 0 (extent (d, s)) \<le> int i * (s sdiv ITEM_SIZE)" "int i * (s sdiv ITEM_SIZE) \<le> max 0 (extent (d, s))"
  using scaled_between [of "int i" "int (d - 1)" "s sdiv ITEM_SIZE"] assms by (simp_all add: extent_def)

lemma extent_sums: "sum_list (map (min 0 \<circ> extent) ds) \<le> 0" "0 \<le> sum_list (map (max 0 \<circ> extent) ds)"
  by (induction ds) auto

text \<open>One step of both loops, in range as long as the bounds of what remains are.\<close>

lemma advance_offset_Some:
  assumes i: "i < d" and ext: "i128_range (extent (d, s))"
    and lo: "- (2 ^ 127) \<le> offset + min 0 (extent (d, s)) + L" "L \<le> 0"
    and hi: "offset + max 0 (extent (d, s)) + H < 2 ^ 127" "0 \<le> H"
  shows "advance_offset offset i s = Some (offset + int i * (s sdiv ITEM_SIZE))"
proof -
  note b = term_bounds [OF i, of s]
  have "i128_range (int i * (s sdiv ITEM_SIZE))" "i128_range (offset + int i * (s sdiv ITEM_SIZE))"
    using b ext lo hi unfolding i128_range_def by linarith+
  then show ?thesis by (simp add: advance_offset_def checked_i128_def)
qed

fun loop_sum :: "((nat \<times> nat) \<times> int) list \<Rightarrow> int" where
  "loop_sum [] = 0"
| "loop_sum (((i, d), s) # rest) = int i * (s sdiv ITEM_SIZE) + loop_sum rest"

definition loop_dims :: "((nat \<times> nat) \<times> int) list \<Rightarrow> (nat \<times> int) list" where
  "loop_dims = map (\<lambda>((i, d), s). (d, s))"

lemma loop_sum_bounds:
  assumes "\<forall>((i, d), s)\<in>set ps. i < d"
  shows "sum_list (map (min 0 \<circ> extent) (loop_dims ps)) \<le> loop_sum ps"
    "loop_sum ps \<le> sum_list (map (max 0 \<circ> extent) (loop_dims ps))"
proof -
  have "sum_list (map (min 0 \<circ> extent) (loop_dims ps)) \<le> loop_sum ps \<and>
    loop_sum ps \<le> sum_list (map (max 0 \<circ> extent) (loop_dims ps))"
    using assms
  proof (induction ps rule: loop_sum.induct)
    case (2 i d s rest)
    then show ?case using term_bounds [of i d s] by (force simp: loop_dims_def)
  qed (simp add: loop_dims_def)
  then show "sum_list (map (min 0 \<circ> extent) (loop_dims ps)) \<le> loop_sum ps"
    "loop_sum ps \<le> sum_list (map (max 0 \<circ> extent) (loop_dims ps))" by auto
qed

definition loop_in_range :: "int \<Rightarrow> (nat \<times> int) list \<Rightarrow> bool" where
  "loop_in_range offset ds \<longleftrightarrow> (\<forall>p\<in>set ds. i128_range (extent p)) \<and>
     - (2 ^ 127) \<le> offset + sum_list (map (min 0 \<circ> extent) ds) \<and>
     offset + sum_list (map (max 0 \<circ> extent) ds) < 2 ^ 127"

lemma loop_in_range_step:
  assumes "loop_in_range offset ((d, s) # ds)" "i < d"
  shows "advance_offset offset i s = Some (offset + int i * (s sdiv ITEM_SIZE))"
    "loop_in_range (offset + int i * (s sdiv ITEM_SIZE)) ds"
proof -
  have r: "i128_range (extent (d, s))" "\<forall>p\<in>set ds. i128_range (extent p)"
    "- (2 ^ 127) \<le> offset + min 0 (extent (d, s)) + sum_list (map (min 0 \<circ> extent) ds)"
    "offset + max 0 (extent (d, s)) + sum_list (map (max 0 \<circ> extent) ds) < 2 ^ 127"
    using assms(1) by (simp_all add: loop_in_range_def add.assoc)
  show "advance_offset offset i s = Some (offset + int i * (s sdiv ITEM_SIZE))"
    by (rule advance_offset_Some [OF assms(2) r(1,3) extent_sums(1) r(4) extent_sums(2)])
  show "loop_in_range (offset + int i * (s sdiv ITEM_SIZE)) ds"
    using r term_bounds [OF assms(2), of s] unfolding loop_in_range_def by linarith
qed

lemma storage_loop_Some:
  "loop_in_range offset (loop_dims ps) \<Longrightarrow> \<forall>((i, d), s)\<in>set ps. i < d \<Longrightarrow>
     storage_loop offset ps = Some (offset + loop_sum ps)"
proof (induction offset ps rule: storage_loop.induct)
  case (2 offset i d s rest)
  then have i: "i < d" and rest: "\<forall>((i, d), s)\<in>set rest. i < d"
    and r: "loop_in_range offset ((d, s) # loop_dims rest)" by (auto simp: loop_dims_def)
  note step = loop_in_range_step [OF r i]
  show ?case using 2(1) [OF _ _ step(2) rest] i step(1) by simp
qed simp

lemma flat_loop_Some:
  "loop_in_range offset ds \<Longrightarrow> \<forall>(d, s)\<in>set ds. 0 < d \<Longrightarrow>
     flat_loop offset i ds = Ok (Some (offset + loop_sum (zip (zip (unravel_rev (map fst ds) i) (map fst ds)) (map snd ds))))"
proof (induction offset i ds rule: flat_loop.induct)
  case (2 offset i d s rest)
  then have d: "0 < d" by simp
  then have i: "i mod d < d" by simp
  note step = loop_in_range_step [OF 2(2) i]
  show ?case using 2(1) [OF _ step(1,2)] 2(3) d step(1) by simp
qed simp

section \<open>Contiguous buffers\<close>

lemma contiguous_check_sum:
  "contiguous_check (8 * m) ds \<Longrightarrow> \<forall>(d, s)\<in>set ds. 0 < d \<Longrightarrow> i < prod_list (map fst ds) \<Longrightarrow>
     loop_sum (zip (zip (unravel_rev (map fst ds) i) (map fst ds)) (map snd ds)) = int (m * i)"
proof (induction ds arbitrary: m i)
  case (Cons p ds)
  obtain d s where p: "p = (d, s)" by force
  have d: "0 < d" and rest: "\<forall>(d, s)\<in>set ds. 0 < d" using Cons.prems(2) p by auto
  have i: "i div d < prod_list (map fst ds)"
    using Cons.prems(3) p d by (simp add: less_mult_imp_div_less mult.commute)
  have "contiguous_check (8 * (m * d)) ds"
    using Cons.prems(1) p d
    by (cases "d = 1") (auto simp: checked_usize_def max_def mult.assoc split: if_splits)
  note IH = Cons.IH [OF this rest i]
  have "int (i mod d) * (s sdiv ITEM_SIZE) = int (i mod d) * int m"
  proof (cases "1 < d")
    case True
    then have "s = int (8 * m)"
      using Cons.prems(1) p by (auto simp: isize_of_usize_def split: if_splits)
    moreover have "(8 * int m) sdiv 8 = int m" by (cases "m = 0") (simp_all add: signed_divide_int_def)
    ultimately show ?thesis by (simp add: ITEM_SIZE_def)
  next
    case False
    then have "d = 1" using d by simp
    then show ?thesis by simp
  qed
  moreover have "int (i mod d) * int m + int (m * d * (i div d)) = int (m * i)"
    by (metis (no_types, lifting) add.commute mult.assoc mult.commute distrib_left mult_div_mod_eq of_nat_add of_nat_mult)
  moreover have "loop_sum (zip (zip (unravel_rev (map fst (p # ds)) i) (map fst (p # ds))) (map snd (p # ds))) =
      int (i mod d) * (s sdiv ITEM_SIZE) +
      loop_sum (zip (zip (unravel_rev (map fst ds) (i div d)) (map fst ds)) (map snd ds))"
    by (simp add: p)
  ultimately show ?case using IH by (simp only:)
qed simp

lemma contiguous_loop_check:
  "contiguous_loop e ds = Ok ss \<Longrightarrow> \<forall>d\<in>set ds. 0 < d \<Longrightarrow> contiguous_check e (zip ds ss) \<and> length ss = length ds"
proof (induction e ds arbitrary: ss rule: contiguous_loop.induct)
  case (2 stride d rest)
  then obtain s n ss' where s: "isize_of_usize stride = Some s" "checked_usize (stride * d) = Some n"
    "contiguous_loop n rest = Ok ss'" "ss = s # ss'" by (auto simp: res_simps)
  then have n: "n = stride * d" by (simp add: checked_usize_def split: if_splits)
  have "contiguous_check n (zip rest ss') \<and> length ss' = length rest"
    using 2(1) [of n ss'] s 2(3) by (auto simp: ok_or_def)
  moreover have "max d 1 = d" using 2(3) by simp
  ultimately show ?case using s n by simp
qed simp

section \<open>Positions of a checked buffer\<close>

lemma loop_sum_append: "loop_sum (ps @ qs) = loop_sum ps + loop_sum qs"
  by (induction ps rule: loop_sum.induct) simp_all

lemma loop_sum_rev: "loop_sum (rev ps) = loop_sum ps"
  by (induction ps rule: loop_sum.induct) (simp_all add: loop_sum_append)

lemma loop_in_range_rev: "loop_in_range offset (rev ds) = loop_in_range offset ds"
  by (simp add: loop_in_range_def rev_map [symmetric])

lemma loop_dims_zip:
  "length is = length ds \<Longrightarrow> length ds = length ss \<Longrightarrow> loop_dims (zip (zip is ds) ss) = zip ds ss"
  by (induction "is" ds ss rule: list_induct3) (simp_all add: loop_dims_def)

lemma loop_sum_layout:
  "length is = length ds \<Longrightarrow> length ds = length ss \<Longrightarrow> \<forall>s\<in>set ss. s smod ITEM_SIZE = 0 \<Longrightarrow>
     loop_sum (zip (zip is ds) ss) = layout_offset ss is"
  by (induction "is" ds ss rule: list_induct3) (simp_all add: layout_offset_def aligned_stride)

lemma in_shape_zip:
  "length shape = length ss \<Longrightarrow> in_shape shape is \<Longrightarrow> \<forall>((i, d), s)\<in>set (zip (zip is shape) ss). i < d"
  by (auto simp: in_shape_def list_all2_conv_all_nth set_zip)

lemma in_shape_positive: "in_shape shape is \<Longrightarrow> 0 < prod_list shape"
  unfolding in_shape_def by (induction rule: list_all2_induct) auto

lemma unravel_rev_in_shape:
  "\<forall>d\<in>set ds. 0 < d \<Longrightarrow> list_all2 (\<lambda>i d. i < d) (unravel_rev ds i) ds"
  by (induction ds arbitrary: i) simp_all

lemma unravel_in_shape: "0 < prod_list shape \<Longrightarrow> in_shape shape (unravel shape i)"
proof -
  assume "0 < prod_list shape"
  then have "0 \<notin> set shape" by (metis less_irrefl prod_list_zero_iff)
  then have "\<forall>d\<in>set (rev shape). 0 < d" by (metis gr0I set_rev)
  from unravel_rev_in_shape [OF this, of i] show "in_shape shape (unravel shape i)"
    by (simp add: in_shape_def unravel_def list_all2_rev1)
qed

lemma length_unravel_rev [simp]: "length (unravel_rev ds i) = length ds"
  by (induction ds arbitrary: i) simp_all

lemma zip_unravel:
  assumes "length ss = length shape"
  shows "zip (zip (unravel_rev (map fst (rev (zip shape ss))) i) (map fst (rev (zip shape ss)))) (map snd (rev (zip shape ss)))
    = rev (zip (zip (unravel shape i) shape) ss)"
proof -
  have fields: "map fst (rev (zip shape ss)) = rev shape" "map snd (rev (zip shape ss)) = rev ss"
    using assms by (simp_all add: rev_map [symmetric])
  have "unravel_rev (rev shape) i = rev (unravel shape i)" and "length (unravel shape i) = length shape"
    by (simp_all add: unravel_def)
  then show ?thesis unfolding fields using assms by (simp add: zip_rev [symmetric])
qed

lemma buffer_in_range:
  assumes ok: "buffer_ok b" and pos: "buf_elements b \<noteq> 0"
  shows "loop_in_range (int (buf_origin b)) (zip (buf_shape b) (buf_strides b))"
    "0 \<le> int (buf_origin b) + sum_list (map (min 0 \<circ> extent) (zip (buf_shape b) (buf_strides b)))"
    "int (buf_origin b) + sum_list (map (max 0 \<circ> extent) (zip (buf_shape b) (buf_strides b))) < int (length (buf_data b))"
    "\<forall>s\<in>set (buf_strides b). s smod ITEM_SIZE = 0"
proof -
  have v: "validate_layout (length (buf_data b)) (buf_shape b) (buf_strides b) (buf_origin b) (buf_elements b) = Ok ()"
    and len: "length (buf_data b) < 2 ^ 60" using ok unfolding buffer_ok_def by blast+
  show aligned: "\<forall>s\<in>set (buf_strides b). s smod ITEM_SIZE = 0"
    using v by (auto simp: validate_layout_def list_ex_iff split: if_splits)
  obtain lo hi where l: "extent_loop (zip (buf_shape b) (buf_strides b)) 0 0 = Ok (lo, hi)"
    and r: "0 \<le> int (buf_origin b) + lo" "int (buf_origin b) + hi < int (length (buf_data b))"
    using v pos by (auto simp: validate_layout_def and_then_Ok_iff stride_range_Ok split: if_splits)
  note sums = extent_loop_Ok [OF l]
  show first: "0 \<le> int (buf_origin b) + sum_list (map (min 0 \<circ> extent) (zip (buf_shape b) (buf_strides b)))"
    and last: "int (buf_origin b) + sum_list (map (max 0 \<circ> extent) (zip (buf_shape b) (buf_strides b))) < int (length (buf_data b))"
    using sums r by simp_all
  have "int (length (buf_data b)) < 2 ^ 127" using len by simp
  then show "loop_in_range (int (buf_origin b)) (zip (buf_shape b) (buf_strides b))"
    using first last sums by (auto simp: loop_in_range_def)
qed

lemma storage_slot_Some:
  "buffer_ok b \<Longrightarrow> 0 \<le> n \<Longrightarrow> n < int (length (buf_data b)) \<Longrightarrow> storage_slot b n = Some (nat n)"
  by (auto simp: storage_slot_def buffer_ok_def)

lemma storage_index_Some:
  assumes ok: "buffer_ok b" and idx: "in_shape (buf_shape b) is"
  shows "storage_index b is = Some (nat (int (buf_origin b) + layout_offset (buf_strides b) is))"
    "0 \<le> int (buf_origin b) + layout_offset (buf_strides b) is"
    "int (buf_origin b) + layout_offset (buf_strides b) is < int (length (buf_data b))"
proof -
  have len: "length (buf_strides b) = length (buf_shape b)" "length is = length (buf_shape b)"
    using ok idx by (auto simp: buffer_ok_def in_shape_def list_all2_lengthD)
  have "buf_elements b \<noteq> 0" using ok in_shape_positive [OF idx] by (simp add: buffer_ok_def)
  note r = buffer_in_range [OF ok this]
  let ?ps = "zip (zip is (buf_shape b)) (buf_strides b)"
  have dims: "loop_dims ?ps = zip (buf_shape b) (buf_strides b)" using len by (intro loop_dims_zip) simp_all
  have lt: "\<forall>((i, d), s)\<in>set ?ps. i < d" by (rule in_shape_zip [OF len(1) [symmetric] idx])
  have sum: "loop_sum ?ps = layout_offset (buf_strides b) is" using len r(4) by (intro loop_sum_layout) simp_all
  show pos: "0 \<le> int (buf_origin b) + layout_offset (buf_strides b) is"
    "int (buf_origin b) + layout_offset (buf_strides b) is < int (length (buf_data b))"
    using loop_sum_bounds [OF lt] r(2,3) unfolding dims sum by linarith+
  have "storage_loop (int (buf_origin b)) ?ps = Some (int (buf_origin b) + layout_offset (buf_strides b) is)"
    using storage_loop_Some [of "int (buf_origin b)" ?ps] lt r(1) by (simp add: dims sum)
  then show "storage_index b is = Some (nat (int (buf_origin b) + layout_offset (buf_strides b) is))"
    using len storage_slot_Some [OF ok pos] by (simp add: storage_index_def)
qed

lemma storage_loop_in_shape:
  "storage_loop offset ps = Some y \<Longrightarrow> ((i, d), s) \<in> set ps \<Longrightarrow> i < d"
  by (induction offset ps rule: storage_loop.induct) (auto simp: bind_eq_Some_conv split: if_splits)

lemma storage_index_None:
  assumes ok: "buffer_ok b" and idx: "\<not> in_shape (buf_shape b) is"
  shows "storage_index b is = None"
proof (cases "length is = length (buf_shape b)")
  case True
  have len: "length (buf_strides b) = length (buf_shape b)" using ok by (simp add: buffer_ok_def)
  obtain k where k: "k < length is" "\<not> is ! k < buf_shape b ! k"
    using idx True by (auto simp: in_shape_def list_all2_conv_all_nth)
  then have "((is ! k, buf_shape b ! k), buf_strides b ! k) \<in> set (zip (zip is (buf_shape b)) (buf_strides b))"
    using True len by (auto simp: set_zip intro!: exI [of _ k])
  then have "storage_loop (int (buf_origin b)) (zip (zip is (buf_shape b)) (buf_strides b)) = None"
    using storage_loop_in_shape k(2) by (metis not_Some_eq)
  then show ?thesis by (simp add: storage_index_def)
qed (simp add: storage_index_def)

lemma flat_storage_index_eq:
  assumes ok: "buffer_ok b"
  shows "flat_storage_index b i =
    Ok (if i < buf_elements b then storage_index b (unravel (buf_shape b) i) else None)"
proof (cases "i < buf_elements b")
  case True
  have len: "length (buf_strides b) = length (buf_shape b)" and prod: "buf_elements b = prod_list (buf_shape b)"
    using ok by (simp_all add: buffer_ok_def)
  have pos: "0 < prod_list (buf_shape b)" "buf_elements b \<noteq> 0" using True prod by auto
  note idx = storage_index_Some [OF ok unravel_in_shape [OF pos(1), of i]]
  note r = buffer_in_range [OF ok pos(2)]
  let ?ds = "rev (zip (buf_shape b) (buf_strides b))"
  have positive: "\<forall>(d, s)\<in>set ?ds. 0 < d"
  proof -
    have "0 \<notin> set (buf_shape b)" using pos(1) by (metis less_irrefl prod_list_zero_iff)
    then have "\<forall>d\<in>set (buf_shape b). 0 < d" by (metis gr0I)
    then show ?thesis by (auto dest: set_zip_leftD)
  qed
  have lens: "length (unravel (buf_shape b) i) = length (buf_shape b)" by (simp add: unravel_def)
  have sum: "loop_sum (zip (zip (unravel_rev (map fst ?ds) i) (map fst ?ds)) (map snd ?ds)) =
      layout_offset (buf_strides b) (unravel (buf_shape b) i)"
    unfolding zip_unravel [OF len] loop_sum_rev using len lens r(4) by (intro loop_sum_layout) simp_all
  show ?thesis
  proof (cases "is_c_contiguous b")
    case True
    then have "contiguous_check (8 * 1) ?ds" using pos by (simp add: is_c_contiguous_def ITEM_SIZE_def)
    moreover have "i < prod_list (map fst ?ds)"
      using \<open>i < buf_elements b\<close> len prod by (simp add: rev_map [symmetric] prod_list.rev)
    ultimately have eq: "layout_offset (buf_strides b) (unravel (buf_shape b) i) = int i"
      using contiguous_check_sum [of 1 ?ds i] positive sum by simp
    have "buf_origin b + i < 2 ^ 64" using idx(3) ok by (simp add: eq buffer_ok_def)
    then show ?thesis using True \<open>i < buf_elements b\<close> idx(1)
      by (simp add: flat_storage_index_def checked_usize_def eq nat_int_add)
  next
    case False
    have "loop_in_range (int (buf_origin b)) ?ds" using r(1) by (simp add: loop_in_range_rev)
    from flat_loop_Some [OF this positive, of i] show ?thesis
      using False \<open>i < buf_elements b\<close> idx storage_slot_Some [OF ok idx(2,3)]
      by (simp add: flat_storage_index_def sum)
  qed
qed (simp add: flat_storage_index_def)

section \<open>Construction and mutation\<close>

lemma element_count_Ok: "element_count n shape = Ok m \<Longrightarrow> m = n * prod_list shape"
proof (induction n shape rule: element_count.induct)
  case (2 n d rest)
  then have "n * d < 2 ^ 64" "element_count (n * d) rest = Ok m"
    by (auto simp: res_simps checked_usize_def ok_or_def split: if_splits)
  then show ?case using 2(1) [of "n * d"] by (simp add: checked_usize_def ok_or_def mult.assoc)
qed simp

lemma f64_strided_ok:
  assumes "f64_strided vals shape strides origin writable = Ok b" "length vals < 2 ^ 60"
  shows "buffer_ok b" "buf_shape b = shape" "buf_strides b = strides" "buf_origin b = origin" "buf_data b = vals"
proof -
  have parts: "length strides = length shape" "\<exists>elements. element_count 1 shape = Ok elements \<and> elements * 8 < 2 ^ 64 \<and>
      validate_layout (length vals) shape strides origin elements = Ok () \<and> buf_elements b = elements"
    "buf_shape b = shape" "buf_strides b = strides" "buf_origin b = origin" "buf_data b = vals"
    using assms(1) by (auto simp: f64_strided_def res_simps checked_usize_def ITEM_SIZE_def ok_or_def split: if_splits)
  then show "buffer_ok b"
    using element_count_Ok [of 1 shape] assms(2) unfolding buffer_ok_def by (metis nat_mult_1)
  show "buf_shape b = shape" "buf_strides b = strides" "buf_origin b = origin" "buf_data b = vals" by (fact parts)+
qed

text \<open>The operations on a buffer change its elements and its counters only.\<close>

lemma buffer_ok_mutations:
  assumes "buffer_ok b"
  shows "buffer_ok (snd (set_f64 b i v))" "buffer_ok (snd (begin_export b w))" "buffer_ok (end_export b w)"
  using assms by (auto simp: buffer_ok_def set_f64_def advance_mutation_def begin_export_def end_export_def Let_def)

lemma contiguous_strides_check:
  assumes "contiguous_strides shape = Ok strides" "0 < prod_list shape"
  shows "contiguous_check 8 (rev (zip shape strides))" "length strides = length shape"
proof -
  obtain ss where ss: "contiguous_loop 8 (rev shape) = Ok ss" "strides = rev ss"
    using assms(1) by (auto simp: contiguous_strides_def ITEM_SIZE_def res_simps)
  have "0 \<notin> set shape" using assms(2) by (metis less_irrefl prod_list_zero_iff)
  then have "\<forall>d\<in>set (rev shape). 0 < d" by (metis gr0I set_rev)
  note check = contiguous_loop_check [OF ss(1) this]
  then show "length strides = length shape" using ss(2) by simp
  with check show "contiguous_check 8 (rev (zip shape strides))" by (simp add: ss(2) zip_rev [symmetric])
qed

section \<open>Properties\<close>

text \<open>C25: Memory safety of strided buffers: if the constructor accepts a shape, strides and an origin, then
  an index tuple within the shape has the position that the layout gives it, inside the
  allocation, every other tuple has none, and the flat index of an element is its row-major tuple
  on the contiguous and on the general path; no computation panics and none leaves the allocation,
  for negative and zero strides too.\<close>

theorem strided_buffer_safe:
  assumes "f64_strided vals shape strides origin writable = Ok b" "length vals < 2 ^ 60"
  shows "storage_index b indices = (if in_shape shape indices
      then Some (nat (int origin + layout_offset strides indices)) else None) \<and>
    (in_shape shape indices \<longrightarrow> 0 \<le> int origin + layout_offset strides indices \<and>
      int origin + layout_offset strides indices < int (length vals)) \<and>
    flat_storage_index b i = Ok (if i < prod_list shape then storage_index b (unravel shape i) else None) \<and>
    (i < prod_list shape \<longrightarrow> in_shape shape (unravel shape i))"
proof -
  note ok = f64_strided_ok [OF assms]
  have "buf_elements b = prod_list shape" using ok(1,2) by (simp add: buffer_ok_def)
  then show ?thesis
    using storage_index_Some [OF ok(1), of indices] storage_index_None [OF ok(1), of indices]
      flat_storage_index_eq [OF ok(1), of i] unravel_in_shape [of shape i]
    by (auto simp: ok(2-5))
qed

lemma strided_buffer_safe_witness:
  "\<exists>b. f64_strided [0, 1, 2, 3, 4, 5, 6] [2, 2] [32, - 16] 2 True = Ok b \<and>
    storage_index b [1, 1] = Some 4 \<and> storage_index b [1, 2] = None \<and> flat_storage_index b 3 = Ok (Some 4)"
proof -
  obtain b where b: "f64_strided [0, 1, 2, 3, 4, 5, 6] [2, 2] [32, - 16] 2 True = Ok b"
    by (simp add: f64_strided_def validate_layout_def checked_usize_def ok_or_def ITEM_SIZE_def stride_range_def
      checked_i128_def i128_range_def signed_divide_int_def signed_modulo_int_def)
  have "storage_index b [1, 1] = Some 4" "storage_index b [1, 2] = None"
    using strided_buffer_safe [OF b, of "[1, 1]"] strided_buffer_safe [OF b, of "[1, 2]"]
    by (simp_all add: in_shape_def layout_offset_def element_stride_def ITEM_SIZE_def)
  moreover have "flat_storage_index b 3 = Ok (Some 4)"
    using strided_buffer_safe [OF b, of _ 3] calculation by (simp add: unravel_def)
  ultimately show ?thesis using b by blast
qed

text \<open>A buffer built from a shape alone stores its elements in row-major order without gaps: element
  \<open>i\<close> of the sequence is at position \<open>i\<close>, and so is the element at the \<open>i\<close>-th index tuple.\<close>

theorem contiguous_buffer_row_major:
  assumes "f64_buffer vals shape writable = Ok b" "length vals < 2 ^ 60" "i < length vals"
  shows "flat_storage_index b i = Ok (Some i) \<and> storage_index b (unravel shape i) = Some i"
proof -
  obtain strides where strides: "contiguous_strides shape = Ok strides"
    and b: "f64_strided vals shape strides 0 writable = Ok b" and n: "buf_elements b = length vals"
    using assms(1) by (auto simp: f64_buffer_def res_simps split: if_splits)
  note ok = f64_strided_ok [OF b assms(2)]
  have "0 < prod_list shape" using ok(1,2) n assms(3) by (simp add: buffer_ok_def)
  then have "is_c_contiguous b"
    using contiguous_strides_check [OF strides] n assms(3) by (auto simp: is_c_contiguous_def ok ITEM_SIZE_def)
  then have "flat_storage_index b i = Ok (Some i)"
    using n assms(2,3) by (simp add: flat_storage_index_def checked_usize_def ok)
  then show ?thesis using flat_storage_index_eq [OF ok(1), of i] n assms(3) by (simp add: ok(2))
qed

lemma contiguous_buffer_row_major_witness:
  "\<exists>b. f64_buffer [7, 8, 9, 10, 11, 12] [2, 3] False = Ok b \<and> storage_index b [1, 1] = Some 4"
proof -
  obtain b where b: "f64_buffer [7, 8, 9, 10, 11, 12] [2, 3] False = Ok b"
    by (simp add: f64_buffer_def contiguous_strides_def isize_of_usize_def f64_strided_def validate_layout_def
      checked_usize_def ok_or_def ITEM_SIZE_def stride_range_def checked_i128_def i128_range_def
      signed_divide_int_def signed_modulo_int_def)
  have "unravel [2, 3] 4 = [1, 1]" by (simp add: unravel_def)
  with contiguous_buffer_row_major [OF b, of 4] b show ?thesis by simp
qed

end
