(* ===== verification/Linearization.thy ===== *)
theory Linearization
  imports Prelude "HOL-Library.Sublist"
begin

text \<open>
  The C3 merge of \<open>Heap::finish_class\<close> (crates/tonic-runtime/src/classes.rs): the method resolution
  order of a class from the lineages of its bases and the list of its bases.

  The lemmas show what the loop computes: an order without repetitions that extends every sequence it
  is given, whenever there is one.
\<close>

section \<open>The merge\<close>

definition blocked :: "'a list list \<Rightarrow> 'a \<Rightarrow> bool" where
  "blocked seqs candidate = list_ex (\<lambda>s. candidate \<in> set (tl s)) seqs"

definition next_head :: "'a list list \<Rightarrow> 'a option" where
  "next_head seqs = find (\<lambda>candidate. \<not> blocked seqs candidate) (map hd (filter (\<lambda>s. s \<noteq> []) seqs))"

definition drop_head :: "'a \<Rightarrow> 'a list \<Rightarrow> 'a list" where
  "drop_head h s = (if s \<noteq> [] \<and> hd s = h then tl s else s)"

lemma next_head_Some:
  assumes "next_head seqs = Some h"
  shows "\<not> blocked seqs h" "\<exists>s\<in>set seqs. s \<noteq> [] \<and> hd s = h"
proof -
  have "h \<in> set (map hd (filter (\<lambda>s. s \<noteq> []) seqs)) \<and> \<not> blocked seqs h"
    using assms unfolding next_head_def by (blast dest: find_Some_D)
  then show "\<not> blocked seqs h" "\<exists>s\<in>set seqs. s \<noteq> [] \<and> hd s = h" by auto
qed

lemma next_head_shrinks:
  assumes "next_head seqs = Some h"
  shows "sum_list (map length (map (drop_head h) seqs)) < sum_list (map length seqs)"
proof -
  obtain s where s: "s \<in> set seqs" "s \<noteq> []" "hd s = h" using next_head_Some(2) [OF assms] by blast
  have le: "length (drop_head h t) \<le> length t" for t by (simp add: drop_head_def)
  have lt: "length (drop_head h s) < length s" using s(2,3) by (simp add: drop_head_def)
  obtain as bs where split: "seqs = as @ s # bs" using s(1) by (meson split_list)
  have "sum_list (map (length \<circ> drop_head h) xs) \<le> sum_list (map length xs)" for xs
    by (rule sum_list_mono) (simp add: le)
  from this [of as] this [of bs] show ?thesis
    using lt by (simp add: split)
qed

function mro_merge :: "'a list list \<Rightarrow> 'a list res" where
  "mro_merge seqs = (if list_all (\<lambda>s. s = []) seqs then Ok []
     else case next_head seqs of
       None \<Rightarrow> fail ''TypeError'' ''cannot create a consistent method resolution order''
     | Some h \<Rightarrow> and_then (mro_merge (map (drop_head h) seqs)) (\<lambda>mro. Ok (h # mro)))"
  by pat_completeness auto
termination
  by (relation "measure (\<lambda>seqs. sum_list (map length seqs))") (auto dest: next_head_shrinks)

declare mro_merge.simps [simp del]

section \<open>What it computes\<close>

definition consistent_order :: "'a list list \<Rightarrow> 'a list \<Rightarrow> bool" where
  "consistent_order seqs order \<longleftrightarrow> distinct order \<and> (\<forall>s\<in>set seqs. subseq s order)"

lemma subseq_set: "subseq s t \<Longrightarrow> x \<in> set s \<Longrightarrow> x \<in> set t"
  by (metis in_set_subseqs set_subseqs_eq subseq_order.order_trans subseq_singleton_left)

lemma drop_head_filter: "\<not> blocked seqs h \<Longrightarrow> s \<in> set seqs \<Longrightarrow> drop_head h s = filter (\<lambda>x. x \<noteq> h) s"
proof -
  assume "\<not> blocked seqs h" "s \<in> set seqs"
  then have "h \<notin> set (tl s)" by (auto simp: blocked_def list_ex_iff)
  then have "filter (\<lambda>x. x \<noteq> h) (tl s) = tl s" by (auto simp: filter_id_conv)
  then show ?thesis by (cases s) (simp_all add: drop_head_def)
qed

lemma drop_head_back: "\<not> blocked seqs h \<Longrightarrow> s \<in> set seqs \<Longrightarrow> s = drop_head h s \<and> h \<notin> set s \<or> s = h # drop_head h s"
  by (cases s) (auto simp: drop_head_def blocked_def list_ex_iff)

lemma mro_merge_sound:
  "mro_merge seqs = Ok mro \<Longrightarrow> consistent_order seqs mro \<and> set mro = \<Union> (set ` set seqs)"
proof (induction seqs arbitrary: mro rule: mro_merge.induct)
  case (1 seqs)
  show ?case
  proof (cases "list_all (\<lambda>s. s = []) seqs")
    case True
    then show ?thesis using "1.prems" by (auto simp: mro_merge.simps [of seqs] consistent_order_def list_all_iff)
  next
    case False
    then obtain h rest where h: "next_head seqs = Some h"
      and rest: "mro_merge (map (drop_head h) seqs) = Ok rest" and mro: "mro = h # rest"
      using "1.prems" by (auto simp: mro_merge.simps [of seqs] res_simps split: option.splits)
    note free = next_head_Some [OF h]
    have ih: "distinct rest" "\<forall>s\<in>set seqs. subseq (drop_head h s) rest" "set rest = (\<Union>s\<in>set seqs. set (drop_head h s))"
      using "1.IH" [OF False h rest] by (auto simp: consistent_order_def)
    have "h \<notin> set rest" unfolding ih(3) using drop_head_filter [OF free(1)] by auto
    moreover have "subseq s mro" if "s \<in> set seqs" for s
      using drop_head_back [OF free(1) that]
    proof
      assume "s = drop_head h s \<and> h \<notin> set s"
      then have "subseq s rest" using ih(2) that by metis
      then show ?thesis by (simp add: mro list_emb_Cons)
    next
      assume "s = h # drop_head h s"
      then show ?thesis using ih(2) that unfolding mro by (metis subseq_Cons2)
    qed
    moreover have "set mro = \<Union> (set ` set seqs)"
    proof -
      have "set (h # drop_head h s) = insert h (set s)" if "s \<in> set seqs" for s
        using drop_head_back [OF free(1) that] by (metis list.simps(15) insert_absorb2)
      then have "insert h (\<Union>s\<in>set seqs. set (drop_head h s)) = insert h (\<Union> (set ` set seqs))" by fastforce
      moreover have "h \<in> \<Union> (set ` set seqs)" using free(2) by (force dest: hd_in_set)
      ultimately show ?thesis by (simp add: mro ih(3) insert_absorb)
    qed
    ultimately show ?thesis using ih(1) by (simp add: consistent_order_def mro)
  qed
qed

lemma consistent_order_head:
  assumes "consistent_order seqs order" "\<not> list_all (\<lambda>s. s = []) seqs"
  shows "\<exists>h. next_head seqs = Some h"
proof -
  let ?in = "\<lambda>x. x \<in> \<Union> (set ` set seqs)"
  obtain s0 where s0: "s0 \<in> set seqs" "s0 \<noteq> []" using assms(2) by (auto simp: list_all_iff)
  then have "hd s0 \<in> set order" using assms(1) subseq_set [of s0 order] by (simp add: consistent_order_def)
  moreover have "?in (hd s0)" using s0 by (auto intro!: bexI [OF _ s0(1)])
  ultimately have "\<exists>x\<in>set order. ?in x" by blast
  from split_list_first_prop [OF this] obtain pre y post
    where order: "order = pre @ y # post" and y: "?in y" and pre: "\<forall>x\<in>set pre. \<not> ?in x" by auto
  have tail: "s = [] \<or> (hd s = y \<and> y \<notin> set (tl s)) \<or> y \<notin> set s" if "s \<in> set seqs" for s
  proof -
    have "subseq s (pre @ y # post)" using assms(1) that by (simp add: consistent_order_def order)
    then obtain s1 s2 where s: "s = s1 @ s2" "subseq s1 pre" "subseq s2 (y # post)"
      by (rule subseq_appendE)
    have "s1 = []" using pre s(1) that subseq_set [OF s(2), of "hd s1"] by (cases s1) force+
    moreover have "distinct (y # post)" using assms(1) by (simp add: consistent_order_def order)
    then have fresh: "y \<notin> set t" if "subseq t post" for t using subseq_set [OF that] by auto
    have s2: "subseq s (y # post)" using s \<open>s1 = []\<close> by simp
    show ?thesis
    proof (cases s)
      case (Cons a t)
      then show ?thesis using s2 fresh [of t] fresh [of s] by (cases "a = y") (simp_all add: subseq_Cons2_neq)
    qed simp
  qed
  have "y \<notin> set (tl s)" if "s \<in> set seqs" for s using tail [OF that] by (cases s) auto
  then have free: "\<not> blocked seqs y" by (auto simp: blocked_def list_ex_iff)
  obtain s where s: "s \<in> set seqs" "y \<in> set s" using y by blast
  then have "s \<noteq> []" "hd s = y" using tail [OF s(1)] by auto
  then have "y \<in> set (map hd (filter (\<lambda>s. s \<noteq> []) seqs))" using s(1) by force
  then have "\<exists>c\<in>set (map hd (filter (\<lambda>s. s \<noteq> []) seqs)). \<not> blocked seqs c" using free by blast
  then show ?thesis unfolding next_head_def by (metis (no_types, lifting) find_None_iff2 not_None_eq)
qed

lemma mro_merge_complete: "consistent_order seqs order \<Longrightarrow> \<exists>mro. mro_merge seqs = Ok mro"
proof (induction seqs arbitrary: order rule: mro_merge.induct)
  case (1 seqs)
  show ?case
  proof (cases "list_all (\<lambda>s. s = []) seqs")
    case True
    then show ?thesis by (simp add: mro_merge.simps [of seqs])
  next
    case False
    then obtain h where h: "next_head seqs = Some h" using consistent_order_head [OF "1.prems"] by blast
    have "consistent_order (map (drop_head h) seqs) (filter (\<lambda>x. x \<noteq> h) order)"
      using "1.prems" drop_head_filter [OF next_head_Some(1) [OF h]]
      by (auto simp: consistent_order_def)
    from "1.IH" [OF False h this] show ?thesis using False h by (auto simp: mro_merge.simps [of seqs])
  qed
qed

lemma mro_merge_result:
  "(\<exists>mro. mro_merge seqs = Ok mro) \<or>
   mro_merge seqs = fail ''TypeError'' ''cannot create a consistent method resolution order''"
proof (induction seqs rule: mro_merge.induct)
  case (1 seqs)
  then show ?case by (cases "next_head seqs") (auto simp: mro_merge.simps [of seqs])
qed

text \<open>C12: The C3 merge terminates on all sequences. It succeeds exactly when some order without repetitions
  extends every sequence; its result is then such an order, of exactly the members of the
  sequences. Otherwise it fails with a \<open>TypeError\<close>.\<close>

theorem mro_merge_correct:
  "case mro_merge seqs of
     Ok mro \<Rightarrow> consistent_order seqs mro \<and> set mro = \<Union> (set ` set seqs)
   | Err d \<Rightarrow> (\<nexists>order. consistent_order seqs order) \<and> diag_kind d = ''TypeError''
   | Panic \<Rightarrow> False | Diverge \<Rightarrow> False"
proof (cases "mro_merge seqs")
  case (Ok mro)
  then show ?thesis using mro_merge_sound [OF Ok] by simp
next
  case (Err d)
  moreover have "\<nexists>order. consistent_order seqs order" using Err mro_merge_complete [of seqs] by auto
  ultimately show ?thesis using mro_merge_result [of seqs] by (auto simp: diag_new_def)
qed (use mro_merge_result [of seqs] in auto)

end
