(* ===== verification/Classes.thy ===== *)
theory Classes
  imports Linearization Dictionaries
begin

text \<open>
  Classes and attributes: crates/tonic-runtime/src/classes.rs.

  A class body runs in a namespace object, which \<open>finish_class\<close> turns into a class with a C3 method
  resolution order. Reads search the resolution order and bind descriptors; a write to a class bumps
  its version and that of every class that has it in its resolution order (its dependents), so that
  an inline cache guarded by a version never needs to follow the order again. Byte accounting is left
  out. \<open>describe\<close> is the text of a value in an error message, an argument.
\<close>

section \<open>Names\<close>

definition in_quotes :: "string \<Rightarrow> string" where
  "in_quotes name = [char_of (39 :: nat)] @ name @ [char_of (39 :: nat)]"

definition missing_attribute :: "string \<Rightarrow> diagnostic" where
  "missing_attribute name = diag_new ''AttributeError'' (''object has no attribute '' @ in_quotes name)"

definition supported_hooks :: "string list" where
  "supported_hooks = [''__init__'', ''__new__'', ''__del__'', ''__call__'', ''__len__'', ''__bool__'', ''__get__'',
     ''__getattr__'', ''__getattribute__'', ''__setattr__'', ''__delattr__'', ''__iter__'', ''__next__'', ''__enter__'',
     ''__exit__'', ''__set__'', ''__set_name__'', ''__prepare__'', ''__getitem__'', ''__class_getitem__'',
     ''__setitem__'', ''__delitem__'', ''__delete__'', ''__add__'', ''__radd__'', ''__iadd__'', ''__sub__'', ''__rsub__'',
     ''__isub__'', ''__mul__'', ''__rmul__'', ''__imul__'', ''__matmul__'', ''__rmatmul__'', ''__imatmul__'',
     ''__truediv__'', ''__rtruediv__'', ''__itruediv__'', ''__floordiv__'', ''__rfloordiv__'', ''__ifloordiv__'',
     ''__mod__'', ''__rmod__'', ''__imod__'', ''__divmod__'', ''__rdivmod__'', ''__pow__'', ''__rpow__'', ''__ipow__'',
     ''__or__'', ''__ror__'', ''__ior__'', ''__xor__'', ''__rxor__'', ''__ixor__'', ''__and__'', ''__rand__'',
     ''__iand__'', ''__lshift__'', ''__rlshift__'', ''__ilshift__'', ''__rshift__'', ''__rrshift__'', ''__irshift__'',
     ''__eq__'', ''__hash__'', ''__ne__'', ''__lt__'', ''__le__'', ''__gt__'', ''__ge__'', ''__contains__'', ''__neg__'',
     ''__pos__'', ''__abs__'', ''__round__'', ''__invert__'', ''__int__'', ''__float__'', ''__index__'', ''__await__'',
     ''__aiter__'', ''__anext__'', ''__aenter__'', ''__aexit__'', ''__module__'', ''__qualname__'', ''__doc__'',
     ''__name__'', ''__annotations__'', ''__type_params__'', ''__value__'', ''__bound__'', ''__constraints__'',
     ''__match_args__'', ''__str__'', ''__repr__'', ''__format__'']"

definition unsupported_hook :: "string \<Rightarrow> unit res" where
  "unsupported_hook name =
     (if take 2 name = ''__'' \<and> 2 \<le> length name \<and> drop (length name - 2) name = ''__'' \<and> name \<notin> set supported_hooks
      then fail ''UnsupportedFeature'' (''class protocol '' @ in_quotes name @ '' is not implemented yet'')
      else Ok ())"

definition last_component :: "string \<Rightarrow> string" where
  "last_component qualname = rev (takeWhile (\<lambda>c. c \<noteq> CHR ''.'') (rev qualname))"

section \<open>The dictionary of a class\<close>

definition dictionary_len :: "class_object \<Rightarrow> nat" where
  "dictionary_len c = length (cls_dictionary_order c)"

definition dictionary_entry :: "class_object \<Rightarrow> nat \<Rightarrow> (class_dictionary_key \<times> tvalue) option" where
  "dictionary_entry c i = (if length (cls_dictionary_order c) \<le> i then None
     else let k = cls_dictionary_order c ! i in
       map_option (Pair k) (case k of
         DictKeyString name \<Rightarrow> map_of (cls_attributes c) name
       | DictKeyOther v \<Rightarrow> map_of (cls_extra_attributes c) v))"

definition set_class_attribute :: "string \<Rightarrow> tvalue \<Rightarrow> class_object \<Rightarrow> class_object" where
  "set_class_attribute name v c =
     (if map_of (cls_attributes c) name = None
      then c\<lparr>cls_attributes := set_member name v (cls_attributes c),
             cls_dictionary_order := cls_dictionary_order c @ [DictKeyString name]\<rparr>
      else c\<lparr>cls_attributes := set_member name v (cls_attributes c)\<rparr>)"

section \<open>Namespaces\<close>

definition namespace_object :: "string \<Rightarrow> tvalue list \<Rightarrow> tvalue \<Rightarrow> tvalue option \<Rightarrow> (string \<times> tvalue) list \<Rightarrow> object" where
  "namespace_object qualname bases metaclass mapping attributes = ObjNamespace \<lparr>cls_root = False, cls_id = 0,
     cls_version = 0, cls_name = last_component qualname, cls_metaclass = metaclass,
     cls_namespace_mapping = mapping, cls_attributes = attributes, cls_extra_attributes = [],
     cls_dictionary_order = map (\<lambda>(name, _). DictKeyString name) attributes, cls_bases = bases,
     cls_mro = [], cls_dependents = []\<rparr>"

definition namespace_with_metaclass :: "heap \<Rightarrow> string \<Rightarrow> tvalue list \<Rightarrow> tvalue \<Rightarrow> (tvalue, heap) run" where
  "namespace_with_metaclass h qualname bases metaclass =
     run_then (alloc h (ObjStr ''__main__'')) (\<lambda>home h1.
     run_then (alloc h1 (ObjStr qualname)) (\<lambda>qualified h2.
     alloc h2 (namespace_object qualname bases metaclass None
       [(''__module__'', home), (''__qualname__'', qualified), (''__doc__'', NONE)])))"

definition namespace_of :: "heap \<Rightarrow> string \<Rightarrow> tvalue list \<Rightarrow> (tvalue, heap) run" where
  "namespace_of h qualname bases = namespace_with_metaclass h qualname bases UNBOUND"

definition namespace_from_mapping_inner ::
  "heap \<Rightarrow> string \<Rightarrow> tvalue list \<Rightarrow> tvalue \<Rightarrow> tvalue \<Rightarrow> (tvalue, heap) run" where
  "namespace_from_mapping_inner h qualname bases metaclass mapping =
     alloc h (namespace_object qualname bases metaclass (Some mapping) [])"

definition is_dict_object :: "object \<Rightarrow> bool" where
  "is_dict_object ob = (case ob of ObjDict _ \<Rightarrow> True | _ \<Rightarrow> False)"

definition mapping_protocol :: "heap \<Rightarrow> tvalue \<Rightarrow> bool res" where
  "mapping_protocol h mapping = and_then (heap_get h mapping) (\<lambda>ob. if is_dict_object ob then Ok True
     else and_then (special_method_call h mapping ''__getitem__'') (\<lambda>getter. if getter = None then Ok False
     else and_then (special_method_call h mapping ''__setitem__'') (\<lambda>setter. Ok (setter \<noteq> None))))"

definition namespace_from_mapping ::
  "heap \<Rightarrow> string \<Rightarrow> tvalue list \<Rightarrow> tvalue \<Rightarrow> tvalue \<Rightarrow> (tvalue, heap) run" where
  "namespace_from_mapping h qualname bases metaclass mapping =
     run_then (mapping_protocol h mapping, h) (\<lambda>ok h1.
     if \<not> ok then (fail ''TypeError'' ''metaclass __prepare__ must return a mapping'', h1)
     else namespace_from_mapping_inner h1 qualname bases metaclass mapping)"

definition mapping_default :: "numeric_library \<Rightarrow> hash_library \<Rightarrow> heap \<Rightarrow> tvalue \<Rightarrow> string \<Rightarrow> string option \<Rightarrow> (unit, heap) run" where
  "mapping_default lib hl h mapping attribute fallback =
     run_then (dict_get_str hl h mapping attribute, h) (\<lambda>found h1.
     if found \<noteq> None then (Ok (), h1)
     else run_then (case fallback of Some s \<Rightarrow> alloc h1 (ObjStr s) | None \<Rightarrow> (Ok NONE, h1)) (\<lambda>v h2.
     dict_set_str lib hl h2 mapping attribute v))"

definition namespace_from_type_mapping :: "numeric_library \<Rightarrow> hash_library \<Rightarrow>
    heap \<Rightarrow> string \<Rightarrow> tvalue list \<Rightarrow> tvalue \<Rightarrow> tvalue \<Rightarrow> (tvalue, heap) run" where
  "namespace_from_type_mapping lib hl h name bases metaclass source =
     run_then (and_then (heap_get h source) (\<lambda>ob. if is_dict_object ob then Ok ()
       else fail ''TypeError'' ''type namespace must be a dict''), h) (\<lambda>_ h1.
     run_then (alloc h1 (ObjDict dict_default)) (\<lambda>mapping h2.
     run_then (dict_merge lib hl h2 mapping source) (\<lambda>_ h3.
     run_then (mapping_default lib hl h3 mapping ''__module__'' (Some ''__main__'')) (\<lambda>_ h4.
     run_then (mapping_default lib hl h4 mapping ''__qualname__'' (Some name)) (\<lambda>_ h5.
     run_then (mapping_default lib hl h5 mapping ''__doc__'' None) (\<lambda>_ h6.
     namespace_from_mapping_inner h6 name bases metaclass mapping))))))"

definition missing_namespace :: "'a res" where
  "missing_namespace = fail ''BytecodeError'' ''missing class namespace''"

definition heap_namespace :: "heap \<Rightarrow> tvalue \<Rightarrow> class_object res" where
  "heap_namespace h ns = and_then (heap_get h ns) (\<lambda>ob. case ob of ObjNamespace c \<Rightarrow> Ok c | _ \<Rightarrow> missing_namespace)"

definition dict_backed :: "heap \<Rightarrow> tvalue \<Rightarrow> unit res" where
  "dict_backed h mapping = and_then (heap_get h mapping) (\<lambda>ob. if is_dict_object ob then Ok ()
     else fail ''BytecodeError'' ''custom class mapping requires VM protocol dispatch'')"

definition namespace_get :: "hash_library \<Rightarrow> heap \<Rightarrow> tvalue \<Rightarrow> string \<Rightarrow> tvalue option res" where
  "namespace_get hl h ns name = and_then (heap_namespace h ns) (\<lambda>c. case cls_namespace_mapping c of
       Some mapping \<Rightarrow> and_then (dict_backed h mapping) (\<lambda>_. dict_get_str hl h mapping name)
     | None \<Rightarrow> Ok (map_of (cls_attributes c) name))"

definition namespace_set :: "numeric_library \<Rightarrow> hash_library \<Rightarrow> heap \<Rightarrow> tvalue \<Rightarrow> string \<Rightarrow> tvalue \<Rightarrow> (unit, heap) run" where
  "namespace_set lib hl h ns name v = run_then (heap_namespace h ns, h) (\<lambda>c h1. case cls_namespace_mapping c of
       Some mapping \<Rightarrow> run_then (dict_backed h1 mapping, h1) (\<lambda>_ h2. dict_set_str lib hl h2 mapping name v)
     | None \<Rightarrow> run_then (write_barrier h1 ns v) (\<lambda>_ h2. with_object h2 ns (\<lambda>ob. case ob of
           ObjNamespace c \<Rightarrow> Ok ((), ObjNamespace (set_class_attribute name v c)) | _ \<Rightarrow> missing_namespace)))"

definition remove_dictionary_key :: "string \<Rightarrow> class_dictionary_key list \<Rightarrow> class_dictionary_key list" where
  "remove_dictionary_key name order = (case position (\<lambda>k. k = DictKeyString name) order of
     Some i \<Rightarrow> remove_at i order | None \<Rightarrow> order)"

definition namespace_delete :: "numeric_library \<Rightarrow> hash_library \<Rightarrow> (heap \<Rightarrow> tvalue \<Rightarrow> string res) \<Rightarrow>
    heap \<Rightarrow> tvalue \<Rightarrow> string \<Rightarrow> (unit, heap) run" where
  "namespace_delete lib hl describe h ns name = run_then (heap_namespace h ns, h) (\<lambda>c h1.
     case cls_namespace_mapping c of
       Some mapping \<Rightarrow> run_then (alloc h1 (ObjStr name)) (\<lambda>k h2. dict_delete lib hl describe h2 mapping k)
     | None \<Rightarrow> with_object h1 ns (\<lambda>ob. case ob of
           ObjNamespace c \<Rightarrow> (case position (\<lambda>(candidate, _). candidate = name) (cls_attributes c) of
               None \<Rightarrow> fail ''NameError'' (''name '' @ in_quotes name @ '' is not defined'')
             | Some i \<Rightarrow> Ok ((), ObjNamespace (c\<lparr>cls_attributes := remove_at i (cls_attributes c),
                 cls_dictionary_order := remove_dictionary_key name (cls_dictionary_order c)\<rparr>)))
         | _ \<Rightarrow> Panic))"

fun store_attributes :: "numeric_library \<Rightarrow> hash_library \<Rightarrow> heap \<Rightarrow> tvalue \<Rightarrow> (string \<times> tvalue) list \<Rightarrow> (unit, heap) run" where
  "store_attributes lib hl h mapping [] = (Ok (), h)"
| "store_attributes lib hl h mapping ((name, v) # rest) =
     run_then (dict_set_str lib hl h mapping name v) (\<lambda>_ h1. store_attributes lib hl h1 mapping rest)"

definition install_mapping :: "heap \<Rightarrow> tvalue \<Rightarrow> tvalue \<Rightarrow> object res \<Rightarrow> (unit, heap) run" where
  "install_mapping h ns mapping otherwise = run_then (write_barrier h ns mapping) (\<lambda>_ h1.
     with_object h1 ns (\<lambda>ob. case ob of
         ObjNamespace c \<Rightarrow> Ok ((), ObjNamespace (c\<lparr>cls_namespace_mapping := Some mapping\<rparr>))
       | _ \<Rightarrow> and_then otherwise (\<lambda>ob. Ok ((), ob))))"

definition namespace_mapping :: "numeric_library \<Rightarrow> hash_library \<Rightarrow> heap \<Rightarrow> tvalue \<Rightarrow> (tvalue, heap) run" where
  "namespace_mapping lib hl h ns = run_then (heap_namespace h ns, h) (\<lambda>c h1.
     case cls_namespace_mapping c of
       Some mapping \<Rightarrow> (Ok mapping, h1)
     | None \<Rightarrow> run_then (alloc h1 (ObjDict dict_default)) (\<lambda>mapping h2.
         run_then (store_attributes lib hl h2 mapping (cls_attributes c)) (\<lambda>_ h3.
         run_then (install_mapping h3 ns mapping Panic) (\<lambda>_ h4. (Ok mapping, h4)))))"

definition namespace_backing_mapping :: "heap \<Rightarrow> tvalue \<Rightarrow> tvalue option res" where
  "namespace_backing_mapping h ns = and_then (heap_namespace h ns) (\<lambda>c. Ok (cls_namespace_mapping c))"

definition not_a_dict_namespace :: "'a res" where
  "not_a_dict_namespace = fail ''TypeError'' ''type.__new__() argument 3 must be a dict''"

definition namespace_use_mapping :: "heap \<Rightarrow> tvalue \<Rightarrow> tvalue \<Rightarrow> (unit, heap) run" where
  "namespace_use_mapping h ns mapping =
     run_then (and_then (heap_get h mapping) (\<lambda>ob. if is_dict_object ob then Ok () else not_a_dict_namespace), h)
       (\<lambda>_ h1. install_mapping h1 ns mapping missing_namespace)"

section \<open>Completion\<close>

definition class_entry :: "heap \<Rightarrow> tvalue \<times> tvalue \<Rightarrow> class_object \<Rightarrow> class_object" where
  "class_entry h p c = (case try_get h (fst p) of
       Some (ObjStr name) \<Rightarrow> c\<lparr>cls_attributes := cls_attributes c @ [(name, snd p)],
         cls_dictionary_order := cls_dictionary_order c @ [DictKeyString name]\<rparr>
     | _ \<Rightarrow> c\<lparr>cls_extra_attributes := cls_extra_attributes c @ [p],
         cls_dictionary_order := cls_dictionary_order c @ [DictKeyOther (fst p)]\<rparr>)"

definition class_from_entries :: "heap \<Rightarrow> (tvalue \<times> tvalue) list \<Rightarrow> class_object \<Rightarrow> class_object" where
  "class_from_entries h entries c = fold (class_entry h) entries
     (c\<lparr>cls_attributes := [], cls_extra_attributes := [], cls_dictionary_order := [], cls_namespace_mapping := None\<rparr>)"

definition invalid_completion :: "'a res" where
  "invalid_completion = fail ''BytecodeError'' ''invalid class completion''"

definition completed_namespace :: "heap \<Rightarrow> tvalue \<Rightarrow> class_object res" where
  "completed_namespace h ns = and_then (heap_get h ns) (\<lambda>ob. case ob of ObjNamespace c \<Rightarrow> Ok c | _ \<Rightarrow> invalid_completion)"

definition take_mapping :: "heap \<Rightarrow> tvalue \<Rightarrow> (unit, heap) run" where
  "take_mapping h ns = run_then (completed_namespace h ns, h) (\<lambda>c h1. case cls_namespace_mapping c of
       None \<Rightarrow> (Ok (), h1)
     | Some mapping \<Rightarrow>
         run_then (and_then (heap_get h1 mapping) (\<lambda>ob. if is_dict_object ob then Ok () else not_a_dict_namespace), h1) (\<lambda>_ h2.
         run_then (heap_dict_entries h2 mapping, h2) (\<lambda>entries h3.
         run_then (write_barriers h3 ns (concat (map (\<lambda>(k, v). [k, v]) entries))) (\<lambda>_ h4.
         with_object h4 ns (\<lambda>ob. case ob of
             ObjNamespace c \<Rightarrow> Ok ((), ObjNamespace (class_from_entries h4 entries c)) | _ \<Rightarrow> Panic)))))"

definition is_function :: "heap \<Rightarrow> tvalue \<Rightarrow> bool" where
  "is_function h v = (case try_get h v of Some (ObjFunction _) \<Rightarrow> True | _ \<Rightarrow> False)"

definition wrap_new :: "numeric_library \<Rightarrow> hash_library \<Rightarrow> heap \<Rightarrow> tvalue \<Rightarrow> (unit, heap) run" where
  "wrap_new lib hl h ns = run_then (namespace_get hl h ns ''__new__'', h) (\<lambda>found h1. case found of
       Some f \<Rightarrow> if is_function h1 f
         then run_then (alloc h1 (ObjStaticMethod f)) (\<lambda>wrapper h2. namespace_set lib hl h2 ns ''__new__'' wrapper)
         else (Ok (), h1)
     | None \<Rightarrow> (Ok (), h1))"

definition default_hash :: "numeric_library \<Rightarrow> hash_library \<Rightarrow> heap \<Rightarrow> tvalue \<Rightarrow> (unit, heap) run" where
  "default_hash lib hl h ns = run_then (namespace_get hl h ns ''__eq__'', h) (\<lambda>eq h1.
     if eq = None then (Ok (), h1)
     else run_then (namespace_get hl h1 ns ''__hash__'', h1) (\<lambda>hash h2.
     if hash \<noteq> None then (Ok (), h2) else namespace_set lib hl h2 ns ''__hash__'' NONE))"

fun check_hooks :: "(string \<times> tvalue) list \<Rightarrow> unit res" where
  "check_hooks [] = Ok ()"
| "check_hooks ((name, _) # rest) = and_then (unsupported_hook name) (\<lambda>_. check_hooks rest)"

definition check_qualname :: "heap \<Rightarrow> class_object \<Rightarrow> unit res" where
  "check_qualname h c = (case map_of (cls_attributes c) ''__qualname__'' of
       None \<Rightarrow> Ok ()
     | Some v \<Rightarrow> (case try_get h v of Some (ObjStr _) \<Rightarrow> Ok ()
         | _ \<Rightarrow> fail ''TypeError'' ''__qualname__ must be a string''))"

text \<open>The lineage of every base, in order: the base and its ancestors.\<close>

fun base_lineages :: "heap \<Rightarrow> tvalue list \<Rightarrow> tvalue list \<Rightarrow> tvalue list list res" where
  "base_lineages h seen [] = Ok []"
| "base_lineages h seen (base # bases) =
     (if base \<in> set seen then fail ''TypeError'' ''duplicate base class''
      else and_then (heap_class h base) (\<lambda>k.
        and_then (base_lineages h (seen @ [base]) bases) (\<lambda>rest. Ok ((base # cls_mro k) # rest))))"

definition resolution_order :: "heap \<Rightarrow> class_object \<Rightarrow> tvalue list res" where
  "resolution_order h c = and_then (check_hooks (cls_attributes c)) (\<lambda>_.
     and_then (check_qualname h c) (\<lambda>_.
     and_then (base_lineages h [] (cls_bases c)) (\<lambda>lineages. mro_merge (lineages @ [cls_bases c]))))"

fun add_dependents :: "heap \<Rightarrow> tvalue \<Rightarrow> tvalue list \<Rightarrow> (unit, heap) run" where
  "add_dependents h c [] = (Ok (), h)"
| "add_dependents h c (ancestor # rest) = run_then (with_object h ancestor (\<lambda>ob. case ob of
       ObjClass k \<Rightarrow> Ok ((), ObjClass (k\<lparr>cls_dependents := cls_dependents k @ [c]\<rparr>)) | _ \<Rightarrow> Panic))
     (\<lambda>_ h1. add_dependents h1 c rest)"

definition complete_class :: "heap \<Rightarrow> tvalue \<Rightarrow> tvalue list \<Rightarrow> (unit, heap) run" where
  "complete_class h ns mro =
     (let n = next_type h + 1 in
      if 2 ^ 32 \<le> n then (fail ''ResourceError'' ''type identity space exhausted'', h)
      else run_then (with_object (h\<lparr>next_type := n\<rparr>) ns (\<lambda>ob. case ob of
           ObjNamespace c \<Rightarrow> Ok ((), ObjClass (c\<lparr>cls_id := n, cls_version := 1, cls_mro := mro\<rparr>)) | _ \<Rightarrow> Panic))
         (\<lambda>_ h1. add_dependents h1 ns mro))"

definition finish_class :: "numeric_library \<Rightarrow> hash_library \<Rightarrow> heap \<Rightarrow> tvalue \<Rightarrow> (unit, heap) run" where
  "finish_class lib hl h ns =
     run_then (take_mapping h ns) (\<lambda>_ h1.
     run_then (wrap_new lib hl h1 ns) (\<lambda>_ h2.
     run_then (default_hash lib hl h2 ns) (\<lambda>_ h3.
     run_then (and_then (completed_namespace h3 ns) (resolution_order h3), h3) (\<lambda>mro h4.
     complete_class h4 ns mro))))"

section \<open>Metaclasses and subclasses\<close>

definition class_is_subclass :: "heap \<Rightarrow> tvalue \<Rightarrow> tvalue \<Rightarrow> bool res" where
  "class_is_subclass h c target = and_then (heap_class h c) (\<lambda>k.
     and_then (heap_class h target) (\<lambda>t. Ok (cls_id k = cls_id t \<or> target \<in> set (cls_mro k))))"

definition base_metaclass :: "heap \<Rightarrow> tvalue \<Rightarrow> tvalue \<Rightarrow> tvalue" where
  "base_metaclass h fallback base = (case try_get h base of
       Some (ObjClass k) \<Rightarrow> if cls_metaclass k \<noteq> UNBOUND then cls_metaclass k else fallback
     | _ \<Rightarrow> fallback)"

fun most_derived :: "heap \<Rightarrow> tvalue \<Rightarrow> tvalue \<Rightarrow> tvalue list \<Rightarrow> tvalue res" where
  "most_derived h fallback candidate [] = Ok candidate"
| "most_derived h fallback candidate (base # bases) = (let m = base_metaclass h fallback base in
     and_then (class_is_subclass h candidate m) (\<lambda>below. if below then most_derived h fallback candidate bases
     else and_then (class_is_subclass h m candidate) (\<lambda>above. if above then most_derived h fallback m bases
     else fail ''TypeError'' ''metaclass conflict: derived class requires a common metaclass subclass'')))"

definition select_metaclass :: "heap \<Rightarrow> tvalue option \<Rightarrow> tvalue list \<Rightarrow> tvalue \<Rightarrow> tvalue res" where
  "select_metaclass h explicit bases fallback = and_then (heap_class h fallback) (\<lambda>_.
     and_then (case explicit of
         Some m \<Rightarrow> and_then (class_is_subclass h m fallback) (\<lambda>ok. if ok then Ok m
           else fail ''TypeError'' ''metaclass must derive from type'')
       | None \<Rightarrow> (case bases of base # _ \<Rightarrow> Ok (base_metaclass h fallback base) | [] \<Rightarrow> Ok fallback)) (\<lambda>candidate.
     most_derived h fallback candidate bases))"

fun hook_before :: "heap \<Rightarrow> tvalue \<Rightarrow> string \<Rightarrow> tvalue list \<Rightarrow> bool res" where
  "hook_before h stop name [] = Ok False"
| "hook_before h stop name (owner # rest) = (if owner = stop then Ok False
     else and_then (heap_class h owner) (\<lambda>k. if map_of (cls_attributes k) name \<noteq> None then Ok True
       else hook_before h stop name rest))"

definition has_custom_metaclass_hook :: "heap \<Rightarrow> tvalue \<Rightarrow> tvalue \<Rightarrow> string \<Rightarrow> bool res" where
  "has_custom_metaclass_hook h metaclass fallback name = and_then (heap_class h metaclass) (\<lambda>k.
     hook_before h fallback name (metaclass # cls_mro k))"

definition set_class_metaclass :: "heap \<Rightarrow> tvalue \<Rightarrow> tvalue \<Rightarrow> (unit, heap) run" where
  "set_class_metaclass h c metaclass = run_then (heap_class h metaclass, h) (\<lambda>_ h1.
     run_then (write_barrier h1 c metaclass) (\<lambda>_ h2.
     with_object h2 c (\<lambda>ob. case ob of
         ObjClass k \<Rightarrow> Ok ((), ObjClass (k\<lparr>cls_metaclass := metaclass\<rparr>))
       | _ \<Rightarrow> fail ''TypeError'' ''expected a Tonic class'')))"

section \<open>Binding descriptors\<close>

datatype descriptor_access =
    AccessValue tvalue
  | AccessCall tvalue "tvalue option" "tvalue list" nat

definition call_access :: "descriptor_call \<Rightarrow> tvalue list \<Rightarrow> nat \<Rightarrow> descriptor_access" where
  "call_access call args n = AccessCall (dc_callable call) (dc_receiver call) args n"

definition getter_access :: "tvalue \<Rightarrow> tvalue \<Rightarrow> descriptor_access" where
  "getter_access getter receiver = AccessCall getter (Some receiver) [UNBOUND, UNBOUND, UNBOUND] 0"

text \<open>The class of a value that has one, and the class attribute of that name.\<close>

definition class_of_value :: "heap \<Rightarrow> tvalue \<Rightarrow> tvalue option" where
  "class_of_value h v = Option.bind (try_get h v) instance_class"

definition instance_descriptor :: "heap \<Rightarrow> tvalue \<Rightarrow> string \<Rightarrow> tvalue option res" where
  "instance_descriptor h owner name = (case class_of_value h owner of
     None \<Rightarrow> Ok None | Some c \<Rightarrow> class_lookup h c name)"

definition metaclass_of :: "heap \<Rightarrow> tvalue \<Rightarrow> tvalue option" where
  "metaclass_of h owner = (case try_get h owner of
     Some (ObjClass k) \<Rightarrow> if cls_metaclass k \<noteq> UNBOUND then Some (cls_metaclass k) else None | _ \<Rightarrow> None)"

definition metaclass_descriptor :: "heap \<Rightarrow> tvalue \<Rightarrow> string \<Rightarrow> tvalue option res" where
  "metaclass_descriptor h owner name = (case metaclass_of h owner of
     None \<Rightarrow> Ok None | Some m \<Rightarrow> class_lookup h m name)"

definition is_class_object :: "heap \<Rightarrow> tvalue \<Rightarrow> bool" where
  "is_class_object h v = (case try_get h v of Some (ObjClass _) \<Rightarrow> True | _ \<Rightarrow> False)"

definition class_getitem_call :: "heap \<Rightarrow> tvalue \<Rightarrow> descriptor_call option res" where
  "class_getitem_call h c = (if \<not> is_class_object h c then Ok None
     else and_then (class_lookup h c ''__class_getitem__'') (\<lambda>found.
       Ok (map_option (\<lambda>f. descriptor_callable h f c c) found)))"

definition metaclass_method_call :: "heap \<Rightarrow> tvalue \<Rightarrow> string \<Rightarrow> descriptor_call option res" where
  "metaclass_method_call h c name = and_then (heap_class h c) (\<lambda>k.
     if cls_metaclass k = UNBOUND then Ok None
     else and_then (class_lookup h (cls_metaclass k) name) (\<lambda>found.
       Ok (map_option (\<lambda>f. descriptor_callable h f c (cls_metaclass k)) found)))"

definition is_default_attribute_method :: "heap \<Rightarrow> tvalue \<Rightarrow> builtin \<Rightarrow> bool" where
  "is_default_attribute_method h v expected = (case try_get h v of Some (ObjBuiltin b) \<Rightarrow> b = expected | _ \<Rightarrow> False)"

definition custom_attribute_method :: "heap \<Rightarrow> tvalue \<Rightarrow> string \<Rightarrow> builtin \<Rightarrow> descriptor_call option res" where
  "custom_attribute_method h owner name expected =
     and_then (if is_class_object h owner then metaclass_method_call h owner name else special_method_call h owner name)
       (\<lambda>call. Ok (case call of None \<Rightarrow> None
          | Some c \<Rightarrow> if dc_receiver c = Some owner \<and> is_default_attribute_method h (dc_callable c) expected
              then None else Some c))"

definition has_custom_getattribute :: "heap \<Rightarrow> tvalue \<Rightarrow> bool" where
  "has_custom_getattribute h owner = (case custom_attribute_method h owner ''__getattribute__''
       (if is_class_object h owner then BTypeGetAttribute else BObjectGetAttribute) of
     Ok (Some _) \<Rightarrow> True | _ \<Rightarrow> False)"

definition bound_builtins :: "builtin set" where
  "bound_builtins = method_builtins - {BTypeOr, BTypeRor, BObjectHash, BIntHash, BFloatHash, BStrHash, BTupleHash, BRangeHash}"

definition bind_descriptor :: "heap \<Rightarrow> tvalue \<Rightarrow> tvalue option \<Rightarrow> tvalue \<Rightarrow> (tvalue, heap) run" where
  "bind_descriptor h v inst owner_class = (case try_get h v of
       Some (ObjStaticMethod f) \<Rightarrow> (Ok f, h)
     | Some (ObjClassMethod f) \<Rightarrow> alloc h (ObjBoundMethod f owner_class)
     | Some (ObjFunction _) \<Rightarrow> (case inst of Some i \<Rightarrow> alloc h (ObjBoundMethod v i) | None \<Rightarrow> (Ok v, h))
     | Some (ObjBuiltin b) \<Rightarrow> (case inst of
           Some i \<Rightarrow> if b \<in> bound_builtins then alloc h (ObjBoundMethod v i) else (Ok v, h)
         | None \<Rightarrow> (Ok v, h))
     | _ \<Rightarrow> (Ok v, h))"

section \<open>Super\<close>

definition super_owner :: "heap \<Rightarrow> tvalue \<Rightarrow> tvalue option" where
  "super_owner h receiver = (case class_of_value h receiver of Some c \<Rightarrow> Some c
     | None \<Rightarrow> if is_class_object h receiver then Some receiver else None)"

definition super_value :: "heap \<Rightarrow> tvalue \<Rightarrow> tvalue \<Rightarrow> (tvalue, heap) run" where
  "super_value h start receiver =
     run_then (case heap_class h start of Ok _ \<Rightarrow> Ok () | Err _ \<Rightarrow> fail ''TypeError'' ''super() argument 1 must be a Tonic class''
       | Panic \<Rightarrow> Panic | Diverge \<Rightarrow> Diverge, h) (\<lambda>_ h1.
     run_then (ok_or (super_owner h1 receiver)
       (diag_new ''TypeError'' ''super() argument 2 must be an instance or subclass''), h1) (\<lambda>owner h2.
     run_then (heap_class h2 owner, h2) (\<lambda>k h3.
     if owner \<noteq> start \<and> start \<notin> set (cls_mro k)
     then (fail ''TypeError'' ''super() argument 2 is not an instance or subclass of argument 1'', h3)
     else alloc h3 (ObjSuper start receiver))))"

text \<open>The descriptor protocol of a value found on a class: its class' \<open>__get__\<close>, if there is one.\<close>

definition getter_of :: "heap \<Rightarrow> tvalue \<Rightarrow> tvalue list \<Rightarrow> descriptor_access option res" where
  "getter_of h descriptor args = (case class_of_value h descriptor of
       None \<Rightarrow> Ok None
     | Some c \<Rightarrow> and_then (class_lookup h c ''__get__'') (\<lambda>found.
         Ok (map_option (\<lambda>g. call_access (descriptor_callable h g descriptor c) args 2) found)))"

definition super_getter :: "heap \<Rightarrow> tvalue \<Rightarrow> string \<Rightarrow> (descriptor_access option, heap) run" where
  "super_getter h owner name = (case try_get h owner of
       Some (ObjSuper start receiver) \<Rightarrow>
         run_then (and_then (heap_get h receiver) (\<lambda>ob. case instance_class ob of
             Some c \<Rightarrow> Ok (c, Some receiver)
           | None \<Rightarrow> (case ob of ObjClass _ \<Rightarrow> Ok (receiver, None) | _ \<Rightarrow> fail ''TypeError'' ''invalid super receiver'')), h)
         (\<lambda>(owner_class, inst) h1.
         if name = ''__self__'' then (Ok (Some (AccessValue receiver)), h1)
         else if name = ''__thisclass__'' then (Ok (Some (AccessValue start)), h1)
         else if name = ''__self_class__'' then (Ok (Some (AccessValue owner_class)), h1)
         else run_then (heap_class h1 owner_class, h1) (\<lambda>k h2.
           let lineage = owner_class # cls_mro k in
           run_then (ok_or (position (\<lambda>c. c = start) lineage) (diag_new ''TypeError'' ''invalid super search class''), h2) (\<lambda>i h3.
           run_then (and_then (lookup_in h3 name (drop (i + 1) lineage)) (\<lambda>x. ok_or x (missing_attribute name)), h3) (\<lambda>descriptor h4.
           case try_get h4 descriptor of
             Some (ObjProperty getter _ _) \<Rightarrow> (case inst of
                 Some i \<Rightarrow> (and_then (ok_or getter (missing_attribute name)) (\<lambda>g. Ok (Some (getter_access g i))), h4)
               | None \<Rightarrow> (Ok (Some (AccessValue descriptor)), h4))
           | _ \<Rightarrow> run_then (getter_of h4 descriptor [case inst of Some i \<Rightarrow> i | None \<Rightarrow> NONE, owner_class, UNBOUND], h4)
               (\<lambda>access h5. case access of
                   Some a \<Rightarrow> (Ok (Some a), h5)
                 | None \<Rightarrow> run_then (bind_descriptor h5 descriptor inst owner_class) (\<lambda>v h6.
                     (Ok (Some (AccessValue v)), h6)))))))
     | _ \<Rightarrow> (Ok None, h))"

section \<open>Properties and descriptors\<close>

definition instance_alloc :: "heap \<Rightarrow> tvalue \<Rightarrow> (tvalue, heap) run" where
  "instance_alloc h c = run_then (heap_class h c, h) (\<lambda>_ h1. alloc h1 (ObjInstance c attributes_default None))"

definition no_setter :: "string \<Rightarrow> diagnostic" where
  "no_setter name = diag_new ''AttributeError'' (''property '' @ in_quotes name @ '' has no setter'')"

definition no_deleter :: "string \<Rightarrow> diagnostic" where
  "no_deleter name = diag_new ''AttributeError'' (''property '' @ in_quotes name @ '' has no deleter'')"

definition property_getter :: "heap \<Rightarrow> tvalue \<Rightarrow> string \<Rightarrow> tvalue option res" where
  "property_getter h owner name = and_then (instance_descriptor h owner name) (\<lambda>found.
     case Option.bind found (try_get h) of
       Some (ObjProperty getter _ _) \<Rightarrow> and_then (ok_or getter (missing_attribute name)) (\<lambda>f. Ok (Some f))
     | _ \<Rightarrow> Ok None)"

definition property_setter :: "heap \<Rightarrow> tvalue \<Rightarrow> string \<Rightarrow> tvalue option res" where
  "property_setter h owner name = and_then (instance_descriptor h owner name) (\<lambda>found.
     case Option.bind found (try_get h) of
       Some (ObjProperty _ setter _) \<Rightarrow> and_then (ok_or setter (no_setter name)) (\<lambda>f. Ok (Some f))
     | _ \<Rightarrow> Ok None)"

definition property_deleter :: "heap \<Rightarrow> tvalue \<Rightarrow> string \<Rightarrow> tvalue option res" where
  "property_deleter h owner name = and_then (instance_descriptor h owner name) (\<lambda>found.
     case Option.bind found (try_get h) of
       Some (ObjProperty _ _ deleter) \<Rightarrow> and_then (ok_or deleter (no_deleter name)) (\<lambda>f. Ok (Some f))
     | _ \<Rightarrow> Ok None)"

definition metaclass_property_setter :: "heap \<Rightarrow> tvalue \<Rightarrow> string \<Rightarrow> tvalue option res" where
  "metaclass_property_setter h owner name = and_then (metaclass_descriptor h owner name) (\<lambda>found.
     case Option.bind found (try_get h) of
       Some (ObjProperty _ setter _) \<Rightarrow> and_then (ok_or setter (no_setter name)) (\<lambda>f. Ok (Some f))
     | _ \<Rightarrow> Ok None)"

definition metaclass_property_deleter :: "heap \<Rightarrow> tvalue \<Rightarrow> string \<Rightarrow> tvalue option res" where
  "metaclass_property_deleter h owner name = and_then (metaclass_descriptor h owner name) (\<lambda>found.
     case Option.bind found (try_get h) of
       Some (ObjProperty _ _ deleter) \<Rightarrow> and_then (ok_or deleter (no_deleter name)) (\<lambda>f. Ok (Some f))
     | _ \<Rightarrow> Ok None)"

text \<open>\<open>hook\<close> is the method that is wanted of the class of a descriptor, \<open>other\<close> the one whose presence
  alone is an error.\<close>

definition descriptor_hook :: "heap \<Rightarrow> tvalue option \<Rightarrow> string \<Rightarrow> string \<Rightarrow> descriptor_call option res" where
  "descriptor_hook h found hook other = (case found of None \<Rightarrow> Ok None
     | Some descriptor \<Rightarrow> (case class_of_value h descriptor of None \<Rightarrow> Ok None
       | Some c \<Rightarrow> and_then (class_lookup h c hook) (\<lambda>f. case f of
           Some f \<Rightarrow> Ok (Some (descriptor_callable h f descriptor c))
         | None \<Rightarrow> and_then (class_lookup h c other) (\<lambda>g.
             if g \<noteq> None then fail ''AttributeError'' hook else Ok None))))"

definition descriptor_setter :: "heap \<Rightarrow> tvalue \<Rightarrow> string \<Rightarrow> descriptor_call option res" where
  "descriptor_setter h owner name = and_then (instance_descriptor h owner name) (\<lambda>found.
     descriptor_hook h found ''__set__'' ''__delete__'')"

definition descriptor_deleter :: "heap \<Rightarrow> tvalue \<Rightarrow> string \<Rightarrow> descriptor_call option res" where
  "descriptor_deleter h owner name = and_then (instance_descriptor h owner name) (\<lambda>found.
     descriptor_hook h found ''__delete__'' ''__set__'')"

definition metaclass_descriptor_setter :: "heap \<Rightarrow> tvalue \<Rightarrow> string \<Rightarrow> descriptor_call option res" where
  "metaclass_descriptor_setter h owner name = and_then (metaclass_descriptor h owner name) (\<lambda>found.
     descriptor_hook h found ''__set__'' ''__delete__'')"

definition metaclass_descriptor_deleter :: "heap \<Rightarrow> tvalue \<Rightarrow> string \<Rightarrow> descriptor_call option res" where
  "metaclass_descriptor_deleter h owner name = and_then (metaclass_descriptor h owner name) (\<lambda>found.
     descriptor_hook h found ''__delete__'' ''__set__'')"

definition descriptor_getter :: "heap \<Rightarrow> tvalue \<Rightarrow> string \<Rightarrow> descriptor_access option res" where
  "descriptor_getter h owner name =
     (let through = (\<lambda>descriptor inst owner_class has_value. case class_of_value h descriptor of None \<Rightarrow> Ok None
        | Some c \<Rightarrow> and_then (class_lookup h c ''__set__'') (\<lambda>setter.
            and_then (class_lookup h c ''__delete__'') (\<lambda>deleter.
            if has_value \<and> setter = None \<and> deleter = None then Ok None
            else and_then (class_lookup h c ''__get__'') (\<lambda>getter. case getter of
                None \<Rightarrow> Ok (if setter \<noteq> None \<or> deleter \<noteq> None then Some (AccessValue descriptor) else None)
              | Some g \<Rightarrow> Ok (Some (call_access (descriptor_callable h g descriptor c) [inst, owner_class, UNBOUND] 2)))))) in
      case try_get h owner of None \<Rightarrow> Ok None
      | Some ob \<Rightarrow> (case instance_parts ob of
          Some (c, attributes) \<Rightarrow> and_then (class_lookup h c name) (\<lambda>found. case found of None \<Rightarrow> Ok None
            | Some descriptor \<Rightarrow> and_then (attributes_get (heap_shapes h) attributes name) (\<lambda>v.
                through descriptor owner c (v \<noteq> None)))
        | None \<Rightarrow> (case ob of ObjClass _ \<Rightarrow> and_then (class_lookup h owner name) (\<lambda>found. case found of None \<Rightarrow> Ok None
            | Some descriptor \<Rightarrow> through descriptor NONE owner False)
          | _ \<Rightarrow> Ok None)))"

definition bound_access :: "heap \<Rightarrow> tvalue \<Rightarrow> tvalue \<Rightarrow> tvalue \<Rightarrow> (descriptor_access option, heap) run" where
  "bound_access h descriptor owner owner_class =
     run_then (bind_descriptor h descriptor (Some owner) owner_class) (\<lambda>v h1. (Ok (Some (AccessValue v)), h1))"

definition metaclass_getter :: "heap \<Rightarrow> tvalue \<Rightarrow> string \<Rightarrow> bool \<Rightarrow> (descriptor_access option, heap) run" where
  "metaclass_getter h owner name data_only = (case metaclass_of h owner of None \<Rightarrow> (Ok None, h)
     | Some metaclass \<Rightarrow> run_then (class_lookup h metaclass name, h) (\<lambda>found h1. case found of None \<Rightarrow> (Ok None, h1)
       | Some descriptor \<Rightarrow> (case try_get h1 descriptor of
           Some (ObjProperty getter _ _) \<Rightarrow>
             (and_then (ok_or getter (missing_attribute name)) (\<lambda>g. Ok (Some (getter_access g owner))), h1)
         | _ \<Rightarrow>
             let otherwise = (\<lambda>h2. if data_only then (Ok None, h2) else bound_access h2 descriptor owner metaclass) in
             (case class_of_value h1 descriptor of None \<Rightarrow> otherwise h1
              | Some c \<Rightarrow> run_then (class_lookup h1 c ''__set__'', h1) (\<lambda>setter h2.
                  run_then (class_lookup h2 c ''__delete__'', h2) (\<lambda>deleter h3.
                  let data = setter \<noteq> None \<or> deleter \<noteq> None in
                  if data_only \<and> \<not> data then (Ok None, h3)
                  else run_then (class_lookup h3 c ''__get__'', h3) (\<lambda>getter h4. case getter of
                      Some g \<Rightarrow> (Ok (Some (call_access (descriptor_callable h4 g descriptor c) [owner, metaclass, UNBOUND] 2)), h4)
                    | None \<Rightarrow> if data then (Ok (Some (AccessValue descriptor)), h4) else otherwise h4)))))))"

definition native_attribute_getter :: "heap \<Rightarrow> tvalue \<Rightarrow> tvalue \<Rightarrow> string \<Rightarrow> (descriptor_access option, heap) run" where
  "native_attribute_getter h owner owner_class name =
     run_then (class_lookup h owner_class name, h) (\<lambda>found h1. case found of None \<Rightarrow> (Ok None, h1)
       | Some descriptor \<Rightarrow> (case try_get h1 descriptor of
           Some (ObjProperty getter _ _) \<Rightarrow>
             (and_then (ok_or getter (missing_attribute name)) (\<lambda>g. Ok (Some (getter_access g owner))), h1)
         | _ \<Rightarrow> run_then (getter_of h1 descriptor [owner, owner_class, UNBOUND], h1) (\<lambda>access h2. case access of
             Some a \<Rightarrow> (Ok (Some a), h2) | None \<Rightarrow> bound_access h2 descriptor owner owner_class)))"

fun set_name_calls :: "heap \<Rightarrow> (string \<times> tvalue) list \<Rightarrow> ((descriptor_call \<times> tvalue) list, heap) run" where
  "set_name_calls h [] = (Ok [], h)"
| "set_name_calls h ((name, descriptor) # rest) = (case class_of_value h descriptor of
       None \<Rightarrow> set_name_calls h rest
     | Some c \<Rightarrow> run_then (class_lookup h c ''__set_name__'', h) (\<lambda>found h1. case found of
         None \<Rightarrow> set_name_calls h1 rest
       | Some f \<Rightarrow> run_then (alloc h1 (ObjStr name)) (\<lambda>v h2.
           run_then (set_name_calls h2 rest) (\<lambda>calls h3.
           (Ok ((descriptor_callable h1 f descriptor c, v) # calls), h3)))))"

definition descriptor_set_names :: "heap \<Rightarrow> tvalue \<Rightarrow> ((descriptor_call \<times> tvalue) list, heap) run" where
  "descriptor_set_names h owner = run_then (heap_class h owner, h) (\<lambda>k h1. set_name_calls h1 (cls_attributes k))"

section \<open>Reading an attribute\<close>

text \<open>The function behind a function or a bound method: \<open>None\<close> for other objects.\<close>

definition function_behind :: "heap \<Rightarrow> tvalue \<Rightarrow> tvalue option" where
  "function_behind h owner = (case try_get h owner of
     Some (ObjFunction _) \<Rightarrow> Some owner | Some (ObjBoundMethod f _) \<Rightarrow> Some f | _ \<Rightarrow> None)"

definition set_annotations :: "tvalue option \<Rightarrow> bool \<Rightarrow> function_object \<Rightarrow> function_object" where
  "set_annotations x forget f = (if forget then f\<lparr>fun_annotations := x, fun_annotation_plan := None\<rparr>
     else f\<lparr>fun_annotations := x\<rparr>)"

text \<open>A slot of a function that is filled on its first reading. \<open>get_mut\<close> of a checked function.\<close>

definition function_slot :: "heap \<Rightarrow> tvalue \<Rightarrow> (function_object \<Rightarrow> tvalue option) \<Rightarrow>
    (tvalue option \<Rightarrow> function_object \<Rightarrow> function_object) \<Rightarrow> object \<Rightarrow> (tvalue, heap) run" where
  "function_slot h f read write initial = run_then (heap_get h f, h) (\<lambda>ob h1.
     case (case ob of ObjFunction k \<Rightarrow> read k | _ \<Rightarrow> None) of
       Some v \<Rightarrow> (Ok v, h1)
     | None \<Rightarrow> run_then (alloc h1 initial) (\<lambda>v h2.
         run_then (write_barrier h2 f v) (\<lambda>_ h3.
         run_then (with_object h3 f (\<lambda>ob. case ob of
             ObjFunction k \<Rightarrow> Ok ((), ObjFunction (write (Some v) k)) | _ \<Rightarrow> Panic)) (\<lambda>_ h4. (Ok v, h4)))))"

definition class_attribute :: "heap \<Rightarrow> tvalue \<Rightarrow> tvalue \<Rightarrow> tvalue option \<Rightarrow> string \<Rightarrow> (tvalue, heap) run" where
  "class_attribute h c owner_class inst name =
     run_then (and_then (class_lookup h c name) (\<lambda>x. ok_or x (missing_attribute name)), h) (\<lambda>v h1.
     bind_descriptor h1 v inst owner_class)"

definition slot_attribute :: "heap \<Rightarrow> tvalue \<Rightarrow> tvalue \<Rightarrow> attributes \<Rightarrow> string \<Rightarrow> (tvalue, heap) run" where
  "slot_attribute h owner c attributes name =
     run_then (attributes_get (heap_shapes h) attributes name, h) (\<lambda>found h1. case found of
       Some v \<Rightarrow> (Ok v, h1) | None \<Rightarrow> class_attribute h1 c c (Some owner) name)"

definition callable_args :: "heap \<Rightarrow> tvalue \<Rightarrow> (tvalue, heap) run" where
  "callable_args h args =
     run_then (and_then (heap_get h args) (\<lambda>ob. case ob of
         ObjTuple [parameters, result] \<Rightarrow>
           and_then (if parameters = ELLIPSIS then Ok [ELLIPSIS]
             else and_then (heap_get h parameters) (\<lambda>ob. case ob of
               ObjList vs \<Rightarrow> Ok vs | ObjTuple vs \<Rightarrow> Ok vs
             | _ \<Rightarrow> fail ''TypeError'' ''invalid Callable parameters'')) (\<lambda>vs. Ok (vs @ [result]))
       | _ \<Rightarrow> fail ''TypeError'' ''invalid Callable arguments''), h) (\<lambda>vs h1. alloc h1 (ObjTuple vs))"

definition is_callable_form :: "heap \<Rightarrow> tvalue \<Rightarrow> bool" where
  "is_callable_form h v = (case try_get h v of Some (ObjTypingForm _ FormCallable) \<Rightarrow> True | _ \<Rightarrow> False)"

definition is_type_alias :: "heap \<Rightarrow> tvalue \<Rightarrow> bool" where
  "is_type_alias h v = (case try_get h v of Some (ObjTypeAlias _ _ _ _) \<Rightarrow> True | _ \<Rightarrow> False)"

definition exception_attribute :: "heap \<Rightarrow> tvalue \<Rightarrow> exception_object \<Rightarrow> string \<Rightarrow> (tvalue, heap) run" where
  "exception_attribute h owner e name =
     (if name = ''__class__'' then (Ok (exc_class e), h)
      else if name = ''__cause__'' then (Ok (case exc_cause e of Some v \<Rightarrow> v | None \<Rightarrow> NONE), h)
      else if name = ''__context__'' then (Ok (case exc_context e of Some v \<Rightarrow> v | None \<Rightarrow> NONE), h)
      else if name = ''__suppress_context__'' then (Ok (value_bool (exc_suppress_context e)), h)
      else if name = ''__traceback__'' then (Ok (case exc_traceback e of Some v \<Rightarrow> v | None \<Rightarrow> NONE), h)
      else if name = ''args'' then alloc h (ObjTuple (exc_arguments e))
      else if name = ''value'' \<and> exc_stop_iteration_value e \<noteq> None then (Ok (the (exc_stop_iteration_value e)), h)
      else if name = ''__dict__'' then (fail ''UnsupportedFeature'' ''exception __dict__ view is not implemented'', h)
      else slot_attribute h owner (exc_class e) (exc_attributes e) name)"

definition class_object_attribute :: "heap \<Rightarrow> tvalue \<Rightarrow> class_object \<Rightarrow> string \<Rightarrow> (tvalue, heap) run" where
  "class_object_attribute h owner k name =
     (if name = ''__class__'' \<and> cls_metaclass k \<noteq> UNBOUND then (Ok (cls_metaclass k), h)
      else if name = ''__name__'' then alloc h (ObjStr (cls_name k))
      else if name = ''__bases__'' then alloc h (ObjTuple (cls_bases k))
      else if name = ''__mro__'' then alloc h (ObjTuple (owner # cls_mro k))
      else if name = ''__dict__'' then alloc h (ObjMappingProxy owner)
      else class_attribute h owner owner None name)"

text \<open>The runtime objects whose attributes are those of their class.\<close>

definition instance_attribute_class :: "object \<Rightarrow> tvalue option" where
  "instance_attribute_class ob = (case ob of
      ObjGenerator g \<Rightarrow> Some (gen_class g)
    | ObjCoroutineIterator c _ \<Rightarrow> Some c
    | ObjAsyncGeneratorAwaitable c _ _ _ \<Rightarrow> Some c
    | ObjAsyncFuture f \<Rightarrow> Some (fut_class f)
    | ObjAsyncTask t \<Rightarrow> Some (task_class t)
    | ObjAsyncFutureIterator c _ \<Rightarrow> Some c
    | ObjAsyncEventLoop c _ \<Rightarrow> Some c
    | _ \<Rightarrow> None)"

definition found_or_missing :: "heap \<Rightarrow> string \<Rightarrow> tvalue option \<Rightarrow> (tvalue, heap) run" where
  "found_or_missing h name x = (ok_or x (missing_attribute name), h)"

text \<open>\<open>attr\<close> calls itself on the value of an unpacked type and on the origin of a generic alias:
  \<open>forwards_to\<close>. The fuel bounds the length of such a chain.\<close>

definition forwards_to :: "heap \<Rightarrow> tvalue \<Rightarrow> string \<Rightarrow> tvalue option" where
  "forwards_to h owner name = (case try_get h owner of
       Some (ObjTypeUnpack v) \<Rightarrow> if name = ''__origin__'' \<or> name = ''__args__'' then Some v else None
     | Some (ObjGenericAlias c origin args) \<Rightarrow>
         if (name = ''__value__'' \<or> name = ''__type_params__'') \<and> is_type_alias h origin then Some origin else None
     | _ \<Rightarrow> None)"

definition attr_here :: "heap \<Rightarrow> tvalue \<Rightarrow> string \<Rightarrow> (tvalue, heap) run" where
  "attr_here h owner name =
     (if name = ''__annotations__'' \<and> function_behind h owner \<noteq> None
      then function_slot h (the (function_behind h owner)) fun_annotations (\<lambda>x. set_annotations x False) (ObjDict dict_default)
      else if name = ''__type_params__'' \<and> function_behind h owner \<noteq> None
      then function_slot h (the (function_behind h owner)) fun_type_params (\<lambda>x f. f\<lparr>fun_type_params := x\<rparr>) (ObjTuple [])
      else case try_get h owner of
        Some (ObjTypeParam parameter_name kind bound fallback) \<Rightarrow>
          if name = ''__name__'' then alloc h (ObjStr parameter_name)
          else if name = ''__bound__'' then (Ok (case bound of Some v \<Rightarrow> v | None \<Rightarrow> NONE), h)
          else if name = ''__default__'' then (Ok fallback, h)
          else if name = ''__constraints__'' then alloc h (ObjTuple [])
          else found_or_missing h name None
      | Some (ObjTypeAlias alias_name home ps v) \<Rightarrow>
          if name = ''__name__'' then alloc h (ObjStr alias_name)
          else if name = ''__module__'' then alloc h (ObjStr home)
          else if name = ''__type_params__'' then (Ok ps, h)
          else if name = ''__value__'' then (Ok v, h)
          else found_or_missing h name None
      | Some (ObjTypeUnpack v) \<Rightarrow>
          if name = ''__unpacked__'' then (Ok (value_bool True), h)
          else found_or_missing h name None
      | Some (ObjGenericAlias c origin args) \<Rightarrow>
          if name = ''__origin__'' then (Ok origin, h)
          else if name = ''__args__'' \<and> is_callable_form h origin then callable_args h args
          else if name = ''__args__'' then (Ok args, h)
          else found_or_missing h name None
      | Some (ObjUnionType c members) \<Rightarrow>
          if name = ''__args__'' then alloc h (ObjTuple members)
          else if name = ''__origin__'' then (Ok c, h)
          else found_or_missing h name None
      | Some (ObjModule ms) \<Rightarrow> found_or_missing h name (map_of ms name)
      | Some (ObjClass k) \<Rightarrow> class_object_attribute h owner k name
      | Some (ObjInstance c attributes _) \<Rightarrow>
          if name = ''__class__'' then (Ok c, h)
          else if name = ''__dict__'' then (fail ''UnsupportedFeature'' ''instance __dict__ view is not implemented'', h)
          else slot_attribute h owner c attributes name
      | Some (ObjException e) \<Rightarrow> exception_attribute h owner e name
      | Some (ObjBoundMethod f receiver) \<Rightarrow> found_or_missing h name
          (if name = ''__func__'' then Some f else if name = ''__self__'' then Some receiver else None)
      | Some (ObjStaticMethod f) \<Rightarrow> found_or_missing h name (if name = ''__func__'' then Some f else None)
      | Some (ObjClassMethod f) \<Rightarrow> found_or_missing h name (if name = ''__func__'' then Some f else None)
      | Some (ObjProperty getter setter deleter) \<Rightarrow>
          if name = ''fget'' then (Ok (case getter of Some v \<Rightarrow> v | None \<Rightarrow> NONE), h)
          else if name = ''fset'' then (Ok (case setter of Some v \<Rightarrow> v | None \<Rightarrow> NONE), h)
          else if name = ''fdel'' then (Ok (case deleter of Some v \<Rightarrow> v | None \<Rightarrow> NONE), h)
          else if name = ''setter'' then alloc h (ObjPropertySetter owner)
          else if name = ''deleter'' then alloc h (ObjPropertyDeleter owner)
          else found_or_missing h name None
      | Some ob \<Rightarrow> (case instance_attribute_class ob of
            Some c \<Rightarrow> if name = ''__class__'' then (Ok c, h) else class_attribute h c c (Some owner) name
          | None \<Rightarrow> found_or_missing h name None)
      | None \<Rightarrow> found_or_missing h name None)"

fun attr_from :: "nat \<Rightarrow> heap \<Rightarrow> tvalue \<Rightarrow> string \<Rightarrow> (tvalue, heap) run" where
  "attr_from 0 h owner name = (Diverge, h)"
| "attr_from (Suc fuel) h owner name = (case forwards_to h owner name of
     Some v \<Rightarrow> attr_from fuel h v name | None \<Rightarrow> attr_here h owner name)"

definition attr :: "heap \<Rightarrow> tvalue \<Rightarrow> string \<Rightarrow> (tvalue, heap) run" where
  "attr h owner name = attr_from (length (objects h) + 1) h owner name"

datatype method_kind = MethodStatic | MethodInstance | MethodClass

definition direct_method :: "heap \<Rightarrow> tvalue \<Rightarrow> string \<Rightarrow> (tvalue \<times> method_kind \<times> tvalue option) option res" where
  "direct_method h owner name =
     (let through = (\<lambda>c inst. case class_lookup h c name of
          Ok (Some descriptor) \<Rightarrow> Ok (case try_get h descriptor of
              Some (ObjFunction _) \<Rightarrow> Some (if inst then (descriptor, MethodInstance, Some owner) else (descriptor, MethodStatic, None))
            | Some (ObjStaticMethod f) \<Rightarrow> if is_function h f then Some (f, MethodStatic, None) else None
            | Some (ObjClassMethod f) \<Rightarrow> if is_function h f then Some (f, MethodClass, Some c) else None
            | _ \<Rightarrow> None)
        | Ok None \<Rightarrow> Ok None | Err _ \<Rightarrow> Ok None | Panic \<Rightarrow> Panic | Diverge \<Rightarrow> Diverge) in
      if has_custom_getattribute h owner then Ok None
      else case try_get h owner of None \<Rightarrow> Ok None
      | Some ob \<Rightarrow> (case instance_parts ob of
          Some (c, attributes) \<Rightarrow> and_then (attributes_get (heap_shapes h) attributes name) (\<lambda>v.
            if v \<noteq> None then Ok None else through c True)
        | None \<Rightarrow> (case ob of ObjClass _ \<Rightarrow> through owner False | _ \<Rightarrow> Ok None)))"

section \<open>The inline cache of instance slots\<close>

definition uncached_names :: "string list" where
  "uncached_names = [''__class__'', ''__cause__'', ''__context__'', ''__suppress_context__'', ''__traceback__'', ''args'']"

record slot_entry =
  se_class :: tvalue
  se_shape :: nat
  se_slot :: nat
  se_epoch :: nat

definition instance_slot_cache :: "heap \<Rightarrow> tvalue \<Rightarrow> string \<Rightarrow> slot_entry option res" where
  "instance_slot_cache h owner name =
     (if has_custom_getattribute h owner then Ok None
      else case Option.bind (try_get h owner) instance_parts of None \<Rightarrow> Ok None
      | Some (c, attributes) \<Rightarrow>
          if name \<in> set uncached_names then Ok None
          else case class_lookup h c name of
            Ok (Some _) \<Rightarrow> Ok None
          | Panic \<Rightarrow> Panic | Diverge \<Rightarrow> Diverge
          | _ \<Rightarrow> and_then (slot_cache attributes (heap_shapes h) name) (\<lambda>x. case x of None \<Rightarrow> Ok None
              | Some (sh, i) \<Rightarrow> (case heap_class h c of
                    Ok k \<Rightarrow> Ok (Some \<lparr>se_class = c, se_shape = sh, se_slot = i, se_epoch = cls_version k\<rparr>)
                  | _ \<Rightarrow> Ok None)))"

definition cached_instance_slot :: "heap \<Rightarrow> tvalue \<Rightarrow> slot_entry \<Rightarrow> tvalue option" where
  "cached_instance_slot h owner e = (case Option.bind (try_get h owner) instance_parts of None \<Rightarrow> None
     | Some (actual, attributes) \<Rightarrow> if actual \<noteq> se_class e then None
         else case heap_class h actual of
           Ok k \<Rightarrow> if cls_version k \<noteq> se_epoch e then None else cached_slot attributes (se_shape e) (se_slot e)
         | _ \<Rightarrow> None)"

section \<open>Writing an attribute\<close>

definition VERSION_MAX :: nat where "VERSION_MAX = 2 ^ 64 - 1"

fun live_dependents :: "heap \<Rightarrow> tvalue list \<Rightarrow> nat list res" where
  "live_dependents h [] = Ok []"
| "live_dependents h (d # ds) = (case location h d of None \<Rightarrow> live_dependents h ds
     | Some l \<Rightarrow> if length (objects h) \<le> l then Panic else (case ho_object (objects h ! l) of
         ObjClass k \<Rightarrow> if VERSION_MAX \<le> cls_version k then fail ''ResourceError'' ''class version exhausted''
           else and_then (live_dependents h ds) (\<lambda>ls. Ok (l # ls))
       | _ \<Rightarrow> live_dependents h ds))"

definition class_invalidation_targets :: "heap \<Rightarrow> tvalue \<Rightarrow> (nat \<times> nat list) res" where
  "class_invalidation_targets h owner = and_then (ok_or (location h owner) (invalid_value owner)) (\<lambda>l.
     if length (objects h) \<le> l then Panic else (case ho_object (objects h ! l) of
         ObjClass k \<Rightarrow> if VERSION_MAX \<le> cls_version k then fail ''ResourceError'' ''class version exhausted''
           else and_then (live_dependents h (cls_dependents k)) (\<lambda>ls. Ok (l, ls))
       | _ \<Rightarrow> fail ''TypeError'' ''expected a Tonic class''))"

text \<open>\<open>version += 1\<close> of the classes at these locations: an overflow panics.\<close>

fun bump_versions :: "heap \<Rightarrow> nat list \<Rightarrow> (unit, heap) run" where
  "bump_versions h [] = (Ok (), h)"
| "bump_versions h (l # ls) = (if length (objects h) \<le> l then (Panic, h) else (case ho_object (objects h ! l) of
       ObjClass k \<Rightarrow> if VERSION_MAX \<le> cls_version k then (Panic, h)
         else bump_versions (h\<lparr>objects := (objects h)[l := (objects h ! l)\<lparr>ho_object :=
           ObjClass (k\<lparr>cls_version := cls_version k + 1\<rparr>)\<rparr>]\<rparr>) ls
     | _ \<Rightarrow> (Panic, h)))"

definition apply_class_invalidation :: "heap \<Rightarrow> nat \<Rightarrow> nat list \<Rightarrow> (unit, heap) run" where
  "apply_class_invalidation h owner dependents = bump_versions h (owner # dependents)"

text \<open>An update of a checked class and the invalidation of its dependents.\<close>

definition update_class :: "heap \<Rightarrow> tvalue \<Rightarrow> (class_object \<Rightarrow> class_object) \<Rightarrow> (unit, heap) run" where
  "update_class h owner f = run_then (class_invalidation_targets h owner, h) (\<lambda>(l, ls) h1.
     run_then (with_object h1 owner (\<lambda>ob. case ob of ObjClass k \<Rightarrow> Ok ((), ObjClass (f k)) | _ \<Rightarrow> Panic)) (\<lambda>_ h2.
     apply_class_invalidation h2 l ls))"

definition reserved_names :: "string list" where
  "reserved_names = [''__class__'', ''__dict__'', ''__cause__'', ''__context__'', ''__suppress_context__'',
     ''__traceback__'', ''args'']"

definition with_attributes :: "object \<Rightarrow> attributes \<Rightarrow> object" where
  "with_attributes ob a = (case ob of
     ObjInstance c _ n \<Rightarrow> ObjInstance c a n | ObjException e \<Rightarrow> ObjException (e\<lparr>exc_attributes := a\<rparr>) | _ \<Rightarrow> ob)"

text \<open>\<open>instance_attributes_mut().expect(..)\<close>: an instance or an exception, otherwise a panic.\<close>

definition set_instance_attribute :: "heap \<Rightarrow> tvalue \<Rightarrow> string \<Rightarrow> tvalue \<Rightarrow> (unit, heap) run" where
  "set_instance_attribute h owner name v = run_then (write_barrier h owner v) (\<lambda>_ h1.
     run_then (heap_get h1 owner, h1) (\<lambda>ob h2. case instance_parts ob of None \<Rightarrow> (Panic, h2)
     | Some (c, attributes) \<Rightarrow>
         run_then (attributes_set (heap_shapes h2) attributes name v, h2) (\<lambda>(s, a) h3.
         with_object (h3\<lparr>heap_shapes := s\<rparr>) owner (\<lambda>ob. Ok ((), with_attributes ob a)))))"

definition delete_instance_attribute :: "heap \<Rightarrow> tvalue \<Rightarrow> string \<Rightarrow> (unit, heap) run" where
  "delete_instance_attribute h owner name =
     run_then (heap_get h owner, h) (\<lambda>ob h2. case instance_parts ob of None \<Rightarrow> (Panic, h2)
     | Some (c, attributes) \<Rightarrow>
         run_then (attributes_delete (heap_shapes h2) attributes name, h2) (\<lambda>(old, a) h3.
         if old = None then (Err (missing_attribute name), h3)
         else with_object h3 owner (\<lambda>ob. Ok ((), with_attributes ob a))))"

definition set_function_annotations :: "heap \<Rightarrow> tvalue \<Rightarrow> tvalue option \<Rightarrow> (unit, heap) run" where
  "set_function_annotations h owner x = with_object h owner (\<lambda>ob. case ob of
     ObjFunction f \<Rightarrow> Ok ((), ObjFunction (set_annotations x True f)) | _ \<Rightarrow> Panic)"

definition set_stop_value :: "heap \<Rightarrow> tvalue \<Rightarrow> tvalue \<Rightarrow> (unit, heap) run" where
  "set_stop_value h owner v = with_object h owner (\<lambda>ob. case ob of
     ObjException e \<Rightarrow> Ok ((), ObjException (e\<lparr>exc_stop_iteration_value := Some v\<rparr>)) | _ \<Rightarrow> Panic)"

definition is_module :: "heap \<Rightarrow> tvalue \<Rightarrow> bool" where
  "is_module h v = (case try_get h v of Some (ObjModule _) \<Rightarrow> True | _ \<Rightarrow> False)"

definition has_stop_value :: "heap \<Rightarrow> tvalue \<Rightarrow> bool" where
  "has_stop_value h v = (case try_get h v of Some (ObjException e) \<Rightarrow> exc_stop_iteration_value e \<noteq> None | _ \<Rightarrow> False)"

definition set_class_attr :: "heap \<Rightarrow> tvalue \<Rightarrow> string \<Rightarrow> tvalue \<Rightarrow> (unit, heap) run" where
  "set_class_attr h owner name v =
     run_then (unsupported_hook name, h) (\<lambda>_ h1.
     if name = ''__name__'' \<or> name = ''__qualname__''
     then (fail ''UnsupportedFeature'' ''class naming mutation is not implemented'', h1)
     else run_then (heap_get h1 owner, h1) (\<lambda>ob h2. case ob of
       ObjClass k \<Rightarrow> if cls_root k then (fail ''TypeError'' ''cannot modify immutable object type'', h2)
         else run_then (write_barrier h2 owner v) (\<lambda>_ h3. update_class h3 owner (set_class_attribute name v))
     | _ \<Rightarrow> (Err (missing_attribute name), h2)))"

definition set_attr :: "heap \<Rightarrow> tvalue \<Rightarrow> string \<Rightarrow> tvalue \<Rightarrow> (unit, heap) run" where
  "set_attr h owner name v =
     (if is_module h owner then add_module_member h owner name v
      else if name = ''__annotations__'' \<and> is_function h owner
      then if v = NONE then set_function_annotations h owner None
        else (case try_get h v of
            Some (ObjDict _) \<Rightarrow> run_then (write_barrier h owner v) (\<lambda>_ h1. set_function_annotations h1 owner (Some v))
          | _ \<Rightarrow> (fail ''TypeError'' ''__annotations__ must be set to a dict object'', h))
      else if name = ''value'' \<and> has_stop_value h owner
      then run_then (write_barrier h owner v) (\<lambda>_ h1. set_stop_value h1 owner v)
      else run_then (heap_get h owner, h) (\<lambda>ob h1. case instance_class ob of
          Some c \<Rightarrow> run_then (heap_class h1 c, h1) (\<lambda>k h2.
            if cls_root k then (Err (missing_attribute name), h2)
            else if name \<in> set reserved_names
            then (fail ''UnsupportedFeature'' ''instance layout replacement is not implemented'', h2)
            else set_instance_attribute h2 owner name v)
        | None \<Rightarrow> set_class_attr h1 owner name v))"

definition delete_class_attribute :: "string \<Rightarrow> class_object \<Rightarrow> class_object" where
  "delete_class_attribute name k = (case position (\<lambda>(attribute, _). attribute = name) (cls_attributes k) of
     None \<Rightarrow> k
   | Some i \<Rightarrow> k\<lparr>cls_attributes := remove_at i (cls_attributes k),
       cls_dictionary_order := filter (\<lambda>x. x \<noteq> DictKeyString name) (cls_dictionary_order k)\<rparr>)"

definition undeletable_names :: "string list" where
  "undeletable_names = [''__name__'', ''__qualname__'', ''__bases__'', ''__mro__'']"

definition del_class_attr :: "heap \<Rightarrow> tvalue \<Rightarrow> string \<Rightarrow> (unit, heap) run" where
  "del_class_attr h owner name = run_then (heap_get h owner, h) (\<lambda>ob h1. case ob of
       ObjClass k \<Rightarrow> if cls_root k \<or> name \<in> set undeletable_names
         then (fail ''TypeError'' ''cannot delete immutable class attribute'', h1)
         else if position (\<lambda>(attribute, _). attribute = name) (cls_attributes k) = None
         then (Err (missing_attribute name), h1)
         else update_class h1 owner (delete_class_attribute name)
     | _ \<Rightarrow> (Err (missing_attribute name), h1))"

definition del_attr :: "heap \<Rightarrow> tvalue \<Rightarrow> string \<Rightarrow> (unit, heap) run" where
  "del_attr h owner name =
     (if is_module h owner then delete_module_member h owner name
      else if name = ''__annotations__'' \<and> is_function h owner then set_function_annotations h owner None
      else if name = ''value'' \<and> has_stop_value h owner then set_stop_value h owner NONE
      else run_then (heap_get h owner, h) (\<lambda>ob h1. case instance_class ob of
          Some c \<Rightarrow> run_then (heap_class h1 c, h1) (\<lambda>k h2.
            if cls_root k \<or> name \<in> set reserved_names then (Err (missing_attribute name), h2)
            else delete_instance_attribute h2 owner name)
        | None \<Rightarrow> del_class_attr h1 owner name))"

section \<open>The first classes\<close>

fun set_all :: "numeric_library \<Rightarrow> hash_library \<Rightarrow> heap \<Rightarrow> tvalue \<Rightarrow> (string \<times> tvalue) list \<Rightarrow> (unit, heap) run" where
  "set_all lib hl h ns [] = (Ok (), h)"
| "set_all lib hl h ns ((name, v) # rest) = run_then (namespace_set lib hl h ns name v) (\<lambda>_ h1. set_all lib hl h1 ns rest)"

definition set_builtins_module :: "heap \<Rightarrow> tvalue \<Rightarrow> (unit, heap) run" where
  "set_builtins_module h c = run_then (alloc h (ObjStr ''builtins'')) (\<lambda>home h1. set_attr h1 c ''__module__'' home)"

definition root_object_class :: "numeric_library \<Rightarrow> hash_library \<Rightarrow> heap \<Rightarrow> tvalue \<Rightarrow> tvalue \<Rightarrow> tvalue \<Rightarrow>
    tvalue \<Rightarrow> tvalue \<Rightarrow> tvalue \<Rightarrow> (tvalue, heap) run" where
  "root_object_class lib hl h object_new object_init object_hash object_getattribute object_setattr object_delattr =
     run_then (namespace_of h ''object'' []) (\<lambda>c h1.
     run_then (set_all lib hl h1 c [(''__new__'', object_new), (''__init__'', object_init), (''__hash__'', object_hash),
       (''__getattribute__'', object_getattribute), (''__setattr__'', object_setattr), (''__delattr__'', object_delattr)]) (\<lambda>_ h2.
     run_then (finish_class lib hl h2 c) (\<lambda>_ h3.
     run_then (set_builtins_module h3 c) (\<lambda>_ h4.
     run_then (with_object h4 c (\<lambda>ob. case ob of ObjClass k \<Rightarrow> Ok ((), ObjClass (k\<lparr>cls_root := True\<rparr>)) | _ \<Rightarrow> Panic)) (\<lambda>_ h5.
     (Ok c, h5))))))"

definition root_type_class :: "numeric_library \<Rightarrow> hash_library \<Rightarrow> heap \<Rightarrow> tvalue \<Rightarrow> tvalue \<Rightarrow> tvalue \<Rightarrow>
    tvalue \<Rightarrow> tvalue \<Rightarrow> (tvalue, heap) run" where
  "root_type_class lib hl h object_class type_new type_getattribute type_setattr type_delattr =
     run_then (namespace_of h ''type'' [object_class]) (\<lambda>c h1.
     run_then (set_all lib hl h1 c [(''__getattribute__'', type_getattribute), (''__setattr__'', type_setattr),
       (''__delattr__'', type_delattr)]) (\<lambda>_ h2.
     run_then (finish_class lib hl h2 c) (\<lambda>_ h3.
     run_then (set_builtins_module h3 c) (\<lambda>_ h4.
     run_then (set_attr h4 c ''__new__'' type_new) (\<lambda>_ h5.
     run_then (set_class_metaclass h5 object_class c) (\<lambda>_ h6.
     run_then (set_class_metaclass h6 c c) (\<lambda>_ h7. (Ok c, h7))))))))"

definition builtin_class :: "numeric_library \<Rightarrow> hash_library \<Rightarrow> heap \<Rightarrow> string \<Rightarrow> tvalue list \<Rightarrow> tvalue \<Rightarrow> (tvalue, heap) run" where
  "builtin_class lib hl h name bases metaclass =
     run_then (namespace_with_metaclass h name bases metaclass) (\<lambda>c h1.
     run_then (finish_class lib hl h1 c) (\<lambda>_ h2.
     run_then (set_builtins_module h2 c) (\<lambda>_ h3. (Ok c, h3))))"

end
