(* ===== verification/Class_Machine.thy ===== *)
theory Class_Machine
  imports Classes Heap_Machine
begin

text \<open>
  The heap with its classes as a machine, and the invariant that makes the version of a class a sound
  guard for everything that was looked up through it.

  A step is \<open>calm\<close> when it keeps the heap invariant and changes no class but in fields no lookup reads:
  every operation of the heap, of dictionaries and of namespaces is. The steps that do change classes
  are the completion of a class, an attribute write with its invalidation, and a collection, which
  prunes dependents.
\<close>

section \<open>Calm steps\<close>

definition young_value :: "heap \<Rightarrow> tvalue \<Rightarrow> bool" where
  "young_value h v \<longleftrightarrow> (\<exists>l. location h v = Some l \<and> young_at h l)"

definition is_namespace :: "heap \<Rightarrow> tvalue \<Rightarrow> bool" where
  "is_namespace h v \<longleftrightarrow> (\<exists>c. try_get h v = Some (ObjNamespace c))"

definition class_core :: "class_object \<Rightarrow> nat \<times> nat \<times> (string \<times> tvalue) list \<times> tvalue list \<times> tvalue list" where
  "class_core k = (cls_id k, cls_version k, cls_attributes k, cls_mro k, cls_dependents k)"

definition class_view :: "object \<Rightarrow> (nat \<times> nat \<times> (string \<times> tvalue) list \<times> tvalue list \<times> tvalue list) option" where
  "class_view ob = (case ob of ObjClass k \<Rightarrow> Some (class_core k) | _ \<Rightarrow> None)"

definition namespace_view :: "object \<Rightarrow> (tvalue list \<times> tvalue list) option" where
  "namespace_view ob = (case ob of ObjNamespace c \<Rightarrow> Some (cls_bases c, cls_dependents c) | _ \<Rightarrow> None)"

definition builtin_view :: "object \<Rightarrow> builtin option" where
  "builtin_view ob = (case ob of ObjBuiltin b \<Rightarrow> Some b | _ \<Rightarrow> None)"

definition kindred :: "object \<Rightarrow> object \<Rightarrow> bool" where
  "kindred ob ob' \<longleftrightarrow> class_view ob' = class_view ob \<and> namespace_view ob' = namespace_view ob \<and>
     builtin_view ob' = builtin_view ob"

definition fresh_object :: "heap \<Rightarrow> object \<Rightarrow> bool" where
  "fresh_object h ob \<longleftrightarrow> class_view ob = None \<and> (case namespace_view ob of
       Some (bases, dependents) \<Rightarrow> dependents = [] \<and> (\<forall>b\<in>set bases. \<not> is_namespace h b)
     | None \<Rightarrow> True)"

definition steady :: "heap \<Rightarrow> heap \<Rightarrow> bool" where
  "steady h h' \<longleftrightarrow>
     (\<forall>v ob. try_get h v = Some ob \<longrightarrow>
        (\<exists>ob'. try_get h' v = Some ob' \<and> kindred ob ob' \<and> young_value h' v = young_value h v)) \<and>
     (\<forall>v ob'. try_get h' v = Some ob' \<longrightarrow> try_get h v = None \<longrightarrow> fresh_object h' ob' \<and> young_value h' v) \<and>
     next_type h' = next_type h"

definition shape_inv :: "heap \<Rightarrow> bool" where
  "shape_inv h \<longleftrightarrow> shapes_wf (heap_shapes h) \<and>
     (\<forall>v ob c a. try_get h v = Some ob \<longrightarrow> instance_parts ob = Some (c, a) \<longrightarrow> attributes_wf (heap_shapes h) a)"

definition shapes_kept :: "heap \<Rightarrow> heap \<Rightarrow> bool" where
  "shapes_kept h h' \<longleftrightarrow> (shape_inv h \<longrightarrow> shape_inv h' \<and> shapes_le (heap_shapes h) (heap_shapes h'))"

definition calm :: "heap \<Rightarrow> heap \<Rightarrow> bool" where
  "calm h h' \<longleftrightarrow> heap_inv h' \<and> steady h h' \<and> (\<forall>v. dead h v \<longrightarrow> dead h' v) \<and> shapes_kept h h'"

lemma view_simps [simp]:
  "class_view (ObjClass k) = Some (class_core k)" "namespace_view (ObjClass k) = None" "builtin_view (ObjClass k) = None"
  "namespace_view (ObjNamespace k) = Some (cls_bases k, cls_dependents k)" "class_view (ObjNamespace k) = None"
  "builtin_view (ObjNamespace k) = None" "builtin_view (ObjBuiltin b) = Some b" "class_view (ObjBuiltin b) = None"
  "namespace_view (ObjBuiltin b) = None"
  by (simp_all add: class_view_def namespace_view_def builtin_view_def)

lemma view_iffs:
  "class_view ob = None \<longleftrightarrow> (\<forall>k. ob \<noteq> ObjClass k)" "namespace_view ob = None \<longleftrightarrow> (\<forall>k. ob \<noteq> ObjNamespace k)"
  "builtin_view ob = None \<longleftrightarrow> (\<forall>b. ob \<noteq> ObjBuiltin b)" "builtin_view ob = Some b \<longleftrightarrow> ob = ObjBuiltin b"
  "class_view ob = Some x \<longleftrightarrow> (\<exists>k. ob = ObjClass k \<and> x = class_core k)"
  "namespace_view ob = Some y \<longleftrightarrow> (\<exists>k. ob = ObjNamespace k \<and> y = (cls_bases k, cls_dependents k))"
  by (cases ob; auto simp: class_view_def namespace_view_def builtin_view_def)+

lemma same_kind_kindred: "same_kind ob ob' \<Longrightarrow> kindred ob ob'"
proof -
  assume same: "same_kind ob ob'"
  then consider "ob' = ob" | "\<forall>c. ob \<noteq> ObjClass c" "\<forall>c. ob' \<noteq> ObjClass c" "\<forall>c. ob \<noteq> ObjNamespace c"
    "\<forall>c. ob' \<noteq> ObjNamespace c" "\<forall>b. ob \<noteq> ObjBuiltin b" "\<forall>b. ob' \<noteq> ObjBuiltin b"
    unfolding same_kind_def by blast
  then show ?thesis
  proof cases
    case 2
    then have "class_view ob = None" "class_view ob' = None" "namespace_view ob = None" "namespace_view ob' = None"
      "builtin_view ob = None" "builtin_view ob' = None" unfolding view_iffs by blast+
    then show ?thesis by (simp add: kindred_def)
  qed (simp add: kindred_def)
qed

lemma kindred_refl [simp]: "kindred ob ob"
  by (simp add: kindred_def)

lemma kindred_trans: "kindred ob ob1 \<Longrightarrow> kindred ob1 ob2 \<Longrightarrow> kindred ob ob2"
  by (simp add: kindred_def)

lemma kindred_namespace: "kindred ob ob' \<Longrightarrow> (\<exists>c. ob' = ObjNamespace c) \<longleftrightarrow> (\<exists>c. ob = ObjNamespace c)"
  using view_iffs(2) [of ob] view_iffs(2) [of ob'] by (auto simp: kindred_def)

lemma steady_refl [simp]: "steady h h"
  by (simp add: steady_def)

lemma heap_inv_wf: "heap_inv h \<Longrightarrow> slots_wf h"
  by (simp add: heap_inv_def heap_ok_def)

lemma valid_get: "slots_wf h \<Longrightarrow> valid h b \<Longrightarrow> heap_index b = None \<or> (\<exists>ob. try_get h b = Some ob)"
  by (auto simp: valid_def try_get_location)

lemma try_get_index: "try_get h b = Some ob \<Longrightarrow> heap_index b \<noteq> None"
  by (auto simp: try_get_def dest: location_heap_index split: option.splits)

lemma traced_valid:
  assumes "heap_inv h" "try_get h v = Some ob" "w \<in> set (object_trace ob)"
  shows "valid h w"
proof -
  note wf = heap_inv_wf [OF assms(1)]
  obtain l where "location h v = Some l" "ob = ho_object (objects h ! l)"
    using assms(2) by (auto simp: try_get_location [OF wf])
  then show ?thesis
    using heap_closed_edge [of h l w] location_in_range [OF wf] assms(1,3)
    by (simp add: edges_at_def heap_inv_def heap_ok_def)
qed

lemma steady_not_namespace:
  assumes wf: "slots_wf h" and st: "steady h h'" and b: "valid h b" "\<not> is_namespace h b"
  shows "\<not> is_namespace h' b"
proof
  assume "is_namespace h' b"
  then obtain c where c': "try_get h' b = Some (ObjNamespace c)" by (auto simp: is_namespace_def)
  then obtain ob where ob: "try_get h b = Some ob" using try_get_index [OF c'] valid_get [OF wf b(1)] by auto
  then obtain ob' where "try_get h' b = Some ob'" "kindred ob ob'" using st unfolding steady_def by blast
  then show False using b(2) ob c' kindred_namespace [of ob ob'] by (auto simp: is_namespace_def)
qed

lemma fresh_bases_valid:
  assumes "heap_inv h" "try_get h v = Some ob" "namespace_view ob = Some (bases, ds)" "b \<in> set bases"
  shows "valid h b"
  using assms(3,4) by (intro traced_valid [OF assms(1,2)]) (auto simp: view_iffs object_trace_def class_trace_def)

lemma steady_trans:
  assumes inv: "heap_inv h1" and a: "steady h h1" and b: "steady h1 h2"
  shows "steady h h2"
  unfolding steady_def
proof (intro conjI allI impI)
  fix v ob assume "try_get h v = Some ob"
  then obtain ob1 where ob1: "try_get h1 v = Some ob1" "kindred ob ob1" "young_value h1 v = young_value h v"
    using a unfolding steady_def by blast
  then obtain ob2 where "try_get h2 v = Some ob2" "kindred ob1 ob2" "young_value h2 v = young_value h1 v"
    using b unfolding steady_def by blast
  with ob1 show "\<exists>ob'. try_get h2 v = Some ob' \<and> kindred ob ob' \<and> young_value h2 v = young_value h v"
    using kindred_trans by blast
next
  fix v ob2 assume v: "try_get h2 v = Some ob2" "try_get h v = None"
  have fresh: "fresh_object h2 ob2 \<and> young_value h2 v"
  proof (cases "try_get h1 v")
    case None
    then show ?thesis using b v unfolding steady_def by blast
  next
    case (Some ob1)
    then have ob1: "fresh_object h1 ob1" "young_value h1 v" using a v unfolding steady_def by blast+
    from Some have k: "kindred ob1 ob2" "young_value h2 v = young_value h1 v"
      using b v unfolding steady_def by force+
    then show ?thesis
      using ob1 fresh_bases_valid [OF inv Some] steady_not_namespace [OF heap_inv_wf [OF inv] b]
      by (auto simp: fresh_object_def kindred_def split: option.splits)
  qed
  then show "fresh_object h2 ob2" "young_value h2 v" by auto
qed (use a b in \<open>simp add: steady_def\<close>)

lemma calm_refl: "heap_inv h \<Longrightarrow> calm h h"
  by (simp add: calm_def shapes_kept_def)

lemma calm_trans: "calm h h1 \<Longrightarrow> calm h1 h2 \<Longrightarrow> calm h h2"
  unfolding calm_def shapes_kept_def using steady_trans shapes_le_trans by meson

lemma calm_inv: "calm h h' \<Longrightarrow> heap_inv h'"
  by (simp add: calm_def)

lemma calm_run_then:
  assumes "calm h (snd m)" "\<And>x s. m = (Ok x, s) \<Longrightarrow> calm h s \<Longrightarrow> heap_inv s \<Longrightarrow> calm s (snd (f x s))"
  shows "calm h (snd (run_then m f))"
proof (cases m)
  case (Pair r s)
  then show ?thesis using assms by (cases r) (auto intro: calm_trans simp: calm_inv)
qed

lemma calm_pure: "heap_inv h \<Longrightarrow> (\<And>x. r = Ok x \<Longrightarrow> calm h (snd (f x h))) \<Longrightarrow> calm h (snd (run_then (r, h) f))"
  by (rule calm_run_then) (auto simp: calm_refl)

lemma calm_return: "calm h (snd m) \<Longrightarrow> calm h (snd (run_then m (\<lambda>x s. (g x, s))))"
  by (rule calm_run_then) (auto simp: calm_refl)

section \<open>Changes of one object\<close>

text \<open>What a change of one object leaves of every other.\<close>

lemma changed_try_get:
  assumes wf: "slots_wf h" and m: "changed K h owner vs h'" and ob: "try_get h v = Some ob"
  shows "\<exists>ob'. try_get h' v = Some ob' \<and> (ob' = ob \<or> v = owner \<and> K ob ob') \<and> young_value h' v = young_value h v"
proof -
  obtain l where l: "location h v = Some l" "ob = ho_object (objects h ! l)"
    using ob by (auto simp: try_get_location [OF wf])
  have young: "young_value h' v = young_value h v"
    unfolding young_value_def using mutated_same [OF wf m] by simp
  have "\<exists>ob'. ho_object (objects h' ! l) = ob' \<and> (ob' = ob \<or> v = owner \<and> K ob ob')"
  proof (cases "h' = h \<or> (\<exists>R. h' = h\<lparr>remembered := R\<rparr>)")
    case True
    then show ?thesis using l by auto
  next
    case False
    then obtain R k ob1 where k: "location h owner = Some k" "K (ho_object (objects h ! k)) ob1"
      and h': "h' = h\<lparr>remembered := R, objects := (objects h)[k := (objects h ! k)\<lparr>ho_object := ob1\<rparr>]\<rparr>"
      using m unfolding changed_def by blast
    show ?thesis
    proof (cases "k = l")
      case True
      then have "v = owner" using k(1) l(1) by (metis location_iff [OF wf])
      then show ?thesis using k l True location_in_range [OF wf l(1)] by (simp add: h')
    qed (use l in \<open>simp add: h'\<close>)
  qed
  then show ?thesis
    using young l mutated_same(1,2) [OF wf m] by (auto simp: try_get_location)
qed

lemma changed_fresh:
  "slots_wf h \<Longrightarrow> changed K h owner vs h' \<Longrightarrow> try_get h v = None \<Longrightarrow> try_get h' v = None"
  using mutated_same(1,2) by (simp add: try_get_location)

lemma changed_fields:
  "changed K h owner vs h' \<Longrightarrow> next_type h' = next_type h \<and> heap_shapes h' = heap_shapes h"
  unfolding changed_def by auto

lemma changed_heap_inv:
  assumes inv: "heap_inv h" and m: "changed K h owner vs h'" and vs: "\<forall>v\<in>set vs. valid h v"
    and keeps: "\<And>ob ob'. K ob ob' \<Longrightarrow> keeps_kind ob ob'"
  shows "heap_inv h'" "dead h v \<Longrightarrow> dead h' v" "valid h' = valid h"
proof -
  have "good_step h False (Ok (), h')" by (rule changed_good [OF inv, of K owner vs]) (use m vs keeps in simp_all)
  then show "heap_inv h'" "dead h v \<Longrightarrow> dead h' v" by (simp_all add: good_step_def)
  show "valid h' = valid h" using mutated_same(1) [OF heap_inv_wf [OF inv] m] by (simp add: valid_def fun_eq_iff)
qed

lemma changed_calm:
  assumes inv: "heap_inv h" and m: "changed K h owner vs h'" and vs: "\<forall>v\<in>set vs. valid h v"
    and K: "\<And>ob ob'. K ob ob' \<Longrightarrow> keeps_kind ob ob' \<and> kindred ob ob' \<and> instance_parts ob' = instance_parts ob"
  shows "calm h h'"
proof -
  note wf = heap_inv_wf [OF inv] and fields = changed_fields [OF m]
  note one = changed_try_get [OF wf m] and fresh = changed_fresh [OF wf m]
  have "steady h h'"
    unfolding steady_def using one fresh K kindred_refl fields by fastforce
  moreover have "shapes_kept h h'"
    unfolding shapes_kept_def shape_inv_def
  proof (intro impI conjI allI; elim conjE)
    fix v ob' c a assume old: "\<forall>v ob c a. try_get h v = Some ob \<longrightarrow> instance_parts ob = Some (c, a) \<longrightarrow> attributes_wf (heap_shapes h) a"
      and v: "try_get h' v = Some ob'" "instance_parts ob' = Some (c, a)"
    obtain ob where "try_get h v = Some ob" using fresh v(1) by (cases "try_get h v") auto
    moreover from this have "instance_parts ob' = instance_parts ob" using one v(1) K by fastforce
    then have "instance_parts ob = Some (c, a)" using v(2) by (simp only:)
    ultimately have "attributes_wf (heap_shapes h) a" using old by blast
    then show "attributes_wf (heap_shapes h') a" using fields by simp
  qed (use fields in simp_all)
  ultimately show ?thesis
    using changed_heap_inv [OF inv m vs] K by (simp add: calm_def)
qed

lemma same_kind_parts: "same_kind ob ob' \<Longrightarrow> instance_parts ob' = instance_parts ob"
  by (simp only: same_kind_def)

lemma mutated_calm: "heap_inv h \<Longrightarrow> mutated h owner vs h' \<Longrightarrow> \<forall>v\<in>set vs. valid h v \<Longrightarrow> calm h h'"
  by (rule changed_calm [of h same_kind owner vs]) (blast intro: same_keeps_kind same_kind_kindred same_kind_parts)+

section \<open>Allocations\<close>

lemma allocated_try_get:
  assumes wf: "slots_wf h" and a: "allocated h ob v h'"
  shows "try_get h' = (try_get h)(v \<mapsto> ob)" "try_get h v = None" "young_value h' v"
    "w \<noteq> v \<Longrightarrow> young_value h' w = young_value h w"
proof -
  note loc = allocated_location [OF wf a] and objs = allocated_objects [OF wf a]
  have wf': "slots_wf h'" by (rule allocated_slots_wf [OF wf a])
  show "try_get h v = None" using loc(1) by (simp add: try_get_def)
  have "try_get h' x = ((try_get h)(v \<mapsto> ob)) x" for x
    using objs(2,3) location_in_range [OF wf, of x]
    by (cases "location h x") (auto simp: try_get_location [OF wf] try_get_location [OF wf'] loc(2))
  then show "try_get h' = (try_get h)(v \<mapsto> ob)" ..
  show "young_value h' v" using objs(4) by (simp add: young_value_def loc(2))
  show "w \<noteq> v \<Longrightarrow> young_value h' w = young_value h w"
    using objs(2) location_in_range [OF wf] by (auto simp: young_value_def young_at_def loc(2))
qed

lemma allocated_fields: "allocated h ob v h' \<Longrightarrow> next_type h' = next_type h \<and> heap_shapes h' = heap_shapes h"
proof -
  assume "allocated h ob v h'"
  then have "h' = h\<lparr>slots := slots h', free_slots := free_slots h', objects := objects h',
       allocations := allocations h + 1\<rparr>" unfolding allocated_def by blast
  note eq = this
  show ?thesis by (subst (1 2) eq) simp
qed

lemma alloc_calm:
  assumes inv: "heap_inv h" and ob: "allocatable h ob" "fresh_object h ob"
    "\<And>c a. instance_parts ob = Some (c, a) \<Longrightarrow> a = attributes_default"
  shows "calm h (snd (alloc h ob))"
proof -
  note wf = heap_inv_wf [OF inv]
  from wf show ?thesis
  proof (cases rule: alloc_cases [where ob = ob])
    case full
    then show ?thesis using inv by (simp add: calm_refl)
  next
    case (placed v h')
    note get = allocated_try_get [OF wf placed(2)] and fields = allocated_fields [OF placed(2)]
    have good: "good_step h False (no_result (alloc h ob))" by (rule alloc_good [OF inv ob(1)])
    have "fresh_object h' ob"
    proof (cases "namespace_view ob")
      case (Some p)
      obtain bases ds where p: "p = (bases, ds)" by force
      have "b \<noteq> v" "\<not> is_namespace h b" if "b \<in> set bases" for b
      proof -
        have "b \<in> set (object_trace ob)"
          using Some that by (auto simp: p view_iffs object_trace_def class_trace_def)
        then have "valid h b" using ob(1) by (simp add: allocatable_def)
        then show "b \<noteq> v" using valid_get [OF wf, of b] get(2) allocated_location(3) [OF wf placed(2)] by auto
        show "\<not> is_namespace h b" using ob(2) Some that by (simp add: fresh_object_def p)
      qed
      then show ?thesis using ob(2) Some by (auto simp: fresh_object_def p is_namespace_def get(1))
    qed (use ob(2) in \<open>simp add: fresh_object_def\<close>)
    then have "steady h h'"
      unfolding steady_def using get fields by (auto split: if_splits)
    moreover have "shapes_kept h h'"
      using ob(3) fields
      by (auto simp: shapes_kept_def shape_inv_def get(1) attributes_default_def split: if_splits)
    ultimately show ?thesis using good placed(1) by (simp add: calm_def good_step_def)
  qed
qed

text \<open>Objects that are neither classes, namespaces nor instances.\<close>

definition plain :: "object \<Rightarrow> bool" where
  "plain ob \<longleftrightarrow> class_view ob = None \<and> namespace_view ob = None \<and> instance_parts ob = None"

lemma alloc_plain_calm:
  assumes "heap_inv h" "plain ob" "\<forall>v\<in>set (object_trace ob). valid h v"
  shows "calm h (snd (alloc h ob))"
  using assms by (intro alloc_calm) (auto simp: plain_def allocatable_def fresh_object_def split: object.splits)

lemma plain_simps [simp]:
  "plain (ObjStr s)" "plain (ObjDict d)" "plain (ObjTuple vs)" "plain (ObjStaticMethod f)"
  "plain (ObjBoundMethod f r)" "plain (ObjSuper f r)" "plain (ObjMappingProxy v)"
  "plain (ObjPropertySetter v)" "plain (ObjPropertyDeleter v)"
  by (simp_all add: plain_def instance_parts_def class_view_def namespace_view_def)

lemma alloc_valid:
  assumes inv: "heap_inv h" and a: "alloc h ob = (Ok v, h')"
  shows "valid h' v" "valid h w \<Longrightarrow> valid h' w" "try_get h' v = Some ob" "try_get h v = None"
proof -
  note wf = heap_inv_wf [OF inv]
  have p: "allocated h ob v h'" using a by (cases rule: alloc_cases [OF wf, where ob = ob]) auto
  show "valid h' v" "valid h w \<Longrightarrow> valid h' w" using allocated_location [OF wf p] by (auto simp: valid_def)
  show "try_get h' v = Some ob" "try_get h v = None" using allocated_try_get [OF wf p] by simp_all
qed

lemma calm_valid:
  assumes inv: "heap_inv h" and c: "calm h h'" and v: "valid h v"
  shows "valid h' v"
proof -
  have "heap_index v \<noteq> None \<Longrightarrow> try_get h v \<noteq> None"
    using v by (auto simp: valid_def try_get_location [OF heap_inv_wf [OF inv]])
  then have "heap_index v \<noteq> None \<Longrightarrow> try_get h' v \<noteq> None" using c unfolding calm_def steady_def by blast
  moreover have "try_get h' v \<noteq> None \<Longrightarrow> location h' v \<noteq> None" by (auto simp: try_get_def split: option.splits)
  ultimately show ?thesis unfolding valid_def by blast
qed

section \<open>Events of the heap\<close>

lemma requeued_calm:
  assumes inv: "heap_inv h" and r: "requeued h h'" and good: "good_step h b (m, h')"
  shows "calm h h'"
proof -
  have h': "h' = h\<lparr>pending_generators := pending_generators h', pending_finalizers := pending_finalizers h',
      finalized_objects := finalized_objects h'\<rparr>" using r by (simp add: requeued_def)
  have same: "try_get h' = try_get h" "young_value h' = young_value h" "next_type h' = next_type h" "heap_shapes h' = heap_shapes h"
    by (subst h', simp add: fun_eq_iff try_get_def young_value_def young_at_def location_def cong: option.case_cong if_cong)+
  show ?thesis using good same by (simp add: calm_def steady_def shapes_kept_def shape_inv_def good_step_def)
qed

lemma refielded_calm:
  assumes inv: "heap_inv h" and r: "refielded h owner vs h'" and good: "good_step h b (m, h')"
  shows "calm h h'"
proof -
  obtain R xs where h': "h' = h\<lparr>remembered := R, external_fields := xs\<rparr> \<or> h' = h"
    using r by (auto simp: refielded_def)
  then have same: "try_get h' = try_get h" "young_value h' = young_value h" "next_type h' = next_type h" "heap_shapes h' = heap_shapes h"
    by (auto simp: fun_eq_iff try_get_def young_value_def young_at_def location_def cong: option.case_cong if_cong)
  show ?thesis using good same by (simp add: calm_def steady_def shapes_kept_def shape_inv_def good_step_def)
qed

lemma mutator_calm:
  assumes "mutator step owner incoming" "heap_inv h" "\<forall>v\<in>set (incoming a). valid h v"
  shows "calm h (snd (step h a))"
  using mutated_calm [OF assms(2) mutator.step_mutated [OF assms(1) heap_inv_wf [OF assms(2)]]] assms(3) by blast

lemma with_traceback_calm:
  assumes inv: "heap_inv h"
  shows "calm h (snd (with_object h tb (\<lambda>ob. case ob of ObjTraceback es \<Rightarrow> Ok ((), ObjTraceback (push_entries es entries))
      | _ \<Rightarrow> fail ''RuntimeError'' ''invalid traceback object'')))"
  using barred_mutated [OF heap_inv_wf [OF inv] replaces_traceback, of tb entries]
  by (intro mutated_calm [OF inv, where vs = "[]" and owner = tb]) (simp_all add: with_object_barred)

lemma write_barrier_calm:
  assumes inv: "heap_inv h" and v: "valid h v"
  shows "calm h (snd (write_barrier h owner v))"
proof -
  obtain R where "write_barrier h owner v = (Ok (), h\<lparr>remembered := R\<rparr>)" "barrier_le h owner [v] R"
    using write_barrier_Ok [OF heap_inv_wf [OF inv]] by blast
  then show ?thesis using v by (intro mutated_calm [OF inv, of owner "[v]"]) (auto simp: changed_def)
qed

lemma write_barriers_calm: "heap_inv h \<Longrightarrow> \<forall>v\<in>set vs. valid h v \<Longrightarrow> calm h (snd (write_barriers h owner vs))"
proof (induction vs arbitrary: h)
  case (Cons v vs)
  then show ?case
    using calm_inv calm_valid
    by (auto intro!: calm_run_then write_barrier_calm Cons.IH simp del: run_then.simps)
qed (simp add: calm_refl)

definition replaceable :: "heap \<Rightarrow> tvalue \<Rightarrow> tvalue list \<Rightarrow> (object \<Rightarrow> object \<Rightarrow> bool) \<Rightarrow> (object \<Rightarrow> ('a \<times> object) res) \<Rightarrow> bool" where
  "replaceable h owner vs K f \<longleftrightarrow> (\<forall>ob x ob'. try_get h owner = Some ob \<longrightarrow> f ob = Ok (x, ob') \<longrightarrow>
     K ob ob' \<and> set (object_trace ob') \<subseteq> set (object_trace ob) \<union> set vs)"

lemma barred_changed:
  assumes wf: "slots_wf h" and f: "replaceable h owner vs K f"
  shows "changed K h owner vs (snd (barred h owner vs f))"
proof -
  obtain R where w: "write_barriers h owner vs = (Ok (), h\<lparr>remembered := R\<rparr>)" and R: "barrier_le h owner vs R"
    using write_barriers_Ok [OF wf] by blast
  let ?h = "h\<lparr>remembered := R\<rparr>"
  have run: "barred h owner vs f = with_object ?h owner f" using w by (simp add: barred_def)
  have unchanged: "changed K h owner vs ?h" using R by (auto simp: changed_def)
  show ?thesis
  proof (cases "location h owner")
    case None
    then show ?thesis using unchanged by (simp add: run with_object_def remembered_update_same)
  next
    case (Some l)
    have l: "l < length (objects h)" using location_in_range [OF wf Some] .
    let ?ob = "ho_object (objects h ! l)"
    show ?thesis
    proof (cases "f ?ob")
      case (Ok p)
      obtain x ob' where p: "p = (x, ob')" by force
      have "try_get h owner = Some ?ob" using Some by (simp add: try_get_location [OF wf])
      then have "K ?ob ob'" "set (object_trace ob') \<subseteq> set (object_trace ?ob) \<union> set vs"
        using f Ok p unfolding replaceable_def by blast+
      moreover have "snd (barred h owner vs f) = h\<lparr>remembered := R, objects := (objects h)[l := (objects h ! l)\<lparr>ho_object := ob'\<rparr>]\<rparr>"
        using Some l Ok p by (simp add: run with_object_def remembered_update_same)
      ultimately show ?thesis using R Some unfolding changed_def by blast
    qed (use Some l unchanged in \<open>simp_all add: run with_object_def remembered_update_same\<close>)
  qed
qed

text \<open>The kind condition of a calm change.\<close>

definition calm_kind :: "object \<Rightarrow> object \<Rightarrow> bool" where
  "calm_kind ob ob' \<longleftrightarrow> keeps_kind ob ob' \<and> kindred ob ob' \<and> instance_parts ob' = instance_parts ob"

lemma calm_kind_refl [simp]: "calm_kind ob ob"
  by (simp add: calm_kind_def)

lemma same_calm_kind: "same_kind ob ob' \<Longrightarrow> calm_kind ob ob'"
  by (simp add: calm_kind_def same_keeps_kind same_kind_kindred same_kind_parts)

lemma calm_kind_namespace [simp]:
  "calm_kind (ObjNamespace c) (ObjNamespace c') \<longleftrightarrow> cls_bases c' = cls_bases c \<and> cls_dependents c' = cls_dependents c"
  by (auto simp: calm_kind_def keeps_kind_def kindred_def instance_parts_def)

lemma calm_kind_class [simp]:
  "calm_kind (ObjClass c) (ObjClass c') \<longleftrightarrow> class_core c' = class_core c"
  by (auto simp: calm_kind_def keeps_kind_def kindred_def instance_parts_def class_core_def)

lemma barred_calm:
  assumes "heap_inv h" "\<forall>v\<in>set vs. valid h v" "replaceable h owner vs calm_kind f"
  shows "calm h (snd (barred h owner vs f))"
  using changed_calm [OF assms(1) barred_changed [OF heap_inv_wf [OF assms(1)] assms(3)] assms(2)]
  by (simp add: calm_kind_def)

lemma with_object_calm:
  "heap_inv h \<Longrightarrow> replaceable h owner [] calm_kind f \<Longrightarrow> calm h (snd (with_object h owner f))"
  using barred_calm [of h "[]" owner f] by (simp add: with_object_barred)

lemma barrier_with_object_calm:
  "heap_inv h \<Longrightarrow> valid h v \<Longrightarrow> replaceable h owner [v] calm_kind f \<Longrightarrow>
   calm h (snd (run_then (write_barrier h owner v) (\<lambda>_ h1. with_object h1 owner f)))"
  using barred_calm [of h "[v]" owner f] by (simp add: write_barrier_barred)

lemma alloc_then_calm:
  assumes inv: "heap_inv h" and ob: "plain ob" "\<forall>v\<in>set (object_trace ob). valid h v"
    and f: "\<And>v s. alloc h ob = (Ok v, s) \<Longrightarrow> calm h s \<Longrightarrow> heap_inv s \<Longrightarrow> valid s v \<Longrightarrow> calm s (snd (f v s))"
  shows "calm h (snd (run_then (alloc h ob) f))"
proof (rule calm_run_then)
  show c: "calm h (snd (alloc h ob))" by (rule alloc_plain_calm [OF inv ob])
  fix v s assume a: "alloc h ob = (Ok v, s)"
  then show "calm s (snd (f v s))" using f [OF a] c alloc_valid(1) [OF inv a] calm_inv by simp
qed

lemma run_then_assoc: "run_then (run_then m f) g = run_then m (\<lambda>x s. run_then (f x s) g)"
  by (cases m; cases "fst m") auto

lemma record_exception_trace_calm:
  assumes inv: "heap_inv h"
  shows "calm h (snd (record_exception_trace h owner entries))"
proof (cases "entries = []")
  case False
  let ?set = "\<lambda>tb ob. case ob of ObjException e \<Rightarrow> Ok ((), ObjException (e\<lparr>exc_traceback := Some tb\<rparr>)) | _ \<Rightarrow> Panic"
  have set: "replaceable h1 owner [tb] calm_kind (?set tb)" for h1 tb
    by (auto simp: replaceable_def same_kind_def object_trace_def instance_parts_def intro!: same_calm_kind
        split: object.splits option.splits)
  have new: "calm h (snd (run_then (alloc h (ObjTraceback [])) (\<lambda>tb h1. run_then (write_barrier h1 owner tb) (\<lambda>_ h2.
      run_then (with_object h2 owner (?set tb)) (\<lambda>_ h3. (Ok tb, h3))))))"
  proof (rule alloc_then_calm [OF inv])
    fix tb s assume "heap_inv s" "valid s tb"
    from calm_return [OF barrier_with_object_calm [OF this set], of "\<lambda>_. Ok tb"]
    show "calm s (snd (run_then (write_barrier s owner tb) (\<lambda>_ h2.
      run_then (with_object h2 owner (?set tb)) (\<lambda>_ h3. (Ok tb, h3)))))"
      by (simp add: run_then_assoc)
  qed (simp_all add: plain_def class_view_def namespace_view_def instance_parts_def object_trace_def)
  show ?thesis
    unfolding record_exception_trace_def using False new
    by (auto intro!: calm_pure [OF inv] calm_run_then with_traceback_calm simp: calm_refl [OF inv] split: option.splits)
qed (simp add: record_exception_trace_def calm_refl [OF inv])

text \<open>What the runtime allocates: a new instance or exception has no attributes, and only a class body
  makes a namespace.\<close>

definition runtime_object :: "object \<Rightarrow> bool" where
  "runtime_object ob \<longleftrightarrow> class_view ob = None \<and> namespace_view ob = None \<and>
     (\<forall>c a. instance_parts ob = Some (c, a) \<longrightarrow> a = attributes_default)"

definition runtime_event :: "heap_event \<Rightarrow> bool" where
  "runtime_event e \<longleftrightarrow> (case e of EvAlloc ob \<Rightarrow> runtime_object ob | _ \<Rightarrow> True)"

lemma good_calm:
  assumes "heap_inv h" "good_step h b m" "requeued h (snd m)"
  shows "calm h (snd m)"
  using requeued_calm [OF assms(1,3)] assms(2) by (metis prod.collapse)

lemma event_calm:
  assumes inv: "heap_inv h" and adm: "admissible h e" "runtime_event e" and plain: "\<not> is_collection e"
  shows "calm h (snd (run_event h e))"
proof -
  have good: "good_step h (is_collection e) (run_event h e)" by (rule run_event_good [OF inv adm(1)])
  have wf: "slots_wf h" by (rule heap_inv_wf [OF inv])
  have vs: "\<forall>v\<in>set (event_values e). valid h v" using adm by (simp add: admissible_def)
  note step = mutator_calm [OF _ inv]
  show ?thesis
  proof (cases e)
    case (EvAlloc ob)
    then show ?thesis using adm alloc_calm [OF inv, of ob]
      by (auto simp: admissible_def runtime_event_def runtime_object_def fresh_object_def)
  next
    case (EvExternal owner field x)
    then show ?thesis
      using refielded_calm [OF inv] store_external_field_refielded [OF wf] good by (metis prod.collapse run_event.simps(2))
  next
    case (EvAppend owner v)
    then show ?thesis using step [OF append_list.mutator_axioms, where a = "(owner, v)"] vs by simp
  next
    case (EvReplace owner us)
    then show ?thesis using step [OF replace_list.mutator_axioms, where a = "(owner, us)"] vs by simp
  next
    case (EvModuleAdd owner name v)
    then show ?thesis using step [OF add_module_member.mutator_axioms, where a = "(owner, name, v)"] vs by simp
  next
    case (EvModuleDelete owner name)
    then show ?thesis using step [OF delete_module_member.mutator_axioms, where a = "(owner, name)"] by simp
  next
    case (EvModuleReset owner)
    then show ?thesis using step [OF reset_module_members.mutator_axioms, where a = owner] by simp
  next
    case (EvCell owner v)
    then show ?thesis using step [OF store_cell.mutator_axioms, where a = "(owner, v)"] vs by simp
  next
    case (EvCause owner cause suppress)
    then show ?thesis using step [OF set_exception_cause.mutator_axioms, where a = "(owner, cause, suppress)"] vs by simp
  next
    case (EvContext owner ctx)
    then show ?thesis using step [OF set_exception_context.mutator_axioms, where a = "(owner, ctx)"] vs by simp
  next
    case (EvTraceback owner tb)
    then show ?thesis using step [OF set_exception_traceback.mutator_axioms, where a = "(owner, tb)"] vs by simp
  next
    case (EvRecordTrace owner entries)
    then show ?thesis using record_exception_trace_calm [OF inv] by simp
  next
    case (EvResume owner execution)
    then show ?thesis using step [OF resume_generator.mutator_axioms, where a = "(owner, execution)"] by simp
  next
    case (EvSuspend owner s)
    then show ?thesis using step [OF suspend_generator.mutator_axioms, where a = "(owner, s)"] vs by simp
  next
    case (EvComplete owner v)
    then show ?thesis using step [OF complete_generator_with_value.mutator_axioms, where a = "(owner, v)"] vs by simp
  next
    case (EvAwaitState owner state)
    then show ?thesis using step [OF set_async_generator_await_state.mutator_axioms, where a = "(owner, state)"] by simp
  next
    case (EvClaim owner v)
    then show ?thesis using step [OF claim_async_generator_driver.mutator_axioms, where a = "(owner, v)"] vs by simp
  next
    case (EvRelease owner v)
    then show ?thesis using step [OF release_async_generator_driver.mutator_axioms, where a = "(owner, v)"] by simp
  next
    case (EvCancel owner)
    then show ?thesis using step [OF request_task_cancel.mutator_axioms, where a = owner] by simp
  next
    case (EvClearCancel owner)
    then show ?thesis using step [OF clear_task_cancel_request.mutator_axioms, where a = owner] by simp
  next
    case (EvAddWaiter owner v)
    then show ?thesis using step [OF add_async_waiter.mutator_axioms, where a = "(owner, v)"] vs by simp
  next
    case (EvRemoveWaiter owner v)
    then show ?thesis using step [OF remove_async_waiter.mutator_axioms, where a = "(owner, v)"] by simp
  next
    case (EvAddCallback owner v)
    then show ?thesis using step [OF add_async_callback.mutator_axioms, where a = "(owner, v)"] vs by simp
  next
    case (EvCompleteAsync owner state)
    then show ?thesis using step [OF complete_async.mutator_axioms, where a = "(owner, state)"] vs by simp
  next
    case (EvTaskWaiting owner source)
    then show ?thesis using step [OF set_task_waiting.mutator_axioms, where a = "(owner, source)"] vs by simp
  next
    case EvPopGenerator
    then show ?thesis using pop_generator_requeued [of h] good_calm [OF inv good] by auto
  next
    case EvPopFinalizer
    then show ?thesis using pop_object_requeued [of h] good_calm [OF inv good] by auto
  next
    case EvQueueGenerators
    then show ?thesis using queue_suspended_Ok [OF wf subset_refl] good_calm [OF inv good]
      by (auto simp: queue_all_suspended_generators_def shutdown_queued_def)
  next
    case EvQueueFinalizers
    then show ?thesis using queue_all_object_finalizers_Ok [OF wf] inv good_calm [OF inv good]
      by (auto simp: heap_inv_def heap_ok_def shutdown_queued_def)
  qed (use plain in simp_all)
qed

section \<open>Dictionaries and namespaces\<close>

lemma calm_kind_dict [simp]: "calm_kind (ObjDict d) (ObjDict d')"
  by (simp add: same_calm_kind)

lemma barrier_pair: "write_barrier_pair h owner k v = write_barriers h owner [k, v]"
  by (simp add: write_barrier_pair_def run_then_unit)

lemma dict_store_trace_any:
  assumes "dict_store hl k d m v = Ok d'"
  shows "set (object_trace (ObjDict d')) \<subseteq> set (object_trace (ObjDict d)) \<union> {k, v}"
  using dict_store_trace [OF assms] by simp

lemma dict_set_calm:
  assumes inv: "heap_inv h" and kv: "valid h k" "valid h v"
  shows "calm h (snd (dict_set lib hl h owner k v))"
proof -
  have f: "replaceable h (native_value h owner) [k, v] calm_kind (\<lambda>ob. case ob of
         ObjDict d \<Rightarrow> and_then (dict_store hl k d m v) (\<lambda>d'. Ok ((), ObjDict d'))
       | _ \<Rightarrow> fail ''TypeError'' ''expected dict'')" for m
    using dict_store_trace_any
    by (fastforce simp: replaceable_def res_simps split: object.splits)
  show ?thesis
    unfolding dict_set_def Let_def barrier_pair
    using barred_calm [OF inv _ f] kv by (intro calm_pure [OF inv]) (simp add: barred_def)
qed

lemma dict_set_str_calm: "heap_inv h \<Longrightarrow> valid h v \<Longrightarrow> calm h (snd (dict_set_str lib hl h owner name v))"
  unfolding dict_set_str_def
  by (intro alloc_then_calm dict_set_calm) (auto simp: object_trace_def intro: calm_valid)

lemma dict_remove_entries: "set (dict_entries (snd (dict_remove i d))) \<subseteq> set (dict_entries d)"
proof -
  have adv: "dict_entries (snd (advance_versions e)) = dict_entries e" for e
    by (simp add: advance_versions_def Let_def)
  have rem: "set (remove_at i xs) \<subseteq> set xs" for xs :: "(tvalue \<times> tvalue) list" using set_remove_at by fast
  show ?thesis
  proof (cases "index_at (dict_hashes d) i")
    case (Ok w)
    then show ?thesis using rem [of "dict_entries d"]
      by (cases "remove_index i w (dict_index d)") (auto simp: dict_remove_def adv)
  qed (simp_all add: dict_remove_def)
qed

lemma dict_remove_trace: "set (object_trace (ObjDict (snd (dict_remove i d)))) \<subseteq> set (object_trace (ObjDict d))"
  unfolding dict_trace_set by (intro Un_mono image_mono dict_remove_entries)

lemma mutate_object_calm:
  assumes inv: "heap_inv h" and f: "\<And>ob. try_get h owner = Some ob \<Longrightarrow> calm_kind ob (snd (f ob)) \<and>
    set (object_trace (snd (f ob))) \<subseteq> set (object_trace ob)"
  shows "calm h (snd (mutate_object h owner f))"
proof (cases "location h owner")
  case None
  then show ?thesis by (simp add: mutate_object_def calm_refl [OF inv])
next
  case (Some l)
  note wf = heap_inv_wf [OF inv]
  let ?ob = "ho_object (objects h ! l)"
  have get: "try_get h owner = Some ?ob" using Some by (simp add: try_get_location [OF wf])
  have h': "snd (mutate_object h owner f) = h\<lparr>remembered := remembered h,
      objects := (objects h)[l := (objects h ! l)\<lparr>ho_object := snd (f ?ob)\<rparr>]\<rparr>"
    using Some location_in_range [OF wf Some] by (simp add: mutate_object_def split: prod.split)
  have "barrier_le h owner [] (remembered h)" by (simp add: barrier_le_def)
  then have "changed calm_kind h owner [] (snd (mutate_object h owner f))"
    unfolding h' changed_def using Some f [OF get]
    by (intro disjI2 exI [of _ "remembered h"] conjI exI [of _ l] exI [of _ "snd (f ?ob)"]) simp_all
  then show ?thesis by (rule changed_calm [OF inv]) (simp_all add: calm_kind_def)
qed

lemma dict_delete_calm: "heap_inv h \<Longrightarrow> calm h (snd (dict_delete lib hl describe h owner k))"
  unfolding dict_delete_def Let_def
  by (intro calm_pure mutate_object_calm) (simp_all add: dict_run_result dict_remove_trace split: object.split)

lemma heap_get_Ok: "heap_get h v = Ok ob \<longleftrightarrow> try_get h v = Some ob"
  by (simp add: heap_get_def res_simps)

lemma set_member_trace: "snd ` set (set_member name v ms) \<subseteq> insert v (snd ` set ms)"
  using set_member_values by fastforce

lemma set_class_attribute_trace:
  "set (class_trace (set_class_attribute name v c)) \<subseteq> insert v (set (class_trace c))"
  using set_member_trace [of name v "cls_attributes c"]
  by (auto simp: set_class_attribute_def class_trace_def)

lemma set_class_attribute_same [simp]:
  "cls_bases (set_class_attribute name v c) = cls_bases c" "cls_dependents (set_class_attribute name v c) = cls_dependents c"
  "cls_mro (set_class_attribute name v c) = cls_mro c" "cls_id (set_class_attribute name v c) = cls_id c"
  "cls_version (set_class_attribute name v c) = cls_version c"
  "cls_attributes (set_class_attribute name v c) = set_member name v (cls_attributes c)"
  by (simp_all add: set_class_attribute_def)

lemma object_trace_class [simp]:
  "object_trace (ObjClass c) = class_trace c" "object_trace (ObjNamespace c) = class_trace c"
  by (simp_all add: object_trace_def)

lemma namespace_set_calm:
  assumes inv: "heap_inv h" and v: "valid h v"
  shows "calm h (snd (namespace_set lib hl h ns name v))"
proof -
  have f: "replaceable h ns [v] calm_kind (\<lambda>ob. case ob of
      ObjNamespace c \<Rightarrow> Ok ((), ObjNamespace (set_class_attribute name v c)) | _ \<Rightarrow> missing_namespace)"
    using set_class_attribute_trace by (fastforce simp: replaceable_def missing_namespace_def split: object.splits)
  show ?thesis
    unfolding namespace_set_def
    using barrier_with_object_calm [OF inv v f] dict_set_str_calm [OF inv v]
    by (auto intro!: calm_pure [OF inv] split: option.split)
qed

lemma namespace_object_calm:
  assumes inv: "heap_inv h" and vs: "valid h metaclass" "\<forall>v\<in>set (opt mapping). valid h v"
    "\<forall>b\<in>set bases. valid h b \<and> \<not> is_namespace h b" "\<forall>v\<in>snd ` set attributes. valid h v"
  shows "calm h (snd (alloc h (namespace_object qualname bases metaclass mapping attributes)))"
  using vs
  by (intro alloc_calm [OF inv])
    (auto simp: namespace_object_def allocatable_def class_trace_def instance_parts_def fresh_object_def)

lemma calm_not_namespace:
  "heap_inv h \<Longrightarrow> calm h h' \<Longrightarrow> valid h b \<Longrightarrow> \<not> is_namespace h b \<Longrightarrow> \<not> is_namespace h' b"
  using steady_not_namespace [OF heap_inv_wf] by (auto simp: calm_def)

lemma namespace_with_metaclass_calm:
  assumes inv: "heap_inv h" and vs: "valid h metaclass" "\<forall>b\<in>set bases. valid h b \<and> \<not> is_namespace h b"
  shows "calm h (snd (namespace_with_metaclass h qualname bases metaclass))"
  unfolding namespace_with_metaclass_def
proof (rule alloc_then_calm [OF inv])
  fix m s assume m: "calm h s" "heap_inv s" "valid s m"
  show "calm s (snd (run_then (alloc s (ObjStr qualname)) (\<lambda>qualified h2.
     alloc h2 (namespace_object qualname bases metaclass None
       [(''__module__'', m), (''__qualname__'', qualified), (''__doc__'', NONE)]))))"
  proof (rule alloc_then_calm [OF m(2)])
    fix q t assume t: "calm s t" "heap_inv t" "valid t q"
    have "calm h t" by (rule calm_trans [OF m(1) t(1)])
    then show "calm t (snd (alloc t (namespace_object qualname bases metaclass None
       [(''__module__'', m), (''__qualname__'', q), (''__doc__'', NONE)])))"
      using vs t m calm_valid [OF inv \<open>calm h t\<close>] calm_valid [OF m(2) t(1)] calm_not_namespace [OF inv \<open>calm h t\<close>]
      by (intro namespace_object_calm) (auto simp: valid_def NONE_def heap_index_def)
  qed (simp_all add: object_trace_def)
qed (simp_all add: object_trace_def)

lemma class_trace_mapping:
  "set (class_trace (c\<lparr>cls_namespace_mapping := Some mapping\<rparr>)) \<subseteq> insert mapping (set (class_trace c))"
  by (auto simp: class_trace_def)

lemma namespace_delete_calm:
  assumes inv: "heap_inv h"
  shows "calm h (snd (namespace_delete lib hl describe h ns name))"
proof -
  have f: "replaceable h ns [] calm_kind (\<lambda>ob. case ob of
           ObjNamespace c \<Rightarrow> (case position (\<lambda>(candidate, _). candidate = name) (cls_attributes c) of
               None \<Rightarrow> fail ''NameError'' (''name '' @ in_quotes name @ '' is not defined'')
             | Some i \<Rightarrow> Ok ((), ObjNamespace (c\<lparr>cls_attributes := remove_at i (cls_attributes c),
                 cls_dictionary_order := remove_dictionary_key name (cls_dictionary_order c)\<rparr>)))
         | _ \<Rightarrow> Panic)"
    by (auto simp: replaceable_def class_trace_def dest!: set_remove_at split: object.splits option.splits)
  show ?thesis
    unfolding namespace_delete_def
    using with_object_calm [OF inv f] dict_delete_calm
    by (auto intro!: calm_pure [OF inv] alloc_then_calm [OF inv] simp: object_trace_def split: option.split)
qed

lemma install_mapping_calm:
  assumes inv: "heap_inv h" and v: "valid h mapping" and other: "\<And>ob. otherwise \<noteq> Ok ob"
  shows "calm h (snd (install_mapping h ns mapping otherwise))"
proof -
  have "replaceable h ns [mapping] calm_kind (\<lambda>ob. case ob of
         ObjNamespace c \<Rightarrow> Ok ((), ObjNamespace (c\<lparr>cls_namespace_mapping := Some mapping\<rparr>))
       | _ \<Rightarrow> and_then otherwise (\<lambda>ob. Ok ((), ob)))"
    using class_trace_mapping other by (fastforce simp: replaceable_def res_simps split: object.splits)
  from barrier_with_object_calm [OF inv v this] show ?thesis by (simp add: install_mapping_def)
qed

end
