(* ===== verification/Class_History.thy ===== *)
theory Class_History
  imports Class_Machine
begin

text \<open>
  The invariant of the class graph, and how classes may change over time. Every ancestor of a class
  lists it among its dependents, so that a write to a class reaches every class that looks names up
  through it. \<open>later\<close> relates a heap to any later one: as long as the version of a class stays, so
  does everything a lookup through it reads.
\<close>

section \<open>The invariant\<close>

definition class_graph :: "heap \<Rightarrow> bool" where
  "class_graph h \<longleftrightarrow> (\<forall>v k. try_get h v = Some (ObjClass k) \<longrightarrow>
     distinct (v # cls_mro k) \<and> distinct (cls_dependents k) \<and>
     (\<forall>a\<in>set (cls_mro k). \<exists>ka. try_get h a = Some (ObjClass ka) \<and> v \<in> set (cls_dependents ka) \<and>
        subseq (a # cls_mro ka) (cls_mro k)) \<and>
     (\<forall>d\<in>set (cls_dependents k). \<exists>kd. try_get h d = Some (ObjClass kd) \<and> v \<in> set (cls_mro kd)))"

definition class_numbers :: "heap \<Rightarrow> bool" where
  "class_numbers h \<longleftrightarrow> (\<forall>v k. try_get h v = Some (ObjClass k) \<longrightarrow>
     1 \<le> cls_id k \<and> cls_id k \<le> next_type h \<and> 1 \<le> cls_version k \<and> cls_version k \<le> VERSION_MAX \<and>
     (\<forall>w kw. try_get h w = Some (ObjClass kw) \<longrightarrow> cls_id kw = cls_id k \<longrightarrow> w = v))"

text \<open>An unfinished class has no dependents, its bases are not unfinished, and an old one has no young
  ancestors: the completion of a class stores the ancestors without a write barrier.\<close>

definition namespaces_ok :: "heap \<Rightarrow> bool" where
  "namespaces_ok h \<longleftrightarrow> (\<forall>v c. try_get h v = Some (ObjNamespace c) \<longrightarrow> cls_dependents c = [] \<and>
     (\<forall>b\<in>set (cls_bases c). \<not> is_namespace h b \<and> (\<forall>k. try_get h b = Some (ObjClass k) \<longrightarrow>
        \<not> young_value h v \<longrightarrow> (\<forall>a\<in>set (cls_mro k). \<not> young_value h a))))"

definition class_inv :: "heap \<Rightarrow> bool" where
  "class_inv h \<longleftrightarrow> heap_inv h \<and> shape_inv h \<and> class_graph h \<and> class_numbers h \<and> namespaces_ok h"

definition attributes_at :: "heap \<Rightarrow> tvalue \<Rightarrow> (string \<times> tvalue) list option" where
  "attributes_at h v = (case try_get h v of Some (ObjClass k) \<Rightarrow> Some (cls_attributes k) | _ \<Rightarrow> None)"

definition class_later :: "heap \<Rightarrow> heap \<Rightarrow> tvalue \<Rightarrow> class_object \<Rightarrow> class_object \<Rightarrow> bool" where
  "class_later h h' v k k' \<longleftrightarrow> cls_id k' = cls_id k \<and> cls_mro k' = cls_mro k \<and> cls_version k \<le> cls_version k' \<and>
     (cls_version k' = cls_version k \<longrightarrow> (\<forall>a\<in>set (v # cls_mro k). attributes_at h' a = attributes_at h a))"

definition later :: "heap \<Rightarrow> heap \<Rightarrow> bool" where
  "later h h' \<longleftrightarrow>
     (\<forall>v k. try_get h v = Some (ObjClass k) \<longrightarrow> try_get h' v = None \<or>
        (\<exists>k'. try_get h' v = Some (ObjClass k') \<and> class_later h h' v k k')) \<and>
     (\<forall>v b. try_get h v = Some (ObjBuiltin b) \<longrightarrow> try_get h' v = None \<or> try_get h' v = Some (ObjBuiltin b)) \<and>
     (\<forall>v. dead h v \<longrightarrow> dead h' v) \<and> (\<forall>v. location h v \<noteq> None \<longrightarrow> location h' v \<noteq> None \<or> dead h' v) \<and>
     shapes_le (heap_shapes h) (heap_shapes h')"

lemma class_graphD:
  assumes "class_graph h" "try_get h v = Some (ObjClass k)"
  shows "distinct (v # cls_mro k)" "distinct (cls_dependents k)"
    "a \<in> set (cls_mro k) \<Longrightarrow> \<exists>ka. try_get h a = Some (ObjClass ka) \<and> v \<in> set (cls_dependents ka) \<and>
        subseq (a # cls_mro ka) (cls_mro k)"
    "d \<in> set (cls_dependents k) \<Longrightarrow> \<exists>kd. try_get h d = Some (ObjClass kd) \<and> v \<in> set (cls_mro kd)"
  using assms unfolding class_graph_def by blast+

text \<open>A step that keeps the ancestors and dependents of all classes keeps the graph.\<close>

lemma graph_transport:
  assumes g: "class_graph h"
    and prior: "\<And>v k'. try_get h' v = Some (ObjClass k') \<Longrightarrow>
      \<exists>k. try_get h v = Some (ObjClass k) \<and> cls_mro k' = cls_mro k \<and> cls_dependents k' = cls_dependents k"
    and forth: "\<And>v k. try_get h v = Some (ObjClass k) \<Longrightarrow> \<exists>k'. try_get h' v = Some (ObjClass k')"
  shows "class_graph h'"
proof -
  have same: "\<exists>k'. try_get h' v = Some (ObjClass k') \<and> cls_mro k' = cls_mro k \<and> cls_dependents k' = cls_dependents k"
    if v: "try_get h v = Some (ObjClass k)" for v k
    using forth [OF v] prior v by fastforce
  show ?thesis
    unfolding class_graph_def
  proof (intro allI impI conjI ballI)
    fix v k' assume v: "try_get h' v = Some (ObjClass k')"
    obtain k where k: "try_get h v = Some (ObjClass k)" "cls_mro k' = cls_mro k" "cls_dependents k' = cls_dependents k"
      using prior [OF v] by blast
    note old = class_graphD [OF g k(1)]
    show "distinct (v # cls_mro k')" "distinct (cls_dependents k')" using old(1,2) k(2,3) by simp_all
    show "\<exists>ka. try_get h' a = Some (ObjClass ka) \<and> v \<in> set (cls_dependents ka) \<and> subseq (a # cls_mro ka) (cls_mro k')"
      if "a \<in> set (cls_mro k')" for a
      using old(3) [of a] same [of a] that k(2) by fastforce
    show "\<exists>kd. try_get h' d = Some (ObjClass kd) \<and> v \<in> set (cls_mro kd)" if "d \<in> set (cls_dependents k')" for d
      using old(4) [of d] same [of d] that k(3) by fastforce
  qed
qed

lemma heap_class_Ok: "heap_class h v = Ok k \<longleftrightarrow> try_get h v = Some (ObjClass k)"
  by (auto simp: heap_class_def heap_get_def ok_or_def split: option.splits object.splits)

lemma later_refl [simp]: "later h h"
  by (simp add: later_def class_later_def)

lemma try_get_None: "slots_wf h \<Longrightarrow> try_get h v = None \<longleftrightarrow> location h v = None"
  by (simp add: try_get_location)

lemma later_None: "slots_wf h \<Longrightarrow> later h h' \<Longrightarrow> location h v \<noteq> None \<Longrightarrow> slots_wf h' \<Longrightarrow> try_get h' v = None \<Longrightarrow> dead h' v"
  unfolding later_def by (metis try_get_None)

text \<open>The lookups through one class agree while its version does.\<close>

lemma later_class:
  assumes "later h h'" "try_get h v = Some (ObjClass k)" "try_get h' v = Some (ObjClass k')"
  shows "class_later h h' v k k'"
  using assms unfolding later_def by force

lemma later_trans:
  assumes g: "class_graph h" and wf: "slots_wf h" "slots_wf h1" "slots_wf h2"
    and a: "later h h1" and b: "later h1 h2"
  shows "later h h2"
proof -
  have gone: "try_get h2 v = None" if "location h v \<noteq> None" "try_get h1 v = None" for v
  proof -
    have "dead h1 v" using later_None [OF wf(1) a that(1) wf(2) that(2)] .
    then have "dead h2 v" using b unfolding later_def by blast
    then show ?thesis using dead_location by (simp add: try_get_None [OF wf(3)])
  qed
  have cls: "try_get h2 v = None \<or> (\<exists>k2. try_get h2 v = Some (ObjClass k2) \<and> class_later h h2 v k k2)"
    if v: "try_get h v = Some (ObjClass k)" for v k
  proof (cases "try_get h1 v")
    case None
    then show ?thesis using gone [of v] v by (auto simp: try_get_location [OF wf(1)])
  next
    case (Some ob)
    then obtain k1 where k1: "try_get h1 v = Some (ObjClass k1)" "class_later h h1 v k k1"
      using a v unfolding later_def by force
    show ?thesis
    proof (cases "try_get h2 v")
      case (Some ob2)
      then obtain k2 where k2: "try_get h2 v = Some (ObjClass k2)" "class_later h1 h2 v k1 k2"
        using b k1(1) unfolding later_def by force
      have "class_later h h2 v k k2"
        using k1(2) k2(2) unfolding class_later_def by (metis le_antisym order.trans)
      then show ?thesis using k2(1) by blast
    qed simp
  qed
  moreover have "try_get h2 v = None \<or> try_get h2 v = Some (ObjBuiltin b)" if "try_get h v = Some (ObjBuiltin b)" for v b
    using a b that gone [of v] unfolding later_def try_get_None [OF wf(1), symmetric] by (metis option.discI)
  moreover have "location h2 v \<noteq> None \<or> dead h2 v" if "location h v \<noteq> None" for v
    using a b that unfolding later_def by metis
  ultimately show ?thesis
    using a b unfolding later_def by (meson shapes_le_trans)
qed

section \<open>Calm steps keep it\<close>

lemma calm_class:
  assumes c: "calm h h'"
  shows "try_get h' v = Some (ObjClass k') \<Longrightarrow> \<exists>k. try_get h v = Some (ObjClass k) \<and> class_core k' = class_core k"
    "try_get h v = Some (ObjClass k) \<Longrightarrow> \<exists>k'. try_get h' v = Some (ObjClass k') \<and> class_core k' = class_core k"
proof -
  have st: "steady h h'" using c by (simp add: calm_def)
  show "\<exists>k'. try_get h' v = Some (ObjClass k') \<and> class_core k' = class_core k" if v: "try_get h v = Some (ObjClass k)"
  proof -
    obtain ob' where "try_get h' v = Some ob'" "kindred (ObjClass k) ob'" using st v unfolding steady_def by blast
    then show ?thesis by (auto simp: kindred_def view_iffs)
  qed
  show "\<exists>k. try_get h v = Some (ObjClass k) \<and> class_core k' = class_core k" if v: "try_get h' v = Some (ObjClass k')"
  proof (cases "try_get h v")
    case None
    then have "fresh_object h' (ObjClass k')" using st v unfolding steady_def by blast
    then show ?thesis by (simp add: fresh_object_def)
  next
    case (Some ob)
    then have "kindred ob (ObjClass k')" using st v unfolding steady_def by force
    then have "class_view ob = Some (class_core k')" by (simp add: kindred_def)
    then show ?thesis using Some by (auto simp: view_iffs(5))
  qed
qed

lemma class_core_eq: "class_core k' = class_core k \<longleftrightarrow> cls_id k' = cls_id k \<and> cls_version k' = cls_version k \<and>
    cls_attributes k' = cls_attributes k \<and> cls_mro k' = cls_mro k \<and> cls_dependents k' = cls_dependents k"
  by (simp add: class_core_def)

lemma attributes_at_class: "try_get h v = Some (ObjClass k) \<Longrightarrow> attributes_at h v = Some (cls_attributes k)"
  by (simp add: attributes_at_def)

lemma attributes_at_Some: "attributes_at h v \<noteq> None \<Longrightarrow> \<exists>k. try_get h v = Some (ObjClass k)"
  by (auto simp: attributes_at_def split: option.splits object.splits)

lemma calm_attributes_at:
  assumes c: "calm h h'" and v: "attributes_at h v \<noteq> None"
  shows "attributes_at h' v = attributes_at h v"
proof -
  obtain k where k: "try_get h v = Some (ObjClass k)" using attributes_at_Some [OF v] by blast
  then obtain k' where "try_get h' v = Some (ObjClass k')" "class_core k' = class_core k" using calm_class(2) [OF c] by blast
  then show ?thesis using k by (simp add: attributes_at_class class_core_eq)
qed

lemma graph_attributes: "class_graph h \<Longrightarrow> try_get h v = Some (ObjClass k) \<Longrightarrow> a \<in> set (v # cls_mro k) \<Longrightarrow> attributes_at h a \<noteq> None"
  using class_graphD(3) [of h v k a] by (auto simp: attributes_at_def)

lemma calm_later:
  assumes g: "class_graph h" and sh: "shape_inv h" and wf: "slots_wf h" and c: "calm h h'"
  shows "later h h'"
  unfolding later_def
proof (intro conjI allI impI)
  fix v k assume v: "try_get h v = Some (ObjClass k)"
  then obtain k' where k': "try_get h' v = Some (ObjClass k')" "class_core k' = class_core k" using calm_class(2) [OF c] by blast
  then have "class_later h h' v k k'"
    using calm_attributes_at [OF c graph_attributes [OF g v]] by (auto simp: class_later_def class_core_eq)
  then show "try_get h' v = None \<or> (\<exists>k'. try_get h' v = Some (ObjClass k') \<and> class_later h h' v k k')"
    using k'(1) by blast
next
  fix v b assume v: "try_get h v = Some (ObjBuiltin b)"
  then obtain ob' where "try_get h' v = Some ob'" "kindred (ObjBuiltin b) ob'"
    using c unfolding calm_def steady_def by blast
  then show "try_get h' v = None \<or> try_get h' v = Some (ObjBuiltin b)" by (auto simp: kindred_def view_iffs)
next
  fix v assume "location h v \<noteq> None"
  then obtain ob where "try_get h v = Some ob" using try_get_None [OF wf, of v] by auto
  then obtain ob' where "try_get h' v = Some ob'" using c unfolding calm_def steady_def by blast
  then show "location h' v \<noteq> None \<or> dead h' v" by (auto simp: try_get_def split: option.splits)
qed (use c sh in \<open>auto simp: calm_def shapes_kept_def\<close>)

lemma calm_class_inv:
  assumes inv: "class_inv h" and c: "calm h h'"
  shows "class_inv h'"
proof -
  have hi: "heap_inv h" and sh: "shape_inv h" and g: "class_graph h" and n: "class_numbers h" and ns: "namespaces_ok h"
    using inv by (auto simp: class_inv_def)
  have hi': "heap_inv h'" and st: "steady h h'" and sh': "shape_inv h'"
    using c sh by (auto simp: calm_def shapes_kept_def)
  note prior = calm_class(1) [OF c] and forth = calm_class(2) [OF c]
  have "class_graph h'"
    by (rule graph_transport [OF g]) (use prior forth in \<open>(unfold class_core_eq, blast)+\<close>)
  moreover have "class_numbers h'"
    unfolding class_numbers_def
  proof (intro allI impI)
    fix v k' assume "try_get h' v = Some (ObjClass k')"
    then obtain k where k: "try_get h v = Some (ObjClass k)" "class_core k' = class_core k" using prior by blast
    have "next_type h' = next_type h" using st by (simp add: steady_def)
    then show "1 \<le> cls_id k' \<and> cls_id k' \<le> next_type h' \<and> 1 \<le> cls_version k' \<and> cls_version k' \<le> VERSION_MAX \<and>
        (\<forall>w kw. try_get h' w = Some (ObjClass kw) \<longrightarrow> cls_id kw = cls_id k' \<longrightarrow> w = v)"
      using n k prior unfolding class_numbers_def class_core_eq by metis
  qed
  moreover have "namespaces_ok h'"
    unfolding namespaces_ok_def
  proof (intro allI impI conjI ballI)
    fix v c' assume v: "try_get h' v = Some (ObjNamespace c')"
    have "(fresh_object h' (ObjNamespace c') \<and> young_value h' v) \<or> (\<exists>c. try_get h v = Some (ObjNamespace c) \<and>
        cls_bases c' = cls_bases c \<and> cls_dependents c' = cls_dependents c \<and> young_value h' v = young_value h v)"
    proof (cases "try_get h v")
      case None
      then show ?thesis using st v unfolding steady_def by blast
    next
      case (Some ob)
      then have same: "kindred ob (ObjNamespace c')" "young_value h' v = young_value h v"
        using st v unfolding steady_def by force+
      then have "namespace_view ob = Some (cls_bases c', cls_dependents c')" by (simp add: kindred_def)
      then obtain c where "ob = ObjNamespace c" "cls_bases c' = cls_bases c" "cls_dependents c' = cls_dependents c"
        by (auto simp: view_iffs(6))
      then show ?thesis using Some same(2) by blast
    qed
    then consider "fresh_object h' (ObjNamespace c')" "young_value h' v"
      | c where "try_get h v = Some (ObjNamespace c)" "cls_bases c' = cls_bases c" "cls_dependents c' = cls_dependents c"
        "young_value h' v = young_value h v" by blast
    then have goal: "cls_dependents c' = [] \<and> (\<forall>b\<in>set (cls_bases c'). \<not> is_namespace h' b \<and>
        (\<forall>k'. try_get h' b = Some (ObjClass k') \<longrightarrow> \<not> young_value h' v \<longrightarrow> (\<forall>a\<in>set (cls_mro k'). \<not> young_value h' a)))"
    proof cases
      case 1
      then show ?thesis by (simp add: fresh_object_def)
    next
      case (2 c)
      have "\<not> is_namespace h' b" if b: "b \<in> set (cls_bases c)" for b
      proof (rule calm_not_namespace [OF hi c])
        show "valid h b" using fresh_bases_valid [OF hi 2(1)] b by simp
        show "\<not> is_namespace h b" using ns 2(1) b unfolding namespaces_ok_def by blast
      qed
      moreover have "\<not> young_value h' a" if b: "b \<in> set (cls_bases c)" "try_get h' b = Some (ObjClass k')"
        "\<not> young_value h' v" "a \<in> set (cls_mro k')" for b k' a
      proof -
        obtain k where k: "try_get h b = Some (ObjClass k)" "class_core k' = class_core k" using prior b(2) by blast
        then have a: "a \<in> set (cls_mro k)" using b(4) by (simp add: class_core_eq)
        then have "\<not> young_value h a" using ns 2 b k unfolding namespaces_ok_def by metis
        moreover obtain ka where "try_get h a = Some (ObjClass ka)" using class_graphD(3) [OF g k(1) a] by blast
        then have "young_value h' a = young_value h a" using st unfolding steady_def by blast
        ultimately show ?thesis by simp
      qed
      ultimately show ?thesis using ns 2 unfolding namespaces_ok_def by metis
    qed
    show "cls_dependents c' = []" using goal by blast
    fix b assume b: "b \<in> set (cls_bases c')"
    show "\<not> is_namespace h' b" using goal b by blast
    fix k' a assume "try_get h' b = Some (ObjClass k')" "\<not> young_value h' v" "a \<in> set (cls_mro k')"
    then show "\<not> young_value h' a" using goal b by blast
  qed
  ultimately show ?thesis using hi' sh' by (simp add: class_inv_def)
qed

end
