(* ===== verification/Class_Updates.thy ===== *)
theory Class_Updates
  imports Class_History
begin

text \<open>
  The steps that change attributes and classes: writing and deleting an attribute of an instance,
  updating a class with the invalidation of its dependents, completing a class, and collecting.
\<close>

section \<open>Attributes of instances\<close>

text \<open>The invariant of the heap reads neither the shapes nor the counter of types.\<close>

lemma numbering_frame [simp]:
  "location (h\<lparr>heap_shapes := s\<rparr>) = location h" "try_get (h\<lparr>heap_shapes := s\<rparr>) = try_get h"
  "dead (h\<lparr>heap_shapes := s\<rparr>) = dead h" "young_value (h\<lparr>heap_shapes := s\<rparr>) = young_value h"
  "location (h\<lparr>next_type := n\<rparr>) = location h" "try_get (h\<lparr>next_type := n\<rparr>) = try_get h"
  "dead (h\<lparr>next_type := n\<rparr>) = dead h" "young_value (h\<lparr>next_type := n\<rparr>) = young_value h"
  by (auto simp: fun_eq_iff location_def try_get_def dead_def young_value_def young_at_def
      split: option.splits)

lemma numbering_fields [simp]:
  "slots_wf (h\<lparr>heap_shapes := s\<rparr>) = slots_wf h" "edges_at (h\<lparr>heap_shapes := s\<rparr>) = edges_at h"
  "valid (h\<lparr>heap_shapes := s\<rparr>) = valid h" "young_at (h\<lparr>heap_shapes := s\<rparr>) = young_at h"
  "is_class (h\<lparr>heap_shapes := s\<rparr>) = is_class h"
  "is_class (h\<lparr>next_type := n\<rparr>) = is_class h" "heap_class (h\<lparr>heap_shapes := s\<rparr>) = heap_class h" "heap_get (h\<lparr>heap_shapes := s\<rparr>) = heap_get h"
  "slots_wf (h\<lparr>next_type := n\<rparr>) = slots_wf h" "edges_at (h\<lparr>next_type := n\<rparr>) = edges_at h"
  "valid (h\<lparr>next_type := n\<rparr>) = valid h" "young_at (h\<lparr>next_type := n\<rparr>) = young_at h"
  "heap_class (h\<lparr>next_type := n\<rparr>) = heap_class h" "heap_get (h\<lparr>next_type := n\<rparr>) = heap_get h"
  by (simp_all add: fun_eq_iff slots_wf_def edges_at_def valid_def young_at_def is_class_def heap_class_def heap_get_def
      handle_at_def trace_external_fields_def)

lemma numbering_inv [simp]:
  "heap_inv (h\<lparr>heap_shapes := s\<rparr>) = heap_inv h" "heap_inv (h\<lparr>next_type := n\<rparr>) = heap_inv h"
  by (simp_all add: heap_inv_def heap_ok_def heap_closed_def remembered_ok_def classes_ok_def
      class_chain_ok_def external_owned_def ledger_ok_def
      cong: res.case_cong)

lemma numbering_namespace [simp]:
  "is_namespace (h\<lparr>heap_shapes := s\<rparr>) = is_namespace h" "is_namespace (h\<lparr>next_type := n\<rparr>) = is_namespace h"
  by (simp_all add: fun_eq_iff is_namespace_def)

lemma steady_shapes [simp]: "steady h (h'\<lparr>heap_shapes := s\<rparr>) = steady h h'"
  by (simp add: steady_def fresh_object_def cong: option.case_cong)

lemma changed_steady:
  assumes wf: "slots_wf h" and m: "changed K h owner vs h'" and K: "\<And>ob ob'. K ob ob' \<Longrightarrow> kindred ob ob'"
  shows "steady h h'"
  unfolding steady_def
  using changed_try_get [OF wf m] changed_fresh [OF wf m] changed_fields [OF m] K kindred_refl by fastforce

lemma with_attributes_kind:
  assumes "instance_parts ob = Some (c, a0)"
  shows "instance_parts (with_attributes ob a) = Some (c, a)" "keeps_kind ob (with_attributes ob a)"
    "kindred ob (with_attributes ob a)"
    "set (object_trace (with_attributes ob a)) \<subseteq> set (object_trace ob) \<union> set (attributes_trace a)"
    "set (attributes_trace a0) \<subseteq> set (object_trace ob)"
  using assms by (cases ob; auto simp: instance_parts_def with_attributes_def keeps_kind_def kindred_def
      class_view_def namespace_view_def builtin_view_def object_trace_def split: option.splits)+

lemma with_object_shapes:
  "snd (with_object (h\<lparr>heap_shapes := s\<rparr>) owner f) = (snd (with_object h owner f))\<lparr>heap_shapes := s\<rparr>"
  by (simp add: with_object_def split: option.splits res.splits)

lemma instance_update_calm:
  assumes inv: "heap_inv h" and sh: "shape_inv h" and vs: "\<forall>v\<in>set vs. valid h v"
    and ob: "try_get h owner = Some ob" "instance_parts ob = Some (c, a0)"
    and s: "shapes_wf s" "shapes_le (heap_shapes h) s" "attributes_wf s a"
    and a: "set (attributes_trace a) \<subseteq> set (attributes_trace a0) \<union> set vs"
  shows "calm h ((snd (barred h owner vs (\<lambda>ob. Ok ((), with_attributes ob a))))\<lparr>heap_shapes := s\<rparr>)"
proof -
  note wf = heap_inv_wf [OF inv]
  let ?K = "\<lambda>o1 o2. o1 = ob \<and> o2 = with_attributes ob a"
  let ?h = "snd (barred h owner vs (\<lambda>ob. Ok ((), with_attributes ob a)))"
  have f: "replaceable h owner vs ?K (\<lambda>ob. Ok ((), with_attributes ob a))"
    using ob with_attributes_kind(4) [OF ob(2), of a] with_attributes_kind(5) [OF ob(2)] a unfolding replaceable_def by auto
  have m: "changed ?K h owner vs ?h" by (rule barred_changed [OF wf f])
  have st: "steady h ?h" by (rule changed_steady [OF wf m]) (use with_attributes_kind(3) [OF ob(2)] in auto)
  have keeps: "\<And>o1 o2. ?K o1 o2 \<Longrightarrow> keeps_kind o1 o2" using with_attributes_kind(2) [OF ob(2)] by auto
  have "attributes_wf s b" if v: "try_get ?h v = Some o2" "instance_parts o2 = Some (d, b)" for v o2 d b
  proof -
    obtain o1 where o1: "try_get h v = Some o1" using changed_fresh [OF wf m, of v] v(1) by (cases "try_get h v") auto
    then consider "o2 = o1" | "o1 = ob" "o2 = with_attributes ob a" using changed_try_get [OF wf m o1] v(1) by auto
    then show ?thesis
    proof cases
      case 1
      then have "attributes_wf (heap_shapes h) b" using sh o1 v(2) unfolding shape_inv_def by blast
      then show ?thesis using shapes_le_attributes(1) [OF _ s(2)] sh by (simp add: shape_inv_def)
    next
      case 2
      then show ?thesis using with_attributes_kind(1) [OF ob(2), of a] v(2) s(3) by simp
    qed
  qed
  then have "shape_inv (?h\<lparr>heap_shapes := s\<rparr>)" using s(1) by (auto simp: shape_inv_def)
  moreover have "steady h (?h\<lparr>heap_shapes := s\<rparr>)" using st by simp
  ultimately show ?thesis
    using changed_heap_inv [OF inv m vs keeps] s(2) by (simp add: calm_def shapes_kept_def)
qed

lemma set_instance_attribute_calm:
  assumes inv: "heap_inv h" and sh: "shape_inv h" and v: "valid h v"
  shows "calm h (snd (set_instance_attribute h owner name v))"
proof -
  obtain R where w: "write_barrier h owner v = (Ok (), h\<lparr>remembered := R\<rparr>)"
    using write_barriers_Ok [OF heap_inv_wf [OF inv], of owner "[v]"] write_barriers_single by metis
  let ?h = "h\<lparr>remembered := R\<rparr>"
  have bar: "calm h ?h" using write_barrier_calm [OF inv v, of owner] w by simp
  have get: "try_get ?h = try_get h" by (simp add: remembered_update_same)
  show ?thesis
  proof (cases "Option.bind (try_get h owner) instance_parts")
    case None
    then show ?thesis using bar
      by (auto simp: set_instance_attribute_def w heap_get_def get ok_or_def bind_eq_None_conv split: option.splits)
  next
    case (Some p)
    then obtain ob c a0 where ob: "try_get h owner = Some ob" "instance_parts ob = Some (c, a0)"
      by (cases p) (auto simp: bind_eq_Some_conv)
    then have wf: "shapes_wf (heap_shapes h)" "attributes_wf (heap_shapes h) a0" using sh by (auto simp: shape_inv_def)
    obtain s a where a: "attributes_set (heap_shapes h) a0 name v = Ok (s, a)" "shapes_wf s" "shapes_le (heap_shapes h) s"
      "attributes_wf s a" "attributes_map s a = (attributes_map (heap_shapes h) a0)(name \<mapsto> v)"
      using attributes_set_ok [OF wf] by blast
    have "set (attributes_trace a) \<subseteq> set (attributes_trace a0) \<union> set [v]"
      by (auto simp: attributes_trace_ran [OF a(2,4)] attributes_trace_ran [OF wf] a(5) ran_def split: if_splits)
    from instance_update_calm [OF inv sh _ ob a(2-4) this] v
    have "calm h ((snd (barred h owner [v] (\<lambda>ob. Ok ((), with_attributes ob a))))\<lparr>heap_shapes := s\<rparr>)" by simp
    then show ?thesis
      by (simp add: set_instance_attribute_def w heap_get_def get ob ok_or_def a(1) with_object_shapes
          write_barrier_barred [symmetric])
  qed
qed

lemma delete_instance_attribute_calm:
  assumes inv: "heap_inv h" and sh: "shape_inv h"
  shows "calm h (snd (delete_instance_attribute h owner name))"
proof (cases "Option.bind (try_get h owner) instance_parts")
  case None
  then show ?thesis using calm_refl [OF inv]
    by (auto simp: delete_instance_attribute_def heap_get_def ok_or_def bind_eq_None_conv split: option.splits)
next
  case (Some p)
  then obtain ob c a0 where ob: "try_get h owner = Some ob" "instance_parts ob = Some (c, a0)"
    by (cases p) (auto simp: bind_eq_Some_conv)
  then have wf: "shapes_wf (heap_shapes h)" "attributes_wf (heap_shapes h) a0" using sh by (auto simp: shape_inv_def)
  obtain a where a: "attributes_delete (heap_shapes h) a0 name = Ok (attributes_map (heap_shapes h) a0 name, a)"
    "attributes_wf (heap_shapes h) a" "attributes_map (heap_shapes h) a = (attributes_map (heap_shapes h) a0)(name := None)"
    using attributes_delete_ok [OF wf] by blast
  have "set (attributes_trace a) \<subseteq> set (attributes_trace a0) \<union> set []"
    by (auto simp: attributes_trace_ran [OF wf(1) a(2)] attributes_trace_ran [OF wf] a(3) ran_def split: if_splits)
  from instance_update_calm [OF inv sh _ ob wf(1) _ a(2) this]
  have "calm h (snd (with_object h owner (\<lambda>ob. Ok ((), with_attributes ob a))))"
    by (simp add: with_object_barred [symmetric] with_object_shapes [symmetric])
  then show ?thesis
    using calm_refl [OF inv] by (simp add: delete_instance_attribute_def heap_get_def ob ok_or_def a(1))
qed

section \<open>Updating a class\<close>

text \<open>A step that keeps every handle, every age, the shapes and the counter of types.\<close>

definition touched :: "heap \<Rightarrow> heap \<Rightarrow> bool" where
  "touched h h' \<longleftrightarrow> heap_inv h' \<and> location h' = location h \<and> young_value h' = young_value h \<and>
     next_type h' = next_type h \<and> heap_shapes h' = heap_shapes h \<and> (\<forall>v. dead h v \<longrightarrow> dead h' v)"

lemma touched_refl: "heap_inv h \<Longrightarrow> touched h h"
  by (simp add: touched_def)

lemma touched_trans: "touched h h1 \<Longrightarrow> touched h1 h2 \<Longrightarrow> touched h h2"
  by (simp add: touched_def)

lemma changed_touched:
  assumes inv: "heap_inv h" and m: "changed K h owner vs h'" and vs: "\<forall>v\<in>set vs. valid h v"
    and keeps: "\<And>ob ob'. K ob ob' \<Longrightarrow> keeps_kind ob ob'"
  shows "touched h h'"
  using changed_heap_inv [OF inv m vs keeps] changed_fields [OF m] mutated_same [OF heap_inv_wf [OF inv] m]
  by (simp add: touched_def fun_eq_iff young_value_def)

definition class_update :: "(class_object \<Rightarrow> class_object) \<Rightarrow> object \<Rightarrow> (unit \<times> object) res" where
  "class_update f ob = (case ob of ObjClass k \<Rightarrow> Ok ((), ObjClass (f k)) | _ \<Rightarrow> Panic)"

definition bump :: "class_object \<Rightarrow> class_object" where
  "bump k = k\<lparr>cls_version := cls_version k + 1\<rparr>"

lemma bump_simps [simp]:
  "cls_id (bump k) = cls_id k" "cls_mro (bump k) = cls_mro k" "cls_dependents (bump k) = cls_dependents k"
  "cls_attributes (bump k) = cls_attributes k" "cls_version (bump k) = Suc (cls_version k)" "class_trace (bump k) = class_trace k"
  by (simp_all add: bump_def class_trace_def)

text \<open>An update of one class, as it is seen through handles.\<close>

lemma class_update_object:
  assumes inv: "heap_inv h" and k: "try_get h owner = Some (ObjClass k)" and vs: "\<forall>v\<in>set vs. valid h v"
    and f: "cls_mro (f k) = cls_mro k" "set (class_trace (f k)) \<subseteq> set (class_trace k) \<union> set vs"
  shows "\<exists>h'. barred h owner vs (class_update f) = (Ok (), h') \<and> touched h h' \<and>
    try_get h' = (try_get h)(owner \<mapsto> ObjClass (f k))"
proof -
  note wf = heap_inv_wf [OF inv]
  let ?K = "\<lambda>o1 o2. o1 = ObjClass k \<and> o2 = ObjClass (f k)"
  let ?h = "snd (barred h owner vs (class_update f))"
  obtain R where w: "write_barriers h owner vs = (Ok (), h\<lparr>remembered := R\<rparr>)" using write_barriers_Ok [OF wf] by blast
  obtain l where l: "location h owner = Some l" "ho_object (objects h ! l) = ObjClass k"
    using k by (auto simp: try_get_location [OF wf])
  have bound: "l < length (objects h)" using location_in_range [OF wf l(1)] .
  have run: "barred h owner vs (class_update f) = (Ok (), ?h)" and at: "ho_object (objects ?h ! l) = ObjClass (f k)"
    using l bound by (simp_all add: barred_def w with_object_def remembered_update_same class_update_def)
  have "replaceable h owner vs ?K (class_update f)"
    using k f(2) by (auto simp: replaceable_def class_update_def)
  then have m: "changed ?K h owner vs ?h" by (rule barred_changed [OF wf])
  have t: "touched h ?h" by (rule changed_touched [OF inv m vs]) (use f(1) in \<open>auto simp: keeps_kind_def instance_parts_def\<close>)
  have "try_get ?h w = ((try_get h)(owner \<mapsto> ObjClass (f k))) w" for w
  proof (cases "w = owner")
    case True
    then show ?thesis using at l(1) mutated_same(1,2) [OF wf m] by (simp add: try_get_location)
  next
    case False
    then show ?thesis
      using changed_try_get [OF wf m, of w] changed_fresh [OF wf m, of w] by (cases "try_get h w") auto
  qed
  then show ?thesis using run t by blast
qed

lemma bump_versions_step:
  assumes wf: "slots_wf h" and v: "location h v = Some l" "try_get h v = Some (ObjClass k)" "cls_version k < VERSION_MAX"
  shows "bump_versions h (l # ls) = bump_versions (snd (with_object h v (class_update bump))) ls"
  using v location_in_range [OF wf v(1)]
  by (simp add: try_get_location [OF wf] with_object_def class_update_def bump_def)

definition map_class :: "(class_object \<Rightarrow> class_object) \<Rightarrow> object \<Rightarrow> object" where
  "map_class f ob = (case ob of ObjClass k \<Rightarrow> ObjClass (f k) | _ \<Rightarrow> ob)"

abbreviation bump_object :: "object \<Rightarrow> object" where
  "bump_object \<equiv> map_class bump"

lemma map_class_iffs [simp]:
  "map_class f (ObjClass k0) = ObjClass (f k0)"
  "map_class f ob = ObjClass k \<longleftrightarrow> (\<exists>k0. ob = ObjClass k0 \<and> k = f k0)"
  by (simp add: map_class_def) (cases ob; auto simp: map_class_def)

lemma map_class_other: "\<forall>k. ob' \<noteq> ObjClass k \<Longrightarrow> map_class f ob = ob' \<longleftrightarrow> ob = ob'"
  by (cases ob) (auto simp: map_class_def)

lemma bump_versions_classes:
  assumes "heap_inv h" "distinct vs" "\<forall>v\<in>set vs. \<exists>k. try_get h v = Some (ObjClass k) \<and> cls_version k < VERSION_MAX"
  shows "\<exists>h'. bump_versions h (map (\<lambda>d. the (location h d)) vs) = (Ok (), h') \<and> touched h h' \<and>
    (\<forall>w. try_get h' w = (if w \<in> set vs then map_option bump_object (try_get h w) else try_get h w))"
  using assms
proof (induction vs arbitrary: h)
  case Nil
  then show ?case by (simp add: touched_refl)
next
  case (Cons v vs)
  note wf = heap_inv_wf [OF Cons.prems(1)]
  obtain k where k: "try_get h v = Some (ObjClass k)" "cls_version k < VERSION_MAX" using Cons.prems(3) by auto
  then obtain l where l: "location h v = Some l" by (auto simp: try_get_location [OF wf])
  obtain h1 where h1: "with_object h v (class_update bump) = (Ok (), h1)" "touched h h1"
    "try_get h1 = (try_get h)(v \<mapsto> ObjClass (bump k))"
    using class_update_object [OF Cons.prems(1) k(1), of "[]" bump] by (auto simp: with_object_barred)
  have loc: "location h1 = location h" and inv: "heap_inv h1" using h1(2) by (simp_all add: touched_def)
  have "\<forall>w\<in>set vs. \<exists>k. try_get h1 w = Some (ObjClass k) \<and> cls_version k < VERSION_MAX"
    using Cons.prems(2,3) by (auto simp: h1(3))
  from Cons.IH [OF inv _ this] Cons.prems(2) obtain h2 where
    h2: "bump_versions h1 (map (\<lambda>d. the (location h1 d)) vs) = (Ok (), h2)" "touched h1 h2"
      "\<And>w. try_get h2 w = (if w \<in> set vs then map_option bump_object (try_get h1 w) else try_get h1 w)"
    by auto
  have "bump_versions h (map (\<lambda>d. the (location h d)) (v # vs)) = (Ok (), h2)"
    using bump_versions_step [OF wf l k] h1(1) h2(1) l loc by simp
  moreover have "try_get h2 w = (if w \<in> set (v # vs) then map_option bump_object (try_get h w) else try_get h w)" for w
    using Cons.prems(2) k(1) by (auto simp: h2(3) h1(3))
  ultimately show ?case using touched_trans [OF h1(2) h2(2)] by blast
qed

lemma live_dependents_classes:
  assumes wf: "slots_wf h" and ds: "\<forall>d\<in>set ds. \<exists>k. try_get h d = Some (ObjClass k)"
  shows "(\<exists>d. live_dependents h ds = Err d) \<or> (live_dependents h ds = Ok (map (\<lambda>d. the (location h d)) ds) \<and>
    (\<forall>d\<in>set ds. \<exists>k. try_get h d = Some (ObjClass k) \<and> cls_version k < VERSION_MAX))"
  using ds
proof (induction ds)
  case (Cons d ds)
  then obtain k where k: "try_get h d = Some (ObjClass k)" by auto
  then obtain l where l: "location h d = Some l" "ho_object (objects h ! l) = ObjClass k" "l < length (objects h)"
    using location_in_range [OF wf] by (auto simp: try_get_location [OF wf])
  show ?case using Cons k l by auto
qed simp

text \<open>An update of a class with the invalidation of its dependents: either an error, or the class has the
  new contents and it and its dependents a new version.\<close>

definition class_updated :: "heap \<Rightarrow> tvalue \<Rightarrow> class_object \<Rightarrow> class_object \<Rightarrow> heap \<Rightarrow> bool" where
  "class_updated h owner k k1 h' \<longleftrightarrow> touched h h' \<and> cls_version k < VERSION_MAX \<and>
     (\<forall>d\<in>set (cls_dependents k). \<exists>kd. try_get h d = Some (ObjClass kd) \<and> cls_version kd < VERSION_MAX) \<and>
     (\<forall>w. try_get h' w = (if w = owner then Some (ObjClass (bump k1))
        else if w \<in> set (cls_dependents k) then map_option bump_object (try_get h w) else try_get h w))"

lemma graph_dependents:
  assumes g: "class_graph h" and k: "try_get h owner = Some (ObjClass k)"
  shows "owner \<notin> set (cls_dependents k)"
proof
  assume d: "owner \<in> set (cls_dependents k)"
  then have "owner \<in> set (cls_mro k)" using class_graphD(4) [OF g k d] k by auto
  then show False using class_graphD(1) [OF g k] by simp
qed

lemma class_update_fun: "(\<lambda>ob. case ob of ObjClass k \<Rightarrow> Ok ((), ObjClass (f k)) | _ \<Rightarrow> Panic) = class_update f"
  by (simp add: class_update_def fun_eq_iff)

lemma update_class_cases:
  assumes ci: "class_inv h" and k: "try_get h owner = Some (ObjClass k)" and vs: "\<forall>v\<in>set vs. valid h v"
    and f: "cls_mro (f k) = cls_mro k" "set (class_trace (f k)) \<subseteq> set (class_trace k) \<union> set vs"
      "cls_version (f k) = cls_version k"
    and m: "m = run_then (write_barriers h owner vs) (\<lambda>_ h1. update_class h1 owner f)"
  shows "(\<exists>d h1. m = (Err d, h1) \<and> calm h h1) \<or> (\<exists>h'. m = (Ok (), h') \<and> class_updated h owner k (f k) h')"
proof -
  have inv: "heap_inv h" and g: "class_graph h" using ci by (simp_all add: class_inv_def)
  note wf = heap_inv_wf [OF inv]
  obtain R where w: "write_barriers h owner vs = (Ok (), h\<lparr>remembered := R\<rparr>)" using write_barriers_Ok [OF wf] by blast
  let ?h = "h\<lparr>remembered := R\<rparr>"
  have calm: "calm h ?h" using write_barriers_calm [OF inv vs, of owner] w by simp
  obtain l where l: "location h owner = Some l" "ho_object (objects h ! l) = ObjClass k" "l < length (objects h)"
    using k location_in_range [OF wf] by (auto simp: try_get_location [OF wf])
  have wf1: "slots_wf ?h" and loc1: "location ?h = location h" and get1: "try_get ?h = try_get h"
    using wf by (simp_all add: remembered_update_same)
  have ds: "\<forall>d\<in>set (cls_dependents k). \<exists>k. try_get ?h d = Some (ObjClass k)"
    using class_graphD(4) [OF g k] get1 by auto
  have run: "m = run_then (class_invalidation_targets ?h owner, ?h) (\<lambda>(l, ls) h1.
     run_then (with_object h1 owner (class_update f)) (\<lambda>_ h2. bump_versions h2 (l # ls)))"
    by (simp add: m w update_class_def class_update_fun apply_class_invalidation_def)
  consider d where "class_invalidation_targets ?h owner = Err d"
    | "class_invalidation_targets ?h owner = Ok (l, map (\<lambda>d. the (location h d)) (cls_dependents k))"
      "cls_version k < VERSION_MAX" "\<forall>d\<in>set (cls_dependents k). \<exists>kd. try_get h d = Some (ObjClass kd) \<and> cls_version kd < VERSION_MAX"
    using live_dependents_classes [OF wf1 ds] l loc1 get1
    by (cases "VERSION_MAX \<le> cls_version k") (auto simp: class_invalidation_targets_def ok_or_def not_le)
  then show ?thesis
  proof cases
    case 1
    then show ?thesis using run calm by auto
  next
    case 2
    obtain h2 where h2: "barred h owner vs (class_update f) = (Ok (), h2)" "touched h h2" "try_get h2 = (try_get h)(owner \<mapsto> ObjClass (f k))"
      using class_update_object [OF inv k vs, of f] f(1,2) by blast
    have loc2: "location h2 = location h" and inv2: "heap_inv h2" using h2(2) by (simp_all add: touched_def)
    have fresh: "owner \<notin> set (cls_dependents k)" by (rule graph_dependents [OF g k])
    have "distinct (owner # cls_dependents k)" "\<forall>v\<in>set (owner # cls_dependents k). \<exists>k. try_get h2 v = Some (ObjClass k) \<and> cls_version k < VERSION_MAX"
      using fresh class_graphD(2) [OF g k] 2 f(3) by (auto simp: h2(3))
    from bump_versions_classes [OF inv2 this] obtain h3 where h3: "bump_versions h2 (l # map (\<lambda>d. the (location h d)) (cls_dependents k)) = (Ok (), h3)"
      "touched h2 h3" "\<forall>w. try_get h3 w = (if w \<in> set (owner # cls_dependents k) then map_option bump_object (try_get h2 w) else try_get h2 w)"
      using l(1) loc2 by auto
    have "m = (Ok (), h3)" using h2(1) h3(1) by (simp add: run 2 barred_def w del: bump_versions.simps)
    moreover have "class_updated h owner k (f k) h3"
      unfolding class_updated_def using touched_trans [OF h2(2) h3(2)] 2(2,3) h3(3) fresh
      by (auto simp: h2(3))
    ultimately show ?thesis by blast
  qed
qed

text \<open>Every class afterwards, with its version.\<close>

lemma class_updated_class:
  assumes u: "class_updated h owner k k1 h'" and k: "try_get h owner = Some (ObjClass k)"
    and k1: "cls_id k1 = cls_id k" "cls_mro k1 = cls_mro k" "cls_dependents k1 = cls_dependents k" "cls_version k1 = cls_version k"
    and g: "class_graph h"
  shows "try_get h' w = Some (ObjClass kw') \<Longrightarrow> \<exists>kw. try_get h w = Some (ObjClass kw) \<and> cls_id kw' = cls_id kw \<and>
      cls_mro kw' = cls_mro kw \<and> cls_dependents kw' = cls_dependents kw \<and>
      (if w = owner \<or> w \<in> set (cls_dependents k) then cls_version kw < VERSION_MAX \<and> cls_version kw' = Suc (cls_version kw)
       else kw' = kw) \<and> (w \<noteq> owner \<longrightarrow> cls_attributes kw' = cls_attributes kw)"
    "try_get h w = Some (ObjClass kw) \<Longrightarrow> \<exists>kw'. try_get h' w = Some (ObjClass kw')"
proof -
  note u = u [unfolded class_updated_def, THEN conjunct2]
  show "\<exists>kw. try_get h w = Some (ObjClass kw) \<and> cls_id kw' = cls_id kw \<and> cls_mro kw' = cls_mro kw \<and>
      cls_dependents kw' = cls_dependents kw \<and>
      (if w = owner \<or> w \<in> set (cls_dependents k) then cls_version kw < VERSION_MAX \<and> cls_version kw' = Suc (cls_version kw)
       else kw' = kw) \<and> (w \<noteq> owner \<longrightarrow> cls_attributes kw' = cls_attributes kw)" if w: "try_get h' w = Some (ObjClass kw')"
  proof (cases "w = owner")
    case True
    then show ?thesis using u w k k1 by auto
  next
    case False
    show ?thesis
    proof (cases "w \<in> set (cls_dependents k)")
      case True
      then obtain kd where "try_get h w = Some (ObjClass kd)" "cls_version kd < VERSION_MAX" using u by blast
      then show ?thesis using u w False True by auto
    qed (use u w False in auto)
  qed
  show "\<exists>kw'. try_get h' w = Some (ObjClass kw')" if w: "try_get h w = Some (ObjClass kw)"
    using u w by simp
qed

lemma class_updated_other:
  assumes u: "class_updated h owner k k1 h'" and k: "try_get h owner = Some (ObjClass k)" and ob: "\<forall>k. ob \<noteq> ObjClass k"
  shows "try_get h' w = Some ob \<longleftrightarrow> try_get h w = Some ob"
proof -
  have "map_option bump_object x = Some ob \<longleftrightarrow> x = Some ob" for x
    using map_class_other [OF ob] by auto
  then show ?thesis using u k ob unfolding class_updated_def by auto
qed

lemma instance_not_class: "instance_parts ob = Some p \<Longrightarrow> \<forall>k. ob \<noteq> ObjClass k"
  by (auto simp: instance_parts_def)

lemma class_updated_keeps:
  assumes ci: "class_inv h" and u: "class_updated h owner k k1 h'" and k: "try_get h owner = Some (ObjClass k)"
    and k1: "cls_id k1 = cls_id k" "cls_mro k1 = cls_mro k" "cls_dependents k1 = cls_dependents k" "cls_version k1 = cls_version k"
  shows "class_inv h'" "later h h'"
proof -
  have sh: "shape_inv h" and g: "class_graph h" and n: "class_numbers h" and ns: "namespaces_ok h"
    using ci by (simp_all add: class_inv_def)
  have t: "heap_inv h'" "location h' = location h" "young_value h' = young_value h" "next_type h' = next_type h"
    "heap_shapes h' = heap_shapes h" "\<And>v. dead h v \<Longrightarrow> dead h' v" using u by (simp_all add: class_updated_def touched_def)
  note prior = class_updated_class(1) [OF u k k1 g] and forth = class_updated_class(2) [OF u k k1 g]
  note other = class_updated_other [OF u k]
  have "class_graph h'" by (rule graph_transport [OF g]) (use prior forth in blast)+
  moreover have "shape_inv h'"
    using sh other instance_not_class unfolding shape_inv_def t(5) by metis
  moreover have "class_numbers h'"
    unfolding class_numbers_def
  proof (intro allI impI)
    fix v k' assume v: "try_get h' v = Some (ObjClass k')"
    obtain kv where kv: "try_get h v = Some (ObjClass kv)" "cls_id k' = cls_id kv"
      "cls_version k' = cls_version kv \<or> cls_version k' = Suc (cls_version kv) \<and> cls_version kv < VERSION_MAX"
      using prior [OF v] by (auto split: if_splits)
    have old: "1 \<le> cls_id kv \<and> cls_id kv \<le> next_type h \<and> 1 \<le> cls_version kv \<and> cls_version kv \<le> VERSION_MAX \<and>
        (\<forall>w kw. try_get h w = Some (ObjClass kw) \<longrightarrow> cls_id kw = cls_id kv \<longrightarrow> w = v)"
      using n kv(1) unfolding class_numbers_def by blast
    have "w = v" if w: "try_get h' w = Some (ObjClass kw)" "cls_id kw = cls_id k'" for w kw
      using prior [OF w(1)] w(2) old kv(2) by auto
    then show "1 \<le> cls_id k' \<and> cls_id k' \<le> next_type h' \<and> 1 \<le> cls_version k' \<and> cls_version k' \<le> VERSION_MAX \<and>
        (\<forall>w kw. try_get h' w = Some (ObjClass kw) \<longrightarrow> cls_id kw = cls_id k' \<longrightarrow> w = v)"
      using old kv(2,3) t(4) by auto
  qed
  moreover have "namespaces_ok h'"
    unfolding namespaces_ok_def
  proof (intro allI impI)
    fix v c assume "try_get h' v = Some (ObjNamespace c)"
    then have c: "try_get h v = Some (ObjNamespace c)" using other by simp
    have "is_namespace h' b = is_namespace h b" for b using other by (simp add: is_namespace_def)
    moreover have "\<exists>k0. try_get h b = Some (ObjClass k0) \<and> cls_mro kb = cls_mro k0" if "try_get h' b = Some (ObjClass kb)" for b kb
      using prior [OF that] by blast
    ultimately show "cls_dependents c = [] \<and> (\<forall>b\<in>set (cls_bases c). \<not> is_namespace h' b \<and>
       (\<forall>k. try_get h' b = Some (ObjClass k) \<longrightarrow> \<not> young_value h' v \<longrightarrow> (\<forall>a\<in>set (cls_mro k). \<not> young_value h' a)))"
      using ns c unfolding namespaces_ok_def t(3) by metis
  qed
  ultimately show "class_inv h'" using t(1) by (simp add: class_inv_def)
  have attrs: "attributes_at h' a = attributes_at h a" if a: "a \<noteq> owner" "attributes_at h a \<noteq> None" for a
  proof -
    obtain ka where ka: "try_get h a = Some (ObjClass ka)" using attributes_at_Some [OF a(2)] by blast
    obtain ka' where ka': "try_get h' a = Some (ObjClass ka')" using forth [OF ka] by blast
    then show ?thesis using prior [OF ka'] a(1) ka by (auto simp: attributes_at_class)
  qed
  have "class_later h h' v kv kv'" if v: "try_get h v = Some (ObjClass kv)" "try_get h' v = Some (ObjClass kv')" for v kv kv'
  proof -
    note p = prior [OF v(2)]
    have "attributes_at h' a = attributes_at h a" if same: "cls_version kv' = cls_version kv" and a: "a \<in> set (v # cls_mro kv)" for a
    proof (rule attrs)
      show "attributes_at h a \<noteq> None" by (rule graph_attributes [OF g v(1) a])
      show "a \<noteq> owner"
      proof
        assume "a = owner"
        then have "v = owner \<or> v \<in> set (cls_dependents k)"
          using a class_graphD(3) [OF g v(1), of owner] k by auto
        then show False using p v(1) same by auto
      qed
    qed
    then show ?thesis using p v(1) by (auto simp: class_later_def split: if_splits)
  qed
  then show "later h h'"
    unfolding later_def using t forth other [of "ObjBuiltin _"] by simp blast
qed

section \<open>Completing a class\<close>

definition add_dependent :: "tvalue \<Rightarrow> class_object \<Rightarrow> class_object" where
  "add_dependent c k = k\<lparr>cls_dependents := cls_dependents k @ [c]\<rparr>"

lemma add_dependent_simps [simp]:
  "cls_id (add_dependent c k) = cls_id k" "cls_mro (add_dependent c k) = cls_mro k"
  "cls_dependents (add_dependent c k) = cls_dependents k @ [c]" "cls_attributes (add_dependent c k) = cls_attributes k"
  "cls_version (add_dependent c k) = cls_version k" "class_trace (add_dependent c k) = class_trace k"
  by (simp_all add: add_dependent_def class_trace_def)

lemma add_dependent_eq: "add_dependent c = (\<lambda>k. k\<lparr>cls_dependents := cls_dependents k @ [c]\<rparr>)"
  by (simp add: add_dependent_def fun_eq_iff)

lemma add_dependents_classes:
  assumes "heap_inv h" "distinct vs" "\<forall>v\<in>set vs. \<exists>k. try_get h v = Some (ObjClass k)"
  shows "\<exists>h'. add_dependents h c vs = (Ok (), h') \<and> touched h h' \<and>
    (\<forall>w. try_get h' w = (if w \<in> set vs then map_option (map_class (add_dependent c)) (try_get h w) else try_get h w))"
  using assms
proof (induction vs arbitrary: h)
  case Nil
  then show ?case by (simp add: touched_refl)
next
  case (Cons v vs)
  obtain k where k: "try_get h v = Some (ObjClass k)" using Cons.prems(3) by auto
  obtain h1 where h1: "with_object h v (class_update (add_dependent c)) = (Ok (), h1)" "touched h h1"
    "try_get h1 = (try_get h)(v \<mapsto> ObjClass (add_dependent c k))"
    using class_update_object [OF Cons.prems(1) k, of "[]" "add_dependent c"] by (auto simp: with_object_barred)
  have inv: "heap_inv h1" using h1(2) by (simp add: touched_def)
  have "\<forall>w\<in>set vs. \<exists>k. try_get h1 w = Some (ObjClass k)" using Cons.prems(2,3) by (auto simp: h1(3))
  from Cons.IH [OF inv _ this] Cons.prems(2) obtain h2 where h2: "add_dependents h1 c vs = (Ok (), h2)" "touched h1 h2"
      "\<And>w. try_get h2 w = (if w \<in> set vs then map_option (map_class (add_dependent c)) (try_get h1 w) else try_get h1 w)"
    by auto
  have "add_dependents h c (v # vs) = (Ok (), h2)"
    using h1(1) h2(1) by (simp add: class_update_fun add_dependent_eq)
  moreover have "try_get h2 w = (if w \<in> set (v # vs) then map_option (map_class (add_dependent c)) (try_get h w) else try_get h w)" for w
    using Cons.prems(2) k(1) by (auto simp: h2(3) h1(3))
  ultimately show ?case using touched_trans [OF h1(2) h2(2)] by blast
qed

text \<open>The resolution order of a namespace.\<close>

lemma base_lineages_Ok:
  assumes "base_lineages h seen bases = Ok ls"
  shows "(\<forall>b\<in>set bases. \<exists>k. try_get h b = Some (ObjClass k) \<and> (b # cls_mro k) \<in> set ls) \<and>
    (\<forall>s\<in>set ls. \<exists>b k. b \<in> set bases \<and> try_get h b = Some (ObjClass k) \<and> s = b # cls_mro k)"
  using assms
proof (induction bases arbitrary: seen ls)
  case (Cons b bs)
  then obtain k rest where "heap_class h b = Ok k" "base_lineages h (seen @ [b]) bs = Ok rest" "ls = (b # cls_mro k) # rest"
    by (auto simp: and_then_Ok_iff split: if_splits)
  then show ?case using Cons.IH [of "seen @ [b]" rest] by (simp add: heap_class_Ok) blast
qed simp

definition completed_order :: "heap \<Rightarrow> class_object \<Rightarrow> tvalue list \<Rightarrow> bool" where
  "completed_order h c mro \<longleftrightarrow> distinct mro \<and>
     (\<forall>a\<in>set mro. \<exists>ka. try_get h a = Some (ObjClass ka) \<and> subseq (a # cls_mro ka) mro) \<and>
     (\<forall>a\<in>set mro. \<exists>b k. b \<in> set (cls_bases c) \<and> try_get h b = Some (ObjClass k) \<and> a \<in> set (b # cls_mro k))"

lemma resolution_order_Ok:
  assumes g: "class_graph h" and r: "resolution_order h c = Ok mro"
  shows "completed_order h c mro"
proof -
  obtain ls where ls: "base_lineages h [] (cls_bases c) = Ok ls" "mro_merge (ls @ [cls_bases c]) = Ok mro"
    using r by (auto simp: resolution_order_def and_then_Ok_iff)
  have order: "distinct mro" "\<And>s. s \<in> set ls \<Longrightarrow> subseq s mro" "set mro = \<Union> (set ` set (ls @ [cls_bases c]))"
    using mro_merge_sound [OF ls(2)] by (auto simp: consistent_order_def)
  have lin: "\<exists>k. try_get h b = Some (ObjClass k) \<and> b # cls_mro k \<in> set ls" if "b \<in> set (cls_bases c)" for b
    using base_lineages_Ok [OF ls(1)] that by blast
  have from_base: "\<exists>b k. b \<in> set (cls_bases c) \<and> try_get h b = Some (ObjClass k) \<and> a \<in> set (b # cls_mro k) \<and>
      b # cls_mro k \<in> set ls" if a: "a \<in> set mro" for a
  proof -
    consider "a \<in> set (cls_bases c)" | s where "s \<in> set ls" "a \<in> set s" using a order(3) by auto
    then show ?thesis
    proof cases
      case 1
      then show ?thesis using lin [OF 1] by auto
    next
      case (2 s)
      obtain b k where b: "b \<in> set (cls_bases c)" "try_get h b = Some (ObjClass k)" "s = b # cls_mro k"
        using base_lineages_Ok [OF ls(1)] 2(1) by blast
      then show ?thesis using 2 by blast
    qed
  qed
  have "\<exists>ka. try_get h a = Some (ObjClass ka) \<and> subseq (a # cls_mro ka) mro" if a: "a \<in> set mro" for a
  proof -
    obtain b k where b: "try_get h b = Some (ObjClass k)" "a \<in> set (b # cls_mro k)" "b # cls_mro k \<in> set ls"
      using from_base [OF a] by blast
    show ?thesis
    proof (cases "a = b")
      case True
      then show ?thesis using b(1) order(2) [OF b(3)] by blast
    next
      case False
      then obtain ka where ka: "try_get h a = Some (ObjClass ka)" "subseq (a # cls_mro ka) (cls_mro k)"
        using class_graphD(3) [OF g b(1), of a] b(2) by auto
      show ?thesis
        using ka(1) subseq_order.order_trans [OF ka(2) subseq_Cons' [OF order(2) [OF b(3)]]] by blast
    qed
  qed
  moreover have "\<exists>b k. b \<in> set (cls_bases c) \<and> try_get h b = Some (ObjClass k) \<and> a \<in> set (b # cls_mro k)" if "a \<in> set mro" for a
    using from_base [OF that] by blast
  ultimately show ?thesis using order(1) by (simp add: completed_order_def)
qed

definition finished :: "class_object \<Rightarrow> nat \<Rightarrow> tvalue list \<Rightarrow> class_object" where
  "finished c n mro = c\<lparr>cls_id := n, cls_version := 1, cls_mro := mro\<rparr>"

definition class_completed :: "heap \<Rightarrow> tvalue \<Rightarrow> class_object \<Rightarrow> tvalue list \<Rightarrow> heap \<Rightarrow> bool" where
  "class_completed h ns c mro h' \<longleftrightarrow> touched (h\<lparr>next_type := next_type h + 1\<rparr>) h' \<and>
     (\<forall>w. try_get h' w = (if w = ns then Some (ObjClass (finished c (next_type h + 1) mro))
        else if w \<in> set mro then map_option (map_class (add_dependent ns)) (try_get h w) else try_get h w))"

lemma finished_object:
  assumes inv: "heap_inv h" and ns: "namespaces_ok h" and c: "try_get h v = Some (ObjNamespace c)" and mro: "completed_order h c mro"
  shows "\<exists>h'. with_object (h\<lparr>next_type := n\<rparr>) v (\<lambda>ob. case ob of
        ObjNamespace c \<Rightarrow> Ok ((), ObjClass (c\<lparr>cls_id := n, cls_version := 1, cls_mro := mro\<rparr>)) | _ \<Rightarrow> Panic) = (Ok (), h') \<and>
     touched (h\<lparr>next_type := n\<rparr>) h' \<and> try_get h' = (try_get h)(v \<mapsto> ObjClass (finished c n mro))"
proof -
  let ?h = "h\<lparr>next_type := n\<rparr>"
  let ?K = "\<lambda>o1 o2. o1 = ObjNamespace c \<and> o2 = ObjClass (finished c n mro)"
  have inv0: "heap_inv ?h" and wf: "slots_wf h" using inv heap_inv_wf by simp_all
  note wf0 = heap_inv_wf [OF inv0]
  obtain l where l: "location h v = Some l" "ho_object (objects h ! l) = ObjNamespace c" "l < length (objects h)"
    using c location_in_range [OF wf] by (auto simp: try_get_location [OF wf])
  let ?h' = "?h\<lparr>objects := (objects h)[l := (objects h ! l)\<lparr>ho_object := ObjClass (finished c n mro)\<rparr>]\<rparr>"
  have base: "\<exists>b k. b \<in> set (cls_bases c) \<and> try_get h b = Some (ObjClass k) \<and> a \<in> set (b # cls_mro k)" if "a \<in> set mro" for a
    using mro that unfolding completed_order_def by blast
  have edge: "b \<in> set (edges_at h l)" if "b \<in> set (cls_bases c)" for b
    using l(2) that by (simp add: edges_at_def object_trace_def class_trace_def)
  have "barrier_le ?h v mro (remembered ?h)"
    unfolding barrier_le_def
  proof (intro conjI allI impI ballI)
    fix j a k assume a: "location ?h v = Some j" "a \<in> set mro" "location ?h a = Some k" "\<not> young_at ?h j" "young_at ?h k"
    then have old: "j = l" "\<not> young_value h v" "young_value h a" using l(1) by (auto simp: young_value_def)
    obtain b kb where b: "b \<in> set (cls_bases c)" "try_get h b = Some (ObjClass kb)" "a \<in> set (b # cls_mro kb)"
      using base [OF a(2)] by blast
    have "a \<notin> set (cls_mro kb)" using ns c b old(2,3) unfolding namespaces_ok_def by blast
    then have "a \<in> set (edges_at h l)" using edge [OF b(1)] b(3) by simp
    then show "ho_slot (objects ?h ! j) \<in> set (remembered ?h)"
      using inv l(3) a old(1) unfolding heap_inv_def heap_ok_def remembered_ok_def by auto
  qed auto
  moreover have "set (object_trace (ObjClass (finished c n mro))) \<subseteq> set (object_trace (ObjNamespace c)) \<union> set mro"
    by (auto simp: object_trace_def class_trace_def finished_def)
  moreover have "?h' = ?h\<lparr>remembered := remembered ?h, objects := (objects ?h)[l := (objects ?h ! l)\<lparr>ho_object := ObjClass (finished c n mro)\<rparr>]\<rparr>"
    by simp
  ultimately have m: "changed ?K ?h v mro ?h'" using l unfolding changed_def by fastforce
  have valid: "\<forall>a\<in>set mro. valid ?h a"
    using mro by (auto simp: completed_order_def valid_def try_get_location [OF wf])
  have t: "touched ?h ?h'" by (rule changed_touched [OF inv0 m valid]) (auto simp: keeps_kind_def instance_parts_def)
  have "try_get ?h' w = ((try_get h)(v \<mapsto> ObjClass (finished c n mro))) w" for w
  proof (cases "w = v")
    case True
    have "location ?h' v = Some l" using t l(1) by (simp add: touched_def)
    moreover have "slots_wf ?h'" using t heap_inv_wf by (simp add: touched_def)
    ultimately show ?thesis using True l(3) by (simp add: try_get_location)
  next
    case False
    then show ?thesis
      using changed_try_get [OF wf0 m, of w] changed_fresh [OF wf0 m, of w] by (cases "try_get h w") auto
  qed
  moreover have "with_object ?h v (\<lambda>ob. case ob of
        ObjNamespace c \<Rightarrow> Ok ((), ObjClass (c\<lparr>cls_id := n, cls_version := 1, cls_mro := mro\<rparr>)) | _ \<Rightarrow> Panic) = (Ok (), ?h')"
    using l by (simp add: with_object_def finished_def)
  ultimately show ?thesis using t by blast
qed

lemma complete_class_cases:
  assumes ci: "class_inv h" and c: "try_get h v = Some (ObjNamespace c)" and r: "resolution_order h c = Ok mro"
  shows "(\<exists>d. complete_class h v mro = (Err d, h)) \<or>
    (next_type h + 1 < 2 ^ 32 \<and> (\<exists>h'. complete_class h v mro = (Ok (), h') \<and> class_completed h v c mro h'))"
proof (cases "2 ^ 32 \<le> next_type h + 1")
  case False
  have inv: "heap_inv h" and g: "class_graph h" and ns: "namespaces_ok h" using ci by (simp_all add: class_inv_def)
  have mro: "completed_order h c mro" by (rule resolution_order_Ok [OF g r])
  let ?n = "next_type h + 1"
  obtain h1 where h1: "with_object (h\<lparr>next_type := ?n\<rparr>) v (\<lambda>ob. case ob of
        ObjNamespace c \<Rightarrow> Ok ((), ObjClass (c\<lparr>cls_id := ?n, cls_version := 1, cls_mro := mro\<rparr>)) | _ \<Rightarrow> Panic) = (Ok (), h1)"
     "touched (h\<lparr>next_type := ?n\<rparr>) h1" "try_get h1 = (try_get h)(v \<mapsto> ObjClass (finished c ?n mro))"
    using finished_object [OF inv ns c mro, of ?n] by blast
  have fresh: "v \<notin> set mro" using mro c unfolding completed_order_def by force
  have "\<forall>a\<in>set mro. \<exists>k. try_get h1 a = Some (ObjClass k)" "distinct mro" "heap_inv h1"
    using mro h1(2) by (auto simp: completed_order_def h1(3) touched_def)
  from add_dependents_classes [OF this(3,2,1), of v] obtain h2 where h2: "add_dependents h1 v mro = (Ok (), h2)" "touched h1 h2"
    "\<And>w. try_get h2 w = (if w \<in> set mro then map_option (map_class (add_dependent v)) (try_get h1 w) else try_get h1 w)"
    by blast
  have "complete_class h v mro = (Ok (), h2)"
    using False h1(1) h2(1) by (simp add: complete_class_def Let_def del: One_nat_def)
  moreover have "class_completed h v c mro h2"
    unfolding class_completed_def using touched_trans [OF h1(2) h2(2)] fresh by (auto simp: h2(3) h1(3))
  ultimately show ?thesis using False by auto
qed (simp add: complete_class_def Let_def)

lemma finished_simps [simp]:
  "cls_mro (finished c n mro) = mro" "cls_id (finished c n mro) = n" "cls_version (finished c n mro) = 1"
  "cls_dependents (finished c n mro) = cls_dependents c"
  by (simp_all add: finished_def)

definition keeps_class :: "class_object \<Rightarrow> class_object \<Rightarrow> bool" where
  "keeps_class k k' \<longleftrightarrow> cls_id k' = cls_id k \<and> cls_mro k' = cls_mro k \<and> cls_version k' = cls_version k \<and>
     cls_attributes k' = cls_attributes k"

lemma class_completed_class:
  assumes u: "class_completed h v c mro h'" and c: "try_get h v = Some (ObjNamespace c)"
  shows "try_get h' v = Some (ObjClass (finished c (next_type h + 1) mro))"
    "try_get h w = Some (ObjClass k) \<Longrightarrow> \<exists>k'. try_get h' w = Some (ObjClass k') \<and> keeps_class k k' \<and>
       cls_dependents k' = cls_dependents k @ (if w \<in> set mro then [v] else [])"
    "try_get h' w = Some (ObjClass k') \<Longrightarrow> w \<noteq> v \<Longrightarrow> \<exists>k. try_get h w = Some (ObjClass k) \<and> keeps_class k k' \<and>
       cls_dependents k' = cls_dependents k @ (if w \<in> set mro then [v] else [])"
    "\<forall>k. ob \<noteq> ObjClass k \<Longrightarrow> try_get h' w = Some ob \<longleftrightarrow> w \<noteq> v \<and> try_get h w = Some ob"
proof -
  have get: "try_get h' w = (if w = v then Some (ObjClass (finished c (next_type h + 1) mro))
        else if w \<in> set mro then map_option (map_class (add_dependent v)) (try_get h w) else try_get h w)" for w
    using u unfolding class_completed_def by blast
  show "try_get h' v = Some (ObjClass (finished c (next_type h + 1) mro))" by (simp add: get)
  show "\<exists>k'. try_get h' w = Some (ObjClass k') \<and> keeps_class k k' \<and>
       cls_dependents k' = cls_dependents k @ (if w \<in> set mro then [v] else [])" if "try_get h w = Some (ObjClass k)"
    using that c by (auto simp: get keeps_class_def)
  show "\<exists>k. try_get h w = Some (ObjClass k) \<and> keeps_class k k' \<and>
       cls_dependents k' = cls_dependents k @ (if w \<in> set mro then [v] else [])" if "try_get h' w = Some (ObjClass k')" "w \<noteq> v"
    using that by (auto simp: get keeps_class_def split: if_splits)
  show "try_get h' w = Some ob \<longleftrightarrow> w \<noteq> v \<and> try_get h w = Some ob" if ob: "\<forall>k. ob \<noteq> ObjClass k"
  proof -
    have "map_option (map_class (add_dependent v)) x = Some ob \<longleftrightarrow> x = Some ob" for x using map_class_other [OF ob] by auto
    then show ?thesis using ob by (auto simp: get)
  qed
qed

lemma class_completed_graph:
  assumes u: "class_completed h v c mro h'" and c: "try_get h v = Some (ObjNamespace c)"
    and g: "class_graph h" and mro: "completed_order h c mro" and none: "cls_dependents c = []"
  shows "class_graph h'"
  unfolding class_graph_def
proof (intro allI impI conjI ballI)
  note cls = class_completed_class [OF u c]
  have fresh: "v \<notin> set mro" using mro c unfolding completed_order_def by force
  fix w k' assume w: "try_get h' w = Some (ObjClass k')"
  have at_v: "k' = finished c (next_type h + 1) mro" if "w = v" using that w cls(1) by simp
  have notin: "v \<notin> set (cls_dependents kw)" if "try_get h w = Some (ObjClass kw)" for kw
    using class_graphD(4) [OF g that, of v] c by auto
  show "distinct (w # cls_mro k')"
    using cls(3) [OF w] class_graphD(1) [OF g, of w] at_v fresh mro
    by (cases "w = v") (auto simp: completed_order_def keeps_class_def)
  show "distinct (cls_dependents k')"
    using cls(3) [OF w] class_graphD(2) [OF g, of w] at_v none notin by (cases "w = v") auto
  show "\<exists>ka. try_get h' a = Some (ObjClass ka) \<and> w \<in> set (cls_dependents ka) \<and> subseq (a # cls_mro ka) (cls_mro k')"
    if a: "a \<in> set (cls_mro k')" for a
  proof -
    have "\<exists>ka. try_get h a = Some (ObjClass ka) \<and> subseq (a # cls_mro ka) (cls_mro k') \<and>
        (w \<in> set (cls_dependents ka) \<or> w = v \<and> a \<in> set mro)"
    proof (cases "w = v")
      case True
      then show ?thesis using at_v a mro unfolding completed_order_def by auto
    next
      case False
      obtain kw where "try_get h w = Some (ObjClass kw)" "cls_mro k' = cls_mro kw"
        using cls(3) [OF w False] by (auto simp: keeps_class_def)
      then show ?thesis using class_graphD(3) [OF g, of w kw a] a by auto
    qed
    then obtain ka where ka: "try_get h a = Some (ObjClass ka)" "subseq (a # cls_mro ka) (cls_mro k')"
        "w \<in> set (cls_dependents ka) \<or> w = v \<and> a \<in> set mro" by blast
    show ?thesis using cls(2) [OF ka(1)] ka(2,3) by (auto simp: keeps_class_def)
  qed
  show "\<exists>kd. try_get h' d = Some (ObjClass kd) \<and> w \<in> set (cls_mro kd)" if d: "d \<in> set (cls_dependents k')" for d
  proof -
    have "w \<noteq> v" using at_v none d by auto
    then obtain kw where kw: "try_get h w = Some (ObjClass kw)" "d \<in> set (cls_dependents kw) \<or> d = v \<and> w \<in> set mro"
      using cls(3) [OF w] d by (fastforce split: if_splits)
    then show ?thesis
      using class_graphD(4) [OF g kw(1), of d] cls(2) [of d] cls(1) by (fastforce simp: keeps_class_def)
  qed
qed

lemma class_completed_numbers:
  assumes u: "class_completed h v c mro h'" and c: "try_get h v = Some (ObjNamespace c)" and n: "class_numbers h"
  shows "class_numbers h'"
proof -
  note cls = class_completed_class [OF u c]
  have next_type: "next_type h' = next_type h + 1" using u by (simp add: class_completed_def touched_def)
  have old: "1 \<le> cls_id k \<and> cls_id k \<le> next_type h \<and> 1 \<le> cls_version k \<and> cls_version k \<le> VERSION_MAX"
    "try_get h x = Some (ObjClass kx) \<Longrightarrow> cls_id kx = cls_id k \<Longrightarrow> x = w" if "try_get h w = Some (ObjClass k)" for w k x kx
    using n that unfolding class_numbers_def by blast+
  have at: "\<exists>k. try_get h w = Some (ObjClass k) \<and> cls_id k' = cls_id k \<and> cls_version k' = cls_version k"
    if "try_get h' w = Some (ObjClass k')" "w \<noteq> v" for w k'
    using cls(3) [OF that] by (auto simp: keeps_class_def)
  have new: "cls_id k' \<noteq> next_type h + 1" if "try_get h' w = Some (ObjClass k')" "w \<noteq> v" for w k'
    using at [OF that] old(1) by fastforce
  show ?thesis
    unfolding class_numbers_def
  proof (intro allI impI)
    fix w k' assume w: "try_get h' w = Some (ObjClass k')"
    have "1 \<le> cls_id k' \<and> cls_id k' \<le> next_type h' \<and> 1 \<le> cls_version k' \<and> cls_version k' \<le> VERSION_MAX"
    proof (cases "w = v")
      case True
      then show ?thesis using w cls(1) next_type by (auto simp: VERSION_MAX_def)
    next
      case False
      then show ?thesis using at [OF w False] old(1) next_type by force
    qed
    moreover have "x = w" if x: "try_get h' x = Some (ObjClass kx)" "cls_id kx = cls_id k'" for x kx
    proof (cases "w = v \<or> x = v")
      case True
      then show ?thesis using new [OF w] new [OF x(1)] x w cls(1) by (cases "w = v"; cases "x = v") auto
    next
      case False
      then show ?thesis using at [OF w] at [OF x(1)] old(2) x(2) by fastforce
    qed
    ultimately show "1 \<le> cls_id k' \<and> cls_id k' \<le> next_type h' \<and> 1 \<le> cls_version k' \<and> cls_version k' \<le> VERSION_MAX \<and>
        (\<forall>x kx. try_get h' x = Some (ObjClass kx) \<longrightarrow> cls_id kx = cls_id k' \<longrightarrow> x = w)" by blast
  qed
qed

lemma class_completed_keeps:
  assumes ci: "class_inv h" and c: "try_get h v = Some (ObjNamespace c)" and mro: "completed_order h c mro"
    and u: "class_completed h v c mro h'"
  shows "class_inv h'" "later h h'"
proof -
  have sh: "shape_inv h" and g: "class_graph h" and n: "class_numbers h" and ns: "namespaces_ok h"
    using ci by (simp_all add: class_inv_def)
  note cls = class_completed_class [OF u c]
  have t: "heap_inv h'" "location h' = location h" "young_value h' = young_value h"
    "heap_shapes h' = heap_shapes h" "\<And>w. dead h w \<Longrightarrow> dead h' w" using u by (simp_all add: class_completed_def touched_def)
  have "cls_dependents c = []" using ns c unfolding namespaces_ok_def by blast
  then have "class_graph h'" by (rule class_completed_graph [OF u c g mro])
  moreover have "shape_inv h'"
    using sh cls(4) instance_not_class unfolding shape_inv_def t(4) by metis
  moreover have "namespaces_ok h'"
    unfolding namespaces_ok_def
  proof (intro allI impI conjI ballI)
    fix w c1 assume "try_get h' w = Some (ObjNamespace c1)"
    then have c1: "try_get h w = Some (ObjNamespace c1)" using cls(4) by simp
    show "cls_dependents c1 = []" using ns c1 unfolding namespaces_ok_def by blast
    fix b assume b: "b \<in> set (cls_bases c1)"
    have no: "\<not> is_namespace h b" using ns c1 b unfolding namespaces_ok_def by blast
    then show "\<not> is_namespace h' b" using cls(4) by (simp add: is_namespace_def)
    fix kb a assume kb: "try_get h' b = Some (ObjClass kb)" "\<not> young_value h' w" "a \<in> set (cls_mro kb)"
    have "b \<noteq> v" using no c by (auto simp: is_namespace_def)
    then obtain k0 where "try_get h b = Some (ObjClass k0)" "cls_mro kb = cls_mro k0"
      using cls(3) [OF kb(1)] by (auto simp: keeps_class_def)
    then show "\<not> young_value h' a" using ns c1 b kb(2,3) t(3) unfolding namespaces_ok_def by metis
  qed
  ultimately show "class_inv h'"
    using t(1) class_completed_numbers [OF u c n] by (simp add: class_inv_def)
  have attrs: "attributes_at h' a = attributes_at h a" if a: "attributes_at h a \<noteq> None" for a
  proof -
    obtain ka where ka: "try_get h a = Some (ObjClass ka)" using attributes_at_Some [OF a] by blast
    then show ?thesis using cls(2) [OF ka] by (auto simp: attributes_at_class keeps_class_def)
  qed
  have "\<exists>k'. try_get h' w = Some (ObjClass k') \<and> class_later h h' w kw k'" if w: "try_get h w = Some (ObjClass kw)" for w kw
    using cls(2) [OF w] attrs [OF graph_attributes [OF g w]] by (auto simp: class_later_def keeps_class_def)
  moreover have "try_get h' w = Some (ObjBuiltin b)" if "try_get h w = Some (ObjBuiltin b)" for w b
    using that cls(4) [of "ObjBuiltin b" w] c by auto
  ultimately show "later h h'" using t by (simp add: later_def)
qed

end
