(* ===== verification/Class_Collection.thy ===== *)
theory Class_Collection
  imports Class_Updates
begin

text \<open>
  A collection and the class graph: the ancestors of a class that survives survive with it, and its
  dependents are pruned to those that are alive.
\<close>

definition prune_class :: "heap \<Rightarrow> class_object \<Rightarrow> class_object" where
  "prune_class h k = k\<lparr>cls_dependents := filter (\<lambda>d. location h d \<noteq> None) (cls_dependents k)\<rparr>"

lemma prune_class_simps [simp]:
  "cls_id (prune_class h k) = cls_id k" "cls_mro (prune_class h k) = cls_mro k" "cls_version (prune_class h k) = cls_version k"
  "cls_attributes (prune_class h k) = cls_attributes k"
  "cls_dependents (prune_class h k) = filter (\<lambda>d. location h d \<noteq> None) (cls_dependents k)"
  by (simp_all add: prune_class_def)

lemma prune_dependents_map: "prune_dependents (slots h) ob = map_class (prune_class h) ob"
proof -
  have "still_live (slots h) = (\<lambda>d. location h d \<noteq> None)"
    by (auto simp: fun_eq_iff still_live_def location_def split: option.splits)
  then show ?thesis by (simp add: prune_dependents_def map_class_def prune_class_def split: object.split)
qed

lemma collected_object:
  assumes inv: "heap_inv h" and inv': "heap_inv h'" and c: "collected y h roots h'"
  shows "try_get h' v = (if location h' v = None then None else map_option (map_class (prune_class h')) (try_get h v))"
  using collected_alive [OF heap_inv_wf [OF inv] c, of v]
  by (auto simp: prune_dependents_map try_get_def)

lemma collected_fields:
  assumes "collected y h roots h'"
  shows "next_type h' = next_type h" "heap_shapes h' = heap_shapes h"
proof -
  obtain h2 K where "requeued h h2" "swept h2 K h'" using assms by (auto simp: collected_def)
  moreover have "next_type h2 = next_type h" "heap_shapes h2 = heap_shapes h"
    using \<open>requeued h h2\<close> by (cases h; cases h2; simp add: requeued_def)+
  ultimately show "next_type h' = next_type h" "heap_shapes h' = heap_shapes h" by (simp_all add: swept_def)
qed

lemma collected_keeps:
  assumes ci: "class_inv h" and good: "good_step h True (r, h')" and c: "collected y h roots h'"
  shows "class_inv h'" "later h h'"
proof -
  have hi: "heap_inv h" and sh: "shape_inv h" and g: "class_graph h" and n: "class_numbers h" and ns: "namespaces_ok h"
    using ci by (simp_all add: class_inv_def)
  have hi': "heap_inv h'" and dead: "\<And>v. dead h v \<Longrightarrow> dead h' v"
    and gone: "\<And>v. location h v \<noteq> None \<Longrightarrow> location h' v \<noteq> None \<or> dead h' v"
    using good by (auto simp: good_step_def)
  note fields = collected_fields [OF c] and get = collected_object [OF hi hi' c]
  have old: "\<not> young_value h' v" for v
  proof -
    have "heap_ok h" using hi by (simp add: heap_inv_def)
    then show ?thesis using collected_heap_ok [OF _ c] location_in_range [OF heap_inv_wf [OF hi']]
      by (auto simp: young_value_def)
  qed
  have prior: "location h' v \<noteq> None \<and> (\<exists>k. try_get h v = Some (ObjClass k) \<and> k' = prune_class h' k)"
    if "try_get h' v = Some (ObjClass k')" for v k'
    using that by (auto simp: get split: if_splits)
  have other: "try_get h' v = Some ob \<longleftrightarrow> location h' v \<noteq> None \<and> try_get h v = Some ob" if ob: "\<forall>k. ob \<noteq> ObjClass k" for v ob
  proof -
    have "map_option (map_class (prune_class h')) x = Some ob \<longleftrightarrow> x = Some ob" for x using map_class_other [OF ob] by auto
    then show ?thesis by (simp add: get)
  qed
  have alive: "try_get h' a = Some (ObjClass (prune_class h' ka))"
    if v: "try_get h' v = Some (ObjClass k')" "a \<in> set (cls_mro k')" "try_get h a = Some (ObjClass ka)" for v k' a ka
  proof -
    have "valid h' a" by (rule traced_valid [OF hi' v(1)]) (use v(2) in \<open>simp add: object_trace_def class_trace_def\<close>)
    then have "location h' a \<noteq> None" using try_get_index [OF v(3)] by (simp add: valid_def)
    then show ?thesis using v(3) by (simp add: get)
  qed
  have "class_graph h'"
    unfolding class_graph_def
  proof (intro allI impI conjI ballI)
    fix v k' assume v: "try_get h' v = Some (ObjClass k')"
    obtain k where k: "location h' v \<noteq> None" "try_get h v = Some (ObjClass k)" "k' = prune_class h' k" using prior [OF v] by blast
    note kept = class_graphD [OF g k(2)]
    show "distinct (v # cls_mro k')" "distinct (cls_dependents k')" using kept(1,2) k(3) by simp_all
    show "\<exists>ka. try_get h' a = Some (ObjClass ka) \<and> v \<in> set (cls_dependents ka) \<and> subseq (a # cls_mro ka) (cls_mro k')"
      if a: "a \<in> set (cls_mro k')" for a
    proof -
      obtain ka where ka: "try_get h a = Some (ObjClass ka)" "v \<in> set (cls_dependents ka)" "subseq (a # cls_mro ka) (cls_mro k)"
        using kept(3) [of a] a k(3) by auto
      then show ?thesis using alive [OF v a ka(1)] k by auto
    qed
    show "\<exists>kd. try_get h' d = Some (ObjClass kd) \<and> v \<in> set (cls_mro kd)" if d: "d \<in> set (cls_dependents k')" for d
      using kept(4) [of d] d k(3) get [of d] by auto
  qed
  moreover have "shape_inv h'"
    using sh other instance_not_class unfolding shape_inv_def fields(2) by metis
  moreover have "class_numbers h'"
    unfolding class_numbers_def
  proof (intro allI impI)
    fix v k' assume v: "try_get h' v = Some (ObjClass k')"
    obtain k where k: "try_get h v = Some (ObjClass k)" "k' = prune_class h' k" using prior [OF v] by blast
    have old: "1 \<le> cls_id k \<and> cls_id k \<le> next_type h \<and> 1 \<le> cls_version k \<and> cls_version k \<le> VERSION_MAX \<and>
        (\<forall>w kw. try_get h w = Some (ObjClass kw) \<longrightarrow> cls_id kw = cls_id k \<longrightarrow> w = v)"
      using n k(1) unfolding class_numbers_def by blast
    have "w = v" if w: "try_get h' w = Some (ObjClass kw)" "cls_id kw = cls_id k'" for w kw
      using prior [OF w(1)] w(2) old k(2) by auto
    then show "1 \<le> cls_id k' \<and> cls_id k' \<le> next_type h' \<and> 1 \<le> cls_version k' \<and> cls_version k' \<le> VERSION_MAX \<and>
        (\<forall>w kw. try_get h' w = Some (ObjClass kw) \<longrightarrow> cls_id kw = cls_id k' \<longrightarrow> w = v)"
      using old k(2) fields(1) by auto
  qed
  moreover have "namespaces_ok h'"
    using ns old unfolding namespaces_ok_def is_namespace_def by (auto simp: other)
  ultimately show "class_inv h'" using hi' by (simp add: class_inv_def)
  have attrs: "attributes_at h' a = attributes_at h a"
    if v: "try_get h' v = Some (ObjClass k')" "a \<in> set (v # cls_mro k')" "attributes_at h a \<noteq> None" for v k' a
  proof -
    obtain ka where ka: "try_get h a = Some (ObjClass ka)" using attributes_at_Some [OF v(3)] by blast
    have "try_get h' a = Some (ObjClass (prune_class h' ka))"
      using alive [OF v(1) _ ka] v(1,2) prior [OF v(1)] ka by (cases "a = v") auto
    then show ?thesis using ka by (simp add: attributes_at_class)
  qed
  have "try_get h' v = None \<or> (\<exists>k'. try_get h' v = Some (ObjClass k') \<and> class_later h h' v k k')"
    if v: "try_get h v = Some (ObjClass k)" for v k
  proof (cases "location h' v")
    case (Some l)
    then have k': "try_get h' v = Some (ObjClass (prune_class h' k))" using v by (simp add: get)
    then show ?thesis using attrs [OF k'] graph_attributes [OF g v] by (auto simp: class_later_def)
  qed (simp add: get)
  moreover have "try_get h' v = None \<or> try_get h' v = Some (ObjBuiltin b)" if "try_get h v = Some (ObjBuiltin b)" for v b
    using that other [of "ObjBuiltin b" v] get [of v] by (cases "location h' v") auto
  ultimately show "later h h'" using dead gone fields by (simp add: later_def)
qed

end
