(* ===== verification/Class_Events.thy ===== *)
theory Class_Events
  imports Class_Collection
begin

text \<open>
  The heap with its classes as a state machine: the events of the heap, of dictionaries and
  namespaces, the completion of a class, attribute writes and collections. Every event keeps the
  invariant of the class graph and leads to a later heap.
\<close>

section \<open>More calm operations\<close>

lemma class_entry_cases:
  "(\<exists>order. class_entry h p c = c\<lparr>cls_extra_attributes := cls_extra_attributes c @ [p], cls_dictionary_order := order\<rparr>) \<or>
   (\<exists>name order. class_entry h p c = c\<lparr>cls_attributes := cls_attributes c @ [(name, snd p)], cls_dictionary_order := order\<rparr>)"
proof (cases "try_get h (fst p)")
  case (Some ob)
  then show ?thesis by (cases ob) (auto simp: class_entry_def)
qed (auto simp: class_entry_def)

lemma class_entry_trace:
  "set (class_trace (class_entry h p c)) \<subseteq> set (class_trace c) \<union> {fst p, snd p}"
  using class_entry_cases [of h p c]
proof (elim disjE exE)
  fix order assume e: "class_entry h p c = c\<lparr>cls_extra_attributes := cls_extra_attributes c @ [p], cls_dictionary_order := order\<rparr>"
  show ?thesis unfolding e by (cases p) (auto simp: class_trace_def)
next
  fix name order
  assume e: "class_entry h p c = c\<lparr>cls_attributes := cls_attributes c @ [(name, snd p)], cls_dictionary_order := order\<rparr>"
  show ?thesis unfolding e by (auto simp: class_trace_def)
qed

lemma class_entry_same: "cls_bases (class_entry h p c) = cls_bases c" "cls_dependents (class_entry h p c) = cls_dependents c"
  using class_entry_cases [of h p c] by auto

lemma class_from_entries_trace:
  "set (class_trace (class_from_entries h es c)) \<subseteq> set (class_trace c) \<union> set (concat (map (\<lambda>(k, v). [k, v]) es))"
proof -
  have "set (class_trace (fold (class_entry h) es c)) \<subseteq> set (class_trace c) \<union> set (concat (map (\<lambda>(k, v). [k, v]) es))" for c
  proof (induction es arbitrary: c)
    case (Cons p es)
    obtain k v where p: "p = (k, v)" by force
    have "set (class_trace (class_entry h p c)) \<subseteq> set (class_trace c) \<union> {k, v}" using class_entry_trace [of h p c] by (simp add: p)
    then show ?case using Cons.IH [of "class_entry h p c"] by (simp add: p) blast
  qed simp
  moreover have "set (class_trace (c\<lparr>cls_attributes := [], cls_extra_attributes := [], cls_dictionary_order := [],
      cls_namespace_mapping := None\<rparr>)) \<subseteq> set (class_trace c)" by (auto simp: class_trace_def)
  ultimately show ?thesis unfolding class_from_entries_def by blast
qed

lemma class_from_entries_same [simp]:
  "cls_bases (class_from_entries h es c) = cls_bases c" "cls_dependents (class_from_entries h es c) = cls_dependents c"
proof -
  have "cls_bases (fold (class_entry h) es c) = cls_bases c \<and> cls_dependents (fold (class_entry h) es c) = cls_dependents c" for c
    by (induction es arbitrary: c) (simp_all add: class_entry_same)
  then show "cls_bases (class_from_entries h es c) = cls_bases c" "cls_dependents (class_from_entries h es c) = cls_dependents c"
    by (simp_all add: class_from_entries_def)
qed

lemma class_from_entries_barrier: "class_from_entries (h\<lparr>remembered := R\<rparr>) = class_from_entries h"
proof -
  have "class_entry (h\<lparr>remembered := R\<rparr>) = class_entry h" by (intro ext) (simp add: class_entry_def remembered_update_same)
  then show ?thesis by (intro ext) (simp add: class_from_entries_def)
qed

lemma expect_dict_Ok: "expect_dict h v = Ok d \<Longrightarrow> try_get h v = Some (ObjDict d)"
proof -
  assume d: "expect_dict h v = Ok d"
  then obtain ob where "try_get h v = Some ob" by (auto simp: expect_dict_def and_then_Ok_iff heap_get_Ok)
  then show "try_get h v = Some (ObjDict d)" using d by (cases ob) (simp_all add: expect_dict_def heap_get_def ok_or_def)
qed

lemma dict_entries_valid:
  assumes inv: "heap_inv h" and es: "heap_dict_entries h owner = Ok es"
  shows "\<forall>w\<in>set (concat (map (\<lambda>(k, v). [k, v]) es)). valid h w"
proof -
  obtain d where d: "try_get h (native_value h owner) = Some (ObjDict d)" "es = dict_entries d"
    using es by (auto simp: heap_dict_entries_def and_then_Ok_iff dest: expect_dict_Ok)
  show ?thesis
    using traced_valid [OF inv d(1)] by (force simp: d(2) dict_trace_set)
qed

lemma take_mapping_calm:
  assumes inv: "heap_inv h"
  shows "calm h (snd (take_mapping h ns))"
proof -
  have store: "calm h (snd (run_then (write_barriers h ns (concat (map (\<lambda>(k, v). [k, v]) es))) (\<lambda>_ h4.
         with_object h4 ns (\<lambda>ob. case ob of
             ObjNamespace c \<Rightarrow> Ok ((), ObjNamespace (class_from_entries h4 es c)) | _ \<Rightarrow> Panic))))"
    if es: "heap_dict_entries h mapping = Ok es" for es mapping
  proof -
    let ?vs = "concat (map (\<lambda>(k, v). [k, v]) es)"
    let ?f = "\<lambda>ob. case ob of ObjNamespace c \<Rightarrow> Ok ((), ObjNamespace (class_from_entries h es c)) | _ \<Rightarrow> Panic"
    obtain R where w: "write_barriers h ns ?vs = (Ok (), h\<lparr>remembered := R\<rparr>)"
      using write_barriers_Ok [OF heap_inv_wf [OF inv]] by blast
    have "replaceable h ns ?vs calm_kind ?f"
      using class_from_entries_trace [of h es] by (auto simp: replaceable_def split: object.splits)
    from barred_calm [OF inv dict_entries_valid [OF inv es] this] show ?thesis
      by (simp add: barred_def w class_from_entries_barrier)
  qed
  show ?thesis
    unfolding take_mapping_def
    by (intro calm_pure [OF inv]) (auto intro!: calm_pure [OF inv] store simp: calm_refl [OF inv] split: option.split)
qed

lemma constant_valid [simp]: "valid h NONE" "valid h UNBOUND"
  by (simp_all add: valid_def NONE_def UNBOUND_def heap_index_def)

lemma wrap_new_calm:
  assumes inv: "heap_inv h"
  shows "calm h (snd (wrap_new lib hl h ns))"
proof -
  have "valid h f" if "is_function h f" for f
  proof -
    obtain ob where "try_get h f = Some ob" using \<open>is_function h f\<close> by (auto simp: is_function_def split: option.splits)
    then show ?thesis by (auto simp: valid_def try_get_def split: option.splits)
  qed
  then show ?thesis
    unfolding wrap_new_def
    by (intro calm_pure [OF inv])
      (auto intro!: alloc_then_calm [OF inv] namespace_set_calm simp: calm_refl [OF inv] object_trace_def split: option.split)
qed

lemma default_hash_calm: "heap_inv h \<Longrightarrow> calm h (snd (default_hash lib hl h ns))"
  unfolding default_hash_def
  by (auto intro!: calm_pure namespace_set_calm simp: calm_refl)

lemma set_annotations_trace:
  "set (object_trace (ObjFunction (set_annotations x forget f))) \<subseteq> set (object_trace (ObjFunction f)) \<union> set (opt x)"
  by (cases forget) (auto simp: set_annotations_def object_trace_def split: option.splits)

lemma calm_kind_function [simp]: "calm_kind (ObjFunction f) (ObjFunction f')"
  by (rule same_calm_kind) (simp add: same_kind_def instance_parts_def)

lemma set_function_annotations_calm:
  assumes inv: "heap_inv h" and x: "\<forall>v\<in>set (opt x). valid h v"
  shows "calm h (snd (run_then (write_barriers h owner (opt x)) (\<lambda>_ h1. set_function_annotations h1 owner x)))"
proof -
  have f: "replaceable h owner (opt x) calm_kind (\<lambda>ob. case ob of
      ObjFunction f \<Rightarrow> Ok ((), ObjFunction (set_annotations x True f)) | _ \<Rightarrow> Panic)"
    unfolding replaceable_def
  proof (intro allI impI)
    fix ob u ob' assume "(case ob of ObjFunction f \<Rightarrow> Ok ((), ObjFunction (set_annotations x True f)) | _ \<Rightarrow> Panic) = Ok (u, ob')"
    then obtain f where "ob = ObjFunction f" "ob' = ObjFunction (set_annotations x True f)" by (cases ob) simp_all
    then show "calm_kind ob ob' \<and> set (object_trace ob') \<subseteq> set (object_trace ob) \<union> set (opt x)"
      using set_annotations_trace by simp
  qed
  show ?thesis using barred_calm [OF inv x f] by (simp add: barred_def set_function_annotations_def)
qed

lemma exception_value_kind:
  "calm_kind (ObjException e) (ObjException (e\<lparr>exc_stop_iteration_value := x\<rparr>))"
  "set (object_trace (ObjException (e\<lparr>exc_stop_iteration_value := x\<rparr>))) \<subseteq> set (object_trace (ObjException e)) \<union> set (opt x)"
  by (auto simp: calm_kind_def same_kind_def keeps_kind_def kindred_def instance_parts_def class_view_def namespace_view_def
      builtin_view_def object_trace_def)

lemma set_stop_value_calm:
  assumes inv: "heap_inv h" and v: "valid h v"
  shows "calm h (snd (run_then (write_barrier h owner v) (\<lambda>_ h1. set_stop_value h1 owner v)))"
proof -
  have f: "replaceable h owner [v] calm_kind (\<lambda>ob. case ob of
      ObjException e \<Rightarrow> Ok ((), ObjException (e\<lparr>exc_stop_iteration_value := Some v\<rparr>)) | _ \<Rightarrow> Panic)"
    unfolding replaceable_def
  proof (intro allI impI)
    fix ob u ob' assume "(case ob of ObjException e \<Rightarrow> Ok ((), ObjException (e\<lparr>exc_stop_iteration_value := Some v\<rparr>)) | _ \<Rightarrow> Panic) = Ok (u, ob')"
    then obtain e where "ob = ObjException e" "ob' = ObjException (e\<lparr>exc_stop_iteration_value := Some v\<rparr>)" by (cases ob) simp_all
    then show "calm_kind ob ob' \<and> set (object_trace ob') \<subseteq> set (object_trace ob) \<union> set [v]"
      using exception_value_kind [where e = e and x = "Some v"] by simp
  qed
  show ?thesis using barrier_with_object_calm [OF inv v f] by (simp add: set_stop_value_def)
qed

lemma immediate_barrier: "heap_index v = None \<Longrightarrow> write_barrier h owner v = (Ok (), h)"
  by (auto simp: write_barrier_def location_def split: option.splits)

lemma clear_stop_value_calm:
  assumes "heap_inv h"
  shows "calm h (snd (set_stop_value h owner NONE))"
proof -
  have none: "heap_index NONE = None" by (simp add: NONE_def heap_index_def)
  show ?thesis using set_stop_value_calm [OF assms constant_valid(1), of owner] by (simp add: immediate_barrier [OF none])
qed

lemma completed_namespace_Ok: "completed_namespace h ns = Ok c \<Longrightarrow> try_get h ns = Some (ObjNamespace c)"
proof -
  assume c: "completed_namespace h ns = Ok c"
  then obtain ob where "try_get h ns = Some ob" by (auto simp: completed_namespace_def and_then_Ok_iff heap_get_Ok)
  then show "try_get h ns = Some (ObjNamespace c)"
    using c by (cases ob) (simp_all add: completed_namespace_def invalid_completion_def heap_get_def ok_or_def)
qed

section \<open>Sound steps\<close>

definition sound_run :: "heap \<Rightarrow> ('a, heap) run \<Rightarrow> bool" where
  "sound_run h m \<longleftrightarrow> class_inv (snd m) \<and> later h (snd m)"

lemma class_inv_parts:
  assumes "class_inv h"
  shows "heap_inv h" "shape_inv h" "class_graph h" "class_numbers h" "namespaces_ok h" "slots_wf h"
  using assms heap_inv_wf by (auto simp: class_inv_def)

lemma sound_calm: "class_inv h \<Longrightarrow> calm h (snd m) \<Longrightarrow> sound_run h m"
  using calm_class_inv calm_later class_inv_parts by (simp add: sound_run_def)

lemma sound_later_trans: "class_inv h \<Longrightarrow> class_inv h1 \<Longrightarrow> class_inv h2 \<Longrightarrow> later h h1 \<Longrightarrow> later h1 h2 \<Longrightarrow> later h h2"
  by (rule later_trans [of h h1 h2]) (simp_all add: class_inv_parts)

lemma sound_run_then:
  assumes ci: "class_inv h" and m: "sound_run h m"
    and f: "\<And>x s. m = (Ok x, s) \<Longrightarrow> class_inv s \<Longrightarrow> later h s \<Longrightarrow> sound_run s (f x s)"
  shows "sound_run h (run_then m f)"
proof (cases m)
  case (Pair r s)
  have s: "class_inv s" "later h s" using m by (simp_all add: Pair sound_run_def)
  show ?thesis
  proof (cases r)
    case (Ok x)
    have "sound_run s (f x s)" using f s by (simp add: Pair Ok)
    then show ?thesis using sound_later_trans [OF ci s(1) _ s(2)] by (simp add: Pair Ok sound_run_def)
  qed (use s in \<open>simp_all add: Pair sound_run_def\<close>)
qed

lemma sound_pure:
  "class_inv h \<Longrightarrow> (\<And>x. r = Ok x \<Longrightarrow> sound_run h (f x h)) \<Longrightarrow> sound_run h (run_then (r, h) f)"
  by (cases r) (simp_all add: sound_run_def)

lemma sound_return: "class_inv h \<Longrightarrow> sound_run h (r, h)"
  by (simp add: sound_run_def)

lemma sound_if: "sound_run h a \<Longrightarrow> sound_run h b \<Longrightarrow> sound_run h (if c then a else b)"
  by simp

text \<open>Completion of a class.\<close>

lemma finish_class_sound:
  assumes ci: "class_inv h"
  shows "sound_run h (finish_class lib hl h ns)"
  unfolding finish_class_def
proof (intro sound_run_then [OF ci] sound_calm [OF ci] take_mapping_calm)
  show "heap_inv h" by (rule class_inv_parts [OF ci])
  fix x1 h1 assume h1: "class_inv h1"
  show "sound_run h1 (run_then (wrap_new lib hl h1 ns) (\<lambda>_ h2. run_then (default_hash lib hl h2 ns) (\<lambda>_ h3.
      run_then (and_then (completed_namespace h3 ns) (resolution_order h3), h3) (\<lambda>mro h4. complete_class h4 ns mro))))"
  proof (intro sound_run_then [OF h1] sound_calm [OF h1] wrap_new_calm)
    show "heap_inv h1" by (rule class_inv_parts [OF h1])
    fix x2 h2 assume h2: "class_inv h2"
    show "sound_run h2 (run_then (default_hash lib hl h2 ns) (\<lambda>_ h3.
        run_then (and_then (completed_namespace h3 ns) (resolution_order h3), h3) (\<lambda>mro h4. complete_class h4 ns mro)))"
    proof (intro sound_run_then [OF h2] sound_calm [OF h2] default_hash_calm)
      show "heap_inv h2" by (rule class_inv_parts [OF h2])
      fix x3 h3 assume h3: "class_inv h3"
      show "sound_run h3 (run_then (and_then (completed_namespace h3 ns) (resolution_order h3), h3) (\<lambda>mro h4. complete_class h4 ns mro))"
      proof (rule sound_pure [OF h3])
        fix mro assume "and_then (completed_namespace h3 ns) (resolution_order h3) = Ok mro"
        then obtain c where "completed_namespace h3 ns = Ok c" "resolution_order h3 c = Ok mro" by (auto simp: and_then_Ok_iff)
        then have c: "try_get h3 ns = Some (ObjNamespace c)" "resolution_order h3 c = Ok mro"
          by (auto simp: completed_namespace_Ok)
        from complete_class_cases [OF h3 c] show "sound_run h3 (complete_class h3 ns mro)"
          using class_completed_keeps [OF h3 c(1) resolution_order_Ok [OF _ c(2)]] class_inv_parts(3) [OF h3] sound_return [OF h3]
          by (auto simp: sound_run_def)
      qed
    qed
  qed
qed

text \<open>Attribute writes.\<close>

lemma update_class_sound:
  assumes ci: "class_inv h" and k: "try_get h owner = Some (ObjClass k)" and vs: "\<forall>v\<in>set vs. valid h v"
    and f: "cls_id (f k) = cls_id k" "cls_mro (f k) = cls_mro k" "cls_dependents (f k) = cls_dependents k"
      "cls_version (f k) = cls_version k" "set (class_trace (f k)) \<subseteq> set (class_trace k) \<union> set vs"
  shows "sound_run h (run_then (write_barriers h owner vs) (\<lambda>_ h1. update_class h1 owner f))"
  using update_class_cases [where f = f, OF ci k vs f(2,5,4) refl] class_updated_keeps [where ?k1.0 = "f k", OF ci _ k f(1-4)]
    calm_class_inv [OF ci] calm_later [OF class_inv_parts(3) [OF ci] class_inv_parts(2) [OF ci] class_inv_parts(6) [OF ci]]
  by (auto simp: sound_run_def simp del: run_then.simps)

lemma class_case_other:
  "\<forall>k. ob \<noteq> ObjClass k \<Longrightarrow> (case ob of ObjClass k \<Rightarrow> f k | _ \<Rightarrow> g) = g"
  by (cases ob) simp_all

lemma set_class_attr_sound:
  assumes ci: "class_inv h" and v: "valid h v"
  shows "sound_run h (set_class_attr h owner name v)"
  unfolding set_class_attr_def
proof (rule sound_pure [OF ci])
  fix u assume "unsupported_hook name = Ok u"
  have update: "sound_run h (run_then (write_barrier h owner v) (\<lambda>_ h3. update_class h3 owner (set_class_attribute name v)))"
    if k: "try_get h owner = Some (ObjClass k)" for k
    unfolding write_barriers_single using v set_class_attribute_trace [of name v k]
    by (intro update_class_sound [OF ci k]) auto
  show "sound_run h (if name = ''__name__'' \<or> name = ''__qualname__''
     then (fail ''UnsupportedFeature'' ''class naming mutation is not implemented'', h)
     else run_then (heap_get h owner, h) (\<lambda>ob h2. case ob of
       ObjClass k \<Rightarrow> if cls_root k then (fail ''TypeError'' ''cannot modify immutable object type'', h2)
         else run_then (write_barrier h2 owner v) (\<lambda>_ h3. update_class h3 owner (set_class_attribute name v))
     | _ \<Rightarrow> (Err (missing_attribute name), h2)))" (is "sound_run h (if ?named then _ else ?rest)")
  proof -
    have "sound_run h ?rest"
    proof (rule sound_pure [OF ci])
      fix ob assume "heap_get h owner = Ok ob"
      then have ob: "try_get h owner = Some ob" by (simp add: heap_get_Ok)
      show "sound_run h (case ob of
       ObjClass k \<Rightarrow> if cls_root k then (fail ''TypeError'' ''cannot modify immutable object type'', h)
         else run_then (write_barrier h owner v) (\<lambda>_ h3. update_class h3 owner (set_class_attribute name v))
     | _ \<Rightarrow> (Err (missing_attribute name), h))"
        using update ob
        by (cases "\<exists>k. ob = ObjClass k") (auto simp: class_case_other sound_return [OF ci] simp del: run_then.simps)
    qed
    then show ?thesis by (intro sound_if sound_return [OF ci])
  qed
qed

lemma set_attr_sound:
  assumes ci: "class_inv h" and v: "valid h v"
  shows "sound_run h (set_attr h owner name v)"
proof -
  note inv = class_inv_parts(1) [OF ci] and calm = sound_calm [OF ci]
  have module: "sound_run h (add_module_member h owner name v)"
    using mutator_calm [OF add_module_member.mutator_axioms inv, where a = "(owner, name, v)"] v by (intro calm) simp
  have barrier: "sound_run h (run_then (write_barrier h owner v) (\<lambda>_ h1. set_function_annotations h1 owner (Some v)))"
    using set_function_annotations_calm [OF inv, of "Some v" owner] v by (intro calm) (simp add: run_then_unit)
  have clear: "sound_run h (set_function_annotations h owner None)"
    using set_function_annotations_calm [OF inv, of None owner] by (intro calm) simp
  have stop: "sound_run h (run_then (write_barrier h owner v) (\<lambda>_ h1. set_stop_value h1 owner v))"
    by (intro calm set_stop_value_calm inv v)
  have slot: "sound_run h (set_instance_attribute h owner name v)"
    by (intro calm set_instance_attribute_calm inv v class_inv_parts(2) [OF ci])
  have rest: "sound_run h (run_then (heap_get h owner, h) (\<lambda>ob h1. case instance_class ob of
          Some c \<Rightarrow> run_then (heap_class h1 c, h1) (\<lambda>k h2.
            if cls_root k then (Err (missing_attribute name), h2)
            else if name \<in> set reserved_names
            then (fail ''UnsupportedFeature'' ''instance layout replacement is not implemented'', h2)
            else set_instance_attribute h2 owner name v)
        | None \<Rightarrow> set_class_attr h1 owner name v))"
    using set_class_attr_sound [OF ci v]
    by (intro sound_pure [OF ci]) (auto intro!: sound_pure [OF ci] sound_if slot sound_return [OF ci] simp del: run_then.simps split: option.split)
  have dict: "sound_run h (case x of Some (ObjDict _) \<Rightarrow>
        run_then (write_barrier h owner v) (\<lambda>_ h1. set_function_annotations h1 owner (Some v))
      | _ \<Rightarrow> (fail ''TypeError'' ''__annotations__ must be set to a dict object'', h))" for x
  proof (cases x)
    case (Some ob)
    then show ?thesis using barrier by (cases ob) (simp_all add: sound_return [OF ci] del: run_then.simps)
  qed (simp add: sound_return [OF ci])
  show ?thesis unfolding set_attr_def by (intro sound_if module clear dict stop rest)
qed

lemma delete_class_attribute_same [simp]:
  "cls_id (delete_class_attribute name k) = cls_id k" "cls_mro (delete_class_attribute name k) = cls_mro k"
  "cls_dependents (delete_class_attribute name k) = cls_dependents k" "cls_version (delete_class_attribute name k) = cls_version k"
  by (simp_all add: delete_class_attribute_def split: option.split)

lemma delete_class_attribute_trace: "set (class_trace (delete_class_attribute name k)) \<subseteq> set (class_trace k)"
  by (auto simp: delete_class_attribute_def class_trace_def dest!: set_remove_at split: option.splits)

lemma del_attr_sound:
  assumes ci: "class_inv h"
  shows "sound_run h (del_attr h owner name)"
proof -
  note inv = class_inv_parts(1) [OF ci] and calm = sound_calm [OF ci]
  have module: "sound_run h (delete_module_member h owner name)"
    using mutator_calm [OF delete_module_member.mutator_axioms inv, where a = "(owner, name)"] by (intro calm) simp
  have clear: "sound_run h (set_function_annotations h owner None)"
    using set_function_annotations_calm [OF inv, of None owner] by (intro calm) simp
  have stop: "sound_run h (set_stop_value h owner NONE)" by (intro calm clear_stop_value_calm inv)
  have slot: "sound_run h (delete_instance_attribute h owner name)"
    by (intro calm delete_instance_attribute_calm inv class_inv_parts(2) [OF ci])
  have update: "sound_run h (update_class h owner (delete_class_attribute name))" if k: "try_get h owner = Some (ObjClass k)" for k
    using update_class_sound [OF ci k, of "[]" "delete_class_attribute name"] delete_class_attribute_trace [of name k] by simp
  have cls: "sound_run h (del_class_attr h owner name)"
    unfolding del_class_attr_def
  proof (rule sound_pure [OF ci])
    fix ob assume "heap_get h owner = Ok ob"
    then have ob: "try_get h owner = Some ob" by (simp add: heap_get_Ok)
    show "sound_run h (case ob of
       ObjClass k \<Rightarrow> if cls_root k \<or> name \<in> set undeletable_names
         then (fail ''TypeError'' ''cannot delete immutable class attribute'', h)
         else if position (\<lambda>(attribute, _). attribute = name) (cls_attributes k) = None
         then (Err (missing_attribute name), h)
         else update_class h owner (delete_class_attribute name)
     | _ \<Rightarrow> (Err (missing_attribute name), h))"
      using update ob by (cases "\<exists>k. ob = ObjClass k") (auto simp: class_case_other sound_return [OF ci])
  qed
  have rest: "sound_run h (run_then (heap_get h owner, h) (\<lambda>ob h1. case instance_class ob of
          Some c \<Rightarrow> run_then (heap_class h1 c, h1) (\<lambda>k h2.
            if cls_root k \<or> name \<in> set reserved_names then (Err (missing_attribute name), h2)
            else delete_instance_attribute h2 owner name)
        | None \<Rightarrow> del_class_attr h1 owner name))"
    using cls
    by (intro sound_pure [OF ci]) (auto intro!: sound_pure [OF ci] sound_if slot sound_return [OF ci] simp del: run_then.simps split: option.split)
  show ?thesis unfolding del_attr_def by (intro sound_if module clear stop rest)
qed

section \<open>The machine\<close>

datatype class_event =
    EvHeap heap_event
  | EvDictSet tvalue tvalue tvalue
  | EvDictDelete tvalue tvalue
  | EvNamespace string "tvalue list" tvalue
  | EvMappedNamespace string "tvalue list" tvalue tvalue
  | EvNamespaceSet tvalue string tvalue
  | EvNamespaceDelete tvalue string
  | EvUseMapping tvalue tvalue
  | EvFinish tvalue
  | EvMetaclass tvalue tvalue
  | EvSetAttr tvalue string tvalue
  | EvDelAttr tvalue string

fun run_class_event :: "numeric_library \<Rightarrow> hash_library \<Rightarrow> (heap \<Rightarrow> tvalue \<Rightarrow> string res) \<Rightarrow>
    heap \<Rightarrow> class_event \<Rightarrow> (unit, heap) run" where
  "run_class_event lib hl describe h (EvHeap e) = run_event h e"
| "run_class_event lib hl describe h (EvDictSet owner k v) = no_result (dict_set lib hl h owner k v)"
| "run_class_event lib hl describe h (EvDictDelete owner k) = no_result (dict_delete lib hl describe h owner k)"
| "run_class_event lib hl describe h (EvNamespace qualname bases metaclass) =
     no_result (namespace_with_metaclass h qualname bases metaclass)"
| "run_class_event lib hl describe h (EvMappedNamespace qualname bases metaclass mapping) =
     no_result (namespace_from_mapping h qualname bases metaclass mapping)"
| "run_class_event lib hl describe h (EvNamespaceSet ns name v) = namespace_set lib hl h ns name v"
| "run_class_event lib hl describe h (EvNamespaceDelete ns name) = namespace_delete lib hl describe h ns name"
| "run_class_event lib hl describe h (EvUseMapping ns mapping) = namespace_use_mapping h ns mapping"
| "run_class_event lib hl describe h (EvFinish ns) = finish_class lib hl h ns"
| "run_class_event lib hl describe h (EvMetaclass c metaclass) = set_class_metaclass h c metaclass"
| "run_class_event lib hl describe h (EvSetAttr owner name v) = set_attr h owner name v"
| "run_class_event lib hl describe h (EvDelAttr owner name) = del_attr h owner name"

text \<open>What the runtime gives: live values. The namespace of a class body is no value of the program, so it
  is no base.\<close>

definition class_admissible :: "heap \<Rightarrow> class_event \<Rightarrow> bool" where
  "class_admissible h e = (case e of
       EvHeap e \<Rightarrow> admissible h e \<and> runtime_event e
     | EvDictSet owner k v \<Rightarrow> valid h k \<and> valid h v
     | EvNamespace qualname bases metaclass \<Rightarrow> valid h metaclass \<and> (\<forall>b\<in>set bases. valid h b \<and> \<not> is_namespace h b)
     | EvMappedNamespace qualname bases metaclass mapping \<Rightarrow> valid h metaclass \<and> valid h mapping \<and>
         (\<forall>b\<in>set bases. valid h b \<and> \<not> is_namespace h b)
     | EvNamespaceSet ns name v \<Rightarrow> valid h v
     | EvUseMapping ns mapping \<Rightarrow> valid h mapping
     | EvMetaclass c metaclass \<Rightarrow> valid h metaclass
     | EvSetAttr owner name v \<Rightarrow> valid h v
     | _ \<Rightarrow> True)"

fun run_class_events :: "numeric_library \<Rightarrow> hash_library \<Rightarrow> (heap \<Rightarrow> tvalue \<Rightarrow> string res) \<Rightarrow> heap \<Rightarrow> class_event list \<Rightarrow> heap" where
  "run_class_events lib hl describe h [] = h"
| "run_class_events lib hl describe h (e # es) = run_class_events lib hl describe (snd (run_class_event lib hl describe h e)) es"

fun class_admissible_run :: "numeric_library \<Rightarrow> hash_library \<Rightarrow> (heap \<Rightarrow> tvalue \<Rightarrow> string res) \<Rightarrow> heap \<Rightarrow> class_event list \<Rightarrow> bool" where
  "class_admissible_run lib hl describe h [] \<longleftrightarrow> True"
| "class_admissible_run lib hl describe h (e # es) \<longleftrightarrow> class_admissible h e \<and>
     class_admissible_run lib hl describe (snd (run_class_event lib hl describe h e)) es"

inductive class_reachable :: "numeric_library \<Rightarrow> hash_library \<Rightarrow> (heap \<Rightarrow> tvalue \<Rightarrow> string res) \<Rightarrow> heap \<Rightarrow> bool"
  for lib :: numeric_library and hl :: hash_library and describe :: "heap \<Rightarrow> tvalue \<Rightarrow> string res" where
  start: "class_reachable lib hl describe heap_default"
| event: "class_reachable lib hl describe h \<Longrightarrow> class_admissible h e \<Longrightarrow>
    class_reachable lib hl describe (snd (run_class_event lib hl describe h e))"

lemma class_reachable_run:
  "class_reachable lib hl describe h \<Longrightarrow> class_admissible_run lib hl describe h es \<Longrightarrow>
   class_reachable lib hl describe (run_class_events lib hl describe h es)"
  by (induction es arbitrary: h) (auto intro: class_reachable.event)

lemma sound_no_result [simp]: "sound_run h (no_result m) = sound_run h m"
  by (simp add: sound_run_def)

lemma namespace_from_mapping_calm:
  assumes inv: "heap_inv h" and vs: "valid h metaclass" "valid h mapping" "\<forall>b\<in>set bases. valid h b \<and> \<not> is_namespace h b"
  shows "calm h (snd (namespace_from_mapping h qualname bases metaclass mapping))"
  unfolding namespace_from_mapping_def namespace_from_mapping_inner_def
  using namespace_object_calm [OF inv vs(1) _ vs(3), of "Some mapping" "[]"] vs(2)
  by (intro calm_pure [OF inv]) (auto simp: calm_refl [OF inv])

lemma namespace_use_mapping_calm:
  "heap_inv h \<Longrightarrow> valid h mapping \<Longrightarrow> calm h (snd (namespace_use_mapping h ns mapping))"
  unfolding namespace_use_mapping_def
  by (intro calm_pure install_mapping_calm) (simp_all add: missing_namespace_def)

lemma set_class_metaclass_calm:
  assumes inv: "heap_inv h" and v: "valid h metaclass"
  shows "calm h (snd (set_class_metaclass h c metaclass))"
proof -
  have "replaceable h c [metaclass] calm_kind (\<lambda>ob. case ob of
         ObjClass k \<Rightarrow> Ok ((), ObjClass (k\<lparr>cls_metaclass := metaclass\<rparr>))
       | _ \<Rightarrow> fail ''TypeError'' ''expected a Tonic class'')"
    unfolding replaceable_def
  proof (intro allI impI)
    fix ob u ob' assume "(case ob of ObjClass k \<Rightarrow> Ok ((), ObjClass (k\<lparr>cls_metaclass := metaclass\<rparr>))
       | _ \<Rightarrow> fail ''TypeError'' ''expected a Tonic class'') = Ok (u, ob')"
    then obtain k where "ob = ObjClass k" "ob' = ObjClass (k\<lparr>cls_metaclass := metaclass\<rparr>)" by (cases ob) simp_all
    then show "calm_kind ob ob' \<and> set (object_trace ob') \<subseteq> set (object_trace ob) \<union> set [metaclass]"
      by (auto simp: class_core_def class_trace_def)
  qed
  from barrier_with_object_calm [OF inv v this] show ?thesis
    unfolding set_class_metaclass_def by (intro calm_pure [OF inv])
qed

lemma class_event_sound:
  assumes ci: "class_inv h" and adm: "class_admissible h e"
  shows "sound_run h (run_class_event lib hl describe h e)"
proof -
  note inv = class_inv_parts(1) [OF ci] and calm = sound_calm [OF ci]
  show ?thesis
  proof (cases e)
    case (EvHeap e')
    then have a: "admissible h e'" "runtime_event e'" using adm by (simp_all add: class_admissible_def)
    show ?thesis
    proof (cases "is_collection e'")
      case True
      have good: "good_step h True (run_event h e')" using run_event_good [OF inv a(1)] True by simp
      have ok: "heap_ok h" using inv by (simp add: heap_inv_def)
      obtain y roots where "collected y h roots (snd (run_event h e'))"
        using True a(1) collect_spec [OF ok] collect_young_spec [OF ok] by (cases e') (fastforce simp: admissible_def)+
      then show ?thesis
        using collected_keeps [OF ci, of "fst (run_event h e')" "snd (run_event h e')"] good EvHeap by (simp add: sound_run_def)
    next
      case False
      then show ?thesis using event_calm [OF inv a] EvHeap by (simp add: calm)
    qed
  next
    case (EvSetAttr owner name v)
    then show ?thesis using set_attr_sound [OF ci] adm by (simp add: class_admissible_def)
  next
    case (EvDelAttr owner name)
    then show ?thesis using del_attr_sound [OF ci] by simp
  next
    case (EvFinish ns)
    then show ?thesis using finish_class_sound [OF ci] by simp
  qed (use adm in \<open>auto simp: class_admissible_def intro!: calm dict_set_calm dict_delete_calm namespace_with_metaclass_calm
      namespace_from_mapping_calm namespace_set_calm namespace_delete_calm namespace_use_mapping_calm set_class_metaclass_calm inv\<close>)
qed

lemma class_inv_default: "class_inv heap_default"
proof -
  have "try_get heap_default v = None" for v
    by (simp add: try_get_def location_def heap_default_def split: option.split)
  moreover have "shapes_wf (heap_shapes heap_default)"
    by (auto simp: heap_default_def shapes_default_def shapes_wf_def)
  ultimately show ?thesis
    by (simp add: class_inv_def heap_inv_default shape_inv_def class_graph_def class_numbers_def namespaces_ok_def)
qed

lemma class_reachable_inv: "class_reachable lib hl describe h \<Longrightarrow> class_inv h"
proof (induction rule: class_reachable.induct)
  case (event h e)
  then show ?case using class_event_sound [of h e lib hl describe] by (simp add: sound_run_def)
qed (rule class_inv_default)

lemma class_run_sound:
  "class_inv h \<Longrightarrow> class_admissible_run lib hl describe h es \<Longrightarrow>
   class_inv (run_class_events lib hl describe h es) \<and> later h (run_class_events lib hl describe h es)"
proof (induction es arbitrary: h)
  case (Cons e es)
  have step: "class_inv (snd (run_class_event lib hl describe h e))" "later h (snd (run_class_event lib hl describe h e))"
    using class_event_sound [OF Cons.prems(1), of e lib hl describe] Cons.prems(2) by (simp_all add: sound_run_def)
  from Cons.IH [OF step(1)] Cons.prems(2)
  show ?case using sound_later_trans [OF Cons.prems(1) step(1) _ step(2)] by simp
qed simp

end
