(* ===== verification/Attribute_Reads.thy ===== *)
theory Attribute_Reads
  imports Classes
begin

text \<open>
  The attribute protocol of the interpreter: \<open>invoke_attribute_get\<close>, \<open>invoke_default_attribute_get\<close> and
  \<open>continue_attribute_missing\<close> of crates/tonic-runtime/src/calls.rs, with \<open>runtime_class\<close> of vm.rs. This
  is what \<open>Op::Attr\<close>, \<open>getattr\<close> and \<open>hasattr\<close> run when no inline cache answers: a custom
  \<open>__getattribute__\<close>, then \<open>super\<close>, data descriptors of the metaclass, properties, descriptors of the
  class, the plain read \<open>Heap::attr\<close>, and \<open>__getattr__\<close> when all that ends in an \<open>AttributeError\<close>.

  The result of the modelled part is a value, or the call that the interpreter makes next: an
  \<open>AccessCall\<close>. Running that call, and the \<open>__getattr__\<close> fallback when it fails, belong to the main
  loop of vm.rs.
\<close>

section \<open>The class of a value\<close>

text \<open>The fields of \<open>RuntimeTypes\<close> that the classification uses, and the root class of the machine.\<close>

record runtime_types =
  rt_none :: tvalue
  rt_not_implemented :: tvalue
  rt_ellipsis :: tvalue
  rt_buffer :: tvalue
  rt_int :: tvalue
  rt_bool :: tvalue
  rt_float :: tvalue
  rt_str :: tvalue
  rt_bytes :: tvalue
  rt_list :: tvalue
  rt_tuple :: tvalue
  rt_dict :: tvalue
  rt_set :: tvalue
  rt_range :: tvalue
  rt_function :: tvalue
  rt_object :: tvalue

definition object_runtime_class :: "runtime_types \<Rightarrow> object \<Rightarrow> tvalue" where
  "object_runtime_class T ob = (case ob of
      ObjClass k \<Rightarrow> if cls_metaclass k \<noteq> UNBOUND then cls_metaclass k else rt_object T
    | ObjInt _ \<Rightarrow> rt_int T
    | ObjFloat _ \<Rightarrow> rt_float T
    | ObjStr _ \<Rightarrow> rt_str T
    | ObjBytes _ \<Rightarrow> rt_bytes T
    | ObjList _ \<Rightarrow> rt_list T
    | ObjTuple _ \<Rightarrow> rt_tuple T
    | ObjDict _ \<Rightarrow> rt_dict T
    | ObjSet _ \<Rightarrow> rt_set T
    | ObjBuffer _ \<Rightarrow> rt_buffer T
    | ObjRange _ _ _ \<Rightarrow> rt_range T
    | ObjFunction _ \<Rightarrow> rt_function T
    | ob \<Rightarrow> (case instance_class ob of Some c \<Rightarrow> c | None \<Rightarrow> rt_object T))"

definition runtime_class :: "runtime_types \<Rightarrow> heap \<Rightarrow> tvalue \<Rightarrow> tvalue res" where
  "runtime_class T h v =
     (if as_bool v \<noteq> None then Ok (rt_bool T)
      else if v = NONE then Ok (rt_none T)
      else if v = NOT_IMPLEMENTED then Ok (rt_not_implemented T)
      else if v = ELLIPSIS then Ok (rt_ellipsis T)
      else if integer v \<noteq> None then Ok (rt_int T)
      else and_then (heap_get h v) (\<lambda>ob. Ok (object_runtime_class T ob)))"

section \<open>The default read\<close>

text \<open>A step that may answer, and what is tried when it does not.\<close>

definition or_else :: "(descriptor_access option, heap) run \<Rightarrow>
    (heap \<Rightarrow> (descriptor_access, heap) run) \<Rightarrow> (descriptor_access, heap) run" where
  "or_else attempt rest = run_then attempt (\<lambda>access h. case access of
     Some a \<Rightarrow> (Ok a, h) | None \<Rightarrow> rest h)"

definition is_attribute_error :: "diagnostic \<Rightarrow> bool" where
  "is_attribute_error e \<longleftrightarrow> diag_kind e = ''AttributeError''"

text \<open>\<open>__round__\<close> of a value without a class of its own is looked up on its runtime class.\<close>

definition native_layout :: "heap \<Rightarrow> tvalue \<Rightarrow> bool" where
  "native_layout h owner = (case try_get h owner of Some ob \<Rightarrow> instance_parts ob = None | None \<Rightarrow> True)"

definition native_round :: "runtime_types \<Rightarrow> heap \<Rightarrow> tvalue \<Rightarrow> string \<Rightarrow> (descriptor_access option, heap) run" where
  "native_round T h owner name =
     (if name = ''__round__'' \<and> \<not> is_class_object h owner \<and> native_layout h owner
      then run_then (runtime_class T h owner, h) (\<lambda>c h1.
        if c \<noteq> rt_object T then native_attribute_getter h1 owner c name else (Ok None, h1))
      else (Ok None, h))"

text \<open>The plain read, with the two cases where its \<open>AttributeError\<close> is not the end.\<close>

definition plain_attribute_get :: "runtime_types \<Rightarrow> heap \<Rightarrow> tvalue \<Rightarrow> string \<Rightarrow> (descriptor_access, heap) run" where
  "plain_attribute_get T h owner name = (case attr h owner name of
      (Ok v, h1) \<Rightarrow> (Ok (AccessValue v), h1)
    | (Err e, h1) \<Rightarrow>
        if name = ''__class__'' \<and> is_attribute_error e
        then run_then (runtime_class T h1 owner, h1) (\<lambda>c h2. (Ok (AccessValue c), h2))
        else if is_class_object h owner \<and> is_attribute_error e
        then or_else (metaclass_getter h1 owner name False) (\<lambda>h2. (Err e, h2))
        else (Err e, h1)
    | (Panic, h1) \<Rightarrow> (Panic, h1)
    | (Diverge, h1) \<Rightarrow> (Diverge, h1))"

definition default_attribute_get :: "runtime_types \<Rightarrow> heap \<Rightarrow> tvalue \<Rightarrow> string \<Rightarrow> (descriptor_access, heap) run" where
  "default_attribute_get T h owner name =
     or_else (super_getter h owner name) (\<lambda>h1.
     or_else (if is_class_object h owner then metaclass_getter h1 owner name True else (Ok None, h1)) (\<lambda>h2.
     or_else (and_then (property_getter h2 owner name) (\<lambda>g. Ok (map_option (\<lambda>f. getter_access f owner) g)), h2) (\<lambda>h3.
     or_else (descriptor_getter h3 owner name, h3) (\<lambda>h4.
     or_else (native_round T h4 owner name) (\<lambda>h5.
     plain_attribute_get T h5 owner name)))))"

section \<open>The protocol\<close>

datatype attribute_missing = MissingRaise | MissingDefault tvalue | MissingHasAttr

text \<open>\<open>finish_attribute_success\<close>: \<open>hasattr\<close> only wants to know.\<close>

definition finish_attribute_success :: "attribute_missing \<Rightarrow> descriptor_access \<Rightarrow> descriptor_access" where
  "finish_attribute_success missing access = (case access of
      AccessValue v \<Rightarrow> AccessValue (if missing = MissingHasAttr then value_bool True else v)
    | AccessCall f receiver args n \<Rightarrow> AccessCall f receiver args n)"

definition named_call :: "heap \<Rightarrow> descriptor_call \<Rightarrow> string \<Rightarrow> (descriptor_access, heap) run" where
  "named_call h call name = run_then (alloc h (ObjStr name)) (\<lambda>v h1.
     (Ok (call_access call [v, UNBOUND, UNBOUND] 1), h1))"

definition continue_attribute_missing ::
  "heap \<Rightarrow> tvalue \<Rightarrow> string \<Rightarrow> attribute_missing \<Rightarrow> diagnostic \<Rightarrow> (descriptor_access, heap) run" where
  "continue_attribute_missing h owner name missing e =
     run_then (if is_class_object h owner then metaclass_method_call h owner ''__getattr__''
       else special_method_call h owner ''__getattr__'', h) (\<lambda>call h1. case call of
         Some c \<Rightarrow> named_call h1 c name
       | None \<Rightarrow> (case missing of
           MissingRaise \<Rightarrow> Err e
         | MissingDefault v \<Rightarrow> Ok (AccessValue v)
         | MissingHasAttr \<Rightarrow> Ok (AccessValue (value_bool False)), h1))"

definition attribute_get ::
  "runtime_types \<Rightarrow> heap \<Rightarrow> tvalue \<Rightarrow> string \<Rightarrow> attribute_missing \<Rightarrow> (descriptor_access, heap) run" where
  "attribute_get T h owner name missing =
     run_then (custom_attribute_method h owner ''__getattribute__''
       (if is_class_object h owner then BTypeGetAttribute else BObjectGetAttribute), h) (\<lambda>call h1.
     case (case call of Some c \<Rightarrow> named_call h1 c name
           | None \<Rightarrow> run_then (default_attribute_get T h1 owner name) (\<lambda>access h2.
               (Ok (finish_attribute_success missing access), h2))) of
       (Err e, h2) \<Rightarrow>
         if is_attribute_error e then continue_attribute_missing h2 owner name missing e else (Err e, h2)
     | r \<Rightarrow> r)"

section \<open>Reading a slot of an instance\<close>

lemma or_else_simps [simp]:
  "or_else (Ok None, h) rest = rest h" "or_else (Ok (Some a), h) rest = (Ok a, h)"
  by (simp_all add: or_else_def)

text \<open>When neither a custom \<open>__getattribute__\<close> nor an attribute of the class is in the way, the protocol on
  an instance is the plain read.\<close>

lemma attribute_get_instance:
  assumes ob: "try_get h owner = Some ob" "instance_parts ob = Some (c, a)"
    and custom: "custom_attribute_method h owner ''__getattribute__'' BObjectGetAttribute = Ok None"
    and plain: "class_lookup h c name = Ok None" and slot: "attr h owner name = (Ok v, h)"
  shows "attribute_get T h owner name MissingRaise = (Ok (AccessValue v), h)"
proof -
  have kind: "\<not> is_class_object h owner" "super_getter h owner name = (Ok None, h)"
    "class_of_value h owner = Some c" "\<not> native_layout h owner"
    using ob by (cases ob; simp add: is_class_object_def super_getter_def class_of_value_def instance_class_def
        instance_parts_def native_layout_def)+
  have "property_getter h owner name = Ok None"
    by (simp add: property_getter_def instance_descriptor_def kind plain)
  moreover have "descriptor_getter h owner name = Ok None"
    using ob by (simp add: descriptor_getter_def plain)
  moreover have "native_round T h owner name = (Ok None, h)" by (simp add: native_round_def kind)
  moreover have "plain_attribute_get T h owner name = (Ok (AccessValue v), h)"
    by (simp add: plain_attribute_get_def slot)
  ultimately have "default_attribute_get T h owner name = (Ok (AccessValue v), h)"
    by (simp add: default_attribute_get_def kind)
  then show ?thesis
    by (simp add: attribute_get_def kind custom finish_attribute_success_def)
qed

end
