(* ===== verification/Class_Properties.thy ===== *)
theory Class_Properties
  imports Class_Events Attribute_Reads
begin

text \<open>
  What holds of classes in every reachable heap: the order of classes, lookups guarded by a version,
  the effect of a write, the inline cache of instance slots, and a write that panics.
\<close>

section \<open>Lookups\<close>

lemma lookup_in_attributes:
  assumes "\<forall>a\<in>set cs. attributes_at h a \<noteq> None \<and> attributes_at h' a = attributes_at h a"
  shows "lookup_in h' name cs = lookup_in h name cs"
  using assms
proof (induction cs)
  case (Cons c cs)
  obtain k where k: "try_get h c = Some (ObjClass k)" using Cons.prems attributes_at_Some [of h c] by auto
  have "attributes_at h' c = Some (cls_attributes k)" using Cons.prems k by (simp add: attributes_at_class)
  then obtain k' where k': "try_get h' c = Some (ObjClass k')" "cls_attributes k' = cls_attributes k"
    using attributes_at_Some [of h' c] by (auto simp: attributes_at_class)
  show ?case using Cons k k' by (simp add: heap_class_Ok [THEN iffD2, OF k] heap_class_Ok [THEN iffD2, OF k'(1)] split: option.split)
qed simp

lemma lookup_in_graph:
  assumes "\<forall>a\<in>set cs. attributes_at h a \<noteq> None"
  shows "\<exists>x. lookup_in h name cs = Ok x \<and> (\<forall>v. x = Some v \<longrightarrow>
    (\<exists>a\<in>set cs. \<exists>k. try_get h a = Some (ObjClass k) \<and> map_of (cls_attributes k) name = Some v))"
  using assms
proof (induction cs)
  case (Cons c cs)
  obtain k where k: "try_get h c = Some (ObjClass k)" using Cons.prems attributes_at_Some [of h c] by auto
  show ?case using Cons k by (auto simp: heap_class_Ok [THEN iffD2, OF k] split: option.split)
qed simp

lemma class_lookup_later:
  assumes g: "class_graph h" and l: "later h h'" and k: "try_get h c = Some (ObjClass k)" "try_get h' c = Some (ObjClass k')"
    and same: "cls_version k' = cls_version k"
  shows "class_lookup h' c name = class_lookup h c name" "cls_mro k' = cls_mro k"
proof -
  have cl: "class_later h h' c k k'" by (rule later_class [OF l k])
  then show mro: "cls_mro k' = cls_mro k" by (simp add: class_later_def)
  have "\<forall>a\<in>set (c # cls_mro k). attributes_at h a \<noteq> None \<and> attributes_at h' a = attributes_at h a"
    using cl same graph_attributes [OF g k(1)] unfolding class_later_def by blast
  from lookup_in_attributes [OF this] show "class_lookup h' c name = class_lookup h c name"
    using mro by (simp add: class_lookup_def heap_class_Ok [THEN iffD2, OF k(1)] heap_class_Ok [THEN iffD2, OF k(2)]
        del: lookup_in.simps)
qed

lemma class_lookup_finds:
  assumes g: "class_graph h" and k: "try_get h c = Some (ObjClass k)"
  shows "\<exists>x. class_lookup h c name = Ok x \<and> (\<forall>v. x = Some v \<longrightarrow>
    (\<exists>a k. try_get h a = Some (ObjClass k) \<and> map_of (cls_attributes k) name = Some v))"
  using lookup_in_graph [of "c # cls_mro k" h name] graph_attributes [OF g k]
  by (auto simp: class_lookup_def heap_class_Ok [THEN iffD2, OF k] simp del: lookup_in.simps)

lemma attribute_valid:
  "heap_inv h \<Longrightarrow> try_get h a = Some (ObjClass k) \<Longrightarrow> map_of (cls_attributes k) name = Some v \<Longrightarrow> valid h v"
proof (rule traced_valid [of h a "ObjClass k"])
  assume "map_of (cls_attributes k) name = Some v"
  then have "v \<in> snd ` set (cls_attributes k)" by (force dest: map_of_SomeD)
  then show "v \<in> set (object_trace (ObjClass k))" by (simp add: class_trace_def)
qed

section \<open>A sample\<close>

text \<open>Two classes, \<open>class A\<close> and \<open>class B(A)\<close>.\<close>

definition class_a :: "class_object" where
  "class_a = \<lparr>cls_root = False, cls_id = 1, cls_version = 1, cls_name = ''A'', cls_metaclass = UNBOUND,
     cls_namespace_mapping = None,
     cls_attributes = [(''__module__'', value_heap 0 1), (''__qualname__'', value_heap 1 1), (''__doc__'', NONE)],
     cls_extra_attributes = [],
     cls_dictionary_order = [DictKeyString ''__module__'', DictKeyString ''__qualname__'', DictKeyString ''__doc__''],
     cls_bases = [], cls_mro = [], cls_dependents = [value_heap 5 1]\<rparr>"

definition class_b :: "class_object" where
  "class_b = \<lparr>cls_root = False, cls_id = 2, cls_version = 1, cls_name = ''B'', cls_metaclass = UNBOUND,
     cls_namespace_mapping = None,
     cls_attributes = [(''__module__'', value_heap 3 1), (''__qualname__'', value_heap 4 1), (''__doc__'', NONE)],
     cls_extra_attributes = [],
     cls_dictionary_order = [DictKeyString ''__module__'', DictKeyString ''__qualname__'', DictKeyString ''__doc__''],
     cls_bases = [value_heap 2 1], cls_mro = [value_heap 2 1], cls_dependents = []\<rparr>"

definition placed_objects :: "object list \<Rightarrow> heap" where
  "placed_objects obs = heap_default\<lparr>allocations := length obs,
     slots := map (\<lambda>i. \<lparr>slot_generation = 1, slot_location = Some i\<rparr>) [0..<length obs],
     objects := map (\<lambda>i. \<lparr>ho_object = obs ! i, ho_slot = i, ho_young = True\<rparr>) [0..<length obs]\<rparr>"

definition two_classes :: heap where
  "two_classes = (placed_objects [ObjStr ''__main__'', ObjStr ''A'', ObjClass class_a, ObjStr ''__main__'', ObjStr ''B'',
     ObjClass class_b])\<lparr>next_type := 2\<rparr>"

lemmas class_simps = heap_default_def alloc_def Let_def no_result_def native_value_def
  try_get_def location_def with_object_def write_barrier_def heap_index_value_heap generation_value_heap
  MAX_GENERATION_def heap_get_def ok_or_def heap_class_def

lemmas finish_simps = finish_class_def take_mapping_def completed_namespace_def wrap_new_def default_hash_def
  namespace_get_def heap_namespace_def resolution_order_def check_qualname_def complete_class_def
  namespace_with_metaclass_def namespace_object_def last_component_def

lemma standard_names: "unsupported_hook ''__module__'' = Ok ()" "unsupported_hook ''__qualname__'' = Ok ()"
  "unsupported_hook ''__doc__'' = Ok ()"
  by code_simp+

lemma no_bases_order: "mro_merge [[]] = Ok ([] :: tvalue list)" "mro_merge [[a], [a]] = Ok [a :: tvalue]"
  by (simp_all add: mro_merge.simps next_head_def blocked_def drop_head_def)

lemma two_classes_run:
  "run_class_events lib hl describe heap_default [EvNamespace ''A'' [] UNBOUND, EvFinish (value_heap 2 1),
     EvNamespace ''B'' [value_heap 2 1] UNBOUND, EvFinish (value_heap 5 1)] = two_classes"
  by (simp add: two_classes_def placed_objects_def class_a_def class_b_def class_simps finish_simps
      standard_names no_bases_order upt_rec) (simp add: eval_nat_numeral)

lemma two_classes_get:
  "try_get two_classes (value_heap 2 1) = Some (ObjClass class_a)"
  "try_get two_classes (value_heap 5 1) = Some (ObjClass class_b)"
  "try_get two_classes (value_heap 0 1) = Some (ObjStr ''__main__'')"
  by (simp_all add: two_classes_def placed_objects_def class_simps upt_rec)

lemma two_classes_admissible:
  "class_admissible_run lib hl describe heap_default [EvNamespace ''A'' [] UNBOUND, EvFinish (value_heap 2 1),
     EvNamespace ''B'' [value_heap 2 1] UNBOUND, EvFinish (value_heap 5 1)]"
  by (simp add: class_admissible_def is_namespace_def valid_def class_simps finish_simps
      standard_names no_bases_order upt_rec)

lemma two_classes_reachable: "class_reachable lib hl describe two_classes"
  using class_reachable_run [OF class_reachable.start two_classes_admissible] by (simp only: two_classes_run)

section \<open>Versions\<close>

text \<open>C7: As long as the version of a class is the same, whatever happens in between - allocations,
  collections, writes to other classes and to instances, new subclasses - every name is looked up
  through it to the same value, in the same resolution order. So one comparison of versions guards
  everything an inline cache remembers of a class.\<close>

theorem class_version_guards_lookup:
  assumes "class_reachable lib hl describe h" "class_admissible_run lib hl describe h es"
    and "h' = run_class_events lib hl describe h es"
    and "heap_class h c = Ok k" "heap_class h' c = Ok k'" "cls_version k' = cls_version k"
  shows "class_lookup h' c name = class_lookup h c name \<and> cls_mro k' = cls_mro k"
proof -
  have ci: "class_inv h" by (rule class_reachable_inv [OF assms(1)])
  have "later h h'" using class_run_sound [OF ci assms(2)] assms(3) by simp
  from class_lookup_later [OF class_inv_parts(3) [OF ci] this] assms(4-6) show ?thesis by (simp add: heap_class_Ok)
qed

definition class_b_written :: class_object where
  "class_b_written = bump (set_class_attribute ''x'' ELLIPSIS class_b)"

definition two_classes_written :: heap where
  "two_classes_written = (placed_objects [ObjStr ''__main__'', ObjStr ''A'', ObjClass class_a, ObjStr ''__main__'', ObjStr ''B'',
     ObjClass class_b_written])\<lparr>next_type := 2\<rparr>"

lemmas write_simps = set_attr_def is_module_def is_function_def has_stop_value_def set_class_attr_def update_class_def
  class_invalidation_targets_def apply_class_invalidation_def instance_class_def

lemma unhooked_name: "unsupported_hook ''x'' = Ok ()"
  by code_simp

lemma two_classes_write:
  "set_attr two_classes (value_heap 5 1) ''x'' ELLIPSIS = (Ok (), two_classes_written)"
  by (simp add: two_classes_def two_classes_written_def placed_objects_def class_b_written_def class_b_def bump_def
      set_class_attribute_def class_simps write_simps unhooked_name upt_rec VERSION_MAX_def)

lemma two_classes_written_get:
  "try_get two_classes_written (value_heap 2 1) = Some (ObjClass class_a)"
  "try_get two_classes_written (value_heap 5 1) = Some (ObjClass class_b_written)"
  by (simp_all add: two_classes_written_def placed_objects_def class_simps upt_rec)

lemma class_version_guards_lookup_witness:
  "\<forall>lib hl describe. class_lookup (run_class_events lib hl describe two_classes [EvSetAttr (value_heap 5 1) ''x'' ELLIPSIS])
     (value_heap 2 1) ''__doc__'' = class_lookup two_classes (value_heap 2 1) ''__doc__''"
proof (intro allI)
  fix lib hl describe
  have "class_admissible_run lib hl describe two_classes [EvSetAttr (value_heap 5 1) ''x'' ELLIPSIS]"
    by (simp add: class_admissible_def valid_def ELLIPSIS_def heap_index_def)
  from class_version_guards_lookup [OF two_classes_reachable this refl, of "value_heap 2 1" class_a class_a "''__doc__''"]
  show "class_lookup (run_class_events lib hl describe two_classes [EvSetAttr (value_heap 5 1) ''x'' ELLIPSIS])
     (value_heap 2 1) ''__doc__'' = class_lookup two_classes (value_heap 2 1) ''__doc__''"
    by (simp add: heap_class_Ok two_classes_get two_classes_write two_classes_written_get del: One_nat_def)
qed

section \<open>The order of classes\<close>

lemma subclass_iff:
  assumes ci: "class_inv h"
  shows "class_is_subclass h a b = Ok True \<longleftrightarrow> (\<exists>ka kb. try_get h a = Some (ObjClass ka) \<and> try_get h b = Some (ObjClass kb) \<and>
     b \<in> set (a # cls_mro ka))"
proof -
  have "cls_id ka = cls_id kb \<longleftrightarrow> a = b" if "try_get h a = Some (ObjClass ka)" "try_get h b = Some (ObjClass kb)" for ka kb
    using class_inv_parts(4) [OF ci] that unfolding class_numbers_def by auto
  then show ?thesis by (auto simp: class_is_subclass_def and_then_Ok_iff heap_class_Ok)
qed

lemma subclass_lineage:
  assumes g: "class_graph h" and a: "try_get h a = Some (ObjClass ka)" and b: "try_get h b = Some (ObjClass kb)" "b \<in> set (a # cls_mro ka)"
  shows "subseq (b # cls_mro kb) (a # cls_mro ka)"
proof (cases "b = a")
  case False
  then show ?thesis using class_graphD(3) [OF g a, of b] b by auto
qed (use a b in simp)

text \<open>C10: The subclass relation of the classes of a reachable heap is a partial order, and the lineage of an
  ancestor is a subsequence of the lineage of the class: resolution orders are monotonic.\<close>

theorem subclass_partial_order:
  assumes "class_reachable lib hl describe h" "class_is_subclass h a b = Ok True" "class_is_subclass h b c = Ok True"
  shows "class_is_subclass h a c = Ok True \<and> (a = c \<longrightarrow> a = b) \<and>
    (\<exists>ka kb. heap_class h a = Ok ka \<and> heap_class h b = Ok kb \<and> subseq (b # cls_mro kb) (a # cls_mro ka))"
proof -
  have ci: "class_inv h" by (rule class_reachable_inv [OF assms(1)])
  note g = class_inv_parts(3) [OF ci] and sub = subclass_iff [OF ci]
  obtain ka kb kc where k: "try_get h a = Some (ObjClass ka)" "try_get h b = Some (ObjClass kb)" "try_get h c = Some (ObjClass kc)"
    "b \<in> set (a # cls_mro ka)" "c \<in> set (b # cls_mro kb)" using assms(2,3) sub by auto
  have ab: "subseq (b # cls_mro kb) (a # cls_mro ka)" by (rule subclass_lineage [OF g k(1,2,4)])
  have bc: "subseq (c # cls_mro kc) (b # cls_mro kb)" by (rule subclass_lineage [OF g k(2,3,5)])
  have "c \<in> set (a # cls_mro ka)" using subseq_set [OF ab k(5)] .
  moreover have "a = b" if "a = c"
  proof -
    have "kc = ka" using k(1,3) that by simp
    then have ba: "subseq (a # cls_mro ka) (b # cls_mro kb)" using bc that by (simp only:)
    show ?thesis using subseq_order.antisym [OF ab ba] by simp
  qed
  ultimately show ?thesis using k(1-3) ab sub by (auto simp: heap_class_Ok)
qed

lemma subclass_partial_order_witness:
  "\<exists>ka kb. heap_class two_classes (value_heap 5 1) = Ok ka \<and> heap_class two_classes (value_heap 2 1) = Ok kb \<and>
     subseq (value_heap 2 1 # cls_mro kb) (value_heap 5 1 # cls_mro ka)"
proof -
  have a: "class_is_subclass two_classes (value_heap 5 1) (value_heap 2 1) = Ok True"
    "class_is_subclass two_classes (value_heap 2 1) (value_heap 2 1) = Ok True"
    by (simp_all add: class_is_subclass_def heap_class_def heap_get_def ok_or_def two_classes_get class_b_def del: One_nat_def)
  show ?thesis
    using subclass_partial_order [OF two_classes_reachable [of undefined undefined undefined] a] by blast
qed

section \<open>Writing to a class\<close>

lemma set_member_lookup: "map_of (set_member name v ms) name = Some v"
  by (induction name v ms rule: set_member.induct) auto

lemma set_attr_class:
  assumes "try_get h owner = Some (ObjClass k)"
  shows "set_attr h owner name v = set_class_attr h owner name v"
  using assms by (simp add: set_attr_def is_module_def is_function_def has_stop_value_def heap_get_def ok_or_def instance_class_def)

lemma set_class_attr_updated:
  assumes ci: "class_inv h" and v: "valid h v" and k: "try_get h owner = Some (ObjClass k)"
    and ok: "set_class_attr h owner name v = (Ok (), h')"
  shows "class_updated h owner k (set_class_attribute name v k) h'"
proof -
  let ?m = "run_then (write_barriers h owner [v]) (\<lambda>_ h1. update_class h1 owner (set_class_attribute name v))"
  have "?m = (Ok (), h')"
    using ok k by (cases "unsupported_hook name")
      (auto simp: set_class_attr_def heap_get_def ok_or_def write_barriers_single [symmetric] simp del: write_barriers.simps split: if_splits)
  then show ?thesis
    using update_class_cases [OF ci k, of "[v]" "set_class_attribute name v" ?m] v set_class_attribute_trace [of name v k] by auto
qed

text \<open>C8: A successful write of a class attribute is seen by the next lookup through the class, and it gives
  a new version to exactly the class and its subclasses: every other class keeps its version and
  everything that was cached under it.\<close>

theorem class_write_invalidates:
  assumes "class_reachable lib hl describe h" "valid h v" "heap_class h owner = Ok k"
    and "set_attr h owner name v = (Ok (), h')" "heap_class h d = Ok kd"
  shows "class_lookup h' owner name = Ok (Some v) \<and>
    (\<exists>kd'. heap_class h' d = Ok kd' \<and> cls_mro kd' = cls_mro kd \<and>
       cls_version kd' = (if class_is_subclass h d owner = Ok True then cls_version kd + 1 else cls_version kd))"
proof -
  have ci: "class_inv h" by (rule class_reachable_inv [OF assms(1)])
  note g = class_inv_parts(3) [OF ci]
  have k: "try_get h owner = Some (ObjClass k)" and d: "try_get h d = Some (ObjClass kd)" using assms(3,5) by (simp_all add: heap_class_Ok)
  let ?k1 = "set_class_attribute name v k"
  have u: "class_updated h owner k ?k1 h'"
    using assms(4) set_attr_class [OF k] by (intro set_class_attr_updated [OF ci assms(2) k]) simp
  have "try_get h' owner = Some (ObjClass (bump ?k1))" using u by (simp add: class_updated_def)
  then have "class_lookup h' owner name = Ok (Some v)"
    by (simp add: class_lookup_def heap_class_Ok [THEN iffD2] set_member_lookup)
  moreover obtain kd' where d': "try_get h' d = Some (ObjClass kd')" using class_updated_class(2) [OF u k _ _ _ _ g d] by auto
  then have "cls_mro kd' = cls_mro kd \<and> (if d = owner \<or> d \<in> set (cls_dependents k) then cls_version kd' = Suc (cls_version kd) else kd' = kd)"
    using class_updated_class(1) [OF u k _ _ _ _ g d'] d by auto
  moreover have "class_is_subclass h d owner = Ok True \<longleftrightarrow> d = owner \<or> d \<in> set (cls_dependents k)"
    using subclass_iff [OF ci, of d owner] k d class_graphD(3) [OF g d, of owner] class_graphD(4) [OF g k, of d] by auto
  ultimately show ?thesis using d' by (auto simp: heap_class_Ok)
qed

lemma class_write_invalidates_witness:
  "class_lookup two_classes_written (value_heap 5 1) ''x'' = Ok (Some ELLIPSIS) \<and>
   (\<exists>k'. heap_class two_classes_written (value_heap 2 1) = Ok k' \<and> cls_version k' = 1)"
proof -
  have v: "valid two_classes ELLIPSIS" by (simp add: valid_def ELLIPSIS_def heap_index_def)
  have b: "heap_class two_classes (value_heap 5 1) = Ok class_b" "heap_class two_classes (value_heap 2 1) = Ok class_a"
    by (simp_all add: heap_class_Ok two_classes_get del: One_nat_def)
  have above: "class_is_subclass two_classes (value_heap 2 1) (value_heap 5 1) = Ok False"
    by (simp add: class_is_subclass_def b class_a_def class_b_def del: One_nat_def)
  show ?thesis
    using class_write_invalidates [OF two_classes_reachable [of undefined undefined undefined] v b(1) two_classes_write b(2)]
    by (auto simp: above class_a_def simp del: One_nat_def)
qed

section \<open>The inline cache of instance slots\<close>

lemma special_method_class:
  assumes "try_get h owner = Some ob" "instance_parts ob = Some (c, a)"
  shows "special_method_call h owner name = and_then (class_lookup h c name) (\<lambda>found. case found of
          None \<Rightarrow> Ok None | Some callable \<Rightarrow> Ok (Some (descriptor_callable h callable owner c)))"
    "\<not> is_class_object h owner" "\<forall>k. ob \<noteq> ObjClass k"
  using assms by (cases ob; simp add: special_method_call_def instance_class_def instance_parts_def is_class_object_def; blast?)+

text \<open>An instance has no custom \<open>__getattribute__\<close> when its class finds none, or the one of \<open>object\<close>.\<close>

lemma custom_getattribute_instance:
  assumes g: "class_graph h" and ob: "try_get h owner = Some ob" "instance_parts ob = Some (c, a)" and k: "try_get h c = Some (ObjClass k)"
  shows "has_custom_getattribute h owner \<longleftrightarrow> (\<exists>f. class_lookup h c ''__getattribute__'' = Ok (Some f) \<and>
     try_get h f \<noteq> Some (ObjBuiltin BObjectGetAttribute))"
proof -
  obtain x where x: "class_lookup h c ''__getattribute__'' = Ok x" using class_lookup_finds [OF g k] by blast
  have ne: "c \<noteq> owner" using ob k special_method_class(3) [OF ob] by auto
  note special = special_method_class [OF ob]
  show ?thesis
  proof (cases x)
    case None
    then show ?thesis by (simp add: has_custom_getattribute_def custom_attribute_method_def special x)
  next
    case (Some f)
    let ?call = "descriptor_callable h f owner c"
    have "dc_receiver ?call = Some owner \<and> is_default_attribute_method h (dc_callable ?call) BObjectGetAttribute \<longleftrightarrow>
      try_get h f = Some (ObjBuiltin BObjectGetAttribute)"
    proof (cases "try_get h f")
      case (Some fo)
      then show ?thesis
        using ne by (cases fo) (auto simp: descriptor_callable_def is_default_attribute_method_def method_builtins_def)
    qed (simp add: descriptor_callable_def is_default_attribute_method_def)
    then show ?thesis
      by (auto simp: has_custom_getattribute_def custom_attribute_method_def special x Some)
  qed
qed

lemma no_custom_getattribute:
  assumes g: "class_graph h" and ob: "try_get h owner = Some ob" "instance_parts ob = Some (c, a)" "try_get h c = Some (ObjClass k)"
    and no: "\<not> has_custom_getattribute h owner"
  shows "custom_attribute_method h owner ''__getattribute__'' BObjectGetAttribute = Ok None"
proof -
  obtain x where "class_lookup h c ''__getattribute__'' = Ok x" using class_lookup_finds [OF g ob(3)] by blast
  then show ?thesis
    using no special_method_class [OF ob(1,2)]
    by (cases x) (auto simp: has_custom_getattribute_def custom_attribute_method_def split: if_splits)
qed

lemma instance_slot_cache_hit:
  assumes "instance_slot_cache h owner name = Ok (Some e)"
  shows "\<exists>ob c a k. try_get h owner = Some ob \<and> instance_parts ob = Some (c, a) \<and> try_get h c = Some (ObjClass k) \<and>
    \<not> has_custom_getattribute h owner \<and> name \<notin> set uncached_names \<and> (\<forall>x. class_lookup h c name \<noteq> Ok (Some x)) \<and>
    se_class e = c \<and> se_epoch e = cls_version k \<and> slot_cache a (heap_shapes h) name = Ok (Some (se_shape e, se_slot e))"
proof -
  have no: "\<not> has_custom_getattribute h owner" using assms by (auto simp: instance_slot_cache_def)
  obtain ob c a where ob: "try_get h owner = Some ob" "instance_parts ob = Some (c, a)"
    using assms no by (auto simp: instance_slot_cache_def bind_eq_Some_conv split: option.splits)
  have name: "name \<notin> set uncached_names" using assms no ob by (auto simp: instance_slot_cache_def)
  have "\<forall>x. class_lookup h c name \<noteq> Ok (Some x)"
    using assms no ob name by (auto simp: instance_slot_cache_def)
  moreover have "and_then (slot_cache a (heap_shapes h) name) (\<lambda>x. case x of None \<Rightarrow> Ok None
      | Some (sh, i) \<Rightarrow> (case heap_class h c of
            Ok k \<Rightarrow> Ok (Some \<lparr>se_class = c, se_shape = sh, se_slot = i, se_epoch = cls_version k\<rparr>)
          | _ \<Rightarrow> Ok None)) = Ok (Some e)"
    using assms no ob name by (auto simp: instance_slot_cache_def split: res.split_asm option.split_asm)
  ultimately obtain x where miss: "\<forall>x. class_lookup h c name \<noteq> Ok (Some x)"
    and x: "slot_cache a (heap_shapes h) name = Ok x" "(case x of None \<Rightarrow> Ok None
      | Some (sh, i) \<Rightarrow> (case heap_class h c of
            Ok k \<Rightarrow> Ok (Some \<lparr>se_class = c, se_shape = sh, se_slot = i, se_epoch = cls_version k\<rparr>)
          | _ \<Rightarrow> Ok None)) = Ok (Some e)"
    unfolding and_then_Ok_iff by blast
  then obtain sh i where si: "x = Some (sh, i)" by (cases x) auto
  then obtain k where "heap_class h c = Ok k" "e = \<lparr>se_class = c, se_shape = sh, se_slot = i, se_epoch = cls_version k\<rparr>"
    using x(2) by (cases "heap_class h c") auto
  then show ?thesis using no ob name miss x(1) si by (simp add: heap_class_Ok)
qed

lemma cached_instance_slot_hit:
  assumes "cached_instance_slot h owner e = Some v"
  shows "\<exists>ob a k. try_get h owner = Some ob \<and> instance_parts ob = Some (se_class e, a) \<and>
    try_get h (se_class e) = Some (ObjClass k) \<and> cls_version k = se_epoch e \<and> cached_slot a (se_shape e) (se_slot e) = Some v"
  using assms
  by (auto simp: cached_instance_slot_def bind_eq_Some_conv heap_class_Ok split: option.split_asm if_split_asm res.split_asm)

lemma attr_of_slot:
  assumes ob: "try_get h owner = Some ob" "instance_parts ob = Some (c, a)"
    and get: "attributes_get (heap_shapes h) a name = Ok (Some v)"
    and name: "name \<notin> set uncached_names" "name \<noteq> ''__dict__''" "name = ''value'' \<Longrightarrow> \<not> has_stop_value h owner"
  shows "attr h owner name = (Ok v, h)"
proof -
  have "forwards_to h owner name = None" "function_behind h owner = None"
    using ob by (cases ob; simp add: forwards_to_def function_behind_def instance_parts_def)+
  moreover have "attr_here h owner name = (Ok v, h)"
  proof (cases ob)
    case (ObjInstance d b n)
    then show ?thesis using ob get name calculation
      by (simp add: attr_here_def instance_parts_def slot_attribute_def uncached_names_def)
  next
    case (ObjException e)
    then have field: "\<not> (name = ''value'' \<and> exc_stop_iteration_value e \<noteq> None)"
      using ob(1) name(3) by (auto simp: has_stop_value_def)
    have "exception_attribute h owner e name = slot_attribute h owner (exc_class e) (exc_attributes e) name"
      using name(1,2) unfolding exception_attribute_def if_not_P [OF field] by (simp add: uncached_names_def)
    then show ?thesis using ObjException ob get name(1) calculation
      by (simp add: attr_here_def instance_parts_def slot_attribute_def uncached_names_def)
  qed (use ob in \<open>simp_all add: instance_parts_def\<close>)
  ultimately show ?thesis by (simp add: attr_def)
qed

text \<open>C9: The inline cache of instance slots is sound. When a slot was cached for a name on some instance and
  the guard of the cache accepts an instance of a later heap, then the whole attribute protocol that
  the interpreter runs without a cache gives the cached value on that instance and changes nothing: no
  custom \<open>__getattribute__\<close>, no property, descriptor or other attribute of the class should have answered
  instead. Two names with a special meaning are excluded: \<open>__dict__\<close>, which no write accepts, and
  \<open>value\<close> on an exception that carries the value of a \<open>StopIteration\<close> in a field of its own.\<close>

theorem instance_slot_cache_sound:
  assumes "class_reachable lib hl describe h" "class_admissible_run lib hl describe h es"
    and "h' = run_class_events lib hl describe h es"
    and "instance_slot_cache h owner name = Ok (Some e)" "cached_instance_slot h' other e = Some v"
    and "name \<noteq> ''__dict__''" "name = ''value'' \<Longrightarrow> \<not> has_stop_value h' other"
  shows "attribute_get T h' other name MissingRaise = (Ok (AccessValue v), h')"
proof -
  have ci: "class_inv h" by (rule class_reachable_inv [OF assms(1)])
  have ci': "class_inv h'" and l: "later h h'" using class_run_sound [OF ci assms(2)] assms(3) by simp_all
  note g = class_inv_parts(3) [OF ci] and g' = class_inv_parts(3) [OF ci']
  obtain ob a k where ob: "try_get h owner = Some ob" "instance_parts ob = Some (se_class e, a)"
    "try_get h (se_class e) = Some (ObjClass k)" "\<not> has_custom_getattribute h owner" "name \<notin> set uncached_names"
    "se_epoch e = cls_version k" "slot_cache a (heap_shapes h) name = Ok (Some (se_shape e, se_slot e))"
    "\<forall>x. class_lookup h (se_class e) name \<noteq> Ok (Some x)"
    using instance_slot_cache_hit [OF assms(4)] by blast
  obtain ob' b k' where ob': "try_get h' other = Some ob'" "instance_parts ob' = Some (se_class e, b)"
    "try_get h' (se_class e) = Some (ObjClass k')" "cls_version k' = se_epoch e" "cached_slot b (se_shape e) (se_slot e) = Some v"
    using cached_instance_slot_hit [OF assms(5)] by blast
  have shapes: "shapes_wf (heap_shapes h)" "attributes_wf (heap_shapes h) a" "shapes_wf (heap_shapes h')" "attributes_wf (heap_shapes h') b"
    using class_inv_parts(2) [OF ci] class_inv_parts(2) [OF ci'] ob(1,2) ob'(1,2) by (auto simp: shape_inv_def)
  have le: "shapes_le (heap_shapes h) (heap_shapes h')" using l by (simp add: later_def)
  have "attributes_get (heap_shapes h') b name = Ok (Some v)"
    by (rule cached_slot_ok [OF shapes(1,2) ob(7) shapes(3) le shapes(4) ob'(5)])
  then have slot: "attr h' other name = (Ok v, h')" by (rule attr_of_slot [OF ob'(1,2) _ ob(5) assms(6,7)])
  have same: "class_lookup h' (se_class e) n = class_lookup h (se_class e) n" for n
    using class_lookup_later(1) [OF g l ob(3) ob'(3)] ob(6) ob'(4) by simp
  have plain: "class_lookup h' (se_class e) name = Ok None"
    using class_lookup_finds [OF g ob(3), of name] ob(8) same by (metis not_Some_eq)
  have "try_get h' f = Some (ObjBuiltin BObjectGetAttribute)" if f: "class_lookup h' (se_class e) ''__getattribute__'' = Ok (Some f)" for f
  proof -
    have fb: "try_get h f = Some (ObjBuiltin BObjectGetAttribute)"
      using f same custom_getattribute_instance [OF g ob(1,2,3)] ob(4) by auto
    obtain c1 k1 where "try_get h' c1 = Some (ObjClass k1)" "map_of (cls_attributes k1) ''__getattribute__'' = Some f"
      using class_lookup_finds [OF g' ob'(3), of "''__getattribute__''"] f by auto
    then have "valid h' f" by (rule attribute_valid [OF class_inv_parts(1) [OF ci']])
    then have "try_get h' f \<noteq> None" using try_get_index [OF fb] valid_get [OF class_inv_parts(6) [OF ci']] by fastforce
    then show ?thesis using l fb unfolding later_def by metis
  qed
  then have "\<not> has_custom_getattribute h' other"
    using custom_getattribute_instance [OF g' ob'(1,2,3)] by auto
  then have "custom_attribute_method h' other ''__getattribute__'' BObjectGetAttribute = Ok None"
    by (rule no_custom_getattribute [OF g' ob'(1,2,3)])
  then show ?thesis by (rule attribute_get_instance [OF ob'(1,2) _ plain slot])
qed

text \<open>An instance of \<open>A\<close> whose attribute \<open>x\<close> has this value.\<close>

definition with_instance :: "tvalue \<Rightarrow> heap" where
  "with_instance v = (placed_objects [ObjStr ''__main__'', ObjStr ''A'', ObjClass class_a, ObjStr ''__main__'', ObjStr ''B'',
     ObjClass class_b, ObjInstance (value_heap 2 1) (Slots 1 [v]) None])\<lparr>next_type := 2,
     heap_shapes := \<lparr>nodes = [\<lparr>parent = 0, shape_name = ''x'', depth = 1\<rparr>], transitions = (\<lambda>_. Map.empty)(0 := [''x'' \<mapsto> 1])\<rparr>\<rparr>"

lemmas instance_simps = set_instance_attribute_def instance_parts_def with_attributes_def reserved_names_def
  slot_def shapes_len_def transition_def shapes_default_def attributes_default_def index_at_def depth_slot_def

lemma immediates: "heap_index ELLIPSIS = None" "heap_index NONE = None"
  by (simp_all add: ELLIPSIS_def NONE_def heap_index_def)

lemma with_instance_run:
  "run_class_events lib hl describe two_classes [EvHeap (EvAlloc (ObjInstance (value_heap 2 1) attributes_default None)),
     EvSetAttr (value_heap 6 1) ''x'' ELLIPSIS] = with_instance ELLIPSIS"
  by (simp add: immediates two_classes_def with_instance_def placed_objects_def class_a_def class_simps write_simps instance_simps upt_rec)

lemma with_instance_get:
  "try_get (with_instance v) (value_heap 2 1) = Some (ObjClass class_a)"
  "try_get (with_instance v) (value_heap 6 1) = Some (ObjInstance (value_heap 2 1) (Slots 1 [v]) None)"
  by (simp_all add: with_instance_def placed_objects_def class_simps upt_rec)

lemma with_instance_write: "snd (set_attr (with_instance ELLIPSIS) (value_heap 6 1) ''x'' NONE) = with_instance NONE"
  by (simp add: immediates with_instance_def placed_objects_def class_a_def class_simps write_simps instance_simps upt_rec)

lemma two_classes_valid: "valid two_classes (value_heap 2 1)"
  using two_classes_get(1) by (auto simp: valid_def try_get_def split: option.splits)

lemma two_classes_chain: "class_chain_ok two_classes (value_heap 2 1)"
  by (simp add: class_chain_ok_def heap_class_Ok [THEN iffD2, OF two_classes_get(1)] class_a_def del: One_nat_def)

lemma with_instance_reachable: "class_reachable lib hl describe (with_instance ELLIPSIS)"
proof -
  have "class_admissible_run lib hl describe two_classes [EvHeap (EvAlloc (ObjInstance (value_heap 2 1) attributes_default None)),
     EvSetAttr (value_heap 6 1) ''x'' ELLIPSIS]"
    using two_classes_valid two_classes_chain
    by (simp add: class_admissible_def admissible_def runtime_event_def runtime_object_def allocatable_def object_trace_def
        attributes_default_def instance_parts_def class_view_def namespace_view_def valid_def [of _ ELLIPSIS] immediates del: One_nat_def)
  then show ?thesis using class_reachable_run [OF two_classes_reachable] with_instance_run by metis
qed

lemma with_instance_cached:
  "instance_slot_cache (with_instance ELLIPSIS) (value_heap 6 1) ''x'' =
     Ok (Some \<lparr>se_class = value_heap 2 1, se_shape = 1, se_slot = 0, se_epoch = 1\<rparr>)"
  "cached_instance_slot (with_instance NONE) (value_heap 6 1) \<lparr>se_class = value_heap 2 1, se_shape = 1, se_slot = 0, se_epoch = 1\<rparr> =
     Some NONE"
proof -
  have cls: "heap_class (with_instance v) (value_heap 2 1) = Ok class_a" for v by (simp only: heap_class_Ok with_instance_get)
  have lookup: "class_lookup (with_instance v) (value_heap 2 1) ''x'' = Ok None"
    "class_lookup (with_instance v) (value_heap 2 1) ''__getattribute__'' = Ok None" for v
    by (simp_all add: class_lookup_def cls class_a_def del: One_nat_def)
  have ob: "try_get (with_instance v) (value_heap 6 1) = Some (ObjInstance (value_heap 2 1) (Slots 1 [v]) None)" for v
    by (rule with_instance_get)
  have parts: "instance_parts (ObjInstance (value_heap 2 1) (Slots 1 [v]) None) = Some (value_heap 2 1, Slots 1 [v])" for v
    by (simp add: instance_parts_def)
  have no: "\<not> has_custom_getattribute (with_instance v) (value_heap 6 1)" for v
    by (simp add: has_custom_getattribute_def custom_attribute_method_def special_method_class [OF ob parts] lookup del: One_nat_def)
  have slot: "slot (heap_shapes (with_instance v)) 1 ''x'' = Ok (Some 0)" for v
    by (simp add: with_instance_def instance_simps)
  show "instance_slot_cache (with_instance ELLIPSIS) (value_heap 6 1) ''x'' =
     Ok (Some \<lparr>se_class = value_heap 2 1, se_shape = 1, se_slot = 0, se_epoch = 1\<rparr>)"
    by (simp add: instance_slot_cache_def no ob parts lookup cls slot uncached_names_def class_a_def del: One_nat_def)
  show "cached_instance_slot (with_instance NONE) (value_heap 6 1) \<lparr>se_class = value_heap 2 1, se_shape = 1, se_slot = 0, se_epoch = 1\<rparr> =
     Some NONE"
    by (simp add: cached_instance_slot_def ob parts cls class_a_def del: One_nat_def)
qed

lemma instance_slot_cache_sound_witness:
  "\<forall>T. attribute_get T (with_instance NONE) (value_heap 6 1) ''x'' MissingRaise = (Ok (AccessValue NONE), with_instance NONE)"
proof -
  have adm: "class_admissible_run undefined undefined undefined (with_instance ELLIPSIS) [EvSetAttr (value_heap 6 1) ''x'' NONE]"
    by (simp add: class_admissible_def)
  have run: "with_instance NONE = run_class_events undefined undefined undefined (with_instance ELLIPSIS) [EvSetAttr (value_heap 6 1) ''x'' NONE]"
    by (simp only: run_class_events.simps run_class_event.simps with_instance_write)
  from instance_slot_cache_sound [OF with_instance_reachable adm run with_instance_cached] show ?thesis by simp
qed

section \<open>A write that panics\<close>

text \<open>C26: Writing or deleting an ordinary attribute of a value that has a class but no attribute storage - a
  generator, a coroutine iterator, a future, a task, an event loop, an iterator, a generic alias, a
  union type - panics instead of raising \<open>AttributeError\<close>: \<open>instance_class\<close> gives such a value a class,
  and \<open>instance_attributes_mut\<close>, which the write expects to succeed, has nothing for it.\<close>

theorem attribute_write_panics:
  assumes "class_reachable lib hl describe h" "try_get h owner = Some ob" "instance_class ob = Some c" "instance_parts ob = None"
    and "heap_class h c = Ok k" "\<not> cls_root k" "name \<notin> set reserved_names"
  shows "fst (set_attr h owner name v) = Panic \<and> fst (del_attr h owner name) = Panic"
proof -
  have wf: "slots_wf h" by (rule class_inv_parts [OF class_reachable_inv [OF assms(1)]])
  have kind: "\<not> is_module h owner" "\<not> is_function h owner" "\<not> has_stop_value h owner"
    using assms(2-4) by (cases ob; simp add: is_module_def is_function_def has_stop_value_def instance_class_def instance_parts_def)+
  obtain R where w: "write_barrier h owner v = (Ok (), h\<lparr>remembered := R\<rparr>)"
    using write_barriers_Ok [OF wf, of owner "[v]"] write_barriers_single by metis
  have get: "heap_get h owner = Ok ob" "heap_get (h\<lparr>remembered := R\<rparr>) owner = Ok ob"
    using assms(2) by (simp_all add: heap_get_def ok_or_def remembered_update_same)
  show ?thesis
    using kind assms(3-7) get
    by (simp add: set_attr_def del_attr_def set_instance_attribute_def delete_instance_attribute_def w)
qed

definition with_alias :: heap where
  "with_alias = snd (run_class_event undefined undefined undefined two_classes
     (EvHeap (EvAlloc (ObjGenericAlias (value_heap 2 1) (value_heap 2 1) (value_heap 2 1)))))"

lemma with_alias_reachable: "class_reachable undefined undefined undefined with_alias"
  unfolding with_alias_def
proof (rule class_reachable.event [OF two_classes_reachable])
  show "class_admissible two_classes (EvHeap (EvAlloc (ObjGenericAlias (value_heap 2 1) (value_heap 2 1) (value_heap 2 1))))"
    using two_classes_valid
    by (simp add: class_admissible_def admissible_def runtime_event_def runtime_object_def allocatable_def object_trace_def
        instance_parts_def class_view_def namespace_view_def del: One_nat_def)
qed

lemma with_alias_get:
  "try_get with_alias (value_heap 6 1) = Some (ObjGenericAlias (value_heap 2 1) (value_heap 2 1) (value_heap 2 1))"
  "try_get with_alias (value_heap 2 1) = Some (ObjClass class_a)"
  by (simp_all add: with_alias_def two_classes_def placed_objects_def class_simps upt_rec)

lemma attribute_write_panics_witness:
  "fst (set_attr with_alias (value_heap 6 1) ''x'' NONE) = Panic \<and> fst (del_attr with_alias (value_heap 6 1) ''x'') = Panic"
  by (rule attribute_write_panics [OF with_alias_reachable with_alias_get(1) _ _ heap_class_Ok [THEN iffD2, OF with_alias_get(2)]])
    (simp_all add: instance_class_def instance_parts_def class_a_def reserved_names_def)

end
