(* ===== verification/Sequences.thy ===== *)
theory Sequences
  imports Classes Buffers Dictionaries
begin

text \<open>
  The rest of crates/tonic-runtime/src/ops.rs: comparison with its nesting limit, \<open>len\<close>, items,
  slices, iterators and \<open>next\<close>; with item assignment and deletion of dict.rs.

  A string is its UTF-8 bytes, so \<open>chars()\<close> splits it before every byte that does not continue a
  character, and strings compare by their bytes. Capacities are not modelled.
\<close>

section \<open>Comparison\<close>

datatype ordering = OrdLess | OrdEqual | OrdGreater

fun ordering_reverse :: "ordering \<Rightarrow> ordering" where
  "ordering_reverse OrdLess = OrdGreater"
| "ordering_reverse OrdEqual = OrdEqual"
| "ordering_reverse OrdGreater = OrdLess"

definition int_cmp :: "int \<Rightarrow> int \<Rightarrow> ordering" where
  "int_cmp x y = (if x < y then OrdLess else if x = y then OrdEqual else OrdGreater)"

definition f64_partial_cmp :: "64 word \<Rightarrow> 64 word \<Rightarrow> ordering option" where
  "f64_partial_cmp x y = (if f64_lt x y then Some OrdLess else if f64_eq x y then Some OrdEqual
     else if f64_lt y x then Some OrdGreater else None)"

text \<open>Byte strings in their lexicographic order.\<close>

fun bytes_cmp :: "int list \<Rightarrow> int list \<Rightarrow> ordering" where
  "bytes_cmp [] [] = OrdEqual"
| "bytes_cmp [] (y # ys) = OrdLess"
| "bytes_cmp (x # xs) [] = OrdGreater"
| "bytes_cmp (x # xs) (y # ys) = (if x = y then bytes_cmp xs ys else int_cmp x y)"

definition string_bytes :: "string \<Rightarrow> int list" where
  "string_bytes s = map of_char s"

definition numeric :: "heap \<Rightarrow> tvalue \<Rightarrow> bool" where
  "numeric h v \<longleftrightarrow> is_integer h v \<or> is_float h v"

text \<open>An integer against a float: against the truncated float first, then by the fraction.\<close>

definition mixed_order :: "numeric_library \<Rightarrow> int \<Rightarrow> 64 word \<Rightarrow> ordering option res" where
  "mixed_order lib i f =
     (if f64_is_nan f then Ok None
      else if f64_is_infinite f then Ok (Some (if f64_sign f then OrdGreater else OrdLess))
      else and_then (ok_or (lib_from_f64 lib f) type_error) (\<lambda>truncated.
        Ok (Some (let order = int_cmp i truncated in
          if order = OrdEqual then
            if f64_lt 0 (f64_fract f) then OrdLess
            else if f64_lt (f64_fract f) 0 then OrdGreater
            else OrdEqual
          else order))))"

definition number_order :: "numeric_library \<Rightarrow> heap \<Rightarrow> tvalue \<Rightarrow> tvalue \<Rightarrow> ordering option res" where
  "number_order lib h a b = (case (integer a, integer b) of
      (Some x, Some y) \<Rightarrow> Ok (Some (int_cmp x y))
    | _ \<Rightarrow>
      if is_integer h a \<and> is_integer h b then
        and_then (heap_integer h a) (\<lambda>x. and_then (heap_integer h b) (\<lambda>y. Ok (Some (int_cmp x y))))
      else if is_float h a \<and> is_float h b then
        and_then (heap_float lib h a) (\<lambda>x. and_then (heap_float lib h b) (\<lambda>y. Ok (f64_partial_cmp x y)))
      else let reverse = is_float h a; (i, f) = (if reverse then (b, a) else (a, b)) in
        and_then (heap_integer h i) (\<lambda>n. and_then (heap_float lib h f) (\<lambda>x.
        and_then (mixed_order lib n x) (\<lambda>cmp.
        Ok (if reverse then map_option ordering_reverse cmp else cmp)))))"

text \<open>\<open>try_every p\<close> is a loop that stops at the first element for which \<open>p\<close> is false.\<close>

fun try_every :: "('a \<Rightarrow> bool res) \<Rightarrow> 'a list \<Rightarrow> bool res" where
  "try_every p [] = Ok True"
| "try_every p (x # xs) = and_then (p x) (\<lambda>b. if b then try_every p xs else Ok False)"

lemma try_every_cong [fundef_cong]:
  "xs = ys \<Longrightarrow> (\<And>x. x \<in> set ys \<Longrightarrow> p x = q x) \<Longrightarrow> try_every p xs = try_every q ys"
proof -
  assume "xs = ys" "\<And>x. x \<in> set ys \<Longrightarrow> p x = q x"
  moreover have "(\<forall>x\<in>set ys. p x = q x) \<longrightarrow> try_every p ys = try_every q ys"
    by (induction ys) (auto cong: if_cong)
  ultimately show ?thesis by simp
qed

lemma try_any_cong [fundef_cong]:
  "xs = ys \<Longrightarrow> (\<And>x. x \<in> set ys \<Longrightarrow> p x = q x) \<Longrightarrow> try_any p xs = try_any q ys"
proof -
  assume "xs = ys" "\<And>x. x \<in> set ys \<Longrightarrow> p x = q x"
  moreover have "(\<forall>x\<in>set ys. p x = q x) \<longrightarrow> try_any p ys = try_any q ys"
    by (induction ys) (auto cong: if_cong)
  ultimately show ?thesis by simp
qed

definition nesting_limit :: "'a res" where
  "nesting_limit = fail ''RecursionError'' ''comparison nesting limit''"

definition ranges_equal :: "int \<times> int \<times> int \<Rightarrow> int \<times> int \<times> int \<Rightarrow> bool" where
  "ranges_equal = (\<lambda>(a, b, c) (x, y, z). let n = range_len a b c; m = range_len x y z in
     n = m \<and> (n = 0 \<or> (a = x \<and> (n = 1 \<or> c = z))))"

text \<open>What two objects are compared by: the arms of the match.\<close>

datatype equal_plan =
    EqualResult bool
  | EqualMethods tvalue tvalue tvalue tvalue
  | EqualDicts dict dict
  | EqualElements "tvalue list" "tvalue list"
  | EqualAliases tvalue tvalue tvalue tvalue
  | EqualUnions "tvalue list" "tvalue list"

definition equal_plan :: "object \<Rightarrow> object \<Rightarrow> equal_plan" where
  "equal_plan left right = (case left of
      ObjBoundMethod f x \<Rightarrow> (case right of ObjBoundMethod g y \<Rightarrow> EqualMethods f x g y | _ \<Rightarrow> EqualResult False)
    | ObjDict x \<Rightarrow> (case right of ObjDict y \<Rightarrow> EqualDicts x y | _ \<Rightarrow> EqualResult False)
    | ObjStr x \<Rightarrow> (case right of ObjStr y \<Rightarrow> EqualResult (x = y) | _ \<Rightarrow> EqualResult False)
    | ObjBytes x \<Rightarrow> (case right of ObjBytes y \<Rightarrow> EqualResult (x = y) | _ \<Rightarrow> EqualResult False)
    | ObjTuple x \<Rightarrow> (case right of ObjTuple y \<Rightarrow> EqualElements x y | _ \<Rightarrow> EqualResult False)
    | ObjList x \<Rightarrow> (case right of ObjList y \<Rightarrow> EqualElements x y | _ \<Rightarrow> EqualResult False)
    | ObjGenericAlias _ origin args \<Rightarrow> (case right of
          ObjGenericAlias _ origin' args' \<Rightarrow> EqualAliases origin args origin' args' | _ \<Rightarrow> EqualResult False)
    | ObjUnionType _ x \<Rightarrow> (case right of ObjUnionType _ y \<Rightarrow> EqualUnions x y | _ \<Rightarrow> EqualResult False)
    | ObjRange a b c \<Rightarrow> (case right of
          ObjRange x y z \<Rightarrow> EqualResult (ranges_equal (a, b, c) (x, y, z)) | _ \<Rightarrow> EqualResult False)
    | _ \<Rightarrow> EqualResult False)"

definition equal_plan_at :: "heap \<Rightarrow> tvalue \<Rightarrow> tvalue \<Rightarrow> equal_plan" where
  "equal_plan_at h a b = (case try_get h (native_value h a) of None \<Rightarrow> EqualResult False
     | Some left \<Rightarrow> (case try_get h (native_value h b) of None \<Rightarrow> EqualResult False
         | Some right \<Rightarrow> equal_plan left right))"

function heap_equal ::
  "numeric_library \<Rightarrow> hash_library \<Rightarrow> heap \<Rightarrow> tvalue \<Rightarrow> tvalue \<Rightarrow> nat \<Rightarrow> bool res" where
  "heap_equal lib hl h a b level =
     (if 100 < level then nesting_limit
      else if numeric h a \<and> numeric h b
      then and_then (number_order lib h a b) (\<lambda>order. Ok (order = Some OrdEqual))
      else if a = b then Ok True
      else case equal_plan_at h a b of
        EqualResult r \<Rightarrow> Ok r
      | EqualMethods f x g y \<Rightarrow>
          and_then (if f = g then Ok True else heap_equal lib hl h f g (level + 1)) (\<lambda>e.
          if \<not> e then Ok False else if x = y then Ok True else heap_equal lib hl h x y (level + 1))
      | EqualDicts x y \<Rightarrow>
          if length (dict_entries x) \<noteq> length (dict_entries y) then Ok False
          else try_every (\<lambda>kv. and_then (dict_get lib hl h b (fst kv)) (\<lambda>found. case found of
              None \<Rightarrow> Ok False
            | Some other \<Rightarrow> if snd kv = other then Ok True
                else heap_equal lib hl h (snd kv) other (level + 1))) (dict_entries x)
      | EqualElements x y \<Rightarrow>
          if length x \<noteq> length y then Ok False
          else try_every (\<lambda>vw. if fst vw = snd vw then Ok True
            else heap_equal lib hl h (fst vw) (snd vw) (level + 1)) (zip x y)
      | EqualAliases left_origin left_args right_origin right_args \<Rightarrow>
          and_then (heap_equal lib hl h left_origin right_origin (level + 1)) (\<lambda>same_origin.
          case (if same_origin \<and> is_form h FormLiteral left_origin
                then (canonical_literal_arguments h left_args, canonical_literal_arguments h right_args)
                else (Inl UnsupportedValue, Inl UnsupportedValue)) of
            (Inr left, Inr right) \<Rightarrow> Ok (left = right)
          | _ \<Rightarrow> if same_origin then heap_equal lib hl h left_args right_args (level + 1) else Ok False)
      | EqualUnions left right \<Rightarrow>
          if length left \<noteq> length right then Ok False
          else try_every (\<lambda>member. try_any (\<lambda>candidate. if member = candidate then Ok True
            else heap_equal lib hl h member candidate (level + 1)) right) left)"
  by pat_completeness auto
termination
  by (relation "measure (\<lambda>(lib, hl, h, a, b, level). 101 - level)") auto

declare heap_equal.simps [simp del]

text \<open>The first pair of elements that are neither the same value nor equal.\<close>

fun first_difference :: "('a \<Rightarrow> 'a \<Rightarrow> bool res) \<Rightarrow> ('a \<times> 'a) list \<Rightarrow> ('a \<times> 'a) option res" where
  "first_difference eq [] = Ok None"
| "first_difference eq ((v, w) # rest) =
     (if v = w then first_difference eq rest
      else and_then (eq v w) (\<lambda>e. if e then first_difference eq rest else Ok (Some (v, w))))"

text \<open>The arms of the match of \<open>order\<close>.\<close>

datatype order_plan =
    OrderResult ordering
  | OrderElements "tvalue list" "tvalue list"
  | OrderUnsupported

definition order_plan :: "object \<Rightarrow> object \<Rightarrow> order_plan" where
  "order_plan left right = (case left of
      ObjStr x \<Rightarrow> (case right of ObjStr y \<Rightarrow> OrderResult (bytes_cmp (string_bytes x) (string_bytes y))
        | _ \<Rightarrow> OrderUnsupported)
    | ObjBytes x \<Rightarrow> (case right of ObjBytes y \<Rightarrow> OrderResult (bytes_cmp (map uint x) (map uint y))
        | _ \<Rightarrow> OrderUnsupported)
    | ObjTuple x \<Rightarrow> (case right of ObjTuple y \<Rightarrow> OrderElements x y | _ \<Rightarrow> OrderUnsupported)
    | ObjList x \<Rightarrow> (case right of ObjList y \<Rightarrow> OrderElements x y | _ \<Rightarrow> OrderUnsupported)
    | _ \<Rightarrow> OrderUnsupported)"

definition order_plan_at :: "heap \<Rightarrow> tvalue \<Rightarrow> tvalue \<Rightarrow> order_plan" where
  "order_plan_at h a b = (case try_get h (native_value h a) of None \<Rightarrow> OrderUnsupported
     | Some left \<Rightarrow> (case try_get h (native_value h b) of None \<Rightarrow> OrderUnsupported
         | Some right \<Rightarrow> order_plan left right))"

function heap_order ::
  "numeric_library \<Rightarrow> hash_library \<Rightarrow> heap \<Rightarrow> tvalue \<Rightarrow> tvalue \<Rightarrow> nat \<Rightarrow> ordering option res" where
  "heap_order lib hl h a b level =
     (if 100 < level then nesting_limit
      else if numeric h a \<and> numeric h b then number_order lib h a b
      else case order_plan_at h a b of
        OrderResult r \<Rightarrow> Ok (Some r)
      | OrderElements x y \<Rightarrow> and_then
          (first_difference (\<lambda>v w. heap_equal lib hl h v w (level + 1)) (zip x y)) (\<lambda>found. case found of
            Some (v, w) \<Rightarrow> heap_order lib hl h v w (level + 1)
          | None \<Rightarrow> Ok (Some (int_cmp (int (length x)) (int (length y)))))
      | OrderUnsupported \<Rightarrow> Err type_error)"
  by pat_completeness auto
termination
  by (relation "measure (\<lambda>(lib, hl, h, a, b, level). 101 - level)") auto

declare heap_order.simps [simp del]

definition compare ::
  "numeric_library \<Rightarrow> hash_library \<Rightarrow> heap \<Rightarrow> op \<Rightarrow> tvalue \<Rightarrow> tvalue \<Rightarrow> tvalue res" where
  "compare lib hl h opr a b =
     (if opr = OpEq \<or> opr = OpNe then
        and_then (heap_equal lib hl h a b 0) (\<lambda>equal. Ok (value_bool (if opr = OpEq then equal else \<not> equal)))
      else and_then (heap_order lib hl h a b 0) (\<lambda>order. Ok (value_bool
        (if opr = OpLt then order = Some OrdLess
         else if opr = OpLe then order = Some OrdLess \<or> order = Some OrdEqual
         else if opr = OpGt then order = Some OrdGreater
         else if opr = OpGe then order = Some OrdGreater \<or> order = Some OrdEqual
         else False))))"

section \<open>Characters\<close>

definition continues :: "char \<Rightarrow> bool" where
  "continues c \<longleftrightarrow> (of_char c :: nat) div 64 = 2"

function characters :: "string \<Rightarrow> string list" where
  "characters [] = []"
| "characters (c # s) = (c # takeWhile continues s) # characters (dropWhile continues s)"
  by pat_completeness auto
termination
  by (relation "measure length") (auto simp: le_imp_less_Suc length_dropWhile_le)

section \<open>Length and items\<close>

definition heap_length :: "heap \<Rightarrow> tvalue \<Rightarrow> (tvalue, heap) run" where
  "heap_length h v =
     run_then (and_then (heap_get h (native_value h v)) (\<lambda>ob. case ob of
         ObjStr s \<Rightarrow> Ok (int (length (characters s)))
       | ObjBytes bs \<Rightarrow> Ok (int (length bs))
       | ObjTuple vs \<Rightarrow> Ok (int (length vs))
       | ObjList vs \<Rightarrow> Ok (int (length vs))
       | ObjBuffer b \<Rightarrow> Ok (int (buf_elements b))
       | ObjDict d \<Rightarrow> Ok (int (length (dict_entries d)))
       | ObjSet d \<Rightarrow> Ok (int (length (dict_entries d)))
       | ObjMappingProxy c \<Rightarrow> and_then (heap_class h c) (\<lambda>k. Ok (int (dictionary_len k)))
       | ObjRange start stop step \<Rightarrow> Ok (range_len start stop step)
       | _ \<Rightarrow> fail ''TypeError'' ''object has no len()''), h) (\<lambda>n h1. heap_int h1 n)"

definition to_i128 :: "int \<Rightarrow> int option" where
  "to_i128 n = (if i128_range n then Some n else None)"

definition index_error :: "string \<Rightarrow> diagnostic" where
  "index_error m = diag_new ''IndexError'' m"

text \<open>An index as Python counts it, from the end when it is negative.\<close>

definition normalized_index :: "string \<Rightarrow> int \<Rightarrow> int \<Rightarrow> nat res" where
  "normalized_index m len i = (let i' = if i < 0 then len + i else i in
     if i' < 0 \<or> len \<le> i' then Err (index_error m) else Ok (nat i'))"

definition index_value :: "heap \<Rightarrow> string \<Rightarrow> tvalue \<Rightarrow> int res" where
  "index_value h m v = and_then (heap_integer h v) (\<lambda>n. ok_or (to_i128 n) (index_error m))"

definition invalid_buffer_index :: diagnostic where
  "invalid_buffer_index = diag_new ''RuntimeError'' ''validated buffer layout produced an invalid index''"

definition buffer_index :: "heap \<Rightarrow> tvalue \<Rightarrow> tvalue \<Rightarrow> nat res" where
  "buffer_index h buffer i = and_then (heap_get h buffer) (\<lambda>ob. case ob of
     ObjBuffer b \<Rightarrow> (let m = ''buffer index out of range'' in
       case try_get h (native_value h i) of
         Some (ObjTuple indices) \<Rightarrow>
           if length indices \<noteq> length (buf_shape b)
           then Err (index_error (''buffer expects '' @ decimal (length (buf_shape b)) @
             '' indices, got '' @ decimal (length indices)))
           else and_then (try_map (\<lambda>(v, dimension). and_then (index_value h m v)
               (normalized_index m (int dimension))) (zip indices (buf_shape b))) (\<lambda>ns.
             ok_or (storage_index b ns) invalid_buffer_index)
       | _ \<Rightarrow> and_then (index_value h m i) (\<lambda>raw.
           and_then (normalized_index m (int (buf_elements b)) raw) (\<lambda>n.
           and_then (flat_storage_index b n) (\<lambda>x. ok_or x invalid_buffer_index))))
   | _ \<Rightarrow> fail ''TypeError'' ''expected f64 buffer'')"

section \<open>Slices\<close>

definition I128_MIN :: int where "I128_MIN = - (2 ^ 127)"
definition I128_MAX :: int where "I128_MAX = 2 ^ 127 - 1"

definition saturate_i128 :: "int \<Rightarrow> int" where
  "saturate_i128 n = max I128_MIN (min I128_MAX n)"

definition slice_component :: "heap \<Rightarrow> tvalue \<Rightarrow> int option res" where
  "slice_component h v =
     (if v = NONE then Ok None
      else and_then (case heap_integer h v of
          Err _ \<Rightarrow> fail ''TypeError'' ''slice indices must be integers or None'' | r \<Rightarrow> r) (\<lambda>n.
        Ok (Some (case to_i128 n of Some m \<Rightarrow> m | None \<Rightarrow> if n < 0 then I128_MIN else I128_MAX))))"

definition clamp :: "int \<Rightarrow> int \<Rightarrow> int \<Rightarrow> int" where
  "clamp lo hi n = max lo (min hi n)"

definition slice_normalize :: "int \<Rightarrow> int \<Rightarrow> int \<Rightarrow> int \<Rightarrow> int" where
  "slice_normalize len lo hi n = clamp lo hi (if n < 0 then saturate_i128 (n + len) else n)"

text \<open>The two loops; a loop that does not end is \<open>None\<close>.\<close>

partial_function (option) slice_up :: "int \<Rightarrow> int \<Rightarrow> int \<Rightarrow> nat list option" where
  "slice_up stop step current =
     (if current < stop then
        (case checked_i128 (current + step) of
           None \<Rightarrow> Some [nat current]
         | Some n \<Rightarrow> Option.bind (slice_up stop step n) (\<lambda>is. Some (nat current # is)))
      else Some [])"

partial_function (option) slice_down :: "int \<Rightarrow> int \<Rightarrow> int \<Rightarrow> nat list option" where
  "slice_down stop step current =
     (if stop < current then
        (case checked_i128 (current + step) of
           None \<Rightarrow> Some [nat current]
         | Some n \<Rightarrow> Option.bind (slice_down stop step n) (\<lambda>is. Some (nat current # is)))
      else Some [])"

definition slice_indices :: "nat \<Rightarrow> int option \<Rightarrow> int option \<Rightarrow> int \<Rightarrow> nat list option" where
  "slice_indices n start stop step = (let len = int n in
     if 0 < step then
       slice_up (case stop of None \<Rightarrow> len | Some s \<Rightarrow> slice_normalize len 0 len s) step
         (case start of None \<Rightarrow> 0 | Some s \<Rightarrow> slice_normalize len 0 len s)
     else let upper = len - 1 in
       slice_down (case stop of None \<Rightarrow> -1 | Some s \<Rightarrow> slice_normalize len (-1) upper s) step
         (case start of None \<Rightarrow> upper | Some s \<Rightarrow> slice_normalize len (-1) upper s))"

definition looped :: "'a option \<Rightarrow> 'a res" where
  "looped x = (case x of None \<Rightarrow> Diverge | Some y \<Rightarrow> Ok y)"

definition picked :: "'a list \<Rightarrow> int option \<Rightarrow> int option \<Rightarrow> int \<Rightarrow> 'a list res" where
  "picked xs start stop step =
     and_then (looped (slice_indices (length xs) start stop step)) (try_map (index_at xs))"

definition heap_slice :: "heap \<Rightarrow> tvalue \<Rightarrow> tvalue \<times> tvalue \<times> tvalue \<Rightarrow> (tvalue, heap) run" where
  "heap_slice h source0 = (\<lambda>(a, b, c). let source = native_value h source0 in
     run_then (and_then (slice_component h a) (\<lambda>start. and_then (slice_component h b) (\<lambda>stop.
       and_then (slice_component h c) (\<lambda>step. let s = (case step of None \<Rightarrow> 1 | Some s \<Rightarrow> s) in
       if s = 0 then fail ''ValueError'' ''slice step cannot be zero''
       else and_then (heap_get h source) (\<lambda>ob.
         case ob of
           ObjTuple vs \<Rightarrow> and_then (picked vs start stop s) (\<lambda>ws. Ok (ObjTuple ws))
         | ObjList vs \<Rightarrow> and_then (picked vs start stop s) (\<lambda>ws. Ok (ObjList ws))
         | ObjStr t \<Rightarrow> and_then (picked (characters t) start stop s) (\<lambda>cs. Ok (ObjStr (concat cs)))
         | ObjBytes bs \<Rightarrow> and_then (picked bs start stop s) (\<lambda>cs. Ok (ObjBytes cs))
         | _ \<Rightarrow> fail ''TypeError'' ''object is not subscriptable'')))), h) (\<lambda>ob h1. alloc h1 ob))"

text \<open>\<open>proxy_item\<close> is the lookup in the class of a mapping proxy.\<close>

definition proxy_item :: "numeric_library \<Rightarrow> (heap \<Rightarrow> tvalue \<Rightarrow> string res) \<Rightarrow> heap \<Rightarrow> tvalue \<Rightarrow> tvalue \<Rightarrow>
    tvalue res" where
  "proxy_item lib describe h c i =
     (let extras = and_then (heap_class h c) (\<lambda>k.
        and_then (try_fold (\<lambda>found (key, v). case found of Some w \<Rightarrow> Ok (Some w)
            | None \<Rightarrow> and_then (dict_keys_equal lib h key i) (\<lambda>e. Ok (if e then Some v else None)))
          None (cls_extra_attributes k)) (\<lambda>found. ok_or found (missing_key describe h i))) in
      case try_get h i of
        Some (ObjStr name) \<Rightarrow> and_then (heap_class h c) (\<lambda>k. case map_of (cls_attributes k) name of
            Some v \<Rightarrow> Ok v | None \<Rightarrow> extras)
      | _ \<Rightarrow> extras)"

definition sequence_item :: "heap \<Rightarrow> tvalue \<Rightarrow> tvalue \<Rightarrow> (tvalue, heap) run" where
  "sequence_item h v i0 =
     run_then (and_then (index_value h ''index out of range'' i0) (\<lambda>i.
         and_then (heap_get h v) (\<lambda>ob.
         and_then (case ob of
             ObjTuple vs \<Rightarrow> Ok (int (length vs))
           | ObjList vs \<Rightarrow> Ok (int (length vs))
           | ObjStr s \<Rightarrow> Ok (int (length (characters s)))
           | ObjBytes bs \<Rightarrow> Ok (int (length bs))
           | ObjRange start stop step \<Rightarrow> Ok (range_len start stop step)
           | _ \<Rightarrow> fail ''TypeError'' ''object is not subscriptable'') (\<lambda>len.
         and_then (normalized_index ''index out of range'' len i) (\<lambda>n. Ok (ob, n))))), h) (\<lambda>(ob, n) h1.
     case ob of
       ObjTuple vs \<Rightarrow> (index_at vs n, h1)
     | ObjList vs \<Rightarrow> (index_at vs n, h1)
     | ObjStr s \<Rightarrow> run_then (index_at (characters s) n, h1) (\<lambda>c h2. alloc h2 (ObjStr c))
     | ObjBytes bs \<Rightarrow> run_then (index_at bs n, h1) (\<lambda>b h2. heap_i64 h2 (uint b))
     | ObjRange start stop step \<Rightarrow> heap_int h1 (start + int n * step)
     | _ \<Rightarrow> (Err type_error, h1))"

definition heap_item :: "numeric_library \<Rightarrow> hash_library \<Rightarrow> (heap \<Rightarrow> tvalue \<Rightarrow> string res) \<Rightarrow>
    heap \<Rightarrow> tvalue \<Rightarrow> tvalue \<Rightarrow> (tvalue, heap) run" where
  "heap_item lib hl describe h v0 i = (let v = native_value h v0 in
     case try_get h v of
       None \<Rightarrow> (Err (invalid_value v), h)
     | Some (ObjDict _) \<Rightarrow>
         (and_then (dict_get lib hl h v i) (\<lambda>found. ok_or found (missing_key describe h i)), h)
     | Some (ObjMappingProxy c) \<Rightarrow> (proxy_item lib describe h c i, h)
     | Some (ObjBuffer b) \<Rightarrow> run_then (and_then (buffer_index h v i) (index_at (buf_data b)), h)
         (\<lambda>x h1. alloc h1 (ObjFloat x))
     | Some _ \<Rightarrow> (case try_get h i of
           Some (ObjSlice a b c) \<Rightarrow> heap_slice h v (a, b, c)
         | _ \<Rightarrow> sequence_item h v i))"
section \<open>Iteration\<close>

definition heap_iterator :: "heap \<Rightarrow> tvalue \<Rightarrow> (tvalue, heap) run" where
  "heap_iterator h v0 = (let v = native_value h v0; not_iterable = (fail ''TypeError'' ''object is not iterable'', h) in
     case try_get h v of
       None \<Rightarrow> (Err (invalid_value v), h)
     | Some ob \<Rightarrow> (case ob of
         ObjRange start stop step \<Rightarrow> alloc h (ObjRangeIterator start stop step)
       | ObjTuple _ \<Rightarrow> alloc h (ObjIterator v 0)
       | ObjList _ \<Rightarrow> alloc h (ObjIterator v 0)
       | ObjStr _ \<Rightarrow> alloc h (ObjIterator v 0)
       | ObjBytes _ \<Rightarrow> alloc h (ObjIterator v 0)
       | ObjDict d \<Rightarrow> alloc h (ObjDictIterator v 0 (dict_version d))
       | ObjSet d \<Rightarrow> alloc h (ObjDictIterator v 0 (dict_version d))
       | ObjMappingProxy c \<Rightarrow> run_then (heap_class h c, h) (\<lambda>k h1.
           alloc h1 (ObjMappingProxyIterator c 0 (dictionary_len k)))
       | ObjIterator _ _ \<Rightarrow> (Ok v, h)
       | ObjCallIterator _ _ _ _ \<Rightarrow> (Ok v, h)
       | ObjSequenceIterator _ _ _ _ \<Rightarrow> (Ok v, h)
       | ObjRangeIterator _ _ _ \<Rightarrow> (Ok v, h)
       | ObjDictIterator _ _ _ \<Rightarrow> (Ok v, h)
       | ObjMappingProxyIterator _ _ _ \<Rightarrow> (Ok v, h)
       | ObjCoroutineIterator _ _ \<Rightarrow> (Ok v, h)
       | ObjGenerator g \<Rightarrow> if gen_kind g = KindGenerator then (Ok v, h) else not_iterable
       | _ \<Rightarrow> not_iterable))"

definition is_iterator :: "heap \<Rightarrow> tvalue \<Rightarrow> bool" where
  "is_iterator h v = (case try_get h v of
      Some (ObjIterator _ _) \<Rightarrow> True
    | Some (ObjRangeIterator _ _ _) \<Rightarrow> True
    | Some (ObjDictIterator _ _ _) \<Rightarrow> True
    | Some (ObjMappingProxyIterator _ _ _) \<Rightarrow> True
    | Some (ObjCoroutineIterator _ _) \<Rightarrow> True
    | _ \<Rightarrow> False)"

text \<open>\<open>get\<close> of a vector, and the write of the iterator behind an item.\<close>

definition nth_opt :: "'a list \<Rightarrow> nat \<Rightarrow> 'a option" where
  "nth_opt xs i = (if i < length xs then Some (xs ! i) else None)"

definition advance_iterator :: "heap \<Rightarrow> tvalue \<Rightarrow> (unit, heap) run" where
  "advance_iterator h v = with_object h v (\<lambda>ob. Ok ((), case ob of
      ObjIterator s i \<Rightarrow> ObjIterator s (i + 1)
    | ObjDictIterator s i n \<Rightarrow> ObjDictIterator s (i + 1) n
    | ObjMappingProxyIterator c i n \<Rightarrow> ObjMappingProxyIterator c (i + 1) n
    | _ \<Rightarrow> ob))"

definition yield_item :: "heap \<Rightarrow> tvalue \<Rightarrow> tvalue option \<Rightarrow> (tvalue option, heap) run" where
  "yield_item h v found = (case found of None \<Rightarrow> (Ok None, h)
     | Some w \<Rightarrow> run_then (advance_iterator h v) (\<lambda>_ h1. (Ok (Some w), h1)))"

definition next_entry :: "heap \<Rightarrow> tvalue \<Rightarrow> tvalue \<Rightarrow> nat \<Rightarrow> nat \<Rightarrow> (tvalue option, heap) run" where
  "next_entry h v source i ver =
     run_then (and_then (heap_get h source) (\<lambda>ob. case ob of
         ObjDict d \<Rightarrow> Ok d | ObjSet d \<Rightarrow> Ok d | _ \<Rightarrow> Panic), h) (\<lambda>d h1.
     if dict_version d \<noteq> ver
     then (fail ''RuntimeError'' ''container changed size during iteration'', h1)
     else yield_item h1 v (map_option fst (nth_opt (dict_entries d) i)))"

definition next_attribute :: "heap \<Rightarrow> tvalue \<Rightarrow> tvalue \<Rightarrow> nat \<Rightarrow> nat \<Rightarrow> (tvalue option, heap) run" where
  "next_attribute h v c i known =
     run_then (heap_class h c, h) (\<lambda>k h1.
     if dictionary_len k \<noteq> known
     then (fail ''RuntimeError'' ''dictionary changed size during iteration'', h1)
     else case dictionary_entry k i of
       None \<Rightarrow> (Ok None, h1)
     | Some (DictKeyString name, _) \<Rightarrow> run_then (advance_iterator h1 v) (\<lambda>_ h2.
         run_then (alloc h2 (ObjStr name)) (\<lambda>w h3. (Ok (Some w), h3)))
     | Some (DictKeyOther key, _) \<Rightarrow> run_then (advance_iterator h1 v) (\<lambda>_ h2. (Ok (Some key), h2)))"

definition next_in_range :: "heap \<Rightarrow> tvalue \<Rightarrow> int \<Rightarrow> int \<Rightarrow> int \<Rightarrow> (tvalue option, heap) run" where
  "next_in_range h v n stop step =
     (if (0 < step \<and> stop \<le> n) \<or> (step < 0 \<and> n \<le> stop) then (Ok None, h)
      else run_then (with_object h v (\<lambda>_. Ok ((), ObjRangeIterator (n + step) stop step))) (\<lambda>_ h1.
        run_then (heap_i64 h1 (wrap_i64 n)) (\<lambda>w h2. (Ok (Some w), h2))))"

definition next_element :: "heap \<Rightarrow> tvalue \<Rightarrow> tvalue \<Rightarrow> nat \<Rightarrow> (tvalue option, heap) run" where
  "next_element h v source i =
     run_then (heap_get h source, h) (\<lambda>ob h1. case ob of
         ObjTuple vs \<Rightarrow> yield_item h1 v (nth_opt vs i)
       | ObjList vs \<Rightarrow> yield_item h1 v (nth_opt vs i)
       | ObjStr s \<Rightarrow> (case nth_opt (characters s) i of
           None \<Rightarrow> (Ok None, h1)
         | Some c \<Rightarrow> run_then (alloc h1 (ObjStr c)) (\<lambda>w h2. yield_item h2 v (Some w)))
       | ObjBytes bs \<Rightarrow> (case nth_opt bs i of
           None \<Rightarrow> (Ok None, h1)
         | Some b \<Rightarrow> (case value_int (uint b) of None \<Rightarrow> (Panic, h1) | Some w \<Rightarrow> yield_item h1 v (Some w)))
       | _ \<Rightarrow> (Err type_error, h1))"

definition heap_next :: "heap \<Rightarrow> tvalue \<Rightarrow> (tvalue option, heap) run" where
  "heap_next h v = run_then (heap_get h v, h) (\<lambda>ob h1. case ob of
      ObjDictIterator source i ver \<Rightarrow> next_entry h1 v source i ver
    | ObjMappingProxyIterator c i known \<Rightarrow> next_attribute h1 v c i known
    | ObjRangeIterator n stop step \<Rightarrow> next_in_range h1 v n stop step
    | ObjIterator source i \<Rightarrow> next_element h1 v source i
    | ObjCoroutineIterator _ _ \<Rightarrow> (fail ''RuntimeError'' ''coroutine iterator requires VM resume'', h1)
    | _ \<Rightarrow> (fail ''TypeError'' ''object is not an iterator'', h1))"

section \<open>Assignment and deletion of items\<close>

definition set_buffer_item :: "numeric_library \<Rightarrow> heap \<Rightarrow> tvalue \<Rightarrow> buffer \<Rightarrow> tvalue \<Rightarrow> tvalue \<Rightarrow>
    (unit, heap) run" where
  "set_buffer_item lib h owner b i v =
     (if \<not> buf_writable b then (fail ''TypeError'' ''buffer is read-only'', h)
      else run_then (and_then (buffer_index h owner i) (\<lambda>n.
          and_then (heap_float lib h v) (\<lambda>x. Ok (n, x))), h) (\<lambda>(n, x) h1.
        mutate_object h1 owner (\<lambda>ob. case ob of
            ObjBuffer b1 \<Rightarrow> (case set_f64 b1 n x of (r, b2) \<Rightarrow> (r, ObjBuffer b2))
          | _ \<Rightarrow> (Panic, ob))))"

definition set_list_item :: "heap \<Rightarrow> tvalue \<Rightarrow> object \<Rightarrow> tvalue \<Rightarrow> tvalue \<Rightarrow> (unit, heap) run" where
  "set_list_item h owner ob key v =
     run_then (and_then (index_value h ''list index out of range'' key) (\<lambda>i. case ob of
         ObjList vs \<Rightarrow> normalized_index ''list index out of range'' (int (length vs)) i
       | _ \<Rightarrow> fail ''TypeError'' ''object does not support item assignment''), h) (\<lambda>n h1.
     run_then (write_barrier h1 owner v) (\<lambda>_ h2.
     with_object h2 owner (\<lambda>ob. case ob of
         ObjList vs \<Rightarrow> and_then (index_at vs n) (\<lambda>_. Ok ((), ObjList (vs[n := v])))
       | _ \<Rightarrow> Panic)))"

definition set_item :: "numeric_library \<Rightarrow> hash_library \<Rightarrow> heap \<Rightarrow> tvalue \<Rightarrow> tvalue \<Rightarrow> tvalue \<Rightarrow>
    (unit, heap) run" where
  "set_item lib hl h owner0 key v = (let owner = native_value h owner0 in
     run_then (heap_get h owner, h) (\<lambda>ob h0. case ob of
       ObjDict _ \<Rightarrow> dict_set lib hl h0 owner key v
     | ObjMappingProxy _ \<Rightarrow> (fail ''TypeError'' ''mappingproxy does not support item assignment'', h0)
     | ObjBuffer b \<Rightarrow> set_buffer_item lib h0 owner b key v
     | _ \<Rightarrow> set_list_item h0 owner ob key v))"

definition delete_list_item :: "heap \<Rightarrow> tvalue \<Rightarrow> tvalue \<Rightarrow> (unit, heap) run" where
  "delete_list_item h owner key =
     run_then (index_value h ''list assignment index out of range'' key, h) (\<lambda>i h1.
     with_object h1 owner (\<lambda>ob. case ob of
         ObjList vs \<Rightarrow> and_then (normalized_index ''list assignment index out of range'' (int (length vs)) i)
           (\<lambda>n. Ok ((), ObjList (remove_at n vs)))
       | _ \<Rightarrow> fail ''TypeError'' ''object does not support item deletion''))"

definition delete_item :: "numeric_library \<Rightarrow> hash_library \<Rightarrow> (heap \<Rightarrow> tvalue \<Rightarrow> string res) \<Rightarrow>
    heap \<Rightarrow> tvalue \<Rightarrow> tvalue \<Rightarrow> (unit, heap) run" where
  "delete_item lib hl describe h owner0 key = (let owner = native_value h owner0 in
     run_then (heap_get h owner, h) (\<lambda>ob h0. case ob of
       ObjDict _ \<Rightarrow> dict_delete lib hl describe h0 owner key
     | ObjMappingProxy _ \<Rightarrow> (fail ''TypeError'' ''mappingproxy does not support item deletion'', h0)
     | _ \<Rightarrow> delete_list_item h0 owner key))"

section \<open>What a slice selects\<close>

text \<open>The elements Python selects, with unbounded bounds and step.\<close>

definition from_end :: "int \<Rightarrow> int \<Rightarrow> int" where
  "from_end len n = (if n < 0 then n + len else n)"

definition sliced :: "nat \<Rightarrow> int option \<Rightarrow> int option \<Rightarrow> int \<Rightarrow> nat list" where
  "sliced n start stop step = (let len = int n in
     if 0 < step then
       (let lo = (case start of None \<Rightarrow> 0 | Some a \<Rightarrow> max 0 (from_end len a)) in
        filter (\<lambda>i. lo \<le> int i \<and> (case stop of None \<Rightarrow> True | Some b \<Rightarrow> int i < from_end len b) \<and>
          step dvd int i - lo) [0..<n])
     else
       (let hi = (case start of None \<Rightarrow> len - 1 | Some a \<Rightarrow> min (len - 1) (from_end len a)) in
        filter (\<lambda>i. int i \<le> hi \<and> (case stop of None \<Rightarrow> True | Some b \<Rightarrow> from_end len b < int i) \<and>
          step dvd hi - int i) (rev [0..<n])))"

lemma filter_split_first:
  assumes "i < n" "P i" "\<And>j. j < i \<Longrightarrow> \<not> P j" "\<And>j. i < j \<Longrightarrow> j < k \<Longrightarrow> \<not> P j" "i < k"
  shows "filter P [0..<n] = i # filter (\<lambda>j. k \<le> j \<and> P j) [0..<n]"
proof -
  have split: "[0..<n] = [0..<i] @ i # [Suc i..<n]"
    using assms(1) by (metis le_add_diff_inverse less_imp_le_nat upt_add_eq_append upt_conv_Cons zero_le add_0)
  have "filter P [Suc i..<n] = filter (\<lambda>j. k \<le> j \<and> P j) [Suc i..<n]"
    by (rule filter_cong) (use assms(4) in \<open>auto simp: not_le[symmetric] Suc_le_eq\<close>)
  then show ?thesis
    unfolding split using assms by (auto simp: filter_empty_conv)
qed

lemma filter_split_last:
  assumes "i < n" "P i" "\<And>j. i < j \<Longrightarrow> j < n \<Longrightarrow> \<not> P j" "\<And>j. j < i \<Longrightarrow> k < int j \<Longrightarrow> \<not> P j" "k < int i"
  shows "filter P (rev [0..<n]) = i # filter (\<lambda>j. int j \<le> k \<and> P j) (rev [0..<n])"
proof -
  have split: "[0..<n] = [0..<i] @ i # [Suc i..<n]"
    using assms(1) by (metis le_add_diff_inverse less_imp_le_nat upt_add_eq_append upt_conv_Cons zero_le add_0)
  have "filter P (rev [0..<i]) = filter (\<lambda>j. int j \<le> k \<and> P j) (rev [0..<i])"
    by (rule filter_cong) (use assms(4) in \<open>auto simp: not_le[symmetric]\<close>)
  then show ?thesis
    unfolding split using assms by (auto simp: filter_empty_conv Suc_le_eq)
qed

text \<open>The loops enumerate the residue class of their start.\<close>

lemma slice_up_filter:
  assumes "0 < step" "0 \<le> current" "stop \<le> int n" "int n < 2 ^ 127"
  shows "slice_up stop step current =
    Some (filter (\<lambda>i. current \<le> int i \<and> int i < stop \<and> step dvd int i - current) [0..<n])"
  using assms(2)
proof (induction "nat (stop - current)" arbitrary: current rule: less_induct)
  case less
  show ?case
  proof (cases "current < stop")
    case False
    then show ?thesis by (subst slice_up.simps) (auto simp: filter_empty_conv)
  next
    case True
    let ?P = "\<lambda>i. current \<le> int i \<and> int i < stop \<and> step dvd int i - current"
    have none: "\<not> ?P j" if "nat current < j" "int j < current + step" for j
    proof
      assume "?P j"
      then obtain d where "int j - current = step * d" by (auto elim: dvdE)
      moreover have "0 < int j - current" "int j - current < step" using that less.prems by auto
      ultimately show False using assms(1) by (smt (verit) zdvd_not_zless dvd_triv_left)
    qed
    have split: "filter ?P [0..<n] = nat current # filter (\<lambda>j. nat (current + step) \<le> j \<and> ?P j) [0..<n]"
      by (rule filter_split_first) (use True less.prems assms none in \<open>auto simp: nat_less_iff\<close>)
    have later: "(\<lambda>j. nat (current + step) \<le> j \<and> ?P j) =
        (\<lambda>i. current + step \<le> int i \<and> int i < stop \<and> step dvd int i - (current + step))"
      using assms(1) less.prems by (auto simp: fun_eq_iff nat_le_iff algebra_simps dvd_diff_right_iff
        simp flip: diff_diff_eq)
    show ?thesis
    proof (cases "checked_i128 (current + step)")
      case None
      then have "int n \<le> current + step"
        using assms less.prems True by (auto simp: checked_i128_def i128_range_def split: if_splits)
      then have "filter (\<lambda>i. current + step \<le> int i \<and> int i < stop \<and> step dvd int i - (current + step)) [0..<n] = []"
        by (auto simp: filter_empty_conv)
      with None True split later show ?thesis by (subst slice_up.simps) simp
    next
      case (Some m)
      then have m: "m = current + step" by (auto simp: checked_i128_def split: if_splits)
      have "slice_up stop step m = Some (filter (\<lambda>i. m \<le> int i \<and> int i < stop \<and> step dvd int i - m) [0..<n])"
        by (rule less.hyps) (use True assms less.prems m in auto)
      with Some True split later m show ?thesis by (subst slice_up.simps) simp
    qed
  qed
qed

lemma slice_down_filter:
  assumes "step < 0" "current < int n" "- 1 \<le> stop" "int n < 2 ^ 127"
  shows "slice_down stop step current =
    Some (filter (\<lambda>i. int i \<le> current \<and> stop < int i \<and> step dvd current - int i) (rev [0..<n]))"
  using assms(2)
proof (induction "nat (current - stop)" arbitrary: current rule: less_induct)
  case less
  show ?case
  proof (cases "stop < current")
    case False
    then show ?thesis by (subst slice_down.simps) (auto simp: filter_empty_conv)
  next
    case True
    let ?P = "\<lambda>i. int i \<le> current \<and> stop < int i \<and> step dvd current - int i"
    have none: "\<not> ?P j" if "int j < current" "current + step < int j" for j
    proof
      assume "?P j"
      then have "- step dvd current - int j" by simp
      moreover have "0 < current - int j" "current - int j < - step" using that by auto
      ultimately show False using assms(1) by (smt (verit) zdvd_not_zless)
    qed
    have split: "filter ?P (rev [0..<n]) = nat current # filter (\<lambda>j. int j \<le> current + step \<and> ?P j) (rev [0..<n])"
      by (rule filter_split_last) (use True less.prems assms none in \<open>auto simp: nat_less_iff\<close>)
    have dvd: "step dvd current - int j \<longleftrightarrow> step dvd current + step - int j" for j
      by (metis add.commute add_diff_eq dvd_add_triv_left_iff)
    have later: "(\<lambda>j. int j \<le> current + step \<and> ?P j) =
        (\<lambda>i. int i \<le> current + step \<and> stop < int i \<and> step dvd current + step - int i)"
      using assms(1) dvd by (auto simp: fun_eq_iff)
    show ?thesis
    proof (cases "checked_i128 (current + step)")
      case None
      then have "current + step < 0"
        using assms less.prems True by (auto simp: checked_i128_def i128_range_def split: if_splits)
      then have "filter (\<lambda>i. int i \<le> current + step \<and> stop < int i \<and> step dvd current + step - int i) (rev [0..<n]) = []"
        by (auto simp: filter_empty_conv)
      with None True split later show ?thesis by (subst slice_down.simps) simp
    next
      case (Some m)
      then have m: "m = current + step" by (auto simp: checked_i128_def split: if_splits)
      have "slice_down stop step m = Some (filter (\<lambda>i. int i \<le> m \<and> stop < int i \<and> step dvd m - int i) (rev [0..<n]))"
        by (rule less.hyps) (use True assms less.prems m in auto)
      with Some True split later m show ?thesis by (subst slice_down.simps) simp
    qed
  qed
qed

text \<open>Saturating a bound or a step selects the same elements.\<close>

lemma normalize_up:
  assumes "int n < 2 ^ 126"
  shows "slice_normalize (int n) 0 (int n) (saturate_i128 a) = max 0 (min (int n) (from_end (int n) a))"
  using assms by (auto simp: slice_normalize_def clamp_def saturate_i128_def from_end_def I128_MIN_def I128_MAX_def)

lemma normalize_down:
  assumes "int n < 2 ^ 126"
  shows "slice_normalize (int n) (- 1) (int n - 1) (saturate_i128 a) =
    max (- 1) (min (int n - 1) (from_end (int n) a))"
  using assms by (auto simp: slice_normalize_def clamp_def saturate_i128_def from_end_def I128_MIN_def I128_MAX_def)

lemma saturated_dvd:
  assumes "\<bar>d\<bar> < 2 ^ 126" shows "saturate_i128 s dvd d \<longleftrightarrow> s dvd (d :: int)"
proof (cases "saturate_i128 s = s")
  case False
  then have "2 ^ 126 < \<bar>s\<bar>" "2 ^ 126 < \<bar>saturate_i128 s\<bar>"
    by (auto simp: saturate_i128_def I128_MIN_def I128_MAX_def max_def min_def split: if_splits)
  then have "\<not> s dvd d" "\<not> saturate_i128 s dvd d" if "d \<noteq> 0"
    using assms that dvd_imp_le_int [of d s] dvd_imp_le_int [of d "saturate_i128 s"] by auto
  then show ?thesis by (cases "d = 0") auto
qed simp

lemma saturate_sign: "0 < saturate_i128 s \<longleftrightarrow> 0 < s" "saturate_i128 s < 0 \<longleftrightarrow> s < 0" "saturate_i128 s = 0 \<longleftrightarrow> s = 0"
  by (auto simp: saturate_i128_def I128_MIN_def I128_MAX_def)

lemma slice_indices_sliced:
  assumes "step \<noteq> 0" "int n < 2 ^ 126"
  shows "slice_indices n (map_option saturate_i128 start) (map_option saturate_i128 stop) (saturate_i128 step) =
    Some (sliced n start stop step)"
proof (cases "0 < step")
  case True
  let ?lo = "case start of None \<Rightarrow> 0 | Some a \<Rightarrow> max 0 (min (int n) (from_end (int n) a))"
  let ?hi = "case stop of None \<Rightarrow> int n | Some b \<Rightarrow> max 0 (min (int n) (from_end (int n) b))"
  have "slice_indices n (map_option saturate_i128 start) (map_option saturate_i128 stop) (saturate_i128 step) =
      slice_up ?hi (saturate_i128 step) ?lo"
    using assms True by (auto simp: slice_indices_def Let_def normalize_up saturate_sign split: option.splits)
  also have "\<dots> = Some (filter (\<lambda>i. ?lo \<le> int i \<and> int i < ?hi \<and> saturate_i128 step dvd int i - ?lo) [0..<n])"
    by (rule slice_up_filter) (use assms True in \<open>auto simp: saturate_sign split: option.splits\<close>)
  also have "\<dots> = Some (sliced n start stop step)"
    using True assms
    by (auto simp: sliced_def Let_def saturated_dvd intro!: filter_cong split: option.splits)
  finally show ?thesis .
next
  case False
  let ?hi = "case start of None \<Rightarrow> int n - 1 | Some a \<Rightarrow> max (- 1) (min (int n - 1) (from_end (int n) a))"
  let ?lo = "case stop of None \<Rightarrow> - 1 | Some b \<Rightarrow> max (- 1) (min (int n - 1) (from_end (int n) b))"
  have "slice_indices n (map_option saturate_i128 start) (map_option saturate_i128 stop) (saturate_i128 step) =
      slice_down ?lo (saturate_i128 step) ?hi"
    using assms False by (auto simp: slice_indices_def Let_def normalize_down saturate_sign split: option.splits)
  also have "\<dots> = Some (filter (\<lambda>i. int i \<le> ?hi \<and> ?lo < int i \<and> saturate_i128 step dvd ?hi - int i) (rev [0..<n]))"
    by (rule slice_down_filter) (use assms False in \<open>auto simp: saturate_sign split: option.splits\<close>)
  also have "\<dots> = Some (sliced n start stop step)"
    using False assms
    by (auto simp: sliced_def Let_def saturated_dvd intro!: filter_cong split: option.splits)
  finally show ?thesis .
qed

end
