(* ===== verification/Quickening.thy ===== *)
theory Quickening
  imports Sequences
begin

text \<open>
  The specialisation of arithmetic instructions (crates/tonic-runtime/src/vm.rs): a site that has seen
  eight results in the range of immediate integers is quickened and then skips the operators of the
  heap as long as the operands stay immediate (\<open>adaptive_binary\<close>). The augmented addition the sites
  also run, \<open>inplace_add\<close> of ops.rs, extends a list by an iterable; its loop has fuel, since an iterator
  over the list itself never ends. The counters of the statistics have no upper bound.
\<close>

section \<open>Augmented addition\<close>

fun append_each :: "heap \<Rightarrow> tvalue \<Rightarrow> tvalue list \<Rightarrow> (unit, heap) run" where
  "append_each h a [] = (Ok (), h)"
| "append_each h a (v # vs) = run_then (append_list h a v) (\<lambda>_ h1. append_each h1 a vs)"

fun extend_from :: "nat \<Rightarrow> heap \<Rightarrow> tvalue \<Rightarrow> tvalue \<Rightarrow> (unit, heap) run" where
  "extend_from 0 h a it = (Diverge, h)"
| "extend_from (Suc fuel) h a it = run_then (heap_next h it) (\<lambda>found h1. case found of
      None \<Rightarrow> (Ok (), h1)
    | Some v \<Rightarrow> run_then (append_list h1 a v) (\<lambda>_ h2. extend_from fuel h2 a it))"

definition inplace_add :: "numeric_library \<Rightarrow> nat \<Rightarrow> heap \<Rightarrow> tvalue \<Rightarrow> tvalue \<Rightarrow> (tvalue, heap) run" where
  "inplace_add lib fuel h a b = (case try_get h (native_value h a) of
      Some (ObjList vs) \<Rightarrow>
        run_then (if a = b then append_each h a vs
          else run_then (heap_iterator h b) (\<lambda>it h1. extend_from fuel h1 a it)) (\<lambda>_ h1. (Ok a, h1))
    | _ \<Rightarrow> binary lib h OpAdd a b)"

section \<open>Adaptive sites\<close>

datatype adaptive_state =
    Generic
  | ObservedInt nat
  | IntBinary
  | ObservedCall tvalue nat nat
  | TonicCall tvalue nat
  | TonicCallPic nat
  | ObservedAttr tvalue nat nat nat nat
  | AttrSlot tvalue nat nat nat
  | AttrSlotPic nat

definition QUICKEN_THRESHOLD :: nat where "QUICKEN_THRESHOLD = 8"

record adaptive_vm =
  av_heap :: heap
  av_sites :: "adaptive_state list list"
  av_quickened :: nat
  av_quickened_misses :: nat

definition immediate_binary :: "op \<Rightarrow> tvalue \<Rightarrow> tvalue \<Rightarrow> tvalue option" where
  "immediate_binary opr left right =
     Option.bind (integer left) (\<lambda>x. Option.bind (integer right) (\<lambda>y.
     Option.bind (if opr = OpAdd \<or> opr = OpInplaceAdd then to_i64 (x + y)
       else if opr = OpSub then to_i64 (x - y)
       else if opr = OpMul then to_i64 (x * y)
       else None) value_int))"

definition adaptive_site :: "adaptive_vm \<Rightarrow> nat \<Rightarrow> nat \<Rightarrow> adaptive_state res" where
  "adaptive_site m c pc = and_then (index_at (av_sites m) c) (\<lambda>sites. index_at sites pc)"

definition set_site :: "nat \<Rightarrow> nat \<Rightarrow> adaptive_state \<Rightarrow> adaptive_vm \<Rightarrow> adaptive_vm" where
  "set_site c pc s m = m\<lparr>av_sites := (av_sites m)[c := (av_sites m ! c)[pc := s]]\<rparr>"

text \<open>The operator without specialisation.\<close>

definition generic_binary :: "numeric_library \<Rightarrow> nat \<Rightarrow> heap \<Rightarrow> op \<Rightarrow> tvalue \<Rightarrow> tvalue \<Rightarrow> (tvalue, heap) run" where
  "generic_binary lib fuel h opr left right =
     (if opr = OpInplaceAdd then inplace_add lib fuel h left right else binary lib h opr left right)"

fun observations :: "adaptive_state \<Rightarrow> nat res" where
  "observations Generic = Ok 1"
| "observations (ObservedInt n) = Ok (min 255 (n + 1))"
| "observations _ = Panic"

definition observe_int :: "nat \<Rightarrow> nat \<Rightarrow> adaptive_vm \<Rightarrow> (unit, adaptive_vm) run" where
  "observe_int c pc m = run_then (and_then (adaptive_site m c pc) observations, m) (\<lambda>n m1. (Ok (),
     if QUICKEN_THRESHOLD \<le> n then (set_site c pc IntBinary m1)\<lparr>av_quickened := av_quickened m1 + 1\<rparr>
     else set_site c pc (ObservedInt n) m1))"

definition adaptive_binary :: "numeric_library \<Rightarrow> nat \<Rightarrow> nat \<Rightarrow> nat \<Rightarrow> op \<Rightarrow> tvalue \<Rightarrow> tvalue \<Rightarrow> adaptive_vm \<Rightarrow>
    (tvalue, adaptive_vm) run" where
  "adaptive_binary lib fuel c pc opr left right m = (let fast = immediate_binary opr left right in
     run_then (adaptive_site m c pc, m) (\<lambda>site m0.
     if site = IntBinary \<and> fast \<noteq> None then (Ok (the fast), m0)
     else let m1 = (if site = IntBinary
         then set_site c pc Generic (m0\<lparr>av_quickened_misses := av_quickened_misses m0 + 1\<rparr>) else m0) in
       case generic_binary lib fuel (av_heap m1) opr left right of (r, h) \<Rightarrow>
       run_then (r, m1\<lparr>av_heap := h\<rparr>) (\<lambda>result m2.
       run_then (if fast = Some result then observe_int c pc m2 else (Ok (), set_site c pc Generic m2)) (\<lambda>_ m3.
       (Ok result, m3)))))"

end
