(* ===== verification/Heap_Reads.thy ===== *)
theory Heap_Reads
  imports Dictionaries Class_Machine
begin

text \<open>What a read returns after an allocation, a write and a store into a dictionary, on any heap with
  consistent slots.\<close>

section \<open>Reads after an allocation and after a write\<close>

lemma alloc_reads:
  assumes "slots_wf h" "alloc h ob = (Ok v, h')"
  shows "slots_wf h'" "try_get h' = (try_get h)(v \<mapsto> ob)" "try_get h v = None"
proof -
  from assms(1) have "allocated h ob v h'"
    by (cases rule: alloc_cases [where ob = ob]) (use assms(2) in auto)
  then show "slots_wf h'" "try_get h' = (try_get h)(v \<mapsto> ob)" "try_get h v = None"
    using allocated_slots_wf [OF assms(1)] allocated_try_get(1,2) [OF assms(1)] by blast+
qed

lemma with_object_reads:
  assumes wf: "slots_wf h" and "try_get h v = Some ob" "f ob = Ok (x, ob')"
  obtains h' where "with_object h v f = (Ok x, h')" "slots_wf h'" "try_get h' = (try_get h)(v \<mapsto> ob')"
proof -
  obtain l where l: "location h v = Some l" "l < length (objects h)" "ho_object (objects h ! l) = ob"
    using assms(2) by (auto simp: try_get_def split: option.splits if_splits)
  define h' where "h' = h\<lparr>objects := (objects h)[l := (objects h ! l)\<lparr>ho_object := ob'\<rparr>]\<rparr>"
  have run: "with_object h v f = (Ok x, h')" using l assms(3) by (simp add: with_object_def h'_def)
  have loc: "location h' = location h" by (simp add: fun_eq_iff location_def h'_def cong: option.case_cong if_cong)
  have slot: "ho_slot (objects h' ! j) = ho_slot (objects h ! j)" if "j < length (objects h)" for j
    using that by (cases "j = l") (simp_all add: h'_def)
  have wf': "slots_wf h'"
  proof -
    have "slots h' = slots h" "free_slots h' = free_slots h" "length (objects h') = length (objects h)"
      by (simp_all add: h'_def)
    then show ?thesis using wf slot unfolding slots_wf_def by (simp cong: conj_cong)
  qed
  have "try_get h' w = ((try_get h)(v \<mapsto> ob')) w" for w
  proof (cases "w = v")
    case True
    then show ?thesis using l loc by (simp add: try_get_def h'_def)
  next
    case False
    then have "location h w \<noteq> Some l" using l(1) location_iff [OF wf] by metis
    then show ?thesis using False loc
      by (auto simp: try_get_def h'_def nth_list_update split: option.splits)
  qed
  then show thesis using that run wf' by blast
qed

section \<open>Growth\<close>

text \<open>\<open>grown x h h'\<close>: every object other than that of \<open>x\<close> is as it was.\<close>

definition grown :: "tvalue option \<Rightarrow> heap \<Rightarrow> heap \<Rightarrow> bool" where
  "grown x h h' \<longleftrightarrow> slots_wf h' \<and>
     (\<forall>w ob. Some w \<noteq> x \<longrightarrow> try_get h w = Some ob \<longrightarrow> try_get h' w = Some ob)"

lemma grown_refl [simp]: "grown x h h \<longleftrightarrow> slots_wf h"
  by (simp add: grown_def)

lemma grown_wf: "grown x h h' \<Longrightarrow> slots_wf h'"
  by (simp add: grown_def)

lemma grown_get: "grown x h h' \<Longrightarrow> Some w \<noteq> x \<Longrightarrow> try_get h w = Some ob \<Longrightarrow> try_get h' w = Some ob"
  by (simp add: grown_def)

lemma grown_trans: "grown x h h1 \<Longrightarrow> grown x h1 h2 \<Longrightarrow> grown x h h2"
  by (auto simp: grown_def)

lemma grown_weaken: "grown None h h' \<Longrightarrow> grown x h h'"
  by (simp add: grown_def)

text \<open>Changes of an object that did not exist in the beginning do not count.\<close>

lemma grown_fresh: "grown x h h' \<Longrightarrow> (\<And>w. x = Some w \<Longrightarrow> try_get h w = None) \<Longrightarrow> grown None h h'"
  by (cases x) (force simp: grown_def)+

lemma alloc_outcome:
  assumes "slots_wf h"
  obtains d where "alloc h ob = (Err d, h)" "diag_kind d = ''MemoryError''"
  | v h' where "alloc h ob = (Ok v, h')" "grown None h h'" "try_get h' v = Some ob" "try_get h v = None"
proof (cases rule: alloc_cases [OF assms, where ob = ob])
  case 1
  then show thesis using that(1) by (simp add: diag_new_def)
next
  case (2 v h')
  have "grown None h h'" using alloc_reads [OF assms 2(1)] by (auto simp: grown_def)
  then show thesis using that(2) [OF 2(1)] alloc_reads(2,3) [OF assms 2(1)] by simp
qed

lemma native_value_plain:
  "try_get h v = Some ob \<Longrightarrow> \<forall>c a n. ob \<noteq> ObjInstance c a n \<Longrightarrow> native_value h v = v"
  by (cases ob) (auto simp: native_value_def)

lemma dict_key_string:
  assumes "try_get h v = Some (ObjStr name)" shows "dict_key lib h v 0 = Ok (KStr name)"
proof -
  have "heap_index v \<noteq> None" using assms by (auto simp: try_get_def location_def split: option.splits)
  then have "v \<noteq> NONE \<and> v \<noteq> NOT_IMPLEMENTED \<and> v \<noteq> ELLIPSIS \<and> integer v = None"
    using integer_not_heap by (cases "integer v") auto
  moreover have "native_value h v = v" by (rule native_value_plain [OF assms]) simp
  ultimately show ?thesis using assms by (subst dict_key.simps) (simp add: heap_get_def ok_or_def)
qed

text \<open>\<open>dict_set\<close> on a dictionary of its own handle, with a string key: the entry is stored, the
  versions advance by at most one, and no other object changes.\<close>

lemma dict_store_versions:
  "dict_store hl k d m v = Ok d' \<Longrightarrow>
     dict_version d' \<le> dict_version d + 1 \<and> dict_mutation_version d' = dict_mutation_version d + 1"
  by (auto simp: dict_store_def Let_def res_simps split: if_splits option.splits)

lemma dict_set_string:
  assumes wf: "slots_wf h" and key: "try_get h k = Some (ObjStr name)"
    and d: "try_get h owner = Some (ObjDict d)" "dict_ok hl d" "dict_room d"
  obtains h' d' where "dict_set lib hl h owner k v = (Ok (), h')" "grown (Some owner) h h'"
    "try_get h' owner = Some (ObjDict d')" "dict_ok hl d'" "dict_alist d' = AList.update (KStr name) v (dict_alist d)"
    "dict_version d' \<le> dict_version d + 1" "dict_mutation_version d' = dict_mutation_version d + 1"
proof -
  have native: "native_value h owner = owner" by (rule native_value_plain [OF d(1)]) simp
  let ?f = "\<lambda>ob. case ob of ObjDict d \<Rightarrow> and_then (dict_store hl k d (KStr name) v) (\<lambda>d'. Ok ((), ObjDict d'))
    | _ \<Rightarrow> fail ''TypeError'' ''expected dict''"
  obtain d' where d': "dict_store hl k d (KStr name) v = Ok d'" "dict_ok hl d'"
    "dict_alist d' = AList.update (KStr name) v (dict_alist d)"
    using dict_store_alist [OF d(2,3)] by metis
  obtain r h' where run: "run_then (write_barrier_pair h owner k v) (\<lambda>_ h1. with_object h1 owner ?f) = (r, h')" by force
  have w: "r = Ok ()" "written h owner [k, v] (ObjDict d') h'"
    using barrier_with_object [OF wf d(1) run] d'(1) by auto
  have "dict_set lib hl h owner k v = (Ok (), h')"
    using run w(1) dict_key_string [OF key] by (simp add: dict_set_def Let_def native)
  then show thesis
    using that d'(2,3) dict_store_versions [OF d'(1)] written_try_get [OF wf w(2)] by (auto simp: grown_def)
qed

end
