(* ===== verification/Sequence_Properties.thy ===== *)
theory Sequence_Properties
  imports Sequences Heap_Reads
begin

text \<open>
  What holds of slices and of iteration: a slice allocates the elements Python selects, and walking
  an iterable yields its items in order and ends. An item is a value that is stored, a character or
  a number that the iterator makes an object for. An iterator that has ended yields again when its
  list grows (\<open>exhausted_iterator_revives\<close>).
\<close>

section \<open>Slices\<close>

definition slice_value :: "heap \<Rightarrow> tvalue \<Rightarrow> int option res" where
  "slice_value h v = (if v = NONE then Ok None else and_then (heap_integer h v) (\<lambda>n. Ok (Some n)))"

definition selected :: "'a list \<Rightarrow> int option \<Rightarrow> int option \<Rightarrow> int \<Rightarrow> 'a list" where
  "selected xs start stop step = map ((!) xs) (sliced (length xs) start stop step)"

definition slice_object :: "object \<Rightarrow> int option \<Rightarrow> int option \<Rightarrow> int \<Rightarrow> object option" where
  "slice_object ob start stop step = (case ob of
      ObjList vs \<Rightarrow> Some (ObjList (selected vs start stop step))
    | ObjTuple vs \<Rightarrow> Some (ObjTuple (selected vs start stop step))
    | ObjStr s \<Rightarrow> Some (ObjStr (concat (selected (characters s) start stop step)))
    | ObjBytes bs \<Rightarrow> Some (ObjBytes (selected bs start stop step))
    | _ \<Rightarrow> None)"

definition sequence_length :: "object \<Rightarrow> nat" where
  "sequence_length ob = (case ob of ObjList vs \<Rightarrow> length vs | ObjTuple vs \<Rightarrow> length vs
     | ObjStr s \<Rightarrow> length s | ObjBytes bs \<Rightarrow> length bs | _ \<Rightarrow> 0)"

lemma saturated_component:
  "(case to_i128 n of Some m \<Rightarrow> m | None \<Rightarrow> if n < 0 then I128_MIN else I128_MAX) = saturate_i128 n"
  by (simp add: to_i128_def i128_range_def saturate_i128_def I128_MIN_def I128_MAX_def)

lemma slice_component_value:
  assumes "slice_value h v = Ok n" shows "slice_component h v = Ok (map_option saturate_i128 n)"
proof (cases "v = NONE")
  case True
  then show ?thesis using assms by (simp add: slice_value_def slice_component_def)
next
  case False
  then obtain m where "heap_integer h v = Ok m" "n = Some m"
    using assms by (cases "heap_integer h v") (simp_all add: slice_value_def)
  then show ?thesis using False by (simp add: slice_component_def saturated_component)
qed

lemma length_characters: "length (characters s) \<le> length s"
  by (induction s rule: characters.induct) (auto intro: order_trans [OF _ length_dropWhile_le])

lemma sliced_in_range: "i \<in> set (sliced n start stop step) \<Longrightarrow> i < n"
  by (auto simp: sliced_def Let_def split: if_splits)

lemma try_map_index_at: "\<forall>i\<in>set is. i < length xs \<Longrightarrow> try_map (index_at xs) is = Ok (map ((!) xs) is)"
  by (induction "is") (auto simp: index_at_def)

lemma picked_selected:
  assumes "step \<noteq> 0" "length xs < 2 ^ 63"
  shows "picked xs (map_option saturate_i128 start) (map_option saturate_i128 stop) (saturate_i128 step) =
    Ok (selected xs start stop step)"
proof -
  have "int (length xs) < 2 ^ 126" using assms(2) by simp
  then show ?thesis
    using slice_indices_sliced [OF assms(1)] sliced_in_range
    by (auto simp: picked_def looped_def selected_def intro!: try_map_index_at)
qed

text \<open>C16: Slicing a list, tuple, string or byte string allocates a new object of the same kind with
  exactly the elements Python selects, in order, for bounds and steps of any size: the saturated
  128-bit loop agrees with the unbounded definition and always ends. A zero step is a \<open>ValueError\<close>,
  any other object a \<open>TypeError\<close>, and then the heap stays as it was.\<close>

theorem slice_selects:
  assumes "try_get h (native_value h source) = Some ob" "sequence_length ob < 2 ^ 63"
    and "slice_value h a = Ok start" "slice_value h b = Ok stop" "slice_value h c = Ok step"
  shows "heap_slice h source (a, b, c) =
    (if step = Some 0 then (fail ''ValueError'' ''slice step cannot be zero'', h)
     else case slice_object ob start stop (case step of None \<Rightarrow> 1 | Some s \<Rightarrow> s) of
        None \<Rightarrow> (fail ''TypeError'' ''object is not subscriptable'', h)
      | Some r \<Rightarrow> alloc h r)"
proof -
  define s where "s = (case step of None \<Rightarrow> 1 | Some s \<Rightarrow> s)"
  have step: "(case map_option saturate_i128 step of None \<Rightarrow> 1 | Some s \<Rightarrow> s) = saturate_i128 s"
    by (cases step) (simp_all add: s_def saturate_i128_def I128_MIN_def I128_MAX_def)
  have zero: "step = Some 0 \<longleftrightarrow> s = 0" by (cases step) (simp_all add: s_def)
  have get: "heap_get h (native_value h source) = Ok ob" using assms(1) by (simp add: heap_get_def ok_or_def)
  have chars: "sequence_length ob = length t \<Longrightarrow> length (characters t) < 2 ^ 63" for t
    using assms(2) length_characters [of t] by linarith
  show ?thesis
  proof (cases "s = 0")
    case True
    then show ?thesis
      by (simp add: heap_slice_def slice_component_value assms Let_def step zero saturate_sign del: case_map_option)
  next
    case False
    note picked = picked_selected [OF False]
    show ?thesis
      unfolding heap_slice_def
      using assms(2) chars
      by (cases ob) (simp_all add: slice_component_value assms(3-5) Let_def step zero False saturate_sign get
        picked slice_object_def sequence_length_def s_def [symmetric] del: case_map_option)
  qed
qed

section \<open>Iteration\<close>


definition immediate :: "int \<Rightarrow> tvalue" where
  "immediate n = the (value_int n)"

text \<open>What an item of an iteration is: a value the source holds, or the character of a string and the
  number of a range or byte string, which are made for it. A number that is no immediate and a
  character need a new object.\<close>

datatype item = ItemStored tvalue | ItemText string | ItemNumber int

definition item_is :: "heap \<Rightarrow> item \<Rightarrow> tvalue \<Rightarrow> bool" where
  "item_is h x w = (case x of
      ItemStored v \<Rightarrow> w = v
    | ItemText c \<Rightarrow> try_get h w = Some (ObjStr c)
    | ItemNumber n \<Rightarrow> (case value_int n of Some v \<Rightarrow> w = v | None \<Rightarrow> try_get h w = Some (ObjInt n)))"

definition allocates :: "item \<Rightarrow> bool" where
  "allocates x = (case x of ItemStored _ \<Rightarrow> False | ItemText _ \<Rightarrow> True | ItemNumber n \<Rightarrow> value_int n = None)"

text \<open>The items of the builtin iterables. The bounds of a range are \<open>i64\<close> in the source, those of a range
  iterator that has passed its end may be beyond.\<close>

definition sequence_items :: "object \<Rightarrow> item list option" where
  "sequence_items ob = (case ob of
      ObjTuple vs \<Rightarrow> Some (map ItemStored vs)
    | ObjList vs \<Rightarrow> Some (map ItemStored vs)
    | ObjStr t \<Rightarrow> Some (map ItemText (characters t))
    | ObjBytes bs \<Rightarrow> Some (map (\<lambda>b. ItemNumber (uint b)) bs)
    | _ \<Rightarrow> None)"

definition range_items :: "int \<Rightarrow> int \<Rightarrow> int \<Rightarrow> item list option" where
  "range_items n stop step =
     (if step \<noteq> 0 \<and> (range_len n stop step \<le> 0 \<or> i64_range n \<and> i64_range stop)
      then Some (map (\<lambda>i. ItemNumber (n + int i * step)) [0..<nat (range_len n stop step)]) else None)"

definition dict_items :: "dict \<Rightarrow> item list" where
  "dict_items d = map (\<lambda>e. ItemStored (fst e)) (dict_entries d)"

text \<open>What an iterator has still to yield, and what a value yields from the start.\<close>

definition remaining :: "heap \<Rightarrow> tvalue \<Rightarrow> item list option" where
  "remaining h it = (case try_get h it of
      Some (ObjRangeIterator n stop step) \<Rightarrow> range_items n stop step
    | Some (ObjIterator source i) \<Rightarrow>
        map_option (drop i) (Option.bind (try_get h source) sequence_items)
    | Some (ObjDictIterator source i ver) \<Rightarrow> (case try_get h source of
          Some (ObjDict d) \<Rightarrow> if dict_version d = ver then Some (drop i (dict_items d)) else None
        | Some (ObjSet d) \<Rightarrow> if dict_version d = ver then Some (drop i (dict_items d)) else None
        | _ \<Rightarrow> None)
    | _ \<Rightarrow> None)"

definition iterated :: "heap \<Rightarrow> tvalue \<Rightarrow> tvalue option" where
  "iterated h it = (case try_get h it of
      Some (ObjIterator source _) \<Rightarrow> Some source
    | Some (ObjDictIterator source _ _) \<Rightarrow> Some source
    | _ \<Rightarrow> None)"


lemma int_div_less_iff:
  assumes "0 < (s :: int)" shows "x div s < n \<longleftrightarrow> x < n * s"
proof
  assume "x div s < n"
  then have "(x div s + 1) * s \<le> n * s" using assms by (intro mult_right_mono) auto
  moreover have "x < (x div s + 1) * s"
    using pos_mod_bound [OF assms, of x] div_mult_mod_eq [of x s] by (simp only: distrib_right)
  ultimately show "x < n * s" by linarith
next
  assume "x < n * s"
  show "x div s < n"
  proof (rule ccontr)
    assume "\<not> x div s < n"
    then have "n * s \<le> x div s * s" using assms by (intro mult_right_mono) auto
    then show False
      using \<open>x < n * s\<close> pos_mod_sign [OF assms, of x] div_mult_mod_eq [of x s] by linarith
  qed
qed

lemma sdiv_nonneg: "0 \<le> (k :: int) \<Longrightarrow> 0 < l \<Longrightarrow> k sdiv l = k div l"
  by (cases "k = 0") (simp_all add: signed_divide_int_def)

lemma nat_succ_le: "nat (q + 1) \<le> i \<longleftrightarrow> q < int i"
  by linarith

lemma range_position:
  assumes "step \<noteq> 0"
  shows "(0 < step \<and> stop \<le> start + int i * step) \<or> (step < 0 \<and> start + int i * step \<le> stop) \<longleftrightarrow>
    nat (range_len start stop step) \<le> i"
proof (cases "0 < step")
  case True
  have "stop \<le> start + int i * step \<longleftrightarrow> (stop - start - 1) div step < int i"
    by (simp add: int_div_less_iff [OF True]) linarith
  moreover have "stop \<le> start + int i * step" if "stop \<le> start"
  proof -
    have "0 \<le> int i * step" using True by simp
    then show ?thesis using that by linarith
  qed
  ultimately show ?thesis using True
    by (auto simp: range_len_def sdiv_nonneg nat_succ_le)
next
  case False
  then have neg: "0 < - step" using assms by simp
  have "start + int i * step \<le> stop \<longleftrightarrow> (start - stop - 1) div (- step) < int i"
    by (simp only: int_div_less_iff [OF neg]) linarith
  moreover have "start + int i * step \<le> stop" if "start \<le> stop"
    using mult_nonneg_nonpos [of "int i" step] False that by linarith
  moreover have "range_len start stop step = (if start \<le> stop then 0 else (start - stop - 1) div (- step) + 1)"
    using False sdiv_nonneg [OF _ neg, of "start - stop - 1"] by (simp only: range_len_def) simp
  ultimately show ?thesis using False assms by (simp add: nat_succ_le)
qed

text \<open>One step of an iterator whose items lie in a container.\<close>

lemma advance_reads:
  assumes "slots_wf h" "try_get h it = Some (ObjIterator s i) \<and> x = ObjIterator s (i + 1) \<or>
    try_get h it = Some (ObjDictIterator s i n) \<and> x = ObjDictIterator s (i + 1) n"
  obtains h' where "yield_item h it (Some w) = (Ok (Some w), h')" "slots_wf h'" "try_get h' = (try_get h)(it \<mapsto> x)"
proof -
  let ?f = "\<lambda>ob. Ok ((), case ob of
      ObjIterator s i \<Rightarrow> ObjIterator s (i + 1)
    | ObjDictIterator s i n \<Rightarrow> ObjDictIterator s (i + 1) n
    | ObjMappingProxyIterator c i n \<Rightarrow> ObjMappingProxyIterator c (i + 1) n
    | _ \<Rightarrow> ob)"
  obtain ob where ob: "try_get h it = Some ob" "?f ob = Ok ((), x)" using assms(2) by auto
  obtain h' where "with_object h it ?f = (Ok (), h')" "slots_wf h'" "try_get h' = (try_get h)(it \<mapsto> x)"
    using with_object_reads [where f = ?f and x = "()" and ob' = x, OF assms(1) ob] by blast
  then show thesis using that by (simp add: yield_item_def advance_iterator_def)
qed

lemma value_int_immediate: "\<bar>n\<bar> < 2 ^ 60 \<Longrightarrow> value_int n = Some (immediate n)"
  by (auto simp: immediate_def value_int_def MIN_INT_def MAX_INT_def)

lemma value_int_byte: "value_int (uint (b :: 8 word)) = Some (immediate (uint b))"
proof (rule value_int_immediate)
  show "\<bar>uint b\<bar> < 2 ^ 60" using uint_bounded [of b] by simp
qed

lemma range_len_next:
  assumes "step \<noteq> 0" "\<not> ((0 < step \<and> stop \<le> n) \<or> (step < 0 \<and> n \<le> stop))"
  shows "nat (range_len n stop step) = Suc (nat (range_len (n + step) stop step))"
proof -
  have "nat (range_len (n + step) stop step) \<le> i \<longleftrightarrow> nat (range_len n stop step) \<le> Suc i" for i
    using range_position [OF assms(1), of stop "n + step" i] range_position [OF assms(1), of stop n "Suc i"]
    by (simp add: algebra_simps)
  moreover have "\<not> nat (range_len n stop step) \<le> 0"
    using range_position [OF assms(1), of stop n 0] assms(2) by simp
  ultimately show ?thesis by (metis Suc_le_mono le_antisym le_refl not0_implies_Suc not_less_eq_eq zero_le)
qed

lemma range_items_done:
  "range_items n stop step = Some xs \<Longrightarrow> (0 < step \<and> stop \<le> n) \<or> (step < 0 \<and> n \<le> stop) \<longleftrightarrow> xs = []"
  using range_position [of step stop n 0] by (auto simp: range_items_def split: if_splits)

lemma range_items_next:
  assumes "range_items n stop step = Some xs" "\<not> ((0 < step \<and> stop \<le> n) \<or> (step < 0 \<and> n \<le> stop))"
  shows "i64_range n" "\<exists>rest. xs = ItemNumber n # rest \<and> range_items (n + step) stop step = Some rest"
proof -
  have step: "step \<noteq> 0" using assms(1) by (auto simp: range_items_def split: if_splits)
  note len = range_len_next [OF step assms(2)]
  then have "\<not> range_len n stop step \<le> 0" by auto
  then have i64: "i64_range n" "i64_range stop" using assms(1) by (auto simp: range_items_def split: if_splits)
  then show "i64_range n" by blast
  have "range_len (n + step) stop step \<le> 0 \<or> i64_range (n + step)"
  proof (cases "(0 < step \<and> stop \<le> n + step) \<or> (step < 0 \<and> n + step \<le> stop)")
    case True
    then have "nat (range_len (n + step) stop step) = 0"
      using range_position [OF step, of stop "n + step" 0] by simp
    then show ?thesis by simp
  next
    case False
    then show ?thesis using i64 assms(2) step by (auto simp: i64_range_def)
  qed
  moreover have "[0..<nat (range_len n stop step)] = 0 # map Suc [0..<nat (range_len (n + step) stop step)]"
    unfolding len map_Suc_upt by (subst upt_conv_Cons) simp_all
  moreover have "xs = map (\<lambda>i. ItemNumber (n + int i * step)) [0..<nat (range_len n stop step)]"
    using assms(1) by (auto simp: range_items_def split: if_splits)
  moreover have "n + int (Suc i) * step = n + step + int i * step" for i by (simp add: distrib_right)
  ultimately have "xs = ItemNumber n # map (\<lambda>i. ItemNumber (n + step + int i * step)) [0..<nat (range_len (n + step) stop step)]"
    "range_items (n + step) stop step =
       Some (map (\<lambda>i. ItemNumber (n + step + int i * step)) [0..<nat (range_len (n + step) stop step)])"
    using step i64(2) by (simp_all only: range_items_def list.map map_map comp_def) simp_all
  then show "\<exists>rest. xs = ItemNumber n # rest \<and> range_items (n + step) stop step = Some rest" by blast
qed

lemma drop_step: "drop i xs = (if i < length xs then xs ! i # drop (Suc i) xs else [])"
  by (simp add: Cons_nth_drop_Suc)

text \<open>Items and iterators in a heap where nothing they depend on has changed.\<close>

lemma item_is_kept:
  assumes "item_is h x w"
    and "\<And>ob. try_get h w = Some ob \<Longrightarrow> (\<exists>t. ob = ObjStr t) \<or> (\<exists>n. ob = ObjInt n) \<Longrightarrow> try_get h' w = Some ob"
  shows "item_is h' x w"
  using assms by (auto simp: item_is_def split: item.splits option.splits)

lemma remaining_kept:
  assumes "try_get h' it = try_get h it" "\<And>s. iterated h it = Some s \<Longrightarrow> try_get h' s = try_get h s"
  shows "remaining h' it = remaining h it" "iterated h' it = iterated h it"
proof -
  show "iterated h' it = iterated h it" using assms(1) by (simp add: iterated_def)
  show "remaining h' it = remaining h it"
  proof (cases "try_get h it")
    case (Some ob)
    then show ?thesis using assms by (cases ob) (simp_all add: remaining_def iterated_def)
  qed (use assms(1) in \<open>simp add: remaining_def\<close>)
qed

lemma remaining_source: "remaining h it = Some xs \<Longrightarrow> iterated h it = Some s \<Longrightarrow> s \<noteq> it \<and> try_get h s \<noteq> None"
proof (cases "try_get h it")
  case (Some ob)
  moreover assume "remaining h it = Some xs" "iterated h it = Some s"
  ultimately show ?thesis
    by (cases ob) (auto simp: remaining_def iterated_def sequence_items_def bind_eq_Some_conv split: option.split_asm)
qed (simp add: remaining_def)

lemma remaining_object:
  "remaining h it = Some xs \<Longrightarrow> try_get h it = Some ob \<Longrightarrow>
     (\<exists>s i. ob = ObjIterator s i) \<or> (\<exists>s i n. ob = ObjDictIterator s i n) \<or> (\<exists>n stop step. ob = ObjRangeIterator n stop step)"
  by (cases ob) (auto simp: remaining_def)

lemma item_is_grown:
  assumes "item_is h x w" "grown (Some it) h h'" "remaining h it = Some xs"
  shows "item_is h' x w"
proof (rule item_is_kept [OF assms(1)])
  fix ob assume ob: "try_get h w = Some ob" "(\<exists>t. ob = ObjStr t) \<or> (\<exists>n. ob = ObjInt n)"
  then have "w \<noteq> it" using remaining_object [OF assms(3)] by blast
  then show "try_get h' w = Some ob" using grown_get [OF assms(2) _ ob(1)] by simp
qed

text \<open>What a call of \<open>next\<close> does: it yields the next item and leaves the others, in an iterator over the
  same source, or says that there are none and changes nothing; only the memory for a new object can
  be lacking.\<close>

definition next_served :: "heap \<Rightarrow> tvalue \<Rightarrow> item list \<Rightarrow> (tvalue option, heap) run \<Rightarrow> bool" where
  "next_served h it xs r = (case r of
      (Ok None, h') \<Rightarrow> xs = [] \<and> h' = h
    | (Ok (Some w), h') \<Rightarrow> (\<exists>x rest. xs = x # rest \<and> item_is h' x w \<and> remaining h' it = Some rest) \<and>
        iterated h' it = iterated h it \<and> grown (Some it) h h'
    | (Err d, h') \<Rightarrow> diag_kind d = ''MemoryError'' \<and> (\<exists>x\<in>set xs. allocates x) \<and> grown (Some it) h h'
    | _ \<Rightarrow> False)"

lemma next_in_range_served:
  assumes wf: "slots_wf h" and it: "try_get h it = Some (ObjRangeIterator n stop step)"
    and xs: "range_items n stop step = Some xs"
  shows "next_served h it xs (next_in_range h it n stop step)"
proof (cases "(0 < step \<and> stop \<le> n) \<or> (step < 0 \<and> n \<le> stop)")
  case True
  then show ?thesis using range_items_done [OF xs] by (simp add: next_in_range_def next_served_def)
next
  case False
  obtain rest where n: "i64_range n" "xs = ItemNumber n # rest" "range_items (n + step) stop step = Some rest"
    using range_items_next [OF xs False] by blast
  have wrap: "wrap_i64 n = n" using n(1) by (simp add: wrap_i64_def i64_range_def signed_take_bit_int_eq_self_iff)
  let ?it = "ObjRangeIterator (n + step) stop step"
  obtain h1 where h1: "with_object h it (\<lambda>_. Ok ((), ?it)) = (Ok (), h1)" "slots_wf h1" "try_get h1 = (try_get h)(it \<mapsto> ?it)"
    using with_object_reads [where f = "\<lambda>_. Ok ((), ?it)", OF wf it refl] by blast
  have g1: "grown (Some it) h h1" using h1(2,3) by (auto simp: grown_def)
  have run: "next_in_range h it n stop step = run_then (heap_i64 h1 n) (\<lambda>w h2. (Ok (Some w), h2))"
    unfolding next_in_range_def if_not_P [OF False] h1(1) wrap by simp
  show ?thesis
  proof (cases "value_int n")
    case (Some v)
    then show ?thesis
      using h1 g1 n it
      by (simp add: run heap_i64_def next_served_def item_is_def remaining_def iterated_def)
  next
    case None
    show ?thesis
    proof (rule alloc_outcome [OF h1(2), of "ObjInt n"])
      fix d assume "alloc h1 (ObjInt n) = (Err d, h1)" "diag_kind d = ''MemoryError''"
      then show ?thesis
        using None g1 n by (simp add: run heap_i64_def heap_int_def to_i64_def next_served_def allocates_def)
    next
      fix v h2 assume h2: "alloc h1 (ObjInt n) = (Ok v, h2)" "grown None h1 h2" "try_get h2 v = Some (ObjInt n)"
        "try_get h1 v = None"
      have "try_get h2 it = Some ?it" using grown_get [OF h2(2)] h1(3) by simp
      then show ?thesis
        using None n h2 it grown_trans [OF g1 grown_weaken [OF h2(2)]]
        by (simp add: run heap_i64_def heap_int_def to_i64_def next_served_def item_is_def remaining_def iterated_def)
    qed
  qed
qed

lemma yield_served:
  assumes wf: "slots_wf h" and it: "remaining h it = Some (x # rest)" and w: "item_is h x w"
    and step: "try_get h it = Some (ObjIterator s i) \<and> ob = ObjIterator s (i + 1) \<or>
      try_get h it = Some (ObjDictIterator s i n) \<and> ob = ObjDictIterator s (i + 1) n"
  shows "next_served h it (x # rest) (yield_item h it (Some w))"
proof -
  obtain h' where h': "yield_item h it (Some w) = (Ok (Some w), h')" "slots_wf h'" "try_get h' = (try_get h)(it \<mapsto> ob)"
    by (rule advance_reads [OF wf step])
  have g: "grown (Some it) h h'" using h'(2,3) by (auto simp: grown_def)
  have s: "s \<noteq> it" using remaining_source [OF it, of s] step by (auto simp: iterated_def)
  have tail: "drop (Suc i) xs = rest" if "drop i xs = x # rest" for xs :: "item list"
    using that by (metis drop_Suc list.sel(3) tl_drop)
  have "remaining h' it = Some rest"
    using step
  proof
    assume st: "try_get h it = Some (ObjIterator s i) \<and> ob = ObjIterator s (i + 1)"
    then obtain src ys where "try_get h s = Some src" "sequence_items src = Some ys" "drop i ys = x # rest"
      using it by (auto simp: remaining_def bind_eq_Some_conv)
    then show ?thesis using st s h'(3) tail by (simp add: remaining_def)
  next
    assume st: "try_get h it = Some (ObjDictIterator s i n) \<and> ob = ObjDictIterator s (i + 1) n"
    then obtain d where "try_get h s = Some (ObjDict d) \<or> try_get h s = Some (ObjSet d)" "dict_version d = n"
      "drop i (dict_items d) = x # rest"
      using it by (auto simp: remaining_def split: option.splits object.splits if_splits)
    then show ?thesis using st s h'(3) tail by (auto simp: remaining_def)
  qed
  moreover have "iterated h' it = iterated h it" using step h'(3) by (auto simp: iterated_def)
  ultimately show ?thesis using h'(1) g item_is_grown [OF w g it] by (simp add: next_served_def)
qed



lemma next_served_grown:
  assumes "next_served h1 it xs r" "grown None h h1" "remaining h it = Some xs" "xs \<noteq> []"
  shows "next_served h it xs r"
proof -
  obtain ob where ob: "try_get h it = Some ob" using assms(3) by (auto simp: remaining_def split: option.splits)
  then have "iterated h1 it = iterated h it" using grown_get [OF assms(2) _ ob] by (simp add: iterated_def)
  moreover have "grown (Some it) h h'" if "grown (Some it) h1 h'" for h'
    by (rule grown_trans [OF grown_weaken [OF assms(2)] that])
  ultimately show ?thesis
    using assms(1,4) by (auto simp: next_served_def split: prod.splits res.splits option.splits)
qed

lemma remaining_grown: "remaining h it = Some xs \<Longrightarrow> grown None h h1 \<Longrightarrow> remaining h1 it = Some xs"
proof -
  assume r: "remaining h it = Some xs" and g: "grown None h h1"
  obtain ob where ob: "try_get h it = Some ob" using r by (auto simp: remaining_def split: option.splits)
  have "remaining h1 it = remaining h it"
  proof (rule remaining_kept(1))
    show "try_get h1 it = try_get h it" using grown_get [OF g _ ob] ob by simp
    fix s assume "iterated h it = Some s"
    then show "try_get h1 s = try_get h s" using remaining_source [OF r] grown_get [OF g] by fastforce
  qed
  then show "remaining h1 it = Some xs" using r by simp
qed

lemma next_element_served:
  assumes wf: "slots_wf h" and it: "try_get h it = Some (ObjIterator s i)" and r: "remaining h it = Some xs"
  shows "next_served h it xs (next_element h it s i)"
proof -
  obtain src ys where src: "try_get h s = Some src" "sequence_items src = Some ys" "xs = drop i ys"
    using r it by (auto simp: remaining_def bind_eq_Some_conv)
  have get: "heap_get h s = Ok src" using src(1) by (simp add: heap_get_def ok_or_def)
  show ?thesis
  proof (cases "i < length ys")
    case False
    then show ?thesis
      using src by (cases src) (auto simp: next_element_def get sequence_items_def nth_opt_def yield_item_def next_served_def)
  next
    case True
    then have xs: "xs = ys ! i # drop (Suc i) ys" using src(3) by (simp add: Cons_nth_drop_Suc)
    have yield: "next_served h1 it xs (yield_item h1 it (Some w))"
      if "slots_wf h1" "grown None h h1" "item_is h1 (ys ! i) w" for h1 w
      unfolding xs
      by (rule yield_served [OF that(1) remaining_grown [OF r [unfolded xs] that(2)] that(3)])
        (use grown_get [OF that(2) _ it] in auto)
    have here: "next_served h it xs (yield_item h it (Some w))" if "item_is h (ys ! i) w" for w
      by (rule yield [OF wf _ that]) (simp add: wf)
    show ?thesis
    proof (cases src)
      case (ObjStr t)
      then have c: "nth_opt (characters t) i = Some (characters t ! i)" "ys ! i = ItemText (characters t ! i)"
        using src(2) True by (auto simp: sequence_items_def nth_opt_def)
      have run: "next_element h it s i = run_then (alloc h (ObjStr (characters t ! i))) (\<lambda>w h2. yield_item h2 it (Some w))"
        by (simp add: next_element_def get ObjStr c(1))
      show ?thesis
      proof (rule alloc_outcome [OF wf, of "ObjStr (characters t ! i)"])
        fix d assume "alloc h (ObjStr (characters t ! i)) = (Err d, h)" "diag_kind d = ''MemoryError''"
        then show ?thesis using xs c(2) wf by (simp add: run next_served_def allocates_def)
      next
        fix w h1 assume h1: "alloc h (ObjStr (characters t ! i)) = (Ok w, h1)" "grown None h h1"
          "try_get h1 w = Some (ObjStr (characters t ! i))"
        have "next_served h1 it xs (yield_item h1 it (Some w))"
          by (rule yield [OF grown_wf [OF h1(2)] h1(2)]) (simp add: c(2) item_is_def h1(3))
        from next_served_grown [OF this h1(2) r] show ?thesis using xs h1(1) by (simp add: run)
      qed
    next
      case (ObjBytes bs)
      then have "ys ! i = ItemNumber (uint (bs ! i))" "i < length bs"
        using src(2) True by (auto simp: sequence_items_def)
      then show ?thesis
        using here [of "immediate (uint (bs ! i))"] ObjBytes
        by (simp add: next_element_def get nth_opt_def value_int_byte item_is_def)
    qed (use src(2) True here in \<open>auto simp: next_element_def get sequence_items_def nth_opt_def item_is_def\<close>)
  qed
qed

lemma next_entry_served:
  assumes wf: "slots_wf h" and it: "try_get h it = Some (ObjDictIterator s i n)" and r: "remaining h it = Some xs"
  shows "next_served h it xs (next_entry h it s i n)"
proof -
  obtain d where d: "try_get h s = Some (ObjDict d) \<or> try_get h s = Some (ObjSet d)" "dict_version d = n"
    "xs = drop i (dict_items d)"
    using r it by (auto simp: remaining_def split: option.splits object.splits if_splits)
  have run: "next_entry h it s i n = yield_item h it (map_option fst (nth_opt (dict_entries d) i))"
    using d(1,2) by (auto simp: next_entry_def heap_get_def ok_or_def)
  show ?thesis
  proof (cases "i < length (dict_entries d)")
    case True
    then have xs: "xs = ItemStored (fst (dict_entries d ! i)) # drop (Suc i) (dict_items d)"
      using d(3) Cons_nth_drop_Suc [of i "dict_items d"] by (simp add: dict_items_def)
    show ?thesis
      unfolding run xs using True it
      by (simp add: nth_opt_def) (rule yield_served [OF wf r [unfolded xs]], simp_all add: item_is_def)
  qed (use d(3) in \<open>simp add: run nth_opt_def yield_item_def next_served_def dict_items_def\<close>)
qed

lemma heap_next_served:
  assumes wf: "slots_wf h" and r: "remaining h it = Some xs"
  shows "next_served h it xs (heap_next h it)"
proof -
  obtain ob where ob: "try_get h it = Some ob" using r by (auto simp: remaining_def split: option.splits)
  then have "heap_get h it = Ok ob" by (simp add: heap_get_def ok_or_def)
  with remaining_object [OF r ob] show ?thesis
    using next_element_served [OF wf _ r] next_entry_served [OF wf _ r] next_in_range_served [OF wf] ob r
    by (auto simp: heap_next_def remaining_def)
qed




lemma append_list_reads:
  assumes "slots_wf h" "try_get h (native_value h a) = Some (ObjList xs)"
  obtains h' where "append_list h a v = (Ok (), h')" "slots_wf h'"
    "try_get h' = (try_get h)(native_value h a \<mapsto> ObjList (xs @ [v]))" "native_value h' a = native_value h a"
proof -
  let ?o = "native_value h a"
  let ?f = "\<lambda>ob. case ob of ObjList vs \<Rightarrow> Ok ((), ObjList (vs @ [v])) | _ \<Rightarrow> fail ''TypeError'' ''expected list''"
  obtain R where R: "write_barrier h ?o v = (Ok (), h\<lparr>remembered := R\<rparr>)"
    using write_barrier_Ok [OF assms(1)] by blast
  have wf: "slots_wf (h\<lparr>remembered := R\<rparr>)" "try_get (h\<lparr>remembered := R\<rparr>) ?o = Some (ObjList xs)"
    "?f (ObjList xs) = Ok ((), ObjList (xs @ [v]))"
    using assms by (simp_all add: remembered_update_same)
  obtain h' where h': "with_object (h\<lparr>remembered := R\<rparr>) ?o ?f = (Ok (), h')" "slots_wf h'"
    "try_get h' = (try_get (h\<lparr>remembered := R\<rparr>))(?o \<mapsto> ObjList (xs @ [v]))"
    using with_object_reads [where f = ?f, OF wf] by blast
  have "native_value h' a = ?o"
    using h'(3) assms(2) by (auto simp: native_value_def remembered_update_same split: option.splits object.splits)
  then show thesis using that [of h'] h' R by (simp add: append_list_def Let_def remembered_update_same)
qed

text \<open>But an exhausted iterator of a list comes to life again when the list grows. Python's does not: it
  forgets its list when it ends.\<close>

theorem exhausted_iterator_revives:
  assumes "slots_wf h" "try_get h source = Some (ObjList vs)" "try_get h it = Some (ObjIterator source (length vs))"
  shows "heap_next h it = (Ok None, h)"
    and "\<exists>h1 h2. append_list h source v = (Ok (), h1) \<and> heap_next h1 it = (Ok (Some v), h2)"
proof -
  have get: "heap_get h source = Ok (ObjList vs)" "heap_get h it = Ok (ObjIterator source (length vs))"
    using assms by (simp_all add: heap_get_def ok_or_def)
  then show "heap_next h it = (Ok None, h)" by (simp add: heap_next_def next_element_def nth_opt_def yield_item_def)
  have native: "native_value h source = source" by (rule native_value_plain [OF assms(2)]) simp
  obtain h1 where h1: "append_list h source v = (Ok (), h1)" "slots_wf h1"
    "try_get h1 = (try_get h)(source \<mapsto> ObjList (vs @ [v]))"
    by (rule append_list_reads [of h source vs v]) (use assms native in auto)
  then have "remaining h1 it = Some [ItemStored v]" "it \<noteq> source"
    using assms by (auto simp: remaining_def sequence_items_def)
  then have "next_served h1 it [ItemStored v] (heap_next h1 it)" using heap_next_served [OF h1(2)] by blast
  then show "\<exists>h1 h2. append_list h source v = (Ok (), h1) \<and> heap_next h1 it = (Ok (Some v), h2)"
    using h1(1) by (auto simp: next_served_def item_is_def allocates_def split: prod.splits res.splits option.splits)
qed


section \<open>Examples\<close>

definition list_heap :: heap where
  "list_heap = heap_default\<lparr>allocations := 1, slots := [\<lparr>slot_generation = 1, slot_location = Some 0\<rparr>],
     objects := [\<lparr>ho_object = ObjList [value_bool True, value_bool False, NONE, ELLIPSIS], ho_slot = 0, ho_young = True\<rparr>]\<rparr>"

lemma list_heap_wf: "slots_wf list_heap"
  by (simp add: list_heap_def heap_default_def slots_wf_def MAX_GENERATION_def)

lemma list_heap_list: "try_get list_heap (native_value list_heap (value_heap 0 1)) =
    Some (ObjList [value_bool True, value_bool False, NONE, ELLIPSIS])"
  by (simp add: list_heap_def heap_default_def native_value_def try_get_def location_def
      heap_index_value_heap generation_value_heap MAX_GENERATION_def)

lemma slice_selects_witness:
  "heap_slice list_heap (value_heap 0 1) (NONE, NONE, immediate (- 2)) = alloc list_heap (ObjList [ELLIPSIS, value_bool False])"
proof -
  have "value_int (- 2) = Some (immediate (- 2))" by (rule value_int_immediate) simp
  then have "integer (immediate (- 2)) = Some (- 2)"
    by (simp add: integer_def as_int_value_int)
  then have "heap_integer list_heap (immediate (- 2)) = Ok (- 2)" "immediate (- 2) \<noteq> NONE"
    by (auto simp: heap_integer_immediate)
  then have "slice_value list_heap (immediate (- 2)) = Ok (Some (- 2))"
    by (simp add: slice_value_def)
  moreover have "slice_value list_heap NONE = Ok None" by (simp add: slice_value_def)
  moreover have "sliced (Suc (Suc (Suc (Suc 0)))) None None (- 2) = [3, 1]" by code_simp
  then have "slice_object (ObjList [value_bool True, value_bool False, NONE, ELLIPSIS]) None None (- 2) =
      Some (ObjList [ELLIPSIS, value_bool False])"
    by (simp add: slice_object_def selected_def)
  ultimately show ?thesis
    using slice_selects [OF list_heap_list, of NONE None NONE None "immediate (- 2)" "Some (- 2)"]
    by (simp add: sequence_length_def)
qed



end
