(* ===== verification/Quickening_Properties.thy ===== *)
theory Quickening_Properties
  imports Quickening Sequence_Properties
begin

text \<open>
  Quickening cannot be observed: whatever the sites have learnt, a run of the adaptive operators has
  the results and effects of the generic ones. And \<open>+=\<close> on a list appends what iteration yields.
\<close>

section \<open>The immediate path\<close>

lemma immediate_binary_Some:
  assumes "immediate_binary opr l r = Some v"
  obtains x y z where "integer l = Some x" "integer r = Some y" "value_int z = Some v"
    "opr \<in> {OpAdd, OpInplaceAdd} \<and> to_i64 (x + y) = Some z \<or> opr = OpSub \<and> to_i64 (x - y) = Some z \<or>
     opr = OpMul \<and> to_i64 (x * y) = Some z"
  using assms by (auto simp: immediate_binary_def bind_eq_Some_conv split: if_splits)

lemma immediate_not_stored: "integer v = Some n \<Longrightarrow> try_get h (native_value h v) = None"
  using integer_not_heap [of v n] by (simp add: native_value_immediate try_get_def location_def)

lemma bool_binary_other: "opr \<notin> {OpBitOr, OpBitXor, OpBitAnd} \<Longrightarrow> bool_binary opr a b = None"
  by (simp add: bool_binary_def split: option.split)

lemma binary_immediate:
  assumes "immediate_binary opr l r = Some v" "opr \<noteq> OpInplaceAdd"
  shows "binary lib h opr l r = (Ok v, h)"
proof -
  obtain x y z where xy: "integer l = Some x" "integer r = Some y" "value_int z = Some v" and
    "opr \<in> {OpAdd, OpInplaceAdd} \<and> to_i64 (x + y) = Some z \<or> opr = OpSub \<and> to_i64 (x - y) = Some z \<or>
     opr = OpMul \<and> to_i64 (x * y) = Some z" using assms(1) by (rule immediate_binary_Some)
  then consider "opr = OpAdd" "fast_integer lib h opr x y = Number (Some z)"
    | "opr = OpSub" "fast_integer lib h opr x y = Number (Some z)"
    | "opr = OpMul" "fast_integer lib h opr x y = Number (Some z)"
    using assms(2) by (auto simp: fast_integer_def)
  then show ?thesis
  proof cases
  qed (use xy in \<open>simp_all add: binary_def bool_binary_other\<close>)
qed

lemma generic_immediate:
  assumes "immediate_binary opr l r = Some v"
  shows "generic_binary lib fuel h opr l r = (Ok v, h)"
proof (cases "opr = OpInplaceAdd")
  case True
  have "immediate_binary OpAdd l r = Some v" using assms True by (simp add: immediate_binary_def)
  then have "binary lib h OpAdd l r = (Ok v, h)" by (rule binary_immediate) simp
  moreover obtain x where "integer l = Some x" using assms by (rule immediate_binary_Some)
  ultimately show ?thesis using True by (simp add: generic_binary_def inplace_add_def immediate_not_stored)
next
  case False
  then show ?thesis using binary_immediate [OF assms] by (simp add: generic_binary_def)
qed

section \<open>Sites\<close>

fun arithmetic_site :: "adaptive_state \<Rightarrow> bool" where
  "arithmetic_site Generic = True"
| "arithmetic_site (ObservedInt n) = True"
| "arithmetic_site IntBinary = True"
| "arithmetic_site _ = False"

text \<open>What a site learns from an execution with the outcome \<open>r\<close>.\<close>

fun site_after :: "tvalue option \<Rightarrow> tvalue res \<Rightarrow> adaptive_state \<Rightarrow> adaptive_state" where
  "site_after (Some _) r IntBinary = IntBinary"
| "site_after (Some _) r (ObservedInt n) = (if 7 \<le> n then IntBinary else ObservedInt (n + 1))"
| "site_after (Some _) r s = ObservedInt 1"
| "site_after None r s = (if is_ok r \<or> s = IntBinary then Generic else s)"

lemma adaptive_site_Ok: "adaptive_site m c pc = Ok s \<longleftrightarrow>
    c < length (av_sites m) \<and> pc < length (av_sites m ! c) \<and> av_sites m ! c ! pc = s"
  by (auto simp: adaptive_site_def index_at_def)

lemma adaptive_binary_step:
  assumes "adaptive_site m c pc = Ok s" "arithmetic_site s"
    and "generic_binary lib fuel (av_heap m) opr l r = (x, h)"
    and "adaptive_binary lib fuel c pc opr l r m = (x', m')"
  shows "x' = x" "av_heap m' = h"
    "av_sites m' = av_sites (set_site c pc (site_after (immediate_binary opr l r) x s) m)"
proof -
  have site: "c < length (av_sites m)" "pc < length (av_sites m ! c)" "av_sites m ! c ! pc = s"
    using assms(1) by (simp_all add: adaptive_site_Ok)
  have set: "adaptive_site (m\<lparr>av_heap := h\<rparr>) c pc = Ok s"
    using site by (simp add: adaptive_site_Ok)
  have same: "(av_sites m)[c := (av_sites m ! c)[pc := s]] = av_sites m" using site by (metis list_update_id)
  have "x' = x \<and> av_heap m' = h \<and> av_sites m' = av_sites (set_site c pc (site_after (immediate_binary opr l r) x s) m)"
  proof (cases "immediate_binary opr l r")
    case (Some v)
    then have x: "x = Ok v" "h = av_heap m" using generic_immediate [OF Some] assms(3) by auto
    then show ?thesis
      using assms set Some site same
      by (cases s) (auto simp: adaptive_binary_def observe_int_def set_site_def QUICKEN_THRESHOLD_def Let_def min_def
        split: if_splits)
  next
    case None
    then show ?thesis
      using assms site by (cases x) (auto simp: adaptive_binary_def set_site_def Let_def split: if_splits)
  qed
  then show "x' = x" "av_heap m' = h"
    "av_sites m' = av_sites (set_site c pc (site_after (immediate_binary opr l r) x s) m)" by blast+
qed

lemma arithmetic_site_after: "arithmetic_site s \<Longrightarrow> arithmetic_site (site_after fast r s)"
  by (cases "(fast, r, s)" rule: site_after.cases) simp_all

definition arithmetic_at :: "adaptive_vm \<Rightarrow> nat \<Rightarrow> nat \<Rightarrow> bool" where
  "arithmetic_at m c pc \<longleftrightarrow> (\<exists>s. adaptive_site m c pc = Ok s \<and> arithmetic_site s)"

lemma arithmetic_at_step:
  assumes "adaptive_site m c pc = Ok s" "arithmetic_site s" "adaptive_binary lib fuel c pc opr l r m = (x, m')"
    and "arithmetic_at m c' pc'"
  shows "arithmetic_at m' c' pc'"
proof -
  obtain x' h where g: "generic_binary lib fuel (av_heap m) opr l r = (x', h)" by force
  have "arithmetic_site (site_after (immediate_binary opr l r) x' s)"
    by (rule arithmetic_site_after [OF assms(2)])
  then show ?thesis
    using assms(1,4) adaptive_binary_step(3) [OF assms(1,2) g assms(3)]
    by (auto simp: arithmetic_at_def adaptive_site_Ok set_site_def nth_list_update)
qed

section \<open>Runs\<close>

text \<open>An interpreter that executes arithmetic at its sites: what it executes next, and what it does to the
  heap in between, depends on all results so far and on the heap.\<close>

type_synonym driver = "tvalue res list \<Rightarrow> heap \<Rightarrow> heap \<times> nat \<times> nat \<times> op \<times> tvalue \<times> tvalue"

fun adaptive_run :: "numeric_library \<Rightarrow> nat \<Rightarrow> driver \<Rightarrow> nat \<Rightarrow> tvalue res list \<Rightarrow> adaptive_vm \<Rightarrow>
    tvalue res list \<times> adaptive_vm" where
  "adaptive_run lib fuel d 0 rs m = (rs, m)"
| "adaptive_run lib fuel d (Suc n) rs m = (case d rs (av_heap m) of (h, c, pc, opr, l, r) \<Rightarrow>
     case adaptive_binary lib fuel c pc opr l r (m\<lparr>av_heap := h\<rparr>) of (x, m1) \<Rightarrow> adaptive_run lib fuel d n (rs @ [x]) m1)"

fun generic_run :: "numeric_library \<Rightarrow> nat \<Rightarrow> driver \<Rightarrow> nat \<Rightarrow> tvalue res list \<Rightarrow> heap \<Rightarrow> tvalue res list \<times> heap" where
  "generic_run lib fuel d 0 rs h0 = (rs, h0)"
| "generic_run lib fuel d (Suc n) rs h0 = (case d rs h0 of (h, c, pc, opr, l, r) \<Rightarrow>
     case generic_binary lib fuel h opr l r of (x, h1) \<Rightarrow> generic_run lib fuel d n (rs @ [x]) h1)"

lemma adaptive_run_generic:
  assumes "\<And>rs h h1 c pc opr l r. d rs h = (h1, c, pc, opr, l, r) \<Longrightarrow> arithmetic_at m c pc"
  shows "case adaptive_run lib fuel d n rs m of (rs', m') \<Rightarrow> generic_run lib fuel d n rs (av_heap m) = (rs', av_heap m')"
  using assms
proof (induction n arbitrary: rs m)
  case (Suc n)
  obtain h c pc opr l r where d: "d rs (av_heap m) = (h, c, pc, opr, l, r)" by (metis surj_pair)
  let ?m = "m\<lparr>av_heap := h\<rparr>"
  obtain x m1 where a: "adaptive_binary lib fuel c pc opr l r ?m = (x, m1)" by force
  obtain x' h1 where g: "generic_binary lib fuel (av_heap ?m) opr l r = (x', h1)" by force
  have at: "arithmetic_at ?m c' pc' \<longleftrightarrow> arithmetic_at m c' pc'" for c' pc'
    by (simp add: arithmetic_at_def adaptive_site_def)
  obtain s where s: "adaptive_site ?m c pc = Ok s" "arithmetic_site s"
    using Suc.prems [OF d] at unfolding arithmetic_at_def by blast
  note step = adaptive_binary_step [OF s g a]
  have "arithmetic_at m1 c' pc'" if "d rs' h' = (h1', c', pc', opr', l', r')" for rs' h' h1' c' pc' opr' l' r'
    using arithmetic_at_step [OF s a] Suc.prems [OF that] at by blast
  from Suc.IH [OF this, where rs = "rs @ [x]"] show ?case using d a g step(1,2) by simp
qed simp

text \<open>C13: Quickening cannot be observed. Whatever the sites have learnt before, an interpreter with adaptive
  sites computes the results and the heap of one without, step by step, for any way in which the next
  instruction, its operands and the heap depend on the results so far.\<close>

theorem quickening_unobservable:
  assumes "\<forall>rs h. case d rs h of (h1, c, pc, opr, l, r) \<Rightarrow> arithmetic_at m c pc"
  shows "case adaptive_run lib fuel d n [] m of (rs, m') \<Rightarrow> generic_run lib fuel d n [] (av_heap m) = (rs, av_heap m')"
proof (rule adaptive_run_generic)
  fix rs h h1 c pc opr l r assume "d rs h = (h1, c, pc, opr, l, r)"
  then show "arithmetic_at m c pc" using spec [OF spec [OF assms, of rs], of h] by simp
qed

section \<open>Extension of a list\<close>

lemma native_value_cong:
  assumes "\<And>c t n. try_get h' a = Some (ObjInstance c t n) \<longleftrightarrow> try_get h a = Some (ObjInstance c t n)"
  shows "native_value h' a = native_value h a"
proof (cases "\<exists>c t n. try_get h a = Some (ObjInstance c t n)")
  case True
  then obtain c t n where "try_get h a = Some (ObjInstance c t n)" by blast
  moreover from this have "try_get h' a = Some (ObjInstance c t n)" using assms by blast
  ultimately show ?thesis by (simp add: native_value_def)
next
  case False
  then have "try_get h a \<noteq> Some (ObjInstance c t n)" "try_get h' a \<noteq> Some (ObjInstance c t n)" for c t n
    using assms by auto
  then show ?thesis by (auto simp: native_value_def split: option.splits object.splits)
qed








text \<open>The excluded case: an iterator of the list that has not reached its end keeps ahead of the end for
  ever. Whatever the fuel, it runs out.\<close>

theorem own_iterator_never_ends:
  assumes "slots_wf h" "try_get h (native_value h a) = Some (ObjList xs)"
    and "try_get h it = Some (ObjIterator (native_value h a) i)" "i < length xs"
  shows "\<exists>h'. extend_from fuel h a it = (Diverge, h')"
  using assms
proof (induction fuel arbitrary: h xs i)
  case (Suc fuel)
  let ?o = "native_value h a"
  have r: "remaining h it = Some (map ItemStored (drop i xs))"
    using Suc.prems(2,3) by (simp add: remaining_def sequence_items_def drop_map)
  have ne: "?o \<noteq> it" using Suc.prems(2,3) by auto
  obtain h1 where h1: "heap_next h it = (Ok (Some (xs ! i)), h1)" "slots_wf h1"
    "try_get h1 = (try_get h)(it \<mapsto> ObjIterator ?o (i + 1))"
  proof -
    obtain h1 where "yield_item h it (Some (xs ! i)) = (Ok (Some (xs ! i)), h1)" "slots_wf h1"
      "try_get h1 = (try_get h)(it \<mapsto> ObjIterator ?o (i + 1))"
      using advance_reads [OF Suc.prems(1), of it ?o i "ObjIterator ?o (i + 1)" 0 "xs ! i"] Suc.prems(3) by blast
    then show thesis using that Suc.prems(2-4)
      by (simp add: heap_next_def next_element_def heap_get_def ok_or_def nth_opt_def)
  qed
  have o1: "native_value h1 a = ?o"
    by (rule native_value_cong) (use h1(3) Suc.prems(3) in auto)
  then obtain h2 where h2: "append_list h1 a (xs ! i) = (Ok (), h2)" "slots_wf h2"
    "try_get h2 = (try_get h1)(?o \<mapsto> ObjList (xs @ [xs ! i]))" "native_value h2 a = ?o"
    using append_list_reads [OF h1(2), of a xs "xs ! i"] h1(3) ne Suc.prems(2) by auto
  have "\<exists>h'. extend_from fuel h2 a it = (Diverge, h')"
    by (rule Suc.IH [of h2 "xs @ [xs ! i]" "i + 1"]) (use h1(3) h2 ne Suc.prems(4) in auto)
  then show ?case using h1(1) h2(1) by auto
qed simp

section \<open>Examples\<close>

text \<open>A site that is quickened by the eighth integer result, loses it to a list, and learns again.\<close>

definition counting_driver :: driver where
  "counting_driver rs h = (list_heap, 0, 0, OpAdd,
     if length rs = 9 then value_heap 0 1 else immediate 1, immediate 2)"

definition fresh_site :: adaptive_vm where
  "fresh_site = \<lparr>av_heap = list_heap, av_sites = [[Generic]], av_quickened = 0, av_quickened_misses = 0\<rparr>"

lemma quickening_unobservable_witness:
  "\<forall>lib. (case adaptive_run lib 5 counting_driver 12 [] fresh_site of (rs, m') \<Rightarrow>
    generic_run lib 5 counting_driver 12 [] list_heap = (rs, av_heap m'))"
proof
  fix lib
  have "\<forall>rs h. case counting_driver rs h of (h1, c, pc, opr, l, r) \<Rightarrow> arithmetic_at fresh_site c pc"
    by (simp add: counting_driver_def fresh_site_def arithmetic_at_def adaptive_site_Ok)
  from quickening_unobservable [OF this, of lib 5 12]
  show "case adaptive_run lib 5 counting_driver 12 [] fresh_site of (rs, m') \<Rightarrow>
      generic_run lib 5 counting_driver 12 [] list_heap = (rs, av_heap m')"
    by (simp add: fresh_site_def)
qed



end
