(* ===== verification/Frames.thy ===== *)
theory Frames
  imports Dictionaries Bytecode
begin

text \<open>
  Activations: the frame stack of crates/tonic-runtime/src/vm.rs and the binding of call arguments to
  parameters, \<open>enter_frame\<close> of calls.rs.

  Of the state of the machine the record has the fields these operations read or write. The actions
  a frame takes with its result are only stored here: all but \<open>ReturnAction::Value\<close> are a type
  argument, and so are classes under construction, of which only the number matters. What native code
  caches of a function is one of three cases.
\<close>

section \<open>Arguments\<close>

record expanded_args =
  ea_receiver :: "tvalue option"
  ea_positional :: "tvalue list"
  ea_keywords :: "(string \<times> tvalue) list"
  ea_deferred_star :: "tvalue option"
  ea_invalid_keywords :: "(tvalue \<times> tvalue) list"

definition expanded_default :: expanded_args where
  "expanded_default = \<lparr>ea_receiver = None, ea_positional = [], ea_keywords = [],
     ea_deferred_star = None, ea_invalid_keywords = []\<rparr>"

definition expanded_count :: "expanded_args \<Rightarrow> nat" where
  "expanded_count a = length (ea_positional a) + length (ea_keywords a) + length (ea_invalid_keywords a)"

definition quoted :: "string \<Rightarrow> string" where
  "quoted name = [char_of (39 :: nat)] @ name @ [char_of (39 :: nat)]"

definition expanded_keyword :: "expanded_args \<Rightarrow> string \<Rightarrow> tvalue \<Rightarrow> (unit, expanded_args) run" where
  "expanded_keyword a name v =
     (if list_ex (\<lambda>(n, _). n = name) (ea_keywords a)
      then (fail ''TypeError'' (''multiple values for keyword argument '' @ quoted name), a)
      else (Ok (), a\<lparr>ea_keywords := ea_keywords a @ [(name, v)]\<rparr>))"

definition expanded_trace :: "expanded_args \<Rightarrow> tvalue list" where
  "expanded_trace a = opt (ea_receiver a) @ ea_positional a @ map snd (ea_keywords a) @
     opt (ea_deferred_star a) @ concat (map (\<lambda>(k, v). [k, v]) (ea_invalid_keywords a))"

datatype arguments =
    Direct "tvalue option" nat nat "symbol_id list"
  | Inline "tvalue option" "tvalue list" nat
  | Expanded expanded_args

fun receiver :: "arguments \<Rightarrow> tvalue option" where
  "receiver (Direct r _ _ _) = r"
| "receiver (Inline r _ _) = r"
| "receiver (Expanded a) = ea_receiver a"

definition receiver_count :: "arguments \<Rightarrow> nat" where
  "receiver_count args = (if receiver args = None then 0 else 1)"

fun window_count :: "arguments \<Rightarrow> nat" where
  "window_count (Direct _ _ n _) = n"
| "window_count (Inline _ _ n) = n"
| "window_count (Expanded a) = length (ea_positional a)"

definition arguments_count :: "arguments \<Rightarrow> nat" where
  "arguments_count args = receiver_count args + window_count args"

fun window_value :: "arguments \<Rightarrow> tvalue list \<Rightarrow> nat \<Rightarrow> tvalue res" where
  "window_value (Direct _ first _ _) regs i = index_at regs (first + i)"
| "window_value (Inline _ vs _) regs i = index_at vs i"
| "window_value (Expanded a) regs i = index_at (ea_positional a) i"

definition arguments_positional :: "arguments \<Rightarrow> tvalue list \<Rightarrow> nat \<Rightarrow> tvalue res" where
  "arguments_positional args regs i = (case receiver args of
      Some r \<Rightarrow> if i = 0 then Ok r else window_value args regs (i - 1)
    | None \<Rightarrow> window_value args regs i)"

fun keyword_count :: "arguments \<Rightarrow> nat" where
  "keyword_count (Direct _ _ _ ks) = length ks"
| "keyword_count (Inline _ _ _) = 0"
| "keyword_count (Expanded a) = length (ea_keywords a)"

fun arguments_keyword :: "program \<Rightarrow> arguments \<Rightarrow> tvalue list \<Rightarrow> nat \<Rightarrow> (string \<times> tvalue) res" where
  "arguments_keyword p (Direct _ first n ks) regs i =
     and_then (index_at ks i) (\<lambda>k. and_then (index_at (symbols p) (unat k)) (\<lambda>name.
     and_then (index_at regs (first + n + i)) (\<lambda>v. Ok (name, v))))"
| "arguments_keyword p (Inline _ _ _) regs i = Panic"
| "arguments_keyword p (Expanded a) regs i = index_at (ea_keywords a) i"

definition arguments_owned :: "arguments \<Rightarrow> program \<Rightarrow> tvalue list \<Rightarrow> expanded_args res" where
  "arguments_owned args p regs =
     and_then (try_map (arguments_positional args regs) [receiver_count args..<arguments_count args]) (\<lambda>vs.
     and_then (try_map (arguments_keyword p args regs) [0..<keyword_count args]) (\<lambda>ks.
     Ok (let owned = expanded_default\<lparr>ea_receiver := receiver args, ea_positional := vs, ea_keywords := ks\<rparr> in
       case args of
         Expanded a \<Rightarrow> owned\<lparr>ea_deferred_star := ea_deferred_star a, ea_invalid_keywords := ea_invalid_keywords a\<rparr>
       | _ \<Rightarrow> owned)))"

text \<open>\<open>bind\<close> stores the receiver and refuses a second one, which then is the receiver.\<close>

definition arguments_bind :: "arguments \<Rightarrow> tvalue \<Rightarrow> (unit, arguments) run" where
  "arguments_bind args v =
     (if receiver args \<noteq> None then fail ''BytecodeError'' ''duplicate bound receiver'' else Ok (),
      case args of
        Direct _ first n ks \<Rightarrow> Direct (Some v) first n ks
      | Inline _ vs n \<Rightarrow> Inline (Some v) vs n
      | Expanded a \<Rightarrow> Expanded (a\<lparr>ea_receiver := Some v\<rparr>))"

section \<open>Frames\<close>

datatype 'act return_action = ReturnValue | ReturnOther 'act

record 'act frame =
  fr_namespace :: "tvalue option"
  fr_action :: "'act return_action"
  fr_code :: nat
  fr_ip :: nat
  fr_base :: nat
  fr_destination :: "nat option"
  fr_cell_base :: nat
  fr_argument_base :: nat
  fr_pending_class_base :: nat
  fr_callable :: "tvalue option"
  fr_generator :: "tvalue option"
  fr_yield_from :: "tvalue option"
  fr_injected_exception :: "tvalue option"
  fr_exception_stack :: "tvalue list"
  fr_jit_attempted :: bool
  fr_jit_resume :: bool
  fr_jit_expanded_resume_depth :: "nat option"

record limits =
  limit_instructions :: "nat option"
  limit_frames :: nat
  limit_registers :: nat
  limit_arguments :: nat

definition limits_default :: limits where
  "limits_default = \<lparr>limit_instructions = None, limit_frames = 1024, limit_registers = 1048576,
     limit_arguments = 65535\<rparr>"

datatype jit_entry = JitUntried | JitUnsupported | JitCompiled

record ('act, 'cls) vm =
  vm_heap :: heap
  vm_execution :: nat
  vm_generator_type :: tvalue
  vm_coroutine_type :: tvalue
  vm_async_generator_type :: tvalue
  vm_registers :: "tvalue list"
  vm_cells :: "tvalue list"
  vm_arguments :: "expanded_args list"
  vm_frames :: "'act frame list"
  vm_pending_classes :: "'cls list"
  vm_limits :: limits
  vm_jit_cache :: "jit_entry list"
  vm_peak_registers :: nat

text \<open>\<open>vm_frames\<close> has the active frame last, as the vector has. \<open>in_heap\<close> runs an operation of the
  heap, \<open>vm_set\<close> writes a register.\<close>

definition in_heap :: "('act, 'cls) vm \<Rightarrow> (heap \<Rightarrow> ('a, heap) run) \<Rightarrow> ('a, ('act, 'cls) vm) run" where
  "in_heap m f = (case f (vm_heap m) of (r, h) \<Rightarrow> (r, m\<lparr>vm_heap := h\<rparr>))"

definition vm_set :: "('act, 'cls) vm \<Rightarrow> nat \<Rightarrow> tvalue \<Rightarrow> (unit, ('act, 'cls) vm) run" where
  "vm_set m r v = (if r < length (vm_registers m)
     then (Ok (), m\<lparr>vm_registers := (vm_registers m)[r := v]\<rparr>) else (Panic, m))"

text \<open>\<open>for x in xs { f(x)?; }\<close> over the machine.\<close>

fun run_each :: "('s \<Rightarrow> 'a \<Rightarrow> (unit, 's) run) \<Rightarrow> 's \<Rightarrow> 'a list \<Rightarrow> (unit, 's) run" where
  "run_each f s [] = (Ok (), s)"
| "run_each f s (x # xs) = run_then (f s x) (\<lambda>_ t. run_each f t xs)"

definition read_register :: "('act, 'cls) vm \<Rightarrow> nat \<Rightarrow> tvalue res" where
  "read_register m r = and_then (index_at (vm_registers m) r) (\<lambda>v.
     if v = UNBOUND then fail ''UnboundLocalError'' ''local variable referenced before assignment'' else Ok v)"

section \<open>Binding the arguments of a call\<close>

definition USIZE_LIMIT :: nat where "USIZE_LIMIT = 2 ^ 64"

definition call_error :: "code_object \<Rightarrow> string \<Rightarrow> 'a res" where
  "call_error code m = fail ''TypeError'' (code_name code @ ''() '' @ m)"

definition named_count :: "signature \<Rightarrow> nat" where
  "named_count sig = unat (positional sig) + unat (keyword_only sig)"

definition parameter_name :: "program \<Rightarrow> code_object \<Rightarrow> nat \<Rightarrow> string res" where
  "parameter_name p code sl = and_then (index_at (locals code) sl) (\<lambda>s. index_at (symbols p) (unat s))"

definition frame_window :: "('act, 'cls) vm \<Rightarrow> code_object \<Rightarrow> arguments \<Rightarrow> nat res" where
  "frame_window m code args =
     (let finish = length (vm_registers m) + unat (registers code); sig = code_signature code in
        if USIZE_LIMIT \<le> finish then fail ''MemoryError'' ''register size overflow''
        else if limit_registers (vm_limits m) < finish then fail ''MemoryError'' ''register budget exceeded''
        else if unat (positional sig) < arguments_count args \<and> vararg sig = None
        then call_error code (''accepts at most '' @ decimal (unat (positional sig)) @
          '' positional arguments, got '' @ decimal (arguments_count args))
        else Ok finish)"

definition resize_registers :: "nat \<Rightarrow> ('act, 'cls) vm \<Rightarrow> ('act, 'cls) vm" where
  "resize_registers finish m = m\<lparr>vm_registers :=
     vm_registers m @ replicate (finish - length (vm_registers m)) UNBOUND\<rparr>"

definition bind_positional :: "nat \<Rightarrow> arguments \<Rightarrow> ('act, 'cls) vm \<Rightarrow> nat \<Rightarrow> (unit, ('act, 'cls) vm) run" where
  "bind_positional base args m i =
     run_then (arguments_positional args (vm_registers m) i, m) (\<lambda>v m1. vm_set m1 (base + i) v)"

definition bind_vararg :: "nat \<Rightarrow> signature \<Rightarrow> arguments \<Rightarrow> ('act, 'cls) vm \<Rightarrow> (unit, ('act, 'cls) vm) run" where
  "bind_vararg base sig args m = (case vararg sig of None \<Rightarrow> (Ok (), m)
     | Some sl \<Rightarrow>
         run_then (try_map (arguments_positional args (vm_registers m))
           [unat (positional sig)..<arguments_count args], m) (\<lambda>vs m1.
         run_then (in_heap m1 (\<lambda>h. alloc h (ObjTuple vs))) (\<lambda>v m2. vm_set m2 (base + unat sl) v)))"

definition bind_kwarg :: "nat \<Rightarrow> signature \<Rightarrow> ('act, 'cls) vm \<Rightarrow> (tvalue option, ('act, 'cls) vm) run" where
  "bind_kwarg base sig m = (case kwarg sig of None \<Rightarrow> (Ok None, m)
     | Some sl \<Rightarrow>
         run_then (in_heap m (\<lambda>h. alloc h (ObjDict dict_default))) (\<lambda>v m1.
         run_then (vm_set m1 (base + unat sl) v) (\<lambda>_ m2. (Ok (Some v), m2))))"

text \<open>\<open>find\<close> over the slots that a keyword may name.\<close>

fun find_parameter :: "program \<Rightarrow> code_object \<Rightarrow> string \<Rightarrow> nat list \<Rightarrow> nat option res" where
  "find_parameter p code name [] = Ok None"
| "find_parameter p code name (sl # sls) = and_then (parameter_name p code sl) (\<lambda>n.
     if n = name then Ok (Some sl) else find_parameter p code name sls)"

definition bind_keyword :: "numeric_library \<Rightarrow> hash_library \<Rightarrow> program \<Rightarrow> code_object \<Rightarrow> nat \<Rightarrow> tvalue option \<Rightarrow>
    arguments \<Rightarrow> ('act, 'cls) vm \<Rightarrow> nat \<Rightarrow> (unit, ('act, 'cls) vm) run" where
  "bind_keyword lib hl p code base kwdict args m i =
     run_then (arguments_keyword p args (vm_registers m) i, m) (\<lambda>(name, v) m1.
     run_then (find_parameter p code name
       [unat (posonly (code_signature code))..<named_count (code_signature code)], m1) (\<lambda>found m2.
     case found of
       Some sl \<Rightarrow> run_then (index_at (vm_registers m2) (base + sl), m2) (\<lambda>old m3.
         if old \<noteq> UNBOUND
         then (call_error code (''got multiple values for argument '' @ quoted name), m3)
         else vm_set m3 (base + sl) v)
     | None \<Rightarrow> (case kwdict of
         Some d \<Rightarrow> run_then (in_heap m2 (\<lambda>h. alloc h (ObjStr name))) (\<lambda>key m3.
           in_heap m3 (\<lambda>h. dict_set lib hl h d key v))
       | None \<Rightarrow> (call_error code (''got unexpected or positional-only keyword '' @ quoted name), m2))))"

definition expect_function :: "heap \<Rightarrow> tvalue \<Rightarrow> function_object res" where
  "expect_function h v = and_then (heap_get h v) (\<lambda>ob. case ob of ObjFunction f \<Rightarrow> Ok f | _ \<Rightarrow> Panic)"

definition bind_default :: "nat \<Rightarrow> ('act, 'cls) vm \<Rightarrow> 16 word \<times> tvalue \<Rightarrow> (unit, ('act, 'cls) vm) run" where
  "bind_default base m = (\<lambda>(sl, v).
     run_then (index_at (vm_registers m) (base + unat sl), m) (\<lambda>old m1.
     if old = UNBOUND then vm_set m1 (base + unat sl) v else (Ok (), m1)))"

definition bind_defaults :: "nat \<Rightarrow> signature \<Rightarrow> tvalue option \<Rightarrow> ('act, 'cls) vm \<Rightarrow> (unit, ('act, 'cls) vm) run" where
  "bind_defaults base sig callable m = (case callable of None \<Rightarrow> (Ok (), m)
     | Some c \<Rightarrow> run_then (expect_function (vm_heap m) c, m) (\<lambda>f m1.
         run_each (bind_default base) m1 (zip (sig_defaults sig) (fun_defaults f))))"

definition type_values :: "heap \<Rightarrow> tvalue \<Rightarrow> tvalue list res" where
  "type_values h c = and_then (expect_function h c) (\<lambda>f. case fun_type_params f of
     None \<Rightarrow> Ok []
   | Some t \<Rightarrow> and_then (heap_get h t) (\<lambda>ob. case ob of
       ObjTuple vs \<Rightarrow> Ok vs | _ \<Rightarrow> fail ''BytecodeError'' ''invalid type parameters''))"

definition bind_type_param :: "nat \<Rightarrow> ('act, 'cls) vm \<Rightarrow> (symbol_id \<times> 16 word option) \<times> tvalue \<Rightarrow>
    (unit, ('act, 'cls) vm) run" where
  "bind_type_param base m = (\<lambda>((_, sl), v). case sl of None \<Rightarrow> (Ok (), m)
     | Some s \<Rightarrow> vm_set m (base + unat s) v)"

definition bind_type_params :: "nat \<Rightarrow> code_object \<Rightarrow> tvalue option \<Rightarrow> ('act, 'cls) vm \<Rightarrow>
    (unit, ('act, 'cls) vm) run" where
  "bind_type_params base code callable m = (case callable of None \<Rightarrow> (Ok (), m)
     | Some c \<Rightarrow> run_then (type_values (vm_heap m) c, m) (\<lambda>vs m1.
         if length vs \<noteq> length (type_params code)
         then (fail ''BytecodeError'' ''type parameter count mismatch'', m1)
         else run_each (bind_type_param base) m1 (zip (type_params code) vs)))"

definition check_bound :: "program \<Rightarrow> code_object \<Rightarrow> nat \<Rightarrow> ('act, 'cls) vm \<Rightarrow> nat \<Rightarrow> unit res" where
  "check_bound p code base m sl = and_then (index_at (vm_registers m) (base + sl)) (\<lambda>v.
     if v = UNBOUND then and_then (parameter_name p code sl) (\<lambda>name.
       call_error code (''missing required argument '' @ quoted name))
     else Ok ())"

definition make_cell :: "nat \<Rightarrow> ('act, 'cls) vm \<Rightarrow> 16 word \<Rightarrow> (unit, ('act, 'cls) vm) run" where
  "make_cell base m local =
     run_then (index_at (vm_registers m) (base + unat local), m) (\<lambda>v m1.
     run_then (in_heap m1 (\<lambda>h. alloc h (ObjCell v))) (\<lambda>cell m2.
     vm_set (m2\<lparr>vm_cells := vm_cells m2 @ [cell]\<rparr>) (base + unat local) UNBOUND))"

definition add_captures :: "tvalue option \<Rightarrow> ('act, 'cls) vm \<Rightarrow> (unit, ('act, 'cls) vm) run" where
  "add_captures callable m = (case callable of None \<Rightarrow> (Ok (), m)
     | Some c \<Rightarrow> run_then (heap_get (vm_heap m) c, m) (\<lambda>ob m1. case ob of
         ObjFunction f \<Rightarrow> (Ok (), m1\<lparr>vm_cells := vm_cells m1 @ fun_captures f\<rparr>)
       | _ \<Rightarrow> (Ok (), m1)))"

definition push_frame :: "nat \<Rightarrow> nat \<Rightarrow> nat \<Rightarrow> nat option \<Rightarrow> tvalue option \<Rightarrow> nat \<Rightarrow> ('act, 'cls) vm \<Rightarrow>
    ('act, 'cls) vm" where
  "push_frame c base finish destination callable cell_base m = m\<lparr>vm_frames := vm_frames m @
     [\<lparr>fr_namespace = None, fr_action = ReturnValue, fr_code = c, fr_ip = 0, fr_base = base,
       fr_destination = destination, fr_cell_base = cell_base,
       fr_argument_base = length (vm_arguments m), fr_pending_class_base = length (vm_pending_classes m),
       fr_callable = callable, fr_generator = None, fr_yield_from = None, fr_injected_exception = None,
       fr_exception_stack = [],
       fr_jit_attempted = (c < length (vm_jit_cache m) \<and> vm_jit_cache m ! c = JitUnsupported),
       fr_jit_resume = False, fr_jit_expanded_resume_depth = None\<rparr>],
     vm_peak_registers := max (vm_peak_registers m) finish\<rparr>"

text \<open>Defaults, type parameters and the check that every parameter has a value; then the cells of
  captured variables, the captured cells of the function and the frame.\<close>

definition fill_parameters :: "program \<Rightarrow> code_object \<Rightarrow> nat \<Rightarrow> tvalue option \<Rightarrow> ('act, 'cls) vm \<Rightarrow>
    (unit, ('act, 'cls) vm) run" where
  "fill_parameters p code base callable m =
     run_then (bind_defaults base (code_signature code) callable m) (\<lambda>_ m1.
     run_then (bind_type_params base code callable m1) (\<lambda>_ m2.
     (try_all (check_bound p code base m2) [0..<named_count (code_signature code)], m2)))"

definition open_frame :: "nat \<Rightarrow> code_object \<Rightarrow> nat \<Rightarrow> nat \<Rightarrow> nat option \<Rightarrow> tvalue option \<Rightarrow> ('act, 'cls) vm \<Rightarrow>
    (unit, ('act, 'cls) vm) run" where
  "open_frame c code base finish destination callable m =
     run_then (run_each (make_cell base) m (cell_locals code)) (\<lambda>_ m1.
     run_then (add_captures callable m1) (\<lambda>_ m2.
     (Ok (), push_frame c base finish destination callable (length (vm_cells m)) m2)))"

definition bind_arguments :: "numeric_library \<Rightarrow> hash_library \<Rightarrow> program \<Rightarrow> code_object \<Rightarrow> nat \<Rightarrow> arguments \<Rightarrow>
    ('act, 'cls) vm \<Rightarrow> (unit, ('act, 'cls) vm) run" where
  "bind_arguments lib hl p code base args m =
     run_then (run_each (bind_positional base args) m
       [0..<min (arguments_count args) (unat (positional (code_signature code)))]) (\<lambda>_ m1.
     run_then (bind_vararg base (code_signature code) args m1) (\<lambda>_ m2.
     run_then (bind_kwarg base (code_signature code) m2) (\<lambda>kwdict m3.
     run_each (bind_keyword lib hl p code base kwdict args) m3 [0..<keyword_count args])))"

definition enter_frame :: "numeric_library \<Rightarrow> hash_library \<Rightarrow> program \<Rightarrow> nat \<Rightarrow> nat option \<Rightarrow> arguments \<Rightarrow>
    tvalue option \<Rightarrow> ('act, 'cls) vm \<Rightarrow> (unit, ('act, 'cls) vm) run" where
  "enter_frame lib hl p c destination args callable m = (let base = length (vm_registers m) in
     run_then (if limit_frames (vm_limits m) \<le> length (vm_frames m)
       then fail ''RecursionError'' ''maximum call depth exceeded'' else index_at (program_code p) c, m) (\<lambda>code m0.
     run_then (frame_window m0 code args, m0) (\<lambda>finish m1.
     run_then (bind_arguments lib hl p code base args (resize_registers finish m1)) (\<lambda>_ m2.
     run_then (fill_parameters p code base callable m2) (\<lambda>_ m3.
     open_frame c code base finish destination callable m3)))))"

end
