(* ===== verification/Generator_Frames.thy ===== *)
theory Generator_Frames
  imports Frames Suspension
begin

text \<open>
  Activations that leave the stack and come back (crates/tonic-runtime/src/vm.rs): the call of a
  generator or coroutine moves its fresh frame into a heap object (\<open>freeze_generator_call\<close>), a resumption
  moves it onto the stack (\<open>resume_generator\<close>, here \<open>resume_call\<close>) and a yield copies it back
  (\<open>suspend_active_generator\<close>). The frame stays on the stack until the instruction that yields pops it.
\<close>

section \<open>Creation\<close>

definition iterator_resumable :: "('act, 'cls) vm \<Rightarrow> tvalue \<Rightarrow> tvalue option" where
  "iterator_resumable m v =
     (if is_generator (vm_heap m) v then Some v else coroutine_iterator_source (vm_heap m) v)"

text \<open>\<open>split_off\<close> panics past the end.\<close>

definition split_off :: "nat \<Rightarrow> 'a list \<Rightarrow> ('a list \<times> 'a list) res" where
  "split_off n xs = (if length xs < n then Panic else Ok (take n xs, drop n xs))"

definition frozen_class :: "('act, 'cls) vm \<Rightarrow> code_object \<Rightarrow> tvalue \<times> generator_kind" where
  "frozen_class m code = (if generator code then
       if coroutine code then (vm_async_generator_type m, KindAsyncGenerator) else (vm_generator_type m, KindGenerator)
     else (vm_coroutine_type m, KindCoroutine))"

definition frozen_frame :: "('act, 'cls) vm \<Rightarrow> code_object \<Rightarrow> 'act frame \<Rightarrow> tvalue list \<Rightarrow> tvalue list \<Rightarrow> generator_frame" where
  "frozen_frame m code fr regs cls = \<lparr>gen_class = fst (frozen_class m code), gen_kind = snd (frozen_class m code),
     gen_execution = vm_execution m, gen_code = fr_code fr mod 2 ^ 16, gen_ip = 0, gen_registers = regs,
     gen_cells = cls, gen_exception_stack = fr_exception_stack fr, gen_resume_register = None,
     gen_yield_from = None, gen_async_driver = None, gen_return_value = NONE, gen_state = GenCreated\<rparr>"

text \<open>The windows of a popped frame leave the machine.\<close>

definition take_windows :: "'act frame \<Rightarrow> ('act, 'cls) vm \<Rightarrow> (tvalue list \<times> tvalue list, ('act, 'cls) vm) run" where
  "take_windows fr m =
     run_then (split_off (fr_base fr) (vm_registers m), m) (\<lambda>(keep, regs) m1.
     run_then (split_off (fr_cell_base fr) (vm_cells m1), m1\<lparr>vm_registers := keep\<rparr>) (\<lambda>(kept, cls) m2.
     (Ok (regs, cls), m2\<lparr>vm_cells := kept, vm_arguments := take (fr_argument_base fr) (vm_arguments m2),
        vm_pending_classes := take (fr_pending_class_base fr) (vm_pending_classes m2)\<rparr>)))"

definition freeze_generator_call :: "program \<Rightarrow> nat \<Rightarrow> ('act, 'cls) vm \<Rightarrow> (unit, ('act, 'cls) vm) run" where
  "freeze_generator_call p destination m =
     (if vm_frames m = [] then (fail ''BytecodeError'' ''generator call did not create a frame'', m)
      else let fr = last (vm_frames m) in
        run_then (index_at (program_code p) (fr_code fr), m\<lparr>vm_frames := butlast (vm_frames m)\<rparr>) (\<lambda>code m1.
        if \<not> generator code \<and> \<not> coroutine code \<or> fr_generator fr \<noteq> None
        then (fail ''BytecodeError'' ''invalid generator creation frame'', m1)
        else run_then (take_windows fr m1) (\<lambda>(regs, cls) m2.
          run_then (in_heap m2 (\<lambda>h. alloc h (ObjGenerator (frozen_frame m2 code fr regs cls)))) (\<lambda>v m3.
          vm_set m3 destination v))))"

section \<open>Resumption\<close>

definition not_resumable :: "heap \<Rightarrow> tvalue \<Rightarrow> tvalue \<Rightarrow> unit res" where
  "not_resumable h g sent = (case heap_generator_state h g of
      Some GenCompleted \<Rightarrow> (case heap_generator_kind h g of
          Some KindCoroutine \<Rightarrow> fail ''RuntimeError'' ''cannot reuse already awaited coroutine''
        | Some KindAsyncGenerator \<Rightarrow> fail ''StopAsyncIteration'' ''''
        | _ \<Rightarrow> fail ''StopIteration'' '''')
    | Some GenRunning \<Rightarrow> fail ''ValueError'' ''generator already executing''
    | Some GenCreated \<Rightarrow> if sent \<noteq> NONE
        then fail ''TypeError'' ''cannot send non-None value to a just-started generator'' else Ok ()
    | Some GenSuspended \<Rightarrow> Ok ()
    | None \<Rightarrow> fail ''TypeError'' ''object is not a generator'')"

definition cell_total :: "code_object \<Rightarrow> nat" where
  "cell_total code = length (cell_locals code) + length (free_vars code)"

text \<open>The suspended frame fits its code object.\<close>

definition check_suspended :: "program \<Rightarrow> generator_frame \<Rightarrow> unit res" where
  "check_suspended p g = ensure (\<not> (length (program_code p) \<le> gen_code g \<or>
       (let code = program_code p ! gen_code g in \<not> generator code \<and> \<not> coroutine code \<or>
         length (gen_registers g) \<noteq> unat (registers code) \<or> length (gen_cells g) \<noteq> cell_total code)))
     (diag_new ''BytecodeError'' ''invalid suspended generator frame'')"

definition expect_generator :: "heap \<Rightarrow> tvalue \<Rightarrow> generator_frame res" where
  "expect_generator h v = and_then (heap_get h v) (\<lambda>ob. case ob of
      ObjGenerator g \<Rightarrow> Ok g | _ \<Rightarrow> fail ''TypeError'' ''object is not a generator'')"

definition check_window :: "('act, 'cls) vm \<Rightarrow> nat \<Rightarrow> unit res" where
  "check_window m n = (let finish = length (vm_registers m) + n in
     if USIZE_LIMIT \<le> finish then fail ''MemoryError'' ''register size overflow''
     else ensure (\<not> limit_registers (vm_limits m) < finish) (diag_new ''MemoryError'' ''register budget exceeded''))"

text \<open>The value sent becomes the result of the instruction that yielded.\<close>

definition receive :: "resumed_generator \<Rightarrow> tvalue \<Rightarrow> tvalue list res" where
  "receive r sent = (case res_resume_register r of None \<Rightarrow> Ok (res_registers r)
     | Some a \<Rightarrow> if a < length (res_registers r) then Ok ((res_registers r)[a := sent]) else Panic)"

definition push_resumed :: "nat \<Rightarrow> tvalue \<Rightarrow> nat \<Rightarrow> 'act return_action \<Rightarrow> resumed_generator \<Rightarrow> tvalue list \<Rightarrow> nat \<Rightarrow>
    ('act, 'cls) vm \<Rightarrow> ('act, 'cls) vm" where
  "push_resumed c g destination action r regs finish m = m\<lparr>vm_registers := vm_registers m @ regs,
     vm_cells := vm_cells m @ res_cells r,
     vm_frames := vm_frames m @ [\<lparr>fr_namespace = None, fr_action = action, fr_code = c, fr_ip = res_ip r,
       fr_base = length (vm_registers m), fr_destination = Some destination, fr_cell_base = length (vm_cells m),
       fr_argument_base = length (vm_arguments m), fr_pending_class_base = length (vm_pending_classes m),
       fr_callable = None, fr_generator = Some g, fr_yield_from = res_yield_from r, fr_injected_exception = None,
       fr_exception_stack = res_exception_stack r, fr_jit_attempted = True, fr_jit_resume = False,
       fr_jit_expanded_resume_depth = None\<rparr>],
     vm_peak_registers := max (vm_peak_registers m) finish\<rparr>"

definition resume_call :: "program \<Rightarrow> tvalue \<Rightarrow> nat \<Rightarrow> tvalue \<Rightarrow> 'act return_action \<Rightarrow> ('act, 'cls) vm \<Rightarrow>
    (unit, ('act, 'cls) vm) run" where
  "resume_call p g destination sent action m =
     run_then (ensure (length (vm_frames m) < limit_frames (vm_limits m))
       (diag_new ''RecursionError'' ''maximum call depth exceeded''), m) (\<lambda>_ m1.
     run_then (not_resumable (vm_heap m1) g sent, m1) (\<lambda>_ m2.
     run_then (expect_generator (vm_heap m2) g, m2) (\<lambda>frame m3.
     run_then (check_suspended p frame, m3) (\<lambda>_ m4.
     run_then (check_window m4 (length (gen_registers frame)), m4) (\<lambda>_ m5.
     run_then (in_heap m5 (\<lambda>h. resume_generator h g (vm_execution m5))) (\<lambda>r m6.
     run_then (receive r sent, m6) (\<lambda>regs m7.
     (Ok (), push_resumed (gen_code frame) g destination action r regs
        (length (vm_registers m7) + length (gen_registers frame)) m7))))))))"

section \<open>Suspension\<close>

text \<open>A slice \<open>xs[a..a + n]\<close>.\<close>

definition range_of :: "nat \<Rightarrow> nat \<Rightarrow> 'a list \<Rightarrow> 'a list res" where
  "range_of a n xs = (if length xs < a + n then Panic else Ok (take n (drop a xs)))"

definition suspended_frame :: "code_object \<Rightarrow> 'act frame \<Rightarrow> tvalue list \<Rightarrow> tvalue list \<Rightarrow> suspended_generator res" where
  "suspended_frame code fr regs cls =
     (if fr_ip fr = 0 then Panic else and_then (index_at (instructions code) (fr_ip fr - 1)) (\<lambda>i.
       Ok \<lparr>sus_ip = fr_ip fr, sus_registers = regs, sus_cells = cls, sus_exception_stack = fr_exception_stack fr,
         sus_resume_register = unat (ia i), sus_yield_from = fr_yield_from fr\<rparr>))"

definition suspend_active_generator :: "program \<Rightarrow> ('act, 'cls) vm \<Rightarrow> (unit, ('act, 'cls) vm) run" where
  "suspend_active_generator p m =
     (if vm_frames m = [] then (fail ''BytecodeError'' ''yield has no active generator frame'', m)
      else let fr = last (vm_frames m) in case fr_generator fr of
        None \<Rightarrow> (fail ''BytecodeError'' ''yield outside resumed generator'', m)
      | Some g \<Rightarrow>
          run_then (index_at (program_code p) (fr_code fr), m) (\<lambda>code m1.
          run_then (range_of (fr_base fr) (unat (registers code)) (vm_registers m1), m1) (\<lambda>regs m2.
          run_then (range_of (fr_cell_base fr) (cell_total code) (vm_cells m2), m2) (\<lambda>cls m3.
          run_then (suspended_frame code fr regs cls, m3) (\<lambda>s m4.
          in_heap m4 (\<lambda>h. suspend_generator h g s))))))"

end
