(* ===== verification/Frame_Properties.thy ===== *)
theory Frame_Properties
  imports Frames Heap_Reads Verifier
begin

text \<open>
  What \<open>enter_frame\<close> does: a call either binds every parameter the way the language defines, in a new
  window of registers above the old ones, or is refused with the error the language defines.
\<close>

section \<open>Outcomes of operations on a state\<close>

text \<open>\<open>runs m Q E\<close>: the operation returns, with \<open>Q\<close> of value and state, or with an error that \<open>E\<close>
  describes. It does not panic.\<close>

definition runs :: "('a, 's) run \<Rightarrow> ('a \<Rightarrow> 's \<Rightarrow> bool) \<Rightarrow> (diagnostic \<Rightarrow> bool) \<Rightarrow> bool" where
  "runs m Q E \<longleftrightarrow> (case m of (Ok x, s) \<Rightarrow> Q x s | (Err d, s) \<Rightarrow> E d | (Panic, s) \<Rightarrow> False | (Diverge, s) \<Rightarrow> False)"

lemma runs_simps [simp]:
  "runs (Ok x, s) Q E \<longleftrightarrow> Q x s" "runs (Err d, s) Q E \<longleftrightarrow> E d" "\<not> runs (Panic, s) Q E"
  "\<not> runs (Diverge, s) Q E"
  by (simp_all add: runs_def)

lemma runs_then:
  assumes "runs m Q' E" "\<And>x s. Q' x s \<Longrightarrow> runs (f x s) Q E"
  shows "runs (run_then m f) Q E"
  using assms by (cases "(m, f)" rule: run_then.cases) auto

lemma runs_weaken: "runs m Q E \<Longrightarrow> (\<And>x s. Q x s \<Longrightarrow> Q' x s) \<Longrightarrow> (\<And>d. E d \<Longrightarrow> E' d) \<Longrightarrow> runs m Q' E'"
  by (auto simp: runs_def split: prod.splits res.splits)

lemma runs_each:
  assumes "I [] s" "\<And>done x rest t. xs = done @ x # rest \<Longrightarrow> I done t \<Longrightarrow> runs (f t x) (\<lambda>_. I (done @ [x])) E"
  shows "runs (run_each f s xs) (\<lambda>_. I xs) E"
proof -
  have "runs (run_each f t rest) (\<lambda>_. I xs) E" if "xs = done @ rest" "I done t" for "done" rest t
    using that
  proof (induction rest arbitrary: "done" t)
    case (Cons x rest)
    show ?case
      unfolding run_each.simps
      by (rule runs_then [OF assms(2) [OF Cons.prems]]) (use Cons in simp)
  qed simp
  from this [of "[]" xs s] show ?thesis using assms(1) by simp
qed

section \<open>The arguments of a call\<close>

text \<open>What positional and keyword arguments a call has: the values found through \<open>positional\<close> and
  \<open>keyword\<close>, all bound, the keywords distinct.\<close>

definition call_values :: "program \<Rightarrow> arguments \<Rightarrow> tvalue list \<Rightarrow> tvalue list \<Rightarrow> (string \<times> tvalue) list \<Rightarrow> bool" where
  "call_values p args regs ps ks \<longleftrightarrow>
     length ps = arguments_count args \<and> (\<forall>i<length ps. arguments_positional args regs i = Ok (ps ! i)) \<and>
     length ks = keyword_count args \<and> (\<forall>i<length ks. arguments_keyword p args regs i = Ok (ks ! i)) \<and>
     UNBOUND \<notin> set ps \<and> UNBOUND \<notin> snd ` set ks \<and> distinct (map fst ks) \<and> length ks < 2 ^ 63"

lemma index_at_append: "index_at xs i = Ok v \<Longrightarrow> index_at (xs @ ys) i = Ok v"
  by (auto simp: index_at_def nth_append split: if_splits)

lemma window_value_append: "window_value args regs i = Ok v \<Longrightarrow> window_value args (regs @ ys) i = Ok v"
  by (cases args) (simp_all add: index_at_append)

lemma arguments_positional_append:
  "arguments_positional args regs i = Ok v \<Longrightarrow> arguments_positional args (regs @ ys) i = Ok v"
  by (auto simp: arguments_positional_def window_value_append split: option.splits if_splits)

lemma arguments_keyword_append:
  "arguments_keyword p args regs i = Ok kv \<Longrightarrow> arguments_keyword p args (regs @ ys) i = Ok kv"
  by (cases args) (auto simp: res_simps index_at_append)

lemma call_values_append: "call_values p args regs ps ks \<Longrightarrow> call_values p args (regs @ ys) ps ks"
  by (auto simp: call_values_def arguments_positional_append arguments_keyword_append)

section \<open>The binding the language defines\<close>

definition named :: "code_object \<Rightarrow> nat" where
  "named code = named_count (code_signature code)"

definition symbol_of :: "program \<Rightarrow> code_object \<Rightarrow> nat \<Rightarrow> string" where
  "symbol_of p code i = symbols p ! unat (locals code ! i)"

text \<open>The parameter a keyword names: the first of that name that is not positional-only.\<close>

definition keyword_parameter :: "program \<Rightarrow> code_object \<Rightarrow> string \<Rightarrow> nat option" where
  "keyword_parameter p code name =
     find (\<lambda>i. symbol_of p code i = name) [unat (posonly (code_signature code))..<named code]"

definition given :: "code_object \<Rightarrow> tvalue list \<Rightarrow> nat \<Rightarrow> bool" where
  "given code ps i \<longleftrightarrow> i < length ps \<and> i < unat (positional (code_signature code))"

definition by_keyword :: "program \<Rightarrow> code_object \<Rightarrow> (string \<times> tvalue) list \<Rightarrow> nat \<Rightarrow> tvalue option" where
  "by_keyword p code ks i = map_option snd (find (\<lambda>(name, _). keyword_parameter p code name = Some i) ks)"

definition default_values :: "heap \<Rightarrow> code_object \<Rightarrow> tvalue option \<Rightarrow> (nat \<times> tvalue) list" where
  "default_values h code callable = (case Option.bind callable (try_get h) of
      Some (ObjFunction f) \<Rightarrow> map (\<lambda>(s, v). (unat s, v)) (zip (sig_defaults (code_signature code)) (fun_defaults f))
    | _ \<Rightarrow> [])"

definition parameter_value :: "program \<Rightarrow> code_object \<Rightarrow> tvalue list \<Rightarrow> (string \<times> tvalue) list \<Rightarrow>
    (nat \<times> tvalue) list \<Rightarrow> nat \<Rightarrow> tvalue option" where
  "parameter_value p code ps ks ds i =
     (if given code ps i then Some (ps ! i)
      else case by_keyword p code ks i of Some v \<Rightarrow> Some v | None \<Rightarrow> map_of ds i)"

definition extra_keywords :: "program \<Rightarrow> code_object \<Rightarrow> (string \<times> tvalue) list \<Rightarrow> (string \<times> tvalue) list" where
  "extra_keywords p code ks = filter (\<lambda>(name, _). keyword_parameter p code name = None) ks"

definition call_accepted :: "program \<Rightarrow> code_object \<Rightarrow> tvalue list \<Rightarrow> (string \<times> tvalue) list \<Rightarrow>
    (nat \<times> tvalue) list \<Rightarrow> bool" where
  "call_accepted p code ps ks ds \<longleftrightarrow>
     (length ps \<le> unat (positional (code_signature code)) \<or> vararg (code_signature code) \<noteq> None) \<and>
     (\<forall>(name, _)\<in>set ks. \<forall>i. keyword_parameter p code name = Some i \<longrightarrow> \<not> given code ps i) \<and>
     (extra_keywords p code ks = [] \<or> kwarg (code_signature code) \<noteq> None) \<and>
     (\<forall>i<named code. parameter_value p code ps ks ds i \<noteq> None)"

section \<open>Code objects that passed the verifier\<close>

lemma each_new_distinct: "each_new key ok {} xs \<noteq> None \<Longrightarrow> distinct (map key xs) \<and> (\<forall>x\<in>set xs. ok x)"
  by (auto simp: res_simps)

text \<open>What \<open>enter_frame\<close> relies on.\<close>

definition code_ok :: "program \<Rightarrow> code_object \<Rightarrow> bool" where
  "code_ok p code \<longleftrightarrow> (let sig = code_signature code; var = (if vararg sig = None then 0 else 1) in
     posonly sig \<le> positional sig \<and>
     named code + var + (if kwarg sig = None then 0 else 1) = unat (params code) \<and>
     (\<forall>v\<in>set_option (vararg sig). unat v = named code) \<and>
     (\<forall>v\<in>set_option (kwarg sig). unat v = named code + var) \<and>
     distinct (sig_defaults sig) \<and> (\<forall>s\<in>set (sig_defaults sig). unat s < named code) \<and>
     unat (params code) \<le> length (locals code) \<and> length (locals code) \<le> unat (registers code) \<and>
     (\<forall>s\<in>set (locals code). unat s < length (symbols p)) \<and>
     (\<forall>(_, slot)\<in>set (type_params code). \<forall>s\<in>set_option slot. unat s < length (locals code)) \<and>
     distinct (cell_locals code) \<and> (\<forall>s\<in>set (cell_locals code). unat s < length (locals code)))"

lemma verify_type_params_slots:
  "try_fold (verify_type_param p code) seen tps = Ok s \<Longrightarrow> (name, Some sl) \<in> set tps \<Longrightarrow> unat sl < length (locals code)"
proof (induction tps arbitrary: seen)
  case (Cons x tps)
  then show ?case
    by (auto simp: res_simps verify_type_param_def split: option.splits if_splits)
qed simp

lemma verified_code_ok:
  assumes "verify p = Ok q" "code \<in> set (program_code p)" shows "code_ok p code"
proof -
  obtain s where "verify_code p s code = Ok ()" using verify_Ok_parts [OF assms(1)] assms(2) by metis
  then have "verify_code_header p code = Ok ()" by (auto simp: verify_code_def res_simps)
  then show ?thesis
    using verify_type_params_slots
    by (auto simp: verify_code_header_def verify_signature_def res_simps Let_def code_ok_def named_def
        named_count_def not_less split: if_splits option.splits)
qed

section \<open>Stages of the binding\<close>

text \<open>The machine with a window of registers above the old ones, and another heap.\<close>

definition stage :: "('act, 'cls) vm \<Rightarrow> tvalue list \<Rightarrow> heap \<Rightarrow> ('act, 'cls) vm" where
  "stage m win h = m\<lparr>vm_registers := vm_registers m @ win, vm_heap := h\<rparr>"

lemma stage_sel [simp]:
  "vm_registers (stage m win h) = vm_registers m @ win" "vm_heap (stage m win h) = h"
  "vm_cells (stage m win h) = vm_cells m" "vm_frames (stage m win h) = vm_frames m"
  by (simp_all add: stage_def)

lemma stage_set [simp]:
  "i < length win \<Longrightarrow> vm_set (stage m win h) (length (vm_registers m) + i) v = (Ok (), stage m (win[i := v]) h)"
  by (simp add: vm_set_def stage_def list_update_append)

lemma stage_index [simp]:
  "i < length win \<Longrightarrow> index_at (vm_registers m @ win) (length (vm_registers m) + i) = Ok (win ! i)"
  by (simp add: index_at_def)

lemma stage_in_heap: "in_heap (stage m win h) f = (fst (f h), stage m win (snd (f h)))"
  by (simp add: in_heap_def stage_def split: prod.split)

lemma stage_resize:
  "resize_registers (length (vm_registers m) + n) m = stage m (replicate n UNBOUND) (vm_heap m)"
  by (simp add: resize_registers_def stage_def)

lemma run_each_append:
  "run_each f s (xs @ ys) = run_then (run_each f s xs) (\<lambda>_ t. run_each f t ys)"
proof (induction xs arbitrary: s)
  case (Cons x xs)
  show ?case by (cases "f s x" rule: prod.exhaust; rename_tac r t; case_tac r) (simp_all add: Cons)
qed simp

lemma run_bind_positional:
  assumes "call_values p args (vm_registers m) ps ks" "k \<le> length ps" "k \<le> n"
  shows "run_each (bind_positional (length (vm_registers m)) args) (stage m (replicate n UNBOUND) h) [0..<k] =
    (Ok (), stage m (take k ps @ replicate (n - k) UNBOUND) h)"
  using assms(2,3)
proof (induction k)
  case (Suc k)
  have "arguments_positional args (vm_registers m @ xs) k = Ok (ps ! k)" for xs
    using assms(1) Suc.prems by (auto simp: call_values_def intro!: arguments_positional_append)
  moreover have "(take k ps @ replicate (n - k) UNBOUND)[k := ps ! k] = take (Suc k) ps @ replicate (n - Suc k) UNBOUND"
  proof -
    have "n - k = Suc (n - Suc k)" using Suc.prems by simp
    then show ?thesis using Suc.prems by (simp add: list_update_append take_Suc_conv_app_nth)
  qed
  ultimately show ?case
    using Suc by (simp add: run_each_append bind_positional_def)
qed simp

text \<open>The errors a call may end with.\<close>

definition call_failure :: "bool \<Rightarrow> diagnostic \<Rightarrow> bool" where
  "call_failure accepted d \<longleftrightarrow> diag_kind d = ''MemoryError'' \<or> diag_kind d = ''RecursionError'' \<or>
     (diag_kind d = ''TypeError'' \<and> \<not> accepted)"

lemma memory_failure [simp]: "diag_kind d = ''MemoryError'' \<Longrightarrow> call_failure a d"
  by (simp add: call_failure_def)

lemma call_error_failure [simp]: "runs (call_error code t, s) Q (call_failure a) \<longleftrightarrow> \<not> a"
  by (simp add: call_error_def call_failure_def diag_new_def)

lemma run_alloc:
  assumes "slots_wf h"
  shows "runs (in_heap (stage m win h) (\<lambda>h. alloc h ob))
    (\<lambda>v s. \<exists>h'. s = stage m win h' \<and> grown None h h' \<and> try_get h' v = Some ob \<and> try_get h v = None) (call_failure a)"
  by (rule alloc_outcome [OF assms, of ob]) (auto simp: stage_in_heap)

lemma try_map_values: "\<forall>x\<in>set xs. f x = Ok (g x) \<Longrightarrow> try_map f xs = Ok (map g xs)"
  by (induction xs) auto

lemma run_bind_vararg:
  assumes "call_values p args (vm_registers m) ps ks" "slots_wf h"
    and "\<And>sl. vararg sig = Some sl \<Longrightarrow> unat sl < length win" "unat (positional sig) \<le> length ps \<or> length ps < unat (positional sig)"
  shows "runs (bind_vararg (length (vm_registers m)) sig args (stage m win h))
    (\<lambda>_ s. \<exists>win' h'. s = stage m win' h' \<and> grown None h h' \<and> (case vararg sig of None \<Rightarrow> win' = win
       | Some sl \<Rightarrow> \<exists>v. win' = win[unat sl := v] \<and> try_get h' v = Some (ObjTuple (drop (unat (positional sig)) ps))))
    (call_failure a)"
proof (cases "vararg sig")
  case None
  then show ?thesis using assms(2) by (auto simp: bind_vararg_def)
next
  case (Some sl)
  let ?n = "unat (positional sig)"
  have n: "arguments_count args = length ps" using assms(1) by (simp add: call_values_def)
  have "try_map (arguments_positional args (vm_registers m @ win)) [?n..<length ps] = Ok (map ((!) ps) [?n..<length ps])"
    using assms(1) by (intro try_map_values) (auto simp: call_values_def arguments_positional_append)
  moreover have "map ((!) ps) [?n..<length ps] = drop ?n ps" by (simp add: list_eq_iff_nth_eq)
  ultimately show ?thesis
    using Some n assms(3)
    by (auto simp: bind_vararg_def intro!: runs_then [OF run_alloc [OF assms(2)]]) blast
qed

lemma run_bind_kwarg:
  assumes "slots_wf h" "\<And>sl. kwarg sig = Some sl \<Longrightarrow> unat sl < length win"
  shows "runs (bind_kwarg (length (vm_registers m)) sig (stage m win h))
    (\<lambda>kwdict s. \<exists>win' h'. s = stage m win' h' \<and> grown None h h' \<and> (case kwarg sig of None \<Rightarrow> win' = win \<and> kwdict = None
       | Some sl \<Rightarrow> \<exists>v. kwdict = Some v \<and> win' = win[unat sl := v] \<and> try_get h' v = Some (ObjDict dict_default) \<and>
           try_get h v = None))
    (call_failure a)"
proof (cases "kwarg sig")
  case None
  then show ?thesis using assms(1) by (auto simp: bind_kwarg_def)
next
  case (Some sl)
  then show ?thesis
    using assms(2) by (auto simp: bind_kwarg_def intro!: runs_then [OF run_alloc [OF assms(1)]])
qed

section \<open>Keywords\<close>

lemma find_parameter_slots:
  assumes "\<forall>i\<in>set sls. i < length (locals code) \<and> unat (locals code ! i) < length (symbols p)"
  shows "find_parameter p code name sls = Ok (find (\<lambda>i. symbol_of p code i = name) sls)"
  using assms by (induction sls) (auto simp: parameter_name_def index_at_def symbol_of_def)

lemma code_ok_locals:
  assumes "code_ok p code" "i < named code"
  shows "i < length (locals code)" "unat (locals code ! i) < length (symbols p)" "i < unat (registers code)"
  using assms by (auto simp: code_ok_def Let_def split: if_splits)

lemma find_parameter_ok:
  assumes "code_ok p code"
  shows "find_parameter p code name [unat (posonly (code_signature code))..<named_count (code_signature code)] =
    Ok (keyword_parameter p code name)"
  unfolding keyword_parameter_def named_def
  by (rule find_parameter_slots) (use code_ok_locals [OF assms] in \<open>auto simp: named_def\<close>)

lemma keyword_parameter_Some:
  "keyword_parameter p code name = Some i \<Longrightarrow> i < named code \<and> symbol_of p code i = name"
  unfolding keyword_parameter_def by (drule find_Some_D) auto

lemma by_keyword_append:
  assumes "distinct (map fst (ks @ [(name, v)]))"
  shows "by_keyword p code (ks @ [(name, v)]) i =
    (if keyword_parameter p code name = Some i then Some v else by_keyword p code ks i)"
proof -
  have other: "find (\<lambda>(n, _). keyword_parameter p code n = Some i) ks = None" if "keyword_parameter p code name = Some i"
    unfolding find_None_iff
    using assms keyword_parameter_Some [of p code _ i] that by (auto; metis fst_conv image_eqI)
  have "find P (xs @ ys) = (case find P xs of None \<Rightarrow> find P ys | Some x \<Rightarrow> Some x)" for P :: "string \<times> tvalue \<Rightarrow> bool" and xs ys
    by (induction xs) auto
  then show ?thesis using other by (auto simp: by_keyword_def split: option.splits)
qed

lemma alist_update_new: "k \<notin> fst ` set al \<Longrightarrow> AList.update k v al = al @ [(k, v)]"
  by (induction al) auto

text \<open>The state after the keywords \<open>ks\<close>, from a window \<open>win\<close> and a heap \<open>h\<close>.\<close>

definition keywords_bound :: "hash_library \<Rightarrow> program \<Rightarrow> code_object \<Rightarrow> ('act, 'cls) vm \<Rightarrow> tvalue list \<Rightarrow> heap \<Rightarrow>
    tvalue option \<Rightarrow> (string \<times> tvalue) list \<Rightarrow> ('act, 'cls) vm \<Rightarrow> bool" where
  "keywords_bound hl p code m win h kwdict ks s \<longleftrightarrow> (\<exists>win' h'. s = stage m win' h' \<and> grown kwdict h h' \<and>
     length win' = length win \<and>
     (\<forall>i<length win. win' ! i = (case by_keyword p code ks i of None \<Rightarrow> win ! i | Some v \<Rightarrow> v)) \<and>
     (\<forall>(name, _)\<in>set ks. \<forall>i. keyword_parameter p code name = Some i \<longrightarrow> win ! i = UNBOUND) \<and>
     (case kwdict of None \<Rightarrow> extra_keywords p code ks = []
      | Some v \<Rightarrow> \<exists>d. try_get h' v = Some (ObjDict d) \<and> dict_ok hl d \<and>
          dict_alist d = map (\<lambda>(name, w). (KStr name, w)) (extra_keywords p code ks) \<and>
          dict_version d \<le> length ks \<and> dict_mutation_version d \<le> length ks))"

lemma keyword_step:
  assumes ok: "code_ok p code" and n: "length win = unat (registers code)"
    and vals: "call_values p args (vm_registers m) ps ks" and split: "ks = ks1 @ (name, v) # ks2"
    and s: "keywords_bound hl p code m win h kwdict ks1 s"
    and refused: "\<And>i. keyword_parameter p code name = Some i \<Longrightarrow> win ! i \<noteq> UNBOUND \<Longrightarrow> \<not> a"
      "kwdict = None \<Longrightarrow> keyword_parameter p code name = None \<Longrightarrow> \<not> a"
  shows "runs (bind_keyword lib hl p code (length (vm_registers m)) kwdict args s (length ks1))
    (\<lambda>_. keywords_bound hl p code m win h kwdict (ks1 @ [(name, v)])) (call_failure a)"
proof -
  obtain win' h' where st: "s = stage m win' h'" "grown kwdict h h'" "length win' = length win"
    and win': "\<forall>i<length win. win' ! i = (case by_keyword p code ks1 i of None \<Rightarrow> win ! i | Some v \<Rightarrow> v)"
    and free: "\<forall>(name, _)\<in>set ks1. \<forall>i. keyword_parameter p code name = Some i \<longrightarrow> win ! i = UNBOUND"
    and dict: "case kwdict of None \<Rightarrow> extra_keywords p code ks1 = []
      | Some v \<Rightarrow> \<exists>d. try_get h' v = Some (ObjDict d) \<and> dict_ok hl d \<and>
          dict_alist d = map (\<lambda>(name, w). (KStr name, w)) (extra_keywords p code ks1) \<and>
          dict_version d \<le> length ks1 \<and> dict_mutation_version d \<le> length ks1"
    using s by (auto simp: keywords_bound_def)
  have dist: "distinct (map fst (ks1 @ [(name, v)]))" and len: "length ks1 < 2 ^ 63"
    using vals by (auto simp: call_values_def split)
  have kw: "arguments_keyword p args (vm_registers m @ win') (length ks1) = Ok (name, v)"
    using vals by (auto simp: call_values_def split intro!: arguments_keyword_append)
  show ?thesis
  proof (cases "keyword_parameter p code name")
    case (Some i)
    have i: "i < length win" using keyword_parameter_Some [OF Some] code_ok_locals [OF ok] n by auto
    have "by_keyword p code (ks1 @ [(name, v)]) i = Some v" using Some by (simp add: by_keyword_append [OF dist])
    have "by_keyword p code ks1 i = None"
      using dist keyword_parameter_Some [of p code _ i] Some
      by (auto simp: by_keyword_def find_None_iff) (metis fst_conv image_eqI)
    then have old: "win' ! i = win ! i" using win' i by simp
    have "extra_keywords p code (ks1 @ [(name, v)]) = extra_keywords p code ks1" using Some by (simp add: extra_keywords_def)
    moreover have "\<forall>j<length win. win'[i := v] ! j = (case by_keyword p code (ks1 @ [(name, v)]) j of None \<Rightarrow> win ! j | Some v \<Rightarrow> v)"
      using win' i st(3) Some by (simp add: by_keyword_append [OF dist] nth_list_update)
    ultimately have "win ! i = UNBOUND \<Longrightarrow>
        keywords_bound hl p code m win h kwdict (ks1 @ [(name, v)]) (stage m (win'[i := v]) h')"
      unfolding keywords_bound_def using st(2,3) free dict Some
      by (intro exI [of _ "win'[i := v]"] exI [of _ h']) (auto split: option.splits)
    then show ?thesis
      using Some kw i old refused(1) [OF Some] st(1,3)
      by (simp add: bind_keyword_def find_parameter_ok [OF ok])
  next
    case None
    show ?thesis
    proof (cases kwdict)
      case None2: None
      then show ?thesis using None kw refused(2) st(1)
        by (simp add: bind_keyword_def find_parameter_ok [OF ok])
    next
      case (Some dv)
      then obtain d where d: "try_get h' dv = Some (ObjDict d)" "dict_ok hl d"
          "dict_alist d = map (\<lambda>(name, w). (KStr name, w)) (extra_keywords p code ks1)"
          "dict_version d \<le> length ks1" "dict_mutation_version d \<le> length ks1"
        using dict by auto
      have wf: "slots_wf h'" using grown_wf [OF st(2)] .
      have room: "dict_room d" using d(4,5) len by (simp add: dict_room_def VERSION_LIMIT_def)
      have new: "AList.update (KStr name) v (dict_alist d) =
          map (\<lambda>(name, w). (KStr name, w)) (extra_keywords p code (ks1 @ [(name, v)]))"
        unfolding d(3) using None dist
        by (subst alist_update_new) (auto simp: extra_keywords_def image_iff)
      show ?thesis
      proof (rule alloc_outcome [OF wf, of "ObjStr name"])
        fix e assume "alloc h' (ObjStr name) = (Err e, h')" "diag_kind e = ''MemoryError''"
        then show ?thesis using None Some kw st(1)
          by (simp add: bind_keyword_def find_parameter_ok [OF ok] stage_in_heap)
      next
        fix key h1 assume h1: "alloc h' (ObjStr name) = (Ok key, h1)" "grown None h' h1" "try_get h1 key = Some (ObjStr name)"
        obtain h2 d' where h2: "dict_set lib hl h1 dv key v = (Ok (), h2)" "grown (Some dv) h1 h2"
            "try_get h2 dv = Some (ObjDict d')" "dict_ok hl d'" "dict_alist d' = AList.update (KStr name) v (dict_alist d)"
            "dict_version d' \<le> dict_version d + 1" "dict_mutation_version d' = dict_mutation_version d + 1"
          by (rule dict_set_string [OF grown_wf [OF h1(2)] h1(3) grown_get [OF h1(2) _ d(1)] d(2) room]) auto
        have "grown (Some dv) h h2"
          using grown_trans [OF grown_trans [OF st(2) [unfolded Some] grown_weaken [OF h1(2)]] h2(2)] .
        then have "keywords_bound hl p code m win h kwdict (ks1 @ [(name, v)]) (stage m win' h2)"
          unfolding keywords_bound_def using st(3) win' free None Some h2 new d(4,5)
          by (intro exI [of _ win'] exI [of _ h2]) (auto simp: by_keyword_append [OF dist])
        then show ?thesis using None Some kw st(1) h1(1) h2(1)
          by (simp add: bind_keyword_def find_parameter_ok [OF ok] stage_in_heap)
      qed
    qed
  qed
qed

lemma run_bind_keywords:
  assumes ok: "code_ok p code" and n: "length win = unat (registers code)"
    and vals: "call_values p args (vm_registers m) ps ks"
    and start: "keywords_bound hl p code m win h kwdict [] s"
    and refused: "\<And>name i. name \<in> fst ` set ks \<Longrightarrow> keyword_parameter p code name = Some i \<Longrightarrow> win ! i \<noteq> UNBOUND \<Longrightarrow> \<not> a"
      "\<And>name. name \<in> fst ` set ks \<Longrightarrow> kwdict = None \<Longrightarrow> keyword_parameter p code name = None \<Longrightarrow> \<not> a"
  shows "runs (run_each (bind_keyword lib hl p code (length (vm_registers m)) kwdict args) s [0..<keyword_count args])
    (\<lambda>_. keywords_bound hl p code m win h kwdict ks) (call_failure a)"
proof -
  have n': "keyword_count args = length ks" using vals by (simp add: call_values_def)
  have "runs (run_each (bind_keyword lib hl p code (length (vm_registers m)) kwdict args) s [0..<length ks])
    (\<lambda>_. (\<lambda>done. keywords_bound hl p code m win h kwdict (take (length done) ks)) [0..<length ks]) (call_failure a)"
  proof (rule runs_each)
    fix "done" x rest t
    assume xs: "[0..<length ks] = done @ x # rest" and I: "keywords_bound hl p code m win h kwdict (take (length done) ks) t"
    have j: "length done < length ks" by (metis add_lessD1 length_append length_upt less_add_same_cancel1 list.size(4) minus_nat.diff_0 xs zero_less_Suc add_Suc_right nat_add_left_cancel_less not_less_eq)
    moreover have "x = length done"
      using arg_cong [OF xs, of "\<lambda>l. l ! length done"] j by simp
    moreover obtain name v where kv: "ks ! length done = (name, v)" by force
    moreover have "ks = take (length done) ks @ (name, v) # drop (Suc (length done)) ks"
      using id_take_nth_drop [OF j] kv by simp
    moreover have "name \<in> fst ` set ks" using kv j by (metis fst_conv image_eqI nth_mem)
    ultimately show "runs (bind_keyword lib hl p code (length (vm_registers m)) kwdict args t x)
        (\<lambda>_. keywords_bound hl p code m win h kwdict (take (length (done @ [x])) ks)) (call_failure a)"
      using keyword_step [OF ok n vals _ I, of name v "drop (Suc (length done)) ks" a] refused
      by (simp add: take_Suc_conv_app_nth)
  qed (use start in simp)
  then show ?thesis by (simp add: n')
qed

section \<open>Defaults, type parameters and cells\<close>

text \<open>The callable of a call is a function of this code object, with as many defaults and type
  parameters.\<close>

definition callable_ok :: "heap \<Rightarrow> code_object \<Rightarrow> tvalue option \<Rightarrow> bool" where
  "callable_ok h code callable \<longleftrightarrow> (\<forall>c. callable = Some c \<longrightarrow> (\<exists>f vs. try_get h c = Some (ObjFunction f) \<and>
     length (fun_defaults f) = length (sig_defaults (code_signature code)) \<and> UNBOUND \<notin> set (fun_defaults f) \<and>
     type_values h c = Ok vs \<and> length vs = length (type_params code)))"

lemma expect_function_Ok: "expect_function h c = Ok f \<longleftrightarrow> try_get h c = Some (ObjFunction f)"
proof (cases "try_get h c")
  case (Some ob)
  then show ?thesis by (cases ob) (simp_all add: expect_function_def heap_get_def ok_or_def)
qed (simp add: expect_function_def heap_get_def ok_or_def)

lemma type_values_Ok: "type_values h c = Ok vs \<longleftrightarrow> (\<exists>f. try_get h c = Some (ObjFunction f) \<and>
    (case fun_type_params f of None \<Rightarrow> vs = [] | Some t \<Rightarrow> try_get h t = Some (ObjTuple vs)))"
proof -
  have tuple: "and_then (heap_get h t) (\<lambda>ob. case ob of ObjTuple vs \<Rightarrow> Ok vs
      | _ \<Rightarrow> fail ''BytecodeError'' ''invalid type parameters'') = Ok vs \<longleftrightarrow> try_get h t = Some (ObjTuple vs)" for t
  proof (cases "try_get h t")
    case (Some ob)
    then show ?thesis by (cases ob) (simp_all add: heap_get_def ok_or_def)
  qed (simp add: heap_get_def ok_or_def)
  show ?thesis
    unfolding type_values_def and_then_Ok_iff expect_function_Ok by (auto simp: tuple split: option.splits)
qed

lemma callable_ok_grown:
  assumes "callable_ok h code callable" "grown None h h'"
  shows "callable_ok h' code callable" "default_values h' code callable = default_values h code callable"
    "callable = Some c \<Longrightarrow> try_get h' c = try_get h c"
proof -
  have get: "try_get h v = Some ob \<Longrightarrow> try_get h' v = Some ob" for v ob
    using grown_get [OF assms(2)] by simp
  have "type_values h c = Ok vs \<Longrightarrow> type_values h' c = Ok vs" for c vs
    unfolding type_values_Ok by (elim exE conjE, intro exI conjI) (auto intro: get split: option.splits)
  then show "callable_ok h' code callable" using assms(1) get unfolding callable_ok_def by blast
  show "callable = Some c \<Longrightarrow> try_get h' c = try_get h c" for c
    using assms(1) get by (force simp: callable_ok_def)
  then show "default_values h' code callable = default_values h code callable"
    by (cases callable) (simp_all add: default_values_def)
qed

lemma distinct_unat: "distinct (map unat xs) \<longleftrightarrow> distinct xs"
  by (simp add: distinct_map inj_on_def flip: word_unat_eq_iff)

lemma run_bind_defaults:
  assumes ok: "code_ok p code" and n: "length win = unat (registers code)" and c: "callable_ok h code callable"
  shows "runs (bind_defaults (length (vm_registers m)) (code_signature code) callable (stage m win h))
    (\<lambda>_ s. \<exists>win'. s = stage m win' h \<and> length win' = length win \<and>
      (\<forall>i<length win. win' ! i = (if win ! i = UNBOUND then
         case map_of (default_values h code callable) i of None \<Rightarrow> UNBOUND | Some v \<Rightarrow> v else win ! i)))
    (call_failure a)"
proof (cases callable)
  case None
  then show ?thesis by (auto simp: bind_defaults_def default_values_def)
next
  case (Some cv)
  then obtain f where f: "try_get h cv = Some (ObjFunction f)" using c by (auto simp: callable_ok_def)
  let ?zs = "zip (sig_defaults (code_signature code)) (fun_defaults f)"
  have ds: "default_values h code callable = map (\<lambda>(s, v). (unat s, v)) ?zs"
    using Some f by (simp add: default_values_def)
  have fits: "unat s < length win" if "(s, v) \<in> set ?zs" for s v
    using set_zip_leftD [OF that] ok code_ok_locals(3) [OF ok] n by (auto simp: code_ok_def Let_def)
  let ?I = "\<lambda>zs s. \<exists>win'. s = stage m win' h \<and> length win' = length win \<and>
      (\<forall>i<length win. win' ! i = (if win ! i = UNBOUND then
         case map_of (map (\<lambda>(s, v). (unat s, v)) zs) i of None \<Rightarrow> UNBOUND | Some v \<Rightarrow> v else win ! i))"
  have "runs (run_each (bind_default (length (vm_registers m))) (stage m win h) ?zs) (\<lambda>_. ?I ?zs) (call_failure a)"
  proof (rule runs_each)
    fix "done" x rest t
    assume xs: "?zs = done @ x # rest" and I: "?I done t"
    obtain s v where x: "x = (s, v)" by force
    obtain win' where win': "t = stage m win' h" "length win' = length win"
      "\<forall>i<length win. win' ! i = (if win ! i = UNBOUND then
         case map_of (map (\<lambda>(s, v). (unat s, v)) done) i of None \<Rightarrow> UNBOUND | Some v \<Rightarrow> v else win ! i)"
      using I by blast
    have s: "unat s < length win" using fits [of s v] xs x by simp
    have "distinct (map fst ?zs)" using ok by (simp add: code_ok_def Let_def map_fst_zip_take)
    then have "distinct (map unat (map fst ?zs))" by (simp only: distinct_unat)
    then have new: "map_of (map (\<lambda>(s, v). (unat s, v)) done) (unat s) = None"
      unfolding xs by (auto simp: x map_of_eq_None_iff) force
    have old: "win' ! unat s = win ! unat s" using win'(3) s new by simp
    have app: "map_of (map (\<lambda>(s, v). (unat s, v)) (done @ [x])) i =
        (if i = unat s then Some v else map_of (map (\<lambda>(s, v). (unat s, v)) done) i)" for i
      using new by (auto simp: x map_add_def split: option.splits)
    have "?I (done @ [x]) (stage m (if win ! unat s = UNBOUND then win'[unat s := v] else win') h)"
      unfolding app using win'(2,3) old s
      by (intro exI [of _ "if win ! unat s = UNBOUND then win'[unat s := v] else win'"]) (auto simp: nth_list_update)
    then show "runs (bind_default (length (vm_registers m)) t x) (\<lambda>_. ?I (done @ [x])) (call_failure a)"
      using s win'(1,2) old by (cases "win ! unat s = UNBOUND") (simp_all add: bind_default_def x)
  qed (rule exI [of _ win], simp)
  moreover have "bind_defaults (length (vm_registers m)) (code_signature code) callable (stage m win h) =
      run_each (bind_default (length (vm_registers m))) (stage m win h) ?zs"
    using Some f by (simp add: bind_defaults_def expect_function_def heap_get_def ok_or_def)
  ultimately show ?thesis by (simp only: ds)
qed

text \<open>Type parameters are stored behind the parameters: code in which one shares the slot of a parameter
  is excluded below.\<close>

definition type_params_apart :: "code_object \<Rightarrow> bool" where
  "type_params_apart code \<longleftrightarrow> (\<forall>(_, slot)\<in>set (type_params code). \<forall>s\<in>set_option slot. unat (params code) \<le> unat s)"

lemma run_bind_type_params:
  assumes ok: "code_ok p code" and n: "length win = unat (registers code)" and c: "callable_ok h code callable"
    and apart: "type_params_apart code"
  shows "runs (bind_type_params (length (vm_registers m)) code callable (stage m win h))
    (\<lambda>_ s. \<exists>win'. s = stage m win' h \<and> length win' = length win \<and> take (unat (params code)) win' = take (unat (params code)) win)
    (call_failure a)"
proof (cases callable)
  case None
  then show ?thesis by (auto simp: bind_type_params_def)
next
  case (Some cv)
  then obtain vs where vs: "type_values h cv = Ok vs" "length vs = length (type_params code)"
    using c by (auto simp: callable_ok_def)
  let ?I = "\<lambda>_ s. \<exists>win'. s = stage m win' h \<and> length win' = length win \<and>
      take (unat (params code)) win' = take (unat (params code)) win"
  have "runs (run_each (bind_type_param (length (vm_registers m))) (stage m win h) (zip (type_params code) vs)) (\<lambda>_. ?I ())
    (call_failure a)"
  proof (rule runs_each)
    fix "done" x rest t
    assume xs: "zip (type_params code) vs = done @ x # rest" and I: "?I () t"
    obtain name slot v where x: "x = ((name, slot), v)" by (cases x) auto
    have "((name, slot), v) \<in> set (zip (type_params code) vs)" using xs x by simp
    then have "(name, slot) \<in> set (type_params code)" by (rule set_zip_leftD)
    then have "unat s < length win \<and> unat (params code) \<le> unat s" if "slot = Some s" for s
      using ok apart n that by (force simp: code_ok_def Let_def type_params_apart_def)
    then show "runs (bind_type_param (length (vm_registers m)) t x) (\<lambda>_. ?I ()) (call_failure a)"
      using I x by (cases slot) (auto simp: bind_type_param_def; force)+
  qed (rule exI [of _ win], simp)
  then show ?thesis using Some vs by (simp add: bind_type_params_def)
qed

lemma run_check_bound:
  assumes ok: "code_ok p code" and n: "length win = unat (registers code)"
  shows "runs (try_all (check_bound p code (length (vm_registers m)) (stage m win h)) [0..<named code], s)
    (\<lambda>_ s'. s' = s \<and> (\<forall>i<named code. win ! i \<noteq> UNBOUND))
    (\<lambda>d. diag_kind d = ''TypeError'' \<and> (\<exists>i<named code. win ! i = UNBOUND))"
proof -
  have check: "check_bound p code (length (vm_registers m)) (stage m win h) i =
      (if win ! i = UNBOUND then call_error code (''missing required argument '' @ quoted (symbol_of p code i)) else Ok ())"
    if "i < named code" for i
    using code_ok_locals [OF ok that] n by (simp add: check_bound_def parameter_name_def index_at_def symbol_of_def)
  have scan: "try_all (check_bound p code (length (vm_registers m)) (stage m win h)) is =
      (if \<forall>i\<in>set is. win ! i \<noteq> UNBOUND then Ok () else
        call_error code (''missing required argument '' @ quoted (symbol_of p code (hd (filter (\<lambda>i. win ! i = UNBOUND) is)))))"
    if "set is \<subseteq> {..<named code}" for "is"
    using that by (induction "is") (auto simp: check call_error_def)
  have "set [0..<named code] \<subseteq> {..<named code}" by auto
  note scan = scan [OF this]
  show ?thesis
  proof (cases "\<forall>i\<in>set [0..<named code]. win ! i \<noteq> UNBOUND")
    case True
    then show ?thesis using scan by (simp del: set_upt) simp
  next
    case False
    then show ?thesis using scan by (auto simp: call_error_def diag_new_def)
  qed
qed

text \<open>The machine while cells are made: the cells above the old ones.\<close>

definition celled :: "('act, 'cls) vm \<Rightarrow> tvalue list \<Rightarrow> heap \<Rightarrow> tvalue list \<Rightarrow> ('act, 'cls) vm" where
  "celled m win h cs = (stage m win h)\<lparr>vm_cells := vm_cells m @ cs\<rparr>"

lemma celled_sel [simp]:
  "vm_registers (celled m win h cs) = vm_registers m @ win" "vm_heap (celled m win h cs) = h"
  "vm_cells (celled m win h cs) = vm_cells m @ cs" "vm_frames (celled m win h cs) = vm_frames m"
  by (simp_all add: celled_def)

lemma celled_none: "celled m win h [] = stage m win h"
  by (simp add: celled_def stage_def)

lemma celled_in_heap: "in_heap (celled m win h cs) f = (fst (f h), celled m win (snd (f h)) cs)"
  by (simp add: in_heap_def celled_def stage_def split: prod.split)

lemma celled_set [simp]:
  "i < length win \<Longrightarrow> vm_set (celled m win h cs) (length (vm_registers m) + i) v = (Ok (), celled m (win[i := v]) h cs)"
  by (simp add: vm_set_def celled_def stage_def list_update_append)

lemma celled_cells [simp]: "(celled m win h cs)\<lparr>vm_cells := vm_cells m @ cs'\<rparr> = celled m win h cs'"
  by (simp add: celled_def)

lemma run_make_cells:
  assumes ok: "code_ok p code" and n: "length win = unat (registers code)" and wf: "slots_wf h"
  shows "runs (run_each (make_cell (length (vm_registers m))) (stage m win h) (cell_locals code))
    (\<lambda>_ s. \<exists>win' h' cs. s = celled m win' h' cs \<and> grown None h h' \<and> length win' = length win \<and>
      (\<forall>i<length win. win' ! i = (if i \<in> unat ` set (cell_locals code) then UNBOUND else win ! i)) \<and>
      list_all2 (\<lambda>local c. try_get h' c = Some (ObjCell (win ! unat local))) (cell_locals code) cs)
    (call_failure a)"
proof -
  let ?I = "\<lambda>done s. \<exists>win' h' cs. s = celled m win' h' cs \<and> grown None h h' \<and> length win' = length win \<and>
      (\<forall>i<length win. win' ! i = (if i \<in> unat ` set done then UNBOUND else win ! i)) \<and>
      list_all2 (\<lambda>local c. try_get h' c = Some (ObjCell (win ! unat local))) done cs"
  have "runs (run_each (make_cell (length (vm_registers m))) (stage m win h) (cell_locals code)) (\<lambda>_. ?I (cell_locals code)) (call_failure a)"
  proof (rule runs_each)
    show "?I [] (stage m win h)" using wf
      by (intro exI [of _ win] exI [of _ h] exI [of _ "[]"]) (simp add: celled_none)
  next
    fix "done" l rest t
    assume xs: "cell_locals code = done @ l # rest" and I: "?I done t"
    obtain win' h' cs where t: "t = celled m win' h' cs" "grown None h h'" "length win' = length win"
      and win': "\<forall>i<length win. win' ! i = (if i \<in> unat ` set done then UNBOUND else win ! i)"
      and cs: "list_all2 (\<lambda>local c. try_get h' c = Some (ObjCell (win ! unat local))) done cs"
      using I by blast
    have l: "unat l < length win" using ok n xs by (fastforce simp: code_ok_def Let_def)
    have "l \<notin> set done" using ok xs by (auto simp: code_ok_def Let_def)
    then have "unat l \<notin> unat ` set done" by (auto simp flip: word_unat_eq_iff)
    then have old: "win' ! unat l = win ! unat l" using win' l by simp
    show "runs (make_cell (length (vm_registers m)) t l) (\<lambda>_. ?I (done @ [l])) (call_failure a)"
    proof (rule alloc_outcome [OF grown_wf [OF t(2)], of "ObjCell (win ! unat l)"])
      fix d assume "alloc h' (ObjCell (win ! unat l)) = (Err d, h')" "diag_kind d = ''MemoryError''"
      then show ?thesis using t(1,3) l old by (simp add: make_cell_def celled_in_heap)
    next
      fix c h1 assume h1: "alloc h' (ObjCell (win ! unat l)) = (Ok c, h1)" "grown None h' h1" "try_get h1 c = Some (ObjCell (win ! unat l))"
      have "list_all2 (\<lambda>local c. try_get h1 c = Some (ObjCell (win ! unat local))) done cs"
        using cs by (rule list_all2_mono) (use grown_get [OF h1(2)] in simp)
      then have "?I (done @ [l]) (celled m (win'[unat l := UNBOUND]) h1 (cs @ [c]))"
        using grown_trans [OF t(2) h1(2)] t(3) win' l h1(3)
        by (intro exI [of _ "win'[unat l := UNBOUND]"] exI [of _ h1] exI [of _ "cs @ [c]"])
          (auto simp: list_all2_appendI nth_list_update)
      then show ?thesis using t(1,3) l old h1(1) by (simp add: make_cell_def celled_in_heap)
    qed
  qed
  then show ?thesis .
qed

section \<open>The frame of an accepted call\<close>

text \<open>A local variable is a register, or the content of its cell when a closure captures it.\<close>

definition local_holds :: "heap \<Rightarrow> code_object \<Rightarrow> tvalue list \<Rightarrow> tvalue list \<Rightarrow> nat \<Rightarrow> tvalue \<Rightarrow> bool" where
  "local_holds h code win cs i v \<longleftrightarrow>
     (if i \<in> unat ` set (cell_locals code)
      then \<exists>j<length (cell_locals code). unat (cell_locals code ! j) = i \<and> try_get h (cs ! j) = Some (ObjCell v)
      else win ! i = v)"

definition captures_of :: "heap \<Rightarrow> tvalue option \<Rightarrow> tvalue list" where
  "captures_of h callable = (case Option.bind callable (try_get h) of Some (ObjFunction f) \<Rightarrow> fun_captures f | _ \<Rightarrow> [])"

definition locals_bound :: "hash_library \<Rightarrow> program \<Rightarrow> code_object \<Rightarrow> tvalue list \<Rightarrow> (string \<times> tvalue) list \<Rightarrow>
    (nat \<times> tvalue) list \<Rightarrow> heap \<Rightarrow> (nat \<Rightarrow> tvalue \<Rightarrow> bool) \<Rightarrow> bool" where
  "locals_bound hl p code ps ks ds h holds \<longleftrightarrow>
     (\<forall>i<named code. \<exists>v. parameter_value p code ps ks ds i = Some v \<and> holds i v) \<and>
     (\<forall>sl. vararg (code_signature code) = Some sl \<longrightarrow> (\<exists>v. holds (unat sl) v \<and>
        try_get h v = Some (ObjTuple (drop (unat (positional (code_signature code))) ps)))) \<and>
     (\<forall>sl. kwarg (code_signature code) = Some sl \<longrightarrow> (\<exists>v d. holds (unat sl) v \<and>
        try_get h v = Some (ObjDict d) \<and> dict_ok hl d \<and>
        dict_alist d = map (\<lambda>(name, w). (KStr name, w)) (extra_keywords p code ks)))"

definition call_entered :: "hash_library \<Rightarrow> program \<Rightarrow> nat \<Rightarrow> nat option \<Rightarrow> tvalue option \<Rightarrow> tvalue list \<Rightarrow>
    (string \<times> tvalue) list \<Rightarrow> ('act, 'cls) vm \<Rightarrow> ('act, 'cls) vm \<Rightarrow> bool" where
  "call_entered hl p c destination callable ps ks m m' \<longleftrightarrow> (\<exists>win cs fr. let code = program_code p ! c in
     vm_registers m' = vm_registers m @ win \<and> length win = unat (registers code) \<and>
     vm_cells m' = vm_cells m @ cs @ captures_of (vm_heap m) callable \<and> length cs = length (cell_locals code) \<and>
     grown None (vm_heap m) (vm_heap m') \<and>
     locals_bound hl p code ps ks (default_values (vm_heap m) code callable) (vm_heap m')
       (local_holds (vm_heap m') code win cs) \<and>
     vm_frames m' = vm_frames m @ [fr] \<and> fr_code fr = c \<and> fr_ip fr = 0 \<and> fr_base fr = length (vm_registers m) \<and>
     fr_cell_base fr = length (vm_cells m) \<and> fr_destination fr = destination \<and> fr_callable fr = callable \<and>
     fr_generator fr = None \<and> fr_exception_stack fr = [] \<and> fr_argument_base fr = length (vm_arguments m) \<and>
     fr_pending_class_base fr = length (vm_pending_classes m) \<and> vm_arguments m' = vm_arguments m \<and>
     vm_pending_classes m' = vm_pending_classes m \<and> vm_execution m' = vm_execution m)"

lemma locals_bound_cells:
  assumes ok: "code_ok p code" and b: "locals_bound hl p code ps ks ds h (\<lambda>i v. win ! i = v)"
    and win': "\<forall>i<length win. win' ! i = (if i \<in> unat ` set (cell_locals code) then UNBOUND else win ! i)"
    and n: "length win = unat (registers code)" and g: "grown None h h'"
    and cs: "list_all2 (\<lambda>local c. try_get h' c = Some (ObjCell (win ! unat local))) (cell_locals code) cs"
  shows "locals_bound hl p code ps ks ds h' (local_holds h' code win' cs)"
proof -
  have holds: "local_holds h' code win' cs i (win ! i)" if "i < unat (params code)" for i
  proof (cases "i \<in> unat ` set (cell_locals code)")
    case True
    then obtain j where "j < length (cell_locals code)" "unat (cell_locals code ! j) = i"
      by (auto simp: in_set_conv_nth)
    then show ?thesis using True list_all2_nthD [OF cs] by (auto simp: local_holds_def)
  next
    case False
    have "i < length win" using that ok n by (auto simp: code_ok_def Let_def)
    then show ?thesis using False win' by (simp add: local_holds_def)
  qed
  have inside: "i < named code \<Longrightarrow> i < unat (params code)"
      "vararg (code_signature code) = Some sl \<Longrightarrow> unat sl < unat (params code)"
      "kwarg (code_signature code) = Some sl \<Longrightarrow> unat sl < unat (params code)" for i sl
    using ok by (auto simp: code_ok_def Let_def split: if_splits)
  show ?thesis
    using b holds inside grown_get [OF g] unfolding locals_bound_def by (simp (no_asm_simp)) blast
qed

lemma run_open_frame:
  assumes ok: "code_ok p code" and code: "code = program_code p ! c" and n: "length win = unat (registers code)"
    and g: "grown None (vm_heap m) h" and c: "callable_ok (vm_heap m) code callable"
    and b: "locals_bound hl p code ps ks (default_values (vm_heap m) code callable) h (\<lambda>i v. win ! i = v)"
  shows "runs (open_frame c code (length (vm_registers m)) finish destination callable (stage m win h))
    (\<lambda>_. call_entered hl p c destination callable ps ks m) (call_failure a)"
  unfolding open_frame_def
proof (rule runs_then [OF run_make_cells [OF ok n grown_wf [OF g]]])
  fix x :: unit and s :: "('a, 'b) vm"
  assume "\<exists>win' h' cs. s = celled m win' h' cs \<and> grown None h h' \<and> length win' = length win \<and>
      (\<forall>i<length win. win' ! i = (if i \<in> unat ` set (cell_locals code) then UNBOUND else win ! i)) \<and>
      list_all2 (\<lambda>local c. try_get h' c = Some (ObjCell (win ! unat local))) (cell_locals code) cs"
  then obtain win' h' cs where s: "s = celled m win' h' cs" "grown None h h'" "length win' = length win"
    and win': "\<forall>i<length win. win' ! i = (if i \<in> unat ` set (cell_locals code) then UNBOUND else win ! i)"
    and cs: "list_all2 (\<lambda>local c. try_get h' c = Some (ObjCell (win ! unat local))) (cell_locals code) cs"
    by blast
  have g': "grown None (vm_heap m) h'" by (rule grown_trans [OF g s(2)])
  have "locals_bound hl p code ps ks (default_values (vm_heap m) code callable) h' (local_holds h' code win' cs)"
    by (rule locals_bound_cells [OF ok b win' n s(2) cs])
  moreover have "add_captures callable s = (Ok (), celled m win' h' (cs @ captures_of (vm_heap m) callable))"
  proof (cases callable)
    case None
    then show ?thesis by (simp add: add_captures_def captures_of_def s(1))
  next
    case (Some cv)
    then obtain f where "try_get (vm_heap m) cv = Some (ObjFunction f)" using c by (auto simp: callable_ok_def)
    moreover from this have "try_get h' cv = Some (ObjFunction f)" using grown_get [OF g'] by simp
    ultimately show ?thesis
      using Some by (simp add: add_captures_def captures_of_def s(1) heap_get_def ok_or_def celled_def)
  qed
  ultimately show "runs (run_then (add_captures callable s) (\<lambda>_ m10.
       (Ok (), push_frame c (length (vm_registers m)) finish destination callable (length (vm_cells (stage m win h))) m10)))
    (\<lambda>_. call_entered hl p c destination callable ps ks m) (call_failure a)"
    using s(3) g' n list_all2_lengthD [OF cs]
    by (simp add: call_entered_def Let_def code [symmetric] push_frame_def celled_def stage_def)
qed

text \<open>The window after the positional arguments, with the tuple and the dictionary of the rest.\<close>

definition window_started :: "code_object \<Rightarrow> tvalue list \<Rightarrow> heap \<Rightarrow> tvalue list \<Rightarrow> heap \<Rightarrow> tvalue option \<Rightarrow> bool" where
  "window_started code ps h0 win h kwdict \<longleftrightarrow> length win = unat (registers code) \<and> grown None h0 h \<and>
     (\<forall>i<named code. win ! i = (if given code ps i then ps ! i else UNBOUND)) \<and>
     (\<forall>sl. vararg (code_signature code) = Some sl \<longrightarrow>
        try_get h (win ! unat sl) = Some (ObjTuple (drop (unat (positional (code_signature code))) ps))) \<and>
     (case kwarg (code_signature code) of None \<Rightarrow> kwdict = None
      | Some sl \<Rightarrow> kwdict = Some (win ! unat sl) \<and> try_get h (win ! unat sl) = Some (ObjDict dict_default) \<and>
          try_get h0 (win ! unat sl) = None)"

lemma keywords_start:
  assumes "window_started code ps h0 win h kwdict"
  shows "keywords_bound hl p code m win h kwdict [] (stage m win h)"
  unfolding keywords_bound_def
  using assms grown_wf [of None h0 h] index_ok_default
  by (intro exI [of _ win] exI [of _ h])
    (auto simp: window_started_def by_keyword_def extra_keywords_def dict_default_def split: option.splits)

lemma by_keyword_Some:
  assumes "by_keyword p code ks i = Some v"
  shows "i < named code" "v \<in> snd ` set ks" "\<exists>name. (name, v) \<in> set ks \<and> keyword_parameter p code name = Some i"
proof -
  obtain name where nv: "find (\<lambda>(name, _). keyword_parameter p code name = Some i) ks = Some (name, v)"
    using assms by (auto simp: by_keyword_def)
  then have "(name, v) \<in> set ks" "keyword_parameter p code name = Some i" by (auto dest: find_Some_D)
  then show "i < named code" "v \<in> snd ` set ks" "\<exists>name. (name, v) \<in> set ks \<and> keyword_parameter p code name = Some i"
    using keyword_parameter_Some by force+
qed

lemma default_values_slots:
  assumes "code_ok p code" "callable_ok h code callable" "map_of (default_values h code callable) i = Some v"
  shows "i < named code" "v \<noteq> UNBOUND"
proof -
  obtain f c where f: "callable = Some c" "try_get h c = Some (ObjFunction f)" "UNBOUND \<notin> set (fun_defaults f)"
    using assms(2,3) by (cases callable) (auto simp: callable_ok_def default_values_def)
  then have "(i, v) \<in> set (map (\<lambda>(s, v). (unat s, v)) (zip (sig_defaults (code_signature code)) (fun_defaults f)))"
    using assms(3) by (auto simp: default_values_def dest: map_of_SomeD)
  then show "i < named code" "v \<noteq> UNBOUND"
    using assms(1) f(3) by (auto simp: code_ok_def Let_def dest: set_zip_leftD set_zip_rightD)
qed

text \<open>The window after keywords and defaults holds the parameters the language defines.\<close>

lemma window_values:
  assumes ok: "code_ok p code" and vals: "call_values p args regs ps ks" and c: "callable_ok h0 code callable"
    and st: "window_started code ps h0 win h kwdict"
    and win': "\<forall>i<length win. win' ! i = (case by_keyword p code ks i of None \<Rightarrow> win ! i | Some v \<Rightarrow> v)"
    and win'': "\<forall>i<length win. win'' ! i = (if win' ! i = UNBOUND then
         case map_of (default_values h0 code callable) i of None \<Rightarrow> UNBOUND | Some v \<Rightarrow> v else win' ! i)"
    and free: "\<forall>(name, _)\<in>set ks. \<forall>i. keyword_parameter p code name = Some i \<longrightarrow> win ! i = UNBOUND"
  shows "i < named code \<Longrightarrow> win'' ! i = (case parameter_value p code ps ks (default_values h0 code callable) i of
      None \<Rightarrow> UNBOUND | Some v \<Rightarrow> v)"
    and "i < named code \<Longrightarrow> parameter_value p code ps ks (default_values h0 code callable) i \<noteq> Some UNBOUND"
    and "named code \<le> i \<Longrightarrow> i < length win \<Longrightarrow> win'' ! i = win ! i"
proof -
  have bound: "UNBOUND \<notin> set ps" "UNBOUND \<notin> snd ` set ks" using vals by (auto simp: call_values_def)
  have gv: "given code ps j \<Longrightarrow> ps ! j \<noteq> UNBOUND" for j using bound(1) by (metis given_def nth_mem)
  have dv: "map_of (default_values h0 code callable) j \<noteq> Some UNBOUND" for j
    using default_values_slots(2) [OF ok c] by blast
  have kv: "by_keyword p code ks j \<noteq> Some UNBOUND" for j using by_keyword_Some(2) bound(2) by blast
  show "i < named code \<Longrightarrow> parameter_value p code ps ks (default_values h0 code callable) i \<noteq> Some UNBOUND"
    using gv dv kv by (auto simp: parameter_value_def split: option.splits)
  show "win'' ! i = (case parameter_value p code ps ks (default_values h0 code callable) i of
      None \<Rightarrow> UNBOUND | Some v \<Rightarrow> v)" if i: "i < named code"
  proof -
    have len: "i < length win" using code_ok_locals(3) [OF ok i] st by (simp add: window_started_def)
    have start: "win ! i = (if given code ps i then ps ! i else UNBOUND)" using st i by (simp add: window_started_def)
    have "by_keyword p code ks i = None" if "given code ps i"
    proof (rule ccontr)
      assume "by_keyword p code ks i \<noteq> None"
      then have "win ! i = UNBOUND" using by_keyword_Some(3) [of p code ks i] free by fastforce
      then show False using start that gv by simp
    qed
    then show ?thesis using win' win'' len start gv kv [of i]
      by (auto simp: parameter_value_def split: option.splits)
  qed
  show "win'' ! i = win ! i" if "named code \<le> i" "i < length win"
  proof -
    have "by_keyword p code ks i = None" using by_keyword_Some(1) [of p code ks i] that by (cases "by_keyword p code ks i") auto
    moreover have "map_of (default_values h0 code callable) i = None"
      using default_values_slots(1) [OF ok c, of i] that by (cases "map_of (default_values h0 code callable) i") auto
    ultimately show ?thesis using win' win'' that by simp
  qed
qed

lemma run_keywords:
  assumes ok: "code_ok p code" and vals: "call_values p args (vm_registers m) ps ks"
    and st: "window_started code ps h0 win h kwdict"
  shows "runs (run_each (bind_keyword lib hl p code (length (vm_registers m)) kwdict args) (stage m win h) [0..<keyword_count args])
    (\<lambda>_. keywords_bound hl p code m win h kwdict ks) (call_failure (call_accepted p code ps ks ds))"
proof (rule run_bind_keywords [OF ok _ vals keywords_start [OF st]])
  show "length win = unat (registers code)" using st by (simp add: window_started_def)
  show "\<not> call_accepted p code ps ks ds"
    if "name \<in> fst ` set ks" "keyword_parameter p code name = Some i" "win ! i \<noteq> UNBOUND" for name i
  proof -
    note found = that
    have "i < named code" using keyword_parameter_Some found(2) by blast
    then have "given code ps i" using st found(3) by (auto simp: window_started_def split: if_splits)
    moreover obtain v where "(name, v) \<in> set ks" using found(1) by auto
    ultimately show ?thesis using found(2) unfolding call_accepted_def by blast
  qed
  show "\<not> call_accepted p code ps ks ds"
    if "name \<in> fst ` set ks" "kwdict = None" "keyword_parameter p code name = None" for name
  proof -
    have "kwarg (code_signature code) = None" using st that(2) by (auto simp: window_started_def split: option.splits)
    moreover have "extra_keywords p code ks \<noteq> []" using that(1,3) by (auto simp: extra_keywords_def filter_empty_conv)
    ultimately show ?thesis by (simp add: call_accepted_def)
  qed
qed

text \<open>What holds once every parameter is filled in.\<close>

definition parameters_filled :: "hash_library \<Rightarrow> program \<Rightarrow> code_object \<Rightarrow> tvalue list \<Rightarrow> (string \<times> tvalue) list \<Rightarrow>
    (nat \<times> tvalue) list \<Rightarrow> ('act, 'cls) vm \<Rightarrow> ('act, 'cls) vm \<Rightarrow> bool" where
  "parameters_filled hl p code ps ks ds m s \<longleftrightarrow> (\<exists>win h. s = stage m win h \<and> length win = unat (registers code) \<and>
     grown None (vm_heap m) h \<and> call_accepted p code ps ks ds \<and>
     locals_bound hl p code ps ks ds h (\<lambda>i v. win ! i = v))"

lemma run_fill_parameters:
  assumes ok: "code_ok p code" and vals: "call_values p args regs ps ks"
    and cal: "callable_ok (vm_heap m) code callable" and apart: "type_params_apart code"
    and st: "window_started code ps (vm_heap m) win h kwdict"
    and many: "length ps \<le> unat (positional (code_signature code)) \<or> vararg (code_signature code) \<noteq> None"
    and kw: "keywords_bound hl p code m win h kwdict ks m5"
  defines "ds \<equiv> default_values (vm_heap m) code callable"
  shows "runs (fill_parameters p code (length (vm_registers m)) callable m5)
    (\<lambda>_. parameters_filled hl p code ps ks ds m) (call_failure (call_accepted p code ps ks ds))"
proof -
  let ?base = "length (vm_registers m)"
  have n: "length win = unat (registers code)" using st by (simp add: window_started_def)
  have vals': "UNBOUND \<notin> set ps" using vals by (simp add: call_values_def)
  obtain win1 h1 where m5: "m5 = stage m win1 h1" and g: "grown kwdict h h1" and len1: "length win1 = length win"
    and win1: "\<forall>i<length win. win1 ! i = (case by_keyword p code ks i of None \<Rightarrow> win ! i | Some v \<Rightarrow> v)"
    and free: "\<forall>(name, _)\<in>set ks. \<forall>i. keyword_parameter p code name = Some i \<longrightarrow> win ! i = UNBOUND"
    and dict: "case kwdict of None \<Rightarrow> extra_keywords p code ks = []
      | Some v \<Rightarrow> \<exists>d. try_get h1 v = Some (ObjDict d) \<and> dict_ok hl d \<and>
          dict_alist d = map (\<lambda>(name, w). (KStr name, w)) (extra_keywords p code ks) \<and>
          dict_version d \<le> length ks \<and> dict_mutation_version d \<le> length ks"
    using kw unfolding keywords_bound_def by blast
  have g0: "grown None (vm_heap m) h" using st by (simp add: window_started_def)
  have g1: "grown None (vm_heap m) h1"
    by (rule grown_fresh [OF grown_trans [OF grown_weaken [OF g0] g]])
      (use st in \<open>auto simp: window_started_def split: option.splits\<close>)
  note cal1 = callable_ok_grown [OF cal g1]
  have n1: "length win1 = unat (registers code)" using n len1 by simp
  show ?thesis
    unfolding fill_parameters_def m5
  proof (rule runs_then [OF run_bind_defaults [OF ok n1 cal1(1)]], elim exE conjE)
    fix m6 win2
    assume m6: "m6 = stage m win2 h1" and len2: "length win2 = length win1"
      and win2: "\<forall>i<length win1. win2 ! i = (if win1 ! i = UNBOUND then
         case map_of (default_values h1 code callable) i of None \<Rightarrow> UNBOUND | Some v \<Rightarrow> v else win1 ! i)"
    have n2: "length win2 = unat (registers code)" using n1 len2 by simp
    show "runs (run_then (bind_type_params ?base code callable m6) (\<lambda>_ m7.
        (try_all (check_bound p code ?base m7) [0..<named_count (code_signature code)], m7)))
      (\<lambda>_. parameters_filled hl p code ps ks ds m) (call_failure (call_accepted p code ps ks ds))"
      unfolding m6
    proof (rule runs_then [OF run_bind_type_params [OF ok n2 cal1(1) apart]], elim exE conjE)
      fix m7 win3
      assume m7: "m7 = stage m win3 h1" and len3: "length win3 = length win2"
        and win3: "take (unat (params code)) win3 = take (unat (params code)) win2"
      have n3: "length win3 = unat (registers code)" using n2 len3 by simp
      have ok': "named code \<le> unat (params code)" "unat (params code) \<le> unat (registers code)"
        using ok by (auto simp: code_ok_def Let_def split: if_splits)
      have same: "win3 ! i = win2 ! i" if "i < unat (params code)" for i
        using win3 that by (metis nth_take)
      have win2': "\<forall>i<length win. win2 ! i = (if win1 ! i = UNBOUND then
         case map_of (default_values (vm_heap m) code callable) i of None \<Rightarrow> UNBOUND | Some v \<Rightarrow> v else win1 ! i)"
        using win2 len1 cal1(2) by simp
      note final = window_values [OF ok vals cal st win1 win2' free, folded ds_def]
      have param: "win3 ! i = (case parameter_value p code ps ks ds i of None \<Rightarrow> UNBOUND | Some v \<Rightarrow> v)"
        if "i < named code" for i using final(1) [OF that] same that ok' by simp
      have rest: "win3 ! i = win ! i" if "named code \<le> i" "i < unat (params code)" for i
        using final(3) [of i] same that ok' n by simp
      have missing: "win3 ! i = UNBOUND \<longleftrightarrow> parameter_value p code ps ks ds i = None" if "i < named code" for i
        using param [OF that] final(2) [OF that] by (auto split: option.splits)
      have filled: "parameters_filled hl p code ps ks ds m m7" if all: "\<forall>i<named code. win3 ! i \<noteq> UNBOUND"
      proof -
        let ?sig = "code_signature code"
        have slots: "vararg ?sig = Some sl \<Longrightarrow> named code \<le> unat sl \<and> unat sl < unat (params code)"
          "kwarg ?sig = Some sl \<Longrightarrow> named code \<le> unat sl \<and> unat sl < unat (params code)" for sl
          using ok by (auto simp: code_ok_def Let_def split: if_splits)
        have vals: "\<forall>i<named code. \<exists>v. parameter_value p code ps ks ds i = Some v \<and> win3 ! i = v"
          using param missing all by (auto split: option.splits)
        have tuple: "try_get h1 (win3 ! unat sl) = Some (ObjTuple (drop (unat (positional ?sig)) ps))"
          if "vararg ?sig = Some sl" for sl
        proof -
          have tv: "try_get h (win ! unat sl) = Some (ObjTuple (drop (unat (positional ?sig)) ps))"
            using st that by (simp add: window_started_def)
          have "Some (win ! unat sl) \<noteq> kwdict"
            using st tv by (auto simp: window_started_def split: option.splits)
          then show ?thesis using grown_get [OF g _ tv] slots(1) [OF that] rest by simp
        qed
        have kwd: "\<exists>d. try_get h1 (win3 ! unat sl) = Some (ObjDict d) \<and> dict_ok hl d \<and>
            dict_alist d = map (\<lambda>(name, w). (KStr name, w)) (extra_keywords p code ks)"
          if "kwarg ?sig = Some sl" for sl
        proof -
          have "kwdict = Some (win3 ! unat sl)"
            using st that slots(2) [OF that] rest by (simp add: window_started_def)
          then show ?thesis using dict by auto
        qed
        have "extra_keywords p code ks = [] \<or> kwarg ?sig \<noteq> None"
          using dict st by (auto simp: window_started_def split: option.splits)
        moreover have "\<forall>(name, _)\<in>set ks. \<forall>i. keyword_parameter p code name = Some i \<longrightarrow> \<not> given code ps i"
        proof (clarify)
          fix name v i
          assume kv: "(name, v) \<in> set ks" "keyword_parameter p code name = Some i" "given code ps i"
          then have "win ! i = UNBOUND" "i < named code" using free keyword_parameter_Some by fastforce+
          then show False
            using kv(3) st vals' by (metis given_def nth_mem window_started_def)
        qed
        ultimately have "call_accepted p code ps ks ds"
          using many vals unfolding call_accepted_def by blast
        moreover have "locals_bound hl p code ps ks ds h1 (\<lambda>i v. win3 ! i = v)"
          using vals tuple kwd unfolding locals_bound_def by blast
        ultimately show ?thesis unfolding parameters_filled_def using m7 n3 g1 by blast
      qed
      show "runs (try_all (check_bound p code ?base m7) [0..<named_count (code_signature code)], m7)
        (\<lambda>_. parameters_filled hl p code ps ks ds m) (call_failure (call_accepted p code ps ks ds))"
        unfolding named_def [symmetric]
      proof (rule runs_weaken [OF run_check_bound [OF ok n3, of m h1 m7, folded m7]])
        show "parameters_filled hl p code ps ks ds m s" if "s = m7 \<and> (\<forall>i<named code. win3 ! i \<noteq> UNBOUND)" for s
          using filled that by blast
        show "call_failure (call_accepted p code ps ks ds) d"
          if "diag_kind d = ''TypeError'' \<and> (\<exists>i<named code. win3 ! i = UNBOUND)" for d
          using missing that unfolding call_failure_def call_accepted_def by blast
      qed
    qed
  qed
qed

text \<open>The positional arguments with the tuple and the dictionary of the rest.\<close>

lemma started_nth:
  assumes "n = unat (registers code)" "k = min (length ps) (unat (positional (code_signature code)))" "k \<le> n"
  shows "\<forall>i<n. (take k ps @ replicate (n - k) UNBOUND) ! i = (if given code ps i then ps ! i else UNBOUND)"
  using assms by (auto simp: nth_append given_def)

definition bound_so_far :: "hash_library \<Rightarrow> program \<Rightarrow> code_object \<Rightarrow> tvalue list \<Rightarrow> (string \<times> tvalue) list \<Rightarrow>
    ('act, 'cls) vm \<Rightarrow> ('act, 'cls) vm \<Rightarrow> bool" where
  "bound_so_far hl p code ps ks m s \<longleftrightarrow> (\<exists>win h kwdict. window_started code ps (vm_heap m) win h kwdict \<and>
     keywords_bound hl p code m win h kwdict ks s)"

lemma run_bind_arguments:
  assumes ok: "code_ok p code" and vals: "call_values p args (vm_registers m) ps ks" and wf: "slots_wf (vm_heap m)"
  shows "runs (bind_arguments lib hl p code (length (vm_registers m)) args
      (resize_registers (length (vm_registers m) + unat (registers code)) m))
    (\<lambda>_. bound_so_far hl p code ps ks m) (call_failure (call_accepted p code ps ks ds))"
proof -
  let ?sig = "code_signature code" and ?n = "unat (registers code)" and ?h = "vm_heap m"
  let ?k = "min (length ps) (unat (positional ?sig))"
  let ?win = "take ?k ps @ replicate (?n - ?k) UNBOUND"
  have slots: "vararg ?sig = Some sl \<Longrightarrow> named code \<le> unat sl \<and> unat sl < ?n"
    "kwarg ?sig = Some sl \<Longrightarrow> named code \<le> unat sl \<and> unat sl < ?n"
    "vararg ?sig = Some sl \<Longrightarrow> kwarg ?sig = Some sk \<Longrightarrow> unat sl \<noteq> unat sk" for sl sk
    using ok by (auto simp: code_ok_def Let_def split: if_splits)
  have "unat (positional ?sig) \<le> named code" by (simp add: named_def named_count_def)
  moreover have "named code \<le> ?n" using ok by (auto simp: code_ok_def Let_def split: if_splits)
  ultimately have k: "?k \<le> ?n" by linarith
  have len: "length ?win = ?n" using k by simp
  have count: "arguments_count args = length ps" using vals by (simp add: call_values_def)
  have first: "run_each (bind_positional (length (vm_registers m)) args) (stage m (replicate ?n UNBOUND) ?h)
      [0..<min (arguments_count args) (unat (positional ?sig))] = (Ok (), stage m ?win ?h)"
    unfolding count by (rule run_bind_positional [OF vals]) (use k in auto)
  have start: "\<forall>i<?n. ?win ! i = (if given code ps i then ps ! i else UNBOUND)"
    by (rule started_nth [OF refl refl k])
  show ?thesis
    unfolding bind_arguments_def stage_resize first run_then.simps
  proof (rule runs_then [OF run_bind_vararg [OF vals wf]], goal_cases)
    case (1 sl)
    then show ?case using slots(1) len by simp
  next
    case 2
    then show ?case by linarith
  next
    case (3 x s)
    then obtain win1 h1 where s: "s = stage m win1 h1" "grown None ?h h1"
      and var: "case vararg ?sig of None \<Rightarrow> win1 = ?win
       | Some sl \<Rightarrow> \<exists>v. win1 = ?win[unat sl := v] \<and> try_get h1 v = Some (ObjTuple (drop (unat (positional ?sig)) ps))"
      by blast
    have len1: "length win1 = ?n" using var len by (auto split: option.splits)
    show ?case
      unfolding s(1)
    proof (rule runs_then [OF run_bind_kwarg [OF grown_wf [OF s(2)]]], goal_cases)
      case (1 sl)
      then show ?case using slots(2) len1 by simp
    next
      case (2 kwdict t)
      then obtain win2 h2 where t: "t = stage m win2 h2" "grown None h1 h2"
        and kw: "case kwarg ?sig of None \<Rightarrow> win2 = win1 \<and> kwdict = None
         | Some sl \<Rightarrow> \<exists>v. kwdict = Some v \<and> win2 = win1[unat sl := v] \<and> try_get h2 v = Some (ObjDict dict_default) \<and>
             try_get h1 v = None"
        by blast
      have len2: "length win2 = ?n" using kw len1 by (auto split: option.splits)
      have keep: "win2 ! i = ?win ! i" if "i < named code" for i
        using var kw slots(1,2) that by (fastforce split: option.splits)
      have g2: "grown None ?h h2" by (rule grown_trans [OF s(2) t(2)])
      have "try_get h2 (win2 ! unat sl) = Some (ObjTuple (drop (unat (positional ?sig)) ps))" if "vararg ?sig = Some sl" for sl
      proof -
        have "win2 ! unat sl = win1 ! unat sl"
          using kw slots(3) [OF that] by (auto split: option.splits)
        then show ?thesis using var that slots(1) [OF that] len grown_get [OF t(2)] by auto
      qed
      moreover have "case kwarg ?sig of None \<Rightarrow> kwdict = None
        | Some sl \<Rightarrow> kwdict = Some (win2 ! unat sl) \<and> try_get h2 (win2 ! unat sl) = Some (ObjDict dict_default) \<and>
          try_get ?h (win2 ! unat sl) = None"
      proof (cases "kwarg ?sig")
        case (Some sl)
        then obtain v where v: "kwdict = Some v" "win2 = win1[unat sl := v]" "try_get h2 v = Some (ObjDict dict_default)"
          "try_get h1 v = None" using kw by auto
        then have "try_get ?h v = None" using grown_get [OF s(2), of v] by (cases "try_get ?h v") auto
        then show ?thesis using v Some slots(2) [OF Some] len1 by simp
      qed (use kw in simp)
      ultimately have st: "window_started code ps ?h win2 h2 kwdict"
        using len2 g2 keep start \<open>named code \<le> ?n\<close> by (simp add: window_started_def)
      show ?case
        unfolding t(1) using run_keywords [OF ok vals st, where hl = hl and lib = lib and ds = ds]
        by (rule runs_weaken) (use st in \<open>auto simp: bound_so_far_def\<close>)
    qed
  qed
qed

section \<open>Calls\<close>

lemma run_enter_frame:
  fixes m :: "('act, 'cls) vm"
  assumes "verify p = Ok q" "c < length (program_code p)" "slots_wf (vm_heap m)"
    and "call_values p args (vm_registers m) ps ks"
    and "callable_ok (vm_heap m) (program_code p ! c) callable" "type_params_apart (program_code p ! c)"
    and "code = program_code p ! c" "ds = default_values (vm_heap m) code callable"
  shows "runs (enter_frame lib hl p c destination args callable m)
    (\<lambda>_ s. call_accepted p code ps ks ds \<and> call_entered hl p c destination callable ps ks m s)
    (call_failure (call_accepted p code ps ks ds))"
    (is "runs _ ?Q ?E")
proof -
  let ?base = "length (vm_registers m)"
  have ok: "code_ok p code" using verified_code_ok [OF assms(1)] assms(2,7) by simp
  have count: "arguments_count args = length ps" using assms(4) by (simp add: call_values_def)
  show ?thesis
  proof (cases "limit_frames (vm_limits m) \<le> length (vm_frames m)")
    case True
    then show ?thesis by (simp add: enter_frame_def Let_def call_failure_def diag_new_def)
  next
    case depth: False
    have window: "frame_window m code args = Ok (?base + unat (registers code)) \<and>
        (length ps \<le> unat (positional (code_signature code)) \<or> vararg (code_signature code) \<noteq> None) \<or>
        (\<exists>d. frame_window m code args = Err d \<and> ?E d)"
      by (auto simp: frame_window_def Let_def count call_failure_def diag_new_def call_error_def call_accepted_def)
    show ?thesis
    proof (cases "frame_window m code args")
      case (Ok finish)
      with window have fin: "finish = ?base + unat (registers code)"
        and many: "length ps \<le> unat (positional (code_signature code)) \<or> vararg (code_signature code) \<noteq> None"
        by auto
      have eq: "enter_frame lib hl p c destination args callable m =
          run_then (bind_arguments lib hl p code ?base args (resize_registers (?base + unat (registers code)) m)) (\<lambda>_ m2.
          run_then (fill_parameters p code ?base callable m2) (\<lambda>_ m3.
          open_frame c code ?base finish destination callable m3))"
        using depth Ok assms(2) by (simp add: enter_frame_def Let_def index_at_def assms(7) [symmetric] fin)
      show ?thesis
        unfolding eq
      proof (rule runs_then [OF run_bind_arguments [OF ok assms(4,3)]])
        fix x :: unit and m2 assume "bound_so_far hl p code ps ks m m2"
        then obtain win h kwdict where st: "window_started code ps (vm_heap m) win h kwdict"
          and kw: "keywords_bound hl p code m win h kwdict ks m2" by (auto simp: bound_so_far_def)
        show "runs (run_then (fill_parameters p code ?base callable m2) (\<lambda>_ m3.
            open_frame c code ?base finish destination callable m3)) ?Q ?E"
        proof (rule runs_then)
          show "runs (fill_parameters p code ?base callable m2) (\<lambda>_. parameters_filled hl p code ps ks ds m) ?E"
            unfolding assms(8)
            by (rule run_fill_parameters [OF ok assms(4) _ _ st many kw]) (use assms(5,6) in \<open>simp_all add: assms(7)\<close>)
          fix y :: unit and m3 assume "parameters_filled hl p code ps ks ds m m3"
          then obtain win3 h3 where f: "m3 = stage m win3 h3" "length win3 = unat (registers code)"
            "grown None (vm_heap m) h3" "call_accepted p code ps ks ds"
            "locals_bound hl p code ps ks ds h3 (\<lambda>i v. win3 ! i = v)"
            by (auto simp: parameters_filled_def)
          show "runs (open_frame c code ?base finish destination callable m3) ?Q ?E"
            unfolding f(1)
            by (rule runs_weaken [OF run_open_frame [OF ok assms(7) f(2,3) _ f(5) [unfolded assms(8)]]])
              (use assms(5) f(4) in \<open>auto simp: assms(7)\<close>)
        qed
      qed
    next
      case (Err d)
      then show ?thesis using window depth assms(2) by (simp add: enter_frame_def Let_def index_at_def assms(7) [symmetric])
    qed (use window in auto)
  qed
qed

text \<open>C1: A call of verified code either enters a frame in which every parameter holds the value the
  language gives it, or is refused. Positional arguments fill the positional parameters and the rest
  goes into the tuple of \<open>*args\<close>; keywords fill the parameters they name and the rest goes into the
  dictionary of \<open>**kwargs\<close>; defaults fill what is left; captured parameters are in fresh cells, in
  the order of the code object, followed by the cells of the function. The registers, cells and
  objects of the caller stay as they are. A call is refused with a \<open>TypeError\<close> only if the language
  refuses it, with a \<open>RecursionError\<close> or \<open>MemoryError\<close> at a limit, and it never panics.\<close>

theorem call_binds_parameters:
  assumes "verify p = Ok q" "c < length (program_code p)" "slots_wf (vm_heap m)"
    and "call_values p args (vm_registers m) ps ks"
    and "callable_ok (vm_heap m) (program_code p ! c) callable" "type_params_apart (program_code p ! c)"
  shows "case enter_frame lib hl p c destination args callable m of
      (Ok _, m') \<Rightarrow> call_accepted p (program_code p ! c) ps ks (default_values (vm_heap m) (program_code p ! c) callable) \<and>
        call_entered hl p c destination callable ps ks m m'
    | (Err d, m') \<Rightarrow> diag_kind d = ''MemoryError'' \<or> diag_kind d = ''RecursionError'' \<or> diag_kind d = ''TypeError'' \<and>
        \<not> call_accepted p (program_code p ! c) ps ks (default_values (vm_heap m) (program_code p ! c) callable)
    | _ \<Rightarrow> False"
  using run_enter_frame [OF assms refl refl, of lib hl destination]
  by (auto simp: runs_def call_failure_def split: prod.splits res.splits)

text \<open>\<open>def f(x): return None\<close> with \<open>x\<close> captured by an inner function, called as \<open>f(x=True)\<close>.\<close>

definition keyword_code :: code_object where
  "keyword_code = (example_code False False [] [instr_new OpConst 1 0 0, instr_new OpReturn 1 0 0])
     \<lparr>params := 1, code_signature := \<lparr>positional = 1, posonly = 0, keyword_only = 0, vararg = None, kwarg = None,
       sig_defaults = []\<rparr>, locals := [0], cell_locals := [0]\<rparr>"

definition keyword_vm :: "(unit, unit) vm" where
  "keyword_vm = \<lparr>vm_heap = heap_default, vm_execution = 0, vm_generator_type = NONE, vm_coroutine_type = NONE,
     vm_async_generator_type = NONE, vm_registers = [value_bool True], vm_cells = [], vm_arguments = [],
     vm_frames = [], vm_pending_classes = [], vm_limits = limits_default, vm_jit_cache = [], vm_peak_registers = 1\<rparr>"

lemma keyword_verified: "verify (example_program [keyword_code]) = Ok (example_program [keyword_code])"
proof (rule verify_example_program)
  show "\<forall>f\<in>set [keyword_code]. verify_code (example_program [keyword_code]) {0} f = Ok ()"
    by (simp add: keyword_code_def verify_code_def verify_code_header_def verify_signature_def example_code_def
        cell_count_def ensure_def verify_instruction_new verify_operands_defs verify_checks)
  show "\<forall>f\<in>set [keyword_code]. verify_argument_stack f = Ok ()"
    by (simp add: keyword_code_def verify_argument_stack_def stack_depths_def stack_visit_new stack_effect_def
        stack_edges_def)
qed simp

lemma call_binds_parameters_witness:
  "\<forall>lib hl. let p = example_program [keyword_code]; args = Direct None 0 0 [0]; ks = [(''x'', value_bool True)] in
     fst (enter_frame lib hl p 1 (Some 0) args None keyword_vm) = Ok () \<and>
     call_accepted p keyword_code [] ks [] \<and>
     call_entered hl p 1 (Some 0) None [] ks keyword_vm (snd (enter_frame lib hl p 1 (Some 0) args None keyword_vm))"
proof (intro allI)
  fix lib hl
  let ?p = "example_program [keyword_code]" and ?args = "Direct None 0 0 [0]" and ?ks = "[(''x'', value_bool True)]"
  let ?run = "enter_frame lib hl ?p 1 (Some 0) ?args None keyword_vm"
  obtain v h where "alloc heap_default (ObjCell (value_bool True)) = (Ok v, h)"
    by (simp add: alloc_def heap_default_def)
  then have "fst ?run = Ok ()"
    by (simp add: value_bool_def UNBOUND_def enter_frame_def keyword_code_def keyword_vm_def limits_default_def index_at_def frame_window_def
        USIZE_LIMIT_def Let_def bind_arguments_def arguments_count_def receiver_count_def bind_vararg_def bind_kwarg_def
        bind_keyword_def parameter_name_def named_count_def example_code_def resize_registers_def vm_set_def
        fill_parameters_def bind_defaults_def bind_type_params_def check_bound_def open_frame_def make_cell_def
        in_heap_def add_captures_def example_program_def)
  moreover have "call_values ?p ?args (vm_registers keyword_vm) [] ?ks"
    by (simp add: call_values_def keyword_vm_def arguments_count_def receiver_count_def index_at_def
        value_bool_def UNBOUND_def)
  moreover have "slots_wf (vm_heap keyword_vm)" "type_params keyword_code = []"
    by (simp_all add: keyword_vm_def keyword_code_def heap_default_def slots_wf_def)
  ultimately show "let p = ?p; args = ?args; ks = ?ks in fst (enter_frame lib hl p 1 (Some 0) args None keyword_vm) = Ok () \<and>
     call_accepted p keyword_code [] ks [] \<and>
     call_entered hl p 1 (Some 0) None [] ks keyword_vm (snd (enter_frame lib hl p 1 (Some 0) args None keyword_vm))"
    using call_binds_parameters [OF keyword_verified, where c = 1 and m = keyword_vm and args = ?args and ps = "[]" and ks = ?ks
        and callable = None and lib = lib and hl = hl and destination = "Some 0"]
    by (cases ?run; simp add: Let_def default_values_def callable_ok_def type_params_apart_def)
qed

end
