(* ===== verification/Generator_Properties.thy ===== *)
theory Generator_Properties
  imports Generator_Frames Frame_Properties
begin

text \<open>
  Suspended activations come back as they left: the windows of a yield, with the value sent in the
  register of the instruction that yielded, and the frame a call of a generator function made.
\<close>

section \<open>Generators on the heap\<close>

lemma resume_generator_heap:
  assumes "slots_wf h" "try_get h v = Some (ObjGenerator g)" "gen_state g \<in> {GenCreated, GenSuspended}"
  obtains h' g' where "resume_generator h v (gen_execution g) = (Ok \<lparr>res_code = gen_code g, res_ip = gen_ip g,
      res_registers = gen_registers g, res_cells = gen_cells g, res_exception_stack = gen_exception_stack g,
      res_resume_register = gen_resume_register g, res_yield_from = gen_yield_from g\<rparr>, h')"
    "grown (Some v) h h'" "try_get h' v = Some (ObjGenerator g')" "gen_state g' = GenRunning"
    "gen_execution g' = gen_execution g" "gen_code g' = gen_code g"
proof -
  have run: "resume_object (gen_execution g) (ObjGenerator g) = Ok (\<lparr>res_code = gen_code g, res_ip = gen_ip g,
      res_registers = gen_registers g, res_cells = gen_cells g, res_exception_stack = gen_exception_stack g,
      res_resume_register = gen_resume_register g, res_yield_from = gen_yield_from g\<rparr>,
      ObjGenerator (g\<lparr>gen_state := GenRunning, gen_registers := [], gen_cells := [],
        gen_exception_stack := [], gen_resume_register := None, gen_yield_from := None\<rparr>))"
    using assms(3) by (auto simp: resume_object_def)
  obtain h' where "with_object h v (resume_object (gen_execution g)) = (Ok \<lparr>res_code = gen_code g, res_ip = gen_ip g,
      res_registers = gen_registers g, res_cells = gen_cells g, res_exception_stack = gen_exception_stack g,
      res_resume_register = gen_resume_register g, res_yield_from = gen_yield_from g\<rparr>, h')" "slots_wf h'"
    "try_get h' = (try_get h)(v \<mapsto> ObjGenerator (g\<lparr>gen_state := GenRunning, gen_registers := [], gen_cells := [],
        gen_exception_stack := [], gen_resume_register := None, gen_yield_from := None\<rparr>))"
    by (rule with_object_reads [where f = "resume_object (gen_execution g)", OF assms(1,2) run])
  then show thesis
    by (intro that [of h' "g\<lparr>gen_state := GenRunning, gen_registers := [], gen_cells := [],
        gen_exception_stack := [], gen_resume_register := None, gen_yield_from := None\<rparr>"])
      (simp_all add: resume_generator_def grown_def)
qed

lemma suspend_generator_heap:
  assumes "slots_wf h" "try_get h v = Some (ObjGenerator g)" "gen_state g = GenRunning"
  obtains h' g' where "suspend_generator h v s = (Ok (), h')" "grown (Some v) h h'"
    "try_get h' v = Some (ObjGenerator g')"
    "g' = g\<lparr>gen_ip := sus_ip s, gen_registers := sus_registers s, gen_cells := sus_cells s,
       gen_exception_stack := sus_exception_stack s, gen_resume_register := Some (sus_resume_register s),
       gen_yield_from := sus_yield_from s, gen_state := GenSuspended\<rparr>"
proof -
  obtain R where R: "write_barriers h v (suspended_values s) = (Ok (), h\<lparr>remembered := R\<rparr>)"
    using write_barriers_Ok [OF assms(1)] by blast
  have "slots_wf (h\<lparr>remembered := R\<rparr>)" "try_get (h\<lparr>remembered := R\<rparr>) v = Some (ObjGenerator g)"
    using assms(1,2) by (simp_all add: remembered_update_same)
  moreover have "suspend_object s (ObjGenerator g) = Ok ((), ObjGenerator (g\<lparr>gen_ip := sus_ip s,
       gen_registers := sus_registers s, gen_cells := sus_cells s, gen_exception_stack := sus_exception_stack s,
       gen_resume_register := Some (sus_resume_register s), gen_yield_from := sus_yield_from s,
       gen_state := GenSuspended\<rparr>))"
    using assms(3) by (simp add: suspend_object_def)
  ultimately obtain h' where "with_object (h\<lparr>remembered := R\<rparr>) v (suspend_object s) = (Ok (), h')" "slots_wf h'"
    "try_get h' = (try_get (h\<lparr>remembered := R\<rparr>))(v \<mapsto> ObjGenerator (g\<lparr>gen_ip := sus_ip s,
       gen_registers := sus_registers s, gen_cells := sus_cells s, gen_exception_stack := sus_exception_stack s,
       gen_resume_register := Some (sus_resume_register s), gen_yield_from := sus_yield_from s,
       gen_state := GenSuspended\<rparr>))"
    by (rule with_object_reads)
  then show thesis
    by (intro that [OF _ _ _ refl, of h']) (simp_all add: suspend_generator_def R grown_def remembered_update_same)
qed

section \<open>Resumption\<close>

text \<open>A machine with one more activation of the generator \<open>v\<close>.\<close>

definition resumed_with :: "tvalue \<Rightarrow> nat \<Rightarrow> 'act return_action \<Rightarrow> nat \<Rightarrow> nat \<Rightarrow> tvalue list \<Rightarrow> tvalue list \<Rightarrow> tvalue list \<Rightarrow>
    tvalue option \<Rightarrow> ('act, 'cls) vm \<Rightarrow> ('act, 'cls) vm \<Rightarrow> bool" where
  "resumed_with v destination action c ip regs cls handlers delegate m m' \<longleftrightarrow> (\<exists>fr.
     vm_registers m' = vm_registers m @ regs \<and> vm_cells m' = vm_cells m @ cls \<and>
     vm_frames m' = vm_frames m @ [fr] \<and> fr_base fr = length (vm_registers m) \<and>
     fr_cell_base fr = length (vm_cells m) \<and> fr_code fr = c \<and> fr_ip fr = ip \<and> fr_generator fr = Some v \<and>
     fr_exception_stack fr = handlers \<and> fr_yield_from fr = delegate \<and> fr_destination fr = Some destination \<and>
     fr_action fr = action \<and> grown (Some v) (vm_heap m) (vm_heap m') \<and>
     heap_generator_state (vm_heap m') v = Some GenRunning)"

definition receives :: "nat option \<Rightarrow> tvalue \<Rightarrow> tvalue list \<Rightarrow> tvalue list" where
  "receives target sent regs = (case target of None \<Rightarrow> regs | Some a \<Rightarrow> regs[a := sent])"

text \<open>The active frame runs the generator \<open>v\<close>, with the windows of its code object on top.\<close>

definition active_generator :: "program \<Rightarrow> ('act, 'cls) vm \<Rightarrow> tvalue \<Rightarrow> bool" where
  "active_generator p m v \<longleftrightarrow> (\<exists>g. let fr = last (vm_frames m); code = program_code p ! fr_code fr in
     vm_frames m \<noteq> [] \<and> fr_generator fr = Some v \<and> try_get (vm_heap m) v = Some (ObjGenerator g) \<and>
     gen_state g = GenRunning \<and> gen_code g = fr_code fr \<and> gen_execution g = vm_execution m \<and>
     fr_code fr < length (program_code p) \<and> (generator code \<or> coroutine code) \<and>
     length (vm_registers m) = fr_base fr + unat (registers code) \<and>
     length (vm_cells m) = fr_cell_base fr + cell_total code)"

lemma check_suspended_Ok: "check_suspended p g = Ok () \<longleftrightarrow> gen_code g < length (program_code p) \<and>
    (let code = program_code p ! gen_code g in (generator code \<or> coroutine code) \<and>
       length (gen_registers g) = unat (registers code) \<and> length (gen_cells g) = cell_total code)"
  by (auto simp: check_suspended_def Let_def res_simps)

lemma run_resume_call:
  fixes m :: "('act, 'cls) vm"
  assumes wf: "slots_wf (vm_heap m)" and g: "try_get (vm_heap m) v = Some (ObjGenerator g)"
    and ready: "gen_state g = GenSuspended \<or> gen_state g = GenCreated \<and> sent = NONE"
    and exe: "gen_execution g = vm_execution m"
    and fits: "check_suspended p g = Ok ()" "\<And>a. gen_resume_register g = Some a \<Longrightarrow> a < length (gen_registers g)"
  shows "case resume_call p v destination sent action m of
      (Ok _, m') \<Rightarrow> resumed_with v destination action (gen_code g) (gen_ip g)
        (receives (gen_resume_register g) sent (gen_registers g)) (gen_cells g) (gen_exception_stack g)
        (gen_yield_from g) m m' \<and> active_generator p m' v
    | (Err d, m') \<Rightarrow> m' = m \<and> diag_kind d \<in> {''RecursionError'', ''MemoryError''}
    | _ \<Rightarrow> False"
proof -
  have start: "not_resumable (vm_heap m) v sent = Ok ()" "expect_generator (vm_heap m) v = Ok g"
    using g ready by (auto simp: not_resumable_def heap_generator_state_def expect_generator_def heap_get_def ok_or_def)
  have "gen_state g \<in> {GenCreated, GenSuspended}" using ready by auto
  then show ?thesis
  proof (rule resume_generator_heap [OF wf g])
    fix h' g'
    assume r: "resume_generator (vm_heap m) v (gen_execution g) = (Ok \<lparr>res_code = gen_code g, res_ip = gen_ip g,
      res_registers = gen_registers g, res_cells = gen_cells g, res_exception_stack = gen_exception_stack g,
      res_resume_register = gen_resume_register g, res_yield_from = gen_yield_from g\<rparr>, h')"
      "grown (Some v) (vm_heap m) h'" "try_get h' v = Some (ObjGenerator g')" "gen_state g' = GenRunning"
      "gen_execution g' = gen_execution g" "gen_code g' = gen_code g"
    show ?thesis
      using start fits r fits(1) [unfolded check_suspended_Ok Let_def]
      by (auto simp: resume_call_def check_window_def Let_def ensure_def in_heap_def exe [symmetric] receive_def receives_def
          push_resumed_def resumed_with_def heap_generator_state_def diag_new_def active_generator_def
          split: option.splits)
  qed
qed

text \<open>In whatever machine of this execution the generator is resumed while its object is as it is now, it
  continues with these windows, or a limit is reached and nothing changes.\<close>

definition resumes_as :: "program \<Rightarrow> tvalue \<Rightarrow> ('act, 'cls) vm \<Rightarrow> tvalue \<Rightarrow> nat \<Rightarrow> nat \<Rightarrow> tvalue list \<Rightarrow> tvalue list \<Rightarrow>
    tvalue list \<Rightarrow> tvalue option \<Rightarrow> bool" where
  "resumes_as p v m sent c ip regs cls handlers delegate \<longleftrightarrow> (\<forall>m1 destination (action :: 'act return_action).
     slots_wf (vm_heap (m1 :: ('act, 'cls) vm)) \<longrightarrow> try_get (vm_heap m1) v = try_get (vm_heap m) v \<longrightarrow>
     vm_execution m1 = vm_execution m \<longrightarrow> (case resume_call p v destination sent action m1 of
         (Ok _, m2) \<Rightarrow> resumed_with v destination action c ip regs cls handlers delegate m1 m2 \<and>
           active_generator p m2 v
       | (Err d, m2) \<Rightarrow> m2 = m1 \<and> diag_kind d \<in> {''RecursionError'', ''MemoryError''}
       | _ \<Rightarrow> False))"

lemma resumes_asI:
  fixes m :: "('act, 'cls) vm"
  assumes "try_get (vm_heap m) v = Some (ObjGenerator g)" "gen_execution g = vm_execution m"
    and "gen_state g = GenSuspended \<or> gen_state g = GenCreated \<and> sent = NONE"
    and "check_suspended p g = Ok ()" "\<And>a. gen_resume_register g = Some a \<Longrightarrow> a < length (gen_registers g)"
  shows "resumes_as p v m sent (gen_code g) (gen_ip g) (receives (gen_resume_register g) sent (gen_registers g))
    (gen_cells g) (gen_exception_stack g) (gen_yield_from g)"
  unfolding resumes_as_def
proof (intro allI impI)
  fix m1 :: "('act, 'cls) vm" and destination action
  assume "slots_wf (vm_heap m1)" "try_get (vm_heap m1) v = try_get (vm_heap m) v" "vm_execution m1 = vm_execution m"
  then show "case resume_call p v destination sent action m1 of
      (Ok _, m2) \<Rightarrow> resumed_with v destination action (gen_code g) (gen_ip g)
        (receives (gen_resume_register g) sent (gen_registers g)) (gen_cells g) (gen_exception_stack g)
        (gen_yield_from g) m1 m2 \<and> active_generator p m2 v
    | (Err d, m2) \<Rightarrow> m2 = m1 \<and> diag_kind d \<in> {''RecursionError'', ''MemoryError''}
    | _ \<Rightarrow> False"
    using assms by (intro run_resume_call) auto
qed

section \<open>Suspension\<close>

lemma yield_register:
  assumes "verify p = Ok q" "code \<in> set (program_code p)" "pc < length (instructions code)"
    and "opcode (instructions code ! pc) \<in> {op_code OpYield, op_code OpAsyncYield}"
  shows "unat (ia (instructions code ! pc)) < unat (registers code)"
proof -
  let ?i = "instructions code ! pc"
  obtain s where code: "verify_code p s code = Ok ()" using assms(1,2) by (elim verify_Ok_parts) auto
  then have "verify_instruction p code (pc, ?i) = Ok ()"
    using verify_code_parts(1) assms(3) by (simp add: instructions_ok_def)
  then obtain x where x: "op_try_from (opcode ?i) = Ok x" and ops: "verify_operands p code x ?i = Ok ()"
    by (auto simp: verify_instruction_def res_simps)
  have "x = OpYield \<or> x = OpAsyncYield" using assms(4) op_try_from_Ok [OF x] op_code_eq_iff by (metis insertE singletonD)
  then show ?thesis
    using verify_operands_addressed [OF ops verify_sites_ok [OF code]]
    by (auto simp: registers_addressed_def Let_def)
qed

text \<open>C2: A generator that yields comes back as it was. In verified code the suspension always succeeds and
  changes nothing but the object of the generator; and whenever it is resumed afterwards, in any state of
  the stacks, the activation continues behind the yield with the same registers, cells, handlers and
  delegate, the value sent in the result register of the yield. The resumption can only be refused for
  the depth of the stack or the number of registers, and then nothing is lost.\<close>

theorem suspension_resumes:
  fixes m :: "('act, 'cls) vm"
  assumes "verify p = Ok q" "slots_wf (vm_heap m)" "active_generator p m v"
    and "fr = last (vm_frames m)" "code = program_code p ! fr_code fr" "i = instructions code ! (fr_ip fr - 1)"
    and "0 < fr_ip fr" "fr_ip fr \<le> length (instructions code)" "opcode i \<in> {op_code OpYield, op_code OpAsyncYield}"
  shows "case suspend_active_generator p m of (r, m1) \<Rightarrow> r = Ok () \<and> m1 = m\<lparr>vm_heap := vm_heap m1\<rparr> \<and>
    grown (Some v) (vm_heap m) (vm_heap m1) \<and>
    resumes_as p v m1 sent (fr_code fr) (fr_ip fr) ((drop (fr_base fr) (vm_registers m))[unat (ia i) := sent])
      (drop (fr_cell_base fr) (vm_cells m)) (fr_exception_stack fr) (fr_yield_from fr)"
proof -
  obtain g where g: "vm_frames m \<noteq> []" "fr_generator fr = Some v" "try_get (vm_heap m) v = Some (ObjGenerator g)"
      "gen_state g = GenRunning" "gen_code g = fr_code fr" "gen_execution g = vm_execution m"
      "fr_code fr < length (program_code p)" "generator code \<or> coroutine code"
      "length (vm_registers m) = fr_base fr + unat (registers code)"
      "length (vm_cells m) = fr_cell_base fr + cell_total code"
    using assms(3) unfolding active_generator_def Let_def assms(4,5) by blast
  let ?s = "\<lparr>sus_ip = fr_ip fr, sus_registers = drop (fr_base fr) (vm_registers m),
    sus_cells = drop (fr_cell_base fr) (vm_cells m), sus_exception_stack = fr_exception_stack fr,
    sus_resume_register = unat (ia i), sus_yield_from = fr_yield_from fr\<rparr>"
  have a: "unat (ia i) < unat (registers code)"
    using yield_register [OF assms(1)] assms(5-9) g(7) by simp
  obtain h' g' where h': "suspend_generator (vm_heap m) v ?s = (Ok (), h')" "grown (Some v) (vm_heap m) h'"
    "try_get h' v = Some (ObjGenerator g')"
    and g': "g' = g\<lparr>gen_ip := sus_ip ?s, gen_registers := sus_registers ?s, gen_cells := sus_cells ?s,
       gen_exception_stack := sus_exception_stack ?s, gen_resume_register := Some (sus_resume_register ?s),
       gen_yield_from := sus_yield_from ?s, gen_state := GenSuspended\<rparr>"
    by (rule suspend_generator_heap [OF assms(2) g(3,4)])
  have run: "suspend_active_generator p m = (Ok (), m\<lparr>vm_heap := h'\<rparr>)"
    using g assms(6-8) h'(1)
    by (simp add: suspend_active_generator_def Let_def assms(4) [symmetric] index_at_def assms(5) [symmetric]
        range_of_def suspended_frame_def in_heap_def)
  have "resumes_as p v (m\<lparr>vm_heap := h'\<rparr>) sent (gen_code g') (gen_ip g')
      (receives (gen_resume_register g') sent (gen_registers g')) (gen_cells g') (gen_exception_stack g') (gen_yield_from g')"
    by (rule resumes_asI) (use h' g a in \<open>simp_all add: g' check_suspended_Ok Let_def assms(5) [symmetric]\<close>)
  then show ?thesis using h'(2) by (simp add: run g' receives_def g(5))
qed

section \<open>Creation\<close>

lemma verified_code_count: "verify p = Ok q \<Longrightarrow> length (program_code p) \<le> 65535"
  by (auto simp: verify_def verify_header_def res_simps)

text \<open>C3: The call of a generator function or coroutine leaves the machine of the caller as it was, but for
  the new object in the destination register. The first resumption, in any state of the stacks, runs the
  frame the call bound: the same registers and cells, from the first instruction. The call may fail only
  for lack of memory.\<close>

theorem generator_call_resumes:
  fixes m :: "('act, 'cls) vm"
  assumes "verify p = Ok q" "c < length (program_code p)" "code = program_code p ! c" "generator code \<or> coroutine code"
    and "call_entered hl p c destination callable ps ks m m1"
    and "length (captures_of (vm_heap m) callable) = length (free_vars code)" "d < length (vm_registers m)"
  shows "case freeze_generator_call p d m1 of
      (Ok _, m2) \<Rightarrow> (\<exists>v. try_get (vm_heap m1) v = None \<and> grown None (vm_heap m) (vm_heap m2) \<and>
        heap_generator_state (vm_heap m2) v = Some GenCreated \<and>
        vm_registers m2 = (vm_registers m)[d := v] \<and> vm_cells m2 = vm_cells m \<and> vm_frames m2 = vm_frames m \<and>
        vm_arguments m2 = vm_arguments m \<and> vm_pending_classes m2 = vm_pending_classes m \<and>
        resumes_as p v m2 NONE c 0 (drop (length (vm_registers m)) (vm_registers m1))
          (drop (length (vm_cells m)) (vm_cells m1)) [] None)
    | (Err e, m2) \<Rightarrow> diag_kind e = ''MemoryError''
    | _ \<Rightarrow> False"
proof -
  obtain win cs fr where m1: "vm_registers m1 = vm_registers m @ win" "length win = unat (registers code)"
    "vm_cells m1 = vm_cells m @ cs @ captures_of (vm_heap m) callable" "length cs = length (cell_locals code)"
    "grown None (vm_heap m) (vm_heap m1)" "vm_frames m1 = vm_frames m @ [fr]" "fr_code fr = c" "fr_ip fr = 0"
    "fr_base fr = length (vm_registers m)" "fr_cell_base fr = length (vm_cells m)" "fr_generator fr = None"
    "fr_exception_stack fr = []" "fr_argument_base fr = length (vm_arguments m)"
    "fr_pending_class_base fr = length (vm_pending_classes m)" "vm_arguments m1 = vm_arguments m"
    "vm_pending_classes m1 = vm_pending_classes m" "vm_execution m1 = vm_execution m"
    using assms(5) unfolding call_entered_def Let_def assms(3) by blast
  let ?cls = "cs @ captures_of (vm_heap m) callable"
  define m' where "m' = m1\<lparr>vm_frames := vm_frames m, vm_registers := vm_registers m, vm_cells := vm_cells m,
    vm_arguments := vm_arguments m, vm_pending_classes := vm_pending_classes m\<rparr>"
  let ?g = "frozen_frame m' code fr win ?cls"
  have c: "c mod 65536 = c" using verified_code_count [OF assms(1)] assms(2) by simp
  have run: "freeze_generator_call p d m1 =
      run_then (in_heap m' (\<lambda>h. alloc h (ObjGenerator ?g))) (\<lambda>v m3. vm_set m3 d v)"
    using assms(2,4) m1
    by (auto simp: freeze_generator_call_def Let_def index_at_def assms(3) [symmetric] take_windows_def split_off_def m'_def)
  show ?thesis
  proof (rule alloc_outcome [OF grown_wf [OF m1(5)], of "ObjGenerator ?g"])
    fix e assume "alloc (vm_heap m1) (ObjGenerator ?g) = (Err e, vm_heap m1)" "diag_kind e = ''MemoryError''"
    then show ?thesis by (simp add: run in_heap_def m'_def)
  next
    fix v h' assume h': "alloc (vm_heap m1) (ObjGenerator ?g) = (Ok v, h')" "grown None (vm_heap m1) h'"
      "try_get h' v = Some (ObjGenerator ?g)" "try_get (vm_heap m1) v = None"
    let ?m2 = "m'\<lparr>vm_heap := h', vm_registers := (vm_registers m)[d := v]\<rparr>"
    have "resumes_as p v ?m2 NONE (gen_code ?g) (gen_ip ?g) (receives (gen_resume_register ?g) NONE (gen_registers ?g))
        (gen_cells ?g) (gen_exception_stack ?g) (gen_yield_from ?g)"
      by (rule resumes_asI)
        (use h'(3) m1 assms in \<open>simp_all add: frozen_frame_def check_suspended_Ok c cell_total_def m'_def\<close>)
    moreover have "freeze_generator_call p d m1 = (Ok (), ?m2)"
      using h'(1) assms(7) by (simp add: run in_heap_def m'_def vm_set_def)
    ultimately show ?thesis
      using h' m1 grown_trans [OF m1(5) h'(2)]
      by (auto simp: heap_generator_state_def frozen_frame_def m'_def receives_def c)
  qed
qed

section \<open>Example\<close>

text \<open>\<open>def f(): x = yield None; return x\<close>, running in the only frame, and its call.\<close>

definition echo_code :: code_object where
  "echo_code = example_code True False []
     [instr_new OpConst 0 0 0, instr_new OpYield 1 0 0, instr_new OpReturn 1 0 0]"

lemma echo_verified: "verify (example_program [echo_code]) = Ok (example_program [echo_code])"
proof (rule verify_example_program)
  show "\<forall>f\<in>set [echo_code]. verify_code (example_program [echo_code]) {0} f = Ok ()"
    unfolding echo_code_def
    by (simp, rule verify_example_code) (simp_all add: verify_instruction_new verify_operands_defs verify_checks
        binary_ops_def word_le_nat_alt)
  show "\<forall>f\<in>set [echo_code]. verify_argument_stack f = Ok ()"
    by (simp add: echo_code_def verify_argument_stack_def stack_depths_def stack_visit_new stack_effect_def
        stack_edges_def)
qed simp

definition echo_vm :: "(unit, unit) vm" where
  "echo_vm = keyword_vm\<lparr>vm_heap := heap_default\<lparr>allocations := 1, slots := [\<lparr>slot_generation = 1, slot_location = Some 0\<rparr>],
       objects := [\<lparr>ho_object = ObjGenerator \<lparr>gen_class = NONE, gen_kind = KindGenerator, gen_execution = 0, gen_code = 1,
         gen_ip = 0, gen_registers = [], gen_cells = [], gen_exception_stack = [], gen_resume_register = None,
         gen_yield_from = None, gen_async_driver = None, gen_return_value = NONE, gen_state = GenRunning\<rparr>,
         ho_slot = 0, ho_young = True\<rparr>]\<rparr>,
     vm_registers := [UNBOUND, NONE, NONE],
     vm_frames := [\<lparr>fr_namespace = None, fr_action = ReturnValue, fr_code = 1, fr_ip = 2, fr_base = 1,
       fr_destination = Some 0, fr_cell_base = 0, fr_argument_base = 0, fr_pending_class_base = 0,
       fr_callable = None, fr_generator = Some (value_heap 0 1), fr_yield_from = None, fr_injected_exception = None,
       fr_exception_stack = [], fr_jit_attempted = True, fr_jit_resume = False, fr_jit_expanded_resume_depth = None\<rparr>]\<rparr>"

lemma suspension_resumes_witness:
  "fst (suspend_active_generator (example_program [echo_code]) echo_vm) = Ok () \<and>
   resumes_as (example_program [echo_code]) (value_heap 0 1)
     (snd (suspend_active_generator (example_program [echo_code]) echo_vm)) (value_bool True) 1 2
     [NONE, value_bool True] [] [] None"
proof -
  let ?p = "example_program [echo_code]" and ?fr = "last (vm_frames echo_vm)"
  have "slots_wf (vm_heap echo_vm)"
    by (simp add: echo_vm_def heap_default_def slots_wf_def MAX_GENERATION_def)
  moreover have "active_generator ?p echo_vm (value_heap 0 1)"
    by (simp add: active_generator_def echo_vm_def keyword_vm_def heap_default_def try_get_def location_def
        heap_index_value_heap generation_value_heap MAX_GENERATION_def cell_total_def echo_code_def)
  ultimately show ?thesis
    using suspension_resumes [OF echo_verified, of echo_vm "value_heap 0 1" ?fr "program_code ?p ! fr_code ?fr"
      "instructions (program_code ?p ! fr_code ?fr) ! (fr_ip ?fr - 1)" "value_bool True"]
    by (simp add: echo_vm_def keyword_vm_def echo_code_def split: prod.splits)
qed

lemma generator_call_resumes_witness:
  "\<forall>lib hl. let p = example_program [echo_code]; call = enter_frame lib hl p 1 (Some 0) (Inline None [] 0) None keyword_vm in
     fst call = Ok () \<and> (\<exists>v m2. freeze_generator_call p 0 (snd call) = (Ok (), m2) \<and>
       resumes_as p v m2 NONE 1 0 [UNBOUND, UNBOUND] [] [] None)"
proof (intro allI)
  fix lib hl
  let ?p = "example_program [echo_code]"
  let ?call = "enter_frame lib hl ?p 1 (Some 0) (Inline None [] 0) None keyword_vm"
  let ?m = "push_frame 1 1 (Suc (Suc (Suc 0))) (Some 0) None 0 (keyword_vm\<lparr>vm_registers := [value_bool True, UNBOUND, UNBOUND]\<rparr>)"
  have call: "?call = (Ok (), ?m)"
    by (simp add: enter_frame_def echo_code_def keyword_vm_def limits_default_def index_at_def frame_window_def
        USIZE_LIMIT_def Let_def bind_arguments_def arguments_count_def receiver_count_def bind_vararg_def bind_kwarg_def
        named_count_def example_code_def resize_registers_def fill_parameters_def bind_defaults_def
        bind_type_params_def open_frame_def add_captures_def)
  have "call_values ?p (Inline None [] 0) (vm_registers keyword_vm) [] []"
    by (simp add: call_values_def arguments_count_def receiver_count_def)
  then have "runs ?call (\<lambda>_ s. call_accepted ?p (program_code ?p ! 1) [] []
        (default_values (vm_heap keyword_vm) (program_code ?p ! 1) None) \<and>
      call_entered hl ?p 1 (Some 0) None [] [] keyword_vm s) (call_failure (call_accepted ?p (program_code ?p ! 1) [] []
        (default_values (vm_heap keyword_vm) (program_code ?p ! 1) None)))"
    by (intro run_enter_frame [OF echo_verified _ _ _ _ _ refl refl])
      (simp_all add: keyword_vm_def heap_default_def slots_wf_def callable_ok_def type_params_apart_def echo_code_def)
  then have entered: "call_entered hl ?p 1 (Some 0) None [] [] keyword_vm ?m"
    unfolding call by simp
  have "fst (freeze_generator_call ?p 0 ?m) = Ok ()"
    by (simp add: freeze_generator_call_def push_frame_def keyword_vm_def index_at_def take_windows_def split_off_def
        in_heap_def alloc_def heap_default_def vm_set_def echo_code_def)
  moreover have "vm_registers ?m = [value_bool True, UNBOUND, UNBOUND]" "vm_cells ?m = []"
    "vm_registers keyword_vm = [value_bool True]" "vm_cells keyword_vm = []" "free_vars echo_code = []"
    "generator echo_code"
    by (simp_all add: push_frame_def keyword_vm_def echo_code_def)
  ultimately have "\<exists>v m2. freeze_generator_call ?p 0 ?m = (Ok (), m2) \<and>
      resumes_as ?p v m2 NONE 1 0 [UNBOUND, UNBOUND] [] [] None"
    using generator_call_resumes [OF echo_verified _ refl _ entered, of 0]
    by (cases "freeze_generator_call ?p 0 ?m") (auto simp: captures_of_def)
  then show "let p = ?p; call = enter_frame lib hl p 1 (Some 0) (Inline None [] 0) None keyword_vm in
     fst call = Ok () \<and> (\<exists>v m2. freeze_generator_call p 0 (snd call) = (Ok (), m2) \<and>
       resumes_as p v m2 NONE 1 0 [UNBOUND, UNBOUND] [] [] None)"
    by (simp only: Let_def call fst_conv snd_conv simp_thms)
qed

end
